(* ===== verification/Prelude.thy ===== *)
theory Prelude
  imports Complex_Main "HOL-Library.AList" "HOL-Library.List_Lexorder" "HOL-Library.Char_ord"
begin

text \<open>
  Shared vocabulary of the development: Python values, dictionaries as association lists
  in insertion order, results of fallible code, and the generic lemmas the components use.

  \<^item> A Python \<open>str\<close> is a \<^typ>\<open>string\<close>; its characters are code points below 256.
  \<^item> A \<open>dict\<close> with string keys is an association list in insertion order.
    \<open>d[k] = v\<close> is \<open>AList.update k v d\<close> (in place when the key is there, appended
    otherwise), \<open>d.pop(k, None)\<close> and \<open>del d[k]\<close> are \<open>AList.delete k d\<close>, \<open>d.get(k)\<close> is
    \<open>map_of d k\<close>.
  \<^item> \<open>pyval\<close> is the JSON-like data that requests, configurations and thread records
    carry. \<open>PObj a\<close> is a reference to an opaque Python object with identity \<open>a\<close>.
    Floating-point numbers are not part of it.
  \<^item> Code that may raise returns \<open>error + result\<close>, \<open>Inl\<close> for the exception.
\<close>

section \<open>Lemma collections\<close>

named_theorems dict_simps "lookups after dictionary operations"
named_theorems step_defs "definitions of the atomic steps of a component"
named_theorems op_defs "definitions of the operations of a component"

section \<open>Python values\<close>

type_synonym 'v dict = "(string \<times> 'v) list"

datatype pyval =
    PNone
  | PBool bool
  | PInt int
  | PStr string
  | PList "pyval list"
  | PDict "(string \<times> pyval) list"
  | PObj nat

text \<open>\<open>isinstance(v, dict)\<close>, \<open>isinstance(v, list)\<close> and the truth value of an object.\<close>

fun is_dict :: "pyval \<Rightarrow> bool" where
  "is_dict (PDict _) = True"
| "is_dict _ = False"

fun is_list :: "pyval \<Rightarrow> bool" where
  "is_list (PList _) = True"
| "is_list _ = False"

fun truthy :: "pyval \<Rightarrow> bool" where
  "truthy PNone = False"
| "truthy (PBool b) = b"
| "truthy (PInt i) = (i \<noteq> 0)"
| "truthy (PStr s) = (s \<noteq> [])"
| "truthy (PList xs) = (xs \<noteq> [])"
| "truthy (PDict d) = (d \<noteq> [])"
| "truthy (PObj _) = True"

fun as_dict :: "pyval \<Rightarrow> pyval dict option" where
  "as_dict (PDict d) = Some d"
| "as_dict _ = None"

lemma size_snd_PDict [simp]:
  "kv \<in> set d \<Longrightarrow> size (snd kv) < size (PDict d)"
proof (induction d)
  case (Cons a d)
  then show ?case by (cases a) (auto simp: less_Suc_eq)
qed simp

lemma size_PList_elem [simp]: "x \<in> set xs \<Longrightarrow> size x < size (PList xs)"
  by (induction xs) auto

lemma size_list_values:
  "size_list (\<lambda>kv. size (snd kv)) d \<le> size_list (size_prod (\<lambda>_. 0) size) d"
  by (induction d) auto

section \<open>Dictionaries\<close>

abbreviation dict_get :: "'v dict \<Rightarrow> string \<Rightarrow> 'v option" where
  "dict_get d k \<equiv> map_of d k"

abbreviation dict_keys :: "'v dict \<Rightarrow> string set" where
  "dict_keys d \<equiv> fst ` set d"

definition dict_ok :: "'v dict \<Rightarrow> bool" where
  "dict_ok d = distinct (map fst d)"

text \<open>\<open>{**a, **b}\<close> and \<open>a.update(b)\<close>.\<close>

definition dict_merge :: "'v dict \<Rightarrow> 'v dict \<Rightarrow> 'v dict" where
  "dict_merge a b = fold (\<lambda>kv d. AList.update (fst kv) (snd kv) d) b a"

text \<open>\<open>{k: v for k, v in d.items() if k not in ks}\<close>.\<close>

definition dict_drop :: "string list \<Rightarrow> 'v dict \<Rightarrow> 'v dict" where
  "dict_drop ks d = filter (\<lambda>kv. fst kv \<notin> set ks) d"

lemma map_of_update [simp, dict_simps]:
  "map_of (AList.update k v d) j = (if j = k then Some v else map_of d j)"
  by (simp add: update_conv)

lemma map_of_delete [simp, dict_simps]:
  "map_of (AList.delete k d) j = (if j = k then None else map_of d j)"
  by (simp add: delete_conv)

lemma map_of_dict_drop [simp, dict_simps]:
  "map_of (dict_drop ks d) j = (if j \<in> set ks then None else map_of d j)"
  by (induction d) (auto simp: dict_drop_def)

lemma dict_ok_Nil [simp]: "dict_ok []"
  by (simp add: dict_ok_def)

lemma dict_ok_update [simp]: "dict_ok d \<Longrightarrow> dict_ok (AList.update k v d)"
  by (simp add: dict_ok_def distinct_update)

lemma dict_ok_delete [simp]: "dict_ok d \<Longrightarrow> dict_ok (AList.delete k d)"
  by (simp add: dict_ok_def distinct_delete)

lemma dict_ok_drop [simp]: "dict_ok d \<Longrightarrow> dict_ok (dict_drop ks d)"
  unfolding dict_ok_def dict_drop_def by (rule distinct_map_filter)

lemma dict_merge_Nil [simp]: "dict_merge a [] = a"
  by (simp add: dict_merge_def)

lemma dict_merge_Cons [simp]:
  "dict_merge a (kv # b) = dict_merge (AList.update (fst kv) (snd kv) a) b"
  by (simp add: dict_merge_def)

lemma map_of_dict_merge:
  "dict_ok b \<Longrightarrow> map_of (dict_merge a b) j = (case map_of b j of None \<Rightarrow> map_of a j | Some v \<Rightarrow> Some v)"
proof (induction b arbitrary: a)
  case (Cons kv b)
  then have "map_of b (fst kv) = None"
    by (auto simp: dict_ok_def map_of_eq_None_iff)
  with Cons show ?case by (auto simp: dict_ok_def split: option.splits)
qed simp

lemma map_of_dict_merge_notin:
  "j \<notin> dict_keys b \<Longrightarrow> map_of (dict_merge a b) j = map_of a j"
  by (induction b arbitrary: a) auto

lemma dict_ok_merge [simp]: "dict_ok a \<Longrightarrow> dict_ok (dict_merge a b)"
  by (induction b arbitrary: a) auto

lemma dict_keys_update [simp]: "dict_keys (AList.update k v d) = insert k (dict_keys d)"
  by (induction d) auto

lemma update_new: "k \<notin> dict_keys d \<Longrightarrow> AList.update k v d = d @ [(k, v)]"
  by (induction d) auto

lemma keys_delete: "dict_keys (AList.delete k d) = dict_keys d - {k}"
  by (induction d) auto

lemma map_of_in_keys: "map_of d k = Some v \<Longrightarrow> k \<in> dict_keys d"
  by (metis domI dom_map_of_conv_image_fst)

lemma map_of_Some_keys [simp]: "(map_of d k \<noteq> None) = (k \<in> dict_keys d)"
  by (metis map_of_eq_None_iff)

section \<open>Results\<close>

text \<open>Sequencing of fallible code: an exception ends the computation.\<close>

definition bind_res :: "'e + 'a \<Rightarrow> ('a \<Rightarrow> 'e + 'b) \<Rightarrow> 'e + 'b" where
  "bind_res r f = (case r of Inl e \<Rightarrow> Inl e | Inr x \<Rightarrow> f x)"

lemma bind_res_simps [simp]:
  "bind_res (Inl e) f = Inl e" "bind_res (Inr x) f = f x"
  by (simp_all add: bind_res_def)

lemma bind_res_Inr: "(bind_res r f = Inr y) = (\<exists>x. r = Inr x \<and> f x = Inr y)"
  by (cases r) auto

lemma not_isl_Inr: "\<not> isl r \<Longrightarrow> \<exists>x. r = Inr x"
  by (cases r) auto

section \<open>Python equality\<close>

text \<open>
  Python's \<open>==\<close> on JSON-like values: \<open>True == 1\<close> and \<open>False == 0\<close>, lists compare element by
  element, dictionaries compare as finite maps whatever their insertion order, and opaque
  objects compare by identity.
\<close>

function (sequential) py_eq :: "pyval \<Rightarrow> pyval \<Rightarrow> bool" where
  "py_eq PNone PNone = True"
| "py_eq (PBool a) (PBool b) = (a = b)"
| "py_eq (PBool a) (PInt j) = ((if a then 1 else 0) = j)"
| "py_eq (PInt i) (PBool b) = (i = (if b then 1 else 0))"
| "py_eq (PInt i) (PInt j) = (i = j)"
| "py_eq (PStr s) (PStr t) = (s = t)"
| "py_eq (PList xs) (PList ys) =
     (length xs = length ys \<and> list_all (\<lambda>p. py_eq (fst p) (snd p)) (zip xs ys))"
| "py_eq (PDict d) (PDict e) =
     (length d = length e \<and>
      list_all (\<lambda>kv. case map_of e (fst kv) of None \<Rightarrow> False | Some w \<Rightarrow> py_eq (snd kv) w) d)"
| "py_eq (PObj a) (PObj b) = (a = b)"
| "py_eq _ _ = False"
  by pat_completeness auto
termination
  by (relation "measure (\<lambda>(v, w). size v)")
    (auto dest!: set_zip_leftD size_snd_PDict size_PList_elem simp del: pyval.size)

lemma zip_same_list_all: "(\<And>x. x \<in> set xs \<Longrightarrow> P (x, x)) \<Longrightarrow> list_all P (zip xs xs)"
  by (induction xs) auto

text \<open>Dictionaries with duplicate keys are no Python values.\<close>

fun py_wf :: "pyval \<Rightarrow> bool" where
  "py_wf (PList xs) = list_all py_wf xs"
| "py_wf (PDict d) = (distinct (map fst d) \<and> list_all (\<lambda>kv. py_wf (snd kv)) d)"
| "py_wf _ = True"

lemma py_eq_refl: "py_wf v \<Longrightarrow> py_eq v v"
proof (induction v)
  case (PList xs)
  then show ?case by (auto simp: list_all_iff in_set_zip set_zip intro!: zip_same_list_all)
next
  case (PDict d)
  then show ?case by (fastforce simp: list_all_iff snds.simps)
qed auto

section \<open>Splitting\<close>

text \<open>\<open>s.split(c)\<close> for one character.\<close>

fun split_on :: "char \<Rightarrow> string \<Rightarrow> string list" where
  "split_on c [] = [[]]"
| "split_on c (x # xs) =
     (if x = c then [] # split_on c xs
      else (case split_on c xs of [] \<Rightarrow> [[x]] | l # ls \<Rightarrow> (x # l) # ls))"

lemma split_on_none: "c \<notin> set l \<Longrightarrow> split_on c l = [l]"
  by (induction l) auto

lemma split_on_append: "c \<notin> set l \<Longrightarrow> split_on c (l @ c # s) = l # split_on c s"
  by (induction l) auto

lemma split_on_ne [simp]: "split_on c s \<noteq> []"
  by (induction s) (auto split: list.splits)

lemma split_on_two: "split_on c (a @ c # b) = split_on c a @ split_on c b"
  by (induction a) (auto split: list.splits)

lemma split_on_last: "c \<notin> set b \<Longrightarrow> last (split_on c (a @ c # b)) = b"
  by (simp add: split_on_two split_on_none)

end
