(* ===== verification/Validation.thy ===== *)
theory Validation
  imports Prelude
begin

text \<open>
  Transport-agnostic input validation, \<^verbatim>\<open>_validation.py\<close>. A validator returns an error
  message or nothing; here a message is a constructor of \<open>verror\<close> carrying the values
  the text interpolates, and \<open>None\<close> is success. Sizes and counters are natural numbers.
\<close>

datatype verror =
    EmptyGraphName
  | InvalidGraphName string
  | EmptyThreadId
  | ThreadIdTooLong nat
  | ThreadIdNotPrintable
  | BodyTooLarge nat nat
  | TooDeep nat
  | TooManyNodes nat
  | OnlyConfigurable
  | InternalKey
  | UnapprovedKey

section \<open>Names\<close>

definition is_letter :: "char \<Rightarrow> bool" where
  "is_letter c = ((CHR ''a'' \<le> c \<and> c \<le> CHR ''z'') \<or> (CHR ''A'' \<le> c \<and> c \<le> CHR ''Z''))"

definition is_name_char :: "char \<Rightarrow> bool" where
  "is_name_char c =
     (is_letter c \<or> (CHR ''0'' \<le> c \<and> c \<le> CHR ''9'') \<or> c = CHR ''_'' \<or> c = CHR ''-'')"

definition is_printable :: "char \<Rightarrow> bool" where
  "is_printable c = (CHR '' '' \<le> c \<and> c \<le> CHR ''~'')"

text \<open>
  \<open>re.match\<close> with a pattern \<open>^...$\<close>: without \<open>re.MULTILINE\<close> the \<open>$\<close> matches at the end
  of the string and also just before a newline that ends it. The candidates for the part
  matched by \<open>...\<close> are therefore the string and, when it ends in a newline, the string
  without it.
\<close>

definition dollar_bodies :: "string \<Rightarrow> string list" where
  "dollar_bodies s = s # (if s \<noteq> [] \<and> last s = CHR 0x0A then [butlast s] else [])"

definition graph_name_body :: "string \<Rightarrow> bool" where
  "graph_name_body s =
     (case s of [] \<Rightarrow> False
      | c # cs \<Rightarrow> is_letter c \<and> list_all is_name_char cs \<and> length cs \<le> 63)"

definition validate_graph_name :: "string \<Rightarrow> verror option" where
  "validate_graph_name name =
     (if name = [] then Some EmptyGraphName
      else if \<not> list_ex graph_name_body (dollar_bodies name) then Some (InvalidGraphName name)
      else None)"

definition max_thread_id_length :: nat where
  "max_thread_id_length = 256"

definition printable_body :: "string \<Rightarrow> bool" where
  "printable_body s = (s \<noteq> [] \<and> list_all is_printable s)"

definition validate_thread_id :: "string \<Rightarrow> verror option" where
  "validate_thread_id tid =
     (if tid = [] then Some EmptyThreadId
      else if length tid > max_thread_id_length then Some (ThreadIdTooLong max_thread_id_length)
      else if \<not> list_ex printable_body (dollar_bodies tid) then Some ThreadIdNotPrintable
      else None)"

definition validate_body_size :: "nat \<Rightarrow> nat \<Rightarrow> verror option" where
  "validate_body_size n max_bytes = (if n > max_bytes then Some (BodyTooLarge n max_bytes) else None)"

section \<open>Depth and node count\<close>

text \<open>
  \<open>_count_depth_and_nodes\<close> walks the values of a dictionary or the items of a list, with
  a running node count, and stops at the first limit it passes. The loop over the children
  is \<open>count_children\<close>.
\<close>

function (sequential) count_depth_and_nodes ::
    "pyval \<Rightarrow> nat \<Rightarrow> nat \<Rightarrow> nat \<Rightarrow> nat \<Rightarrow> nat \<times> verror option"
and count_children ::
    "pyval list \<Rightarrow> nat \<Rightarrow> nat \<Rightarrow> nat \<Rightarrow> nat \<Rightarrow> nat \<times> verror option" where
  "count_depth_and_nodes v depth max_depth n max_nodes =
     (if depth > max_depth then (n, Some (TooDeep max_depth))
      else if n > max_nodes then (n, Some (TooManyNodes max_nodes))
      else (case v of
          PDict d \<Rightarrow> count_children (map snd d) depth max_depth n max_nodes
        | PList xs \<Rightarrow> count_children xs depth max_depth n max_nodes
        | _ \<Rightarrow> (n, None)))"
| "count_children [] depth max_depth n max_nodes = (n, None)"
| "count_children (x # xs) depth max_depth n max_nodes =
     (if Suc n > max_nodes then (Suc n, Some (TooManyNodes max_nodes))
      else (case count_depth_and_nodes x (Suc depth) max_depth (Suc n) max_nodes of
          (n', Some e) \<Rightarrow> (n', Some e)
        | (n', None) \<Rightarrow> count_children xs depth max_depth n' max_nodes))"
  by pat_completeness auto
termination
  by (relation "measure (\<lambda>x. case x of Inl (v, _) \<Rightarrow> Suc (2 * size v)
        | Inr (xs, _) \<Rightarrow> 2 * size_list size xs)")
    (auto simp: less_Suc_eq_le comp_def
      intro!: le_SucI size_list_values)

declare count_depth_and_nodes.simps [simp del]

definition validate_input_structure :: "pyval \<Rightarrow> nat \<Rightarrow> nat \<Rightarrow> verror option" where
  "validate_input_structure data max_depth max_nodes =
     (if \<not> (is_dict data \<or> is_list data) then None
      else snd (count_depth_and_nodes data 1 max_depth 0 max_nodes))"

definition validate_native_config :: "pyval dict \<Rightarrow> string list \<Rightarrow> verror option" where
  "validate_native_config config allowed =
     (if list_ex (\<lambda>kv. fst kv \<noteq> ''configurable'') config then Some OnlyConfigurable
      else (case map_of config ''configurable'' of
          Some (PDict conf) \<Rightarrow>
            (if list_ex (\<lambda>kv. take 2 (fst kv) = ''__'') conf then Some InternalKey
             else if list_ex (\<lambda>kv. fst kv \<notin> set (''thread_id'' # allowed)) conf
               then Some UnapprovedKey
             else None)
        | _ \<Rightarrow> None))"

section \<open>What the validators accept\<close>

text \<open>Depth and number of descendants of a value, defined on the value alone.\<close>

fun children :: "pyval \<Rightarrow> pyval list" where
  "children (PDict d) = map snd d"
| "children (PList xs) = xs"
| "children _ = []"

lemma children_size: "c \<in> set (children v) \<Longrightarrow> size c < size v"
  by (cases v) (auto dest!: size_snd_PDict size_PList_elem simp del: pyval.size)

function py_depth :: "pyval \<Rightarrow> nat" where
  "py_depth v = Suc (Max (insert 0 (set (map py_depth (children v)))))"
  by pat_completeness auto
termination by (relation "measure size") (auto dest: children_size)

function py_nodes :: "pyval \<Rightarrow> nat" where
  "py_nodes v = sum_list (map (\<lambda>c. Suc (py_nodes c)) (children v))"
  by pat_completeness auto
termination by (relation "measure size") (auto dest: children_size)

declare py_depth.simps [simp del] py_nodes.simps [simp del]

definition nodes_of :: "pyval list \<Rightarrow> nat" where
  "nodes_of xs = sum_list (map (\<lambda>c. Suc (py_nodes c)) xs)"

lemma py_depth_le: "py_depth v \<le> k \<longleftrightarrow> 0 < k \<and> (\<forall>c\<in>set (children v). py_depth c < k)"
  by (cases k) (auto simp: py_depth.simps [of v] less_Suc_eq_le)

lemma count_unfold:
  "count_depth_and_nodes v depth max_depth n max_nodes =
     (if depth > max_depth then (n, Some (TooDeep max_depth))
      else if n > max_nodes then (n, Some (TooManyNodes max_nodes))
      else count_children (children v) depth max_depth n max_nodes)"
  by (cases v) (auto simp: count_depth_and_nodes.simps)

text \<open>
  The recursive count with a running total agrees with depth and size defined on the
  value: no error exactly when both limits hold, and then the total is exact.
\<close>

lemma py_depth_pos [simp]: "0 < py_depth v"
  by (simp add: py_depth.simps [of v])

lemma depth_children:
  "depth \<le> md \<Longrightarrow>
   depth + py_depth v \<le> Suc md \<longleftrightarrow> (\<forall>c\<in>set (children v). depth + py_depth c \<le> md)"
  using py_depth_le [of v "Suc md - depth"] by (auto simp: less_diff_conv Suc_diff_le)

lemma nodes_children: "py_nodes v = nodes_of (children v)"
  by (simp add: py_nodes.simps [of v] nodes_of_def)

lemma nodes_of_simps [simp]:
  "nodes_of [] = 0" "nodes_of (x # xs) = Suc (py_nodes x + nodes_of xs)"
  by (simp_all add: nodes_of_def)

lemma count_spec:
  "count_depth_and_nodes v depth md n mn = (m, r) \<Longrightarrow>
     (r = None \<longleftrightarrow> depth + py_depth v \<le> Suc md \<and> n + py_nodes v \<le> mn) \<and>
     (r = None \<longrightarrow> m = n + py_nodes v)"
  "count_children xs depth md n mn = (m, r) \<Longrightarrow> depth \<le> md \<Longrightarrow> n \<le> mn \<Longrightarrow>
     (r = None \<longleftrightarrow> (\<forall>c\<in>set xs. depth + py_depth c \<le> md) \<and> n + nodes_of xs \<le> mn) \<and>
     (r = None \<longrightarrow> m = n + nodes_of xs)"
proof (induction v depth md n mn and xs depth md n mn arbitrary: m r and m r
    rule: count_depth_and_nodes_count_children.induct)
  case (1 v depth md n mn)
  have IH: "count_children (children v) depth md n mn = (m, r) \<Longrightarrow> depth \<le> md \<Longrightarrow> n \<le> mn \<Longrightarrow>
     (r = None \<longleftrightarrow> (\<forall>c\<in>set (children v). depth + py_depth c \<le> md) \<and> n + nodes_of (children v) \<le> mn) \<and>
     (r = None \<longrightarrow> m = n + nodes_of (children v))"
  proof (cases v)
    case (PDict d)
    assume "count_children (children v) depth md n mn = (m, r)" "depth \<le> md" "n \<le> mn"
    with "1.IH"(2) [of d m r] PDict show ?thesis by (simp only: children.simps not_less simp_thms True_implies_equals) blast
  next
    case (PList xs)
    assume "count_children (children v) depth md n mn = (m, r)" "depth \<le> md" "n \<le> mn"
    with "1.IH"(1) [of xs m r] PList show ?thesis by (simp only: children.simps not_less simp_thms True_implies_equals) blast
  qed simp_all
  show ?case
  proof (cases "depth \<le> md \<and> n \<le> mn")
    case True
    then have "count_children (children v) depth md n mn = (m, r)"
      using "1.prems" by (simp add: count_unfold)
    with True IH show ?thesis by (simp add: depth_children nodes_children)
  next
    case False
    moreover have "depth + py_depth v > Suc md" if "depth > md"
      using py_depth_pos [of v] that by linarith
    ultimately show ?thesis using "1.prems" by (auto simp: count_unfold split: if_splits)
  qed
next
  case (2 depth md n mn)
  then show ?case by simp
next
  case (3 x xs depth md n mn)
  obtain m1 r1 where x: "count_depth_and_nodes x (Suc depth) md (Suc n) mn = (m1, r1)"
    by (cases "count_depth_and_nodes x (Suc depth) md (Suc n) mn")
  show ?case
  proof (cases "Suc n \<le> mn")
    case fits: True
    have hd: "(r1 = None \<longleftrightarrow> Suc depth + py_depth x \<le> Suc md \<and> Suc n + py_nodes x \<le> mn) \<and>
        (r1 = None \<longrightarrow> m1 = Suc n + py_nodes x)"
      using fits by (intro "3.IH"(1) [OF _ x]) simp
    show ?thesis
    proof (cases r1)
      case None
      with fits x "3.prems"(1) have tl: "count_children xs depth md m1 mn = (m, r)" by simp
      from None hd have m1: "m1 = Suc n + py_nodes x" "m1 \<le> mn" "depth + py_depth x \<le> md"
        by auto
      have "(r = None \<longleftrightarrow> (\<forall>c\<in>set xs. depth + py_depth c \<le> md) \<and> m1 + nodes_of xs \<le> mn) \<and>
          (r = None \<longrightarrow> m = m1 + nodes_of xs)"
        by (rule "3.IH"(2) [OF _ x [symmetric] None tl "3.prems"(2) m1(2)]) (use fits in simp)
      with m1 show ?thesis by (simp add: add.assoc)
    next
      case (Some e)
      with fits x "3.prems"(1) have "r = Some e" by simp
      moreover have "\<not> (depth + py_depth x \<le> md \<and> Suc n + py_nodes x \<le> mn)"
        using hd Some by simp
      ultimately show ?thesis by (auto simp: add.assoc)
    qed
  next
    case False
    with "3.prems"(1) show ?thesis by auto
  qed
qed

text \<open>
  C24: \<open>validate_input_structure\<close> accepts a container exactly when its nesting depth is at
  most \<open>max_depth\<close> and the number of values below it is at most \<open>max_nodes\<close>; scalars are
  always accepted.
\<close>

theorem validate_input_structure_iff:
  "validate_input_structure v md mn = None \<longleftrightarrow>
     (if is_dict v \<or> is_list v then py_depth v \<le> md \<and> py_nodes v \<le> mn else True)"
  using count_spec(1) [of v 1 md 0 mn]
  by (cases "count_depth_and_nodes v 1 md 0 mn") (auto simp: validate_input_structure_def)

lemma dollar_bodies_ex:
  "list_ex P (dollar_bodies s) \<longleftrightarrow> (\<exists>b. (s = b \<or> s = b @ [CHR 0x0A]) \<and> P b)"
  unfolding dollar_bodies_def
  by (cases s rule: rev_cases) auto

lemma graph_name_body_iff:
  "graph_name_body b \<longleftrightarrow>
     (\<exists>c cs. b = c # cs \<and> is_letter c \<and> list_all is_name_char cs \<and> length cs \<le> 63)"
  by (cases b) (auto simp: graph_name_body_def)

text \<open>
  \<open>validate_graph_name\<close> accepts exactly the strings made of a letter and up to 63
  letters, digits, underscores or hyphens, optionally followed by one newline (the \<open>$\<close>
  of the pattern matches before a final newline).
\<close>

theorem validate_graph_name_iff:
  "validate_graph_name s = None \<longleftrightarrow>
     (\<exists>c cs. (s = c # cs \<or> s = c # cs @ [CHR 0x0A]) \<and>
        is_letter c \<and> list_all is_name_char cs \<and> length cs \<le> 63)"
proof -
  have "validate_graph_name s = None \<longleftrightarrow> (\<exists>b. (s = b \<or> s = b @ [CHR 0x0A]) \<and> graph_name_body b)"
    by (auto simp: validate_graph_name_def dollar_bodies_ex graph_name_body_iff)
  then show ?thesis by (fastforce simp: graph_name_body_iff)
qed

text \<open>
  \<open>validate_thread_id\<close> accepts exactly the strings of at most 256 characters that are
  printable ASCII, optionally followed by one newline, although a newline is no printable
  character and the error text promises printable characters only.
\<close>

theorem validate_thread_id_iff:
  "validate_thread_id s = None \<longleftrightarrow>
     length s \<le> 256 \<and>
     (\<exists>b. b \<noteq> [] \<and> list_all is_printable b \<and> (s = b \<or> s = b @ [CHR 0x0A]))"
  by (auto simp: validate_thread_id_def dollar_bodies_ex printable_body_def
      max_thread_id_length_def not_less)

lemma newline_not_printable: "\<not> is_printable (CHR 0x0A)"
  by (simp add: is_printable_def less_eq_char_def)

lemma thread_id_newline_accepted: "validate_thread_id (''t1'' @ [CHR 0x0A]) = None"
  by (simp add: validate_thread_id_def dollar_bodies_def printable_body_def is_printable_def
      less_eq_char_def max_thread_id_length_def)

text \<open>
  \<open>validate_native_config\<close> accepts a configuration exactly when \<open>configurable\<close> is its only
  top-level key and, if that is a dictionary, each of its keys is \<open>thread_id\<close> or
  allow-listed and none starts with two underscores, allow-listed or not.
\<close>

theorem validate_native_config_iff:
  "validate_native_config config allowed = None \<longleftrightarrow>
     dict_keys config \<subseteq> {''configurable''} \<and>
     (\<forall>conf. map_of config ''configurable'' = Some (PDict conf) \<longrightarrow>
        (\<forall>k\<in>dict_keys conf. take 2 k \<noteq> ''__'' \<and> (k = ''thread_id'' \<or> k \<in> set allowed)))"
  by (auto simp: validate_native_config_def list_ex_iff split: option.splits pyval.splits)

lemma validate_native_config_witness:
  "validate_native_config [(''configurable'', PDict [(''thread_id'', PStr ''t1'')])] [] = None \<and>
   validate_native_config [(''configurable'', PDict [(''__x'', PNone)])] [''__x''] \<noteq> None"
  by (simp add: validate_native_config_iff)

end
