(* ===== verification/Guard.thy ===== *)
theory Guard
  imports Validation
begin

text \<open>
  The opt-in ownership guard, \<^verbatim>\<open>locks/guard.py\<close>: how a guard object travels in a run
  configuration to the checkpoint saver, and how it is checked. A guard is an opaque object
  \<open>PObj a\<close>; \<open>is_guard a\<close> is \<open>isinstance(obj, OwnershipGuard)\<close> and \<open>check a\<close> is what its
  \<open>check\<close> method reports: nothing, or the reason ownership is gone.
\<close>

datatype lease_loss = Lost | Released | Superseded | Missing

text \<open>The fixed message of a reason names no thread, graph or token.\<close>

definition locally_detected :: string where
  "locally_detected =
     ''This reports a locally detected condition: it is not proof that a stale write '' @
     ''occurred, and it does not mean that earlier checkpoint writes were rolled back.''"

fun lease_loss_message :: "lease_loss \<Rightarrow> string" where
  "lease_loss_message Lost =
     ''Thread lock ownership was detected as lost. '' @ locally_detected"
| "lease_loss_message Released =
     ''Thread lock ownership was already released, or the lock was closed. '' @ locally_detected"
| "lease_loss_message Superseded =
     ''Thread lock ownership now belongs to a newer execution. '' @ locally_detected"
| "lease_loss_message Missing =
     ''The checkpoint saver requires a thread lock ownership guard but this write '' @
     ''carried none, so it was rejected.''"

record lease_lost_error =
  lle_reason :: lease_loss
  lle_graph :: "string option"
  lle_thread :: "string option"

text \<open>\<open>__reduce__\<close> and the module-level function that rebuilds the error from it.\<close>

definition reduce_error :: "lease_lost_error \<Rightarrow> lease_loss \<times> string option \<times> string option" where
  "reduce_error e = (lle_reason e, lle_graph e, lle_thread e)"

definition rebuild_error :: "lease_loss \<times> string option \<times> string option \<Rightarrow> lease_lost_error" where
  "rebuild_error = (\<lambda>(r, g, t). \<lparr>lle_reason = r, lle_graph = g, lle_thread = t\<rparr>)"

lemma rebuild_reduce: "rebuild_error (reduce_error e) = e"
  by (simp add: rebuild_error_def reduce_error_def)

datatype guard_error = LeaseLost lease_lost_error | GuardTypeError

definition guard_key :: string where
  "guard_key = ''__pregel_azfunc_ownership_guard''"

section \<open>Handing out a guard\<close>

text \<open>
  \<open>ownership_guard_for\<close>: \<open>provider\<close> is the lock's \<open>ownership_guard\<close> method when it has the
  capability. A missing or empty token, or no thread, means no guard; a provider that
  returns anything but a guard or \<open>None\<close> is a \<open>TypeError\<close>.
\<close>

definition ownership_guard_for ::
    "(nat \<Rightarrow> bool) \<Rightarrow> (string \<Rightarrow> string \<Rightarrow> string \<Rightarrow> pyval) option \<Rightarrow>
     string \<Rightarrow> string option \<Rightarrow> string option \<Rightarrow> guard_error + nat option" where
  "ownership_guard_for is_guard provider graph_name thread_id token =
     (case (token, thread_id) of
        (Some tok, Some tid) \<Rightarrow>
          (if tok = [] then Inr None
           else (case provider of
               None \<Rightarrow> Inr None
             | Some og \<Rightarrow>
                 (case og graph_name tid tok of
                    PNone \<Rightarrow> Inr None
                  | PObj a \<Rightarrow> (if is_guard a then Inr (Some a) else Inl GuardTypeError)
                  | _ \<Rightarrow> Inl GuardTypeError)))
      | _ \<Rightarrow> Inr None)"

section \<open>Carrying a guard in a run configuration\<close>

definition configurable_map :: "pyval dict option \<Rightarrow> pyval dict option" where
  "configurable_map config =
     (case config of None \<Rightarrow> None
      | Some c \<Rightarrow> (case map_of c ''configurable'' of Some (PDict d) \<Rightarrow> Some d | _ \<Rightarrow> None))"

definition has_stray_key :: "pyval dict option \<Rightarrow> bool" where
  "has_stray_key config =
     (case config of None \<Rightarrow> False
      | Some c \<Rightarrow> map_of c guard_key \<noteq> None \<or>
          (case configurable_map config of None \<Rightarrow> False | Some d \<Rightarrow> map_of d guard_key \<noteq> None))"

definition config_with_ownership_guard ::
    "pyval dict option \<Rightarrow> nat option \<Rightarrow> pyval dict option" where
  "config_with_ownership_guard config guard =
     (if guard = None \<and> \<not> has_stray_key config then config
      else
        let result = (case config of None \<Rightarrow> [] | Some c \<Rightarrow> dict_drop [guard_key] c);
            cleaned = (case configurable_map config of None \<Rightarrow> []
                       | Some d \<Rightarrow> dict_drop [guard_key] d)
        in (case guard of
              Some a \<Rightarrow>
                Some (AList.update ''configurable'' (PDict (AList.update guard_key (PObj a) cleaned)) result)
            | None \<Rightarrow>
                (if configurable_map config \<noteq> None
                 then Some (AList.update ''configurable'' (PDict cleaned) result)
                 else Some result)))"

definition guard_run_config ::
    "(nat \<Rightarrow> bool) \<Rightarrow> (string \<Rightarrow> string \<Rightarrow> string \<Rightarrow> pyval) option \<Rightarrow>
     string \<Rightarrow> string option \<Rightarrow> string option \<Rightarrow> pyval dict option \<Rightarrow>
     guard_error + (pyval dict option \<times> nat option)" where
  "guard_run_config is_guard provider graph_name thread_id token config =
     bind_res (ownership_guard_for is_guard provider graph_name thread_id token)
       (\<lambda>guard. Inr (config_with_ownership_guard config guard, guard))"

definition check_ownership_guard ::
    "(nat \<Rightarrow> lease_lost_error option) \<Rightarrow> nat option \<Rightarrow> guard_error + unit" where
  "check_ownership_guard check guard =
     (case guard of None \<Rightarrow> Inr ()
      | Some a \<Rightarrow> (case check a of None \<Rightarrow> Inr () | Some e \<Rightarrow> Inl (LeaseLost e)))"

text \<open>
  \<open>resolve_ownership_guard\<close>: a guard bound to the context wins; otherwise the value under
  the private key counts only if it really is a guard.
\<close>

definition resolve_ownership_guard ::
    "(nat \<Rightarrow> bool) \<Rightarrow> nat option \<Rightarrow> pyval dict option \<Rightarrow> nat option" where
  "resolve_ownership_guard is_guard scoped config =
     (case scoped of Some a \<Rightarrow> Some a
      | None \<Rightarrow>
          (case configurable_map config of None \<Rightarrow> None
           | Some d \<Rightarrow>
               (case map_of d guard_key of
                  Some (PObj a) \<Rightarrow> (if is_guard a then Some a else None)
                | _ \<Rightarrow> None)))"

text \<open>
  \<open>bind_ownership_guard\<close>: the body runs with the guard bound and the previous binding is
  restored on every exit path; \<open>None\<close> binds nothing. The context is the bound guard.
\<close>

definition bind_ownership_guard ::
    "nat option \<Rightarrow> (nat option \<Rightarrow> 'r \<times> nat option) \<Rightarrow> nat option \<Rightarrow> 'r \<times> nat option" where
  "bind_ownership_guard guard body ctx =
     (case guard of None \<Rightarrow> body ctx | Some a \<Rightarrow> (fst (body (Some a)), ctx))"

section \<open>Properties\<close>

lemma guard_key_configurable [simp]: "guard_key \<noteq> ''configurable''" "''configurable'' \<noteq> guard_key"
  by (simp_all add: guard_key_def)

lemma guard_key_internal: "take 2 guard_key = ''__''"
  by (simp add: guard_key_def)

lemma configurable_map_None [simp]: "configurable_map None = None"
  by (simp add: configurable_map_def)

lemma configurable_map_with_guard:
  "configurable_map (config_with_ownership_guard config (Some a)) =
     Some (AList.update guard_key (PObj a)
       (case configurable_map config of None \<Rightarrow> [] | Some d \<Rightarrow> dict_drop [guard_key] d))"
  by (simp add: config_with_ownership_guard_def configurable_map_def Let_def)

lemma configurable_map_without_guard:
  "configurable_map (config_with_ownership_guard config None) =
     (if has_stray_key config then map_option (dict_drop [guard_key]) (configurable_map config)
      else configurable_map config)"
  by (cases config)
    (auto simp: config_with_ownership_guard_def configurable_map_def Let_def
      split: option.splits pyval.splits)

text \<open>Where a configuration can carry a value under the private key: at its top and in \<open>configurable\<close>.\<close>

lemma config_with_guard_top: "map_of (case config_with_ownership_guard config guard of None \<Rightarrow> [] | Some c \<Rightarrow> c) guard_key = None"
proof (cases config)
  case (Some c)
  then show ?thesis
    by (cases guard) (auto simp: config_with_ownership_guard_def has_stray_key_def Let_def)
qed (cases guard; simp add: config_with_ownership_guard_def Let_def)

lemma config_with_guard_inner:
  "map_of (case configurable_map (config_with_ownership_guard config guard) of None \<Rightarrow> [] | Some d \<Rightarrow> d) guard_key = map_option PObj guard"
  by (cases guard; cases "configurable_map config")
    (auto simp: configurable_map_with_guard configurable_map_without_guard has_stray_key_def split: option.splits)

text \<open>
  C7: A guard placed in a run configuration is the one the checkpoint saver resolves, and
  without one nothing is resolved. Whatever a client stored under the private key, even a
  genuine guard object, never survives \<open>config_with_ownership_guard\<close>: at the top of the result nothing is
  stored under the key, and in \<open>configurable\<close> the injected guard or nothing.
\<close>

theorem resolve_config_with_guard:
  assumes "\<And>a. guard = Some a \<Longrightarrow> is_guard a"
  shows "resolve_ownership_guard is_guard None (config_with_ownership_guard config guard) = guard \<and>
    map_of (case config_with_ownership_guard config guard of None \<Rightarrow> [] | Some c \<Rightarrow> c) guard_key = None \<and>
    map_of (case configurable_map (config_with_ownership_guard config guard) of None \<Rightarrow> [] | Some d \<Rightarrow> d) guard_key =
      map_option PObj guard"
proof -
  have "resolve_ownership_guard is_guard None (config_with_ownership_guard config guard) = guard"
    using config_with_guard_inner [of config guard] assms
    by (cases guard) (auto simp: resolve_ownership_guard_def split: option.splits)
  then show ?thesis by (simp add: config_with_guard_top config_with_guard_inner)
qed

lemma resolve_config_with_guard_witness:
  "resolve_ownership_guard (\<lambda>a. a = 7) None
     (config_with_ownership_guard
        (Some [(guard_key, PObj 9), (''configurable'', PDict [(guard_key, PObj 9), (''thread_id'', PStr ''t'')])]) (Some 7)) = Some 7"
  by (rule conjunct1 [OF resolve_config_with_guard]) simp

text \<open>
  Injecting or stripping the guard changes nothing else: every other key of the
  configuration and of \<open>configurable\<close> keeps its value, and no key is added but the private one.
\<close>

theorem config_with_guard_preserves:
  assumes "k \<noteq> guard_key"
  shows "(k \<noteq> ''configurable'' \<longrightarrow>
           map_of (case config_with_ownership_guard config guard of None \<Rightarrow> [] | Some c \<Rightarrow> c) k =
           map_of (case config of None \<Rightarrow> [] | Some c \<Rightarrow> c) k) \<and>
         map_of (case configurable_map (config_with_ownership_guard config guard) of None \<Rightarrow> [] | Some d \<Rightarrow> d) k =
         map_of (case configurable_map config of None \<Rightarrow> [] | Some d \<Rightarrow> d) k"
proof
  show "k \<noteq> ''configurable'' \<longrightarrow>
      map_of (case config_with_ownership_guard config guard of None \<Rightarrow> [] | Some c \<Rightarrow> c) k =
      map_of (case config of None \<Rightarrow> [] | Some c \<Rightarrow> c) k"
    using assms
    by (cases config; cases guard) (auto simp: config_with_ownership_guard_def Let_def)
  show "map_of (case configurable_map (config_with_ownership_guard config guard) of None \<Rightarrow> [] | Some d \<Rightarrow> d) k =
      map_of (case configurable_map config of None \<Rightarrow> [] | Some d \<Rightarrow> d) k"
    using assms
    by (cases guard; cases "configurable_map config")
      (auto simp: configurable_map_with_guard configurable_map_without_guard)
qed

lemma config_with_guard_preserves_witness:
  "map_of (case configurable_map (config_with_ownership_guard
       (Some [(''configurable'', PDict [(''thread_id'', PStr ''t'')])]) (Some 7)) of None \<Rightarrow> [] | Some d \<Rightarrow> d)
     ''thread_id'' = Some (PStr ''t'')"
  using config_with_guard_preserves [of "''thread_id''"
      "Some [(''configurable'', PDict [(''thread_id'', PStr ''t'')])]" "Some 7"]
  by (simp add: guard_key_def configurable_map_def)

text \<open>
  A configuration that passes the native client policy carries no value under the
  private key, so without a guard it reaches the graph unchanged, whatever the allow-list.
\<close>

theorem native_config_has_no_guard:
  assumes "validate_native_config config allowed = None"
  shows "config_with_ownership_guard (Some config) None = Some config"
proof -
  have "map_of config guard_key = None"
    using assms by (auto simp: validate_native_config_iff map_of_eq_None_iff)
  moreover have "map_of d guard_key = None" if "configurable_map (Some config) = Some d" for d
    using assms that guard_key_internal
    by (auto simp: validate_native_config_iff map_of_eq_None_iff configurable_map_def
        split: option.splits pyval.splits)
  ultimately have "\<not> has_stray_key (Some config)"
    by (auto simp: has_stray_key_def split: option.splits)
  then show ?thesis by (simp add: config_with_ownership_guard_def)
qed

lemma native_config_has_no_guard_witness:
  "config_with_ownership_guard (Some [(''configurable'', PDict [(''thread_id'', PStr ''t'')])]) None =
   Some [(''configurable'', PDict [(''thread_id'', PStr ''t'')])]"
  by (rule native_config_has_no_guard [where allowed = "[]"])
    (simp add: validate_native_config_def)

end
