(* ===== verification/Lock_Interface.thy ===== *)
theory Lock_Interface
  imports Prelude
begin

text \<open>
  The pluggable per-thread lock contract, \<^verbatim>\<open>locks/base.py\<close>, as a locale: what the code that
  takes a lock relies on, whichever backend provides it. A backend is a state with two
  operations. \<open>acquire\<close> gets the key, the owner token it would mint (fresh for each call)
  and the state; it may raise, return \<open>None\<close>, or return the token. \<open>owner\<close> says who holds
  a key.
\<close>

datatype lock_key = Key (key_graph: string) (key_thread: string)

type_synonym token = string

text \<open>
  An exception of a service call: whether it is an \<open>HttpResponseError\<close>, and its \<open>error_code\<close>
  and \<open>status_code\<close> attributes. \<open>LockPolling\<close> is no exception of the code: it is the answer of
  a polling loop whose fuel is used up, which \<open>acquire_returns\<close> of \<open>Blob_Lease\<close> excludes.
\<close>

record azure_error =
  err_http :: bool
  err_code :: "string option"
  err_status :: "int option"

datatype lock_error = LockClosed | LockServiceError azure_error | LockPolling

type_synonym 's acquire_op = "lock_key \<Rightarrow> token \<Rightarrow> 's \<Rightarrow> (lock_error + token option) \<times> 's"
type_synonym 's release_op = "lock_key \<Rightarrow> token \<Rightarrow> 's \<Rightarrow> 's"

locale thread_lock =
  fixes acquire :: "'s acquire_op"
    and release :: "'s release_op"
    and owner :: "'s \<Rightarrow> lock_key \<Rightarrow> token option"
    and inv :: "'s \<Rightarrow> bool"
  assumes acquire_inv: "inv s \<Longrightarrow> acquire k tok s = (r, s') \<Longrightarrow> inv s'"
    and acquire_token: "inv s \<Longrightarrow> acquire k tok s = (Inr (Some t), s') \<Longrightarrow>
          t = tok \<and> owner s k = None \<and> owner s' = (owner s)(k := Some tok)"
    and acquire_refused: "inv s \<Longrightarrow> acquire k tok s = (r, s') \<Longrightarrow> (\<forall>t. r \<noteq> Inr (Some t)) \<Longrightarrow>
          owner s' = owner s"
    and release_inv: "inv s \<Longrightarrow> inv (release k t s)"
    and release_owner: "inv s \<Longrightarrow>
          owner (release k t s) = (if owner s k = Some t then (owner s)(k := None) else owner s)"
begin

text \<open>A key that is held is refused, and a refusal never disturbs the holder.\<close>

lemma acquire_held:
  assumes "inv s" "owner s k = Some t" "acquire k tok s = (r, s')"
  shows "(\<forall>t'. r \<noteq> Inr (Some t')) \<and> owner s' = owner s"
  using assms acquire_token [of s k tok _ s'] acquire_refused [of s k tok r s'] by fastforce

text \<open>Acquire followed by release of the same token gives the key back to nobody.\<close>

lemma acquire_release:
  assumes "inv s" "acquire k tok s = (Inr (Some t), s')"
  shows "owner (release k t s') = owner s"
proof -
  have "inv s'" using assms by (rule acquire_inv)
  with acquire_token [OF assms] show ?thesis
    by (simp add: release_owner fun_upd_idem)
qed

text \<open>A token that is not the holder's releases nothing.\<close>

lemma stale_release: "inv s \<Longrightarrow> owner s k \<noteq> Some t \<Longrightarrow> owner (release k t s) = owner s"
  by (simp add: release_owner)

text \<open>Releasing twice is releasing once.\<close>

lemma release_twice:
  "inv s \<Longrightarrow> owner (release k t (release k t s)) = owner (release k t s)"
  by (simp add: release_owner release_inv)

end

end
