(* ===== verification/InProcess_Lock.thy ===== *)
theory InProcess_Lock
  imports Lock_Interface
begin

text \<open>
  The default lock backend, \<^verbatim>\<open>locks/inprocess.py\<close>. A \<open>_KeyState\<close> is an object with an
  address; the registry \<open>_states\<close> maps keys to addresses. Each \<open>with self._guard\<close> block and
  each call on the inner \<open>threading.Lock\<close> is one atomic step, and the executions that call
  \<open>acquire\<close> and \<open>release\<close> interleave between them.
\<close>

section \<open>State and atomic sections\<close>

record key_state =
  ks_locked :: bool
  ks_token :: "token option"
  ks_refs :: int

definition new_key_state :: key_state where
  "new_key_state = \<lparr>ks_locked = False, ks_token = None, ks_refs = 0\<rparr>"

record inproc =
  ip_states :: "lock_key \<Rightarrow> nat option"
  ip_heap :: "nat \<Rightarrow> key_state"
  ip_next :: nat

definition inproc_init :: inproc where
  "inproc_init = \<lparr>ip_states = (\<lambda>_. None), ip_heap = (\<lambda>_. new_key_state), ip_next = 0\<rparr>"

definition upd_state :: "nat \<Rightarrow> (key_state \<Rightarrow> key_state) \<Rightarrow> inproc \<Rightarrow> inproc" where
  "upd_state a f l = l\<lparr>ip_heap := (ip_heap l)(a := f (ip_heap l a))\<rparr>"

definition maybe_gc :: "lock_key \<Rightarrow> nat \<Rightarrow> inproc \<Rightarrow> inproc" where
  "maybe_gc key a l =
     (if ks_refs (ip_heap l a) = 0 \<and> ip_states l key = Some a
      then l\<lparr>ip_states := (ip_states l)(key := None)\<rparr> else l)"

text \<open>\<open>acquire\<close>, first guarded block: look the state up or create it, and take a reference.\<close>

definition acquire_reserve :: "lock_key \<Rightarrow> inproc \<Rightarrow> nat \<times> inproc" where
  "acquire_reserve key l =
     (let (a, l') =
        (case ip_states l key of
           Some a \<Rightarrow> (a, l)
         | None \<Rightarrow> (ip_next l,
             l\<lparr>ip_states := (ip_states l)(key := Some (ip_next l)),
               ip_heap := (ip_heap l)(ip_next l := new_key_state),
               ip_next := Suc (ip_next l)\<rparr>))
      in (a, upd_state a (\<lambda>k. k\<lparr>ks_refs := ks_refs k + 1\<rparr>) l'))"

text \<open>\<open>state.lock.acquire\<close>: it succeeds exactly on an unlocked primitive.\<close>

definition lock_try :: "nat \<Rightarrow> inproc \<Rightarrow> bool \<times> inproc" where
  "lock_try a l =
     (if ks_locked (ip_heap l a) then (False, l)
      else (True, upd_state a (\<lambda>k. k\<lparr>ks_locked := True\<rparr>) l))"

definition acquire_failed :: "lock_key \<Rightarrow> nat \<Rightarrow> inproc \<Rightarrow> inproc" where
  "acquire_failed key a l = maybe_gc key a (upd_state a (\<lambda>k. k\<lparr>ks_refs := ks_refs k - 1\<rparr>) l)"

definition acquire_publish :: "nat \<Rightarrow> token \<Rightarrow> inproc \<Rightarrow> inproc" where
  "acquire_publish a tok l = upd_state a (\<lambda>k. k\<lparr>ks_token := Some tok\<rparr>) l"

text \<open>
  \<open>release\<close> is one guarded block. Releasing an unlocked primitive raises \<open>RuntimeError\<close>,
  which is swallowed, so the primitive is unlocked either way.
\<close>

definition ip_release :: "lock_key \<Rightarrow> token \<Rightarrow> inproc \<Rightarrow> inproc" where
  "ip_release key tok l =
     (case ip_states l key of
        None \<Rightarrow> l
      | Some a \<Rightarrow>
          (if ks_token (ip_heap l a) \<noteq> Some tok then l
           else maybe_gc key a
             (upd_state a (\<lambda>k. k\<lparr>ks_locked := False, ks_token := None, ks_refs := ks_refs k - 1\<rparr>) l)))"

text \<open>
  \<open>acquire\<close> run without interference: with a timeout or not, an unlocked primitive is taken
  and a locked one, which nobody can free meanwhile, is refused.
\<close>

definition ip_acquire :: "lock_key \<Rightarrow> token \<Rightarrow> inproc \<Rightarrow> (lock_error + token option) \<times> inproc" where
  "ip_acquire key tok l =
     (let (a, l1) = acquire_reserve key l;
          (acquired, l2) = lock_try a l1
      in if \<not> acquired then (Inr None, acquire_failed key a l2)
         else (Inr (Some tok), acquire_publish a tok l2))"

lemmas ip_defs [op_defs] =
  ip_acquire_def acquire_reserve_def lock_try_def acquire_failed_def acquire_publish_def
  ip_release_def maybe_gc_def upd_state_def new_key_state_def

section \<open>The backend satisfies the lock contract\<close>

definition ip_owner :: "inproc \<Rightarrow> lock_key \<Rightarrow> token option" where
  "ip_owner l k = (case ip_states l k of None \<Rightarrow> None | Some a \<Rightarrow> ks_token (ip_heap l a))"

text \<open>Between calls, a registered state has exactly its holder as reference.\<close>

definition ip_quiet :: "inproc \<Rightarrow> bool" where
  "ip_quiet l \<longleftrightarrow>
     (\<forall>k a. ip_states l k = Some a \<longrightarrow>
        a < ip_next l \<and> ks_locked (ip_heap l a) \<and> ks_token (ip_heap l a) \<noteq> None \<and>
        ks_refs (ip_heap l a) = 1) \<and>
     (\<forall>k k' a. ip_states l k = Some a \<longrightarrow> ip_states l k' = Some a \<longrightarrow> k = k')"

lemma ip_quiet_init: "ip_quiet inproc_init"
  by (simp add: ip_quiet_def inproc_init_def)

lemma ip_quietD:
  "ip_quiet l \<Longrightarrow> ip_states l k = Some a \<Longrightarrow>
     a < ip_next l \<and> ks_locked (ip_heap l a) \<and> (\<exists>t. ks_token (ip_heap l a) = Some t) \<and>
     ks_refs (ip_heap l a) = 1"
  by (auto simp: ip_quiet_def)

lemma heap_self [simp]: "ip_heap l a = k \<Longrightarrow> l\<lparr>ip_heap := (ip_heap l)(a := k)\<rparr> = l"
  by (cases l) auto

lemma key_state_refs [simp]: "ks_refs k = r \<Longrightarrow> k\<lparr>ks_refs := r\<rparr> = k"
  by (cases k) auto

lemma key_state_reset [simp]:
  "k\<lparr>ks_locked := False, ks_token := None, ks_refs := 0\<rparr> = new_key_state"
  by (cases k) (simp add: new_key_state_def)

lemma new_key_state_sel [simp]:
  "ks_locked new_key_state = False" "ks_token new_key_state = None" "ks_refs new_key_state = 0"
  by (simp_all add: new_key_state_def)

lemma ip_quiet_fresh: "ip_quiet l \<Longrightarrow> ip_states l k \<noteq> Some (ip_next l)"
  by (auto simp: ip_quiet_def)

lemma ip_acquire_held:
  "ip_quiet l \<Longrightarrow> ip_states l k = Some a \<Longrightarrow> ip_acquire k tok l = (Inr None, l)"
  using ip_quietD [of l k a] by (auto simp: ip_defs Let_def)

lemma ip_acquire_free:
  "ip_states l k = None \<Longrightarrow> ip_acquire k tok l =
     (Inr (Some tok),
      l\<lparr>ip_states := (ip_states l)(k := Some (ip_next l)),
        ip_heap := (ip_heap l)(ip_next l := \<lparr>ks_locked = True, ks_token = Some tok, ks_refs = 1\<rparr>),
        ip_next := Suc (ip_next l)\<rparr>)"
  by (simp add: ip_defs Let_def)

lemma ip_release_quiet:
  "ip_quiet l \<Longrightarrow> ip_release k t l =
     (case ip_states l k of
        None \<Rightarrow> l
      | Some a \<Rightarrow> if ks_token (ip_heap l a) \<noteq> Some t then l
          else l\<lparr>ip_states := (ip_states l)(k := None),
                 ip_heap := (ip_heap l)(a := new_key_state)\<rparr>)"
proof (cases "ip_states l k")
  case (Some a)
  assume "ip_quiet l"
  with Some ip_quietD [of l k a] show ?thesis
    by (cases l) (auto simp: ip_release_def maybe_gc_def upd_state_def)
qed (simp add: ip_release_def)

interpretation inprocess: thread_lock ip_acquire ip_release ip_owner ip_quiet
proof (unfold_locales, goal_cases)
  case (1 s k tok r s')
  then show ?case
    using ip_quiet_fresh [of s]
    by (cases "ip_states s k")
      (auto simp: ip_acquire_held ip_acquire_free ip_quiet_def less_Suc_eq split: if_splits)
next
  case (2 s k tok t s')
  then show ?case
    using ip_quiet_fresh [of s]
    by (cases "ip_states s k")
      (auto simp: ip_acquire_held ip_acquire_free ip_owner_def fun_eq_iff ip_quiet_def
        split: option.splits)
next
  case (3 s k tok r s')
  then show ?case by (cases "ip_states s k") (auto simp: ip_acquire_held ip_acquire_free)
next
  case (4 s k t)
  then show ?case
    by (auto simp: ip_release_quiet ip_quiet_def split: option.splits)
next
  case (5 s k t)
  then show ?case
    by (auto simp: ip_release_quiet ip_owner_def fun_eq_iff ip_quiet_def split: option.splits)
qed

section \<open>Interleaved executions\<close>

text \<open>
  Where one execution is between its atomic steps: not in the lock, past the reservation,
  refused and about to clean up, past the primitive but without a token, or the holder. A
  holder that releases is \<open>Idle\<close> again and may come back.
\<close>

datatype pc =
    Idle
  | Reserved lock_key nat
  | Refused lock_key nat
  | Locked lock_key nat
  | Holding lock_key nat token

record ip_system =
  sys_lock :: inproc
  sys_pcs :: "nat \<Rightarrow> pc"
  sys_issued :: "token set"

definition sys_init :: ip_system where
  "sys_init = \<lparr>sys_lock = inproc_init, sys_pcs = (\<lambda>_. Idle), sys_issued = {}\<rparr>"

text \<open>
  One step of one execution \<open>t\<close>. A refusal may happen whenever the primitive was found
  locked: at once without a timeout, or at the end of a timed wait. \<open>release_any\<close> is a
  call of \<open>release\<close> with a token that is not a current holder's: a stale, repeated or wrong
  release. \<open>secrets.token_hex(16)\<close> is taken to mint a token never issued before.
\<close>

inductive ip_step :: "ip_system \<Rightarrow> ip_system \<Rightarrow> bool" where
  reserve: "sys_pcs s t = Idle \<Longrightarrow> acquire_reserve key (sys_lock s) = (a, l) \<Longrightarrow>
     ip_step s (s\<lparr>sys_lock := l, sys_pcs := (sys_pcs s)(t := Reserved key a)\<rparr>)"
| take_lock: "sys_pcs s t = Reserved key a \<Longrightarrow> lock_try a (sys_lock s) = (True, l) \<Longrightarrow>
     ip_step s (s\<lparr>sys_lock := l, sys_pcs := (sys_pcs s)(t := Locked key a)\<rparr>)"
| refuse: "sys_pcs s t = Reserved key a \<Longrightarrow> lock_try a (sys_lock s) = (False, l) \<Longrightarrow>
     ip_step s (s\<lparr>sys_lock := l, sys_pcs := (sys_pcs s)(t := Refused key a)\<rparr>)"
| give_up: "sys_pcs s t = Refused key a \<Longrightarrow>
     ip_step s (s\<lparr>sys_lock := acquire_failed key a (sys_lock s), sys_pcs := (sys_pcs s)(t := Idle)\<rparr>)"
| publish: "sys_pcs s t = Locked key a \<Longrightarrow> tok \<notin> sys_issued s \<Longrightarrow>
     ip_step s (s\<lparr>sys_lock := acquire_publish a tok (sys_lock s),
                  sys_pcs := (sys_pcs s)(t := Holding key a tok),
                  sys_issued := insert tok (sys_issued s)\<rparr>)"
| release_own: "sys_pcs s t = Holding key a tok \<Longrightarrow>
     ip_step s (s\<lparr>sys_lock := ip_release key tok (sys_lock s), sys_pcs := (sys_pcs s)(t := Idle)\<rparr>)"
| release_any: "(\<forall>t a. sys_pcs s t \<noteq> Holding key a tok) \<Longrightarrow>
     ip_step s (s\<lparr>sys_lock := ip_release key tok (sys_lock s)\<rparr>)"

inductive ip_reachable :: "ip_system \<Rightarrow> bool" where
  start: "ip_reachable sys_init"
| step: "ip_reachable s \<Longrightarrow> ip_step s s' \<Longrightarrow> ip_reachable s'"

fun pc_ref :: "pc \<Rightarrow> (lock_key \<times> nat) option" where
  "pc_ref Idle = None"
| "pc_ref (Reserved k a) = Some (k, a)"
| "pc_ref (Refused k a) = Some (k, a)"
| "pc_ref (Locked k a) = Some (k, a)"
| "pc_ref (Holding k a _) = Some (k, a)"

text \<open>An execution past the primitive owns it.\<close>

fun pc_owns :: "pc \<Rightarrow> bool" where
  "pc_owns (Locked k a) = True"
| "pc_owns (Holding k a _) = True"
| "pc_owns _ = False"

text \<open>
  What is true of one registered object: its users are finitely many and at least one, the
  reference count is their number, the primitive is locked exactly while one of them owns
  it, no two own it, and the published token is the holder's.
\<close>

definition users :: "(nat \<Rightarrow> pc) \<Rightarrow> lock_key \<Rightarrow> nat \<Rightarrow> nat set" where
  "users pcs k a = {t. pc_ref (pcs t) = Some (k, a)}"

definition entry_ok :: "(nat \<Rightarrow> pc) \<Rightarrow> lock_key \<Rightarrow> nat \<Rightarrow> key_state \<Rightarrow> bool" where
  "entry_ok pcs k a ks \<longleftrightarrow>
     finite (users pcs k a) \<and> users pcs k a \<noteq> {} \<and>
     ks_refs ks = int (card (users pcs k a)) \<and>
     (ks_locked ks \<longleftrightarrow> (\<exists>t\<in>users pcs k a. pc_owns (pcs t))) \<and>
     (\<forall>t\<in>users pcs k a. \<forall>u\<in>users pcs k a. pc_owns (pcs t) \<longrightarrow> pc_owns (pcs u) \<longrightarrow> t = u) \<and>
     (\<forall>tok. ks_token ks = Some tok \<longleftrightarrow> (\<exists>t. pcs t = Holding k a tok))"

definition ip_inv :: "ip_system \<Rightarrow> bool" where
  "ip_inv s \<longleftrightarrow>
     (\<forall>t k a. pc_ref (sys_pcs s t) = Some (k, a) \<longrightarrow> ip_states (sys_lock s) k = Some a) \<and>
     (\<forall>k a. ip_states (sys_lock s) k = Some a \<longrightarrow>
        a < ip_next (sys_lock s) \<and> entry_ok (sys_pcs s) k a (ip_heap (sys_lock s) a)) \<and>
     (\<forall>k k' a. ip_states (sys_lock s) k = Some a \<longrightarrow> ip_states (sys_lock s) k' = Some a \<longrightarrow> k = k')"

lemma ip_inv_init: "ip_inv sys_init"
  by (simp add: ip_inv_def sys_init_def inproc_init_def)

lemma users_upd:
  "users (pcs(t := p)) k a =
     (if pc_ref p = Some (k, a) then insert t (users pcs k a) else users pcs k a - {t})"
  by (auto simp: users_def)

lemma in_users [simp]: "t \<in> users pcs k a \<longleftrightarrow> pc_ref (pcs t) = Some (k, a)"
  by (simp add: users_def)

lemma entry_ok_frame:
  assumes "entry_ok pcs k a ks" "pc_ref (pcs t) \<noteq> Some (k, a)" "pc_ref p \<noteq> Some (k, a)"
  shows "entry_ok (pcs(t := p)) k a ks"
proof -
  define pcs' where "pcs' = pcs(t := p)"
  have U: "users pcs' k a = users pcs k a"
    using assms by (auto simp: users_def pcs'_def)
  have H: "pcs' u = Holding k a tok \<longleftrightarrow> pcs u = Holding k a tok" for u tok
    using assms(2,3) by (auto simp: pcs'_def)
  have P: "pcs' u = pcs u" if "u \<in> users pcs k a" for u
    using that assms(2) by (auto simp: pcs'_def)
  have "(\<exists>u\<in>users pcs k a. pc_owns (pcs' u)) = (\<exists>u\<in>users pcs k a. pc_owns (pcs u))"
    using P by metis
  moreover have "(\<forall>u\<in>users pcs k a. \<forall>v\<in>users pcs k a. pc_owns (pcs' u) \<longrightarrow> pc_owns (pcs' v) \<longrightarrow> u = v) =
      (\<forall>u\<in>users pcs k a. \<forall>v\<in>users pcs k a. pc_owns (pcs u) \<longrightarrow> pc_owns (pcs v) \<longrightarrow> u = v)"
    using P by metis
  ultimately have "entry_ok pcs' k a ks"
    using assms(1) unfolding entry_ok_def U H by blast
  then show ?thesis by (simp add: pcs'_def)
qed

text \<open>
  Locality: a step of \<open>t\<close> on the registered object \<open>a\<close> of key \<open>k\<close> keeps the invariant if
  it leaves that one object in order, or if the object has no user left and is dropped.
\<close>

lemma ip_inv_local:
  assumes "ip_inv s" "ip_states (sys_lock s) k = Some a"
    "pc_ref (sys_pcs s t) \<in> {None, Some (k, a)}" "pc_ref p \<in> {None, Some (k, a)}"
    "entry_ok ((sys_pcs s)(t := p)) k a (f (ip_heap (sys_lock s) a))"
  shows "ip_inv (s\<lparr>sys_lock := upd_state a f (sys_lock s), sys_pcs := (sys_pcs s)(t := p)\<rparr>)"
proof -
  have "entry_ok ((sys_pcs s)(t := p)) k' a' (((ip_heap (sys_lock s))(a := f (ip_heap (sys_lock s) a))) a')"
    if k': "ip_states (sys_lock s) k' = Some a'" for k' a'
  proof (cases "k' = k")
    case True
    with that assms(2,5) show ?thesis by simp
  next
    case False
    with assms(1,2) k' have "a' \<noteq> a" by (auto simp: ip_inv_def)
    moreover have "entry_ok ((sys_pcs s)(t := p)) k' a' (ip_heap (sys_lock s) a')"
      using assms(1,3,4) k' False by (intro entry_ok_frame) (auto simp: ip_inv_def)
    ultimately show ?thesis by simp
  qed
  with assms show ?thesis by (auto simp: ip_inv_def upd_state_def)
qed

lemma ip_inv_drop:
  assumes "ip_inv s" "ip_states (sys_lock s) k = Some a" "users ((sys_pcs s)(t := Idle)) k a = {}"
    "pc_ref (sys_pcs s t) = Some (k, a)"
  shows "ip_inv (s\<lparr>sys_lock := (upd_state a f (sys_lock s))
           \<lparr>ip_states := (ip_states (sys_lock s))(k := None)\<rparr>, sys_pcs := (sys_pcs s)(t := Idle)\<rparr>)"
proof -
  have "entry_ok ((sys_pcs s)(t := Idle)) k' a' (((ip_heap (sys_lock s))(a := f (ip_heap (sys_lock s) a))) a')"
    if "ip_states (sys_lock s) k' = Some a'" "k' \<noteq> k" for k' a'
  proof -
    from that assms(1,2) have "a' \<noteq> a" by (auto simp: ip_inv_def)
    moreover have "entry_ok ((sys_pcs s)(t := Idle)) k' a' (ip_heap (sys_lock s) a')"
      using assms(1,4) that by (intro entry_ok_frame) (auto simp: ip_inv_def)
    ultimately show ?thesis by simp
  qed
  moreover have "k' \<noteq> k" if "pc_ref (((sys_pcs s)(t := Idle)) u) = Some (k', a')" for u k' a'
  proof
    assume "k' = k"
    with that assms(1,2) have "a' = a" by (auto simp: ip_inv_def split: if_splits)
    with that \<open>k' = k\<close> have "u \<in> users ((sys_pcs s)(t := Idle)) k a" by simp
    with assms(3) show False by blast
  qed
  ultimately show ?thesis
    using assms(1) by (auto simp: ip_inv_def upd_state_def split: if_splits)
qed

text \<open>One user leaves: the object survives with one reference less, or is collected.\<close>

lemma ip_inv_leave:
  assumes inv: "ip_inv s" and ref: "pc_ref (sys_pcs s t) = Some (k, a)"
    and refs: "\<And>ks. ks_refs (f ks) = ks_refs ks - 1"
    and owns: "\<And>ks. pc_owns (sys_pcs s t) \<Longrightarrow> \<not> ks_locked (f ks) \<and> ks_token (f ks) = None"
    and keeps: "\<And>ks. \<not> pc_owns (sys_pcs s t) \<Longrightarrow> ks_locked (f ks) = ks_locked ks \<and> ks_token (f ks) = ks_token ks"
  shows "ip_inv (s\<lparr>sys_lock := maybe_gc k a (upd_state a f (sys_lock s)), sys_pcs := (sys_pcs s)(t := Idle)\<rparr>)"
proof -
  let ?ks = "ip_heap (sys_lock s) a" and ?U = "users (sys_pcs s) k a"
  have st: "ip_states (sys_lock s) k = Some a" using inv ref by (auto simp: ip_inv_def)
  with inv have ok: "entry_ok (sys_pcs s) k a ?ks" by (simp add: ip_inv_def)
  have U: "users ((sys_pcs s)(t := Idle)) k a = ?U - {t}" by (simp add: users_upd)
  have n: "ks_refs (f ?ks) = int (card (?U - {t}))"
    using ok ref refs by (simp add: entry_ok_def of_nat_diff Suc_leI card_gt_0_iff)
  show ?thesis
  proof (cases "?U - {t} = {}")
    case True
    then have "ks_refs (f ?ks) = 0" using n by (simp only: card.empty)
    then show ?thesis
      using ip_inv_drop [OF inv st _ ref, of f] True st U by (simp add: maybe_gc_def upd_state_def)
  next
    case False
    have fin: "finite (?U - {t})" using ok by (simp add: entry_ok_def)
    with False n have "ks_refs (f ?ks) \<noteq> 0" by (simp add: card_eq_0_iff)
    then have gc: "maybe_gc k a (upd_state a f (sys_lock s)) = upd_state a f (sys_lock s)"
      by (simp add: maybe_gc_def upd_state_def)
    have lk: "ks_locked ?ks = (\<exists>u\<in>?U. pc_owns (sys_pcs s u))"
      and two: "u \<in> ?U \<Longrightarrow> v \<in> ?U \<Longrightarrow> pc_owns (sys_pcs s u) \<Longrightarrow> pc_owns (sys_pcs s v) \<Longrightarrow> u = v"
      and tk: "(ks_token ?ks = Some tok) = (\<exists>u. sys_pcs s u = Holding k a tok)" for u v tok
      using ok unfolding entry_ok_def by blast+
    have uniq: "pc_owns (sys_pcs s t) \<Longrightarrow> pc_ref (sys_pcs s u) = Some (k, a) \<Longrightarrow>
        pc_owns (sys_pcs s u) \<Longrightarrow> u = t" for u
      using two ref by simp
    have hold: "(((sys_pcs s)(t := Idle)) u = Holding k a tok) = (u \<noteq> t \<and> sys_pcs s u = Holding k a tok)" for u tok
      by auto
    have "entry_ok ((sys_pcs s)(t := Idle)) k a (f ?ks)"
      unfolding entry_ok_def U hold
    proof (intro conjI)
      show "ks_locked (f ?ks) = (\<exists>u\<in>?U - {t}. pc_owns (((sys_pcs s)(t := Idle)) u))"
      proof (cases "pc_owns (sys_pcs s t)")
        case True
        with owns uniq show ?thesis by auto
      next
        case False
        with keeps [of ?ks] lk show ?thesis by auto
      qed
      show "\<forall>tok. (ks_token (f ?ks) = Some tok) = (\<exists>u. u \<noteq> t \<and> sys_pcs s u = Holding k a tok)"
      proof (cases "pc_owns (sys_pcs s t)")
        case True
        with owns uniq show ?thesis by fastforce
      next
        case False
        then have "sys_pcs s u = Holding k a tok \<Longrightarrow> u \<noteq> t" for u tok by auto
        with False keeps [of ?ks] tk show ?thesis by auto
      qed
      show "\<forall>u\<in>?U - {t}. \<forall>v\<in>?U - {t}. pc_owns (((sys_pcs s)(t := Idle)) u) \<longrightarrow>
          pc_owns (((sys_pcs s)(t := Idle)) v) \<longrightarrow> u = v"
        using two by auto
    qed (use False fin n in simp_all)
    then show ?thesis
      using ip_inv_local [OF inv st, of t Idle f] ref unfolding gc by simp
  qed
qed

section \<open>Every step keeps the invariant\<close>

lemma ip_inv_registered:
  "ip_inv s \<Longrightarrow> pc_ref (sys_pcs s t) = Some (k, a) \<Longrightarrow>
     ip_states (sys_lock s) k = Some a \<and> entry_ok (sys_pcs s) k a (ip_heap (sys_lock s) a)"
  by (auto simp: ip_inv_def)

lemma holding_upd:
  "(\<forall>tok. p \<noteq> Holding k a tok) \<Longrightarrow> (\<forall>tok. pcs t \<noteq> Holding k a tok) \<Longrightarrow>
     ((pcs(t := p)) u = Holding k a tok) = (pcs u = Holding k a tok)"
  by auto

lemma ip_inv_reserve_new:
  assumes "ip_inv s" "sys_pcs s t = Idle" "ip_states (sys_lock s) k = None"
  shows "ip_inv (s\<lparr>sys_lock := snd (acquire_reserve k (sys_lock s)),
           sys_pcs := (sys_pcs s)(t := Reserved k (fst (acquire_reserve k (sys_lock s))))\<rparr>)"
proof -
  let ?l = "sys_lock s" let ?a = "ip_next ?l" let ?pcs = "(sys_pcs s)(t := Reserved k ?a)"
  have none: "pc_ref (sys_pcs s u) \<noteq> Some (k, b)" for u b
    using assms(1,3) by (auto simp: ip_inv_def)
  then have "users ?pcs k ?a = {t}" by (auto simp: users_upd users_def)
  moreover have "?pcs u \<noteq> Holding k ?a tok" for u tok
    using none [of u ?a] by auto
  ultimately have new: "entry_ok ?pcs k ?a \<lparr>ks_locked = False, ks_token = None, ks_refs = 1\<rparr>"
    by (simp add: entry_ok_def)
  have "entry_ok ?pcs k' a' (ip_heap ?l a')" if "ip_states ?l k' = Some a'" for k' a'
    using that assms by (intro entry_ok_frame) (auto simp: ip_inv_def)
  moreover have "a' \<noteq> ?a" if "ip_states ?l k' = Some a'" for k' a'
    using that assms(1) by (auto simp: ip_inv_def)
  ultimately show ?thesis
    using assms new
    by (auto simp: acquire_reserve_def upd_state_def new_key_state_def ip_inv_def less_Suc_eq)
qed

lemma ip_inv_reserve_old:
  assumes "ip_inv s" "sys_pcs s t = Idle" "ip_states (sys_lock s) k = Some a"
  shows "ip_inv (s\<lparr>sys_lock := snd (acquire_reserve k (sys_lock s)),
           sys_pcs := (sys_pcs s)(t := Reserved k (fst (acquire_reserve k (sys_lock s))))\<rparr>)"
proof -
  let ?ks = "ip_heap (sys_lock s) a" and ?pcs = "(sys_pcs s)(t := Reserved k a)"
  have ok: "entry_ok (sys_pcs s) k a ?ks" using assms by (simp add: ip_inv_def)
  have t: "t \<notin> users (sys_pcs s) k a" using assms(2) by simp
  have U: "users ?pcs k a = insert t (users (sys_pcs s) k a)" by (simp add: users_upd)
  have H: "(?pcs u = Holding k a tok) = (sys_pcs s u = Holding k a tok)" for u tok
    using assms(2) by (intro holding_upd) auto
  have own: "pc_owns (?pcs u) = (u \<noteq> t \<and> pc_owns (sys_pcs s u))" for u by simp
  have "entry_ok ?pcs k a (?ks\<lparr>ks_refs := ks_refs ?ks + 1\<rparr>)"
    unfolding entry_ok_def U H own
  proof (intro conjI)
    show "ks_locked (?ks\<lparr>ks_refs := ks_refs ?ks + 1\<rparr>) =
        (\<exists>u\<in>insert t (users (sys_pcs s) k a). u \<noteq> t \<and> pc_owns (sys_pcs s u))"
      using ok t unfolding entry_ok_def by auto
    show "\<forall>tok. (ks_token (?ks\<lparr>ks_refs := ks_refs ?ks + 1\<rparr>) = Some tok) = (\<exists>u. sys_pcs s u = Holding k a tok)"
      using ok unfolding entry_ok_def by simp
    show "\<forall>u\<in>insert t (users (sys_pcs s) k a). \<forall>v\<in>insert t (users (sys_pcs s) k a).
        u \<noteq> t \<and> pc_owns (sys_pcs s u) \<longrightarrow> v \<noteq> t \<and> pc_owns (sys_pcs s v) \<longrightarrow> u = v"
      using ok unfolding entry_ok_def by blast
  qed (use ok t in \<open>simp_all add: entry_ok_def\<close>)
  then show ?thesis
    using ip_inv_local [OF assms(1,3), of t "Reserved k a"] assms(2,3)
    by (simp add: acquire_reserve_def)
qed

lemma ip_inv_take:
  assumes "ip_inv s" "sys_pcs s t = Reserved k a" "lock_try a (sys_lock s) = (True, l)"
  shows "ip_inv (s\<lparr>sys_lock := l, sys_pcs := (sys_pcs s)(t := Locked k a)\<rparr>)"
proof -
  let ?ks = "ip_heap (sys_lock s) a" and ?pcs = "(sys_pcs s)(t := Locked k a)"
  have st: "ip_states (sys_lock s) k = Some a" and ok: "entry_ok (sys_pcs s) k a ?ks"
    using ip_inv_registered [OF assms(1), of t k a] assms(2) by simp_all
  have free: "\<not> ks_locked ?ks" and l: "l = upd_state a (\<lambda>k. k\<lparr>ks_locked := True\<rparr>) (sys_lock s)"
    using assms(3) by (auto simp: lock_try_def split: if_splits)
  have t: "t \<in> users (sys_pcs s) k a" using assms(2) by simp
  have U: "users ?pcs k a = users (sys_pcs s) k a" using assms(2) by (auto simp: users_upd)
  have H: "(?pcs u = Holding k a tok) = (sys_pcs s u = Holding k a tok)" for u tok
    using assms(2) by (intro holding_upd) auto
  have no: "\<not> pc_owns (sys_pcs s u)" if "u \<in> users (sys_pcs s) k a" for u
    using ok free that unfolding entry_ok_def by blast
  have own: "pc_owns (?pcs u) = (u = t \<or> pc_owns (sys_pcs s u))" for u by simp
  have "entry_ok ?pcs k a (?ks\<lparr>ks_locked := True\<rparr>)"
    unfolding entry_ok_def U H own using ok t no by (auto simp: entry_ok_def)
  then show ?thesis
    using ip_inv_local [OF assms(1) st, of t "Locked k a"] assms(2) unfolding l by simp
qed

lemma ip_inv_refuse:
  assumes "ip_inv s" "sys_pcs s t = Reserved k a" "lock_try a (sys_lock s) = (False, l)"
  shows "ip_inv (s\<lparr>sys_lock := l, sys_pcs := (sys_pcs s)(t := Refused k a)\<rparr>)"
proof -
  let ?ks = "ip_heap (sys_lock s) a" and ?pcs = "(sys_pcs s)(t := Refused k a)"
  have st: "ip_states (sys_lock s) k = Some a" and ok: "entry_ok (sys_pcs s) k a ?ks"
    using ip_inv_registered [OF assms(1), of t k a] assms(2) by simp_all
  have l: "l = sys_lock s"
    using assms(3) by (auto simp: lock_try_def split: if_splits)
  have U: "users ?pcs k a = users (sys_pcs s) k a" using assms(2) by (auto simp: users_upd)
  have H: "(?pcs u = Holding k a tok) = (sys_pcs s u = Holding k a tok)" for u tok
    using assms(2) by (intro holding_upd) auto
  have own: "pc_owns (?pcs u) = pc_owns (sys_pcs s u)" for u using assms(2) by simp
  have "entry_ok ?pcs k a ?ks"
    unfolding entry_ok_def U H own using ok unfolding entry_ok_def by blast
  then show ?thesis
    using ip_inv_local [OF assms(1) st, of t "Refused k a" "\<lambda>k. k"] assms(2)
    unfolding l by (simp add: upd_state_def)
qed

lemma ip_inv_publish:
  assumes "ip_inv s" "sys_pcs s t = Locked k a"
  shows "ip_inv (s\<lparr>sys_lock := acquire_publish a tok (sys_lock s),
           sys_pcs := (sys_pcs s)(t := Holding k a tok), sys_issued := I\<rparr>)"
proof -
  let ?ks = "ip_heap (sys_lock s) a" and ?pcs = "(sys_pcs s)(t := Holding k a tok)"
  have st: "ip_states (sys_lock s) k = Some a" and ok: "entry_ok (sys_pcs s) k a ?ks"
    using ip_inv_registered [OF assms(1), of t k a] assms(2) by simp_all
  have U: "users ?pcs k a = users (sys_pcs s) k a" using assms(2) by (auto simp: users_upd)
  have own: "pc_owns (?pcs u) = pc_owns (sys_pcs s u)" for u using assms(2) by simp
  have t: "t \<in> users (sys_pcs s) k a" "pc_owns (sys_pcs s t)" using assms(2) by simp_all
  have no: "sys_pcs s u \<noteq> Holding k a tok'" for u tok'
  proof
    assume "sys_pcs s u = Holding k a tok'"
    then have "u \<in> users (sys_pcs s) k a" "pc_owns (sys_pcs s u)" by simp_all
    with ok t have "u = t" unfolding entry_ok_def by blast
    with \<open>sys_pcs s u = _\<close> assms(2) show False by simp
  qed
  then have H: "(?pcs u = Holding k a tok') = (u = t \<and> tok' = tok)" for u tok' by auto
  have "entry_ok ?pcs k a (?ks\<lparr>ks_token := Some tok\<rparr>)"
    unfolding entry_ok_def U H own using ok by (auto simp: entry_ok_def)
  then have "ip_inv (s\<lparr>sys_lock := acquire_publish a tok (sys_lock s), sys_pcs := ?pcs\<rparr>)"
    using ip_inv_local [OF assms(1) st, of t "Holding k a tok"] assms(2)
    by (simp add: acquire_publish_def)
  then show ?thesis by (simp add: ip_inv_def)
qed

lemma ip_token_holder:
  assumes "ip_inv s" "sys_pcs s t = Holding k a tok"
  shows "ip_states (sys_lock s) k = Some a \<and> ks_token (ip_heap (sys_lock s) a) = Some tok"
  using ip_inv_registered [OF assms(1), of t k a] assms(2) by (auto simp: entry_ok_def)

lemma ip_release_no_holder:
  assumes "ip_inv s" "\<forall>t a. sys_pcs s t \<noteq> Holding k a tok"
  shows "ip_release k tok (sys_lock s) = sys_lock s"
  using assms by (auto simp: ip_release_def ip_inv_def entry_ok_def split: option.splits)

lemma ip_step_inv: "ip_step s s' \<Longrightarrow> ip_inv s \<Longrightarrow> ip_inv s'"
proof (induction rule: ip_step.induct)
  case (reserve s t key a l)
  then show ?case
    using ip_inv_reserve_new [of s t key] ip_inv_reserve_old [of s t key]
    by (cases "ip_states (sys_lock s) key") auto
next
  case (take_lock s t key a l)
  then show ?case by (blast intro: ip_inv_take)
next
  case (refuse s t key a l)
  then show ?case by (blast intro: ip_inv_refuse)
next
  case (give_up s t key a)
  then show ?case unfolding acquire_failed_def by (intro ip_inv_leave) auto
next
  case (publish s t key a tok)
  then show ?case by (blast intro: ip_inv_publish)
next
  case (release_own s t key a tok)
  then have "ip_release key tok (sys_lock s) = maybe_gc key a
      (upd_state a (\<lambda>k. k\<lparr>ks_locked := False, ks_token := None, ks_refs := ks_refs k - 1\<rparr>) (sys_lock s))"
    using ip_token_holder [of s t key a tok] by (simp add: ip_release_def)
  with release_own show ?case by (simp only:) (intro ip_inv_leave; simp)
next
  case (release_any s key tok)
  then show ?case by (simp add: ip_release_no_holder ip_inv_def)
qed

lemma ip_reachable_inv: "ip_reachable s \<Longrightarrow> ip_inv s"
  by (induction rule: ip_reachable.induct) (auto intro: ip_inv_init ip_step_inv)

section \<open>Properties\<close>

text \<open>
  C6: Mutual exclusion: whatever the interleaving of acquire, timeouts, garbage collection and
  (also stale or repeated) releases, two executions that hold the lock of one key are the
  same execution.
\<close>

theorem ip_mutual_exclusion:
  assumes "ip_reachable s" "sys_pcs s t = Holding k a tok" "sys_pcs s u = Holding k b tok'"
  shows "t = u"
proof -
  from assms(1) have inv: "ip_inv s" by (rule ip_reachable_inv)
  have "b = a"
    using ip_token_holder [OF inv assms(2)] ip_token_holder [OF inv assms(3)] by simp
  moreover have "entry_ok (sys_pcs s) k a (ip_heap (sys_lock s) a)"
    using ip_inv_registered [OF inv, of t k a] assms(2) by simp
  moreover have "t \<in> users (sys_pcs s) k a" "u \<in> users (sys_pcs s) k b"
    "pc_owns (sys_pcs s t)" "pc_owns (sys_pcs s u)"
    using assms(2,3) by simp_all
  ultimately show ?thesis unfolding entry_ok_def by blast
qed

lemma ip_hold_example:
  "\<exists>s. ip_reachable s \<and> sys_pcs s = (\<lambda>_. Idle)(0 := Holding k 0 tok)"
proof -
  let ?l0 = "snd (acquire_reserve k inproc_init)"
  let ?s1 = "sys_init\<lparr>sys_lock := ?l0, sys_pcs := (sys_pcs sys_init)(0 := Reserved k 0)\<rparr>"
  have "ip_step sys_init ?s1"
    by (rule ip_step.reserve) (simp_all add: sys_init_def acquire_reserve_def inproc_init_def)
  then have 1: "ip_reachable ?s1" by (rule ip_reachable.step [OF ip_reachable.start])
  let ?l1 = "snd (lock_try 0 ?l0)"
  let ?s2 = "?s1\<lparr>sys_lock := ?l1, sys_pcs := (sys_pcs ?s1)(0 := Locked k 0)\<rparr>"
  have "ip_step ?s1 ?s2"
    by (rule ip_step.take_lock)
      (simp_all add: lock_try_def acquire_reserve_def inproc_init_def upd_state_def)
  then have 2: "ip_reachable ?s2" by (rule ip_reachable.step [OF 1])
  let ?s3 = "?s2\<lparr>sys_lock := acquire_publish 0 tok (sys_lock ?s2),
      sys_pcs := (sys_pcs ?s2)(0 := Holding k 0 tok), sys_issued := insert tok (sys_issued ?s2)\<rparr>"
  have "ip_step ?s2 ?s3" by (rule ip_step.publish) (simp_all add: sys_init_def)
  then have "ip_reachable ?s3" by (rule ip_reachable.step [OF 2])
  then show ?thesis by (intro exI [of _ ?s3]) (simp add: sys_init_def)
qed

lemma ip_mutual_exclusion_witness:
  "\<exists>s. ip_reachable s \<and> sys_pcs s 0 = Holding (Key ''g'' ''t'') 0 ''tok'' \<and>
     (\<forall>u b tok'. sys_pcs s u = Holding (Key ''g'' ''t'') b tok' \<longrightarrow> u = 0)"
proof -
  obtain s where s: "ip_reachable s" "sys_pcs s = (\<lambda>_. Idle)(0 := Holding (Key ''g'' ''t'') 0 ''tok'')"
    using ip_hold_example by blast
  then have "sys_pcs s 0 = Holding (Key ''g'' ''t'') 0 ''tok''" by simp
  with ip_mutual_exclusion [OF s(1)] s(1) show ?thesis by blast
qed

text \<open>
  No leak and no orphan: a key is registered exactly while some execution is inside
  \<open>acquire\<close> for it or holds it, so when all executions are idle the registry is empty.
\<close>

theorem ip_registry_exact:
  assumes "ip_reachable s"
  shows "ip_states (sys_lock s) k \<noteq> None \<longleftrightarrow> (\<exists>t a. pc_ref (sys_pcs s t) = Some (k, a))"
proof
  from assms have inv: "ip_inv s" by (rule ip_reachable_inv)
  show "ip_states (sys_lock s) k \<noteq> None \<Longrightarrow> \<exists>t a. pc_ref (sys_pcs s t) = Some (k, a)"
  proof -
    assume "ip_states (sys_lock s) k \<noteq> None"
    then obtain a where "ip_states (sys_lock s) k = Some a" by blast
    with inv have "users (sys_pcs s) k a \<noteq> {}" by (auto simp: ip_inv_def entry_ok_def)
    then show ?thesis by (auto simp: users_def)
  qed
  show "\<exists>t a. pc_ref (sys_pcs s t) = Some (k, a) \<Longrightarrow> ip_states (sys_lock s) k \<noteq> None"
    using inv by (auto dest: ip_inv_registered)
qed

lemma ip_registry_exact_witness:
  "\<exists>s. ip_reachable s \<and> ip_states (sys_lock s) (Key ''g'' ''t'') \<noteq> None \<and>
     ip_states (sys_lock s) (Key ''g'' ''u'') = None"
proof -
  obtain s where s: "ip_reachable s" "sys_pcs s = (\<lambda>_. Idle)(0 := Holding (Key ''g'' ''t'') 0 ''tok'')"
    using ip_hold_example by blast
  have "\<exists>t a. pc_ref (sys_pcs s t) = Some (Key ''g'' ''t'', a)"
    using s(2) by (intro exI [of _ 0]) simp
  moreover have "\<not> (\<exists>t a. pc_ref (sys_pcs s t) = Some (Key ''g'' ''u'', a))"
    using s(2) by simp
  ultimately show ?thesis using ip_registry_exact [OF s(1)] s(1) by blast
qed

text \<open>
  A release with a token that is not the current holder's changes nothing: a stale or
  repeated release cannot free a lock that a newer execution acquired.
\<close>

theorem ip_stale_release:
  assumes "ip_reachable s" "\<forall>t a. sys_pcs s t \<noteq> Holding k a tok"
  shows "ip_release k tok (sys_lock s) = sys_lock s"
  using assms by (simp add: ip_release_no_holder ip_reachable_inv)

lemma ip_stale_release_witness:
  "\<exists>s. ip_reachable s \<and> sys_pcs s 0 = Holding (Key ''g'' ''t'') 0 ''new'' \<and>
     ip_release (Key ''g'' ''t'') ''old'' (sys_lock s) = sys_lock s"
proof -
  obtain s where s: "ip_reachable s" "sys_pcs s = (\<lambda>_. Idle)(0 := Holding (Key ''g'' ''t'') 0 ''new'')"
    using ip_hold_example by blast
  have "ip_release (Key ''g'' ''t'') ''old'' (sys_lock s) = sys_lock s"
    by (rule ip_stale_release [OF s(1)]) (simp add: s(2))
  with s show ?thesis by auto
qed

end
