(* ===== verification/Thread_Store.thy ===== *)
theory Thread_Store
  imports Prelude "HOL-Library.Multiset"
begin

text \<open>
  Thread records and the in-memory thread store, \<^verbatim>\<open>platform/contracts.py\<close> (\<open>Thread\<close>,
  \<open>ThreadStatus\<close>) and \<^verbatim>\<open>platform/stores.py\<close>. The store is a dictionary in insertion order;
  each public method runs under the store's re-entrant lock and is one atomic operation.
  Times are microseconds (\<open>datetime\<close>); the clock, generated ids and tokens are arguments.
  Values are copied, as the model copies them by nature.
\<close>

section \<open>Records\<close>

datatype thread_status = SIdle | SBusy | SInterrupted | SError

fun status_text :: "thread_status \<Rightarrow> string" where
  "status_text SIdle = ''idle''"
| "status_text SBusy = ''busy''"
| "status_text SInterrupted = ''interrupted''"
| "status_text SError = ''error''"

record thread =
  th_id :: string
  th_created :: int
  th_updated :: int
  th_metadata :: "pyval dict option"
  th_status :: thread_status
  th_values :: "pyval dict option"
  th_assistant :: "string option"
  th_interrupts :: "pyval dict"
  th_token :: "string option"
  th_expires :: "int option"

type_synonym store = "thread dict"

datatype store_error =
    KeyError string
  | DuplicateThread string
  | BoundToOther string string string
  | ReleaseToBusy
  | NegativeLimit int
  | NegativeOffset int

definition lease_micros :: int where
  "lease_micros = 60 * 1000000"

definition new_thread :: "string \<Rightarrow> int \<Rightarrow> pyval dict option \<Rightarrow> thread" where
  "new_thread tid now metadata =
     \<lparr>th_id = tid, th_created = now, th_updated = now, th_metadata = metadata, th_status = SIdle,
      th_values = None, th_assistant = None, th_interrupts = [], th_token = None, th_expires = None\<rparr>"

section \<open>Operations\<close>

definition store_create ::
    "string \<Rightarrow> int \<Rightarrow> pyval dict option \<Rightarrow> store \<Rightarrow> store_error + (thread \<times> store)" where
  "store_create tid now metadata s =
     (if map_of s tid \<noteq> None then Inl (DuplicateThread tid)
      else let t = new_thread tid now metadata in Inr (t, AList.update tid t s))"

definition store_get :: "string \<Rightarrow> store \<Rightarrow> thread option" where
  "store_get tid s = map_of s tid"

text \<open>\<open>update\<close>: only the arguments that are not \<open>None\<close> change a field.\<close>

record thread_patch =
  p_metadata :: "pyval dict option"
  p_status :: "thread_status option"
  p_values :: "pyval dict option"
  p_interrupts :: "pyval dict option"
  p_assistant :: "string option"

definition opt_or :: "'a option \<Rightarrow> 'a \<Rightarrow> 'a" where
  "opt_or v d = (case v of None \<Rightarrow> d | Some x \<Rightarrow> x)"

definition opt_orelse :: "'a option \<Rightarrow> 'a option \<Rightarrow> 'a option" where
  "opt_orelse v d = (case v of None \<Rightarrow> d | Some x \<Rightarrow> Some x)"

definition patch_thread :: "thread_patch \<Rightarrow> int \<Rightarrow> thread \<Rightarrow> thread" where
  "patch_thread p now t =
     t\<lparr>th_updated := now,
       th_metadata := opt_orelse (p_metadata p) (th_metadata t),
       th_status := opt_or (p_status p) (th_status t),
       th_values := opt_orelse (p_values p) (th_values t),
       th_interrupts := opt_or (p_interrupts p) (th_interrupts t),
       th_assistant := opt_orelse (p_assistant p) (th_assistant t)\<rparr>"

definition store_update ::
    "string \<Rightarrow> thread_patch \<Rightarrow> int \<Rightarrow> store \<Rightarrow> store_error + (thread \<times> store)" where
  "store_update tid p now s =
     (case map_of s tid of
        None \<Rightarrow> Inl (KeyError tid)
      | Some t \<Rightarrow> let t' = patch_thread p now t in Inr (t', AList.update tid t' s))"

definition store_delete :: "string \<Rightarrow> store \<Rightarrow> store_error + store" where
  "store_delete tid s =
     (case map_of s tid of None \<Rightarrow> Inl (KeyError tid) | Some _ \<Rightarrow> Inr (AList.delete tid s))"

text \<open>A thread bound to one assistant runs with no other.\<close>

definition bound_to_other :: "thread \<Rightarrow> string option \<Rightarrow> bool" where
  "bound_to_other t assistant =
     (case (th_assistant t, assistant) of (Some a, Some b) \<Rightarrow> a \<noteq> b | _ \<Rightarrow> False)"

definition lock_thread :: "string option \<Rightarrow> string \<Rightarrow> int \<Rightarrow> thread \<Rightarrow> thread" where
  "lock_thread assistant tok now t =
     t\<lparr>th_status := SBusy, th_updated := now, th_token := Some tok,
       th_expires := Some (now + lease_micros),
       th_assistant := (if th_assistant t = None then assistant else th_assistant t)\<rparr>"

definition store_try_acquire ::
    "string \<Rightarrow> string option \<Rightarrow> string \<Rightarrow> int \<Rightarrow> store \<Rightarrow> store_error + (thread option \<times> store)" where
  "store_try_acquire tid assistant tok now s =
     (case map_of s tid of
        None \<Rightarrow> Inl (KeyError tid)
      | Some t \<Rightarrow>
          (if bound_to_other t assistant
             then Inl (BoundToOther tid (the (th_assistant t)) (the assistant))
           else if th_status t = SBusy then Inr (None, s)
           else let t' = lock_thread assistant tok now t
                in Inr (Some t', AList.update tid t' s)))"

definition unlock_thread ::
    "thread_status \<Rightarrow> pyval dict option \<Rightarrow> int \<Rightarrow> thread \<Rightarrow> thread" where
  "unlock_thread status values now t =
     t\<lparr>th_status := status, th_updated := now, th_token := None, th_expires := None,
       th_values := opt_orelse values (th_values t)\<rparr>"

definition store_release ::
    "string \<Rightarrow> thread_status \<Rightarrow> pyval dict option \<Rightarrow> string option \<Rightarrow> int \<Rightarrow> store \<Rightarrow>
     store_error + (thread \<times> store)" where
  "store_release tid status values owner now s =
     (if status = SBusy then Inl ReleaseToBusy
      else case map_of s tid of
          None \<Rightarrow> Inl (KeyError tid)
        | Some t \<Rightarrow>
            (if owner \<noteq> None \<and> th_token t \<noteq> owner then Inr (t, s)
             else let t' = unlock_thread status values now t
                  in Inr (t', AList.update tid t' s)))"

definition store_renew :: "string \<Rightarrow> string \<Rightarrow> int \<Rightarrow> store \<Rightarrow> bool \<times> store" where
  "store_renew tid owner now s =
     (case map_of s tid of
        None \<Rightarrow> (False, s)
      | Some t \<Rightarrow>
          (if th_token t \<noteq> Some owner then (False, s)
           else (True, AList.update tid
                   (t\<lparr>th_updated := now, th_expires := Some (now + lease_micros)\<rparr>) s)))"

text \<open>The filters: exact status, and metadata as a subset of the thread's metadata.\<close>

definition metadata_matches :: "pyval dict option \<Rightarrow> pyval dict option \<Rightarrow> bool" where
  "metadata_matches wanted md =
     (case wanted of None \<Rightarrow> True
      | Some w \<Rightarrow> (case md of None \<Rightarrow> False
          | Some m \<Rightarrow> list_all (\<lambda>kv. case map_of m (fst kv) of None \<Rightarrow> False
                                  | Some v \<Rightarrow> py_eq v (snd kv)) w))"

definition filtered_threads ::
    "pyval dict option \<Rightarrow> thread_status option \<Rightarrow> store \<Rightarrow> thread list" where
  "filtered_threads wanted status s =
     filter (\<lambda>t. (case status of None \<Rightarrow> True | Some st \<Rightarrow> th_status t = st) \<and>
                 metadata_matches wanted (th_metadata t)) (map snd s)"

text \<open>
  \<open>sort(key=created_at, reverse=True)\<close> is stable: threads created at the same time stay in
  insertion order.
\<close>

definition newest_first :: "thread list \<Rightarrow> thread list" where
  "newest_first = sort_key (\<lambda>t. - th_created t)"

definition store_search ::
    "pyval dict option \<Rightarrow> thread_status option \<Rightarrow> int \<Rightarrow> int \<Rightarrow> store \<Rightarrow> store_error + thread list" where
  "store_search wanted status limit offset s =
     (if limit < 0 then Inl (NegativeLimit limit)
      else if offset < 0 then Inl (NegativeOffset offset)
      else Inr (take (nat limit) (drop (nat offset) (newest_first (filtered_threads wanted status s)))))"

definition store_count :: "pyval dict option \<Rightarrow> thread_status option \<Rightarrow> store \<Rightarrow> nat" where
  "store_count wanted status s = length (filtered_threads wanted status s)"

lemmas store_defs [op_defs] =
  store_create_def store_update_def store_delete_def store_try_acquire_def store_release_def
  store_renew_def

section \<open>The dictionary invariant\<close>

definition store_ok :: "store \<Rightarrow> bool" where
  "store_ok s \<longleftrightarrow> dict_ok s \<and> (\<forall>k t. map_of s k = Some t \<longrightarrow> th_id t = k)"

lemma store_ok_Nil [simp]: "store_ok []"
  by (simp add: store_ok_def)

lemma store_ok_put: "store_ok s \<Longrightarrow> th_id t = k \<Longrightarrow> store_ok (AList.update k t s)"
  by (simp add: store_ok_def)

lemma store_ok_id: "store_ok s \<Longrightarrow> map_of s k = Some t \<Longrightarrow> th_id t = k"
  by (simp add: store_ok_def)

lemma thread_field_id [simp]:
  "th_id (new_thread k now md) = k"
  "th_id (patch_thread p now t) = th_id t"
  "th_id (lock_thread a tok now t) = th_id t"
  "th_id (unlock_thread st v now t) = th_id t"
  by (simp_all add: new_thread_def patch_thread_def lock_thread_def unlock_thread_def)

section \<open>Sequences of operations\<close>

text \<open>Requests that other callers may issue, in any order.\<close>

datatype store_op =
    OpCreate string int "pyval dict option"
  | OpGet string
  | OpUpdate string thread_patch int
  | OpDelete string
  | OpAcquire string "string option" string int
  | OpRelease string thread_status "pyval dict option" "string option" int
  | OpRenew string string int

definition store_after :: "store \<Rightarrow> store_error + ('a \<times> store) \<Rightarrow> store" where
  "store_after s r = (case r of Inl _ \<Rightarrow> s | Inr (_, s') \<Rightarrow> s')"

fun store_step :: "store_op \<Rightarrow> store \<Rightarrow> store" where
  "store_step (OpCreate tid now md) s = store_after s (store_create tid now md s)"
| "store_step (OpGet tid) s = s"
| "store_step (OpUpdate tid p now) s = store_after s (store_update tid p now s)"
| "store_step (OpDelete tid) s = (case store_delete tid s of Inl _ \<Rightarrow> s | Inr s' \<Rightarrow> s')"
| "store_step (OpAcquire tid a tok now) s = store_after s (store_try_acquire tid a tok now s)"
| "store_step (OpRelease tid st v owner now) s = store_after s (store_release tid st v owner now s)"
| "store_step (OpRenew tid owner now) s = snd (store_renew tid owner now s)"

fun store_run :: "store_op list \<Rightarrow> store \<Rightarrow> store" where
  "store_run [] s = s"
| "store_run (x # xs) s = store_run xs (store_step x s)"

lemma store_ok_delete: "store_ok s \<Longrightarrow> store_ok (AList.delete k s)"
  by (simp add: store_ok_def)

lemma store_step_ok:
  assumes "store_ok s"
  shows "store_ok (store_step x s)"
proof -
  have upd: "store_ok (AList.update k (f t) s)"
    if "map_of s k = Some t" "\<And>t. th_id (f t) = th_id t" for k t f
    using assms that by (simp add: store_ok_put store_ok_id)
  show ?thesis
    by (cases x)
      (use assms in \<open>auto simp: op_defs store_after_def Let_def store_ok_put store_ok_delete
        split: option.splits intro: upd\<close>)
qed

text \<open>
  Every sequence of store operations keeps the registry well formed: keys are distinct and
  each record is stored under its own thread id.
\<close>

theorem store_run_ok: "store_ok (store_run xs [])"
proof -
  have "store_ok s \<Longrightarrow> store_ok (store_run xs s)" for s
    by (induction xs arbitrary: s) (auto simp: store_step_ok)
  then show ?thesis by simp
qed

text \<open>
  Operations that take the run lock of thread \<open>tid\<close> away from the owner of \<open>tok\<close>: a release with
  that token or without any (an unfenced release), an update to a status other than busy, and
  deleting the thread. The store lets any caller do these.
\<close>

fun takes_lock :: "string \<Rightarrow> string \<Rightarrow> store_op \<Rightarrow> bool" where
  "takes_lock tid tok (OpRelease k st v owner now) = (k = tid \<and> st \<noteq> SBusy \<and> (owner = None \<or> owner = Some tok))"
| "takes_lock tid tok (OpUpdate k p now) = (k = tid \<and> p_status p \<noteq> None \<and> p_status p \<noteq> Some SBusy)"
| "takes_lock tid tok (OpDelete k) = (k = tid)"
| "takes_lock _ _ _ = False"

definition holds_run_lock :: "store \<Rightarrow> string \<Rightarrow> string \<Rightarrow> bool" where
  "holds_run_lock s tid tok \<longleftrightarrow>
     (\<exists>t. map_of s tid = Some t \<and> th_status t = SBusy \<and> th_token t = Some tok)"

lemma acquired_holds:
  "store_try_acquire tid a tok now s = Inr (Some t, s1) \<Longrightarrow> holds_run_lock s1 tid tok"
  by (auto simp: store_try_acquire_def holds_run_lock_def lock_thread_def Let_def split: option.splits if_splits)

lemma store_step_holds_iff:
  "holds_run_lock s tid tok \<Longrightarrow> holds_run_lock (store_step x s) tid tok \<longleftrightarrow> \<not> takes_lock tid tok x"
  by (cases x)
    (auto simp: op_defs store_after_def Let_def holds_run_lock_def patch_thread_def unlock_thread_def opt_or_def delete_conv
      split: option.splits if_splits)

lemma store_run_holds:
  "holds_run_lock s tid tok \<Longrightarrow> \<forall>x\<in>set xs. \<not> takes_lock tid tok x \<Longrightarrow>
     holds_run_lock (store_run xs s) tid tok"
  by (induction xs arbitrary: s) (simp_all add: store_step_holds_iff)

lemma held_refuses:
  assumes "holds_run_lock s tid tok"
  shows "store_step (OpAcquire tid b tok' now) s = s \<and> (\<forall>t s'. store_try_acquire tid b tok' now s \<noteq> Inr (Some t, s'))"
  using assms by (auto simp: holds_run_lock_def store_try_acquire_def store_after_def split: if_splits)

text \<open>The first operation of a sequence after which the lock is gone.\<close>

lemma store_run_loses:
  "holds_run_lock s tid tok \<Longrightarrow> holds_run_lock (store_run xs s) tid tok \<or>
     (\<exists>ys x zs. xs = ys @ x # zs \<and> holds_run_lock (store_run ys s) tid tok \<and> takes_lock tid tok x)"
proof (induction xs arbitrary: s)
  case (Cons x xs)
  show ?case
  proof (cases "takes_lock tid tok x")
    case True
    with Cons.prems show ?thesis by (intro disjI2 exI [of _ "[]"] exI [of _ x] exI [of _ xs]) simp
  next
    case False
    then have "holds_run_lock (store_step x s) tid tok" using Cons.prems by (simp add: store_step_holds_iff)
    from Cons.IH [OF this] show ?thesis
    proof
      assume "\<exists>ys x' zs. xs = ys @ x' # zs \<and> holds_run_lock (store_run ys (store_step x s)) tid tok \<and> takes_lock tid tok x'"
      then obtain ys x' zs where "xs = ys @ x' # zs" "holds_run_lock (store_run ys (store_step x s)) tid tok" "takes_lock tid tok x'"
        by blast
      then show ?thesis by (intro disjI2 exI [of _ "x # ys"] exI [of _ x'] exI [of _ zs]) simp
    qed simp
  qed
qed simp

text \<open>
  C3: Exclusive run lock: \<open>try_acquire_run_lock\<close> that returns a thread puts its token on the record.
  While the record carries the token, whatever operation any caller issues, it takes the token away
  exactly if it is a release with this token or with none, an update to a status other than busy, or
  the deletion of the thread; a further acquire returns \<open>None\<close> or raises and changes nothing.
  After any sequence of operations the token is still there, or the sequence has one of these
  that hit it.
\<close>

theorem run_lock_exclusive:
  assumes "store_try_acquire tid a tok now s = Inr (Some t, s1)"
  shows "(\<forall>xs. holds_run_lock (store_run xs s1) tid tok \<or>
      (\<exists>ys x zs. xs = ys @ x # zs \<and> holds_run_lock (store_run ys s1) tid tok \<and> takes_lock tid tok x)) \<and>
    (\<forall>xs. holds_run_lock (store_run xs s1) tid tok \<longrightarrow>
      (\<forall>x. holds_run_lock (store_step x (store_run xs s1)) tid tok \<longleftrightarrow> \<not> takes_lock tid tok x) \<and>
      (\<forall>b tok' now'. store_step (OpAcquire tid b tok' now') (store_run xs s1) = store_run xs s1 \<and>
        (\<forall>t' s'. store_try_acquire tid b tok' now' (store_run xs s1) \<noteq> Inr (Some t', s'))))"
  using store_run_loses [OF acquired_holds [OF assms]]
  by (simp add: store_step_holds_iff held_refuses del: store_step.simps)

lemma run_lock_exclusive_witness:
  "holds_run_lock (store_run [OpAcquire ''t'' None ''y'' 7, OpRelease ''t'' SIdle None (Some ''old'') 8]
      [(''t'', lock_thread None ''x'' 5 (new_thread ''t'' 0 None))]) ''t'' ''x''"
proof -
  have "store_try_acquire ''t'' None ''x'' 5 [(''t'', new_thread ''t'' 0 None)] =
      Inr (Some (lock_thread None ''x'' 5 (new_thread ''t'' 0 None)),
        [(''t'', lock_thread None ''x'' 5 (new_thread ''t'' 0 None))])"
    by (simp add: store_try_acquire_def bound_to_other_def new_thread_def lock_thread_def Let_def)
  from spec [OF conjunct1 [OF run_lock_exclusive [OF this]], of "[OpAcquire ''t'' None ''y'' 7, OpRelease ''t'' SIdle None (Some ''old'') 8]"]
  show ?thesis
  proof
    assume "\<exists>ys x zs. [OpAcquire ''t'' None ''y'' 7, OpRelease ''t'' SIdle None (Some ''old'') 8] = ys @ x # zs \<and>
      holds_run_lock (store_run ys [(''t'', lock_thread None ''x'' 5 (new_thread ''t'' 0 None))]) ''t'' ''x'' \<and> takes_lock ''t'' ''x'' x"
    then show ?thesis by (auto simp: Cons_eq_append_conv)
  qed
qed

text \<open>
  A whole run: acquiring the run lock and releasing it with the token it returned, whatever
  other callers did in between that cannot take the lock away, leaves the thread unlocked in
  the requested status, and every other thread as the others left it.
\<close>

theorem run_lock_cycle:
  assumes "store_try_acquire tid a tok now s = Inr (Some t, s1)"
    and "\<forall>x\<in>set xs. \<not> takes_lock tid tok x" and "st \<noteq> SBusy"
  shows "\<exists>t'. store_release tid st v (Some tok) now' (store_run xs s1) =
             Inr (t', AList.update tid t' (store_run xs s1)) \<and>
           th_status t' = st \<and> th_token t' = None \<and> th_expires t' = None \<and> th_updated t' = now' \<and>
           (v \<noteq> None \<longrightarrow> th_values t' = v)"
proof -
  have "holds_run_lock (store_run xs s1) tid tok" using acquired_holds [OF assms(1)] assms(2) by (rule store_run_holds)
  then obtain t0 where "map_of (store_run xs s1) tid = Some t0" "th_token t0 = Some tok"
    by (auto simp: holds_run_lock_def)
  with assms(3) show ?thesis
    by (intro exI [of _ "unlock_thread st v now' t0"])
      (auto simp: store_release_def unlock_thread_def opt_orelse_def Let_def)
qed

lemma run_lock_cycle_witness:
  "\<exists>t'. store_release ''t'' SIdle None (Some ''x'') 9
        [(''t'', lock_thread None ''x'' 5 (new_thread ''t'' 0 None))] =
      Inr (t', AList.update ''t'' t' [(''t'', lock_thread None ''x'' 5 (new_thread ''t'' 0 None))]) \<and>
      th_status t' = SIdle"
proof -
  have "store_try_acquire ''t'' None ''x'' 5 [(''t'', new_thread ''t'' 0 None)] =
      Inr (Some (lock_thread None ''x'' 5 (new_thread ''t'' 0 None)),
        [(''t'', lock_thread None ''x'' 5 (new_thread ''t'' 0 None))])"
    by (simp add: store_try_acquire_def bound_to_other_def new_thread_def lock_thread_def Let_def)
  from run_lock_cycle [OF this, of "[]" SIdle None 9] show ?thesis by auto
qed

section \<open>Search\<close>

lemma take_drop_pages: "take n xs @ take m (drop n xs) = take (n + m) xs"
  by (simp add: take_add)

lemma newest_first_sorted: "sorted_wrt (\<lambda>t u. th_created u \<le> th_created t) (newest_first ts)"
proof -
  have "sorted (map (\<lambda>t. - th_created t) (newest_first ts))"
    by (simp add: newest_first_def)
  then show ?thesis
    unfolding sorted_map by (simp add: sorted_wrt_iff_nth_less)
qed

text \<open>
  \<open>search\<close> returns the matching threads, newest first, stably for equal creation times, and
  \<open>count\<close> is their number: with a limit of at least \<open>count\<close> the result is a permutation of
  the matching records, sorted, and consecutive pages concatenate to the larger page.
\<close>

theorem store_search_pages:
  assumes "0 \<le> limit" "0 \<le> offset" "0 \<le> limit'"
  shows "\<exists>page rest whole.
     store_search w st limit offset s = Inr page \<and>
     store_search w st limit' (offset + limit) s = Inr rest \<and>
     store_search w st (limit + limit') offset s = Inr (page @ rest) \<and>
     store_search w st (int (store_count w st s)) 0 s = Inr whole \<and>
     mset whole = mset (filtered_threads w st s) \<and>
     sorted_wrt (\<lambda>t u. th_created u \<le> th_created t) whole \<and>
     (\<forall>c. filter (\<lambda>t. th_created t = c) whole = filter (\<lambda>t. th_created t = c) (filtered_threads w st s)) \<and>
     page = take (nat limit) (drop (nat offset) whole)"
proof -
  let ?all = "newest_first (filtered_threads w st s)"
  have stable: "filter (\<lambda>t. th_created t = c) ?all = filter (\<lambda>t. th_created t = c) (filtered_threads w st s)" for c
    using sort_key_stable [of "\<lambda>t. - th_created t" "- c" "filtered_threads w st s"]
    by (simp add: newest_first_def)
  have len: "length ?all = store_count w st s"
    by (simp add: newest_first_def store_count_def)
  have "store_search w st (int (store_count w st s)) 0 s = Inr ?all"
    by (simp add: store_search_def len)
  moreover have "take (nat limit) (drop (nat offset) ?all) @ take (nat limit') (drop (nat (offset + limit)) ?all) =
      take (nat (limit + limit')) (drop (nat offset) ?all)"
    using assms by (simp add: take_add nat_add_distrib add.commute)
  moreover have "mset ?all = mset (filtered_threads w st s)" by (simp add: newest_first_def)
  ultimately show ?thesis
    using assms newest_first_sorted [of "filtered_threads w st s"] stable
    by (intro exI [of _ "take (nat limit) (drop (nat offset) ?all)"]
        exI [of _ "take (nat limit') (drop (nat (offset + limit)) ?all)"] exI [of _ ?all])
      (simp add: store_search_def)
qed

lemma store_search_pages_witness:
  "\<exists>page rest whole.
     store_search None None 1 0 [(''a'', new_thread ''a'' 1 None), (''b'', new_thread ''b'' 2 None)] = Inr page \<and>
     store_search None None 5 1 [(''a'', new_thread ''a'' 1 None), (''b'', new_thread ''b'' 2 None)] = Inr rest \<and>
     store_search None None 6 0 [(''a'', new_thread ''a'' 1 None), (''b'', new_thread ''b'' 2 None)] = Inr (page @ rest) \<and>
     page = take 1 whole"
  using store_search_pages [of 1 0 5 None None
      "[(''a'', new_thread ''a'' 1 None), (''b'', new_thread ''b'' 2 None)]"] by auto

end
