(* ===== verification/Quote.thy ===== *)
theory Quote
  imports Prelude
begin

text \<open>
  \<open>urllib.parse.quote(s, safe='')\<close> and \<open>unquote\<close>, as the blob names of the lock and of the
  checkpoint saver use them: letters, digits and \<open>_ . - ~\<close> stay, every other character
  becomes the percent-encoded bytes of its UTF-8 form. Characters are code points below 256,
  so UTF-8 needs at most two bytes. \<open>unquote\<close> is \<open>None\<close> where the bytes are no UTF-8 text of
  such characters (Python substitutes a replacement character there).
\<close>

definition unreserved :: "char \<Rightarrow> bool" where
  "unreserved c =
     ((CHR ''a'' \<le> c \<and> c \<le> CHR ''z'') \<or> (CHR ''A'' \<le> c \<and> c \<le> CHR ''Z'') \<or>
      (CHR ''0'' \<le> c \<and> c \<le> CHR ''9'') \<or>
      c = CHR ''_'' \<or> c = CHR ''.'' \<or> c = CHR ''-'' \<or> c = CHR ''~'')"

definition hex_digit :: "nat \<Rightarrow> char" where
  "hex_digit n = ''0123456789ABCDEF'' ! n"

definition hex_value :: "char \<Rightarrow> nat option" where
  "hex_value c =
     (let n = of_char c in
      if 48 \<le> n \<and> n \<le> 57 then Some (n - 48)
      else if 65 \<le> n \<and> n \<le> 70 then Some (n - 55)
      else if 97 \<le> n \<and> n \<le> 102 then Some (n - 87)
      else None)"

definition pct :: "nat \<Rightarrow> string" where
  "pct b = [CHR ''%'', hex_digit (b div 16), hex_digit (b mod 16)]"

definition utf8 :: "char \<Rightarrow> nat list" where
  "utf8 c = (let n = of_char c in if n < 128 then [n] else [192 + n div 64, 128 + n mod 64])"

definition quote_char :: "char \<Rightarrow> string" where
  "quote_char c = (if unreserved c then [c] else concat (map pct (utf8 c)))"

definition quote :: "string \<Rightarrow> string" where
  "quote s = concat (map quote_char s)"

fun unquote_bytes :: "string \<Rightarrow> nat list" where
  "unquote_bytes [] = []"
| "unquote_bytes (c # s) =
     (if c = CHR ''%'' then
        (case s of
           a # b # s' \<Rightarrow>
             (case (hex_value a, hex_value b) of
                (Some x, Some y) \<Rightarrow> (16 * x + y) # unquote_bytes s'
              | _ \<Rightarrow> 37 # unquote_bytes s)
         | _ \<Rightarrow> 37 # unquote_bytes s)
      else utf8 c @ unquote_bytes s)"

fun utf8_decode :: "nat list \<Rightarrow> string option" where
  "utf8_decode [] = Some []"
| "utf8_decode (b # bs) =
     (if b < 128 then map_option ((#) (char_of b)) (utf8_decode bs)
      else (case bs of
          c # bs' \<Rightarrow>
            (if 194 \<le> b \<and> b \<le> 195 \<and> 128 \<le> c \<and> c < 192
             then map_option ((#) (char_of ((b - 192) * 64 + (c - 128)))) (utf8_decode bs')
             else None)
        | [] \<Rightarrow> None))"

definition unquote :: "string \<Rightarrow> string option" where
  "unquote s = utf8_decode (unquote_bytes s)"

section \<open>Round trip\<close>

lemma hex_value_digit: "n < 16 \<Longrightarrow> hex_value (hex_digit n) = Some n"
proof -
  assume "n < 16"
  then have "n \<in> set [0..<16]" by simp
  moreover have "\<forall>n\<in>set [0..<16]. hex_value (hex_digit n) = Some n"
    by (simp add: upt_rec hex_value_def hex_digit_def Let_def)
  ultimately show ?thesis by blast
qed

lemma unquote_bytes_pct: "b < 256 \<Longrightarrow> unquote_bytes (pct b @ s) = b # unquote_bytes s"
  by (simp add: pct_def hex_value_digit less_mult_imp_div_less)

lemma of_char_less [simp]: "(of_char c :: nat) < 256"
  using of_char_mod_256 [of c, where 'a = nat] mod_less_divisor [of 256 "of_char c"] by simp

lemma utf8_bytes: "b \<in> set (utf8 c) \<Longrightarrow> b < 256"
proof -
  assume b: "b \<in> set (utf8 c)"
  have "(of_char c :: nat) div 64 < 4" by (rule less_mult_imp_div_less) (simp add: of_char_less)
  moreover have "(of_char c :: nat) mod 64 < 64" by simp
  ultimately show ?thesis using b by (auto simp: utf8_def Let_def split: if_splits)
qed

lemma unquote_bytes_pcts:
  "(\<And>b. b \<in> set bs \<Longrightarrow> b < 256) \<Longrightarrow> unquote_bytes (concat (map pct bs) @ s) = bs @ unquote_bytes s"
  by (induction bs) (simp_all add: unquote_bytes_pct del: unquote_bytes.simps)

lemma unreserved_not_pct: "unreserved c \<Longrightarrow> c \<noteq> CHR ''%''"
  by (auto simp: unreserved_def less_eq_char_def)

lemma unquote_bytes_quote_char: "unquote_bytes (quote_char c @ s) = utf8 c @ unquote_bytes s"
  by (auto simp: quote_char_def unquote_bytes_pcts utf8_bytes unreserved_not_pct)

lemma unquote_bytes_quote: "unquote_bytes (quote s) = concat (map utf8 s)"
  by (induction s) (simp_all add: quote_def unquote_bytes_quote_char del: unquote_bytes.simps(2))

lemma utf8_decode_utf8: "utf8_decode (utf8 c @ bs) = map_option ((#) c) (utf8_decode bs)"
proof (cases "(of_char c :: nat) < 128")
  case True
  then show ?thesis by (simp add: utf8_def)
next
  case False
  let ?n = "of_char c :: nat"
  have "2 \<le> ?n div 64" "?n div 64 < 4"
    using False by (auto intro: less_mult_imp_div_less simp: of_char_less)
  moreover have "?n div 64 * 64 + ?n mod 64 = ?n" by simp
  ultimately have "utf8_decode ((192 + ?n div 64) # (128 + ?n mod 64) # bs) = map_option ((#) c) (utf8_decode bs)"
    by simp
  then show ?thesis using False by (simp add: utf8_def Let_def del: utf8_decode.simps)
qed

lemma utf8_decode_concat: "utf8_decode (concat (map utf8 s)) = Some s"
  by (induction s) (simp_all add: utf8_decode_utf8)

text \<open>
  \<open>unquote\<close> undoes \<open>quote\<close>, so distinct names never get the same escaped form.
\<close>

theorem unquote_quote: "unquote (quote s) = Some s"
  by (simp add: unquote_def unquote_bytes_quote utf8_decode_concat)

lemma quote_inject [simp]: "quote s = quote t \<longleftrightarrow> s = t"
proof
  assume "quote s = quote t"
  then have "utf8_decode (unquote_bytes (quote s)) = utf8_decode (unquote_bytes (quote t))" by simp
  then show "s = t" by (simp add: unquote_bytes_quote utf8_decode_concat)
qed simp

lemma hex_digit_unreserved: "n < 16 \<Longrightarrow> unreserved (hex_digit n)"
proof -
  assume "n < 16"
  then have "n \<in> set [0..<16]" by simp
  moreover have "\<forall>n\<in>set [0..<16]. unreserved (hex_digit n)"
    by (simp add: upt_rec hex_digit_def unreserved_def less_eq_char_def)
  ultimately show ?thesis by blast
qed

lemma quote_chars: "c \<in> set (quote s) \<Longrightarrow> unreserved c \<or> c = CHR ''%''"
  by (induction s)
    (auto simp: quote_def quote_char_def pct_def hex_digit_unreserved less_mult_imp_div_less
      dest!: utf8_bytes split: if_splits)

lemma slash_not_in_quote [simp]: "CHR ''/'' \<notin> set (quote s)"
  using quote_chars [of "CHR ''/''" s] by (auto simp: unreserved_def less_eq_char_def)

lemma append_slash_inject:
  "CHR ''/'' \<notin> set a \<Longrightarrow> CHR ''/'' \<notin> set b \<Longrightarrow>
     a @ CHR ''/'' # x = b @ CHR ''/'' # y \<longleftrightarrow> a = b \<and> x = y"
proof (induction a arbitrary: b)
  case Nil
  then show ?case by (cases b) auto
next
  case (Cons c a)
  then show ?case by (cases b) auto
qed

end
