(* ===== verification/Blob_Lease.thy ===== *)
theory Blob_Lease
  imports Lock_Interface Guard Quote
begin

text \<open>
  The distributed lock backend on Azure Blob leases, \<^verbatim>\<open>locks/azure_blob.py\<close>. The storage
  service, the monotonic clock and \<open>time.sleep\<close> are a parameter \<open>sv\<close> of the definitions:
  operations on a world of any type. The lock's own state is a record; \<open>_active_leases\<close> is an
  association list in insertion order. A \<open>_LeaseState\<close> object is identified by its owner token,
  which is minted once per object.
\<close>

section \<open>The service\<close>

datatype upload_outcome = Uploaded | BlobExists | UploadFailed azure_error
datatype renew_outcome = Renewed | RenewFailed azure_error | RenewTimedOut

record 'w lease_service =
  sv_upload :: "string \<Rightarrow> 'w \<Rightarrow> upload_outcome \<times> 'w"
  sv_lease :: "string \<Rightarrow> int \<Rightarrow> 'w \<Rightarrow> (azure_error + nat) \<times> 'w"
  sv_release :: "nat \<Rightarrow> 'w \<Rightarrow> 'w"
  sv_renew :: "nat \<Rightarrow> 'w \<Rightarrow> renew_outcome \<times> 'w"
  sv_pool :: "nat list \<Rightarrow> rat \<Rightarrow> 'w \<Rightarrow> (nat \<Rightarrow> renew_outcome) \<times> 'w"
  sv_clock :: "'w \<Rightarrow> rat \<times> 'w"
  sv_sleep :: "rat \<Rightarrow> 'w \<Rightarrow> 'w"

text \<open>\<open>str.lower\<close> on the code points below 256: the capitals are \<open>A\<close> to \<open>Z\<close>, and 192 to 222 without 215.\<close>

definition is_upper :: "nat \<Rightarrow> bool" where
  "is_upper n \<longleftrightarrow> 65 \<le> n \<and> n \<le> 90 \<or> 192 \<le> n \<and> n \<le> 222 \<and> n \<noteq> 215"

definition to_lower :: "char \<Rightarrow> char" where
  "to_lower c = (if is_upper (of_char c) then char_of ((of_char c :: nat) + 32) else c)"

definition lower :: "string \<Rightarrow> string" where
  "lower = map to_lower"

definition is_lease_conflict :: "azure_error \<Rightarrow> bool" where
  "is_lease_conflict e =
     ((case err_code e of None \<Rightarrow> False | Some c \<Rightarrow> take 5 (lower c) = ''lease'') \<or>
      err_status e = Some 409)"

definition definitive_codes :: "string list" where
  "definitive_codes = map lower
     [''LeaseLost'', ''LeaseIdMismatchWithLeaseOperation'', ''LeaseNotPresentWithLeaseOperation'',
      ''LeaseIdMissing'']"

definition is_definitive_lease_loss :: "azure_error \<Rightarrow> bool" where
  "is_definitive_lease_loss e =
     ((case err_code e of None \<Rightarrow> False | Some c \<Rightarrow> lower c \<in> set definitive_codes) \<or>
      err_status e = Some 412)"

section \<open>State and construction\<close>

record lease_state =
  ls_lease :: nat
  ls_token :: token
  ls_failures :: nat
  ls_renewed_at :: rat
  ls_lost :: bool
  ls_error :: "azure_error option"

record blob_lock =
  bl_duration :: int
  bl_prefix :: string
  bl_auto_renew :: bool
  bl_guard_writes :: bool
  bl_closed :: bool
  bl_interval :: rat
  bl_leases :: "(lock_key \<times> lease_state) list"

datatype blob_warning = FiniteWithoutRenewal int | GuardWithoutRenewal
datatype blob_init_error = BadDuration int | SdkMissing | NotAContainerClient

definition lease_min :: int where "lease_min = 15"
definition lease_max :: int where "lease_max = 60"
definition lease_infinite :: int where "lease_infinite = -1"
definition renewal_fraction :: rat where "renewal_fraction = 3"
definition max_renewal_failures :: nat where "max_renewal_failures = 3"
definition poll_min :: rat where "poll_min = 1 / 20"
definition poll_max :: rat where "poll_max = 1 / 2"

text \<open>
  \<open>__init__\<close>. Whether the Azure SDK is importable and whether the client is one of its
  \<open>ContainerClient\<close>s are arguments.
\<close>

definition blob_lock_init ::
    "bool \<Rightarrow> bool \<Rightarrow> int \<Rightarrow> string \<Rightarrow> bool \<Rightarrow> bool \<Rightarrow>
     blob_init_error + (blob_lock \<times> blob_warning list)" where
  "blob_lock_init sdk_present is_container duration prefix auto_renew guard_writes =
     (if duration \<noteq> lease_infinite \<and> \<not> (lease_min \<le> duration \<and> duration \<le> lease_max)
        then Inl (BadDuration duration)
      else if \<not> sdk_present then Inl SdkMissing
      else if \<not> is_container then Inl NotAContainerClient
      else
        let auto = (auto_renew \<and> duration \<noteq> lease_infinite) in
        Inr (\<lparr>bl_duration = duration, bl_prefix = prefix, bl_auto_renew = auto,
              bl_guard_writes = guard_writes, bl_closed = False,
              bl_interval = (if auto then of_int duration / renewal_fraction else 0),
              bl_leases = []\<rparr>,
             (if duration \<noteq> lease_infinite \<and> \<not> auto_renew then [FiniteWithoutRenewal duration] else []) @
             (if guard_writes \<and> \<not> auto then [GuardWithoutRenewal] else [])))"

definition bl_blob_name :: "blob_lock \<Rightarrow> lock_key \<Rightarrow> string" where
  "bl_blob_name l k = bl_prefix l @ quote (key_graph k) @ ''/'' @ quote (key_thread k)"

section \<open>Acquire\<close>

definition ensure_marker :: "'w lease_service \<Rightarrow> string \<Rightarrow> 'w \<Rightarrow> azure_error option \<times> 'w" where
  "ensure_marker sv name w =
     (case sv_upload sv name w of
        (Uploaded, w') \<Rightarrow> (None, w')
      | (BlobExists, w') \<Rightarrow> (None, w')
      | (UploadFailed e, w') \<Rightarrow>
          (if err_http e \<and> is_lease_conflict e then (None, w') else (Some e, w')))"

datatype poll_outcome = Leased nat | Refuse | Raise azure_error | PollClosed | OutOfFuel

text \<open>
  The \<open>while True\<close> loop around \<open>acquire_lease\<close>: each round first looks whether the lock is
  closed, and then asks the service, with no mutex held. A conflict ends the loop when there is no
  timeout or the deadline has passed; otherwise the round sleeps half the remaining time, within
  bounds, and the loop goes on. The loop's fuel is the number of rounds that a clock which advances by at
  least each sleep allows. \<open>poll\<close> is the loop with nobody else at work on the lock.
\<close>

definition poll_round ::
    "'w lease_service \<Rightarrow> int \<Rightarrow> string \<Rightarrow> rat \<Rightarrow> rat \<Rightarrow> 'w \<Rightarrow> poll_outcome option \<times> 'w" where
  "poll_round sv duration name timeout deadline w =
     (case sv_lease sv name duration w of
        (Inr lease, w1) \<Rightarrow> (Some (Leased lease), w1)
      | (Inl e, w1) \<Rightarrow>
          (if \<not> err_http e \<or> \<not> is_lease_conflict e then (Some (Raise e), w1)
           else if timeout \<le> 0 then (Some Refuse, w1)
           else
             let (t1, w2) = sv_clock sv w1 in
             if t1 \<ge> deadline then (Some Refuse, w2)
             else
               let (t2, w3) = sv_clock sv w2
               in (None, sv_sleep sv (min poll_max (max poll_min ((deadline - t2) / 2))) w3)))"

fun poll :: "nat \<Rightarrow> 'w lease_service \<Rightarrow> blob_lock \<Rightarrow> string \<Rightarrow> rat \<Rightarrow> rat \<Rightarrow> 'w \<Rightarrow> poll_outcome \<times> 'w" where
  "poll 0 sv l name timeout deadline w = (OutOfFuel, w)"
| "poll (Suc n) sv l name timeout deadline w =
     (if bl_closed l then (PollClosed, w)
      else case poll_round sv (bl_duration l) name timeout deadline w of
          (Some out, w1) \<Rightarrow> (out, w1)
        | (None, w1) \<Rightarrow> poll n sv l name timeout deadline w1)"

definition poll_fuel :: "rat \<Rightarrow> nat" where
  "poll_fuel timeout = (if timeout \<le> 0 then 1 else nat \<lceil>timeout * 20\<rceil> + 2)"

text \<open>
  Registering a lease that the service granted, the last guarded block: the key may have been
  taken, or the lock closed, while the request was in flight, and then the lease goes back.
\<close>

definition bl_register ::
    "'w lease_service \<Rightarrow> lock_key \<Rightarrow> token \<Rightarrow> nat \<Rightarrow> blob_lock \<times> 'w \<Rightarrow>
     (lock_error + token option) \<times> (blob_lock \<times> 'w)" where
  "bl_register sv k tok lease = (\<lambda>(l, w).
     if map_of (bl_leases l) k \<noteq> None then (Inr None, (l, sv_release sv lease w))
     else if bl_closed l then (Inl LockClosed, (l, sv_release sv lease w))
     else
       let (now, w') = sv_clock sv w;
           st = \<lparr>ls_lease = lease, ls_token = tok, ls_failures = 0, ls_renewed_at = now,
                 ls_lost = False, ls_error = None\<rparr>
       in (Inr (Some tok), (l\<lparr>bl_leases := AList.update k st (bl_leases l)\<rparr>, w')))"

definition acquire_deadline :: "'w lease_service \<Rightarrow> rat \<Rightarrow> 'w \<Rightarrow> rat \<times> 'w" where
  "acquire_deadline sv timeout w =
     (if timeout > 0 then let (t, w') = sv_clock sv w in (t + timeout, w') else (0, w))"

text \<open>
  \<open>acquire\<close> of a caller that nobody else interrupts: its three guarded blocks and the service calls between
  them, one after the other. \<open>Blob_Concurrent\<close> runs the same pieces interleaved with other callers.
\<close>

definition bl_acquire ::
    "'w lease_service \<Rightarrow> rat \<Rightarrow> lock_key \<Rightarrow> token \<Rightarrow> blob_lock \<times> 'w \<Rightarrow>
     (lock_error + token option) \<times> (blob_lock \<times> 'w)" where
  "bl_acquire sv timeout k tok = (\<lambda>(l, w).
     if bl_closed l then (Inl LockClosed, (l, w))
     else if map_of (bl_leases l) k \<noteq> None then (Inr None, (l, w))
     else
       (case ensure_marker sv (bl_blob_name l k) w of
          (Some e, w1) \<Rightarrow> (Inl (LockServiceError e), (l, w1))
        | (None, w1) \<Rightarrow>
            let (deadline, w2) = acquire_deadline sv timeout w1
            in (case poll (poll_fuel timeout) sv l (bl_blob_name l k) timeout deadline w2 of
                  (Raise e, w3) \<Rightarrow> (Inl (LockServiceError e), (l, w3))
                | (Refuse, w3) \<Rightarrow> (Inr None, (l, w3))
                | (PollClosed, w3) \<Rightarrow> (Inl LockClosed, (l, w3))
                | (OutOfFuel, w3) \<Rightarrow> (Inl LockPolling, (l, w3))
                | (Leased lease, w3) \<Rightarrow> bl_register sv k tok lease (l, w3))))"

section \<open>Release, renewal, close\<close>

definition bl_release ::
    "'w lease_service \<Rightarrow> lock_key \<Rightarrow> token \<Rightarrow> blob_lock \<times> 'w \<Rightarrow> blob_lock \<times> 'w" where
  "bl_release sv k tok = (\<lambda>(l, w).
     (case map_of (bl_leases l) k of
        None \<Rightarrow> (l, w)
      | Some st \<Rightarrow>
          (if ls_token st \<noteq> tok then (l, w)
           else
             let l' = l\<lparr>bl_leases := AList.delete k (bl_leases l)\<rparr>
             in (if ls_lost st then (l', w) else (l', sv_release sv (ls_lease st) w)))))"

text \<open>\<open>self._active_leases.get(key) is state\<close>: objects are compared by their token.\<close>

definition tracked_is :: "blob_lock \<Rightarrow> lock_key \<Rightarrow> lease_state \<Rightarrow> bool" where
  "tracked_is l k st =
     (case map_of (bl_leases l) k of None \<Rightarrow> False | Some cur \<Rightarrow> ls_token cur = ls_token st)"

definition put_lease :: "lock_key \<Rightarrow> (lease_state \<Rightarrow> lease_state) \<Rightarrow> blob_lock \<Rightarrow> blob_lock" where
  "put_lease k f l =
     (case map_of (bl_leases l) k of None \<Rightarrow> l
      | Some cur \<Rightarrow> l\<lparr>bl_leases := AList.update k (f cur) (bl_leases l)\<rparr>)"

definition record_renew_success :: "lock_key \<Rightarrow> lease_state \<Rightarrow> rat \<Rightarrow> blob_lock \<Rightarrow> blob_lock" where
  "record_renew_success k st now l =
     (if tracked_is l k st
      then put_lease k (\<lambda>c. c\<lparr>ls_failures := 0, ls_renewed_at := now, ls_error := None\<rparr>) l
      else l)"

definition fail_lease :: "azure_error \<Rightarrow> lease_state \<Rightarrow> lease_state" where
  "fail_lease e c =
     (if is_definitive_lease_loss e then c\<lparr>ls_error := Some e, ls_lost := True\<rparr>
      else if ls_failures c + 1 \<ge> max_renewal_failures
        then c\<lparr>ls_error := Some e, ls_failures := ls_failures c + 1, ls_lost := True\<rparr>
      else c\<lparr>ls_error := Some e, ls_failures := ls_failures c + 1\<rparr>)"

definition handle_renew_failure :: "lock_key \<Rightarrow> lease_state \<Rightarrow> azure_error \<Rightarrow> blob_lock \<Rightarrow> blob_lock" where
  "handle_renew_failure k st e l = (if tracked_is l k st then put_lease k (fail_lease e) l else l)"

definition timeout_error :: azure_error where
  "timeout_error = \<lparr>err_http = False, err_code = None, err_status = None\<rparr>"

definition apply_renewal ::
    "'w lease_service \<Rightarrow> lock_key \<times> lease_state \<Rightarrow> renew_outcome \<Rightarrow> blob_lock \<times> 'w \<Rightarrow> blob_lock \<times> 'w" where
  "apply_renewal sv ks out = (\<lambda>(l, w).
     (case out of
        Renewed \<Rightarrow> let (now, w') = sv_clock sv w in (record_renew_success (fst ks) (snd ks) now l, w')
      | RenewFailed e \<Rightarrow> (handle_renew_failure (fst ks) (snd ks) e l, w)
      | RenewTimedOut \<Rightarrow> (handle_renew_failure (fst ks) (snd ks) timeout_error l, w)))"

text \<open>
  \<open>_renew_all_once\<close>: the leases not yet lost, renewed one after the other without a pool, or
  on the pool; then the finished calls are handled before those still pending.
\<close>

definition bl_renew_all :: "'w lease_service \<Rightarrow> blob_lock \<times> 'w \<Rightarrow> blob_lock \<times> 'w" where
  "bl_renew_all sv = (\<lambda>(l, w).
     let snapshot = filter (\<lambda>ks. \<not> ls_lost (snd ks)) (bl_leases l) in
     if snapshot = [] then (l, w)
     else if \<not> bl_auto_renew l then
       fold (\<lambda>ks (l, w). let (out, w') = sv_renew sv (ls_lease (snd ks)) w
                         in apply_renewal sv ks out (l, w')) snapshot (l, w)
     else
       let (outs, w') = sv_pool sv (map (\<lambda>ks. ls_lease (snd ks)) snapshot) (bl_interval l) w;
           results = zip snapshot (map outs [0..<length snapshot]);
           finished = filter (\<lambda>r. snd r \<noteq> RenewTimedOut) results;
           not_done = filter (\<lambda>r. snd r = RenewTimedOut) results
       in fold (\<lambda>r. apply_renewal sv (fst r) (snd r)) (finished @ not_done) (l, w'))"

definition bl_close :: "'w lease_service \<Rightarrow> blob_lock \<times> 'w \<Rightarrow> blob_lock \<times> 'w" where
  "bl_close sv = (\<lambda>(l, w).
     if bl_closed l then (l, w)
     else (l\<lparr>bl_closed := True, bl_leases := []\<rparr>,
           fold (\<lambda>ks w. if ls_lost (snd ks) then w else sv_release sv (ls_lease (snd ks)) w)
             (bl_leases l) w))"

section \<open>The ownership guard\<close>

definition ownership_problem :: "blob_lock \<Rightarrow> lock_key \<Rightarrow> token \<Rightarrow> lease_loss option" where
  "ownership_problem l k tok =
     (if bl_closed l then Some Released
      else case map_of (bl_leases l) k of
          None \<Rightarrow> Some Released
        | Some st \<Rightarrow>
            (if ls_token st \<noteq> tok then Some Superseded
             else if ls_lost st then Some Lost
             else None))"

record lease_guard =
  lg_key :: lock_key
  lg_token :: token
  lg_reported :: bool

definition bl_ownership_guard :: "blob_lock \<Rightarrow> lock_key \<Rightarrow> token \<Rightarrow> lease_guard option" where
  "bl_ownership_guard l k tok =
     (if bl_guard_writes l then Some \<lparr>lg_key = k, lg_token = tok, lg_reported = False\<rparr> else None)"

datatype log_level = LogDebug | LogWarning

definition guard_check ::
    "blob_lock \<Rightarrow> lease_guard \<Rightarrow> (lease_lost_error + unit) \<times> lease_guard \<times> log_level option" where
  "guard_check l g =
     (case ownership_problem l (lg_key g) (lg_token g) of
        None \<Rightarrow> (Inr (), g, None)
      | Some r \<Rightarrow>
          (Inl \<lparr>lle_reason = r, lle_graph = Some (key_graph (lg_key g)),
                lle_thread = Some (key_thread (lg_key g))\<rparr>,
           g\<lparr>lg_reported := True\<rparr>,
           Some (if lg_reported g then LogDebug else LogWarning)))"

section \<open>What every operation keeps\<close>

text \<open>
  \<open>keeps l l'\<close>: nothing is tracked that was not, under the same token, before; a lost entry
  stays lost and a closed lock closed. Renewal keeps this and drops no entry either.
\<close>

definition keeps :: "blob_lock \<Rightarrow> blob_lock \<Rightarrow> bool" where
  "keeps l l' \<longleftrightarrow>
     (bl_closed l \<longrightarrow> bl_closed l') \<and>
     (\<forall>k st'. map_of (bl_leases l') k = Some st' \<longrightarrow>
        (\<exists>st. map_of (bl_leases l) k = Some st \<and> ls_token st' = ls_token st \<and>
              (ls_lost st \<longrightarrow> ls_lost st')))"

definition same_tracking :: "blob_lock \<Rightarrow> blob_lock \<Rightarrow> bool" where
  "same_tracking l l' \<longleftrightarrow>
     keeps l l' \<and> bl_closed l' = bl_closed l \<and>
     map fst (bl_leases l') = map fst (bl_leases l) \<and>
     (\<forall>k. map_option ls_token (map_of (bl_leases l') k) = map_option ls_token (map_of (bl_leases l) k))"

lemma keeps_refl [simp]: "keeps l l"
  by (simp add: keeps_def)

lemma keeps_trans: "keeps l l' \<Longrightarrow> keeps l' l'' \<Longrightarrow> keeps l l''"
  unfolding keeps_def by metis

lemma same_tracking_refl [simp]: "same_tracking l l"
  by (simp add: same_tracking_def)

lemma same_tracking_trans: "same_tracking l l' \<Longrightarrow> same_tracking l' l'' \<Longrightarrow> same_tracking l l''"
  unfolding same_tracking_def by (metis keeps_trans)

lemma update_keys: "map_of d k \<noteq> None \<Longrightarrow> map fst (AList.update k v d) = map fst d"
  by (induction d) auto

lemma same_tracking_put:
  assumes "\<And>c. ls_token (f c) = ls_token c" "\<And>c. ls_lost c \<Longrightarrow> ls_lost (f c)"
  shows "same_tracking l (put_lease k f l)"
  using assms
  by (auto simp: put_lease_def same_tracking_def keeps_def update_keys split: option.splits)

lemma same_tracking_apply: "same_tracking l (fst (apply_renewal sv ks out (l, w)))"
  by (auto simp: apply_renewal_def record_renew_success_def handle_renew_failure_def fail_lease_def
      split: renew_outcome.splits prod.splits intro!: same_tracking_put)

lemma same_tracking_fold:
  "(\<And>x l w. same_tracking l (fst (f x (l, w)))) \<Longrightarrow> same_tracking l (fst (fold f xs (l, w)))"
proof (induction xs arbitrary: l w)
  case (Cons x xs)
  obtain l1 w1 where 1: "f x (l, w) = (l1, w1)" by fastforce
  with Cons.prems [of l x w] have "same_tracking l l1" by simp
  moreover have "same_tracking l1 (fst (fold f xs (l1, w1)))" using Cons by simp
  ultimately show ?case using 1 by (simp add: same_tracking_trans)
qed simp

lemma same_tracking_renew: "same_tracking l (fst (bl_renew_all sv (l, w)))"
proof -
  have "same_tracking l (fst ((\<lambda>(l, w). let (out, w') = sv_renew sv (ls_lease (snd ks)) w
      in apply_renewal sv ks out (l, w')) (l, w)))" for ks l w
    by (auto simp: same_tracking_apply split: prod.splits)
  then show ?thesis
    unfolding bl_renew_all_def
    by (auto simp: Let_def simp del: fold_append split: prod.splits
        intro!: same_tracking_fold same_tracking_apply)
qed

lemma bl_register_cases:
  "bl_register sv k tok lease (l, w) =
     (if map_of (bl_leases l) k \<noteq> None then (Inr None, (l, sv_release sv lease w))
      else if bl_closed l then (Inl LockClosed, (l, sv_release sv lease w))
      else (Inr (Some tok),
        (l\<lparr>bl_leases := AList.update k \<lparr>ls_lease = lease, ls_token = tok, ls_failures = 0,
             ls_renewed_at = fst (sv_clock sv w), ls_lost = False, ls_error = None\<rparr> (bl_leases l)\<rparr>,
         snd (sv_clock sv w))))"
  by (simp add: bl_register_def split: prod.splits)

text \<open>
  \<open>acquire\<close> either leaves the lock's state alone and returns no token, or was let through
  to \<open>bl_register\<close> on an open lock that did not track the key.
\<close>

lemma bl_acquire_cases:
  obtains (refused) r w' where "bl_acquire sv timeout k tok (l, w) = (r, (l, w'))" "\<forall>t. r \<noteq> Inr (Some t)"
  | (granted) lease w1 where "\<not> bl_closed l" "map_of (bl_leases l) k = None"
      "bl_acquire sv timeout k tok (l, w) = bl_register sv k tok lease (l, w1)"
proof -
  consider "bl_closed l" | "\<not> bl_closed l" "map_of (bl_leases l) k \<noteq> None"
    | (open_lock) "\<not> bl_closed l" "map_of (bl_leases l) k = None" by blast
  then show ?thesis
  proof cases
    case 1
    then show ?thesis by (intro refused [of "Inl LockClosed" w]) (simp_all add: bl_acquire_def)
  next
    case 2
    then show ?thesis by (intro refused [of "Inr None" w]) (simp_all add: bl_acquire_def)
  next
    case open_lock
    obtain me w1 where me: "ensure_marker sv (bl_blob_name l k) w = (me, w1)" by fastforce
    obtain d w2 where d: "acquire_deadline sv timeout w1 = (d, w2)" by fastforce
    obtain out w3 where p: "poll (poll_fuel timeout) sv l (bl_blob_name l k) timeout d w2 = (out, w3)"
      by fastforce
    show ?thesis
    proof (cases me)
      case None
      then show ?thesis
        using open_lock me d p refused granted by (cases out) (simp_all add: bl_acquire_def)
    next
      case (Some e)
      then show ?thesis using open_lock me refused by (simp add: bl_acquire_def)
    qed
  qed
qed

section \<open>The backend satisfies the lock contract\<close>

definition bl_owner :: "blob_lock \<times> 'w \<Rightarrow> lock_key \<Rightarrow> token option" where
  "bl_owner lw k = map_option ls_token (map_of (bl_leases (fst lw)) k)"

text \<open>No two entries for one key, and nothing tracked once closed.\<close>

definition bl_ok :: "blob_lock \<times> 'w \<Rightarrow> bool" where
  "bl_ok lw \<longleftrightarrow> distinct (map fst (bl_leases (fst lw))) \<and> (bl_closed (fst lw) \<longrightarrow> bl_leases (fst lw) = [])"

interpretation blob: thread_lock "bl_acquire sv timeout" "bl_release sv" bl_owner bl_ok for sv timeout
proof (unfold_locales, goal_cases)
  case (1 s k tok r s')
  obtain l w where s: "s = (l, w)" by fastforce
  show ?case
    using bl_acquire_cases [of sv timeout k tok l w]
  proof cases
    case (refused r w')
    with 1 s show ?thesis by (auto simp: bl_ok_def)
  next
    case (granted lease w1)
    with 1 s show ?thesis by (auto simp: bl_ok_def bl_register_cases distinct_update)
  qed
next
  case (2 s k tok t s')
  obtain l w where s: "s = (l, w)" by fastforce
  show ?case
    using bl_acquire_cases [of sv timeout k tok l w]
  proof cases
    case (refused r w')
    with 2 s show ?thesis by simp
  next
    case (granted lease w1)
    with 2 s show ?thesis by (auto simp: bl_owner_def bl_register_cases fun_eq_iff)
  qed
next
  case (3 s k tok r s')
  obtain l w where s: "s = (l, w)" by fastforce
  show ?case
    using bl_acquire_cases [of sv timeout k tok l w]
  proof cases
    case (refused r w')
    with 3 s show ?thesis by (auto simp: bl_owner_def)
  next
    case (granted lease w1)
    with 3 s show ?thesis by (auto simp: bl_register_cases)
  qed
next
  case (4 s k t)
  then show ?case
    by (cases s) (auto simp: bl_release_def bl_ok_def distinct_delete Let_def split: option.splits)
next
  case (5 s k t)
  then show ?case
    by (cases s) (auto simp: bl_release_def bl_owner_def fun_eq_iff Let_def split: option.splits)
qed

section \<open>Sequences of operations\<close>

text \<open>Whole operations, one after the other; \<open>Blob_Concurrent\<close> interleaves them.\<close>

datatype blob_op =
    BAcquire rat lock_key token
  | BRelease lock_key token
  | BRenew
  | BClose

fun bl_step :: "'w lease_service \<Rightarrow> blob_op \<Rightarrow> blob_lock \<times> 'w \<Rightarrow> blob_lock \<times> 'w" where
  "bl_step sv (BAcquire timeout k tok) s = snd (bl_acquire sv timeout k tok s)"
| "bl_step sv (BRelease k tok) s = bl_release sv k tok s"
| "bl_step sv BRenew s = bl_renew_all sv s"
| "bl_step sv BClose s = bl_close sv s"

fun bl_run :: "'w lease_service \<Rightarrow> blob_op list \<Rightarrow> blob_lock \<times> 'w \<Rightarrow> blob_lock \<times> 'w" where
  "bl_run sv [] s = s"
| "bl_run sv (x # xs) s = bl_run sv xs (bl_step sv x s)"

lemma bl_renew_owner: "bl_owner (bl_renew_all sv s) = bl_owner s"
  using same_tracking_renew [of "fst s" sv "snd s"]
  by (auto simp: bl_owner_def same_tracking_def fun_eq_iff)

lemma bl_step_ok:
  assumes "bl_ok s"
  shows "bl_ok (bl_step sv x s)"
proof (cases x)
  case (BAcquire timeout k tok)
  then show ?thesis
    using assms blob.acquire_inv [of s sv timeout k tok] by (cases "bl_acquire sv timeout k tok s") simp
next
  case (BRelease k tok)
  then show ?thesis using assms by (simp add: blob.release_inv)
next
  case BRenew
  have st: "same_tracking (fst s) (fst (bl_renew_all sv s))"
    using same_tracking_renew [of "fst s" sv "snd s"] by simp
  then have "map fst (bl_leases (fst (bl_renew_all sv s))) = map fst (bl_leases (fst s))"
    "bl_closed (fst (bl_renew_all sv s)) = bl_closed (fst s)"
    by (simp_all add: same_tracking_def)
  with assms BRenew show ?thesis unfolding bl_ok_def by (metis bl_step.simps(3) list.map_disc_iff)
next
  case BClose
  with assms show ?thesis by (cases s) (simp add: bl_close_def bl_ok_def)
qed

text \<open>Operations that give the key of an owner away: its own release, and closing the lock.\<close>

fun gives_up :: "lock_key \<Rightarrow> token \<Rightarrow> blob_op \<Rightarrow> bool" where
  "gives_up k tok (BRelease k' tok') = (k' = k \<and> tok' = tok)"
| "gives_up k tok BClose = True"
| "gives_up _ _ _ = False"

lemma bl_step_owner:
  assumes "bl_ok s" "bl_owner s k = Some tok" "\<not> gives_up k tok x"
  shows "bl_owner (bl_step sv x s) k = Some tok"
proof (cases x)
  case (BAcquire timeout k' tok')
  obtain r s' where r: "bl_acquire sv timeout k' tok' s = (r, s')" by (rule prod.exhaust)
  show ?thesis
  proof (cases "\<exists>t. r = Inr (Some t)")
    case True
    then obtain t where t: "bl_acquire sv timeout k' tok' s = (Inr (Some t), s')" using r by blast
    have "bl_owner s k' = None \<and> bl_owner s' = (bl_owner s)(k' := Some tok')"
      using blob.acquire_token [OF assms(1) t] by simp
    with t BAcquire assms(2) show ?thesis by auto
  next
    case False
    then have "bl_owner s' = bl_owner s"
      using blob.acquire_refused [OF assms(1) r] by blast
    with r BAcquire assms(2) show ?thesis by simp
  qed
next
  case (BRelease k' tok')
  with assms show ?thesis by (auto simp: blob.release_owner)
qed (use assms in \<open>simp_all add: bl_renew_owner\<close>)

lemma bl_run_owner:
  "bl_ok s \<Longrightarrow> bl_owner s k = Some tok \<Longrightarrow> \<forall>x\<in>set xs. \<not> gives_up k tok x \<Longrightarrow>
     bl_ok (bl_run sv xs s) \<and> bl_owner (bl_run sv xs s) k = Some tok"
  by (induction xs arbitrary: s) (auto simp: bl_step_ok bl_step_owner)

lemma bl_acquire_tracked:
  assumes "bl_ok s" "bl_owner s k = Some tok"
  shows "bl_acquire sv timeout k tok' s = (Inr None, s)"
  using assms by (cases s) (auto simp: bl_owner_def bl_ok_def bl_acquire_def)

text \<open>
  Once a key was acquired, then after any sequence of whole renewals (also ones that lose the lease),
  acquires and foreign releases the key still belongs to its token, and a further acquire answers
  \<open>None\<close> without any service call. Only the owner's release or \<open>close\<close> frees it.
\<close>

theorem blob_lock_kept:
  assumes "bl_ok s" "bl_acquire sv timeout k tok s = (Inr (Some t), s1)"
    and "\<forall>x\<in>set xs. \<not> gives_up k tok x"
  shows "bl_owner (bl_run sv xs s1) k = Some tok \<and>
    bl_acquire sv timeout' k tok' (bl_run sv xs s1) = (Inr None, bl_run sv xs s1)"
proof -
  have "bl_ok s1" "bl_owner s1 k = Some tok"
    using blob.acquire_inv [OF assms(1,2)] blob.acquire_token [OF assms(1,2)] by simp_all
  with assms(3) bl_run_owner show ?thesis by (blast intro: bl_acquire_tracked)
qed

text \<open>A service for examples: every call succeeds, and the clock stands still.\<close>

definition calm_service :: "nat lease_service" where
  "calm_service =
     \<lparr>sv_upload = (\<lambda>_ w. (Uploaded, w)), sv_lease = (\<lambda>_ _ w. (Inr w, Suc w)), sv_release = (\<lambda>_ w. w),
      sv_renew = (\<lambda>_ w. (Renewed, w)), sv_pool = (\<lambda>_ _ w. (\<lambda>_. Renewed, w)),
      sv_clock = (\<lambda>w. (0, w)), sv_sleep = (\<lambda>_ w. w)\<rparr>"

definition example_lock :: blob_lock where
  "example_lock = \<lparr>bl_duration = 60, bl_prefix = ''thread-locks/'', bl_auto_renew = False,
     bl_guard_writes = True, bl_closed = False, bl_interval = 0, bl_leases = []\<rparr>"

lemma example_acquire:
  "bl_acquire calm_service 0 k tok (example_lock, 0) =
     (Inr (Some tok), (example_lock\<lparr>bl_leases :=
        [(k, \<lparr>ls_lease = 0, ls_token = tok, ls_failures = 0, ls_renewed_at = 0, ls_lost = False,
              ls_error = None\<rparr>)]\<rparr>, 1))"
  by (simp add: bl_acquire_def acquire_deadline_def poll_round_def example_lock_def calm_service_def ensure_marker_def poll_fuel_def
      bl_register_cases)

lemma blob_lock_kept_witness:
  "bl_owner (bl_run calm_service [BRenew, BRelease (Key ''g'' ''t'') ''old'']
      (snd (bl_acquire calm_service 0 (Key ''g'' ''t'') ''tok'' (example_lock, 0)))) (Key ''g'' ''t'') = Some ''tok''"
proof -
  have "bl_ok (example_lock, 0 :: nat)" by (simp add: bl_ok_def example_lock_def)
  note excl = blob_lock_kept [OF this example_acquire]
  show ?thesis
    unfolding example_acquire snd_conv by (rule conjunct1 [OF excl]) simp
qed

section \<open>The guard\<close>

lemma keeps_problem:
  "keeps l l' \<Longrightarrow> ownership_problem l k tok \<noteq> None \<Longrightarrow> ownership_problem l' k tok \<noteq> None"
  unfolding ownership_problem_def keeps_def
  by (fastforce split: option.splits if_splits)

lemma bl_release_keeps: "keeps l (fst (bl_release sv k tok (l, w)))"
  by (auto simp: bl_release_def keeps_def Let_def split: option.splits)

lemma bl_close_keeps: "keeps l (fst (bl_close sv (l, w)))"
  by (auto simp: bl_close_def keeps_def)

lemma bl_acquire_problem:
  assumes "ownership_problem l k tok \<noteq> None" "tok' \<noteq> tok"
  shows "ownership_problem (fst (snd (bl_acquire sv timeout k' tok' (l, w)))) k tok \<noteq> None"
  using bl_acquire_cases [of sv timeout k' tok' l w]
proof cases
  case (refused r w')
  with assms show ?thesis by simp
next
  case (granted lease w1)
  with assms show ?thesis
    by (auto simp: bl_register_cases ownership_problem_def split: if_splits)
qed

lemma bl_step_problem:
  assumes "ownership_problem (fst s) k tok \<noteq> None" "\<forall>timeout k'. x \<noteq> BAcquire timeout k' tok"
  shows "ownership_problem (fst (bl_step sv x s)) k tok \<noteq> None"
proof (cases x)
  case (BAcquire timeout k' tok')
  with assms bl_acquire_problem [of "fst s" k tok tok' sv timeout k' "snd s"] show ?thesis by auto
next
  case (BRelease k' tok')
  with assms keeps_problem [OF bl_release_keeps [of "fst s" sv k' tok' "snd s"]] show ?thesis by simp
next
  case BRenew
  have "keeps (fst s) (fst (bl_renew_all sv s))"
    using same_tracking_renew [of "fst s" sv "snd s"] by (simp add: same_tracking_def)
  with assms BRenew keeps_problem show ?thesis by auto
next
  case BClose
  with assms keeps_problem [OF bl_close_keeps [of "fst s" sv "snd s"]] show ?thesis by simp
qed

text \<open>
  Detected loss is final: once a guard bound to a token has rejected, it rejects after every
  later sequence of acquires, releases, renewals and \<open>close\<close>, since no other acquisition mints
  the same token. A stale execution never inherits a newer owner's identity.
\<close>

theorem guard_rejection_final:
  assumes "\<exists>e. fst (guard_check (fst s) g) = Inl e"
    and "\<forall>timeout k'. BAcquire timeout k' (lg_token g) \<notin> set xs"
  shows "\<exists>e. fst (guard_check (fst (bl_run sv xs s)) g) = Inl e"
proof -
  have check: "(\<exists>e. fst (guard_check l g) = Inl e) \<longleftrightarrow> ownership_problem l (lg_key g) (lg_token g) \<noteq> None" for l
    by (auto simp: guard_check_def split: option.splits)
  have "ownership_problem (fst (bl_run sv xs s)) (lg_key g) (lg_token g) \<noteq> None"
    if "ownership_problem (fst s) (lg_key g) (lg_token g) \<noteq> None"
    using that assms(2)
  proof (induction xs arbitrary: s)
    case (Cons x xs)
    then have "ownership_problem (fst (bl_step sv x s)) (lg_key g) (lg_token g) \<noteq> None"
      by (intro bl_step_problem) auto
    with Cons show ?case by auto
  qed simp
  with assms(1) show ?thesis by (simp add: check)
qed

lemma guard_rejection_final_witness:
  "\<exists>e. fst (guard_check (fst (bl_run calm_service [BAcquire 0 (Key ''g'' ''t'') ''new'']
      (example_lock, 0))) \<lparr>lg_key = Key ''g'' ''t'', lg_token = ''old'', lg_reported = False\<rparr>) = Inl e"
  by (rule guard_rejection_final)
    (auto simp: guard_check_def ownership_problem_def example_lock_def)

text \<open>
  The guard passes exactly for the current, not lost owner of an open lock: right after
  \<open>acquire\<close> it passes, and after the owner's release or \<open>close\<close> it rejects.
\<close>

theorem guard_tracks_owner:
  assumes "bl_ok s" "bl_acquire sv timeout k tok s = (Inr (Some t), s1)"
  shows "fst (guard_check (fst s1) \<lparr>lg_key = k, lg_token = tok, lg_reported = b\<rparr>) = Inr () \<and>
    ownership_problem (fst (bl_release sv k tok s1)) k tok = Some Released \<and>
    ownership_problem (fst (bl_close sv s1)) k tok = Some Released"
proof -
  obtain l w where s: "s = (l, w)" by fastforce
  show ?thesis
    using bl_acquire_cases [of sv timeout k tok l w]
  proof cases
    case (refused r w')
    with assms s show ?thesis by simp
  next
    case (granted lease w1)
    with assms s show ?thesis
      by (auto simp: bl_register_cases guard_check_def ownership_problem_def bl_release_def
          bl_close_def Let_def)
  qed
qed

lemma guard_tracks_owner_witness:
  "ownership_problem (fst (bl_close calm_service
     (snd (bl_acquire calm_service 0 (Key ''g'' ''t'') ''tok'' (example_lock, 0))))) (Key ''g'' ''t'') ''tok'' = Some Released"
proof -
  have "bl_ok (example_lock, 0 :: nat)" by (simp add: bl_ok_def example_lock_def)
  from guard_tracks_owner [OF this example_acquire] show ?thesis unfolding example_acquire by simp
qed

section \<open>Renewal\<close>

text \<open>One renewal of one entry, and the outcomes by class.\<close>

definition renew_entry :: "rat \<Rightarrow> renew_outcome \<Rightarrow> lease_state \<Rightarrow> lease_state" where
  "renew_entry now out st =
     (if ls_lost st then st
      else case out of
          Renewed \<Rightarrow> st\<lparr>ls_failures := 0, ls_renewed_at := now, ls_error := None\<rparr>
        | RenewFailed e \<Rightarrow> fail_lease e st
        | RenewTimedOut \<Rightarrow> fail_lease timeout_error st)"

fun definitive_outcome :: "renew_outcome \<Rightarrow> bool" where
  "definitive_outcome (RenewFailed e) = is_definitive_lease_loss e"
| "definitive_outcome _ = False"

fun transient_outcome :: "renew_outcome \<Rightarrow> bool" where
  "transient_outcome (RenewFailed e) = (\<not> is_definitive_lease_loss e)"
| "transient_outcome RenewTimedOut = True"
| "transient_outcome Renewed = False"

lemma timeout_not_definitive [simp]: "\<not> is_definitive_lease_loss timeout_error"
  by (simp add: is_definitive_lease_loss_def timeout_error_def)

lemma apply_renewal_entry:
  assumes "map_of (bl_leases l) k = Some st" "\<not> ls_lost st"
  shows "\<exists>now. map_of (bl_leases (fst (apply_renewal sv (k, st) out (l, w)))) k = Some (renew_entry now out st)"
  using assms
  by (cases out)
    (auto simp: apply_renewal_def renew_entry_def record_renew_success_def handle_renew_failure_def
      tracked_is_def put_lease_def split: prod.splits)

lemma apply_renewal_other:
  "j \<noteq> k \<Longrightarrow> map_of (bl_leases (fst (apply_renewal sv (k, st) out (l, w)))) j = map_of (bl_leases l) j"
  by (cases out)
    (auto simp: apply_renewal_def record_renew_success_def handle_renew_failure_def
      put_lease_def split: prod.splits option.splits)

lemma renewal_fold_other:
  assumes "\<And>x l w. \<exists>out w'. f x (l, w) = apply_renewal sv (g x) out (l, w')"
    "j \<notin> fst ` g ` set xs"
  shows "map_of (bl_leases (fst (fold f xs (l, w)))) j = map_of (bl_leases l) j"
  using assms(2)
proof (induction xs arbitrary: l w)
  case (Cons x xs)
  obtain out w' where f: "f x (l, w) = apply_renewal sv (g x) out (l, w')" using assms(1) by blast
  obtain l1 w1 where 1: "f x (l, w) = (l1, w1)" by fastforce
  with f have l1: "fst (apply_renewal sv (g x) out (l, w')) = l1" by (metis fst_conv)
  have "map_of (bl_leases l1) j = map_of (bl_leases l) j"
    using apply_renewal_other [of j "fst (g x)" sv "snd (g x)" out l w'] Cons.prems l1 by simp
  with Cons 1 show ?case by simp
qed simp

lemma renewal_fold_entry:
  assumes f: "\<And>x l w. \<exists>out w'. f x (l, w) = apply_renewal sv (g x) out (l, w')"
    and "distinct (map (fst \<circ> g) xs)" "(k, st) \<in> g ` set xs"
    and "map_of (bl_leases l) k = Some st" "\<not> ls_lost st"
  shows "\<exists>now out. map_of (bl_leases (fst (fold f xs (l, w)))) k = Some (renew_entry now out st)"
  using assms(2-4)
proof (induction xs arbitrary: l w)
  case (Cons x xs)
  obtain out w' where fx: "f x (l, w) = apply_renewal sv (g x) out (l, w')" using f by blast
  obtain l1 w1 where 1: "f x (l, w) = (l1, w1)" by fastforce
  with fx have l1: "fst (apply_renewal sv (g x) out (l, w')) = l1" by (metis fst_conv)
  show ?case
  proof (cases "g x = (k, st)")
    case True
    then have "k \<notin> fst ` g ` set xs" using Cons.prems(1) by (auto simp: image_image)
    then have "map_of (bl_leases (fst (fold f xs (l1, w1)))) k = map_of (bl_leases l1) k"
      by (rule renewal_fold_other [OF f])
    moreover obtain now where "map_of (bl_leases l1) k = Some (renew_entry now out st)"
      using apply_renewal_entry [OF Cons.prems(3) assms(5), of sv out w'] l1 True by auto
    ultimately show ?thesis using 1 by auto
  next
    case False
    then have in_xs: "(k, st) \<in> g ` set xs" using Cons.prems(2) by auto
    then have "k \<in> fst ` g ` set xs" by (metis fst_conv imageI)
    then have "fst (g x) \<noteq> k" using Cons.prems(1) by (auto simp: image_comp)
    then have "map_of (bl_leases l1) k = Some st"
      using apply_renewal_other [of k "fst (g x)" sv "snd (g x)" out l w'] Cons.prems(3) l1 by simp
    with Cons.IH [of l1 w1] Cons.prems(1) in_xs 1 show ?thesis by simp
  qed
qed simp

text \<open>Both renewal modes are one fold that renews each entry of the snapshot once.\<close>

lemma renew_all_fold:
  assumes "distinct (map fst (bl_leases l))"
  shows "\<exists>f xs w'. bl_renew_all sv (l, w) = fold f xs (l, w') \<and>
    (\<forall>x l w. \<exists>out w'. f x (l, w) = apply_renewal sv (fst (x :: (lock_key \<times> lease_state) \<times> renew_outcome)) out (l, w')) \<and>
    fst ` set xs = {ks \<in> set (bl_leases l). \<not> ls_lost (snd ks)} \<and>
    distinct (map (fst \<circ> fst) xs)"
proof -
  let ?snap = "filter (\<lambda>ks. \<not> ls_lost (snd ks)) (bl_leases l)"
  have dist: "distinct (map fst ?snap)" using assms by (rule distinct_map_filter)
  show ?thesis
  proof (cases "?snap = [] \<or> \<not> bl_auto_renew l")
    case True
    let ?f = "\<lambda>ks (l, w). let (out, w') = sv_renew sv (ls_lease (snd ks)) w in apply_renewal sv ks out (l, w')"
    let ?xs = "map (\<lambda>ks. (ks, Renewed)) ?snap"
    have "bl_renew_all sv (l, w) = fold (\<lambda>x. ?f (fst x)) ?xs (l, w)"
      using True by (cases "?snap = []") (simp_all add: bl_renew_all_def fold_map comp_def Let_def)
    moreover have "\<exists>out w'. ?f (fst x) (l, w) = apply_renewal sv (fst x) out (l, w')"
      for x :: "(lock_key \<times> lease_state) \<times> renew_outcome" and l w
      by (cases "sv_renew sv (ls_lease (snd (fst x))) w") auto
    moreover have "fst ` set ?xs = {ks \<in> set (bl_leases l). \<not> ls_lost (snd ks)}" by force
    moreover have "distinct (map (fst \<circ> fst) ?xs)" using dist by (simp add: comp_def)
    ultimately show ?thesis by blast
  next
    case False
    obtain outs w' where pool: "sv_pool sv (map (\<lambda>ks. ls_lease (snd ks)) ?snap) (bl_interval l) w = (outs, w')"
      by fastforce
    let ?rs = "zip ?snap (map outs [0..<length ?snap])"
    let ?xs = "filter (\<lambda>r. snd r \<noteq> RenewTimedOut) ?rs @ filter (\<lambda>r. snd r = RenewTimedOut) ?rs"
    have rs: "map fst ?rs = ?snap" by simp
    then have "fst ` set ?rs = {ks \<in> set (bl_leases l). \<not> ls_lost (snd ks)}"
      by (metis set_map set_filter)
    moreover have "set ?xs = set ?rs" by auto
    ultimately have set_xs: "fst ` set ?xs = {ks \<in> set (bl_leases l). \<not> ls_lost (snd ks)}" by simp
    have "distinct (map (fst \<circ> fst) ?rs)" using dist rs by (metis map_map)
    then have "distinct (map (fst \<circ> fst) ?xs)"
      unfolding distinct_map by (auto simp: inj_on_def)
    moreover have "bl_renew_all sv (l, w) = fold (\<lambda>r. apply_renewal sv (fst r) (snd r)) ?xs (l, w')"
      using False pool by (simp add: bl_renew_all_def Let_def del: fold_append)
    ultimately show ?thesis using set_xs
      by (intro exI [of _ "\<lambda>r. apply_renewal sv (fst r) (snd r)"] exI [of _ ?xs] exI [of _ w']) auto
  qed
qed

text \<open>
  One tick of the renewal worker gives every tracked entry exactly one renewal transition
  (whatever the service answers, with or without the pool, in whatever order the calls
  finish), and a lost entry none: it stays as it is, and stays tracked.
\<close>

theorem renew_all_entries:
  assumes "bl_ok (l, w)" "map_of (bl_leases l) k = Some st"
  shows "\<exists>now out. map_of (bl_leases (fst (bl_renew_all sv (l, w)))) k = Some (renew_entry now out st)"
proof -
  have dist: "distinct (map fst (bl_leases l))" using assms(1) by (simp add: bl_ok_def)
  obtain f xs w' where r: "bl_renew_all sv (l, w) = fold f xs (l, w')"
    and f: "\<And>x l w. \<exists>out w'. f x (l, w) = apply_renewal sv (fst (x :: (lock_key \<times> lease_state) \<times> renew_outcome)) out (l, w')"
    and xs: "fst ` set xs = {ks \<in> set (bl_leases l). \<not> ls_lost (snd ks)}" "distinct (map (fst \<circ> fst) xs)"
    using renew_all_fold [OF dist, of sv w] by blast
  show ?thesis
  proof (cases "ls_lost st")
    case True
    have "k \<notin> fst ` fst ` set xs"
    proof
      assume "k \<in> fst ` fst ` set xs"
      then obtain st' where "(k, st') \<in> set (bl_leases l)" "\<not> ls_lost st'" unfolding xs(1) by auto
      with dist have "map_of (bl_leases l) k = Some st'" by simp
      with assms(2) True \<open>\<not> ls_lost st'\<close> show False by simp
    qed
    with renewal_fold_other [OF f this, of l w'] r assms(2) have
      "map_of (bl_leases (fst (bl_renew_all sv (l, w)))) k = Some st" by simp
    with True show ?thesis by (simp add: renew_entry_def)
  next
    case False
    have "(k, st) \<in> fst ` set xs"
      unfolding xs(1) using False assms(2) by (auto dest: map_of_SomeD)
    with renewal_fold_entry [OF f xs(2) _ assms(2) False] r show ?thesis by simp
  qed
qed

lemma renew_all_entries_witness:
  "\<exists>now out. map_of (bl_leases (fst (bl_renew_all calm_service
      (snd (bl_acquire calm_service 0 (Key ''g'' ''t'') ''tok'' (example_lock, 0)))))) (Key ''g'' ''t'') =
    Some (renew_entry now out \<lparr>ls_lease = 0, ls_token = ''tok'', ls_failures = 0, ls_renewed_at = 0,
      ls_lost = False, ls_error = None\<rparr>)"
  unfolding example_acquire snd_conv
  by (rule renew_all_entries) (simp_all add: bl_ok_def example_lock_def)

text \<open>Number of transient failures at the end of a sequence of outcomes.\<close>

definition failures_at_end :: "renew_outcome list \<Rightarrow> nat" where
  "failures_at_end outs = length (takeWhile transient_outcome (rev outs))"

definition three_in_a_row :: "renew_outcome list \<Rightarrow> bool" where
  "three_in_a_row outs \<longleftrightarrow> (\<exists>xs a b c ys. outs = xs @ [a, b, c] @ ys \<and>
     transient_outcome a \<and> transient_outcome b \<and> transient_outcome c)"

definition renew_entries :: "(rat \<times> renew_outcome) list \<Rightarrow> lease_state \<Rightarrow> lease_state" where
  "renew_entries outs st = fold (\<lambda>p. renew_entry (fst p) (snd p)) outs st"

lemma three_snoc:
  "three_in_a_row (outs @ [x]) \<longleftrightarrow> three_in_a_row outs \<or> (transient_outcome x \<and> 2 \<le> failures_at_end outs)"
proof
  assume "three_in_a_row (outs @ [x])"
  then obtain xs a b c ys where e: "outs @ [x] = xs @ [a, b, c] @ ys"
    and t: "transient_outcome a" "transient_outcome b" "transient_outcome c"
    unfolding three_in_a_row_def by blast
  show "three_in_a_row outs \<or> (transient_outcome x \<and> 2 \<le> failures_at_end outs)"
  proof (cases ys rule: rev_cases)
    case Nil
    with e have "outs = xs @ [a, b]" "x = c" by simp_all
    with t show ?thesis by (simp add: failures_at_end_def)
  next
    case (snoc ys' y)
    with e have "outs = xs @ [a, b, c] @ ys'" by simp
    with t show ?thesis unfolding three_in_a_row_def by blast
  qed
next
  assume "three_in_a_row outs \<or> (transient_outcome x \<and> 2 \<le> failures_at_end outs)"
  then show "three_in_a_row (outs @ [x])"
  proof
    assume "three_in_a_row outs"
    then show ?thesis unfolding three_in_a_row_def by (metis append.assoc)
  next
    assume a: "transient_outcome x \<and> 2 \<le> failures_at_end outs"
    obtain zs b a' where "outs = zs @ [a', b]" "transient_outcome b" "transient_outcome a'"
    proof (cases outs rule: rev_cases)
      case (snoc ys b)
      then show ?thesis using a that
        by (cases ys rule: rev_cases) (auto simp: failures_at_end_def split: if_splits)
    qed (use a in \<open>simp add: failures_at_end_def\<close>)
    then have "outs @ [x] = zs @ [a', b, x] @ []" by simp
    with a \<open>transient_outcome b\<close> \<open>transient_outcome a'\<close> show ?thesis unfolding three_in_a_row_def by blast
  qed
qed

lemma renew_entries_spec:
  assumes "ls_failures st = 0" "\<not> ls_lost st"
  shows "(ls_lost (renew_entries outs st) \<longleftrightarrow>
           list_ex definitive_outcome (map snd outs) \<or> three_in_a_row (map snd outs)) \<and>
         (\<not> ls_lost (renew_entries outs st) \<longrightarrow>
           ls_failures (renew_entries outs st) = failures_at_end (map snd outs))"
proof (induction outs rule: rev_induct)
  case Nil
  with assms show ?case by (auto simp: renew_entries_def failures_at_end_def three_in_a_row_def)
next
  case (snoc p outs)
  have "renew_entries (outs @ [p]) st = renew_entry (fst p) (snd p) (renew_entries outs st)"
    by (simp add: renew_entries_def)
  with snoc show ?case
    by (cases "snd p")
      (auto simp: three_snoc renew_entry_def fail_lease_def max_renewal_failures_def failures_at_end_def)
qed

text \<open>
  The renewal policy: starting from a fresh acquisition, an entry is marked lost exactly when
  some renewal failed definitively or three consecutive ones failed transiently (a timeout
  counts as transient); every success resets the count.
\<close>

theorem renewal_policy:
  assumes "ls_failures st = 0" "\<not> ls_lost st"
  shows "ls_lost (renew_entries outs st) \<longleftrightarrow>
    list_ex definitive_outcome (map snd outs) \<or> three_in_a_row (map snd outs)"
  using renew_entries_spec [OF assms] by blast

lemma renewal_policy_witness:
  "ls_lost (renew_entries [(0, RenewTimedOut), (1, RenewTimedOut), (2, RenewTimedOut)]
     \<lparr>ls_lease = 0, ls_token = ''t'', ls_failures = 0, ls_renewed_at = 0, ls_lost = False, ls_error = None\<rparr>)"
  by (subst renewal_policy) (simp_all add: three_in_a_row_def, metis append.left_neutral append_Cons transient_outcome.simps(2))

section \<open>Acquire returns\<close>

text \<open>
  What is assumed of the clock and of \<^verbatim>\<open>time.sleep\<close>: \<open>now\<close> never runs backwards, a reading lies
  between the times before and after it, and \<open>sleep d\<close> takes at least \<open>d\<close>.
\<close>

definition clock_laws :: "'w lease_service \<Rightarrow> ('w \<Rightarrow> rat) \<Rightarrow> bool" where
  "clock_laws sv now \<longleftrightarrow>
     (\<forall>w. now w \<le> fst (sv_clock sv w) \<and> fst (sv_clock sv w) \<le> now (snd (sv_clock sv w))) \<and>
     (\<forall>w d. 0 \<le> d \<longrightarrow> now w + d \<le> now (sv_sleep sv d w)) \<and>
     (\<forall>w name d. now w \<le> now (snd (sv_lease sv name d w)))"

lemma poll_fueled:
  assumes "clock_laws sv now" "n \<noteq> 0" "timeout \<le> 0 \<or> deadline - now w \<le> (of_nat n - 1) / 20"
  shows "fst (poll n sv l name timeout deadline w) \<noteq> OutOfFuel"
  using assms(2,3)
proof (induction n arbitrary: w)
  case (Suc n)
  obtain r w1 where lease: "sv_lease sv name (bl_duration l) w = (r, w1)" by fastforce
  obtain t1 w2 where c1: "sv_clock sv w1 = (t1, w2)" by fastforce
  obtain t2 w3 where c2: "sv_clock sv w2 = (t2, w3)" by fastforce
  let ?d = "min poll_max (max poll_min ((deadline - t2) / 2))"
  let ?w4 = "sv_sleep sv ?d w3"
  show ?case
  proof (cases "bl_closed l \<or> r = Inr (projr r) \<or> timeout \<le> 0 \<or> deadline \<le> t1")
    case True
    then show ?thesis using lease c1 by (cases r) (auto simp: poll_round_def split: sum.splits)
  next
    case False
    have now: "now w \<le> now w1" "now w1 \<le> t1" "t1 \<le> now w2" "now w2 \<le> now w3"
      using assms(1) lease c1 c2 unfolding clock_laws_def by (metis fst_conv snd_conv order_trans)+
    have d: "1 / 20 \<le> ?d" by (simp add: poll_max_def poll_min_def)
    then have "now w3 + ?d \<le> now ?w4" using assms(1) by (simp add: clock_laws_def)
    with now d have step: "now w + 1 / 20 \<le> now ?w4" by linarith
    have "n \<noteq> 0"
      using Suc.prems(2) False now by (cases n) auto
    moreover have "deadline - now ?w4 \<le> (of_nat n - 1) / 20"
      using Suc.prems(2) False step by (simp add: field_simps)
    ultimately have "fst (poll n sv l name timeout deadline ?w4) \<noteq> OutOfFuel"
      using Suc.IH by blast
    with lease c1 c2 show ?thesis by (cases r) (simp_all add: poll_round_def Let_def)
  qed
qed simp

text \<open>
  \<open>acquire\<close> always returns: with a clock that does not run backwards and a \<open>sleep\<close> that
  lasts at least as long as asked, the polling loop ends within \<open>20 * timeout + 2\<close> rounds however
  long the lease is held elsewhere, so the model's fuel never runs out.
\<close>

theorem acquire_returns:
  assumes "clock_laws sv now"
  shows "fst (bl_acquire sv timeout k tok (l, w)) \<noteq> Inl LockPolling"
proof -
  have reg: "fst (bl_register sv k tok lease (l, w3)) \<noteq> Inl LockPolling" for lease w3
    by (simp add: bl_register_cases)
  obtain me w1 where me: "ensure_marker sv (bl_blob_name l k) w = (me, w1)" by fastforce
  obtain t w2 where c: "sv_clock sv w1 = (t, w2)" by fastforce
  define d where "d = (if timeout > 0 then t + timeout else 0)"
  define wd where "wd = (if timeout > 0 then w2 else w1)"
  obtain out w3 where p: "poll (poll_fuel timeout) sv l (bl_blob_name l k) timeout d wd = (out, w3)"
    by fastforce
  have "t \<le> now w2" using c assms unfolding clock_laws_def by (metis fst_conv snd_conv)
  with le_of_int_ceiling [of "timeout * 20"]
  have "t * 20 + timeout * 20 \<le> 1 + (now w2 * 20 + rat_of_int \<lceil>timeout * 20\<rceil>)" by linarith
  then have "timeout \<le> 0 \<or> d - now wd \<le> (of_nat (poll_fuel timeout) - 1) / 20"
    by (auto simp: poll_fuel_def field_simps d_def wd_def)
  then have "out \<noteq> OutOfFuel"
    using poll_fueled [OF assms, of "poll_fuel timeout"] p by (metis fst_conv poll_fuel_def add_2_eq_Suc' Suc_not_Zero one_neq_zero)
  moreover have "acquire_deadline sv timeout w1 = (d, wd)"
    using c by (simp add: acquire_deadline_def d_def wd_def)
  ultimately show ?thesis
    using me p reg by (cases me; cases out) (simp_all add: bl_acquire_def)
qed

text \<open>A service that refuses every lease, on a clock that only sleeping advances.\<close>

definition busy_service :: "rat lease_service" where
  "busy_service =
     \<lparr>sv_upload = (\<lambda>_ w. (BlobExists, w)),
      sv_lease = (\<lambda>_ _ w. (Inl \<lparr>err_http = True, err_code = Some ''LeaseAlreadyPresent'', err_status = Some 409\<rparr>, w)),
      sv_release = (\<lambda>_ w. w), sv_renew = (\<lambda>_ w. (Renewed, w)), sv_pool = (\<lambda>_ _ w. (\<lambda>_. Renewed, w)),
      sv_clock = (\<lambda>w. (w, w)), sv_sleep = (\<lambda>d w. w + d)\<rparr>"

lemma acquire_returns_witness:
  "fst (bl_acquire busy_service 2 (Key ''g'' ''t'') ''tok'' (example_lock, 0)) \<noteq> Inl LockPolling"
  by (rule acquire_returns [of _ id]) (simp add: clock_laws_def busy_service_def)

section \<open>No lease leaks, and close is terminal\<close>

text \<open>
  A lease the service has granted is never forgotten, whatever happened to the lock while the
  request was in flight: registering it either tracks exactly this lease under the new token, or
  gives it back to the service, and then it is not tracked and no token is returned.
\<close>

theorem register_no_leak:
  "(if fst (bl_register sv k tok lease (l, w)) = Inr (Some tok)
    then map_option ls_lease (map_of (bl_leases (fst (snd (bl_register sv k tok lease (l, w))))) k) = Some lease \<and>
         bl_owner (snd (bl_register sv k tok lease (l, w))) k = Some tok \<and>
         \<not> bl_closed l \<and> map_of (bl_leases l) k = None
    else snd (bl_register sv k tok lease (l, w)) = (l, sv_release sv lease w) \<and>
         (if bl_closed l then True else map_of (bl_leases l) k \<noteq> None))"
  by (auto simp: bl_register_cases bl_owner_def)

lemma bl_step_closed:
  assumes "bl_closed (fst s)" "bl_leases (fst s) = []"
  shows "bl_step sv x s = s"
  using assms
  by (cases x; cases s) (auto simp: bl_acquire_def bl_release_def bl_renew_all_def bl_close_def)

text \<open>
  \<open>close\<close> is terminal and idempotent: it leaves nothing tracked, and after it no operation
  changes the lock or calls the service again, and every \<open>acquire\<close> raises.
\<close>

theorem close_terminal:
  assumes "bl_ok s"
  shows "bl_leases (fst (bl_close sv s)) = [] \<and> bl_run sv xs (bl_close sv s) = bl_close sv s \<and>
    bl_acquire sv timeout k tok (bl_run sv xs (bl_close sv s)) = (Inl LockClosed, bl_close sv s)"
proof -
  obtain l w where s: "s = (l, w)" by fastforce
  have c: "bl_closed (fst (bl_close sv s))" "bl_leases (fst (bl_close sv s)) = []"
    using assms s by (auto simp: bl_close_def bl_ok_def)
  then have run: "bl_run sv xs (bl_close sv s) = bl_close sv s"
    by (induction xs) (simp_all add: bl_step_closed)
  from c have "bl_acquire sv timeout k tok (bl_close sv s) = (Inl LockClosed, bl_close sv s)"
    by (cases "bl_close sv s") (simp add: bl_acquire_def)
  with c run show ?thesis by simp
qed

lemma close_terminal_witness:
  "bl_run calm_service [BRenew, BAcquire 0 (Key ''g'' ''t'') ''tok''] (bl_close calm_service (example_lock, 0)) =
     bl_close calm_service (example_lock, 0)"
  by (rule conjunct1 [OF conjunct2 [OF close_terminal]]) (simp add: bl_ok_def example_lock_def)

text \<open>
  Two thread keys never share a marker blob: the blob name determines graph and thread, for
  any names, since \<open>quote\<close> with no safe characters leaves no slash in either part.
\<close>

theorem bl_blob_name_inject:
  "(bl_blob_name l k = bl_blob_name l k') = (k = k')"
  by (cases k; cases k')
    (auto simp: bl_blob_name_def append_slash_inject slash_not_in_quote quote_inject)

text \<open>
  The blob lock keeps its two invariants under every sequence of operations: one entry per
  key, and nothing tracked once closed.
\<close>

lemma blob_run_ok:
  assumes "bl_ok s"
  shows "bl_ok (bl_run sv xs s)"
  using assms by (induction xs arbitrary: s) (simp_all add: bl_step_ok)

end
