(* ===== verification/Blob_Concurrent.thy ===== *)
theory Blob_Concurrent
  imports Blob_Lease
begin

text \<open>
  The blob lock with callers at work side by side, \<^verbatim>\<open>locks/azure_blob.py\<close>. A mutex guards short blocks of the
  code; the calls of the storage service are made between them, with the mutex free, and while one caller
  waits for the service, others look, register, release, renew and close. A step here is a guarded block, a service
  call, or a single read or write outside the mutex; \<open>bl_acquire\<close>, \<open>bl_release\<close> and \<open>bl_close\<close> of \<open>Blob_Lease\<close> are
  the runs of these steps that nobody interrupts.
\<close>

section \<open>Callers and steps\<close>

text \<open>
  Where a caller is. \<open>Looked\<close>: in \<open>acquire\<close>, behind the first look at the table; \<open>Marked\<close>: the marker blob is there,
  at the top of the polling loop; \<open>Asking\<close>: the loop has found the lock open and asks the service; \<open>Granted\<close>: with a
  lease, before it is registered; \<open>Owning\<close>: \<open>acquire\<close> has returned the token; \<open>Giving\<close>: with leases that are no
  longer tracked and go back to the service; \<open>Renewing\<close>: with a snapshot of the table; \<open>Entered\<close> and
  \<open>Closing\<close>: in \<open>close\<close>, before and after it has marked the lock.
\<close>

datatype blob_pc =
    Free
  | Looked lock_key rat
  | Marked lock_key rat rat
  | Asking lock_key rat rat
  | Granted lock_key nat
  | Owning lock_key token
  | Giving "nat list"
  | Renewing "(lock_key \<times> lease_state) list"
  | Entered
  | Closing

record 'w blob_system =
  bs_lock :: blob_lock
  bs_world :: 'w
  bs_pcs :: "nat \<Rightarrow> blob_pc"
  bs_issued :: "token set"

definition at_pc :: "'w blob_system \<Rightarrow> nat \<Rightarrow> blob_pc \<Rightarrow> 'w blob_system" where
  "at_pc s t pc = s\<lparr>bs_pcs := (bs_pcs s)(t := pc)\<rparr>"

lemma at_pc_fields [simp]:
  "bs_lock (at_pc s t pc) = bs_lock s" "bs_world (at_pc s t pc) = bs_world s" "bs_issued (at_pc s t pc) = bs_issued s"
  "bs_pcs (at_pc s t pc) = (bs_pcs s)(t := pc)"
  by (simp_all add: at_pc_def)

lemma at_pc_updates [simp]:
  "(at_pc s t pc)\<lparr>bs_lock := l\<rparr> = at_pc (s\<lparr>bs_lock := l\<rparr>) t pc" "(at_pc s t pc)\<lparr>bs_world := w\<rparr> = at_pc (s\<lparr>bs_world := w\<rparr>) t pc"
  "(at_pc s t pc)\<lparr>bs_issued := i\<rparr> = at_pc (s\<lparr>bs_issued := i\<rparr>) t pc" "at_pc (at_pc s t pc) t pc' = at_pc s t pc'"
  by (simp_all add: at_pc_def)

lemma at_pc_same [simp]: "bs_pcs s t = pc \<Longrightarrow> at_pc s t pc = s"
  by (auto simp: at_pc_def)

text \<open>The first guarded block of \<open>release\<close>, which takes the entry out; the lease to give back, unless it was lost.\<close>

definition pop_lease :: "lock_key \<Rightarrow> token \<Rightarrow> blob_lock \<Rightarrow> blob_lock \<times> nat list" where
  "pop_lease k tok l =
     (case map_of (bl_leases l) k of
        None \<Rightarrow> (l, [])
      | Some st \<Rightarrow>
          (if ls_token st \<noteq> tok then (l, [])
           else (l\<lparr>bl_leases := AList.delete k (bl_leases l)\<rparr>, if ls_lost st then [] else [ls_lease st])))"

text \<open>What \<open>close\<close> does after it has marked the lock: the table is emptied, its live leases go back.\<close>

definition live_leases :: "blob_lock \<Rightarrow> nat list" where
  "live_leases l = map (\<lambda>ks. ls_lease (snd ks)) (filter (\<lambda>ks. \<not> ls_lost (snd ks)) (bl_leases l))"

text \<open>
  The steps. A token is minted with the entry and is new. \<open>release_any\<close> is a release by a caller that does not hold the
  key under the token it gives. A renewal may have any outcome, and the calls of a snapshot are handled in any order.
  \<open>elsewhere\<close> is whatever happens to the world besides: other processes, the clock, leases that expire.
\<close>

inductive blob_step :: "'w lease_service \<Rightarrow> 'w blob_system \<Rightarrow> 'w blob_system \<Rightarrow> bool" for sv :: "'w lease_service" where
  look: "bs_pcs s t = Free \<Longrightarrow> \<not> bl_closed (bs_lock s) \<Longrightarrow> map_of (bl_leases (bs_lock s)) k = None \<Longrightarrow>
     blob_step sv s (at_pc s t (Looked k timeout))"
| marker: "bs_pcs s t = Looked k timeout \<Longrightarrow> ensure_marker sv (bl_blob_name (bs_lock s) k) (bs_world s) = (None, w) \<Longrightarrow>
     acquire_deadline sv timeout w = (deadline, w') \<Longrightarrow>
     blob_step sv s (at_pc (s\<lparr>bs_world := w'\<rparr>) t (Marked k timeout deadline))"
| no_marker: "bs_pcs s t = Looked k timeout \<Longrightarrow> ensure_marker sv (bl_blob_name (bs_lock s) k) (bs_world s) = (Some e, w) \<Longrightarrow>
     blob_step sv s (at_pc (s\<lparr>bs_world := w\<rparr>) t Free)"
| look_again: "bs_pcs s t = Marked k timeout deadline \<Longrightarrow>
     blob_step sv s (at_pc s t (if bl_closed (bs_lock s) then Free else Asking k timeout deadline))"
| ask: "bs_pcs s t = Asking k timeout deadline \<Longrightarrow>
     poll_round sv (bl_duration (bs_lock s)) (bl_blob_name (bs_lock s) k) timeout deadline (bs_world s) = (answer, w) \<Longrightarrow>
     blob_step sv s (at_pc (s\<lparr>bs_world := w\<rparr>) t
       (case answer of Some (Leased lease) \<Rightarrow> Granted k lease | None \<Rightarrow> Marked k timeout deadline | _ \<Rightarrow> Free))"
| register: "bs_pcs s t = Granted k lease \<Longrightarrow> tok \<notin> bs_issued s \<Longrightarrow>
     bl_register sv k tok lease (bs_lock s, bs_world s) = (r, (l, w)) \<Longrightarrow>
     blob_step sv s (at_pc (s\<lparr>bs_lock := l, bs_world := w, bs_issued := insert tok (bs_issued s)\<rparr>) t
       (case r of Inr (Some token) \<Rightarrow> Owning k token | _ \<Rightarrow> Free))"
| release_own: "bs_pcs s t = Owning k tok \<Longrightarrow> pop_lease k tok (bs_lock s) = (l, leases) \<Longrightarrow>
     blob_step sv s (at_pc (s\<lparr>bs_lock := l\<rparr>) t (Giving leases))"
| release_any: "bs_pcs s t = Free \<Longrightarrow> (\<forall>u. bs_pcs s u \<noteq> Owning k tok) \<Longrightarrow> pop_lease k tok (bs_lock s) = (l, leases) \<Longrightarrow>
     blob_step sv s (at_pc (s\<lparr>bs_lock := l\<rparr>) t (Giving leases))"
| give: "bs_pcs s t = Giving (lease # leases) \<Longrightarrow>
     blob_step sv s (at_pc (s\<lparr>bs_world := sv_release sv lease (bs_world s)\<rparr>) t (Giving leases))"
| given: "bs_pcs s t = Giving [] \<Longrightarrow> blob_step sv s (at_pc s t Free)"
| renew: "bs_pcs s t = Free \<Longrightarrow>
     blob_step sv s (at_pc s t (Renewing (filter (\<lambda>ks. \<not> ls_lost (snd ks)) (bl_leases (bs_lock s)))))"
| renewed: "bs_pcs s t = Renewing xs \<Longrightarrow> ks \<in> set xs \<Longrightarrow> apply_renewal sv ks out (bs_lock s, bs_world s) = (l, w) \<Longrightarrow>
     blob_step sv s (at_pc (s\<lparr>bs_lock := l, bs_world := w\<rparr>) t (Renewing (remove1 ks xs)))"
| all_renewed: "bs_pcs s t = Renewing [] \<Longrightarrow> blob_step sv s (at_pc s t Free)"
| enter: "bs_pcs s t = Free \<Longrightarrow> \<not> bl_closed (bs_lock s) \<Longrightarrow> blob_step sv s (at_pc s t Entered)"
| mark: "bs_pcs s t = Entered \<Longrightarrow>
     blob_step sv s (at_pc (s\<lparr>bs_lock := (bs_lock s)\<lparr>bl_closed := True\<rparr>\<rparr>) t Closing)"
| clear: "bs_pcs s t = Closing \<Longrightarrow>
     blob_step sv s (at_pc (s\<lparr>bs_lock := (bs_lock s)\<lparr>bl_leases := []\<rparr>\<rparr>) t (Giving (live_leases (bs_lock s))))"
| elsewhere: "blob_step sv s (s\<lparr>bs_world := w\<rparr>)"

text \<open>A process starts with a new lock and no caller in it.\<close>

inductive blob_reachable :: "'w lease_service \<Rightarrow> 'w blob_system \<Rightarrow> bool" for sv :: "'w lease_service" where
  start: "\<not> bl_closed l \<Longrightarrow> bl_leases l = [] \<Longrightarrow>
     blob_reachable sv \<lparr>bs_lock = l, bs_world = w, bs_pcs = (\<lambda>_. Free), bs_issued = {}\<rparr>"
| step: "blob_reachable sv s \<Longrightarrow> blob_step sv s s' \<Longrightarrow> blob_reachable sv s'"

section \<open>The operations are runs of steps\<close>

abbreviation blob_steps :: "'w lease_service \<Rightarrow> 'w blob_system \<Rightarrow> 'w blob_system \<Rightarrow> bool" where
  "blob_steps sv \<equiv> rtranclp (blob_step sv)"
lemma bl_release_pops:
  "bl_release sv k tok (l, w) = (fst (pop_lease k tok l), fold (sv_release sv) (snd (pop_lease k tok l)) w)"
  by (simp add: bl_release_def pop_lease_def Let_def split: option.split)

lemma bl_close_clears:
  "bl_close sv (l, w) =
     (if bl_closed l then (l, w)
      else (l\<lparr>bl_closed := True, bl_leases := []\<rparr>, fold (sv_release sv) (live_leases l) w))"
proof -
  have "fold (\<lambda>ks w. if ls_lost (snd ks) then w else sv_release sv (ls_lease (snd ks)) w) xs w =
      fold (sv_release sv) (map (\<lambda>ks. ls_lease (snd ks)) (filter (\<lambda>ks. \<not> ls_lost (snd ks)) xs)) w"
    for xs :: "(lock_key \<times> lease_state) list" and w
    by (induction xs arbitrary: w) auto
  then show ?thesis by (simp add: bl_close_def live_leases_def)
qed

lemma one_step: "blob_step sv s s' \<Longrightarrow> blob_steps sv s s'"
  by (rule r_into_rtranclp)

lemma then_step: "blob_steps sv s s' \<Longrightarrow> blob_step sv s' s'' \<Longrightarrow> blob_steps sv s s''"
  by (rule rtranclp.rtrancl_into_rtrancl)

lemma first_step: "blob_step sv s s' \<Longrightarrow> blob_steps sv s' s'' \<Longrightarrow> blob_steps sv s s''"
  by (rule converse_rtranclp_into_rtranclp)

lemma giving_steps:
  "bs_pcs s t = Giving leases \<Longrightarrow>
    blob_steps sv s (at_pc (s\<lparr>bs_world := fold (sv_release sv) leases (bs_world s)\<rparr>) t Free)"
proof (induction leases arbitrary: s)
  case Nil
  from one_step [OF blob_step.given [OF Nil]] show ?case by simp
next
  case (Cons lease leases)
  let ?s = "at_pc (s\<lparr>bs_world := sv_release sv lease (bs_world s)\<rparr>) t (Giving leases)"
  have "blob_step sv s ?s" by (rule blob_step.give [OF Cons.prems])
  from first_step [OF this Cons.IH [of ?s]] show ?case by simp
qed

lemma polling_steps:
  assumes "bs_pcs s t = Marked k timeout deadline" "out \<noteq> OutOfFuel"
    and "poll n sv (bs_lock s) (bl_blob_name (bs_lock s) k) timeout deadline (bs_world s) = (out, w)"
  shows "blob_steps sv s (at_pc (s\<lparr>bs_world := w\<rparr>) t (case out of Leased lease \<Rightarrow> Granted k lease | _ \<Rightarrow> Free))"
  using assms
proof (induction n arbitrary: s)
  case (Suc n)
  note again = blob_step.look_again [OF Suc.prems(1), of sv]
  show ?case
  proof (cases "bl_closed (bs_lock s)")
    case True
    with one_step [OF again] Suc.prems(2,3) show ?thesis by auto
  next
    case False
    let ?s = "at_pc s t (Asking k timeout deadline)"
    obtain answer w1 where a: "poll_round sv (bl_duration (bs_lock s)) (bl_blob_name (bs_lock s) k) timeout deadline (bs_world s) =
        (answer, w1)" by (rule prod.exhaust)
    let ?s1 = "at_pc (?s\<lparr>bs_world := w1\<rparr>) t
        (case answer of Some (Leased lease) \<Rightarrow> Granted k lease | None \<Rightarrow> Marked k timeout deadline | _ \<Rightarrow> Free)"
    have asked: "blob_steps sv s ?s1"
      using blob_step.ask [of ?s t k timeout deadline sv answer w1] again a False
      by (intro first_step [of sv s ?s] one_step) simp_all
    show ?thesis
    proof (cases answer)
      case None
      with Suc.IH [of ?s1] Suc.prems a False have
        "blob_steps sv ?s1 (at_pc (s\<lparr>bs_world := w\<rparr>) t (case out of Leased lease \<Rightarrow> Granted k lease | _ \<Rightarrow> Free))"
        by simp
      with asked show ?thesis by (rule rtranclp_trans)
    next
      case (Some o1)
      with asked Suc.prems a False show ?thesis by (cases o1) auto
    qed
  qed
qed simp

text \<open>
  A caller that nobody interrupts does with its steps what \<open>bl_acquire\<close>, \<open>bl_release\<close> and \<open>bl_close\<close> say:
  \<open>acquire\<close> ends with the token or without one, and the others have given their leases back.
\<close>

lemma acquire_steps:
  assumes "bs_pcs s t = Free" "tok \<notin> bs_issued s" "r \<noteq> Inl LockPolling"
    and "bl_acquire sv timeout k tok (bs_lock s, bs_world s) = (r, (l, w))"
  shows "\<exists>issued. blob_steps sv s (at_pc (s\<lparr>bs_lock := l, bs_world := w, bs_issued := issued\<rparr>) t
    (case r of Inr (Some token) \<Rightarrow> Owning k token | _ \<Rightarrow> Free))"
proof (cases "bl_closed (bs_lock s) \<or> map_of (bl_leases (bs_lock s)) k \<noteq> None")
  case True
  then have "l = bs_lock s" "w = bs_world s" "\<forall>t. r \<noteq> Inr (Some t)"
    using assms(4) by (auto simp: bl_acquire_def split: if_splits)
  moreover have "at_pc (s\<lparr>bs_lock := bs_lock s, bs_world := bs_world s, bs_issued := bs_issued s\<rparr>) t Free = s"
    using assms(1) by (simp add: fun_upd_idem)
  ultimately show ?thesis
    by (intro exI [of _ "bs_issued s"]) (auto split: sum.split option.split)
next
  case False
  let ?name = "bl_blob_name (bs_lock s) k" and ?s1 = "at_pc s t (Looked k timeout)"
  have looked: "blob_step sv s ?s1" by (rule blob_step.look) (use assms(1) False in simp_all)
  obtain me w1 where me: "ensure_marker sv ?name (bs_world s) = (me, w1)" by (rule prod.exhaust)
  show ?thesis
  proof (cases me)
    case (Some e)
    with me assms(4) False have "l = bs_lock s" "w = w1" "r = Inl (LockServiceError e)"
      by (simp_all add: bl_acquire_def)
    moreover have "blob_step sv ?s1 (at_pc (?s1\<lparr>bs_world := w1\<rparr>) t Free)"
      by (rule blob_step.no_marker) (use Some me in simp_all)
    ultimately show ?thesis
      using first_step [OF looked one_step] by (intro exI [of _ "bs_issued s"]) simp
  next
    case None
    obtain d w2 where d: "acquire_deadline sv timeout w1 = (d, w2)" by (rule prod.exhaust)
    let ?s2 = "at_pc (?s1\<lparr>bs_world := w2\<rparr>) t (Marked k timeout d)"
    have marked: "blob_step sv ?s1 ?s2"
      by (rule blob_step.marker [where w = w1]) (use None me d in simp_all)
    obtain out w3 where p: "poll (poll_fuel timeout) sv (bs_lock s) ?name timeout d w2 = (out, w3)" by (rule prod.exhaust)
    have out: "out \<noteq> OutOfFuel" using assms(3,4) False None me d p by (auto simp: bl_acquire_def)
    let ?s3 = "at_pc (s\<lparr>bs_world := w3\<rparr>) t (case out of Leased lease \<Rightarrow> Granted k lease | _ \<Rightarrow> Free)"
    have polled: "blob_steps sv s ?s3"
      using polling_steps [of ?s2 t k timeout d out "poll_fuel timeout" sv w3] out p
      by (intro first_step [OF looked] first_step [OF marked]) simp
    show ?thesis
    proof (cases "\<exists>lease. out = Leased lease")
      case True
      then obtain lease where lease: "out = Leased lease" by blast
      with assms(4) False None me d p have "bl_register sv k tok lease (bs_lock s, w3) = (r, (l, w))"
        by (simp add: bl_acquire_def)
      with lease assms(2) blob_step.register [of ?s3 t k lease tok sv r l w] show ?thesis
        by (intro exI [of _ "insert tok (bs_issued s)"] then_step [OF polled]) simp
    next
      case False
      then have "l = bs_lock s" "w = w3" "\<forall>t. r \<noteq> Inr (Some t)"
        using assms(4) \<open>\<not> (bl_closed _ \<or> _)\<close> None me d p out by (cases out; auto simp: bl_acquire_def)+
      with polled out False show ?thesis
        by (intro exI [of _ "bs_issued s"]) (cases out; auto split: sum.split option.split)
    qed
  qed
qed

lemma release_steps:
  assumes "bs_pcs s t = Owning k tok" "bl_release sv k tok (bs_lock s, bs_world s) = (l, w)"
  shows "blob_steps sv s (at_pc (s\<lparr>bs_lock := l, bs_world := w\<rparr>) t Free)"
proof -
  obtain l1 leases where p: "pop_lease k tok (bs_lock s) = (l1, leases)" by (rule prod.exhaust)
  with assms(2) have r: "l = l1" "w = fold (sv_release sv) leases (bs_world s)" by (simp_all add: bl_release_pops)
  let ?s = "at_pc (s\<lparr>bs_lock := l1\<rparr>) t (Giving leases)"
  have "blob_step sv s ?s" by (rule blob_step.release_own [OF assms(1) p])
  from first_step [OF this giving_steps [of ?s t leases]] r show ?thesis by simp
qed

lemma close_steps:
  assumes "bs_pcs s t = Free" "bl_close sv (bs_lock s, bs_world s) = (l, w)"
  shows "blob_steps sv s (at_pc (s\<lparr>bs_lock := l, bs_world := w\<rparr>) t Free)"
proof (cases "bl_closed (bs_lock s)")
  case True
  with assms have "at_pc (s\<lparr>bs_lock := l, bs_world := w\<rparr>) t Free = s" by (simp add: bl_close_clears fun_upd_idem)
  then show ?thesis by simp
next
  case False
  let ?s1 = "at_pc s t Entered"
  let ?s2 = "at_pc (?s1\<lparr>bs_lock := (bs_lock ?s1)\<lparr>bl_closed := True\<rparr>\<rparr>) t Closing"
  let ?s3 = "at_pc (?s2\<lparr>bs_lock := (bs_lock ?s2)\<lparr>bl_leases := []\<rparr>\<rparr>) t (Giving (live_leases (bs_lock ?s2)))"
  have "blob_step sv s ?s1" by (rule blob_step.enter [OF assms(1) False])
  moreover have "blob_step sv ?s1 ?s2" by (rule blob_step.mark) simp
  moreover have "blob_step sv ?s2 ?s3" by (rule blob_step.clear) simp
  ultimately have "blob_steps sv s ?s3" by (blast intro: first_step one_step)
  moreover have "live_leases (bs_lock ?s2) = live_leases (bs_lock s)" by (simp add: live_leases_def)
  ultimately show ?thesis
    using giving_steps [of ?s3 t] assms(2) False by (auto simp: bl_close_clears elim!: rtranclp_trans)
qed

section \<open>The invariant\<close>

text \<open>
  While the lock is open, an owner is tracked under its token. The tracked keys are distinct, no key has two
  owners, open or closed, and a closed lock tracks nothing once it has been cleared.
\<close>

definition owners_tracked :: "'w blob_system \<Rightarrow> bool" where
  "owners_tracked s \<longleftrightarrow>
     (\<forall>t k tok. bs_pcs s t = Owning k tok \<longrightarrow>
        bl_closed (bs_lock s) \<or> bl_owner (bs_lock s, bs_world s) k = Some tok)"

definition one_owner :: "'w blob_system \<Rightarrow> bool" where
  "one_owner s \<longleftrightarrow>
     (\<forall>t u k tok tok'. bs_pcs s t = Owning k tok \<longrightarrow> bs_pcs s u = Owning k tok' \<longrightarrow> t = u)"

definition cleared :: "'w blob_system \<Rightarrow> bool" where
  "cleared s \<longleftrightarrow>
     (bl_closed (bs_lock s) \<longrightarrow> (\<forall>t. bs_pcs s t \<noteq> Closing) \<longrightarrow> bl_leases (bs_lock s) = []) \<and>
     ((\<exists>t. bs_pcs s t = Closing) \<longrightarrow> bl_closed (bs_lock s))"

definition blob_inv :: "'w blob_system \<Rightarrow> bool" where
  "blob_inv s \<longleftrightarrow> owners_tracked s \<and> one_owner s \<and> cleared s \<and> distinct (map fst (bl_leases (bs_lock s)))"

lemma blob_invI:
  assumes "bs_lock s = l" "bs_world s = w" "bs_pcs s = f"
    and "\<And>t k tok. f t = Owning k tok \<Longrightarrow> \<not> bl_closed l \<Longrightarrow> bl_owner (l, w) k = Some tok"
    and "\<And>t u k tok tok'. f t = Owning k tok \<Longrightarrow> f u = Owning k tok' \<Longrightarrow> t = u"
    and "bl_closed l \<Longrightarrow> \<forall>t. f t \<noteq> Closing \<Longrightarrow> bl_leases l = []"
    and "\<And>t. f t = Closing \<Longrightarrow> bl_closed l" "distinct (map fst (bl_leases l))"
  shows "blob_inv s"
  using assms unfolding blob_inv_def owners_tracked_def one_owner_def cleared_def by blast

lemma blob_invD:
  assumes "blob_inv s"
  shows "bs_pcs s t = Owning k tok \<Longrightarrow> \<not> bl_closed (bs_lock s) \<Longrightarrow> bl_owner (bs_lock s, bs_world s) k = Some tok"
    and "bs_pcs s t = Owning k tok \<Longrightarrow> bs_pcs s u = Owning k tok' \<Longrightarrow> t = u"
    and "bl_closed (bs_lock s) \<Longrightarrow> \<forall>t. bs_pcs s t \<noteq> Closing \<Longrightarrow> bl_leases (bs_lock s) = []"
    and "bs_pcs s t = Closing \<Longrightarrow> bl_closed (bs_lock s)" "distinct (map fst (bl_leases (bs_lock s)))"
  using assms unfolding blob_inv_def owners_tracked_def one_owner_def cleared_def by blast+

text \<open>Of the callers besides the one that moves, nothing changes.\<close>

lemma still_nobody: "\<forall>u. (f(t := pc)) u \<noteq> Closing \<Longrightarrow> f t \<noteq> Closing \<Longrightarrow> \<forall>u. f u \<noteq> Closing"
  by (metis fun_upd_other)

lemma pop_lease_owner:
  assumes "pop_lease k tok l = (l', leases)"
  shows "bl_closed l' = bl_closed l" "distinct (map fst (bl_leases l)) \<Longrightarrow> distinct (map fst (bl_leases l'))"
    "bl_leases l = [] \<Longrightarrow> bl_leases l' = []"
    "bl_owner (l', w) = (if bl_owner (l, w) k = Some tok then (bl_owner (l, w))(k := None) else bl_owner (l, w))"
  using assms
  by (auto simp: pop_lease_def bl_owner_def fun_eq_iff distinct_delete split: option.splits if_splits)

lemma register_owner:
  assumes "bl_register sv k tok lease (l, w) = (r, (l', w'))"
  shows "bl_closed l' = bl_closed l" "distinct (map fst (bl_leases l)) \<Longrightarrow> distinct (map fst (bl_leases l'))"
    "r = Inr (Some tok) \<and> bl_owner (l, w) k = None \<and> \<not> bl_closed l \<and> bl_owner (l', w') = (bl_owner (l, w))(k \<mapsto> tok) \<or>
     (\<forall>t. r \<noteq> Inr (Some t)) \<and> l' = l"
  using assms
  by (auto simp: bl_register_cases bl_owner_def fun_eq_iff distinct_update split: if_splits)

lemma renewal_tracking:
  assumes "apply_renewal sv ks out (l, w) = (l', w')"
  shows "bl_closed l' = bl_closed l" "map fst (bl_leases l') = map fst (bl_leases l)" "bl_owner (l', w') = bl_owner (l, w)"
  using same_tracking_apply [of l sv ks out w] assms
  by (auto simp: same_tracking_def bl_owner_def fun_eq_iff)

lemma bl_owner_world: "bl_owner (l, w) = bl_owner (l, w')"
  by (simp add: bl_owner_def fun_eq_iff)

lemma blob_inv_issued: "blob_inv (s\<lparr>bs_issued := i\<rparr>) = blob_inv s"
  by (simp add: blob_inv_def owners_tracked_def one_owner_def cleared_def)

text \<open>A step that only moves its caller, or changes the world, keeps it; so does one that ends an ownership.\<close>

lemma inv_moves:
  assumes inv: "blob_inv s" and pc: "\<forall>k tok. pc \<noteq> Owning k tok" "bs_pcs s t \<noteq> Closing" "pc \<noteq> Closing"
  shows "blob_inv (at_pc (s\<lparr>bs_world := w\<rparr>) t pc)"
proof (rule blob_invI [where l = "bs_lock s" and w = w and f = "(bs_pcs s)(t := pc)"])
  show "bl_owner (bs_lock s, w) k = Some tok" if "((bs_pcs s)(t := pc)) u = Owning k tok" "\<not> bl_closed (bs_lock s)" for u k tok
    using blob_invD(1) [OF inv] that pc(1) bl_owner_world [of "bs_lock s" w "bs_world s"] by (metis fun_upd_apply)
  show "u = v" if "((bs_pcs s)(t := pc)) u = Owning k tok" "((bs_pcs s)(t := pc)) v = Owning k tok'" for u v k tok tok'
    using blob_invD(2) [OF inv] that pc(1) by (metis fun_upd_apply)
  show "bl_leases (bs_lock s) = []" if "bl_closed (bs_lock s)" "\<forall>u. ((bs_pcs s)(t := pc)) u \<noteq> Closing"
    using blob_invD(3) [OF inv that(1)] still_nobody [OF that(2) pc(2)] by blast
  show "bl_closed (bs_lock s)" if "((bs_pcs s)(t := pc)) u = Closing" for u
    using blob_invD(4) [OF inv] that pc(3) by (metis fun_upd_apply)
qed (use blob_invD(5) [OF inv] in simp_all)

lemma inv_stays:
  "blob_inv s \<Longrightarrow> \<forall>k tok. pc \<noteq> Owning k tok \<Longrightarrow> bs_pcs s t \<noteq> Closing \<Longrightarrow> pc \<noteq> Closing \<Longrightarrow> blob_inv (at_pc s t pc)"
  using inv_moves [of s pc t "bs_world s"] by simp

lemma inv_world: "blob_inv s \<Longrightarrow> blob_inv (s\<lparr>bs_world := w\<rparr>)"
  using bl_owner_world [of "bs_lock s" w "bs_world s"]
  by (simp add: blob_inv_def owners_tracked_def one_owner_def cleared_def)

lemma inv_pops:
  assumes inv: "blob_inv s" and pop: "pop_lease k tok (bs_lock s) = (l, leases)"
    and own: "\<forall>u. bs_pcs s u = Owning k tok \<longrightarrow> u = t" and pc: "bs_pcs s t \<noteq> Closing"
  shows "blob_inv (at_pc (s\<lparr>bs_lock := l\<rparr>) t (Giving leases))"
proof (rule blob_invI [where l = l and w = "bs_world s" and f = "(bs_pcs s)(t := Giving leases)"])
  note pops = pop_lease_owner [OF pop]
  show "bl_owner (l, bs_world s) k' = Some tok'"
    if "((bs_pcs s)(t := Giving leases)) u = Owning k' tok'" "\<not> bl_closed l" for u k' tok'
  proof -
    have u: "u \<noteq> t" "bs_pcs s u = Owning k' tok'" using that(1) by (auto split: if_splits)
    with own have "k' \<noteq> k \<or> tok' \<noteq> tok" by auto
    with blob_invD(1) [OF inv u(2)] that(2) show ?thesis by (auto simp: pops)
  qed
  show "u = v" if "((bs_pcs s)(t := Giving leases)) u = Owning k tok" "((bs_pcs s)(t := Giving leases)) v = Owning k tok'"
    for u v k tok tok'
    using blob_invD(2) [OF inv, of u k tok v tok'] that by (simp split: if_splits)
  show "bl_leases l = []" if "bl_closed l" "\<forall>u. ((bs_pcs s)(t := Giving leases)) u \<noteq> Closing"
    using blob_invD(3) [OF inv] still_nobody [OF that(2) pc] that(1) pops(1,3) by simp
  show "bl_closed l" if "((bs_pcs s)(t := Giving leases)) u = Closing" for u
    using blob_invD(4) [OF inv, of u] that pops(1) by (simp split: if_splits)
  show "distinct (map fst (bl_leases l))" by (rule pops(2) [OF blob_invD(5) [OF inv]])
qed simp_all

lemma inv_registers:
  assumes inv: "blob_inv s" and pc: "bs_pcs s t = Granted k lease"
    and r: "bl_register sv k tok lease (bs_lock s, bs_world s) = (r, (l, w))"
  shows "blob_inv (at_pc (s\<lparr>bs_lock := l, bs_world := w, bs_issued := i\<rparr>) t
    (case r of Inr (Some token) \<Rightarrow> Owning k token | _ \<Rightarrow> Free))"
proof -
  note reg = register_owner [OF r]
  from reg(3) show ?thesis
  proof
    assume granted: "r = Inr (Some tok) \<and> bl_owner (bs_lock s, bs_world s) k = None \<and> \<not> bl_closed (bs_lock s) \<and>
        bl_owner (l, w) = (bl_owner (bs_lock s, bs_world s))(k \<mapsto> tok)"
    have owns: "bl_owner (bs_lock s, bs_world s) k' = Some tok' \<and> k' \<noteq> k" if "bs_pcs s u = Owning k' tok'" for u k' tok'
      using blob_invD(1) [OF inv that] granted by auto
    have "blob_inv (at_pc (s\<lparr>bs_lock := l, bs_world := w, bs_issued := i\<rparr>) t (Owning k tok))"
    proof (rule blob_invI [where l = l and w = w and f = "(bs_pcs s)(t := Owning k tok)"])
      show "bl_owner (l, w) k' = Some tok'" if "((bs_pcs s)(t := Owning k tok)) u = Owning k' tok'" for u k' tok'
        using owns [of u k' tok'] that granted by (auto split: if_splits)
      show "u = v" if "((bs_pcs s)(t := Owning k tok)) u = Owning k' tok'" "((bs_pcs s)(t := Owning k tok)) v = Owning k' tok''"
        for u v k' tok' tok''
        using that owns [of u k' tok'] owns [of v k' tok''] blob_invD(2) [OF inv, of u k' tok' v tok'']
        by (auto split: if_splits)
      show "bl_closed l" if "((bs_pcs s)(t := Owning k tok)) u = Closing" for u
        using blob_invD(4) [OF inv, of u] that granted by (simp split: if_splits)
    qed (use granted reg(1) reg(2) [OF blob_invD(5) [OF inv]] in simp_all)
    with granted show ?thesis by simp
  next
    assume refused: "(\<forall>t. r \<noteq> Inr (Some t)) \<and> l = bs_lock s"
    then have "(case r of Inr (Some token) \<Rightarrow> Owning k token | _ \<Rightarrow> Free) = Free"
      by (cases r) (simp_all split: option.split)
    moreover have "blob_inv ((at_pc (s\<lparr>bs_world := w\<rparr>) t Free)\<lparr>bs_issued := i\<rparr>)"
      unfolding blob_inv_issued by (rule inv_moves [OF inv]) (simp_all add: pc)
    moreover have "s\<lparr>bs_lock := l, bs_world := w, bs_issued := i\<rparr> = s\<lparr>bs_world := w, bs_issued := i\<rparr>"
      using refused by simp
    ultimately show ?thesis by simp
  qed
qed

lemma inv_renews:
  assumes "blob_inv s" "apply_renewal sv ks out (bs_lock s, bs_world s) = (l, w)"
  shows "blob_inv (s\<lparr>bs_lock := l, bs_world := w\<rparr>)"
  using assms(1) renewal_tracking [OF assms(2)]
  by (auto simp: blob_inv_def owners_tracked_def one_owner_def cleared_def dest: map_eq_imp_length_eq)

lemma inv_closes:
  assumes inv: "blob_inv s" and pc: "\<forall>k tok. pc \<noteq> Owning k tok" and l: "bl_closed l" "distinct (map fst (bl_leases l))"
    and pcs: "pc = Closing \<or> bl_leases l = []"
  shows "blob_inv (at_pc (s\<lparr>bs_lock := l\<rparr>) t pc)"
proof (rule blob_invI [where l = l and w = "bs_world s" and f = "(bs_pcs s)(t := pc)"])
  show "u = v" if "((bs_pcs s)(t := pc)) u = Owning k tok" "((bs_pcs s)(t := pc)) v = Owning k tok'" for u v k tok tok'
    using blob_invD(2) [OF inv] that pc by (metis fun_upd_apply)
qed (use l pcs in \<open>auto dest: spec [of _ t]\<close>)

lemma blob_step_inv: "blob_step sv s s' \<Longrightarrow> blob_inv s \<Longrightarrow> blob_inv s'"
proof (induction rule: blob_step.induct)
  case (marker s t k timeout w deadline w')
  then show ?case by (intro inv_moves) simp_all
next
  case (no_marker s t k timeout e w)
  then show ?case by (intro inv_moves) simp_all
next
  case (ask s t k timeout deadline answer w)
  then show ?case by (intro inv_moves) (auto split: option.split poll_outcome.split)
next
  case (register s t k lease tok r l w)
  then show ?case by (intro inv_registers)
next
  case (release_own s t k tok l leases)
  have "\<forall>u. bs_pcs s u = Owning k tok \<longrightarrow> u = t"
    using blob_invD(2) [OF release_own.prems _ release_own.hyps(1)] by blast
  from inv_pops [OF release_own.prems release_own.hyps(2) this] show ?case by (simp add: release_own.hyps(1))
next
  case (release_any s t k tok l leases)
  then have "\<forall>u. bs_pcs s u = Owning k tok \<longrightarrow> u = t" by simp
  from inv_pops [OF release_any.prems release_any.hyps(3) this] show ?case by (simp add: release_any.hyps(1))
next
  case (give s t lease leases)
  then show ?case by (intro inv_moves) simp_all
next
  case (renewed s t xs ks out l w)
  show ?case
    by (rule inv_stays [OF inv_renews [OF renewed.prems renewed.hyps(3)]]) (simp_all add: renewed.hyps(1))
next
  case (mark s t)
  then show ?case using blob_invD(5) by (intro inv_closes) simp_all
next
  case (clear s t)
  then show ?case using blob_invD(4) by (intro inv_closes) simp_all
next
  case (elsewhere s w)
  then show ?case by (rule inv_world)
qed (auto intro!: inv_stays)

lemma blob_reachable_inv: "blob_reachable sv s \<Longrightarrow> blob_inv s"
  by (induction rule: blob_reachable.induct)
    (simp_all add: blob_step_inv, simp add: blob_inv_def owners_tracked_def one_owner_def cleared_def)

section \<open>Properties\<close>

text \<open>
  C8: The blob lock is exclusive within its process, whatever its callers do side by side: acquires whose service calls
  overlap, renewals that lose the lease, releases by callers that do not hold the key under the token they give,
  and \<open>close\<close>, with any answers of the service. A key has one owner at most; while the lock is open, it is
  tracked under the owner's token; and a lease that the service grants for it meanwhile goes back and is not registered.
\<close>

theorem blob_lock_exclusive:
  assumes "blob_reachable sv s" "bs_pcs s t = Owning k tok"
  shows "(\<forall>u tok'. bs_pcs s u = Owning k tok' \<longrightarrow> u = t) \<and>
    (bl_closed (bs_lock s) \<or> bl_owner (bs_lock s, bs_world s) k = Some tok) \<and>
    (\<exists>r. bl_register sv k tok' lease (bs_lock s, bs_world s) = (r, (bs_lock s, sv_release sv lease (bs_world s))) \<and>
       (\<forall>token. r \<noteq> Inr (Some token)))"
proof -
  note inv = blob_reachable_inv [OF assms(1)]
  have open_lock: "bl_closed (bs_lock s) \<or> bl_owner (bs_lock s, bs_world s) k = Some tok"
    using blob_invD(1) [OF inv assms(2)] by blast
  then have "\<exists>r. bl_register sv k tok' lease (bs_lock s, bs_world s) = (r, (bs_lock s, sv_release sv lease (bs_world s))) \<and>
       (\<forall>token. r \<noteq> Inr (Some token))"
    by (auto simp: bl_register_cases bl_owner_def)
  with open_lock blob_invD(2) [OF inv _ assms(2)] show ?thesis by blast
qed

text \<open>Once a \<open>close\<close> has run, the table stays empty, also when an acquire was under way.\<close>

theorem blob_closed_empty:
  assumes "blob_reachable sv s" "bl_closed (bs_lock s)" "\<forall>t. bs_pcs s t \<noteq> Closing"
  shows "bl_leases (bs_lock s) = []"
  by (rule blob_invD(3) [OF blob_reachable_inv [OF assms(1)] assms(2,3)])

text \<open>
  An execution with a race: two callers have looked, both get a lease from the service, one registers and owns the key;
  the other one hands its lease back.
\<close>

definition race_start :: "nat blob_system" where
  "race_start = \<lparr>bs_lock = example_lock, bs_world = 0, bs_pcs = (\<lambda>_. Free), bs_issued = {}\<rparr>"

lemma calm_grants:
  assumes "bs_pcs s t = Looked k 0" "\<not> bl_closed (bs_lock s)"
  shows "blob_steps calm_service s (at_pc (s\<lparr>bs_world := Suc (bs_world s)\<rparr>) t (Granted k (bs_world s)))"
proof -
  let ?s1 = "at_pc s t (Marked k 0 0)" and ?s2 = "at_pc s t (Asking k 0 0)"
  have "blob_step calm_service s (at_pc (s\<lparr>bs_world := bs_world s\<rparr>) t (Marked k 0 0))"
    by (rule blob_step.marker [OF assms(1)]) (simp_all add: calm_service_def ensure_marker_def acquire_deadline_def)
  moreover have "blob_step calm_service ?s1 ?s2"
    using blob_step.look_again [of ?s1 t k 0 0 calm_service] assms(2) by simp
  moreover have "blob_step calm_service ?s2 (at_pc (?s2\<lparr>bs_world := Suc (bs_world s)\<rparr>) t
      (case Some (Leased (bs_world s)) of Some (Leased lease) \<Rightarrow> Granted k lease | None \<Rightarrow> Marked k 0 0 | _ \<Rightarrow> Free))"
    by (rule blob_step.ask) (simp_all add: calm_service_def poll_round_def)
  ultimately have "blob_step calm_service s ?s1" "blob_step calm_service ?s1 ?s2"
      "blob_step calm_service ?s2 (at_pc (s\<lparr>bs_world := Suc (bs_world s)\<rparr>) t (Granted k (bs_world s)))"
    by simp_all
  then show ?thesis by (blast intro: first_step one_step)
qed

lemma blob_steps_reachable: "blob_steps sv s s' \<Longrightarrow> blob_reachable sv s \<Longrightarrow> blob_reachable sv s'"
  by (induction rule: rtranclp_induct) (auto intro: blob_reachable.step)

lemma race_reached:
  "\<exists>s. blob_reachable calm_service s \<and> bs_pcs s 0 = Owning k tok \<and> bs_pcs s 1 = Granted k 1"
proof -
  have r0: "blob_reachable calm_service race_start"
    unfolding race_start_def by (rule blob_reachable.start) (simp_all add: example_lock_def)
  have free: "\<not> bl_closed (bs_lock race_start)" "bl_leases (bs_lock race_start) = []" "bs_pcs race_start u = Free" "bs_world race_start = 0" for u
    by (simp_all add: race_start_def example_lock_def)
  let ?s1 = "at_pc race_start 0 (Looked k 0)"
  let ?s2 = "at_pc ?s1 1 (Looked k 0)"
  have "blob_step calm_service race_start ?s1" "blob_step calm_service ?s1 ?s2"
    by (rule blob_step.look; simp add: free)+
  then have r2: "blob_reachable calm_service ?s2" using r0 by (blast intro: blob_reachable.step)
  let ?s3 = "at_pc (?s2\<lparr>bs_world := Suc (bs_world ?s2)\<rparr>) 0 (Granted k (bs_world ?s2))"
  have r3: "blob_reachable calm_service ?s3"
    by (rule blob_steps_reachable [OF calm_grants r2]) (simp_all add: free)
  let ?s4 = "at_pc (?s3\<lparr>bs_world := Suc (bs_world ?s3)\<rparr>) 1 (Granted k (bs_world ?s3))"
  have r4: "blob_reachable calm_service ?s4"
    by (rule blob_steps_reachable [OF calm_grants r3]) (simp_all add: free)
  obtain r l w where g: "bl_register calm_service k tok 0 (bs_lock ?s4, bs_world ?s4) = (r, (l, w))" by (metis prod.exhaust)
  then have r: "r = Inr (Some tok)" using free by (simp add: bl_register_cases)
  have "blob_step calm_service ?s4 (at_pc (?s4\<lparr>bs_lock := l, bs_world := w, bs_issued := insert tok (bs_issued ?s4)\<rparr>) 0
      (case r of Inr (Some token) \<Rightarrow> Owning k token | _ \<Rightarrow> Free))"
    by (rule blob_step.register [OF _ _ g]) (simp_all add: free race_start_def)
  from blob_reachable.step [OF r4 this] show ?thesis
    by (rule exI [where x = "at_pc _ _ _", OF conjI]) (simp add: free r)
qed

lemma blob_lock_exclusive_witness:
  "\<exists>s. blob_reachable calm_service s \<and> bs_pcs s 0 = Owning (Key ''g'' ''t'') ''tok'' \<and> bs_pcs s 1 = Granted (Key ''g'' ''t'') 1 \<and>
    (\<forall>u tok'. bs_pcs s u = Owning (Key ''g'' ''t'') tok' \<longrightarrow> u = 0) \<and>
    (\<exists>r. bl_register calm_service (Key ''g'' ''t'') ''other'' 1 (bs_lock s, bs_world s) =
       (r, (bs_lock s, sv_release calm_service 1 (bs_world s))))"
  using race_reached [of "Key ''g'' ''t''" "''tok''"] blob_lock_exclusive [of calm_service _ 0 "Key ''g'' ''t''" "''tok''" "''other''" 1]
  by blast

end
