(* ===== verification/Async_Lock.thy ===== *)
theory Async_Lock
  imports InProcess_Lock Blob_Lease
begin

text \<open>
  The cancellation-safe use of a synchronous lock from a coroutine, \<^verbatim>\<open>locks/_async.py\<close>. A
  blocking call runs in a worker thread while the coroutine awaits it behind a shield. What the
  event loop does to the awaiting task is a schedule: each \<open>await\<close> of the worker ends either
  because the worker has finished or because a cancellation of the task interrupts it (and then
  the worker may or may not be done when the loop looks again); at the end a cancellation may
  still be pending that no \<open>await\<close> has delivered.
\<close>

section \<open>Awaiting a worker\<close>

datatype wait_round = Interrupted bool | Finished

record schedule =
  sc_rounds :: "wait_round list"
  sc_late :: bool

text \<open>
  The loop \<open>while not task.done(): await shield(task)\<close>: the value says whether a cancellation was
  seen; \<open>None\<close> is a task that still waits when the schedule ends.
\<close>

fun await_worker :: "wait_round list \<Rightarrow> bool \<Rightarrow> bool option" where
  "await_worker [] cancelled = None"
| "await_worker (Interrupted done # rounds) cancelled = (if done then Some True else await_worker rounds True)"
| "await_worker (Finished # rounds) cancelled = Some cancelled"

definition await_schedule :: "schedule \<Rightarrow> bool option" where
  "await_schedule sc = map_option (\<lambda>c. c \<or> sc_late sc) (await_worker (sc_rounds sc) False)"

datatype ('e, 'a) outcome = Returned 'a | Raised 'e | Cancelled | Pending

definition run_sync_retaining_ownership ::
    "('s \<Rightarrow> ('e + 'a) \<times> 's) \<Rightarrow> schedule \<Rightarrow> 's \<Rightarrow> ('e, 'a) outcome \<times> 's" where
  "run_sync_retaining_ownership func sc s =
     (let (r, s1) = func s in
      case await_schedule sc of
        None \<Rightarrow> (Pending, s1)
      | Some cancelled \<Rightarrow>
          ((case r of
              Inl e \<Rightarrow> (if cancelled then Cancelled else Raised e)
            | Inr x \<Rightarrow> (if cancelled then Cancelled else Returned x)), s1))"

section \<open>Release, acquire, and the scope\<close>

definition release_thread_lock ::
    "'s release_op \<Rightarrow> lock_key \<Rightarrow> token \<Rightarrow> schedule \<Rightarrow> 's \<Rightarrow> ('e, unit) outcome \<times> 's" where
  "release_thread_lock release k t sc s =
     ((case await_schedule sc of
         None \<Rightarrow> Pending
       | Some cancelled \<Rightarrow> (if cancelled then Cancelled else Returned ())), release k t s)"

text \<open>
  \<open>env\<close> is what other executions do to the lock between the end of the worker's \<open>acquire\<close> and
  the \<open>release\<close> that a cancelled caller owes; the two calls have a schedule each.
\<close>

definition acquire_thread_lock ::
    "'s acquire_op \<Rightarrow> 's release_op \<Rightarrow> ('s \<Rightarrow> 's) \<Rightarrow> schedule \<Rightarrow> schedule \<Rightarrow>
     lock_key \<Rightarrow> token \<Rightarrow> 's \<Rightarrow> (lock_error, token option) outcome \<times> 's" where
  "acquire_thread_lock acquire release env sc sc' k tok s =
     (let (r, s1) = acquire k tok s in
      case await_schedule sc of
        None \<Rightarrow> (Pending, s1)
      | Some cancelled \<Rightarrow>
          (case r of
             Inl e \<Rightarrow> (if cancelled then Cancelled else Raised e, s1)
           | Inr token \<Rightarrow>
               (if cancelled then
                  (case token of
                     None \<Rightarrow> (Cancelled, s1)
                   | Some t \<Rightarrow>
                       let (out, s2) = release_thread_lock release k t sc' (env s1) in
                       (if out = (Pending :: (lock_error, unit) outcome) then Pending else Cancelled, s2))
                else (Returned token, s1))))"

text \<open>
  The asynchronous context manager around a body, which may return, raise or be cancelled; the
  \<open>finally\<close> clause releases a token in every case, and a cancellation during it wins.
\<close>

fun after :: "('e, 'a) outcome \<Rightarrow> ('e, 'b) outcome \<Rightarrow> ('e, 'b) outcome" where
  "after (Returned _) out = out"
| "after (Raised e) out = Raised e"
| "after Cancelled out = Cancelled"
| "after Pending out = Pending"

definition finish_scope ::
    "'s release_op \<Rightarrow> lock_key \<Rightarrow> schedule \<Rightarrow> token option \<Rightarrow>
     ('e, 'b) outcome \<Rightarrow> 's \<Rightarrow> ('e, 'b) outcome \<times> 's" where
  "finish_scope release k sc token out s =
     (if out = Pending then (Pending, s)
      else case token of
          None \<Rightarrow> (out, s)
        | Some t \<Rightarrow>
            (after (fst (release_thread_lock release k t sc s) :: ('e, unit) outcome) out,
             snd (release_thread_lock release k t sc s :: ('e, unit) outcome \<times> 's)))"

definition async_thread_lock ::
    "'s acquire_op \<Rightarrow> 's release_op \<Rightarrow> ('s \<Rightarrow> 's) \<Rightarrow> schedule \<Rightarrow> schedule \<Rightarrow> schedule \<Rightarrow>
     lock_key option \<Rightarrow> token \<Rightarrow> (token option \<Rightarrow> 's \<Rightarrow> (lock_error, 'b) outcome \<times> 's) \<Rightarrow>
     's \<Rightarrow> (lock_error, 'b) outcome \<times> 's" where
  "async_thread_lock acquire release env sc sc' sc'' key tok body s =
     (case key of
        None \<Rightarrow> body None s
      | Some k \<Rightarrow>
          (case acquire_thread_lock acquire release env sc sc' k tok s of
             (Returned token, s1) \<Rightarrow>
               (let (out, s2) = body token s1 in finish_scope release k sc'' token out s2)
           | (Raised e, s1) \<Rightarrow> (Raised e, s1)
           | (Cancelled, s1) \<Rightarrow> (Cancelled, s1)
           | (Pending, s1) \<Rightarrow> (Pending, s1)))"

section \<open>What the loop guarantees\<close>

text \<open>The wait ends only when the worker is done, after any number of cancellations.\<close>

lemma await_worker_pending:
  "await_worker rounds c = None \<longleftrightarrow> (\<forall>r\<in>set rounds. r = Interrupted False)"
  by (induction rounds c rule: await_worker.induct) auto

lemma await_worker_uncancelled:
  "await_worker rounds False = Some False \<longleftrightarrow> (\<exists>rest. rounds = Finished # rest)"
proof -
  have seen: "await_worker rs True \<noteq> Some False" for rs
    by (induction rs True rule: await_worker.induct) auto
  show ?thesis by (cases "(rounds, False)" rule: await_worker.cases) (auto simp: seen)
qed

text \<open>
  A protected blocking call is never abandoned: whatever number of cancellations arrives, the
  coroutine still waits while its worker runs, and it returns the worker's result only if no
  cancellation arrived; otherwise it re-raises the cancellation, also over an error of the worker.
\<close>

theorem run_sync_retains:
  "(fst (run_sync_retaining_ownership func sc s) = Pending \<longleftrightarrow>
      sc_rounds sc = replicate (length (sc_rounds sc)) (Interrupted False)) \<and>
   (fst (run_sync_retaining_ownership func sc s) \<in> {Pending, Cancelled} \<or>
      (\<exists>rest. sc_rounds sc = Finished # rest) \<and> \<not> sc_late sc) \<and>
   snd (run_sync_retaining_ownership func sc s) = snd (func s)"
proof -
  have "await_worker (sc_rounds sc) False = None \<longleftrightarrow>
      sc_rounds sc = replicate (length (sc_rounds sc)) (Interrupted False)"
    by (simp add: await_worker_pending list_eq_iff_nth_eq all_set_conv_all_nth)
  moreover have "await_worker (sc_rounds sc) False = Some False \<longleftrightarrow> (\<exists>rest. sc_rounds sc = Finished # rest)"
    by (rule await_worker_uncancelled)
  ultimately show ?thesis
    by (cases "await_worker (sc_rounds sc) False"; cases "fst (func s)")
      (auto simp: run_sync_retaining_ownership_def await_schedule_def split_def)
qed

context thread_lock begin

text \<open>
  What other executions may do while the token of \<open>k\<close> is out: anything but give it away.
\<close>

lemma acquire_no_leak:
  assumes "inv s" "\<And>x. inv x \<Longrightarrow> inv (env x) \<and> (owner x k = Some tok \<longrightarrow> owner (env x) k = Some tok)"
    and "acquire_thread_lock acquire release env sc sc' k tok s = (out, s')" "out \<noteq> Pending"
  shows "inv s' \<and>
    (if \<exists>t. out = Returned (Some t)
     then out = Returned (Some tok) \<and> owner s k = None \<and> owner s' k = Some tok
     else owner s' k = owner s k)"
proof -
  obtain r s1 where a: "acquire k tok s = (r, s1)" by (rule prod.exhaust)
  have i1: "inv s1" using assms(1) a by (rule acquire_inv)
  obtain c where c: "await_schedule sc = Some c"
    using assms(3,4) a by (cases "await_schedule sc") (auto simp: acquire_thread_lock_def)
  show ?thesis
  proof (cases "\<exists>t. r = Inr (Some t)")
    case True
    then obtain t where t: "r = Inr (Some t)" by blast
    have o: "t = tok" "owner s k = None" "owner s1 k = Some tok"
      using acquire_token [OF assms(1)] a t by auto
    with assms(2) i1 have env: "inv (env s1)" "owner (env s1) k = Some tok" by auto
    show ?thesis
      using assms(3,4) a c t o i1 env
      by (cases c)
        (auto simp: acquire_thread_lock_def release_thread_lock_def release_inv release_owner split: if_splits)
  next
    case False
    then have "owner s1 = owner s" using acquire_refused [OF assms(1) a] by blast
    with False assms(3,4) a c i1 show ?thesis
      by (cases r; cases c) (auto simp: acquire_thread_lock_def split: option.splits)
  qed
qed

lemma scope_releases:
  assumes "inv s" "\<And>x. inv x \<Longrightarrow> inv (env x) \<and> (owner x k = Some tok \<longrightarrow> owner (env x) k = Some tok)"
    and body: "\<And>t x. inv x \<Longrightarrow> inv (snd (body t x)) \<and> owner (snd (body t x)) k = owner x k"
    and "async_thread_lock acquire release env sc sc' sc'' (Some k) tok body s = (out, s')" "out \<noteq> Pending"
  shows "inv s' \<and> owner s' k = owner s k"
proof -
  obtain a s1 where a: "acquire_thread_lock acquire release env sc sc' k tok s = (a, s1)" by (rule prod.exhaust)
  have "a \<noteq> Pending" using assms(4,5) a by (auto simp: async_thread_lock_def)
  note leak = acquire_no_leak [OF assms(1,2) a this]
  show ?thesis
  proof (cases a)
    case (Returned token)
    obtain b s2 where b: "body token s1 = (b, s2)" by (rule prod.exhaust)
    have "inv s1" using leak by simp
    with body [of s1 token] b have i2: "inv s2" "owner s2 k = owner s1 k" by auto
    have f: "finish_scope release k sc'' token b s2 = (out, s')"
      using assms(4) a b Returned by (simp add: async_thread_lock_def)
    with assms(5) have "b \<noteq> Pending" by (auto simp: finish_scope_def)
    show ?thesis
    proof (cases token)
      case None
      with leak i2 f Returned \<open>b \<noteq> Pending\<close> show ?thesis by (simp add: finish_scope_def)
    next
      case (Some t)
      with leak Returned have "t = tok" "owner s k = None" "owner s1 k = Some tok" by auto
      moreover have "s' = release k t s2"
        using f Some \<open>b \<noteq> Pending\<close> by (simp add: finish_scope_def release_thread_lock_def)
      ultimately show ?thesis using i2 by (simp add: release_inv release_owner)
    qed
  qed (use leak assms(4) a in \<open>auto simp: async_thread_lock_def\<close>)
qed

end

section \<open>On the two backends\<close>

text \<open>
  A cancelled \<open>acquire\<close> of the blob lock leaks no token: while the request is in flight and
  until the coroutine ends, other callers may renew, acquire and release as they like; when it
  ends, either it returned the token and owns the key, or it returned none and the key belongs
  to whoever had it before.
\<close>

theorem cancelled_acquire_no_leak:
  assumes "bl_ok s" "\<forall>x\<in>set xs. \<not> gives_up k tok x"
    and "acquire_thread_lock (bl_acquire sv timeout) (bl_release sv) (bl_run sv xs) sc sc' k tok s = (out, s')"
    and "out \<noteq> Pending"
  shows "if \<exists>t. out = Returned (Some t)
    then out = Returned (Some tok) \<and> bl_owner s k = None \<and> bl_owner s' k = Some tok
    else bl_owner s' k = bl_owner s k"
proof -
  have "bl_ok x \<Longrightarrow> bl_ok (bl_run sv xs x) \<and> (bl_owner x k = Some tok \<longrightarrow> bl_owner (bl_run sv xs x) k = Some tok)" for x
    using assms(2) bl_run_owner blob_run_ok by blast
  from blob.acquire_no_leak [OF assms(1) this assms(3,4)] show ?thesis by blast
qed

lemma cancelled_acquire_no_leak_witness:
  "bl_owner (snd (acquire_thread_lock (bl_acquire calm_service 0) (bl_release calm_service)
      (bl_run calm_service [BRenew, BAcquire 0 (Key ''g'' ''t'') ''other''])
      \<lparr>sc_rounds = [Interrupted False, Finished], sc_late = False\<rparr> \<lparr>sc_rounds = [Finished], sc_late = False\<rparr>
      (Key ''g'' ''t'') ''tok'' (example_lock, 0))) (Key ''g'' ''t'') = None"
proof -
  let ?r = "acquire_thread_lock (bl_acquire calm_service 0) (bl_release calm_service)
      (bl_run calm_service [BRenew, BAcquire 0 (Key ''g'' ''t'') ''other''])
      \<lparr>sc_rounds = [Interrupted False, Finished], sc_late = False\<rparr> \<lparr>sc_rounds = [Finished], sc_late = False\<rparr>
      (Key ''g'' ''t'') ''tok'' (example_lock, 0)"
  have out: "fst ?r = Cancelled"
    by (simp add: acquire_thread_lock_def example_acquire await_schedule_def release_thread_lock_def Let_def)
  have ok: "bl_ok (example_lock, 0 :: nat)" "bl_owner (example_lock, 0 :: nat) (Key ''g'' ''t'') = None"
    by (simp_all add: bl_ok_def bl_owner_def example_lock_def)
  show ?thesis
    using cancelled_acquire_no_leak [OF ok(1) _ prod.collapse [of ?r, symmetric]] out ok(2) by simp
qed

text \<open>
  The \<open>async with\<close> scope of the in-process lock is balanced: whatever cancellations arrive
  before, during and after the body, and whether the body returns, raises or is cancelled, once
  the scope has ended the key has the owner it had before it.
\<close>

theorem async_scope_balanced:
  assumes "ip_quiet s" "\<And>x. ip_quiet x \<Longrightarrow> ip_quiet (env x) \<and> (ip_owner x k = Some tok \<longrightarrow> ip_owner (env x) k = Some tok)"
    and "\<And>t x. ip_quiet x \<Longrightarrow> ip_quiet (snd (body t x)) \<and> ip_owner (snd (body t x)) k = ip_owner x k"
    and "async_thread_lock ip_acquire ip_release env sc sc' sc'' (Some k) tok body s = (out, s')" "out \<noteq> Pending"
  shows "ip_quiet s' \<and> ip_owner s' k = ip_owner s k"
  by (rule inprocess.scope_releases [OF assms])

lemma async_scope_balanced_witness:
  "ip_owner (snd (async_thread_lock ip_acquire ip_release id
      \<lparr>sc_rounds = [Finished], sc_late = False\<rparr> \<lparr>sc_rounds = [], sc_late = False\<rparr>
      \<lparr>sc_rounds = [Interrupted False, Interrupted True], sc_late = False\<rparr>
      (Some (Key ''g'' ''t'')) ''tok'' (\<lambda>t x. (Raised LockClosed :: (lock_error, unit) outcome, x)) inproc_init)) (Key ''g'' ''t'') = None"
proof -
  let ?r = "async_thread_lock ip_acquire ip_release id
      \<lparr>sc_rounds = [Finished], sc_late = False\<rparr> \<lparr>sc_rounds = [], sc_late = False\<rparr>
      \<lparr>sc_rounds = [Interrupted False, Interrupted True], sc_late = False\<rparr>
      (Some (Key ''g'' ''t'')) ''tok'' (\<lambda>t x. (Raised LockClosed :: (lock_error, unit) outcome, x)) inproc_init"
  have "fst ?r \<noteq> Pending"
    by (auto simp: async_thread_lock_def acquire_thread_lock_def await_schedule_def finish_scope_def
        release_thread_lock_def split: prod.splits sum.splits option.splits)
  moreover have ok: "ip_quiet inproc_init" "ip_owner inproc_init (Key ''g'' ''t'') = None"
    by (simp_all add: ip_quiet_def ip_owner_def inproc_init_def)
  ultimately show ?thesis
    using async_scope_balanced [OF ok(1) _ _ prod.collapse [of ?r, symmetric]] by simp
qed

end
