(* ===== verification/Json.thy ===== *)
theory Json
  imports Prelude
begin

text \<open>
  \<open>json.dumps\<close> and \<open>json.loads\<close> as \<^verbatim>\<open>_json.py\<close> and the stores use them: ASCII output with the
  default separators, on the values of \<^typ>\<open>pyval\<close> (no floating-point numbers). What the
  encoder writes for an object that JSON does not know (\<open>_default\<close> dumps a langchain message,
  a pydantic model or \<open>str(value)\<close>) is a parameter \<open>enc\<close>. The decoder is a recursive descent
  with fuel; \<open>loads\<close> gives it one unit per character, which its own descent cannot exceed.
\<close>

section \<open>Encoding\<close>

definition digit :: "nat \<Rightarrow> char" where
  "digit n = char_of (48 + n)"

fun nat_text :: "nat \<Rightarrow> string" where
  "nat_text n = (if n < 10 then [digit n] else nat_text (n div 10) @ [digit (n mod 10)])"

declare nat_text.simps [simp del]

definition int_text :: "int \<Rightarrow> string" where
  "int_text i = (if i < 0 then CHR ''-'' # nat_text (nat (- i)) else nat_text (nat i))"

definition lower_hex :: "nat \<Rightarrow> char" where
  "lower_hex n = ''0123456789abcdef'' ! n"

definition escape_char :: "char \<Rightarrow> string" where
  "escape_char c =
     (if c = CHR 0x22 then [CHR 0x5C, CHR 0x22]
      else if c = CHR 0x5C then [CHR 0x5C, CHR 0x5C]
      else if c = CHR 0x0A then [CHR 0x5C, CHR ''n'']
      else if c = CHR 0x0D then [CHR 0x5C, CHR ''r'']
      else if c = CHR 0x09 then [CHR 0x5C, CHR ''t'']
      else if c = CHR 0x0C then [CHR 0x5C, CHR ''f'']
      else if c = CHR 0x08 then [CHR 0x5C, CHR ''b'']
      else
        let n = of_char c in
        if 32 \<le> n \<and> n \<le> 126 then [c]
        else CHR 0x5C # ''u00'' @ [lower_hex (n div 16), lower_hex (n mod 16)])"

definition string_text :: "string \<Rightarrow> string" where
  "string_text s = CHR 0x22 # concat (map escape_char s) @ [CHR 0x22]"

fun join :: "string \<Rightarrow> string list \<Rightarrow> string" where
  "join sep [] = []"
| "join sep [x] = x"
| "join sep (x # y # xs) = x @ sep @ join sep (y # xs)"

fun dumps :: "(nat \<Rightarrow> string) \<Rightarrow> pyval \<Rightarrow> string" where
  "dumps enc PNone = ''null''"
| "dumps enc (PBool b) = (if b then ''true'' else ''false'')"
| "dumps enc (PInt i) = int_text i"
| "dumps enc (PStr s) = string_text s"
| "dumps enc (PList xs) = ''['' @ join '', '' (map (dumps enc) xs) @ '']''"
| "dumps enc (PDict d) =
     CHR ''{'' # join '', '' (map (\<lambda>kv. string_text (fst kv) @ '': '' @ dumps enc (snd kv)) d) @ ''}''"
| "dumps enc (PObj a) = enc a"

section \<open>Decoding\<close>

definition is_space :: "char \<Rightarrow> bool" where
  "is_space c = ((of_char c :: nat) \<in> {9, 10, 13, 32})"

definition skip :: "string \<Rightarrow> string" where
  "skip s = dropWhile is_space s"

definition is_digit :: "char \<Rightarrow> bool" where
  "is_digit c = (48 \<le> (of_char c :: nat) \<and> (of_char c :: nat) \<le> 57)"

definition digits_value :: "string \<Rightarrow> nat" where
  "digits_value s = foldl (\<lambda>a c. 10 * a + (of_char c - 48)) 0 s"

definition hex_val :: "char \<Rightarrow> nat option" where
  "hex_val c =
     (let n = of_char c in
      if 48 \<le> n \<and> n \<le> 57 then Some (n - 48)
      else if 65 \<le> n \<and> n \<le> 70 then Some (n - 55)
      else if 97 \<le> n \<and> n \<le> 102 then Some (n - 87)
      else None)"

text \<open>\<open>-?(0|[1-9][0-9]*)\<close>; a fraction or an exponent would make it a float.\<close>

definition parse_nat :: "string \<Rightarrow> (nat \<times> string) option" where
  "parse_nat s =
     (case s of
        [] \<Rightarrow> None
      | c # t \<Rightarrow>
          (if \<not> is_digit c then None
           else
             let (ds, rest) = (if c = CHR ''0'' then ([c], t) else (takeWhile is_digit s, dropWhile is_digit s))
             in case rest of
                 [] \<Rightarrow> Some (digits_value ds, rest)
               | x # _ \<Rightarrow> (if x \<in> set ''.eE'' then None else Some (digits_value ds, rest))))"

definition parse_int :: "string \<Rightarrow> (int \<times> string) option" where
  "parse_int s =
     (case s of
        [] \<Rightarrow> None
      | c # t \<Rightarrow>
          (if c = CHR ''-'' then map_option (\<lambda>(n, r). (- int n, r)) (parse_nat t)
           else map_option (\<lambda>(n, r). (int n, r)) (parse_nat s)))"

text \<open>The body of a string after its opening quote; escapes beyond U+00FF are outside the model.\<close>

fun parse_body :: "string \<Rightarrow> (string \<times> string) option" where
  "parse_body [] = None"
| "parse_body (c # s) =
     (if c = CHR 0x22 then Some ([], s)
      else if c = CHR 0x5C then
        (case s of
           [] \<Rightarrow> None
         | e # t \<Rightarrow>
             (if e = CHR ''u'' then
                (case t of
                   a # b # x # y # u \<Rightarrow>
                     (case (hex_val a, hex_val b, hex_val x, hex_val y) of
                        (Some 0, Some 0, Some m, Some n) \<Rightarrow>
                          map_option (\<lambda>(r, v). (char_of (16 * m + n) # r, v)) (parse_body u)
                      | _ \<Rightarrow> None)
                 | _ \<Rightarrow> None)
              else
                (case map_of (zip (CHR 0x22 # CHR 0x5C # ''/bfnrt'')
                      (CHR 0x22 # CHR 0x5C # CHR ''/'' # [CHR 0x08, CHR 0x0C, CHR 0x0A, CHR 0x0D, CHR 0x09])) e of
                   None \<Rightarrow> None
                 | Some x \<Rightarrow> map_option (\<lambda>(r, v). (x # r, v)) (parse_body t))))
      else if (of_char c :: nat) < 32 then None
      else map_option (\<lambda>(r, v). (c # r, v)) (parse_body s))"

definition mk_dict :: "'v dict \<Rightarrow> 'v dict" where
  "mk_dict kvs = dict_merge [] kvs"

definition literal :: "string \<Rightarrow> string \<Rightarrow> pyval \<Rightarrow> (pyval \<times> string) option" where
  "literal name s v = (if take (length name) s = name then Some (v, drop (length name) s) else None)"

fun parse :: "nat \<Rightarrow> string \<Rightarrow> (pyval \<times> string) option"
  and parse_items :: "nat \<Rightarrow> string \<Rightarrow> (pyval list \<times> string) option"
  and parse_members :: "nat \<Rightarrow> string \<Rightarrow> (pyval dict \<times> string) option" where
  "parse 0 s = None"
| "parse (Suc n) s =
     (case skip s of
        [] \<Rightarrow> None
      | c # t \<Rightarrow>
          (if c = CHR 0x22 then map_option (\<lambda>(x, r). (PStr x, r)) (parse_body t)
           else if c = CHR ''['' then
             (case skip t of
                [] \<Rightarrow> None
              | x # u \<Rightarrow> if x = CHR '']'' then Some (PList [], u)
                          else map_option (\<lambda>(xs, r). (PList xs, r)) (parse_items n t))
           else if c = CHR ''{'' then
             (case skip t of
                [] \<Rightarrow> None
              | x # u \<Rightarrow> if x = CHR ''}'' then Some (PDict [], u)
                          else map_option (\<lambda>(d, r). (PDict (mk_dict d), r)) (parse_members n t))
           else if c = CHR ''n'' then literal ''null'' (c # t) PNone
           else if c = CHR ''t'' then literal ''true'' (c # t) (PBool True)
           else if c = CHR ''f'' then literal ''false'' (c # t) (PBool False)
           else map_option (\<lambda>(i, r). (PInt i, r)) (parse_int (c # t))))"
| "parse_items 0 s = None"
| "parse_items (Suc n) s =
     (case parse n s of
        None \<Rightarrow> None
      | Some (x, r) \<Rightarrow>
          (case skip r of
             [] \<Rightarrow> None
           | c # t \<Rightarrow>
               (if c = CHR '']'' then Some ([x], t)
                else if c = CHR '','' then map_option (\<lambda>(xs, u). (x # xs, u)) (parse_items n t)
                else None)))"
| "parse_members 0 s = None"
| "parse_members (Suc n) s =
     (case skip s of
        [] \<Rightarrow> None
      | q # s' \<Rightarrow>
         (if q \<noteq> CHR 0x22 then None
          else case parse_body s' of
            None \<Rightarrow> None
          | Some (k, r) \<Rightarrow>
             (case skip r of
                [] \<Rightarrow> None
              | c # t \<Rightarrow>
                 (if c \<noteq> CHR '':'' then None
                  else case parse n t of
                    None \<Rightarrow> None
                  | Some (v, r2) \<Rightarrow>
                     (case skip r2 of
                        [] \<Rightarrow> None
                      | c2 # t2 \<Rightarrow>
                         (if c2 = CHR ''}'' then Some ([(k, v)], t2)
                          else if c2 = CHR '','' then map_option (\<lambda>(d, u). ((k, v) # d, u)) (parse_members n t2)
                          else None))))))"

definition loads :: "string \<Rightarrow> pyval option" where
  "loads s =
     (case parse (Suc (length s)) s of
        None \<Rightarrow> None
      | Some (v, r) \<Rightarrow> (if skip r = [] then Some v else None))"

section \<open>Numbers and strings read back\<close>

definition stops :: "string \<Rightarrow> bool" where
  "stops rest \<longleftrightarrow> (case rest of [] \<Rightarrow> True | c # _ \<Rightarrow> \<not> is_digit c \<and> c \<notin> set ''.eE'')"

lemma of_char_digit: "n < 10 \<Longrightarrow> (of_char (digit n) :: nat) = 48 + n"
  by (simp add: digit_def)

lemma is_digit_digit: "n < 10 \<Longrightarrow> is_digit (digit n)"
  by (simp add: is_digit_def of_char_digit)

lemma nat_text_digits: "c \<in> set (nat_text n) \<Longrightarrow> is_digit c"
proof (induction n rule: nat_text.induct)
  case (1 n)
  then show ?case by (subst (asm) (2) nat_text.simps) (auto simp: is_digit_digit split: if_splits)
qed

lemma nat_text_ne [simp]: "nat_text n \<noteq> []"
  by (subst nat_text.simps) simp

lemma digits_value_text: "digits_value (nat_text n) = n"
proof (induction n rule: nat_text.induct)
  case (1 n)
  then show ?case
    by (subst nat_text.simps) (simp add: digits_value_def of_char_digit)
qed

lemma nat_text_zero: "nat_text n = CHR ''0'' # t \<Longrightarrow> n = 0 \<and> t = []"
proof (induction n arbitrary: t rule: nat_text.induct)
  case (1 n)
  show ?case
  proof (cases "n < 10")
    case True
    with 1(2) have "digit n = CHR ''0''" "t = []" by (subst (asm) nat_text.simps, simp)+
    moreover from this have "48 + n = 48" using of_char_digit [OF True] by simp
    ultimately show ?thesis by simp
  next
    case False
    then have e: "nat_text n = nat_text (n div 10) @ [digit (n mod 10)]" by (subst nat_text.simps) simp
    with 1(2) obtain t' where "nat_text (n div 10) = CHR ''0'' # t'" by (cases "nat_text (n div 10)") auto
    with 1(1) False have "n div 10 = 0" by blast
    with False show ?thesis by simp
  qed
qed

lemma takeWhile_stop:
  "(\<And>c. c \<in> set ds \<Longrightarrow> P c) \<Longrightarrow> (case rest of [] \<Rightarrow> True | c # _ \<Rightarrow> \<not> P c) \<Longrightarrow>
     takeWhile P (ds @ rest) = ds \<and> dropWhile P (ds @ rest) = rest"
  by (induction ds) (auto split: list.splits)

lemma parse_nat_text:
  assumes "stops rest"
  shows "parse_nat (nat_text n @ rest) = Some (n, rest)"
proof -
  obtain c t where ct: "nat_text n = c # t" by (cases "nat_text n") auto
  have c: "is_digit c" using nat_text_digits [of c n] ct by simp
  have tw: "takeWhile is_digit (nat_text n @ rest) = nat_text n \<and> dropWhile is_digit (nat_text n @ rest) = rest"
    by (rule takeWhile_stop) (use assms nat_text_digits in \<open>auto simp: stops_def split: list.splits\<close>)
  have split: "(if c = CHR ''0'' then ([c], t @ rest)
      else (takeWhile is_digit (c # t @ rest), dropWhile is_digit (c # t @ rest))) = (nat_text n, rest)"
    using tw nat_text_zero [of n t] ct by auto
  have "digits_value (c # t) = n" using digits_value_text [of n] ct by simp
  with split c assms ct show ?thesis
    by (auto simp: parse_nat_def stops_def Let_def simp del: takeWhile.simps dropWhile.simps
        split: list.splits)
qed

lemma digit_not_minus: "is_digit c \<Longrightarrow> c \<noteq> CHR ''-''"
  by (auto simp: is_digit_def)

lemma parse_int_text: "stops rest \<Longrightarrow> parse_int (int_text i @ rest) = Some (i, rest)"
proof (cases "i < 0")
  case False
  moreover obtain c t where ct: "nat_text (nat i) = c # t" by (cases "nat_text (nat i)") auto
  moreover from this have "c \<noteq> CHR ''-''" using nat_text_digits [of c "nat i"] digit_not_minus by simp
  moreover assume "stops rest"
  note parse_nat_text [OF this, of "nat i"]
  ultimately show ?thesis by (simp add: parse_int_def int_text_def)
qed (simp add: parse_int_def int_text_def parse_nat_text)

lemma hex_val_lower: "n < 16 \<Longrightarrow> hex_val (lower_hex n) = Some n"
proof -
  assume "n < 16"
  then have "n \<in> set [0..<16]" by simp
  moreover have "\<forall>n\<in>set [0..<16]. hex_val (lower_hex n) = Some n"
    by (simp add: upt_rec hex_val_def lower_hex_def Let_def)
  ultimately show ?thesis by blast
qed

lemma of_char_256: "(of_char c :: nat) < 256"
  using of_char_mod_256 [of c, where 'a = nat] mod_less_divisor [of 256 "of_char c"] by simp

lemma parse_body_escape:
  "parse_body (escape_char c @ s) = map_option (\<lambda>(r, v). (c # r, v)) (parse_body s)"
proof -
  let ?n = "of_char c :: nat"
  consider "c \<in> {CHR 0x22, CHR 0x5C, CHR 0x0A, CHR 0x0D, CHR 0x09, CHR 0x0C, CHR 0x08}"
    | (plain) "c \<notin> {CHR 0x22, CHR 0x5C, CHR 0x0A, CHR 0x0D, CHR 0x09, CHR 0x0C, CHR 0x08}" "32 \<le> ?n" "?n \<le> 126"
    | (hex) "c \<notin> {CHR 0x22, CHR 0x5C, CHR 0x0A, CHR 0x0D, CHR 0x09, CHR 0x0C, CHR 0x08}" "\<not> (32 \<le> ?n \<and> ?n \<le> 126)"
    by blast
  then show ?thesis
  proof cases
    case 1
    then show ?thesis by (auto simp: escape_char_def)
  next
    case plain
    then show ?thesis by (auto simp: escape_char_def)
  next
    case hex
    have "?n div 16 < 16" by (rule less_mult_imp_div_less) (simp add: of_char_256)
    moreover have "16 * (?n div 16) + ?n mod 16 = ?n" by simp
    moreover have "hex_val CHR ''0'' = Some 0" by (simp add: hex_val_def Let_def)
    ultimately show ?thesis using hex by (simp add: escape_char_def hex_val_lower Let_def)
  qed
qed

lemma parse_body_text: "parse_body (concat (map escape_char s) @ CHR 0x22 # rest) = Some (s, rest)"
  by (induction s) (simp_all add: parse_body_escape)

section \<open>Values read back\<close>

text \<open>JSON values: no opaque objects, and no dictionary with a duplicate key.\<close>

fun json_value :: "pyval \<Rightarrow> bool" where
  "json_value (PList xs) = list_all json_value xs"
| "json_value (PDict d) = (distinct (map fst d) \<and> list_all (\<lambda>kv. json_value (snd kv)) d)"
| "json_value (PObj _) = False"
| "json_value _ = True"

lemma skip_simps [simp]:
  "skip [] = []" "skip (CHR '' '' # s) = skip s" "\<not> is_space c \<Longrightarrow> skip (c # s) = c # s"
  by (simp_all add: skip_def is_space_def)

lemma parse_space [simp]: "parse n (CHR '' '' # s) = parse n s"
  by (cases n) simp_all

lemma parse_items_space [simp]: "parse_items n (CHR '' '' # s) = parse_items n s"
  by (cases n) simp_all

lemma parse_members_space [simp]: "parse_members n (CHR '' '' # s) = parse_members n s"
  by (cases n) simp_all

lemma stops_simps [simp]:
  "stops []" "stops (CHR '','' # s)" "stops (CHR '']'' # s)" "stops (CHR ''}'' # s)"
  by (simp_all add: stops_def is_digit_def)

lemma spaces [simp]:
  "\<not> is_space CHR 0x22" "\<not> is_space CHR ''[''" "\<not> is_space CHR ''{''" "\<not> is_space CHR '']''"
  "\<not> is_space CHR ''}''" "\<not> is_space CHR '',''" "\<not> is_space CHR '':''" "\<not> is_space CHR ''n''"
  "\<not> is_space CHR ''t''" "\<not> is_space CHR ''f''" "\<not> is_space CHR ''-''"
  by (simp_all add: is_space_def)

lemma digit_start:
  "is_digit c \<Longrightarrow> \<not> is_space c \<and> c \<notin> {CHR 0x22, CHR ''['', CHR ''{'', CHR '']'', CHR ''n'', CHR ''t'', CHR ''f''}"
  by (auto simp: is_digit_def is_space_def)

lemma int_text_start:
  obtains c t where "int_text i = c # t" "is_digit c \<or> c = CHR ''-''"
proof -
  obtain c t where "nat_text (nat i) = c # t" by (cases "nat_text (nat i)") auto
  with nat_text_digits [of c "nat i"] that show ?thesis by (cases "i < 0") (auto simp: int_text_def)
qed

lemma dumps_start:
  assumes "json_value v"
  obtains c t where "dumps enc v = c # t" "\<not> is_space c" "c \<noteq> CHR '']''"
proof (cases v)
  case (PInt i)
  obtain c t where "int_text i = c # t" "is_digit c \<or> c = CHR ''-''" by (rule int_text_start)
  with PInt digit_start that show ?thesis by fastforce
next
  case (PBool b)
  with that show ?thesis by (cases b) auto
qed (use assms that in \<open>auto simp: string_text_def\<close>)

lemma parse_int_value:
  assumes "stops rest"
  shows "parse (Suc n) (int_text i @ rest) = Some (PInt i, rest)"
proof -
  obtain c t where c: "int_text i = c # t" "is_digit c \<or> c = CHR ''-''" by (rule int_text_start)
  then have "\<not> is_space c \<and> c \<notin> {CHR 0x22, CHR ''['', CHR ''{'', CHR '']'', CHR ''n'', CHR ''t'', CHR ''f''}"
    using digit_start by fastforce
  with c parse_int_text [OF assms, of i] show ?thesis by simp
qed

lemma parse_items_join:
  assumes "\<And>x m r. x \<in> set xs \<Longrightarrow> length (dumps enc x) \<le> m \<Longrightarrow> stops r \<Longrightarrow>
      parse m (dumps enc x @ r) = Some (x, r)"
    and "xs \<noteq> []" "length (join '', '' (map (dumps enc) xs)) < n"
  shows "parse_items n (join '', '' (map (dumps enc) xs) @ CHR '']'' # rest) = Some (xs, rest)"
  using assms
proof (induction xs arbitrary: n)
  case (Cons x xs)
  then obtain m where n: "n = Suc m" by (cases n) auto
  show ?case
  proof (cases xs)
    case Nil
    with Cons.prems n show ?thesis by simp
  next
    case (Cons y ys)
    have len: "length (dumps enc x) + 2 + length (join '', '' (map (dumps enc) xs)) \<le> m"
      using Cons.prems(3) Cons n by simp
    have "parse m (dumps enc x @ CHR '','' # CHR '' '' # join '', '' (map (dumps enc) xs) @ CHR '']'' # rest) =
        Some (x, CHR '','' # CHR '' '' # join '', '' (map (dumps enc) xs) @ CHR '']'' # rest)"
      using Cons.prems(1) len by simp
    moreover have "parse_items m (join '', '' (map (dumps enc) xs) @ CHR '']'' # rest) = Some (xs, rest)"
      by (rule Cons.IH) (use Cons.prems(1) Cons len in auto)
    ultimately show ?thesis using Cons n by simp
  qed
qed simp

definition member_text :: "(nat \<Rightarrow> string) \<Rightarrow> string \<times> pyval \<Rightarrow> string" where
  "member_text enc kv = string_text (fst kv) @ '': '' @ dumps enc (snd kv)"

lemma parse_members_join:
  assumes "\<And>kv m r. kv \<in> set d \<Longrightarrow> length (dumps enc (snd kv)) \<le> m \<Longrightarrow> stops r \<Longrightarrow>
      parse m (dumps enc (snd kv) @ r) = Some (snd kv, r)"
    and "d \<noteq> []" "length (join '', '' (map (member_text enc) d)) < n"
  shows "parse_members n (join '', '' (map (member_text enc) d) @ CHR ''}'' # rest) = Some (d, rest)"
  using assms
proof (induction d arbitrary: n)
  case (Cons kv d)
  then obtain m where n: "n = Suc m" by (cases n) auto
  show ?case
  proof (cases d)
    case Nil
    with Cons.prems n show ?thesis by (simp add: member_text_def string_text_def parse_body_text)
  next
    case (Cons kv' d')
    have len: "length (dumps enc (snd kv)) + 2 + length (join '', '' (map (member_text enc) d)) \<le> m"
      using Cons.prems(3) Cons n by (simp add: member_text_def [of _ kv] string_text_def)
    have "parse m (dumps enc (snd kv) @ CHR '','' # CHR '' '' # join '', '' (map (member_text enc) d) @ CHR ''}'' # rest) =
        Some (snd kv, CHR '','' # CHR '' '' # join '', '' (map (member_text enc) d) @ CHR ''}'' # rest)"
      using Cons.prems(1) len by simp
    moreover have "parse_members m (join '', '' (map (member_text enc) d) @ CHR ''}'' # rest) = Some (d, rest)"
      by (rule Cons.IH) (use Cons.prems(1) Cons len in auto)
    ultimately show ?thesis
      using Cons n by (simp add: member_text_def [of _ kv] string_text_def parse_body_text)
  qed
qed simp

lemma mk_dict_self: "distinct (map fst d) \<Longrightarrow> mk_dict d = d"
proof -
  have app: "distinct (map fst (a @ d)) \<Longrightarrow> dict_merge a d = a @ d" for a
  proof (induction d arbitrary: a)
    case (Cons kv d)
    have upd: "fst kv \<notin> fst ` set a \<Longrightarrow> AList.update (fst kv) (snd kv) a = a @ [kv]" for a
      by (induction a) auto
    from Cons.prems have "fst kv \<notin> fst ` set a" by auto
    with Cons.IH [of "a @ [kv]"] Cons.prems upd show ?case by simp
  qed simp
  then show "distinct (map fst d) \<Longrightarrow> mk_dict d = d" using app [of "[]"] by (simp add: mk_dict_def)
qed

lemma parse_dumps:
  "json_value v \<Longrightarrow> length (dumps enc v) \<le> n \<Longrightarrow> stops rest \<Longrightarrow>
     parse n (dumps enc v @ rest) = Some (v, rest)"
proof (induction v arbitrary: n rest rule: measure_induct_rule [where f = size])
  case (less v)
  obtain c t where ct: "dumps enc v = c # t" "\<not> is_space c" by (rule dumps_start [OF less.prems(1)])
  with less.prems(2) obtain m where n: "n = Suc m" by (cases n) auto
  show ?case
  proof (cases v)
    case (PInt i)
    with n less.prems(3) parse_int_value show ?thesis by simp
  next
    case (PStr s)
    with n show ?thesis by (simp add: string_text_def parse_body_text)
  next
    case (PList xs)
    have IH: "parse m (dumps enc x @ r) = Some (x, r)"
      if "x \<in> set xs" "length (dumps enc x) \<le> m" "stops r" for x m r
      using less.IH [of x m r] less.prems(1) that PList by (auto simp: list_all_iff simp del: pyval.size)
    show ?thesis
    proof (cases xs)
      case Nil
      with PList n show ?thesis by simp
    next
      case (Cons x ys)
      obtain c t where "dumps enc x = c # t" "\<not> is_space c" "c \<noteq> CHR '']''"
        using dumps_start [of x] less.prems(1) PList Cons by auto
      moreover have "join '', '' (map (dumps enc) xs) = dumps enc x @ drop (length (dumps enc x)) (join '', '' (map (dumps enc) xs))"
        using Cons by (cases ys) simp_all
      ultimately obtain u where u: "join '', '' (map (dumps enc) xs) = c # u" "\<not> is_space c" "c \<noteq> CHR '']''"
        by (metis append_Cons)
      have "parse_items m (join '', '' (map (dumps enc) xs) @ CHR '']'' # rest) = Some (xs, rest)"
        by (rule parse_items_join [OF IH]) (use less.prems(2) n PList Cons in auto)
      with u n PList show ?thesis by simp
    qed
  next
    case (PDict d)
    have IH: "parse m (dumps enc (snd kv) @ r) = Some (snd kv, r)"
      if "kv \<in> set d" "length (dumps enc (snd kv)) \<le> m" "stops r" for kv m r
      using less.IH [of "snd kv" m r] less.prems(1) that PDict by (auto simp: list_all_iff simp del: pyval.size)
    have obj: "dumps enc v = CHR ''{'' # join '', '' (map (member_text enc) d) @ ''}''"
      using PDict by (simp add: member_text_def [abs_def])
    show ?thesis
    proof (cases d)
      case Nil
      with PDict n show ?thesis by simp
    next
      case (Cons kv ds)
      obtain u where u: "join '', '' (map (member_text enc) d) = CHR 0x22 # u"
        using Cons by (cases ds) (simp_all add: member_text_def string_text_def)
      have "parse_members m (join '', '' (map (member_text enc) d) @ CHR ''}'' # rest) = Some (d, rest)"
        by (rule parse_members_join [OF IH]) (use less.prems(2) n obj Cons in auto)
      with u n obj PDict less.prems(1) show ?thesis by (simp add: mk_dict_self)
    qed
  qed (use n less.prems(1) in \<open>auto simp: literal_def\<close>)
qed

text \<open>
  JSON text reads back as the value it was written from, and the decoder never runs out of fuel
  on such text.
\<close>

theorem loads_dumps:
  "json_value v \<Longrightarrow> loads (dumps enc v) = Some v"
  using parse_dumps [of v enc "Suc (length (dumps enc v))" "[]"] by (simp add: loads_def)

end
