(* ===== verification/Table_Json.thy ===== *)
theory Table_Json
  imports Json
begin

text \<open>
  The versioned JSON properties of a table entity, \<^verbatim>\<open>stores/_table_json.py\<close>. An entity is a
  dictionary of properties. A text longer than one property is cut into numbered chunks. Every
  character of the model takes two bytes in UTF-16.
\<close>

datatype tprop =
    TNone
  | TStr string
  | TBytes "nat list"
  | TBool bool
  | TInt int
  | TTime int
  | TOther nat

type_synonym entity = "tprop dict"

definition property_bytes :: nat where "property_bytes = 64 * 1024"
definition entity_bytes :: nat where "entity_bytes = 1024 * 1024"
definition chunk_characters :: nat where "chunk_characters = property_bytes div 2"

definition utf16_size :: "string \<Rightarrow> nat" where
  "utf16_size s = 2 * length s"

text \<open>\<open>[encoded[i:i+w] for i in range(0, len(encoded), w)]\<close>.\<close>

function chunks_of :: "nat \<Rightarrow> string \<Rightarrow> string list" where
  "chunks_of w s = (if s = [] \<or> w = 0 then [] else take w s # chunks_of w (drop w s))"
  by auto
termination by (relation "measure (\<lambda>(w, s). length s)") auto

declare chunks_of.simps [simp del]

definition belongs_to :: "string \<Rightarrow> string \<Rightarrow> bool" where
  "belongs_to field key \<longleftrightarrow> key = field \<or> take (Suc (length field)) key = field @ ''_''"

definition chunk_key :: "string \<Rightarrow> nat \<Rightarrow> string" where
  "chunk_key field i = field @ ''_'' @ nat_text i"

fun put_chunks :: "string \<Rightarrow> nat \<Rightarrow> string list \<Rightarrow> entity \<Rightarrow> entity" where
  "put_chunks field i [] e = e"
| "put_chunks field i (c # cs) e = put_chunks field (Suc i) cs (AList.update (chunk_key field i) (TStr c) e)"

definition drop_field :: "string \<Rightarrow> entity \<Rightarrow> entity" where
  "drop_field field e = filter (\<lambda>kv. \<not> belongs_to field (fst kv)) e"

definition write_json :: "(nat \<Rightarrow> string) \<Rightarrow> string \<Rightarrow> pyval \<Rightarrow> entity \<Rightarrow> entity" where
  "write_json enc field value e =
     (let encoded = dumps enc value;
          e1 = drop_field field e
      in if utf16_size encoded \<le> property_bytes then AList.update field (TStr encoded) e1
         else
           let cs = chunks_of chunk_characters encoded
           in put_chunks field 0 cs
                (AList.update (field @ ''_count'') (TInt (int (length cs)))
                  (AList.update (field @ ''_format'') (TStr ''utf16-v1'') e1)))"

text \<open>
  \<open>read_json\<close> and its errors: an unknown format, a missing or bad chunk count, a missing chunk,
  a chunk that is no string, a text that is no JSON. A \<open>bool\<close> is an \<open>int\<close> in Python, so a
  count of \<open>True\<close> is one chunk. \<open>json.loads\<close> of bytes is left out (\<open>BadText\<close>).
\<close>

datatype read_error =
    UnsupportedFormat string
  | MissingKey string
  | BadCount string
  | NotText string
  | BadText string

definition count_of :: "tprop \<Rightarrow> int option" where
  "count_of p = (case p of TInt i \<Rightarrow> Some i | TBool b \<Rightarrow> Some (if b then 1 else 0) | _ \<Rightarrow> None)"

fun join_chunks :: "string \<Rightarrow> nat \<Rightarrow> nat \<Rightarrow> entity \<Rightarrow> read_error + string" where
  "join_chunks field i 0 e = Inr []"
| "join_chunks field i (Suc n) e =
     (case map_of e (chunk_key field i) of
        None \<Rightarrow> Inl (MissingKey (chunk_key field i))
      | Some (TStr c) \<Rightarrow> bind_res (join_chunks field (Suc i) n e) (\<lambda>r. Inr (c @ r))
      | Some _ \<Rightarrow> bind_res (join_chunks field (Suc i) n e) (\<lambda>r. Inl (NotText field)))"

definition load_text :: "string \<Rightarrow> string \<Rightarrow> read_error + pyval" where
  "load_text field s = (case loads s of None \<Rightarrow> Inl (BadText field) | Some v \<Rightarrow> Inr v)"

definition read_json :: "entity \<Rightarrow> string \<Rightarrow> pyval \<Rightarrow> read_error + pyval" where
  "read_json e field dflt =
     (case map_of e (field @ ''_format'') of
        Some fmt \<Rightarrow>
          (if fmt \<noteq> TStr ''utf16-v1'' then Inl (UnsupportedFormat field)
           else case map_of e (field @ ''_count'') of
               None \<Rightarrow> Inl (MissingKey (field @ ''_count''))
             | Some p \<Rightarrow>
                 (case count_of p of
                    None \<Rightarrow> Inl (BadCount field)
                  | Some n \<Rightarrow>
                      (if 1 \<le> n \<and> n \<le> 252
                       then bind_res (join_chunks field 0 (nat n) e) (load_text field)
                       else Inl (BadCount field))))
      | None \<Rightarrow>
          (case map_of e field of
             None \<Rightarrow> Inr dflt
           | Some TNone \<Rightarrow> Inr dflt
           | Some (TStr s) \<Rightarrow> load_text field s
           | Some (TBytes _) \<Rightarrow> Inl (BadText field)
           | Some _ \<Rightarrow> Inl (NotText field)))"

section \<open>Capacity\<close>

datatype limit_error =
    StringTooLong nat
  | BinaryTooLong nat
  | TooManyProperties nat
  | EntityTooLarge nat
  | UnsupportedType nat

definition counted :: "string \<times> tprop \<Rightarrow> bool" where
  "counted kv \<longleftrightarrow> fst kv \<notin> {''etag'', ''Timestamp''} \<and> snd kv \<noteq> TNone"

definition value_size :: "tprop \<Rightarrow> limit_error + nat" where
  "value_size p =
     (case p of
        TNone \<Rightarrow> Inr 0
      | TStr s \<Rightarrow> (if utf16_size s > property_bytes then Inl (StringTooLong (utf16_size s)) else Inr (utf16_size s))
      | TBytes b \<Rightarrow> (if length b > property_bytes then Inl (BinaryTooLong (length b)) else Inr (length b))
      | TBool _ \<Rightarrow> Inr 16
      | TInt _ \<Rightarrow> Inr 16
      | TTime _ \<Rightarrow> Inr 16
      | TOther t \<Rightarrow> Inl (UnsupportedType t))"

fun measure_entity :: "entity \<Rightarrow> nat \<Rightarrow> nat \<Rightarrow> limit_error + (nat \<times> nat)" where
  "measure_entity [] bytes properties = Inr (bytes, properties)"
| "measure_entity (kv # e) bytes properties =
     (if \<not> counted kv then measure_entity e bytes properties
      else bind_res (value_size (snd kv))
        (\<lambda>n. measure_entity e (bytes + utf16_size (fst kv) + 32 + n) (Suc properties)))"

definition validate_entity :: "entity \<Rightarrow> limit_error + unit" where
  "validate_entity e =
     bind_res (measure_entity e 4096 1)
       (\<lambda>(bytes, properties).
          if properties > 255 then Inl (TooManyProperties properties)
          else if bytes > entity_bytes then Inl (EntityTooLarge bytes)
          else Inr ())"

section \<open>Chunks\<close>

lemma concat_chunks: "0 < w \<Longrightarrow> concat (chunks_of w s) = s"
  by (induction w s rule: chunks_of.induct) (subst chunks_of.simps, simp)

lemma chunks_bound: "c \<in> set (chunks_of w s) \<Longrightarrow> length c \<le> w"
  by (induction w s rule: chunks_of.induct) (subst (asm) (2) chunks_of.simps, auto split: if_splits)

lemma nat_text_inj: "nat_text m = nat_text n \<longleftrightarrow> m = n"
  by (metis digits_value_text)

lemma chunk_key_inj [simp]: "chunk_key field i = chunk_key field j \<longleftrightarrow> i = j"
  by (simp add: chunk_key_def nat_text_inj)

lemma digits_not_word: "c \<in> set w \<Longrightarrow> \<not> is_digit c \<Longrightarrow> nat_text i \<noteq> w"
  using nat_text_digits by metis

lemma chunk_key_other [simp]:
  "chunk_key field i \<noteq> field @ ''_count''" "chunk_key field i \<noteq> field @ ''_format''"
  "chunk_key field i \<noteq> field"
  using digits_not_word [of "CHR ''c''" "''count''" i] digits_not_word [of "CHR ''f''" "''format''" i]
  by (simp_all add: chunk_key_def is_digit_def)

lemmas chunk_key_other' [simp] = chunk_key_other [symmetric]

lemma belongs_simps [simp]:
  "belongs_to field field" "belongs_to field (chunk_key field i)"
  "belongs_to field (field @ CHR ''_'' # w)"
  by (simp_all add: belongs_to_def chunk_key_def)

lemma put_chunks_lookup:
  "(\<And>j. i \<le> j \<Longrightarrow> k \<noteq> chunk_key field j) \<Longrightarrow> map_of (put_chunks field i cs e) k = map_of e k"
  by (induction cs arbitrary: i e) auto

lemma join_put_chunks:
  "join_chunks field i (length cs) (put_chunks field i cs e) = Inr (concat cs)"
  by (induction cs arbitrary: i e) (simp_all add: put_chunks_lookup)

lemma dict_ok_put_chunks [simp]: "dict_ok e \<Longrightarrow> dict_ok (put_chunks field i cs e)"
  by (induction cs arbitrary: i e) auto

lemma dict_ok_filter: "dict_ok e \<Longrightarrow> dict_ok (filter P e)"
  unfolding dict_ok_def by (rule distinct_map_filter)

lemma write_json_dict_ok [simp]: "dict_ok e \<Longrightarrow> dict_ok (write_json enc field v e)"
  by (simp add: write_json_def Let_def dict_ok_filter drop_field_def)

lemma map_of_drop_field [simp]:
  "map_of (drop_field field e) k = (if belongs_to field k then None else map_of e k)"
  by (induction e) (auto simp: drop_field_def)

text \<open>Writing a field leaves every other property alone.\<close>

lemma write_json_other:
  assumes "\<not> belongs_to field k"
  shows "map_of (write_json enc field v e) k = map_of e k"
proof -
  have "k \<noteq> field" "k \<noteq> chunk_key field j" "k \<noteq> field @ CHR ''_'' # w" for j w
    using assms by auto
  then show ?thesis
    using assms by (simp add: write_json_def Let_def put_chunks_lookup)
qed

text \<open>What was written is read back, unless it needs more chunks than the reader accepts.\<close>

lemma read_write_json:
  assumes "json_value v"
  shows "read_json (write_json enc field v e) field dflt =
    (if utf16_size (dumps enc v) \<le> property_bytes \<or> length (chunks_of chunk_characters (dumps enc v)) \<le> 252
     then Inr v else Inl (BadCount field))"
proof -
  have loads: "load_text field (dumps enc v) = Inr v"
    using assms by (simp add: load_text_def loads_dumps)
  have w: "0 < chunk_characters" by (simp add: chunk_characters_def property_bytes_def)
  have ne: "\<not> utf16_size (dumps enc v) \<le> property_bytes \<Longrightarrow> chunks_of chunk_characters (dumps enc v) \<noteq> []"
    using concat_chunks [OF w, of "dumps enc v"] by (auto simp: utf16_size_def property_bytes_def)
  then show ?thesis
    by (auto simp: read_json_def write_json_def Let_def put_chunks_lookup count_of_def join_put_chunks
        concat_chunks [OF w] loads Suc_le_eq)
qed

section \<open>What the capacity check guarantees\<close>

definition entity_size :: "entity \<Rightarrow> nat" where
  "entity_size e = sum_list (map (\<lambda>kv. utf16_size (fst kv) + 32 +
     (case value_size (snd kv) of Inr n \<Rightarrow> n | Inl _ \<Rightarrow> 0)) (filter counted e))"

definition sized :: "entity \<Rightarrow> bool" where
  "sized e \<longleftrightarrow> (\<forall>kv\<in>set e. counted kv \<longrightarrow> \<not> isl (value_size (snd kv)))"

lemma measure_entity_sized:
  "sized e \<Longrightarrow> measure_entity e b p = Inr (b + entity_size e, p + length (filter counted e))"
proof (induction e arbitrary: b p)
  case (Cons kv e)
  then show ?case by (cases "value_size (snd kv)") (auto simp: entity_size_def sized_def)
qed (simp add: entity_size_def)

lemma measure_entity_unsized: "\<not> sized e \<Longrightarrow> isl (measure_entity e b p)"
proof (induction e arbitrary: b p)
  case (Cons kv e)
  then show ?case by (cases "value_size (snd kv)") (auto simp: sized_def)
qed (simp add: sized_def)

lemma validate_entity_iff:
  "validate_entity e = Inr () \<longleftrightarrow>
     sized e \<and> length (filter counted e) \<le> 254 \<and> entity_size e + 4096 \<le> entity_bytes"
proof (cases "sized e")
  case True
  then show ?thesis by (simp add: validate_entity_def measure_entity_sized)
next
  case False
  then obtain x where "measure_entity e 4096 1 = Inl x"
    using measure_entity_unsized [of e 4096 1] by (cases "measure_entity e 4096 1") auto
  with False show ?thesis by (simp add: validate_entity_def)
qed

lemma put_chunks_value:
  "k \<in> chunk_key field ` {i..<i + length cs} \<Longrightarrow> \<exists>c. map_of (put_chunks field i cs e) k = Some (TStr c)"
proof (induction cs arbitrary: i e)
  case (Cons c cs)
  show ?case
  proof (cases "k = chunk_key field i")
    case True
    then show ?thesis by (simp add: put_chunks_lookup)
  next
    case False
    with Cons.prems have "k \<in> chunk_key field ` {Suc i..<Suc i + length cs}"
      by (force simp: Suc_le_eq order_less_le)
    with Cons.IH show ?thesis by simp
  qed
qed simp

lemma counted_filter_card:
  assumes "dict_ok e" "\<And>k. k \<in> K \<Longrightarrow> CHR ''_'' \<in> set k \<and> (\<exists>p. map_of e k = Some p \<and> p \<noteq> TNone)"
  shows "card K \<le> length (filter counted e)"
proof -
  have "K \<subseteq> fst ` set (filter counted e)"
  proof
    fix k assume "k \<in> K"
    with assms(2) obtain p where p: "CHR ''_'' \<in> set k" "map_of e k = Some p" "p \<noteq> TNone" by blast
    then have "(k, p) \<in> set (filter counted e)" by (auto simp: counted_def dest: map_of_SomeD)
    then show "k \<in> fst ` set (filter counted e)" by force
  qed
  then have "card K \<le> card (fst ` set (filter counted e))" by (intro card_mono) auto
  also have "\<dots> \<le> length (filter counted e)"
    by (metis card_length length_map set_map)
  finally show ?thesis .
qed

text \<open>Only the field's own properties matter for reading it.\<close>

lemma join_chunks_cong:
  "(\<And>k. belongs_to field k \<Longrightarrow> map_of e k = map_of e' k) \<Longrightarrow> join_chunks field i n e = join_chunks field i n e'"
  by (induction n arbitrary: i) (simp_all split: option.split tprop.split)

lemma read_json_cong:
  assumes "\<And>k. belongs_to field k \<Longrightarrow> map_of e k = map_of e' k"
  shows "read_json e field dflt = read_json e' field dflt"
proof -
  have keys: "map_of e field = map_of e' field" "map_of e (field @ ''_format'') = map_of e' (field @ ''_format'')"
    "map_of e (field @ ''_count'') = map_of e' (field @ ''_count'')"
    using assms by simp_all
  have chunks: "join_chunks field i n e = join_chunks field i n e'" for i n
    using assms by (rule join_chunks_cong)
  show ?thesis unfolding read_json_def keys chunks ..
qed

text \<open>
  An entity that holds what a write of the field left there, and that passed the capacity check,
  holds no more chunks than the reader accepts.
\<close>

lemma written_readable:
  assumes "dict_ok E" "json_value v" "validate_entity E = Inr ()"
    and E: "\<And>k. belongs_to field k \<Longrightarrow> map_of E k = map_of (write_json enc field v e) k"
  shows "read_json E field dflt = Inr v"
proof -
  have "length (chunks_of chunk_characters (dumps enc v)) \<le> 252" if big: "\<not> utf16_size (dumps enc v) \<le> property_bytes"
  proof -
    let ?cs = "chunks_of chunk_characters (dumps enc v)"
    let ?e = "write_json enc field v e"
    let ?C = "chunk_key field ` {0..<0 + length ?cs}"
    let ?K = "insert (field @ ''_format'') (insert (field @ ''_count'') ?C)"
    have "card ?C = length ?cs" by (simp add: card_image inj_on_def)
    moreover have "field @ ''_count'' \<notin> ?C" "field @ ''_format'' \<notin> insert (field @ ''_count'') ?C" by auto
    ultimately have "card ?K = length ?cs + 2" by simp
    moreover have "card ?K \<le> length (filter counted E)"
    proof (rule counted_filter_card)
      fix k assume "k \<in> ?K"
      then consider "k = field @ ''_format''" | "k = field @ ''_count''" | "k \<in> ?C" by blast
      then show "CHR ''_'' \<in> set k \<and> (\<exists>p. map_of E k = Some p \<and> p \<noteq> TNone)"
      proof cases
        case 3
        then obtain c where "map_of ?e k = Some (TStr c)"
          using big put_chunks_value [of k field 0 ?cs] by (auto simp: write_json_def Let_def)
        with 3 E show ?thesis by (auto simp: chunk_key_def)
      qed (use big E in \<open>simp_all add: write_json_def Let_def put_chunks_lookup\<close>)
    qed (use assms in simp)
    ultimately show ?thesis
      using assms(3) by (simp add: validate_entity_iff)
  qed
  then have "read_json (write_json enc field v e) field dflt = Inr v"
    using read_write_json [OF assms(2)] by auto
  with read_json_cong [OF E] show ?thesis by simp
qed

text \<open>
  C22: An entity that passes the capacity check after a field was written is readable: the field
  reads back as the written value, whatever the entity held before (older, longer chunks of the
  field included), and every property that is not the field's keeps its value.
\<close>

theorem validated_write_readable:
  assumes "dict_ok e" "json_value v" "validate_entity (write_json enc field v e) = Inr ()"
  shows "read_json (write_json enc field v e) field dflt = Inr v \<and>
    (if belongs_to field k then True else map_of (write_json enc field v e) k = map_of e k)"
  using written_readable [OF _ assms(2,3)] assms(1) write_json_other by simp

lemma validated_write_readable_witness:
  "read_json (write_json (\<lambda>_. []) ''f'' (PList [PNone]) [(''f_format'', TStr ''utf16-v1''), (''f_0'', TStr ''x'')]) ''f'' PNone
     = Inr (PList [PNone])"
  by (rule conjunct1 [OF validated_write_readable])
    (simp_all add: dict_ok_def validate_entity_def write_json_def drop_field_def belongs_to_def
      utf16_size_def property_bytes_def entity_bytes_def counted_def value_size_def)

end
