(* ===== verification/Table_Store.thy ===== *)
theory Table_Store
  imports Table_Json Thread_Store "HOL-Library.Sublist"
begin

text \<open>
  The thread store on Azure Table Storage, \<^verbatim>\<open>stores/azure_table.py\<close>. The table service, the
  clock and the generator of ids and tokens are a parameter \<open>sv\<close>: operations on a world. Times
  are microseconds in UTC, so \<open>_normalize_datetime\<close> is the identity on them. The size warning
  only logs and is left out.
\<close>

section \<open>The service\<close>

datatype client_error = NotFound | Modified | OtherFailure nat

text \<open>
  A row as the SDK returns it: its properties, and what \<open>entity.metadata\<close> says of the ETag
  (\<open>None\<close>: no such mapping). \<open>TNone\<close> stands for Python's \<open>None\<close>.
\<close>

type_synonym row = "entity \<times> tprop option"

datatype update_mode = MergeMode | ReplaceMode

record 'w table_service =
  tb_get :: "string \<Rightarrow> 'w \<Rightarrow> (client_error + row) \<times> 'w"
  tb_update :: "string \<Rightarrow> entity \<Rightarrow> update_mode \<Rightarrow> tprop \<Rightarrow> 'w \<Rightarrow> client_error option \<times> 'w"
  tb_create :: "entity \<Rightarrow> 'w \<Rightarrow> client_error option \<times> 'w"
  tb_delete :: "string \<Rightarrow> 'w \<Rightarrow> client_error option \<times> 'w"
  tb_query :: "string \<Rightarrow> 'w \<Rightarrow> (client_error + row list) \<times> 'w"
  tb_now :: "'w \<Rightarrow> int \<times> 'w"
  tb_uuid :: "'w \<Rightarrow> string \<times> 'w"

definition entity_get :: "entity \<Rightarrow> string \<Rightarrow> tprop" where
  "entity_get e k = (case map_of e k of None \<Rightarrow> TNone | Some p \<Rightarrow> p)"

section \<open>Threads as entities\<close>

datatype table_error =
    TKeyError string
  | TBound string
  | TReleaseToBusy
  | TLimit limit_error
  | TRead read_error
  | TInvalid string
  | TModified
  | TFailure nat
  | RunLockReleaseError string
  | TValueError string

definition partition_key :: string where "partition_key = ''thread''"

definition status_of :: "tprop \<Rightarrow> thread_status option" where
  "status_of p = (case p of TStr s \<Rightarrow> map_of (map (\<lambda>x. (status_text x, x)) [SIdle, SBusy, SInterrupted, SError]) s | _ \<Rightarrow> None)"

definition thread_to_entity :: "(nat \<Rightarrow> string) \<Rightarrow> thread \<Rightarrow> entity" where
  "thread_to_entity enc t =
     (let e0 = [(''PartitionKey'', TStr partition_key), (''RowKey'', TStr (th_id t)),
                (''created_at'', TTime (th_created t)), (''updated_at'', TTime (th_updated t)),
                (''status'', TStr (status_text (th_status t)))];
          e1 = write_json enc ''interrupts_json'' (PDict (th_interrupts t)) e0;
          e2 = (case th_metadata t of None \<Rightarrow> e1 | Some m \<Rightarrow> write_json enc ''metadata_json'' (PDict m) e1);
          e3 = (case th_values t of None \<Rightarrow> e2 | Some v \<Rightarrow> write_json enc ''values_json'' (PDict v) e2)
      in (case th_assistant t of None \<Rightarrow> e3 | Some a \<Rightarrow> AList.update ''assistant_id'' (TStr a) e3))"

text \<open>
  \<open>Thread.model_validate\<close> on the fields read: each must have the type the record declares.
\<close>

definition opt_dict :: "string \<Rightarrow> pyval \<Rightarrow> table_error + pyval dict option" where
  "opt_dict field v = (case v of PNone \<Rightarrow> Inr None | PDict d \<Rightarrow> Inr (Some d) | _ \<Rightarrow> Inl (TInvalid field))"

definition opt_str :: "string \<Rightarrow> tprop \<Rightarrow> table_error + string option" where
  "opt_str field p = (case p of TNone \<Rightarrow> Inr None | TStr s \<Rightarrow> Inr (Some s) | _ \<Rightarrow> Inl (TInvalid field))"

definition opt_time :: "string \<Rightarrow> tprop \<Rightarrow> table_error + int option" where
  "opt_time field p = (case p of TNone \<Rightarrow> Inr None | TTime i \<Rightarrow> Inr (Some i) | _ \<Rightarrow> Inl (TInvalid field))"

definition req_time :: "string \<Rightarrow> entity \<Rightarrow> table_error + int" where
  "req_time field e = (case map_of e field of Some (TTime i) \<Rightarrow> Inr i | Some _ \<Rightarrow> Inl (TInvalid field)
     | None \<Rightarrow> Inl (TRead (MissingKey field)))"

definition read_field :: "entity \<Rightarrow> string \<Rightarrow> pyval \<Rightarrow> table_error + pyval" where
  "read_field e field dflt = (case read_json e field dflt of Inl x \<Rightarrow> Inl (TRead x) | Inr v \<Rightarrow> Inr v)"

definition entity_to_thread :: "entity \<Rightarrow> table_error + thread" where
  "entity_to_thread e =
     bind_res (read_field e ''metadata_json'' PNone) (\<lambda>metadata.
     bind_res (read_field e ''values_json'' PNone) (\<lambda>values.
     bind_res (read_field e ''interrupts_json'' (PDict [])) (\<lambda>interrupts.
     bind_res (case map_of e ''RowKey'' of Some (TStr s) \<Rightarrow> Inr s | Some _ \<Rightarrow> Inl (TInvalid ''thread_id'')
         | None \<Rightarrow> Inl (TRead (MissingKey ''RowKey''))) (\<lambda>tid.
     bind_res (req_time ''created_at'' e) (\<lambda>created.
     bind_res (req_time ''updated_at'' e) (\<lambda>updated.
     bind_res (opt_dict ''metadata'' metadata) (\<lambda>metadata.
     bind_res (case map_of e ''status'' of None \<Rightarrow> Inr SIdle
         | Some p \<Rightarrow> (case status_of p of None \<Rightarrow> Inl (TInvalid ''status'') | Some s \<Rightarrow> Inr s)) (\<lambda>status.
     bind_res (opt_dict ''values'' values) (\<lambda>values.
     bind_res (opt_str ''assistant_id'' (entity_get e ''assistant_id'')) (\<lambda>assistant.
     bind_res (case interrupts of PDict d \<Rightarrow> Inr d | _ \<Rightarrow> Inl (TInvalid ''interrupts'')) (\<lambda>interrupts.
     bind_res (opt_str ''lock_token'' (entity_get e ''lock_token'')) (\<lambda>tok.
     bind_res (opt_time ''lock_expires_at'' (entity_get e ''lock_expires_at'')) (\<lambda>expires.
       Inr \<lparr>th_id = tid, th_created = created, th_updated = updated, th_metadata = metadata,
            th_status = status, th_values = values, th_assistant = assistant,
            th_interrupts = interrupts, th_token = tok, th_expires = expires\<rparr>)))))))))))))"

section \<open>Create, get, delete, update\<close>

definition check_entity :: "entity \<Rightarrow> table_error + unit" where
  "check_entity e = (case validate_entity e of Inl x \<Rightarrow> Inl (TLimit x) | Inr u \<Rightarrow> Inr u)"

fun client_failure :: "client_error \<Rightarrow> table_error" where
  "client_failure (OtherFailure n) = TFailure n"
| "client_failure Modified = TModified"
| "client_failure NotFound = TFailure 404"

text \<open>\<open>except not_found_error: raise KeyError(thread_id)\<close>.\<close>

definition key_failure :: "string \<Rightarrow> client_error \<Rightarrow> table_error" where
  "key_failure tid x = (if x = NotFound then TKeyError tid else client_failure x)"

definition table_create ::
    "'w table_service \<Rightarrow> (nat \<Rightarrow> string) \<Rightarrow> pyval dict option \<Rightarrow> 'w \<Rightarrow> (table_error + thread) \<times> 'w" where
  "table_create sv enc metadata w =
     (let (tid, w1) = tb_uuid sv w;
          (now, w2) = tb_now sv w1;
          e = thread_to_entity enc (new_thread tid now metadata)
      in case check_entity e of
          Inl x \<Rightarrow> (Inl x, w2)
        | Inr _ \<Rightarrow>
            (case tb_create sv e w2 of
               (Some x, w3) \<Rightarrow> (Inl (client_failure x), w3)
             | (None, w3) \<Rightarrow> (entity_to_thread e, w3)))"

definition table_get :: "'w table_service \<Rightarrow> string \<Rightarrow> 'w \<Rightarrow> (table_error + thread option) \<times> 'w" where
  "table_get sv tid w =
     (case tb_get sv tid w of
        (Inl x, w1) \<Rightarrow> (if x = NotFound then Inr None else Inl (client_failure x), w1)
      | (Inr (e, m), w1) \<Rightarrow> (bind_res (entity_to_thread e) (\<lambda>t. Inr (Some t)), w1))"

definition table_delete :: "'w table_service \<Rightarrow> string \<Rightarrow> 'w \<Rightarrow> (table_error + unit) \<times> 'w" where
  "table_delete sv tid w =
     (case tb_delete sv tid w of
        (Some x, w1) \<Rightarrow> (Inl (key_failure tid x), w1)
      | (None, w1) \<Rightarrow> (Inr (), w1))"

fun truthy_prop :: "tprop \<Rightarrow> bool" where
  "truthy_prop TNone = False"
| "truthy_prop (TStr s) = (s \<noteq> [])"
| "truthy_prop (TBytes b) = (b \<noteq> [])"
| "truthy_prop (TBool b) = b"
| "truthy_prop (TInt i) = (i \<noteq> 0)"
| "truthy_prop _ = True"

text \<open>
  Where the ETag is read from: \<open>update\<close> takes a true value of the metadata or else the property,
  the lock operations the metadata unless it is \<open>None\<close>, and \<open>renew\<close> the metadata when it is a
  mapping. (An entity whose \<open>metadata\<close> is no mapping would fail in \<open>update\<close>; the SDK has none.)
\<close>

definition update_etag :: "row \<Rightarrow> tprop" where
  "update_etag r =
     (let m = (case snd r of None \<Rightarrow> TNone | Some p \<Rightarrow> p)
      in if truthy_prop m then m else entity_get (fst r) ''etag'')"

definition lock_etag :: "row \<Rightarrow> tprop" where
  "lock_etag r =
     (case snd r of None \<Rightarrow> entity_get (fst r) ''etag''
      | Some p \<Rightarrow> if p = TNone then entity_get (fst r) ''etag'' else p)"

definition renew_etag :: "row \<Rightarrow> tprop" where
  "renew_etag r = (case snd r of None \<Rightarrow> entity_get (fst r) ''etag'' | Some p \<Rightarrow> p)"

definition opt_write :: "(nat \<Rightarrow> string) \<Rightarrow> string \<Rightarrow> pyval dict option \<Rightarrow> entity \<Rightarrow> entity" where
  "opt_write enc field v e = (case v of None \<Rightarrow> e | Some d \<Rightarrow> write_json enc field (PDict d) e)"

definition update_replacement :: "(nat \<Rightarrow> string) \<Rightarrow> thread_patch \<Rightarrow> int \<Rightarrow> entity \<Rightarrow> entity" where
  "update_replacement enc p now e =
     (let e1 = AList.update ''updated_at'' (TTime now) (dict_drop [''etag'', ''Timestamp''] e);
          e2 = opt_write enc ''metadata_json'' (p_metadata p) e1;
          e3 = opt_write enc ''values_json'' (p_values p) e2;
          e4 = opt_write enc ''interrupts_json'' (p_interrupts p) e3;
          e5 = (case p_status p of None \<Rightarrow> e4 | Some s \<Rightarrow> AList.update ''status'' (TStr (status_text s)) e4)
      in (case p_assistant p of None \<Rightarrow> e5 | Some a \<Rightarrow> AList.update ''assistant_id'' (TStr a) e5))"

text \<open>The retry loop of \<open>update\<close>, by the number of attempts left; the last conflict is raised.\<close>

fun update_loop ::
    "nat \<Rightarrow> 'w table_service \<Rightarrow> (nat \<Rightarrow> string) \<Rightarrow> string \<Rightarrow> thread_patch \<Rightarrow> 'w \<Rightarrow> (table_error + thread) \<times> 'w" where
  "update_loop 0 sv enc tid p w = (Inl (TValueError ''unreachable update retry exit''), w)"
| "update_loop (Suc n) sv enc tid p w =
     (case tb_get sv tid w of
        (Inl x, w1) \<Rightarrow>
          (if x = Modified \<and> n \<noteq> 0 then update_loop n sv enc tid p w1 else (Inl (key_failure tid x), w1))
      | (Inr r, w1) \<Rightarrow>
          (let (now, w2) = tb_now sv w1;
               e = update_replacement enc p now (fst r)
           in case check_entity e of
               Inl x \<Rightarrow> (Inl x, w2)
             | Inr _ \<Rightarrow>
                 (case tb_update sv tid e ReplaceMode (update_etag r) w2 of
                    (None, w3) \<Rightarrow> (entity_to_thread e, w3)
                  | (Some x, w3) \<Rightarrow>
                      (if x = Modified \<and> n \<noteq> 0 then update_loop n sv enc tid p w3
                       else (Inl (key_failure tid x), w3)))))"

definition table_update ::
    "'w table_service \<Rightarrow> (nat \<Rightarrow> string) \<Rightarrow> string \<Rightarrow> thread_patch \<Rightarrow> 'w \<Rightarrow> (table_error + thread) \<times> 'w" where
  "table_update sv enc tid p w = update_loop 3 sv enc tid p w"

section \<open>The run lock\<close>

definition acquire_patch :: "string \<Rightarrow> string option \<Rightarrow> string \<Rightarrow> int \<Rightarrow> thread \<Rightarrow> entity" where
  "acquire_patch tid assistant tok now t =
     [(''PartitionKey'', TStr partition_key), (''RowKey'', TStr tid), (''status'', TStr (status_text SBusy)),
      (''updated_at'', TTime now), (''lock_token'', TStr tok), (''lock_expires_at'', TTime (now + lease_micros))] @
     (case (th_assistant t, assistant) of (None, Some a) \<Rightarrow> [(''assistant_id'', TStr a)] | _ \<Rightarrow> [])"

fun acquire_loop ::
    "nat \<Rightarrow> 'w table_service \<Rightarrow> string \<Rightarrow> string option \<Rightarrow> 'w \<Rightarrow> (table_error + thread option) \<times> 'w" where
  "acquire_loop 0 sv tid assistant w = (Inr None, w)"
| "acquire_loop (Suc n) sv tid assistant w =
     (case tb_get sv tid w of
        (Inl x, w1) \<Rightarrow> (Inl (key_failure tid x), w1)
      | (Inr r, w1) \<Rightarrow>
          (case entity_to_thread (fst r) of
             Inl x \<Rightarrow> (Inl x, w1)
           | Inr t \<Rightarrow>
               (if bound_to_other t assistant then (Inl (TBound tid), w1)
                else if th_status t = SBusy then (Inr None, w1)
                else
                  (let (now, w2) = tb_now sv w1;
                       (tok, w3) = tb_uuid sv w2;
                       patch = acquire_patch tid assistant tok now t
                   in case check_entity (dict_merge (fst r) patch) of
                       Inl x \<Rightarrow> (Inl x, w3)
                     | Inr _ \<Rightarrow>
                         (case tb_update sv tid patch MergeMode (lock_etag r) w3 of
                            (None, w4) \<Rightarrow> (Inr (Some (lock_thread assistant tok now t)), w4)
                          | (Some x, w4) \<Rightarrow>
                              (if x = Modified then acquire_loop n sv tid assistant w4
                               else (Inl (key_failure tid x), w4)))))))"

definition table_try_acquire ::
    "'w table_service \<Rightarrow> string \<Rightarrow> string option \<Rightarrow> 'w \<Rightarrow> (table_error + thread option) \<times> 'w" where
  "table_try_acquire sv tid assistant w = acquire_loop 3 sv tid assistant w"

definition release_replacement ::
    "(nat \<Rightarrow> string) \<Rightarrow> thread_status \<Rightarrow> pyval dict option \<Rightarrow> int \<Rightarrow> entity \<Rightarrow> entity" where
  "release_replacement enc status values now e =
     opt_write enc ''values_json'' values
       (AList.update ''updated_at'' (TTime now)
         (AList.update ''status'' (TStr (status_text status))
           (dict_drop [''lock_token'', ''lock_expires_at'', ''etag'', ''Timestamp''] e)))"

fun release_loop ::
    "nat \<Rightarrow> 'w table_service \<Rightarrow> (nat \<Rightarrow> string) \<Rightarrow> string \<Rightarrow> thread_status \<Rightarrow> pyval dict option \<Rightarrow>
     string option \<Rightarrow> 'w \<Rightarrow> (table_error + thread) \<times> 'w" where
  "release_loop 0 sv enc tid status values owner w = (Inl (RunLockReleaseError tid), w)"
| "release_loop (Suc n) sv enc tid status values owner w =
     (case tb_get sv tid w of
        (Inl x, w1) \<Rightarrow> (Inl (key_failure tid x), w1)
      | (Inr r, w1) \<Rightarrow>
          (if (case owner of None \<Rightarrow> False | Some tok \<Rightarrow> entity_get (fst r) ''lock_token'' \<noteq> TStr tok)
           then (entity_to_thread (fst r), w1)
           else
             (let (now, w2) = tb_now sv w1;
                  e = release_replacement enc status values now (fst r)
              in case check_entity e of
                  Inl x \<Rightarrow> (Inl x, w2)
                | Inr _ \<Rightarrow>
                    (case tb_update sv tid e ReplaceMode (lock_etag r) w2 of
                       (None, w3) \<Rightarrow> (entity_to_thread e, w3)
                     | (Some x, w3) \<Rightarrow>
                         (if x = Modified then release_loop n sv enc tid status values owner w3
                          else (Inl (key_failure tid x), w3))))))"

definition table_release ::
    "'w table_service \<Rightarrow> (nat \<Rightarrow> string) \<Rightarrow> string \<Rightarrow> thread_status \<Rightarrow> pyval dict option \<Rightarrow>
     string option \<Rightarrow> 'w \<Rightarrow> (table_error + thread) \<times> 'w" where
  "table_release sv enc tid status values owner w =
     (if status = SBusy then (Inl TReleaseToBusy, w)
      else release_loop 3 sv enc tid status values owner w)"

definition table_renew :: "'w table_service \<Rightarrow> string \<Rightarrow> string \<Rightarrow> 'w \<Rightarrow> (table_error + bool) \<times> 'w" where
  "table_renew sv tid owner w =
     (case tb_get sv tid w of
        (Inl x, w1) \<Rightarrow> (Inl (client_failure x), w1)
      | (Inr r, w1) \<Rightarrow>
          (if entity_get (fst r) ''lock_token'' \<noteq> TStr owner then (Inr False, w1)
           else
             (let (now, w2) = tb_now sv w1
              in case tb_update sv tid
                     [(''PartitionKey'', TStr partition_key), (''RowKey'', TStr tid),
                      (''updated_at'', TTime now), (''lock_expires_at'', TTime (now + lease_micros))]
                     MergeMode (renew_etag r) w2 of
                   (None, w3) \<Rightarrow> (Inr True, w3)
                 | (Some x, w3) \<Rightarrow>
                     (if x = Modified then (Inr False, w3) else (Inl (client_failure x), w3)))))"

section \<open>Stale locks\<close>

text \<open>Filter texts: a single quote is written twice.\<close>

definition escape_quotes :: "string \<Rightarrow> string" where
  "escape_quotes s = concat (map (\<lambda>c. if c = CHR 0x27 then [CHR 0x27, CHR 0x27] else [c]) s)"

definition quoted :: "string \<Rightarrow> string" where
  "quoted s = [CHR 0x27] @ escape_quotes s @ [CHR 0x27]"

definition query_filter :: "thread_status option \<Rightarrow> string" where
  "query_filter status = ''PartitionKey eq '' @ quoted partition_key @
     (case status of None \<Rightarrow> [] | Some s \<Rightarrow> '' and status eq '' @ quoted (status_text s))"

definition reset_patch :: "string \<Rightarrow> thread_status \<Rightarrow> int \<Rightarrow> entity" where
  "reset_patch tid status now =
     [(''PartitionKey'', TStr partition_key), (''RowKey'', TStr tid),
      (''status'', TStr (status_text status)), (''updated_at'', TTime now)]"

text \<open>One scanned row: whether it is reset, the number of resets so far, the world.\<close>

definition reset_row ::
    "'w table_service \<Rightarrow> int \<Rightarrow> thread_status \<Rightarrow> row \<Rightarrow> table_error + (nat \<times> 'w) \<Rightarrow> table_error + (nat \<times> 'w)" where
  "reset_row sv cutoff status r acc =
     bind_res acc (\<lambda>(count, w).
       case map_of (fst r) ''updated_at'' of
         Some (TTime updated) \<Rightarrow>
           (if updated \<ge> cutoff \<or> lock_etag r = TNone then Inr (count, w)
            else
              (case map_of (fst r) ''RowKey'' of
                 Some (TStr tid) \<Rightarrow>
                   (let (now, w1) = tb_now sv w
                    in case tb_update sv tid (reset_patch tid status now) MergeMode (lock_etag r) w1 of
                         (None, w2) \<Rightarrow> Inr (Suc count, w2)
                       | (Some x, w2) \<Rightarrow>
                           (if x = Modified \<or> x = NotFound then Inr (count, w2) else Inl (client_failure x)))
               | _ \<Rightarrow> Inl (TRead (MissingKey ''RowKey''))))
       | _ \<Rightarrow> Inr (count, w))"

definition table_reset_stale ::
    "'w table_service \<Rightarrow> int \<Rightarrow> thread_status \<Rightarrow> 'w \<Rightarrow> table_error + (nat \<times> 'w)" where
  "table_reset_stale sv older status w =
     (if older < 0 then Inl (TValueError ''older_than_seconds must be non-negative'')
      else if status \<notin> {SIdle, SError} then Inl (TValueError ''status must be idle or error'')
      else
        (let (now, w1) = tb_now sv w
         in case tb_query sv (query_filter (Some SBusy)) w1 of
             (Inl x, w2) \<Rightarrow> Inl (client_failure x)
           | (Inr rows, w2) \<Rightarrow>
               fold (reset_row sv (now - older * 1000000) status) rows (Inr (0, w2))))"

section \<open>Queries\<close>

fun entities_to_threads :: "row list \<Rightarrow> table_error + thread list" where
  "entities_to_threads [] = Inr []"
| "entities_to_threads (r # rs) =
     bind_res (entity_to_thread (fst r)) (\<lambda>t. bind_res (entities_to_threads rs) (\<lambda>ts. Inr (t # ts)))"

definition query_entities ::
    "'w table_service \<Rightarrow> thread_status option \<Rightarrow> 'w \<Rightarrow> (table_error + thread list) \<times> 'w" where
  "query_entities sv status w =
     (case tb_query sv (query_filter status) w of
        (Inl x, w1) \<Rightarrow> (Inl (client_failure x), w1)
      | (Inr rows, w1) \<Rightarrow> (entities_to_threads rows, w1))"

definition table_search ::
    "'w table_service \<Rightarrow> pyval dict option \<Rightarrow> thread_status option \<Rightarrow> int \<Rightarrow> int \<Rightarrow> 'w \<Rightarrow>
     (table_error + thread list) \<times> 'w" where
  "table_search sv metadata status limit offset w =
     (if limit < 0 then (Inl (TValueError ''limit must be non-negative''), w)
      else if offset < 0 then (Inl (TValueError ''offset must be non-negative''), w)
      else
        (let (r, w1) = query_entities sv status w
         in (bind_res r (\<lambda>ts. Inr (take (nat limit) (drop (nat offset)
               (newest_first (filter (\<lambda>t. metadata_matches metadata (th_metadata t)) ts))))), w1)))"

definition table_count ::
    "'w table_service \<Rightarrow> pyval dict option \<Rightarrow> thread_status option \<Rightarrow> 'w \<Rightarrow> (table_error + nat) \<times> 'w" where
  "table_count sv metadata status w =
     (let (r, w1) = query_entities sv status w
      in (bind_res r (\<lambda>ts. Inr (length (filter (\<lambda>t. metadata_matches metadata (th_metadata t)) ts))), w1))"

section \<open>Entities read as threads\<close>

definition dict_val :: "pyval dict option \<Rightarrow> pyval" where
  "dict_val v = (case v of None \<Rightarrow> PNone | Some d \<Rightarrow> PDict d)"

definition str_prop :: "string option \<Rightarrow> tprop" where
  "str_prop v = (case v of None \<Rightarrow> TNone | Some s \<Rightarrow> TStr s)"

definition time_prop :: "int option \<Rightarrow> tprop" where
  "time_prop v = (case v of None \<Rightarrow> TNone | Some i \<Rightarrow> TTime i)"

lemma read_parts:
  "read_field e f d = Inr v \<longleftrightarrow> read_json e f d = Inr v"
  "opt_dict f x = Inr md \<longleftrightarrow> x = dict_val md"
  "opt_str f p = Inr s \<longleftrightarrow> p = str_prop s"
  "opt_time f p = Inr i \<longleftrightarrow> p = time_prop i"
  "req_time f e = Inr n \<longleftrightarrow> map_of e f = Some (TTime n)"
  by (auto simp: read_field_def opt_dict_def dict_val_def opt_str_def str_prop_def opt_time_def
      time_prop_def req_time_def split: sum.splits pyval.splits option.splits tprop.splits)

lemma status_of_iff: "status_of p = Some s \<longleftrightarrow> p = TStr (status_text s)"
  by (cases s) (auto simp: status_of_def split: tprop.splits if_splits)

definition status_is :: "entity \<Rightarrow> thread_status \<Rightarrow> bool" where
  "status_is e s = (case map_of e ''status'' of None \<Rightarrow> s = SIdle | Some p \<Rightarrow> p = TStr (status_text s))"

lemma entity_to_thread_iff:
  "entity_to_thread e = Inr t \<longleftrightarrow>
     read_json e ''metadata_json'' PNone = Inr (dict_val (th_metadata t)) \<and>
     read_json e ''values_json'' PNone = Inr (dict_val (th_values t)) \<and>
     read_json e ''interrupts_json'' (PDict []) = Inr (PDict (th_interrupts t)) \<and>
     map_of e ''RowKey'' = Some (TStr (th_id t)) \<and>
     map_of e ''created_at'' = Some (TTime (th_created t)) \<and>
     map_of e ''updated_at'' = Some (TTime (th_updated t)) \<and>
     status_is e (th_status t) \<and>
     entity_get e ''assistant_id'' = str_prop (th_assistant t) \<and>
     entity_get e ''lock_token'' = str_prop (th_token t) \<and>
     entity_get e ''lock_expires_at'' = time_prop (th_expires t)"
proof -
  have rowkey: "(case map_of e ''RowKey'' of Some (TStr s) \<Rightarrow> Inr s | Some _ \<Rightarrow> Inl (TInvalid ''thread_id'')
         | None \<Rightarrow> Inl (TRead (MissingKey ''RowKey''))) = Inr x \<longleftrightarrow> map_of e ''RowKey'' = Some (TStr x)" for x
    by (auto split: option.splits tprop.splits)
  have status: "(case map_of e ''status'' of None \<Rightarrow> Inr SIdle
         | Some p \<Rightarrow> (case status_of p of None \<Rightarrow> Inl (TInvalid ''status'') | Some s \<Rightarrow> Inr s)) = Inr x \<longleftrightarrow>
      status_is e x" for x
    unfolding status_is_def
    by (cases "map_of e ''status''")
      (auto simp: status_of_iff [symmetric] split: option.splits)
  have ints: "(case i of PDict d \<Rightarrow> Inr d | _ \<Rightarrow> Inl (TInvalid ''interrupts'')) = Inr d \<longleftrightarrow> i = PDict d" for i d
    by (cases i) auto
  show ?thesis
    unfolding entity_to_thread_def
    by (cases t) (auto simp: bind_res_Inr read_parts rowkey status ints)
qed

text \<open>Properties the service adds or that are not of the thread.\<close>

definition same_props :: "entity \<Rightarrow> entity \<Rightarrow> bool" where
  "same_props e e' \<longleftrightarrow> (\<forall>k. k \<noteq> ''etag'' \<and> k \<noteq> ''Timestamp'' \<longrightarrow> map_of e k = map_of e' k)"

lemma belongs_hd: "belongs_to (c # field) k \<Longrightarrow> \<exists>k'. k = c # k'"
  by (cases k) (auto simp: belongs_to_def)

lemma same_props_read:
  assumes "same_props e e'" "c \<noteq> CHR ''e''" "c \<noteq> CHR ''T''"
  shows "read_json e (c # field) d = read_json e' (c # field) d"
proof (rule read_json_cong)
  fix k assume "belongs_to (c # field) k"
  then obtain k' where "k = c # k'" using belongs_hd by blast
  with assms show "map_of e k = map_of e' k" by (simp add: same_props_def)
qed

lemma same_props_thread:
  assumes "same_props e e'"
  shows "entity_to_thread e = Inr t \<longleftrightarrow> entity_to_thread e' = Inr t"
proof -
  have "map_of e k = map_of e' k \<and> entity_get e k = entity_get e' k" if "k \<notin> {''etag'', ''Timestamp''}" for k
    using assms that by (simp add: same_props_def entity_get_def)
  then show ?thesis
    unfolding entity_to_thread_iff status_is_def using same_props_read [OF assms] by simp
qed

section \<open>Each write is the in-memory operation\<close>

lemma read_json_hd_cong:
  assumes "\<And>k. map_of e (c # k) = map_of e' (c # k)"
  shows "read_json e (c # field) d = read_json e' (c # field) d"
  by (rule read_json_cong) (use assms belongs_hd in blast)

lemma opt_write_other [simp]:
  "c \<noteq> c' \<Longrightarrow> map_of (opt_write enc (c # field) v e) (c' # k) = map_of e (c' # k)"
proof -
  assume "c \<noteq> c'"
  then have "\<not> belongs_to (c # field) (c' # k)" using belongs_hd [of c field "c' # k"] by auto
  then show ?thesis by (simp add: opt_write_def write_json_other split: option.split)
qed

lemma opt_write_dict_ok [simp]: "dict_ok e \<Longrightarrow> dict_ok (opt_write enc field v e)"
  by (simp add: opt_write_def split: option.split)

lemma read_opt_write:
  assumes "dict_ok E" "validate_entity E = Inr ()" "\<forall>d. v = Some d \<longrightarrow> json_value (PDict d)"
    and "\<And>k. map_of E (c # k) = map_of (opt_write enc (c # field) v e) (c # k)"
  shows "read_json E (c # field) dflt = (case v of None \<Rightarrow> read_json e (c # field) dflt | Some d \<Rightarrow> Inr (PDict d))"
proof (cases v)
  case None
  with assms(4) read_json_hd_cong [of E c e field dflt] show ?thesis by (simp add: opt_write_def)
next
  case (Some d)
  have "map_of E k = map_of (write_json enc (c # field) (PDict d) e) k" if "belongs_to (c # field) k" for k
    using belongs_hd [OF that] assms(4) Some by (auto simp: opt_write_def)
  with written_readable [OF assms(1) _ assms(2), of "PDict d" "c # field" enc e dflt] assms(3) Some
  show ?thesis by simp
qed

lemma check_entity_valid: "check_entity e = Inr u \<Longrightarrow> validate_entity e = Inr ()"
  by (auto simp: check_entity_def split: sum.splits)

lemma map_of_merge_patch:
  "dict_ok b \<Longrightarrow> map_of (dict_merge a b) k = (case map_of b k of None \<Rightarrow> map_of a k | Some v \<Rightarrow> Some v)"
  by (rule map_of_dict_merge)

lemma acquire_patch_ok: "dict_ok (acquire_patch tid assistant tok now t)"
  by (simp add: acquire_patch_def dict_ok_def split: option.split)

lemma acquire_writes:
  assumes "entity_to_thread e = Inr t" "th_id t = tid"
  shows "entity_to_thread (dict_merge e (acquire_patch tid assistant tok now t)) =
    Inr (lock_thread assistant tok now t)"
proof -
  let ?p = "acquire_patch tid assistant tok now t"
  let ?E = "dict_merge e ?p"
  have E: "map_of ?E k = (case map_of ?p k of None \<Rightarrow> map_of e k | Some v \<Rightarrow> Some v)" for k
    by (rule map_of_merge_patch) (rule acquire_patch_ok)
  have none: "map_of ?p (c # k) = None" if "c \<in> set ''mvi''" for c k
    using that by (auto simp: acquire_patch_def split: option.split)
  have json: "read_json ?E (c # field) d = read_json e (c # field) d" if "c \<in> set ''mvi''" for c field d
    by (rule read_json_hd_cong) (simp add: E none [OF that])
  have fields: "read_json ?E ''metadata_json'' PNone = read_json e ''metadata_json'' PNone"
    "read_json ?E ''values_json'' PNone = read_json e ''values_json'' PNone"
    "read_json ?E ''interrupts_json'' (PDict []) = read_json e ''interrupts_json'' (PDict [])"
    by (rule json, simp)+
  have p: "map_of ?p ''RowKey'' = Some (TStr tid)" "map_of ?p ''created_at'' = None"
    "map_of ?p ''updated_at'' = Some (TTime now)" "map_of ?p ''status'' = Some (TStr (status_text SBusy))"
    "map_of ?p ''lock_token'' = Some (TStr tok)" "map_of ?p ''lock_expires_at'' = Some (TTime (now + lease_micros))"
    "map_of ?p ''assistant_id'' = (case (th_assistant t, assistant) of (None, Some a) \<Rightarrow> Some (TStr a) | _ \<Rightarrow> None)"
    by (simp_all add: acquire_patch_def split: option.split)
  show ?thesis
    using assms unfolding entity_to_thread_iff status_is_def entity_get_def fields E p
    by (cases "th_assistant t"; cases assistant) (simp_all add: lock_thread_def str_prop_def time_prop_def)
qed

lemma release_writes:
  assumes "entity_to_thread e = Inr t" "dict_ok e" "\<forall>d. values = Some d \<longrightarrow> json_value (PDict d)"
    and "check_entity (release_replacement enc status values now e) = Inr u"
  shows "entity_to_thread (release_replacement enc status values now e) = Inr (unlock_thread status values now t)"
proof -
  let ?e1 = "AList.update ''updated_at'' (TTime now) (AList.update ''status'' (TStr (status_text status))
      (dict_drop [''lock_token'', ''lock_expires_at'', ''etag'', ''Timestamp''] e))"
  let ?E = "release_replacement enc status values now e"
  have E: "?E = opt_write enc ''values_json'' values ?e1" by (simp add: release_replacement_def)
  have ok: "dict_ok ?E" "validate_entity ?E = Inr ()"
    using assms(2,4) check_entity_valid by (auto simp: E)
  have "read_json ?E ''values_json'' PNone =
      (case values of None \<Rightarrow> read_json ?e1 ''values_json'' PNone | Some d \<Rightarrow> Inr (PDict d))"
    by (rule read_opt_write [OF ok assms(3)]) (simp add: E)
  moreover have "read_json ?e1 ''values_json'' PNone = read_json e ''values_json'' PNone"
    by (rule read_json_hd_cong) simp
  moreover have "read_json ?E (c # field) d = read_json e (c # field) d" if "c \<in> set ''mi''" for c field d
    by (rule read_json_hd_cong) (use that in \<open>auto simp: E\<close>)
  moreover have rest: "entity_get ?E ''lock_token'' = TNone" "entity_get ?E ''lock_expires_at'' = TNone"
    "map_of ?E ''RowKey'' = map_of e ''RowKey''" "map_of ?E ''created_at'' = map_of e ''created_at''"
    "map_of ?E ''updated_at'' = Some (TTime now)" "entity_get ?E ''assistant_id'' = entity_get e ''assistant_id''"
    "map_of ?E ''status'' = Some (TStr (status_text status))"
    by (simp_all add: E entity_get_def)
  ultimately show ?thesis
    using assms(1) unfolding entity_to_thread_iff status_is_def rest
    by (auto simp: unlock_thread_def opt_orelse_def dict_val_def str_prop_def time_prop_def split: option.split)
qed

lemma update_writes:
  assumes "entity_to_thread e = Inr t" "dict_ok e"
    and "\<forall>d. p_metadata p = Some d \<longrightarrow> json_value (PDict d)" "\<forall>d. p_values p = Some d \<longrightarrow> json_value (PDict d)"
      "\<forall>d. p_interrupts p = Some d \<longrightarrow> json_value (PDict d)"
    and "check_entity (update_replacement enc p now e) = Inr u"
  shows "entity_to_thread (update_replacement enc p now e) = Inr (patch_thread p now t)"
proof -
  define e1 where "e1 = AList.update ''updated_at'' (TTime now) (dict_drop [''etag'', ''Timestamp''] e)"
  define e2 where "e2 = opt_write enc ''metadata_json'' (p_metadata p) e1"
  define e3 where "e3 = opt_write enc ''values_json'' (p_values p) e2"
  define e4 where "e4 = opt_write enc ''interrupts_json'' (p_interrupts p) e3"
  let ?E = "update_replacement enc p now e"
  have E: "?E = (case p_assistant p of
        None \<Rightarrow> (case p_status p of None \<Rightarrow> e4 | Some s \<Rightarrow> AList.update ''status'' (TStr (status_text s)) e4)
      | Some a \<Rightarrow> AList.update ''assistant_id'' (TStr a)
          (case p_status p of None \<Rightarrow> e4 | Some s \<Rightarrow> AList.update ''status'' (TStr (status_text s)) e4))"
    unfolding update_replacement_def e1_def e2_def e3_def e4_def Let_def ..
  have "dict_ok e4" using assms(2) by (simp add: e1_def e2_def e3_def e4_def)
  then have ok: "dict_ok ?E" "validate_entity ?E = Inr ()"
    using assms(6) check_entity_valid by (auto simp: E split: option.split)
  have E4: "map_of ?E (c # k) = map_of e4 (c # k)" if "c \<in> set ''mvi''" for c k
    using that by (auto simp: E split: option.split)
  have m: "read_json ?E ''metadata_json'' PNone =
      (case p_metadata p of None \<Rightarrow> read_json e1 ''metadata_json'' PNone | Some d \<Rightarrow> Inr (PDict d))"
    by (rule read_opt_write [OF ok assms(3)]) (simp add: E4 e4_def e3_def e2_def)
  have v: "read_json ?E ''values_json'' PNone =
      (case p_values p of None \<Rightarrow> read_json e2 ''values_json'' PNone | Some d \<Rightarrow> Inr (PDict d))"
    by (rule read_opt_write [OF ok assms(4)]) (simp add: E4 e4_def e3_def)
  have i: "read_json ?E ''interrupts_json'' (PDict []) =
      (case p_interrupts p of None \<Rightarrow> read_json e3 ''interrupts_json'' (PDict []) | Some d \<Rightarrow> Inr (PDict d))"
    by (rule read_opt_write [OF ok assms(5)]) (simp add: E4 e4_def)
  have kept: "read_json e1 ''metadata_json'' PNone = read_json e ''metadata_json'' PNone"
    "read_json e2 ''values_json'' PNone = read_json e ''values_json'' PNone"
    "read_json e3 ''interrupts_json'' (PDict []) = read_json e ''interrupts_json'' (PDict [])"
    by (rule read_json_hd_cong, simp add: e1_def e2_def e3_def)+
  have mp: "map_of e4 (c # k) = map_of e1 (c # k)" if "CHR ''m'' \<noteq> c" "CHR ''v'' \<noteq> c" "CHR ''i'' \<noteq> c" for c k
    using that by (simp add: e4_def e3_def e2_def)
  have rest: "entity_get ?E ''lock_token'' = entity_get e ''lock_token''"
    "entity_get ?E ''lock_expires_at'' = entity_get e ''lock_expires_at''"
    "map_of ?E ''RowKey'' = map_of e ''RowKey''" "map_of ?E ''created_at'' = map_of e ''created_at''"
    "map_of ?E ''updated_at'' = Some (TTime now)"
    "entity_get ?E ''assistant_id'' = (case p_assistant p of None \<Rightarrow> entity_get e ''assistant_id'' | Some a \<Rightarrow> TStr a)"
    "map_of ?E ''status'' = (case p_status p of None \<Rightarrow> map_of e ''status'' | Some s \<Rightarrow> Some (TStr (status_text s)))"
    by (auto simp: E entity_get_def mp e1_def split: option.split)
  show ?thesis
    using assms(1) unfolding entity_to_thread_iff status_is_def rest m v i kept
    by (auto simp: patch_thread_def opt_or_def opt_orelse_def dict_val_def str_prop_def split: option.split)
qed

section \<open>What the service promises\<close>

text \<open>
  The documented behaviour of a table with optimistic concurrency, over the history of each row
  (its versions, oldest first; \<open>None\<close> where it was deleted), which only grows. Other clients may
  write at any time, also during a call. ETags are never reused. A read returns a version that
  was current during the call; a conditional update that succeeds directly follows the version
  whose ETag it names. All writers of the partition keep its rows readable as threads. \<open>good\<close> is
  what holds of the worlds that can arise.
\<close>

type_synonym history = "(entity \<times> tprop) option list"

definition grows :: "('w \<Rightarrow> string \<Rightarrow> history) \<Rightarrow> ('w \<Rightarrow> bool) \<Rightarrow> 'w \<Rightarrow> 'w \<Rightarrow> bool" where
  "grows hist good w w' \<longleftrightarrow> good w' \<and> (\<forall>tid. prefix (hist w tid) (hist w' tid))"

definition history_ok :: "('w \<Rightarrow> string \<Rightarrow> history) \<Rightarrow> 'w \<Rightarrow> bool" where
  "history_ok hist w \<longleftrightarrow>
     (\<forall>tid i j e e' g. i < length (hist w tid) \<longrightarrow> j < length (hist w tid) \<longrightarrow>
        hist w tid ! i = Some (e, g) \<longrightarrow> hist w tid ! j = Some (e', g) \<longrightarrow> i = j) \<and>
     (\<forall>tid e g. Some (e, g) \<in> set (hist w tid) \<longrightarrow>
        dict_ok e \<and> map_of e ''RowKey'' = Some (TStr tid) \<and> (\<exists>t. entity_to_thread e = Inr t))"

definition applied :: "update_mode \<Rightarrow> entity \<Rightarrow> entity \<Rightarrow> entity" where
  "applied mode old e = (case mode of MergeMode \<Rightarrow> dict_merge old e | ReplaceMode \<Rightarrow> e)"

definition cas_laws :: "'w table_service \<Rightarrow> ('w \<Rightarrow> string \<Rightarrow> history) \<Rightarrow> ('w \<Rightarrow> bool) \<Rightarrow> bool" where
  "cas_laws sv hist good \<longleftrightarrow>
     (\<forall>w. good w \<longrightarrow> history_ok hist w) \<and>
     (\<forall>w. good w \<longrightarrow> grows hist good w (snd (tb_now sv w)) \<and> grows hist good w (snd (tb_uuid sv w))) \<and>
     (\<forall>w tid. good w \<longrightarrow> grows hist good w (snd (tb_get sv tid w))) \<and>
     (\<forall>w tid e mode g. good w \<longrightarrow> grows hist good w (snd (tb_update sv tid e mode g w))) \<and>
     (\<forall>w tid r w1. good w \<longrightarrow> tb_get sv tid w = (Inr r, w1) \<longrightarrow>
        (\<exists>h e g later. hist w1 tid = h @ Some (e, g) # later \<and> prefix (hist w tid) (h @ [Some (e, g)]) \<and>
           same_props (fst r) e \<and> dict_ok (fst r) \<and> lock_etag r = g \<and> update_etag r = g)) \<and>
     (\<forall>w tid e mode g w1. good w \<longrightarrow> tb_update sv tid e mode g w = (None, w1) \<longrightarrow>
        (\<exists>h old new g' later. hist w1 tid = h @ Some (old, g) # Some (new, g') # later \<and>
           prefix (hist w tid) (h @ [Some (old, g)]) \<and> same_props new (applied mode old e)))"

text \<open>
  One step of the row's history that happened during an operation, as a relation between the
  thread before and after.
\<close>

definition atomically ::
    "('w \<Rightarrow> string \<Rightarrow> history) \<Rightarrow> 'w \<Rightarrow> 'w \<Rightarrow> string \<Rightarrow> (thread \<Rightarrow> thread \<Rightarrow> bool) \<Rightarrow> bool" where
  "atomically hist w w' tid P \<longleftrightarrow>
     (\<exists>h e g e' g' later t t'. hist w' tid = h @ Some (e, g) # Some (e', g') # later \<and>
        prefix (hist w tid) (h @ [Some (e, g)]) \<and>
        entity_to_thread e = Inr t \<and> entity_to_thread e' = Inr t' \<and> P t t')"

lemma grows_refl: "good w \<Longrightarrow> grows hist good w w"
  by (simp add: grows_def)

lemma grows_trans: "grows hist good w w1 \<Longrightarrow> grows hist good w1 w2 \<Longrightarrow> grows hist good w w2"
  unfolding grows_def by (meson prefix_order.trans)

lemma cas_grows:
  assumes "cas_laws sv hist good" "good w"
  shows "tb_now sv w = (n, w1) \<Longrightarrow> grows hist good w w1" "tb_uuid sv w = (u, w1) \<Longrightarrow> grows hist good w w1"
    "tb_get sv tid w = (r, w1) \<Longrightarrow> grows hist good w w1"
    "tb_update sv tid e mode g w = (o', w1) \<Longrightarrow> grows hist good w w1"
  using assms unfolding cas_laws_def by (metis snd_conv)+

lemma cas_get:
  assumes "cas_laws sv hist good" "good w" "tb_get sv tid w = (Inr r, w1)"
  shows "\<exists>h e g later. hist w1 tid = h @ Some (e, g) # later \<and> prefix (hist w tid) (h @ [Some (e, g)]) \<and>
    same_props (fst r) e \<and> dict_ok (fst r) \<and> lock_etag r = g \<and> update_etag r = g"
proof -
  have "\<forall>w tid r w1. good w \<longrightarrow> tb_get sv tid w = (Inr r, w1) \<longrightarrow>
        (\<exists>h e g later. hist w1 tid = h @ Some (e, g) # later \<and> prefix (hist w tid) (h @ [Some (e, g)]) \<and>
           same_props (fst r) e \<and> dict_ok (fst r) \<and> lock_etag r = g \<and> update_etag r = g)"
    using assms(1) unfolding cas_laws_def by (elim conjE)
  from this [rule_format, OF assms(2,3)] show ?thesis .
qed

lemma cas_update:
  assumes "cas_laws sv hist good" "good w" "tb_update sv tid e mode g w = (None, w1)"
  shows "\<exists>h old new g' later. hist w1 tid = h @ Some (old, g) # Some (new, g') # later \<and>
    prefix (hist w tid) (h @ [Some (old, g)]) \<and> same_props new (applied mode old e)"
proof -
  have "\<forall>w tid e mode g w1. good w \<longrightarrow> tb_update sv tid e mode g w = (None, w1) \<longrightarrow>
        (\<exists>h old new g' later. hist w1 tid = h @ Some (old, g) # Some (new, g') # later \<and>
           prefix (hist w tid) (h @ [Some (old, g)]) \<and> same_props new (applied mode old e))"
    using assms(1) unfolding cas_laws_def by (elim conjE)
  from this [rule_format, OF assms(2,3)] show ?thesis .
qed

lemma cas_history: "cas_laws sv hist good \<Longrightarrow> good w \<Longrightarrow> history_ok hist w"
  by (simp add: cas_laws_def)

lemma prefix_snoc_take: "prefix xs (h @ [x]) \<Longrightarrow> ys = h @ x # later \<Longrightarrow> prefix xs ys"
  by (metis append.assoc append_Cons append_Nil prefix_append prefix_order.trans prefixI)

text \<open>A read and a later successful conditional update are one atomic step.\<close>

lemma cas_transition:
  assumes laws: "cas_laws sv hist good" and "good w" and get: "tb_get sv tid w = (Inr r, w1)"
    and mid: "grows hist good w1 w3" and upd: "tb_update sv tid p mode (lock_etag r) w3 = (None, w4)"
  shows "\<exists>h e g e' g' later. hist w4 tid = h @ Some (e, g) # Some (e', g') # later \<and>
    prefix (hist w tid) (h @ [Some (e, g)]) \<and> same_props (fst r) e \<and> dict_ok (fst r) \<and>
    same_props e' (applied mode e p) \<and> lock_etag r = update_etag r"
proof -
  obtain h0 e0 g more0 where g0: "hist w1 tid = h0 @ Some (e0, g) # more0" "prefix (hist w tid) (h0 @ [Some (e0, g)])"
      "same_props (fst r) e0" "dict_ok (fst r)" "lock_etag r = g" "update_etag r = g"
    using cas_get [OF laws assms(2) get] by blast
  have i3: "good w3" using mid by (simp add: grows_def)
  obtain h old new g' later where u: "hist w4 tid = h @ Some (old, g) # Some (new, g') # later"
      "prefix (hist w3 tid) (h @ [Some (old, g)])" "same_props new (applied mode old p)"
    using cas_update [OF laws i3 upd] g0(5) by blast
  have "grows hist good w3 w4" using cas_grows(4) [OF laws i3 upd] .
  then have "prefix (hist w1 tid) (hist w4 tid)" "good w4"
    using mid unfolding grows_def by (meson prefix_order.trans)+
  then obtain zs where z: "hist w4 tid = hist w1 tid @ zs" by (auto simp: prefix_def)
  have "history_ok hist w4" using laws \<open>good w4\<close> by (rule cas_history)
  moreover have "hist w4 tid ! length h0 = Some (e0, g)" "length h0 < length (hist w4 tid)"
    using z g0(1) by (simp_all add: nth_append)
  moreover have "hist w4 tid ! length h = Some (old, g)" "length h < length (hist w4 tid)"
    using u(1) by (simp_all add: nth_append)
  ultimately have len: "length h0 = length h" unfolding history_ok_def by metis
  have "h0 @ [Some (e0, g)] = take (Suc (length h0)) (hist w4 tid)"
    using z g0(1) by simp
  also have "\<dots> = h @ [Some (old, g)]" using u(1) len by simp
  finally have "h0 = h" "e0 = old" by simp_all
  then have "hist w4 tid = h @ Some (old, g) # Some (new, g') # later \<and>
      prefix (hist w tid) (h @ [Some (old, g)]) \<and> same_props (fst r) old \<and> dict_ok (fst r) \<and>
      same_props new (applied mode old p) \<and> lock_etag r = update_etag r"
    using g0 u by simp
  then show ?thesis by (intro exI)
qed

lemma history_thread:
  assumes "cas_laws sv hist good" "good w" "hist w tid = h @ Some (e, g) # later"
  shows "\<exists>t. entity_to_thread e = Inr t \<and> th_id t = tid"
proof -
  have "Some (e, g) \<in> set (hist w tid)" using assms(3) by simp
  with cas_history [OF assms(1,2)] obtain t where "entity_to_thread e = Inr t" "map_of e ''RowKey'' = Some (TStr tid)"
    unfolding history_ok_def by blast
  then show ?thesis by (auto simp: entity_to_thread_iff)
qed

lemma atomically_from:
  "grows hist good w w1 \<Longrightarrow> atomically hist w1 w' tid P \<Longrightarrow> atomically hist w w' tid P"
  unfolding grows_def atomically_def by (meson prefix_order.trans)

text \<open>A successful conditional update, with the thread before and after.\<close>

lemma cas_atomically:
  assumes laws: "cas_laws sv hist good" and "good w" and get: "tb_get sv tid w = (Inr r, w1)"
    and mid: "grows hist good w1 w3" and upd: "tb_update sv tid p mode (lock_etag r) w3 = (None, w4)"
    and P: "\<And>e t t'. entity_to_thread e = Inr t \<Longrightarrow> th_id t = tid \<Longrightarrow> entity_to_thread (fst r) = Inr t \<Longrightarrow>
      dict_ok (fst r) \<Longrightarrow> entity_to_thread (applied mode e p) = Inr t' \<Longrightarrow> P t t'"
  shows "atomically hist w w4 tid P"
proof -
  obtain h e g e' g' later where c: "hist w4 tid = h @ Some (e, g) # Some (e', g') # later"
      "prefix (hist w tid) (h @ [Some (e, g)])" "same_props (fst r) e" "dict_ok (fst r)"
      "same_props e' (applied mode e p)"
    using cas_transition [OF laws assms(2) get mid upd] by blast
  have g4: "good w4" using cas_grows(4) [OF laws _ upd] mid by (simp add: grows_def)
  obtain t where t: "entity_to_thread e = Inr t" "th_id t = tid"
    using history_thread [OF laws g4, of tid h e g] c(1) by blast
  obtain t' where t': "entity_to_thread e' = Inr t'"
    using history_thread [OF laws g4, of tid "h @ [Some (e, g)]" e' g'] c(1) by auto
  have "P t t'"
    using P [OF t _ c(4)] t(1) t' same_props_thread [OF c(3)] same_props_thread [OF c(5)] by blast
  with c t t' show ?thesis unfolding atomically_def by blast
qed

text \<open>
  C5: The ETag loop of \<open>try_acquire_run_lock\<close> is atomic: however many other clients write at the
  same time, an acquire that returns a thread has replaced, in one step of the row's history, a
  thread by what the in-memory store's \<open>try_acquire_run_lock\<close> makes of it; so it was not busy
  and not bound to another assistant just before, and nobody else acquired it in between.
\<close>

theorem table_acquire_atomic:
  assumes "cas_laws sv hist good" "good w"
    and "table_try_acquire sv tid assistant w = (Inr (Some u), w')"
  shows "\<exists>tok now. atomically hist w w' tid
    (\<lambda>t t'. t' = u \<and> store_try_acquire tid assistant tok now [(tid, t)] = Inr (Some t', [(tid, t')]))"
proof -
  have "\<exists>tok now. atomically hist w w' tid
    (\<lambda>t t'. t' = u \<and> store_try_acquire tid assistant tok now [(tid, t)] = Inr (Some t', [(tid, t')]))"
    if "acquire_loop n sv tid assistant w = (Inr (Some u), w')" for n
    using that assms(2)
  proof (induction n arbitrary: w)
    case (Suc n)
    obtain g w1 where g: "tb_get sv tid w = (g, w1)" by fastforce
    then obtain r where r: "g = Inr r" using Suc.prems by (cases g) auto
    obtain t where t: "entity_to_thread (fst r) = Inr t"
      using Suc.prems g r by (cases "entity_to_thread (fst r)") auto
    have free: "\<not> bound_to_other t assistant" "th_status t \<noteq> SBusy"
      using Suc.prems g r t by (auto split: if_splits)
    obtain now w2 where now: "tb_now sv w1 = (now, w2)" by fastforce
    obtain tok w3 where tok: "tb_uuid sv w2 = (tok, w3)" by fastforce
    let ?p = "acquire_patch tid assistant tok now t"
    obtain x w4 where upd: "tb_update sv tid ?p MergeMode (lock_etag r) w3 = (x, w4)" by fastforce
    have gr1: "grows hist good w w1" using cas_grows(3) [OF assms(1) Suc.prems(2) g] .
    then have gr2: "grows hist good w1 w2" using cas_grows(1) [OF assms(1) _ now] by (simp add: grows_def)
    then have gr3: "grows hist good w2 w3" using cas_grows(2) [OF assms(1) _ tok] by (simp add: grows_def)
    then have gr4: "grows hist good w3 w4" using cas_grows(4) [OF assms(1) _ upd] by (simp add: grows_def)
    have mid: "grows hist good w1 w3" using gr2 gr3 by (rule grows_trans)
    have loop: "acquire_loop (Suc n) sv tid assistant w =
        (case check_entity (dict_merge (fst r) ?p) of Inl x \<Rightarrow> (Inl x, w3)
         | Inr _ \<Rightarrow> (case x of None \<Rightarrow> (Inr (Some (lock_thread assistant tok now t)), w4)
             | Some x \<Rightarrow> if x = Modified then acquire_loop n sv tid assistant w4 else (Inl (key_failure tid x), w4)))"
      using g r t free now tok upd
      by (cases "check_entity (dict_merge (fst r) ?p)"; cases x) (simp_all add: Let_def)
    show ?case
    proof (cases x)
      case None
      with loop Suc.prems have u: "u = lock_thread assistant tok now t" "w' = w4"
        by (auto split: sum.splits)
      have "atomically hist w w4 tid
          (\<lambda>t t'. t' = u \<and> store_try_acquire tid assistant tok now [(tid, t)] = Inr (Some t', [(tid, t')]))"
      proof (rule cas_atomically [OF assms(1) Suc.prems(2) g [unfolded r] mid upd [unfolded None]])
        fix e t1 t'
        assume e: "entity_to_thread e = Inr t1" "th_id t1 = tid" "entity_to_thread (fst r) = Inr t1"
          "entity_to_thread (applied MergeMode e ?p) = Inr t'"
        with t have "t1 = t" by simp
        with e acquire_writes [of e t tid assistant tok now] have "t' = u"
          by (simp add: applied_def u(1))
        with \<open>t1 = t\<close> free u(1) show
          "t' = u \<and> store_try_acquire tid assistant tok now [(tid, t1)] = Inr (Some t', [(tid, t')])"
          by (simp add: store_try_acquire_def Let_def)
      qed
      with u(2) show ?thesis by blast
    next
      case (Some y)
      with loop Suc.prems have "acquire_loop n sv tid assistant w4 = (Inr (Some u), w')"
        by (auto split: sum.splits if_splits)
      moreover have gr: "grows hist good w w4" by (rule grows_trans [OF gr1 grows_trans [OF mid gr4]])
      then have "good w4" by (simp add: grows_def)
      ultimately obtain tok now where "atomically hist w4 w' tid
          (\<lambda>t t'. t' = u \<and> store_try_acquire tid assistant tok now [(tid, t)] = Inr (Some t', [(tid, t')]))"
        using Suc.IH by blast
      from atomically_from [OF gr this] show ?thesis by (intro exI)
    qed
  qed simp
  then show ?thesis using assms(3) by (simp add: table_try_acquire_def)
qed

text \<open>What a version of the row was during an operation, for the calls that write nothing.\<close>

definition observed ::
    "('w \<Rightarrow> string \<Rightarrow> history) \<Rightarrow> 'w \<Rightarrow> 'w \<Rightarrow> string \<Rightarrow> (thread \<Rightarrow> bool) \<Rightarrow> bool" where
  "observed hist w w' tid P \<longleftrightarrow>
     (\<exists>h e g later t. hist w' tid = h @ Some (e, g) # later \<and> prefix (hist w tid) (h @ [Some (e, g)]) \<and>
        entity_to_thread e = Inr t \<and> P t)"

lemma observed_from:
  "grows hist good w w1 \<Longrightarrow> observed hist w1 w' tid P \<Longrightarrow> observed hist w w' tid P"
  unfolding grows_def observed_def by (meson prefix_order.trans)

lemma get_observed:
  assumes laws: "cas_laws sv hist good" and "good w" "tb_get sv tid w = (Inr r, w1)"
    "entity_to_thread (fst r) = Inr t"
  shows "observed hist w w1 tid (\<lambda>t'. t' = t)"
proof -
  obtain h e g later where c: "hist w1 tid = h @ Some (e, g) # later" "prefix (hist w tid) (h @ [Some (e, g)])"
      "same_props (fst r) e"
    using cas_get [OF assms(1-3)] by blast
  with same_props_thread [OF c(3)] assms(4) show ?thesis unfolding observed_def by blast
qed

lemma lock_token_of: "entity_to_thread e = Inr t \<Longrightarrow> entity_get e ''lock_token'' = TStr tok \<longleftrightarrow> th_token t = Some tok"
  by (auto simp: entity_to_thread_iff str_prop_def split: option.splits)

text \<open>
  The ETag loop of \<open>release_run_lock\<close> is atomic and owner-fenced: a release that returns a
  thread either changed nothing, having seen another owner's token, or replaced in one step a
  thread by what the in-memory \<open>release_run_lock\<close> makes of it, which implies that the token
  was the caller's just before. Oversized values are never stored in a form that reads back
  differently.
\<close>

theorem table_release_atomic:
  assumes "cas_laws sv hist good" "good w" "\<forall>d. vals = Some d \<longrightarrow> json_value (PDict d)"
    and "table_release sv enc tid status vals owner w = (Inr u, w')"
  shows "observed hist w w' tid (\<lambda>t. t = u \<and> owner \<noteq> None \<and> th_token t \<noteq> owner) \<or>
    (\<exists>now. atomically hist w w' tid
      (\<lambda>t t'. t' = u \<and> store_release tid status vals owner now [(tid, t)] = Inr (t', [(tid, t')])))"
proof -
  have st: "status \<noteq> SBusy" using assms(4) by (auto simp: table_release_def)
  have "observed hist w w' tid (\<lambda>t. t = u \<and> owner \<noteq> None \<and> th_token t \<noteq> owner) \<or>
    (\<exists>now. atomically hist w w' tid
      (\<lambda>t t'. t' = u \<and> store_release tid status vals owner now [(tid, t)] = Inr (t', [(tid, t')])))"
    if "release_loop n sv enc tid status vals owner w = (Inr u, w')" for n
    using that assms(2)
  proof (induction n arbitrary: w)
    case (Suc n)
    obtain g w1 where g: "tb_get sv tid w = (g, w1)" by fastforce
    then obtain r where r: "g = Inr r" using Suc.prems by (cases g) auto
    have gr1: "grows hist good w w1" using cas_grows(3) [OF assms(1) Suc.prems(2) g] .
    let ?stale = "case owner of None \<Rightarrow> False | Some tok \<Rightarrow> entity_get (fst r) ''lock_token'' \<noteq> TStr tok"
    show ?case
    proof (cases ?stale)
      case True
      then have u: "entity_to_thread (fst r) = Inr u" "w' = w1" using Suc.prems g r by auto
      have "observed hist w w1 tid (\<lambda>t'. t' = u)"
        by (rule get_observed [OF assms(1) Suc.prems(2) g [unfolded r] u(1)])
      moreover have "owner \<noteq> None \<and> th_token u \<noteq> owner"
        using True lock_token_of [OF u(1)] by (auto split: option.splits)
      ultimately show ?thesis using u(2) unfolding observed_def by blast
    next
      case False
      obtain now w2 where now: "tb_now sv w1 = (now, w2)" by fastforce
      let ?e = "release_replacement enc status vals now (fst r)"
      obtain x w3 where upd: "tb_update sv tid ?e ReplaceMode (lock_etag r) w2 = (x, w3)" by fastforce
      have mid: "grows hist good w1 w2" using cas_grows(1) [OF assms(1) _ now] gr1 by (simp add: grows_def)
      then have gr3: "grows hist good w2 w3" using cas_grows(4) [OF assms(1) _ upd] by (simp add: grows_def)
      have loop: "release_loop (Suc n) sv enc tid status vals owner w =
          (case check_entity ?e of Inl x \<Rightarrow> (Inl x, w2)
           | Inr _ \<Rightarrow> (case x of None \<Rightarrow> (entity_to_thread ?e, w3)
               | Some x \<Rightarrow> if x = Modified then release_loop n sv enc tid status vals owner w3
                   else (Inl (key_failure tid x), w3)))"
        using g r False now upd
        by (cases "check_entity ?e"; cases x) (simp_all add: Let_def)
      then obtain v where v: "check_entity ?e = Inr v" using Suc.prems by (cases "check_entity ?e") auto
      show ?thesis
      proof (cases x)
        case None
        with loop Suc.prems v have u: "entity_to_thread ?e = Inr u" "w' = w3" by auto
        have "atomically hist w w3 tid
            (\<lambda>t t'. t' = u \<and> store_release tid status vals owner now [(tid, t)] = Inr (t', [(tid, t')]))"
        proof (rule cas_atomically [OF assms(1) Suc.prems(2) g [unfolded r] mid upd [unfolded None]])
          fix e t t'
          assume t: "th_id t = tid" "entity_to_thread (fst r) = Inr t" "dict_ok (fst r)"
            "entity_to_thread (applied ReplaceMode e ?e) = Inr t'"
          have "u = unlock_thread status vals now t" "t' = u"
            using release_writes [OF t(2,3) assms(3) v] u(1) t(4) by (simp_all add: applied_def)
          with st False lock_token_of [OF t(2)] show
            "t' = u \<and> store_release tid status vals owner now [(tid, t)] = Inr (t', [(tid, t')])"
            by (auto simp: store_release_def Let_def split: option.splits)
        qed
        with u(2) show ?thesis by blast
      next
        case (Some y)
        with loop Suc.prems v have "release_loop n sv enc tid status vals owner w3 = (Inr u, w')"
          by (auto split: if_splits)
        moreover have gr: "grows hist good w w3" by (rule grows_trans [OF gr1 grows_trans [OF mid gr3]])
        then have "good w3" by (simp add: grows_def)
        ultimately consider "observed hist w3 w' tid (\<lambda>t. t = u \<and> owner \<noteq> None \<and> th_token t \<noteq> owner)"
          | now where "atomically hist w3 w' tid
              (\<lambda>t t'. t' = u \<and> store_release tid status vals owner now [(tid, t)] = Inr (t', [(tid, t')]))"
          using Suc.IH by blast
        then show ?thesis
        proof cases
          case 1
          from observed_from [OF gr this] show ?thesis by (rule disjI1)
        next
          case 2
          from atomically_from [OF gr this] show ?thesis by (intro disjI2 exI)
        qed
      qed
    qed
  qed simp
  then show ?thesis using assms(4) st by (simp add: table_release_def)
qed

text \<open>
  The ETag loop of \<open>update\<close> is atomic too: an update that returns a thread replaced, in one
  step of the row's history, a thread by what the in-memory \<open>update\<close> makes of it, so no
  concurrent write of another field is lost.
\<close>

theorem table_update_atomic:
  assumes "cas_laws sv hist good" "good w"
    and "\<forall>d. p_metadata p = Some d \<longrightarrow> json_value (PDict d)" "\<forall>d. p_values p = Some d \<longrightarrow> json_value (PDict d)"
      "\<forall>d. p_interrupts p = Some d \<longrightarrow> json_value (PDict d)"
    and "table_update sv enc tid p w = (Inr u, w')"
  shows "\<exists>now. atomically hist w w' tid (\<lambda>t t'. t' = u \<and> store_update tid p now [(tid, t)] = Inr (t', [(tid, t')]))"
proof -
  have "\<exists>now. atomically hist w w' tid (\<lambda>t t'. t' = u \<and> store_update tid p now [(tid, t)] = Inr (t', [(tid, t')]))"
    if "update_loop n sv enc tid p w = (Inr u, w')" for n
    using that assms(2)
  proof (induction n arbitrary: w)
    case (Suc n)
    obtain g w1 where g: "tb_get sv tid w = (g, w1)" by fastforce
    have gr1: "grows hist good w w1" using cas_grows(3) [OF assms(1) Suc.prems(2) g] .
    have retry: ?case if "update_loop n sv enc tid p w2 = (Inr u, w')" and gr: "grows hist good w w2" for w2
    proof -
      have "good w2" using gr by (simp add: grows_def)
      with that obtain now where "atomically hist w2 w' tid
          (\<lambda>t t'. t' = u \<and> store_update tid p now [(tid, t)] = Inr (t', [(tid, t')]))"
        using Suc.IH by blast
      from atomically_from [OF gr this] show ?thesis by (intro exI)
    qed
    show ?case
    proof (cases g)
      case (Inl x)
      with g Suc.prems have "update_loop n sv enc tid p w1 = (Inr u, w')" by (auto split: if_splits)
      then show ?thesis using gr1 by (rule retry)
    next
      case (Inr r)
      obtain now w2 where now: "tb_now sv w1 = (now, w2)" by fastforce
      let ?e = "update_replacement enc p now (fst r)"
      obtain x w3 where upd: "tb_update sv tid ?e ReplaceMode (update_etag r) w2 = (x, w3)" by fastforce
      have mid: "grows hist good w1 w2" using cas_grows(1) [OF assms(1) _ now] gr1 by (simp add: grows_def)
      then have gr3: "grows hist good w2 w3" using cas_grows(4) [OF assms(1) _ upd] by (simp add: grows_def)
      have loop: "update_loop (Suc n) sv enc tid p w =
          (case check_entity ?e of Inl x \<Rightarrow> (Inl x, w2)
           | Inr _ \<Rightarrow> (case x of None \<Rightarrow> (entity_to_thread ?e, w3)
               | Some x \<Rightarrow> if x = Modified \<and> n \<noteq> 0 then update_loop n sv enc tid p w3
                   else (Inl (key_failure tid x), w3)))"
        using g Inr now upd by (cases "check_entity ?e"; cases x) (simp_all add: Let_def)
      then obtain v where v: "check_entity ?e = Inr v" using Suc.prems by (cases "check_entity ?e") auto
      show ?thesis
      proof (cases x)
        case None
        with loop Suc.prems v have u: "entity_to_thread ?e = Inr u" "w' = w3" by auto
        have "update_etag r = lock_etag r" using cas_get [OF assms(1) Suc.prems(2) g [unfolded Inr]] by auto
        with upd None have upd': "tb_update sv tid ?e ReplaceMode (lock_etag r) w2 = (None, w3)" by simp
        have "atomically hist w w3 tid
            (\<lambda>t t'. t' = u \<and> store_update tid p now [(tid, t)] = Inr (t', [(tid, t')]))"
        proof (rule cas_atomically [OF assms(1) Suc.prems(2) g [unfolded Inr] mid upd'])
          fix e t t'
          assume t: "th_id t = tid" "entity_to_thread (fst r) = Inr t" "dict_ok (fst r)"
            "entity_to_thread (applied ReplaceMode e ?e) = Inr t'"
          have "u = patch_thread p now t" "t' = u"
            using update_writes [OF t(2,3) assms(3-5) v] u(1) t(4) by (simp_all add: applied_def)
          then show "t' = u \<and> store_update tid p now [(tid, t)] = Inr (t', [(tid, t')])"
            by (simp add: store_update_def Let_def)
        qed
        with u(2) show ?thesis by blast
      next
        case (Some y)
        with loop Suc.prems v have "update_loop n sv enc tid p w3 = (Inr u, w')"
          by (auto split: if_splits)
        then show ?thesis by (rule retry) (rule grows_trans [OF gr1 grows_trans [OF mid gr3]])
      qed
    qed
  qed simp
  then show ?thesis using assms(6) by (simp add: table_update_def)
qed

text \<open>
  What a reset of a stale lock leaves behind: only the status and the update time change. The
  token of the lost run stays, so a late \<open>release_run_lock\<close> by that run is not recognised as
  stale, although its documentation says that such a release is rejected: it overwrites the
  thread's status and values.
\<close>

theorem reset_keeps_token:
  assumes "entity_to_thread e = Inr t" "th_id t = tid" "status' \<noteq> SBusy"
  shows "\<exists>u. entity_to_thread (dict_merge e (reset_patch tid status now)) = Inr u \<and>
    u = t\<lparr>th_status := status, th_updated := now\<rparr> \<and>
    store_release tid status' vals (th_token t) now' [(tid, u)] =
      Inr (unlock_thread status' vals now' u, [(tid, unlock_thread status' vals now' u)])"
proof -
  let ?p = "reset_patch tid status now"
  let ?E = "dict_merge e ?p"
  have E: "map_of ?E k = (case map_of ?p k of None \<Rightarrow> map_of e k | Some v \<Rightarrow> Some v)" for k
    by (rule map_of_merge_patch) (simp add: reset_patch_def dict_ok_def)
  have p: "map_of ?p ''RowKey'' = Some (TStr tid)" "map_of ?p ''created_at'' = None"
    "map_of ?p ''updated_at'' = Some (TTime now)" "map_of ?p ''status'' = Some (TStr (status_text status))"
    "map_of ?p ''lock_token'' = None" "map_of ?p ''lock_expires_at'' = None" "map_of ?p ''assistant_id'' = None"
    by (simp_all add: reset_patch_def)
  have none: "map_of ?p (c # k) = None" if "c \<in> set ''mvi''" for c k
    using that by (auto simp: reset_patch_def)
  have json: "read_json ?E (c # field) d = read_json e (c # field) d" if "c \<in> set ''mvi''" for c field d
    by (rule read_json_hd_cong) (simp add: E none [OF that])
  have fields: "read_json ?E ''metadata_json'' PNone = read_json e ''metadata_json'' PNone"
    "read_json ?E ''values_json'' PNone = read_json e ''values_json'' PNone"
    "read_json ?E ''interrupts_json'' (PDict []) = read_json e ''interrupts_json'' (PDict [])"
    by (rule json, simp)+
  have "entity_to_thread ?E = Inr (t\<lparr>th_status := status, th_updated := now\<rparr>)"
    using assms(1,2) unfolding entity_to_thread_iff status_is_def entity_get_def fields E p by simp
  with assms(3) show ?thesis by (simp add: store_release_def Let_def)
qed

end
