(* ===== verification/Table_Memory.thy ===== *)
theory Table_Memory
  imports Table_Store
begin

text \<open>
  A table that keeps the promises of \<open>Table_Store\<close>, as a concrete service: the rows with their
  whole history, a clock and a counter for ids. It satisfies the laws the store relies on, so
  the theorems under them apply to something, and the examples evaluate on it.
\<close>

record memory =
  mt_rows :: "string \<Rightarrow> history"
  mt_keys :: "string list"
  mt_clock :: int
  mt_ids :: nat

definition version_tag :: "nat \<Rightarrow> tprop" where
  "version_tag i = TStr (nat_text i)"

definition row_ok :: "string \<Rightarrow> entity \<Rightarrow> bool" where
  "row_ok tid e \<longleftrightarrow> dict_ok e \<and> map_of e ''RowKey'' = Some (TStr tid) \<and> \<not> isl (entity_to_thread e)"

definition current_row :: "memory \<Rightarrow> string \<Rightarrow> (entity \<times> tprop) option" where
  "current_row w tid = (if mt_rows w tid = [] then None else last (mt_rows w tid))"

definition append_row :: "string \<Rightarrow> (entity \<times> tprop) option \<Rightarrow> memory \<Rightarrow> memory" where
  "append_row tid v w = w\<lparr>mt_rows := (mt_rows w)(tid := mt_rows w tid @ [v]),
     mt_keys := (if tid \<in> set (mt_keys w) then mt_keys w else mt_keys w @ [tid])\<rparr>"

definition put_row :: "string \<Rightarrow> entity \<Rightarrow> memory \<Rightarrow> client_error option \<times> memory" where
  "put_row tid e w =
     (if row_ok tid e then (None, append_row tid (Some (e, version_tag (length (mt_rows w tid)))) w)
      else (Some (OtherFailure 400), w))"

definition row_matches :: "string \<Rightarrow> entity \<Rightarrow> bool" where
  "row_matches f e \<longleftrightarrow> f = query_filter None \<or>
     list_ex (\<lambda>s. f = query_filter (Some s) \<and> map_of e ''status'' = Some (TStr (status_text s)))
       [SIdle, SBusy, SInterrupted, SError]"

definition mem_get :: "string \<Rightarrow> memory \<Rightarrow> (client_error + row) \<times> memory" where
  "mem_get tid w = (case current_row w tid of None \<Rightarrow> Inl NotFound | Some v \<Rightarrow> Inr (fst v, Some (snd v)), w)"

definition mem_update :: "string \<Rightarrow> entity \<Rightarrow> update_mode \<Rightarrow> tprop \<Rightarrow> memory \<Rightarrow> client_error option \<times> memory" where
  "mem_update tid e mode g w =
     (case current_row w tid of
        None \<Rightarrow> (Some NotFound, w)
      | Some v \<Rightarrow> (if snd v \<noteq> g then (Some Modified, w) else put_row tid (applied mode (fst v) e) w))"

definition mem_create :: "entity \<Rightarrow> memory \<Rightarrow> client_error option \<times> memory" where
  "mem_create e w =
     (case map_of e ''RowKey'' of
        Some (TStr tid) \<Rightarrow> (if current_row w tid \<noteq> None then (Some (OtherFailure 409), w) else put_row tid e w)
      | _ \<Rightarrow> (Some (OtherFailure 400), w))"

definition mem_delete :: "string \<Rightarrow> memory \<Rightarrow> client_error option \<times> memory" where
  "mem_delete tid w =
     (case current_row w tid of None \<Rightarrow> (Some NotFound, w) | Some _ \<Rightarrow> (None, append_row tid None w))"

definition mem_query :: "string \<Rightarrow> memory \<Rightarrow> (client_error + row list) \<times> memory" where
  "mem_query f w =
     (Inr (concat (map (\<lambda>tid. case current_row w tid of None \<Rightarrow> []
        | Some v \<Rightarrow> if row_matches f (fst v) then [(fst v, Some (snd v))] else []) (mt_keys w))), w)"

definition mem_now :: "memory \<Rightarrow> int \<times> memory" where
  "mem_now w = (mt_clock w, w\<lparr>mt_clock := mt_clock w + 1\<rparr>)"

definition mem_uuid :: "memory \<Rightarrow> string \<times> memory" where
  "mem_uuid w = (nat_text (mt_ids w), w\<lparr>mt_ids := Suc (mt_ids w)\<rparr>)"

definition mem_table :: "memory table_service" where
  "mem_table = \<lparr>tb_get = mem_get, tb_update = mem_update, tb_create = mem_create,
     tb_delete = mem_delete, tb_query = mem_query, tb_now = mem_now, tb_uuid = mem_uuid\<rparr>"

lemma mem_table_simps [simp]:
  "tb_get mem_table = mem_get" "tb_update mem_table = mem_update" "tb_create mem_table = mem_create"
  "tb_delete mem_table = mem_delete" "tb_query mem_table = mem_query" "tb_now mem_table = mem_now"
  "tb_uuid mem_table = mem_uuid"
  by (simp_all add: mem_table_def)

definition mem_good :: "memory \<Rightarrow> bool" where
  "mem_good w \<longleftrightarrow>
     (\<forall>tid i e g. i < length (mt_rows w tid) \<longrightarrow> mt_rows w tid ! i = Some (e, g) \<longrightarrow>
        g = version_tag i \<and> row_ok tid e)"

lemma version_tag_simps [simp]:
  "version_tag i = version_tag j \<longleftrightarrow> i = j" "truthy_prop (version_tag i)" "version_tag i \<noteq> TNone"
  by (simp_all add: version_tag_def nat_text_inj)

lemma row_ok_thread: "row_ok tid e \<Longrightarrow> \<exists>t. entity_to_thread e = Inr t"
  by (cases "entity_to_thread e") (auto simp: row_ok_def)

lemma mem_good_history:
  assumes "mem_good w"
  shows "history_ok mt_rows w"
proof -
  have v: "g = version_tag i \<and> row_ok tid e" if "i < length (mt_rows w tid)" "mt_rows w tid ! i = Some (e, g)" for tid i e g
    using assms that unfolding mem_good_def by blast
  have "i = j" if "i < length (mt_rows w tid)" "j < length (mt_rows w tid)" "mt_rows w tid ! i = Some (e, g)"
      "mt_rows w tid ! j = Some (e', g)" for tid i j e e' g
    using v [OF that(1,3)] v [OF that(2,4)] by simp
  moreover have "dict_ok e \<and> map_of e ''RowKey'' = Some (TStr tid) \<and> (\<exists>t. entity_to_thread e = Inr t)"
    if "Some (e, g) \<in> set (mt_rows w tid)" for tid e g
    using that v row_ok_thread by (auto simp: in_set_conv_nth row_ok_def)
  ultimately show ?thesis unfolding history_ok_def by blast
qed

lemma mem_good_append:
  assumes "mem_good w" "case v of None \<Rightarrow> True | Some (e, g) \<Rightarrow> g = version_tag (length (mt_rows w tid)) \<and> row_ok tid e"
  shows "mem_good (append_row tid v w)"
  unfolding mem_good_def
proof (intro allI impI)
  fix t i e g
  assume i: "i < length (mt_rows (append_row tid v w) t)" "mt_rows (append_row tid v w) t ! i = Some (e, g)"
  show "g = version_tag i \<and> row_ok t e"
  proof (cases "t = tid \<and> i = length (mt_rows w tid)")
    case True
    with i(2) assms(2) show ?thesis by (simp add: append_row_def)
  next
    case False
    with i have "i < length (mt_rows w t)" "mt_rows w t ! i = Some (e, g)"
      by (auto simp: append_row_def nth_append split: if_splits)
    with assms(1) show ?thesis unfolding mem_good_def by blast
  qed
qed

lemma mem_grows_append:
  assumes "mem_good w" "case v of None \<Rightarrow> True | Some (e, g) \<Rightarrow> g = version_tag (length (mt_rows w tid)) \<and> row_ok tid e"
  shows "grows mt_rows mem_good w (append_row tid v w)"
  using mem_good_append [OF assms] by (auto simp: grows_def append_row_def)

lemma mem_grows_put: "mem_good w \<Longrightarrow> grows mt_rows mem_good w (snd (put_row tid e w))"
  by (auto simp: put_row_def grows_refl intro: mem_grows_append)

lemma current_row_last:
  "current_row w tid = Some (e, g) \<Longrightarrow> \<exists>h. mt_rows w tid = h @ [Some (e, g)]"
  by (metis append_butlast_last_id current_row_def option.distinct(1))

lemma mem_good_current:
  assumes "mem_good w" "current_row w tid = Some (e, g)"
  shows "g = version_tag (length (mt_rows w tid) - 1) \<and> row_ok tid e"
proof -
  let ?i = "length (mt_rows w tid) - 1"
  have "mt_rows w tid \<noteq> []" "last (mt_rows w tid) = Some (e, g)"
    using assms(2) by (auto simp: current_row_def split: if_splits)
  then have "?i < length (mt_rows w tid)" "mt_rows w tid ! ?i = Some (e, g)"
    by (simp_all add: last_conv_nth)
  with assms(1) show ?thesis unfolding mem_good_def by blast
qed

lemma mem_get_law:
  assumes "mem_good w" "tb_get mem_table tid w = (Inr r, w1)"
  shows "\<exists>h e g later. mt_rows w1 tid = h @ Some (e, g) # later \<and> prefix (mt_rows w tid) (h @ [Some (e, g)]) \<and>
    same_props (fst r) e \<and> dict_ok (fst r) \<and> lock_etag r = g \<and> update_etag r = g"
proof -
  obtain e g where c: "current_row w tid = Some (e, g)" "r = (e, Some g)" "w1 = w"
    using assms(2) by (cases "current_row w tid") (auto simp: mem_get_def)
  obtain h where h: "mt_rows w tid = h @ [Some (e, g)]" using current_row_last [OF c(1)] by blast
  with c have "mt_rows w1 tid = h @ Some (e, g) # [] \<and> prefix (mt_rows w tid) (h @ [Some (e, g)])" by simp
  moreover have "g = version_tag (length (mt_rows w tid) - 1)" "row_ok tid e"
    using mem_good_current [OF assms(1) c(1)] by simp_all
  then have "same_props (fst r) e \<and> dict_ok (fst r) \<and> lock_etag r = g \<and> update_etag r = g"
    using c(2) by (simp add: same_props_def row_ok_def lock_etag_def update_etag_def Let_def)
  ultimately show ?thesis by blast
qed

lemma mem_update_law:
  assumes "mem_good w" "tb_update mem_table tid p mode g w = (None, w1)"
  shows "\<exists>h old new g' later. mt_rows w1 tid = h @ Some (old, g) # Some (new, g') # later \<and>
    prefix (mt_rows w tid) (h @ [Some (old, g)]) \<and> same_props new (applied mode old p)"
proof -
  obtain old where c: "current_row w tid = Some (old, g)" "put_row tid (applied mode old p) w = (None, w1)"
    using assms(2) by (cases "current_row w tid") (auto simp: mem_update_def split: if_splits)
  have "mt_rows w1 tid = mt_rows w tid @ [Some (applied mode old p, version_tag (length (mt_rows w tid)))]"
    using c(2) by (auto simp: put_row_def append_row_def split: if_splits)
  moreover obtain h where "mt_rows w tid = h @ [Some (old, g)]" using current_row_last [OF c(1)] by blast
  ultimately have
    "mt_rows w1 tid = h @ Some (old, g) #
        Some (applied mode old p, version_tag (length (mt_rows w tid))) # [] \<and>
      prefix (mt_rows w tid) (h @ [Some (old, g)]) \<and>
      same_props (applied mode old p) (applied mode old p)"
    by (simp add: same_props_def)
  then show ?thesis by (intro exI)
qed

theorem mem_table_laws: "cas_laws mem_table mt_rows mem_good"
proof -
  have same: "mem_good (w\<lparr>mt_clock := c\<rparr>) = mem_good w" "mem_good (w\<lparr>mt_ids := n\<rparr>) = mem_good w" for w c n
    by (simp_all add: mem_good_def)
  have clock: "grows mt_rows mem_good w (snd (tb_now mem_table w)) \<and> grows mt_rows mem_good w (snd (tb_uuid mem_table w))"
    if "mem_good w" for w
    using that by (simp add: mem_now_def mem_uuid_def grows_def same)
  have get: "grows mt_rows mem_good w (snd (tb_get mem_table tid w))" if "mem_good w" for w tid
    using that by (simp add: mem_get_def grows_refl)
  have upd: "grows mt_rows mem_good w (snd (tb_update mem_table tid e mode g w))" if "mem_good w" for w tid e mode g
    using that mem_grows_put [OF that] by (auto simp: mem_update_def grows_refl split: option.splits)
  show ?thesis
    unfolding cas_laws_def
    using mem_good_history clock get upd mem_get_law mem_update_law by (intro conjI allI impI) blast+
qed

section \<open>Examples\<close>

definition example_row :: entity where
  "example_row = [(''PartitionKey'', TStr partition_key), (''RowKey'', TStr ''t1''), (''created_at'', TTime 0),
     (''updated_at'', TTime 0), (''status'', TStr ''idle'')]"

definition example_table :: memory where
  "example_table = \<lparr>mt_rows = (\<lambda>_. [])(''t1'' := [Some (example_row, version_tag 0)]), mt_keys = [''t1''],
     mt_clock = 5, mt_ids = 7\<rparr>"

definition example_thread :: thread where
  "example_thread = new_thread ''t1'' 0 None"

lemma example_row_thread: "entity_to_thread example_row = Inr example_thread"
  by (simp add: entity_to_thread_iff example_row_def example_thread_def new_thread_def read_json_def
      status_is_def entity_get_def dict_val_def str_prop_def time_prop_def)

lemma example_good: "mem_good example_table"
  using example_row_thread
  by (auto simp: mem_good_def example_table_def row_ok_def dict_ok_def example_row_def)

definition example_patch :: thread_patch where
  "example_patch = \<lparr>p_metadata = None, p_status = Some SError, p_values = None,
     p_interrupts = None, p_assistant = Some ''g''\<rparr>"

lemma mem_update_ok:
  assumes "current_row w tid = Some (old, g)" "entity_to_thread (applied mode old e) = Inr t"
    "dict_ok (applied mode old e)" "map_of (applied mode old e) ''RowKey'' = Some (TStr tid)"
  shows "fst (mem_update tid e mode g w) = None"
  using assms by (simp add: mem_update_def put_row_def row_ok_def)

lemma example_current:
  "current_row (example_table\<lparr>mt_clock := c, mt_ids := n\<rparr>) ''t1'' = Some (example_row, version_tag 0)"
  "current_row (example_table\<lparr>mt_clock := c\<rparr>) ''t1'' = Some (example_row, version_tag 0)"
  "current_row example_table ''t1'' = Some (example_row, version_tag 0)"
  by (simp_all add: current_row_def example_table_def)

lemma example_now: "mem_now example_table = (5, example_table\<lparr>mt_clock := 6\<rparr>)"
  by (simp add: mem_now_def example_table_def)

lemma example_uuid: "mem_uuid (example_table\<lparr>mt_clock := 6\<rparr>) = (''7'', example_table\<lparr>mt_clock := 6, mt_ids := 8\<rparr>)"
proof -
  have "nat_text 7 = ''7''" by code_simp
  then show ?thesis by (simp add: mem_uuid_def example_table_def)
qed

lemmas small_entity =
  check_entity_def validate_entity_def counted_def value_size_def utf16_size_def property_bytes_def
  entity_bytes_def partition_key_def

lemma example_free: "\<not> bound_to_other example_thread None" "th_status example_thread \<noteq> SBusy"
    "th_id example_thread = ''t1''" "th_assistant example_thread = None"
  by (simp_all add: example_thread_def new_thread_def bound_to_other_def)

lemma example_acquire_run:
  "fst (table_try_acquire mem_table ''t1'' None example_table) =
     Inr (Some (lock_thread None ''7'' 5 example_thread))"
proof -
  let ?p = "acquire_patch ''t1'' None ''7'' 5 example_thread"
  let ?w = "example_table\<lparr>mt_clock := 6, mt_ids := 8\<rparr>"
  have "check_entity (dict_merge example_row ?p) = Inr ()"
    by (simp add: acquire_patch_def example_row_def example_free small_entity)
  moreover have "fst (mem_update ''t1'' ?p MergeMode (version_tag 0) ?w) = None"
  proof (rule mem_update_ok [OF example_current(1)])
    show "entity_to_thread (applied MergeMode example_row ?p) = Inr (lock_thread None ''7'' 5 example_thread)"
      unfolding applied_def by (simp add: acquire_writes [OF example_row_thread] example_free)
  qed (simp_all add: applied_def acquire_patch_def example_free example_row_def dict_ok_def)
  then obtain w' where "mem_update ''t1'' ?p MergeMode (version_tag 0) ?w = (None, w')"
    by (cases "mem_update ''t1'' ?p MergeMode (version_tag 0) ?w") simp
  ultimately show ?thesis
    by (simp add: table_try_acquire_def numeral_3_eq_3 mem_get_def example_current example_row_thread
        example_free example_now example_uuid lock_etag_def)
qed

lemma example_replace_run:
  assumes "entity_to_thread e = Inr t" "dict_ok e" "map_of e ''RowKey'' = Some (TStr ''t1'')"
  obtains w' where "mem_update ''t1'' e ReplaceMode (version_tag 0) (example_table\<lparr>mt_clock := 6\<rparr>) = (None, w')"
proof -
  have "fst (mem_update ''t1'' e ReplaceMode (version_tag 0) (example_table\<lparr>mt_clock := 6\<rparr>)) = None"
    by (rule mem_update_ok [OF example_current(2)]) (use assms in \<open>simp_all add: applied_def\<close>)
  with that show ?thesis
    by (cases "mem_update ''t1'' e ReplaceMode (version_tag 0) (example_table\<lparr>mt_clock := 6\<rparr>)") simp
qed

lemma example_row_ok: "dict_ok example_row"
  by (simp add: example_row_def dict_ok_def)

lemma example_release_run:
  "fst (table_release mem_table (\<lambda>_. []) ''t1'' SIdle None None example_table) =
     Inr (unlock_thread SIdle None 5 example_thread)"
proof -
  let ?e = "release_replacement (\<lambda>_. []) SIdle None 5 example_row"
  have c: "check_entity ?e = Inr ()"
    by (simp add: release_replacement_def opt_write_def dict_drop_def example_row_def small_entity)
  have t: "entity_to_thread ?e = Inr (unlock_thread SIdle None 5 example_thread)"
    by (rule release_writes [OF example_row_thread example_row_ok _ c]) simp
  obtain w' where "mem_update ''t1'' ?e ReplaceMode (version_tag 0) (example_table\<lparr>mt_clock := 6\<rparr>) = (None, w')"
    by (rule example_replace_run [OF t])
      (simp_all add: release_replacement_def opt_write_def dict_drop_def example_row_def dict_ok_def)
  with c t show ?thesis
    by (simp add: table_release_def numeral_3_eq_3 mem_get_def example_current example_now lock_etag_def)
qed

lemma example_update_run:
  "fst (table_update mem_table (\<lambda>_. []) ''t1'' example_patch example_table) =
     Inr (patch_thread example_patch 5 example_thread)"
proof -
  let ?e = "update_replacement (\<lambda>_. []) example_patch 5 example_row"
  have c: "check_entity ?e = Inr ()"
    by (simp add: update_replacement_def opt_write_def example_patch_def dict_drop_def example_row_def small_entity)
  have t: "entity_to_thread ?e = Inr (patch_thread example_patch 5 example_thread)"
    by (rule update_writes [OF example_row_thread example_row_ok _ _ _ c]) (simp_all add: example_patch_def)
  obtain w' where "mem_update ''t1'' ?e ReplaceMode (version_tag 0) (example_table\<lparr>mt_clock := 6\<rparr>) = (None, w')"
    by (rule example_replace_run [OF t])
      (simp_all add: update_replacement_def opt_write_def example_patch_def dict_drop_def example_row_def dict_ok_def)
  with c t show ?thesis
    by (simp add: table_update_def numeral_3_eq_3 mem_get_def example_current example_now update_etag_def)
qed

lemma with_fst: "fst p = x \<Longrightarrow> p = (x, snd p)"
  by (cases p) simp

lemma table_acquire_atomic_witness:
  "\<exists>tok now. atomically mt_rows example_table (snd (table_try_acquire mem_table ''t1'' None example_table)) ''t1''
     (\<lambda>t t'. t' = lock_thread None ''7'' 5 example_thread \<and>
        store_try_acquire ''t1'' None tok now [(''t1'', t)] = Inr (Some t', [(''t1'', t')]))"
  by (rule table_acquire_atomic [OF mem_table_laws example_good with_fst [OF example_acquire_run]])

lemma table_release_atomic_witness:
  "observed mt_rows example_table (snd (table_release mem_table (\<lambda>_. []) ''t1'' SIdle None None example_table))
      ''t1'' (\<lambda>t. t = unlock_thread SIdle None 5 example_thread \<and> None \<noteq> (None :: string option) \<and> th_token t \<noteq> None) \<or>
    (\<exists>now. atomically mt_rows example_table
      (snd (table_release mem_table (\<lambda>_. []) ''t1'' SIdle None None example_table)) ''t1''
      (\<lambda>t t'. t' = unlock_thread SIdle None 5 example_thread \<and>
        store_release ''t1'' SIdle None None now [(''t1'', t)] = Inr (t', [(''t1'', t')])))"
  by (rule table_release_atomic [OF mem_table_laws example_good _ with_fst [OF example_release_run]]) simp

lemma table_update_atomic_witness:
  "\<exists>now. atomically mt_rows example_table
      (snd (table_update mem_table (\<lambda>_. []) ''t1'' example_patch example_table)) ''t1''
      (\<lambda>t t'. t' = patch_thread example_patch 5 example_thread \<and>
        store_update ''t1'' example_patch now [(''t1'', t)] = Inr (t', [(''t1'', t')]))"
  by (rule table_update_atomic [OF mem_table_laws example_good _ _ _ with_fst [OF example_update_run]])
    (simp_all add: example_patch_def)

lemma reset_keeps_token_witness:
  "\<exists>u. entity_to_thread (dict_merge example_row (reset_patch ''t1'' SError 9)) = Inr u \<and>
    u = example_thread\<lparr>th_status := SError, th_updated := 9\<rparr> \<and>
    store_release ''t1'' SIdle None (th_token example_thread) 10 [(''t1'', u)] =
      Inr (unlock_thread SIdle None 10 u, [(''t1'', unlock_thread SIdle None 10 u)])"
  by (rule reset_keeps_token [OF example_row_thread]) (simp_all add: example_thread_def new_thread_def)

end
