(* ===== verification/Run_Scope.thy ===== *)
theory Run_Scope
  imports Async_Lock
begin

text \<open>
  What the run adapters share: the observer's lifecycle events (\<^verbatim>\<open>observability.py\<close>), exceptions
  as values, the graph as an unknown program, and the lock extended by a trace of the events.
  Times and the process-unique execution id of a context are left out.
\<close>

section \<open>Observer events\<close>

record run_context =
  rc_graph :: string
  rc_endpoint :: string
  rc_run_id :: string
  rc_thread :: "string option"
  rc_assistant :: "string option"
  rc_invocation :: "string option"
  rc_checkpointer :: bool
  rc_trigger :: string

datatype exn = Exn (exn_type: string) (exn_message: string)

text \<open>
  \<open>except Exception\<close> lets the other base exceptions pass; of a store or a lock every error is an
  \<open>Exception\<close>.
\<close>

definition base_exn :: "exn \<Rightarrow> bool" where
  "base_exn e \<longleftrightarrow> exn_type e \<in> {''KeyboardInterrupt'', ''SystemExit'', ''GeneratorExit'', ''CancelledError''}"

datatype run_event =
    RunStarted run_context
  | RunCompleted run_context
  | RunFailed run_context exn
  | RunRejected run_context string

text \<open>\<open>run_id or uuid4().hex\<close>: an empty id is replaced by the fresh one.\<close>

definition new_run_context ::
    "string \<Rightarrow> string \<Rightarrow> string \<Rightarrow> string option \<Rightarrow> string option \<Rightarrow> string option \<Rightarrow>
     string option \<Rightarrow> bool \<Rightarrow> string \<Rightarrow> run_context" where
  "new_run_context fresh graph_name endpoint run_id thread_id assistant_id invocation_id ckpt trigger =
     \<lparr>rc_graph = graph_name, rc_endpoint = endpoint,
      rc_run_id = (case run_id of None \<Rightarrow> fresh | Some r \<Rightarrow> if r = [] then fresh else r),
      rc_thread = thread_id, rc_assistant = assistant_id, rc_invocation = invocation_id,
      rc_checkpointer = ckpt, rc_trigger = trigger\<rparr>"

definition is_id_char :: "char \<Rightarrow> bool" where
  "is_id_char c = (is_name_char c \<or> c = CHR ''.'')"

text \<open>
  \<open>request_id_from_headers\<close>: the first nonempty header value, if all of it is 1 to 64 safe
  characters (\<open>fullmatch\<close>), and otherwise a generated id.
\<close>

definition request_id_from_headers :: "string \<Rightarrow> string dict \<Rightarrow> string" where
  "request_id_from_headers fresh headers =
     (let candidate = (case map_of headers ''x-request-id'' of
            Some v \<Rightarrow> (if v = [] then map_of headers ''X-Request-ID'' else Some v)
          | None \<Rightarrow> map_of headers ''X-Request-ID'')
      in case candidate of
          None \<Rightarrow> fresh
        | Some v \<Rightarrow>
            (if 1 \<le> length v \<and> length v \<le> 64 \<and> list_all is_id_char v then v else fresh))"

section \<open>The graph\<close>

text \<open>
  User code: a synchronous \<open>invoke\<close> and an asynchronous \<open>ainvoke\<close>, which may also end by a
  cancellation. They may change the state, but see the locale for what of it is theirs.
\<close>

record registration =
  reg_graph :: nat
  reg_name :: string
  reg_async :: bool
  reg_invocable :: bool
  reg_checkpointer :: bool

record 's graph_runtime =
  gr_invoke :: "nat \<Rightarrow> pyval \<Rightarrow> pyval dict option \<Rightarrow> 's \<Rightarrow> (exn + pyval) \<times> 's"
  gr_ainvoke :: "nat \<Rightarrow> pyval \<Rightarrow> pyval dict option \<Rightarrow> 's \<Rightarrow> (exn, pyval) outcome \<times> 's"

text \<open>
  The lock's optional capability: \<open>gp_provider\<close> is its \<open>ownership_guard\<close> method, \<open>gp_is_guard\<close>
  the type test, \<open>gp_check\<close> what a guard's \<open>check\<close> says in a state.
\<close>

record 's guard_side =
  gp_is_guard :: "nat \<Rightarrow> bool"
  gp_provider :: "(string \<Rightarrow> string \<Rightarrow> string \<Rightarrow> pyval) option"
  gp_check :: "nat \<Rightarrow> 's \<Rightarrow> lease_lost_error option"

fun guard_exn :: "guard_error \<Rightarrow> exn" where
  "guard_exn (LeaseLost e) = Exn ''ThreadLeaseLostError'' (lease_loss_message (lle_reason e))"
| "guard_exn GuardTypeError = Exn ''TypeError'' ''ownership_guard() must return an OwnershipGuard or None''"

definition cancelled_exn :: exn where
  "cancelled_exn = Exn ''CancelledError'' []"

section \<open>A lock and an observer\<close>

locale run_scope = thread_lock +
  fixes observe :: "run_event \<Rightarrow> 'a \<Rightarrow> 'a"
  assumes observe_inv: "inv s \<Longrightarrow> inv (observe ev s)"
    and observe_owner: "inv s \<Longrightarrow> owner (observe ev s) = owner s"

text \<open>Recording the events, on the in-process lock.\<close>

type_synonym 's traced = "'s \<times> run_event list"

definition traced_acquire :: "'s acquire_op \<Rightarrow> 's traced acquire_op" where
  "traced_acquire acquire k tok x = (let (r, s) = acquire k tok (fst x) in (r, (s, snd x)))"

definition traced_release :: "'s release_op \<Rightarrow> 's traced release_op" where
  "traced_release release k t x = (release k t (fst x), snd x)"

definition record_event :: "run_event \<Rightarrow> 's traced \<Rightarrow> 's traced" where
  "record_event ev x = (fst x, snd x @ [ev])"

definition traced_owner :: "inproc traced \<Rightarrow> lock_key \<Rightarrow> token option" where
  "traced_owner x = ip_owner (fst x)"

definition traced_quiet :: "inproc traced \<Rightarrow> bool" where
  "traced_quiet x = ip_quiet (fst x)"

interpretation traced: run_scope "traced_acquire ip_acquire" "traced_release ip_release" traced_owner
  traced_quiet record_event
proof (unfold_locales, goal_cases)
  case (1 s k tok r s')
  obtain r' l where "ip_acquire k tok (fst s) = (r', l)" by fastforce
  with 1 inprocess.acquire_inv show ?case by (fastforce simp: traced_acquire_def traced_quiet_def)
next
  case (2 s k tok t s')
  obtain r' l where "ip_acquire k tok (fst s) = (r', l)" by fastforce
  with 2 inprocess.acquire_token [of "fst s" k tok t l] show ?case
    by (auto simp: traced_acquire_def traced_quiet_def traced_owner_def fun_eq_iff)
next
  case (3 s k tok r s')
  obtain r' l where "ip_acquire k tok (fst s) = (r', l)" by fastforce
  with 3 inprocess.acquire_refused [of "fst s" k tok r l] show ?case
    by (auto simp: traced_acquire_def traced_quiet_def traced_owner_def fun_eq_iff)
next
  case (4 s k t)
  then show ?case by (simp add: traced_release_def traced_quiet_def inprocess.release_inv)
next
  case (5 s k t)
  then show ?case
    by (simp add: traced_release_def traced_quiet_def traced_owner_def inprocess.release_owner fun_eq_iff)
qed (simp_all add: record_event_def traced_quiet_def traced_owner_def fun_eq_iff)

text \<open>The blob lock with the default observer, which does nothing.\<close>

definition noop_observer :: "run_event \<Rightarrow> 's \<Rightarrow> 's" where
  "noop_observer ev s = s"

interpretation blob_run: run_scope "bl_acquire sv timeout" "bl_release sv" bl_owner bl_ok noop_observer
  for sv timeout
  by unfold_locales (simp_all add: noop_observer_def)

end
