(* ===== verification/Durable.thy ===== *)
theory Durable
  imports Run_Scope Json
begin

text \<open>
  The Durable control plane, \<^verbatim>\<open>durable/\<close>: the payload and result records, status mapping, the
  three lifecycle handlers with their HTTP adapters, the orchestrator, and the activity that
  runs the graph under the per-thread lock. The Durable client is a parameter, \<open>txt\<close> gives
  Python's \<open>str\<close> and \<open>repr\<close> of values. Where the source declares \<open>str | None\<close> and the value of
  a JSON body is another one, the model stops with \<open>OutsideTypes\<close>.
\<close>

section \<open>State records (\<^verbatim>\<open>_state.py\<close>)\<close>

datatype run_status = RunPending | RunRunning | RunSuccess | RunError | RunCancelled
datatype activity_status = ActSuccess | ActError | ActRejected

fun activity_status_text :: "activity_status \<Rightarrow> string" where
  "activity_status_text ActSuccess = ''success''"
| "activity_status_text ActError = ''error''"
| "activity_status_text ActRejected = ''rejected''"

fun run_status_text :: "run_status \<Rightarrow> string" where
  "run_status_text RunPending = ''pending''"
| "run_status_text RunRunning = ''running''"
| "run_status_text RunSuccess = ''success''"
| "run_status_text RunError = ''error''"
| "run_status_text RunCancelled = ''cancelled''"

record py_text =
  pt_str :: "pyval \<Rightarrow> string"
  pt_repr :: "string \<Rightarrow> string"

datatype durable_error = MissingField string | NotAMapping | OutsideTypes string | ClientFailure exn

record run_payload =
  pl_run_id :: string
  pl_graph :: string
  pl_input :: pyval
  pl_thread :: "string option"
  pl_config :: "pyval dict"
  pl_assistant :: "string option"
  pl_correlation :: "string option"

record run_result =
  rr_run_id :: string
  rr_status :: activity_status
  rr_result :: pyval
  rr_error :: "(string \<times> string) option"

fun opt_text :: "string option \<Rightarrow> pyval" where
  "opt_text None = PNone"
| "opt_text (Some s) = PStr s"

definition field_text :: "string \<Rightarrow> pyval dict \<Rightarrow> durable_error + string option" where
  "field_text k d =
     (case map_of d k of None \<Rightarrow> Inr None | Some PNone \<Rightarrow> Inr None | Some (PStr s) \<Rightarrow> Inr (Some s)
      | Some _ \<Rightarrow> Inl (OutsideTypes k))"

definition field_or_none :: "string \<Rightarrow> pyval dict \<Rightarrow> pyval" where
  "field_or_none k d = (case map_of d k of None \<Rightarrow> PNone | Some v \<Rightarrow> v)"

definition field_str :: "py_text \<Rightarrow> string \<Rightarrow> pyval dict \<Rightarrow> durable_error + string" where
  "field_str txt k d =
     (case map_of d k of None \<Rightarrow> Inl (MissingField k) | Some (PStr s) \<Rightarrow> Inr s | Some v \<Rightarrow> Inr (pt_str txt v))"

text \<open>\<open>dict(v or {})\<close>; a list of pairs, which \<open>dict\<close> accepts too, is outside the model.\<close>

definition dict_or_empty :: "pyval \<Rightarrow> durable_error + pyval dict" where
  "dict_or_empty v =
     (if \<not> truthy v then Inr []
      else case v of PDict d \<Rightarrow> Inr d | PList _ \<Rightarrow> Inl (OutsideTypes ''config'') | _ \<Rightarrow> Inl NotAMapping)"

definition payload_to_dict :: "run_payload \<Rightarrow> pyval dict" where
  "payload_to_dict p =
     [(''run_id'', PStr (pl_run_id p)), (''graph_name'', PStr (pl_graph p)), (''input'', pl_input p),
      (''thread_id'', opt_text (pl_thread p)), (''config'', PDict (pl_config p)),
      (''assistant_id'', opt_text (pl_assistant p)), (''correlation_id'', opt_text (pl_correlation p))]"

definition payload_from_dict :: "py_text \<Rightarrow> pyval dict \<Rightarrow> durable_error + run_payload" where
  "payload_from_dict txt d =
     bind_res (field_str txt ''run_id'' d) (\<lambda>run_id.
     bind_res (field_str txt ''graph_name'' d) (\<lambda>graph_name.
     bind_res (field_text ''thread_id'' d) (\<lambda>thread_id.
     bind_res (dict_or_empty (field_or_none ''config'' d)) (\<lambda>config.
     bind_res (field_text ''assistant_id'' d) (\<lambda>assistant_id.
     bind_res (field_text ''correlation_id'' d) (\<lambda>correlation_id.
       Inr \<lparr>pl_run_id = run_id, pl_graph = graph_name, pl_input = field_or_none ''input'' d,
            pl_thread = thread_id, pl_config = config, pl_assistant = assistant_id,
            pl_correlation = correlation_id\<rparr>))))))"

definition result_to_dict :: "run_result \<Rightarrow> pyval dict" where
  "result_to_dict r =
     [(''run_id'', PStr (rr_run_id r)), (''activity_status'', PStr (activity_status_text (rr_status r))),
      (''result'', rr_result r),
      (''error'', case rr_error r of None \<Rightarrow> PNone
         | Some e \<Rightarrow> PDict [(''type'', PStr (fst e)), (''message'', PStr (snd e))])]"

definition serialize_error :: "exn \<Rightarrow> string \<times> string" where
  "serialize_error e = (exn_type e, exn_message e)"

definition result_success :: "string \<Rightarrow> pyval \<Rightarrow> run_result" where
  "result_success run_id v = \<lparr>rr_run_id = run_id, rr_status = ActSuccess, rr_result = v, rr_error = None\<rparr>"

definition result_failure :: "string \<Rightarrow> exn \<Rightarrow> run_result" where
  "result_failure run_id e =
     \<lparr>rr_run_id = run_id, rr_status = ActError, rr_result = PNone, rr_error = Some (serialize_error e)\<rparr>"

definition result_rejected :: "string \<Rightarrow> string \<Rightarrow> run_result" where
  "result_rejected run_id reason =
     \<lparr>rr_run_id = run_id, rr_status = ActRejected, rr_result = PNone,
      rr_error = Some (''ThreadContentionError'', reason)\<rparr>"

definition activity_status_of :: "pyval \<Rightarrow> activity_status option" where
  "activity_status_of v =
     (case v of PStr s \<Rightarrow> map_of (map (\<lambda>x. (activity_status_text x, x)) [ActSuccess, ActError, ActRejected]) s
      | _ \<Rightarrow> None)"

definition result_from_dict :: "py_text \<Rightarrow> pyval dict \<Rightarrow> durable_error + run_result" where
  "result_from_dict txt d =
     bind_res (field_str txt ''run_id'' d) (\<lambda>run_id.
       case map_of d ''activity_status'' of
         None \<Rightarrow> Inl (MissingField ''activity_status'')
       | Some st \<Rightarrow>
           (case activity_status_of st of
              None \<Rightarrow> Inl (OutsideTypes ''activity_status'')
            | Some status \<Rightarrow>
                (case field_or_none ''error'' d of
                   PNone \<Rightarrow> Inr \<lparr>rr_run_id = run_id, rr_status = status,
                               rr_result = field_or_none ''result'' d, rr_error = None\<rparr>
                 | PDict e \<Rightarrow>
                     (case (map_of e ''type'', map_of e ''message'') of
                        (Some (PStr t), Some (PStr m)) \<Rightarrow>
                          Inr \<lparr>rr_run_id = run_id, rr_status = status,
                               rr_result = field_or_none ''result'' d, rr_error = Some (t, m)\<rparr>
                      | _ \<Rightarrow> Inl (OutsideTypes ''error''))
                 | _ \<Rightarrow> Inl (OutsideTypes ''error''))))"

text \<open>\<open>str.strip\<close>: the white space among the first 256 code points.\<close>

definition is_white :: "char \<Rightarrow> bool" where
  "is_white c = ((of_char c :: nat) \<in> {9, 10, 11, 12, 13, 28, 29, 30, 31, 32, 133, 160})"

definition strip_text :: "string \<Rightarrow> string" where
  "strip_text s = rev (dropWhile is_white (rev (dropWhile is_white s)))"

definition normalize_status :: "string option \<Rightarrow> pyval dict option \<Rightarrow> run_status" where
  "normalize_status runtime output =
     (let status = strip_text (case runtime of None \<Rightarrow> [] | Some s \<Rightarrow> s) in
      if status \<in> {[], ''Pending''} then (if status = ''Pending'' then RunPending else RunRunning)
      else if status = ''Running'' then RunRunning
      else if status \<in> {''Suspended'', ''ContinuedAsNew''} then RunRunning
      else if status = ''Completed'' then
        (let act = (case output of None \<Rightarrow> PNone | Some d \<Rightarrow> field_or_none ''activity_status'' d)
         in if act = PStr ''error'' \<or> act = PStr ''rejected'' then RunError else RunSuccess)
      else if status = ''Failed'' then RunError
      else if status \<in> {''Terminated'', ''Canceled'', ''Cancelled''} then RunCancelled
      else RunRunning)"

section \<open>Lifecycle handlers (\<^verbatim>\<open>_lifecycle.py\<close>)\<close>

text \<open>A \<open>runtime_status\<close> attribute: an enum member by its name, or anything else by its \<open>str\<close>.\<close>

datatype raw_status = EnumMember string | PlainStatus string

record orchestration_status =
  os_runtime :: "raw_status option"
  os_output :: pyval

record 'w durable_client =
  dc_start_new :: "string \<Rightarrow> string \<Rightarrow> pyval \<Rightarrow> 'w \<Rightarrow> (exn + unit) \<times> 'w"
  dc_get_status :: "string \<Rightarrow> 'w \<Rightarrow> (exn + orchestration_status option) \<times> 'w"
  dc_terminate :: "string \<Rightarrow> string \<Rightarrow> 'w \<Rightarrow> (exn + unit) \<times> 'w"

definition runtime_status_str :: "orchestration_status option \<Rightarrow> string option" where
  "runtime_status_str st =
     (case st of None \<Rightarrow> None
      | Some s \<Rightarrow> (case os_runtime s of None \<Rightarrow> None
          | Some (EnumMember n) \<Rightarrow> Some n | Some (PlainStatus n) \<Rightarrow> Some n))"

definition activity_name :: string where "activity_name = ''execute_langgraph_run''"
definition orchestrator_name :: string where "orchestrator_name = ''langgraph_durable_run_orchestrator''"

type_synonym reply = "nat \<times> pyval dict"

definition requested_run_id :: "py_text \<Rightarrow> string \<Rightarrow> pyval dict \<Rightarrow> string" where
  "requested_run_id txt fresh body =
     (case field_or_none ''run_id'' body of
        PStr s \<Rightarrow> (if s = [] then fresh else s)
      | v \<Rightarrow> (if truthy v then pt_str txt v else fresh))"

definition requested_thread :: "pyval dict \<Rightarrow> pyval dict \<Rightarrow> pyval" where
  "requested_thread body config =
     (case field_or_none ''thread_id'' body of
        PNone \<Rightarrow> (case map_of config ''configurable'' of
            Some (PDict c) \<Rightarrow> field_or_none ''thread_id'' c | _ \<Rightarrow> PNone)
      | v \<Rightarrow> v)"

definition create_run_impl ::
    "py_text \<Rightarrow> 'w durable_client \<Rightarrow> string \<Rightarrow> string \<Rightarrow> pyval dict \<Rightarrow> string \<Rightarrow> 'w \<Rightarrow> (durable_error + reply) \<times> 'w" where
  "create_run_impl txt client fresh orch body graph_name w =
     (let run_id = requested_run_id txt fresh body in
      case dict_or_empty (field_or_none ''config'' body) of
        Inl e \<Rightarrow> (Inl e, w)
      | Inr config \<Rightarrow>
          (let input =
             [(''run_id'', PStr run_id), (''graph_name'', PStr graph_name),
              (''input'', field_or_none ''input'' body), (''thread_id'', requested_thread body config),
              (''config'', PDict config), (''assistant_id'', field_or_none ''assistant_id'' body),
              (''correlation_id'', field_or_none ''correlation_id'' body)]
           in case dc_start_new client orch run_id (PDict input) w of
               (Inl e, w1) \<Rightarrow> (Inl (ClientFailure e), w1)
             | (Inr _, w1) \<Rightarrow> (Inr (202, [(''run_id'', PStr run_id), (''status'', PStr ''pending'')]), w1)))"

definition not_found :: "string \<Rightarrow> reply" where
  "not_found run_id = (404, [(''run_id'', PStr run_id), (''error'', PStr ''run not found'')])"

definition public_error :: pyval where
  "public_error = PDict [(''code'', PStr ''run_failed''), (''message'', PStr ''The run failed.'')]"

definition get_run_impl ::
    "'w durable_client \<Rightarrow> string \<Rightarrow> 'w \<Rightarrow> (durable_error + reply) \<times> 'w" where
  "get_run_impl client run_id w =
     (case dc_get_status client run_id w of
        (Inl e, w1) \<Rightarrow> (Inl (ClientFailure e), w1)
      | (Inr st, w1) \<Rightarrow>
          (case runtime_status_str st of
             None \<Rightarrow> (Inr (not_found run_id), w1)
           | Some runtime \<Rightarrow>
               (let output = (case st of None \<Rightarrow> PNone | Some s \<Rightarrow> os_output s);
                    normalized = normalize_status (Some runtime) (as_dict output);
                    shown = (case as_dict output of
                        Some d \<Rightarrow>
                          (if normalized = RunError \<and> is_dict (field_or_none ''error'' d)
                           then PDict (AList.update ''error'' public_error d) else output)
                      | None \<Rightarrow> output)
                in (Inr (200, [(''run_id'', PStr run_id), (''status'', PStr (run_status_text normalized)),
                               (''output'', shown)]), w1))))"

definition cancel_run_impl ::
    "'w durable_client \<Rightarrow> string \<Rightarrow> string \<Rightarrow> 'w \<Rightarrow> (durable_error + reply) \<times> 'w" where
  "cancel_run_impl client run_id reason w =
     (case dc_get_status client run_id w of
        (Inl e, w1) \<Rightarrow> (Inl (ClientFailure e), w1)
      | (Inr st, w1) \<Rightarrow>
          (if runtime_status_str st = None then (Inr (not_found run_id), w1)
           else case dc_terminate client run_id reason w1 of
               (Inl e, w2) \<Rightarrow> (Inl (ClientFailure e), w2)
             | (Inr _, w2) \<Rightarrow> (Inr (202, [(''run_id'', PStr run_id), (''status'', PStr ''cancelled'')]), w2)))"

section \<open>Orchestrator (\<^verbatim>\<open>_orchestrator.py\<close>)\<close>

text \<open>
  A generator as a tree: what it yields, and how it goes on with the answer. It yields one
  activity call and returns its result.
\<close>

datatype orchestration = Done pyval | CallActivity string pyval "pyval \<Rightarrow> orchestration"

definition run_orchestration :: "pyval \<Rightarrow> orchestration" where
  "run_orchestration input = CallActivity activity_name input Done"

primrec drive :: "(string \<Rightarrow> pyval \<Rightarrow> pyval) \<Rightarrow> orchestration \<Rightarrow> pyval \<times> (string \<times> pyval) list" where
  "drive act (Done v) = (v, [])"
| "drive act (CallActivity name input k) =
     (let (v, calls) = drive act (k (act name input)) in (v, (name, input) # calls))"

section \<open>HTTP adapters (\<^verbatim>\<open>_runtime.py\<close>)\<close>

record http_request =
  rq_body :: string
  rq_params :: "string dict"
  rq_headers :: "string dict"

record http_response =
  rs_status :: nat
  rs_body :: string
  rs_request_id :: "string option"

definition json_response :: "nat \<Rightarrow> pyval dict \<Rightarrow> string option \<Rightarrow> http_response" where
  "json_response code body request_id =
     \<lparr>rs_status = code,
      rs_body = dumps (\<lambda>_. []) (PDict (case request_id of None \<Rightarrow> body
        | Some r \<Rightarrow> if r = [] then body else dict_merge body [(''request_id'', PStr r)])),
      rs_request_id = request_id\<rparr>"

datatype body_error = BodyTooLarge nat | BodyNotJson | BodyNotObject

definition parse_request_body :: "http_request \<Rightarrow> nat \<Rightarrow> body_error + pyval dict" where
  "parse_request_body req max_bytes =
     (let raw = rq_body req in
      if length raw > max_bytes then Inl (BodyTooLarge max_bytes)
      else if raw = [] then Inr []
      else case loads raw of
          None \<Rightarrow> Inl BodyNotJson
        | Some (PDict d) \<Rightarrow> Inr d
        | Some _ \<Rightarrow> Inl BodyNotObject)"

fun body_error_text :: "body_error \<Rightarrow> string" where
  "body_error_text (BodyTooLarge n) = ''request body exceeds '' @ nat_text n @ '' bytes''"
| "body_error_text BodyNotJson = ''request body is not valid JSON''"
| "body_error_text BodyNotObject = ''request body must be a JSON object''"

definition route_param :: "string \<Rightarrow> http_request \<Rightarrow> string" where
  "route_param k req = (case map_of (rq_params req) k of None \<Rightarrow> [] | Some v \<Rightarrow> v)"

definition create_run_http ::
    "py_text \<Rightarrow> 'w durable_client \<Rightarrow> string \<Rightarrow> string \<Rightarrow> registration dict \<Rightarrow> nat \<Rightarrow> http_request \<Rightarrow> 'w \<Rightarrow>
     (durable_error + http_response) \<times> 'w" where
  "create_run_http txt client fresh fresh_request registry max_bytes req w =
     (let graph_name = route_param ''name'' req;
          request_id = request_id_from_headers fresh_request (rq_headers req) in
      if map_of registry graph_name = None then
        (Inr (json_response 404 [(''error'', PStr (''no graph registered under name '' @ pt_repr txt graph_name))]
            (Some request_id)), w)
      else case parse_request_body req max_bytes of
          Inl e \<Rightarrow>
            (Inr (json_response (if length (rq_body req) > max_bytes then 413 else 400)
               [(''error'', PStr (body_error_text e))] (Some request_id)), w)
        | Inr body \<Rightarrow>
            (case create_run_impl txt client fresh orchestrator_name body graph_name w of
               (Inl e, w1) \<Rightarrow> (Inl e, w1)
             | (Inr (code, result), w1) \<Rightarrow> (Inr (json_response code result (Some request_id)), w1)))"

definition get_run_http ::
    "'w durable_client \<Rightarrow> http_request \<Rightarrow> 'w \<Rightarrow> (durable_error + http_response) \<times> 'w" where
  "get_run_http client req w =
     (case get_run_impl client (route_param ''run_id'' req) w of
        (Inl e, w1) \<Rightarrow> (Inl e, w1)
      | (Inr (code, result), w1) \<Rightarrow> (Inr (json_response code result None), w1))"

definition cancel_run_http ::
    "'w durable_client \<Rightarrow> http_request \<Rightarrow> 'w \<Rightarrow> (durable_error + http_response) \<times> 'w" where
  "cancel_run_http client req w =
     (case cancel_run_impl client (route_param ''run_id'' req) ''cancelled by client'' w of
        (Inl e, w1) \<Rightarrow> (Inl e, w1)
      | (Inr (code, result), w1) \<Rightarrow> (Inr (json_response code result None), w1))"

section \<open>Properties of the control plane\<close>

lemma field_simps_dict [simp]:
  "field_text k ((k, opt_text v) # d) = Inr v"
  "j \<noteq> k \<Longrightarrow> field_text k ((j, v') # d) = field_text k d"
  "field_str txt k ((k, PStr s) # d) = Inr s"
  "j \<noteq> k \<Longrightarrow> field_str txt k ((j, v') # d) = field_str txt k d"
  "field_or_none k ((k, v') # d) = v'"
  "j \<noteq> k \<Longrightarrow> field_or_none k ((j, v') # d) = field_or_none k d"
  by (cases v) (simp_all add: field_text_def field_str_def field_or_none_def)

lemma dict_or_empty_PDict [simp]: "dict_or_empty (PDict d) = Inr d"
  by (simp add: dict_or_empty_def)

lemma payload_roundtrip: "payload_from_dict txt (payload_to_dict p) = Inr p"
  by (cases p) (simp add: payload_from_dict_def payload_to_dict_def)

lemma activity_status_roundtrip: "activity_status_of (PStr (activity_status_text a)) = Some a"
  by (cases a) (simp_all add: activity_status_of_def)

lemma result_roundtrip: "result_from_dict txt (result_to_dict r) = Inr r"
  by (cases r; cases "rr_error r")
    (auto simp: result_from_dict_def result_to_dict_def activity_status_roundtrip)

text \<open>The payload an activity gets for a request.\<close>

definition requested_payload ::
    "py_text \<Rightarrow> string \<Rightarrow> pyval dict \<Rightarrow> string \<Rightarrow> string option \<Rightarrow> pyval dict \<Rightarrow>
     string option \<Rightarrow> string option \<Rightarrow> run_payload" where
  "requested_payload txt fresh body graph_name thread config assistant correlation =
     \<lparr>pl_run_id = requested_run_id txt fresh body, pl_graph = graph_name,
      pl_input = field_or_none ''input'' body, pl_thread = thread, pl_config = config,
      pl_assistant = assistant, pl_correlation = correlation\<rparr>"

text \<open>
  C35: A created run reaches the activity unchanged: with the types the API declares, \<open>runs.create\<close>
  starts exactly one orchestration, under the run id it answers (the client's, or a fresh one);
  the input of that orchestration survives JSON and the orchestrator, which calls one activity,
  and the activity reads back the requested graph, input, config and thread, where an explicit
  \<open>thread_id\<close> wins over the one in \<open>config.configurable\<close>.
\<close>

theorem create_run_reaches_activity:
  assumes "json_value (PDict body)" "dict_or_empty (field_or_none ''config'' body) = Inr config"
    "requested_thread body config = opt_text thread" "field_or_none ''assistant_id'' body = opt_text assistant"
    "field_or_none ''correlation_id'' body = opt_text correlation"
    and "create_run_impl txt client fresh orch body graph_name w = (Inr reply, w')"
  shows "\<exists>input. dc_start_new client orch (requested_run_id txt fresh body) input w = (Inr (), w') \<and>
    reply = (202, [(''run_id'', PStr (requested_run_id txt fresh body)), (''status'', PStr ''pending'')]) \<and>
    (\<exists>d. loads (dumps enc input) = Some (PDict d) \<and>
      drive act (run_orchestration (PDict d)) = (act activity_name (PDict d), [(activity_name, PDict d)]) \<and>
      payload_from_dict txt d =
        Inr (requested_payload txt fresh body graph_name thread config assistant correlation))"
proof -
  let ?p = "requested_payload txt fresh body graph_name thread config assistant correlation"
  let ?in = "PDict (payload_to_dict ?p)"
  obtain r w1 where st: "dc_start_new client orch (requested_run_id txt fresh body) ?in w = (r, w1)" by fastforce
  have run: "create_run_impl txt client fresh orch body graph_name w =
      (case r of Inl e \<Rightarrow> (Inl (ClientFailure e), w1)
       | Inr _ \<Rightarrow> (Inr (202, [(''run_id'', PStr (requested_run_id txt fresh body)), (''status'', PStr ''pending'')]), w1))"
    using st assms(2-5) by (cases r) (simp_all add: create_run_impl_def payload_to_dict_def requested_payload_def Let_def)
  then have "r = Inr ()" "w1 = w'" using assms(6) by (cases r; simp)+
  have val: "json_value (field_or_none k body)" for k
    using assms(1) by (auto simp: field_or_none_def list_all_iff dest: map_of_SomeD split: option.split)
  have "json_value (PDict config)"
    using assms(2) val [of "''config''"] by (auto simp: dict_or_empty_def split: if_splits pyval.splits)
  moreover have "json_value (opt_text v)" for v by (cases v) simp_all
  ultimately have "json_value ?in"
    using val [of "''input''"] by (simp add: payload_to_dict_def requested_payload_def)
  then have "loads (dumps enc ?in) = Some ?in" by (rule loads_dumps)
  then show ?thesis
    using st run assms(6) \<open>r = Inr ()\<close> \<open>w1 = w'\<close> payload_roundtrip [of "txt" ?p]
    by (intro exI [of _ ?in] exI [of _ "payload_to_dict ?p"] conjI) (simp_all add: run_orchestration_def)
qed

definition example_client :: "(string \<times> pyval) list durable_client" where
  "example_client =
     \<lparr>dc_start_new = (\<lambda>orch run_id input w. (Inr (), w @ [(run_id, input)])),
      dc_get_status = (\<lambda>run_id w. (Inr None, w)),
      dc_terminate = (\<lambda>run_id reason w. (Inr (), w))\<rparr>"

lemma create_run_reaches_activity_witness:
  "\<exists>input. dc_start_new example_client orchestrator_name
      (requested_run_id \<lparr>pt_str = (\<lambda>_. ''v''), pt_repr = id\<rparr> ''f'' [(''input'', PInt 1), (''thread_id'', PStr ''t'')]) input [] =
      (Inr (), snd (create_run_impl \<lparr>pt_str = (\<lambda>_. ''v''), pt_repr = id\<rparr> example_client ''f'' orchestrator_name
        [(''input'', PInt 1), (''thread_id'', PStr ''t'')] ''g'' []))"
proof -
  let ?txt = "\<lparr>pt_str = (\<lambda>_. ''v''), pt_repr = id\<rparr>"
  let ?body = "[(''input'', PInt 1), (''thread_id'', PStr ''t'')]"
  obtain reply w' where r: "create_run_impl ?txt example_client ''f'' orchestrator_name ?body ''g'' [] = (Inr reply, w')"
    by (simp add: create_run_impl_def example_client_def dict_or_empty_def field_or_none_def Let_def)
  have "dict_or_empty (field_or_none ''config'' ?body) = Inr []"
    "requested_thread ?body [] = opt_text (Some ''t'')" "field_or_none ''assistant_id'' ?body = opt_text None"
    "field_or_none ''correlation_id'' ?body = opt_text None"
    by (simp_all add: dict_or_empty_def requested_thread_def field_or_none_def)
  from create_run_reaches_activity [OF _ this r] r show ?thesis by fastforce
qed

text \<open>
  Polling never leaks what went wrong: in the answer of \<open>runs.get\<close> to a run that ended in an
  error, rejected or failed, an error record is the fixed public one; the rest of the output
  stays. The status is \<open>error\<close> exactly when the orchestration failed or its activity did.
\<close>

theorem get_run_redacts:
  assumes "dc_get_status client run_id w = (Inr (Some st), w')" "runtime_status_str (Some st) = Some ''Completed''"
    and "os_output st = PDict (result_to_dict r)"
  shows "get_run_impl client run_id w =
    (Inr (200, [(''run_id'', PStr run_id),
      (''status'', PStr (if rr_status r = ActSuccess then ''success'' else ''error'')),
      (''output'', PDict [(''run_id'', PStr (rr_run_id r)),
         (''activity_status'', PStr (activity_status_text (rr_status r))), (''result'', rr_result r),
         (''error'', case rr_error r of None \<Rightarrow> PNone
            | Some e \<Rightarrow> if rr_status r = ActSuccess
                then PDict [(''type'', PStr (fst e)), (''message'', PStr (snd e))] else public_error)])]), w')"
proof -
  have n: "normalize_status (Some ''Completed'') (Some (result_to_dict r)) =
      (if rr_status r = ActSuccess then RunSuccess else RunError)"
    by (cases "rr_status r")
      (simp_all add: normalize_status_def strip_text_def is_white_def result_to_dict_def)
  show ?thesis
    using assms n
    by (cases "rr_error r"; cases "rr_status r")
      (simp_all add: get_run_impl_def result_to_dict_def)
qed

definition failed_client :: "unit durable_client" where
  "failed_client =
     \<lparr>dc_start_new = (\<lambda>orch run_id input w. (Inr (), w)),
      dc_get_status = (\<lambda>run_id w. (Inr (Some \<lparr>os_runtime = Some (EnumMember ''Completed''),
         os_output = PDict (result_to_dict (result_failure run_id (Exn ''ValueError'' ''secret'')))\<rparr>), w)),
      dc_terminate = (\<lambda>run_id reason w. (Inr (), w))\<rparr>"

lemma get_run_redacts_witness:
  "fst (get_run_impl failed_client ''r'' ()) =
     Inr (200, [(''run_id'', PStr ''r''), (''status'', PStr ''error''),
       (''output'', PDict [(''run_id'', PStr ''r''), (''activity_status'', PStr ''error''),
          (''result'', PNone), (''error'', public_error)])])"
proof -
  have "dc_get_status failed_client ''r'' () = (Inr (Some \<lparr>os_runtime = Some (EnumMember ''Completed''),
         os_output = PDict (result_to_dict (result_failure ''r'' (Exn ''ValueError'' ''secret'')))\<rparr>), ())"
    by (simp add: failed_client_def)
  from get_run_redacts [OF this] show ?thesis
    by (simp add: runtime_status_str_def result_failure_def)
qed

end
