(* ===== verification/Durable_Activity.thy ===== *)
theory Durable_Activity
  imports Durable
begin

text \<open>
  The activity that executes a run, \<^verbatim>\<open>durable/_activity.py\<close>: it takes the per-thread lock when the
  graph has a checkpointer and the payload a thread, runs the graph with the pinned thread and
  the lock's guard, and turns every failure into a result. It is a client of the lock contract:
  the lemmas are proved once in the locale and used on the in-process lock with a trace.
\<close>

section \<open>Definitions\<close>

text \<open>An activity returns a result, or an exception escapes from it.\<close>

datatype activity_end = ActResult run_result | ActRaised exn

definition is_effectively_async :: "registration \<Rightarrow> bool" where
  "is_effectively_async reg \<longleftrightarrow> reg_async reg \<or> \<not> reg_invocable reg"

definition invoke_graph ::
    "'s graph_runtime \<Rightarrow> schedule \<Rightarrow> registration \<Rightarrow> pyval \<Rightarrow> pyval dict option \<Rightarrow> 's \<Rightarrow>
     (exn, pyval) outcome \<times> 's" where
  "invoke_graph rt sc reg input config x =
     (if is_effectively_async reg then gr_ainvoke rt (reg_graph reg) input config x
      else run_sync_retaining_ownership (gr_invoke rt (reg_graph reg) input config) sc x)"

text \<open>
  The configuration with the thread pinned. Unpacking a \<open>configurable\<close> that is no mapping is a
  \<open>TypeError\<close>.
\<close>

definition pinned_config :: "string option \<Rightarrow> pyval dict \<Rightarrow> exn + pyval dict option" where
  "pinned_config thread config =
     (case thread of
        None \<Rightarrow> Inr (if config = [] then None else Some config)
      | Some t \<Rightarrow>
          (case (case map_of config ''configurable'' of None \<Rightarrow> PDict [] | Some v \<Rightarrow> v) of
             PDict c \<Rightarrow> Inr (Some (AList.update ''configurable''
                 (PDict (AList.update ''thread_id'' (PStr t) c)) config))
           | _ \<Rightarrow> Inl (Exn ''TypeError'' ''argument after ** must be a mapping'')))"

text \<open>\<open>json.loads(dumps(result))\<close>; \<open>fails\<close> says of which objects the encoding raises.\<close>

fun encodable :: "(nat \<Rightarrow> bool) \<Rightarrow> pyval \<Rightarrow> bool" where
  "encodable fails (PList xs) = list_all (encodable fails) xs"
| "encodable fails (PDict d) = list_all (\<lambda>kv. encodable fails (snd kv)) d"
| "encodable fails (PObj a) = (\<not> fails a)"
| "encodable fails _ = True"

definition encode_output :: "(nat \<Rightarrow> bool) \<Rightarrow> (nat \<Rightarrow> string) \<Rightarrow> pyval \<Rightarrow> pyval option" where
  "encode_output fails enc v = (if encodable fails v then loads (dumps enc v) else None)"

definition output_error :: exn where
  "output_error = Exn ''_OutputSerializationError'' ''Graph output could not be serialized as JSON''"

text \<open>Everything the adapter is given: the graph, the guard capability, the observer, the encoder.\<close>

record 's adapter =
  ad_runtime :: "'s graph_runtime"
  ad_guard :: "'s guard_side"
  ad_observe :: "run_event \<Rightarrow> 's \<Rightarrow> 's"
  ad_fails :: "nat \<Rightarrow> bool"
  ad_enc :: "nat \<Rightarrow> string"

text \<open>A failure is told to the observer; a base exception is raised again, any other one becomes a result.\<close>

definition run_failed ::
    "'s adapter \<Rightarrow> run_context \<Rightarrow> string \<Rightarrow> exn \<Rightarrow> 's \<Rightarrow> (lock_error, activity_end) outcome \<times> 's" where
  "run_failed ad ctx run_id e x =
     (Returned (if base_exn e then ActRaised e else ActResult (result_failure run_id e)), ad_observe ad (RunFailed ctx e) x)"

text \<open>The part under \<open>try\<close>, after \<open>on_run_started\<close>.\<close>

definition guarded_run ::
    "'s adapter \<Rightarrow> schedule \<Rightarrow> registration \<Rightarrow> run_context \<Rightarrow> run_payload \<Rightarrow> string option \<Rightarrow> token option \<Rightarrow>
     pyval dict option \<Rightarrow> 's \<Rightarrow> (lock_error, activity_end) outcome \<times> 's" where
  "guarded_run ad sc reg ctx p lock_thread token config x =
     (case guard_run_config (gp_is_guard (ad_guard ad)) (gp_provider (ad_guard ad)) (reg_name reg)
             lock_thread token config of
        Inl ge \<Rightarrow> run_failed ad ctx (pl_run_id p) (guard_exn ge) x
      | Inr (run_config, guard) \<Rightarrow>
          (case invoke_graph (ad_runtime ad) sc reg (pl_input p) run_config x of
             (Raised e, x1) \<Rightarrow> run_failed ad ctx (pl_run_id p) e x1
           | (Cancelled, x1) \<Rightarrow> (Cancelled, ad_observe ad (RunFailed ctx cancelled_exn) x1)
           | (Pending, x1) \<Rightarrow> (Pending, x1)
           | (Returned v, x1) \<Rightarrow>
               (case check_ownership_guard (\<lambda>a. gp_check (ad_guard ad) a x1) guard of
                  Inl ge \<Rightarrow> run_failed ad ctx (pl_run_id p) (guard_exn ge) x1
                | Inr _ \<Rightarrow>
                    (case encode_output (ad_fails ad) (ad_enc ad) v of
                       None \<Rightarrow> run_failed ad ctx (pl_run_id p) output_error x1
                     | Some v' \<Rightarrow> (Returned (ActResult (result_success (pl_run_id p) v')),
                                  ad_observe ad (RunCompleted ctx) x1)))))"

definition in_use_reason :: "py_text \<Rightarrow> string \<Rightarrow> string \<Rightarrow> string" where
  "in_use_reason txt thread graph_name =
     ''Thread '' @ pt_repr txt thread @ '' for graph '' @ pt_repr txt graph_name @ '' is currently in use''"

definition activity_body ::
    "py_text \<Rightarrow> 's adapter \<Rightarrow> schedule \<Rightarrow> registration \<Rightarrow> run_context \<Rightarrow> run_payload \<Rightarrow> string option \<Rightarrow>
     token option \<Rightarrow> 's \<Rightarrow> (lock_error, activity_end) outcome \<times> 's" where
  "activity_body txt ad sc reg ctx p lock_thread token x =
     (if lock_thread \<noteq> None \<and> token = None then
        (Returned (ActResult (result_rejected (pl_run_id p) (in_use_reason txt (the lock_thread) (reg_name reg)))),
         ad_observe ad (RunRejected ctx ''lock_contention'') x)
      else
        case pinned_config (pl_thread p) (pl_config p) of
          Inl e \<Rightarrow> (Returned (ActRaised e), x)
        | Inr config \<Rightarrow> guarded_run ad sc reg ctx p lock_thread token config (ad_observe ad (RunStarted ctx) x))"

text \<open>\<open>bool(thread_id) and has_ckpt\<close>: an empty thread id takes no lock.\<close>

definition locked_thread :: "registration \<Rightarrow> run_payload \<Rightarrow> string option" where
  "locked_thread reg p =
     (case pl_thread p of None \<Rightarrow> None
      | Some t \<Rightarrow> if t \<noteq> [] \<and> reg_checkpointer reg then Some t else None)"

definition no_graph_error :: "py_text \<Rightarrow> string \<Rightarrow> exn" where
  "no_graph_error txt graph_name =
     Exn ''KeyError'' (pt_repr txt (''No graph registered under name '' @ pt_repr txt graph_name))"

definition activity_context :: "registration \<Rightarrow> run_payload \<Rightarrow> string \<Rightarrow> run_context" where
  "activity_context reg p fresh =
     new_run_context fresh (reg_name reg) ''invoke'' (Some (pl_run_id p)) (pl_thread p) (pl_assistant p)
       None (reg_checkpointer reg) ''durable''"

record 's lock_side =
  lo_acquire :: "'s acquire_op"
  lo_release :: "'s release_op"
  lo_env :: "'s \<Rightarrow> 's"
  lo_first :: schedule
  lo_undo :: schedule
  lo_last :: schedule

definition execute_langgraph_run_impl ::
    "py_text \<Rightarrow> 's adapter \<Rightarrow> 's lock_side \<Rightarrow> schedule \<Rightarrow> registration dict \<Rightarrow> string \<Rightarrow> token \<Rightarrow> run_payload \<Rightarrow> 's \<Rightarrow>
     (lock_error, activity_end) outcome \<times> 's" where
  "execute_langgraph_run_impl txt ad lo sc registry fresh tok p x =
     (case map_of registry (pl_graph p) of
        None \<Rightarrow> (Returned (ActResult (result_failure (pl_run_id p) (no_graph_error txt (pl_graph p)))), x)
      | Some reg \<Rightarrow>
          (let lock_thread = locked_thread reg p in
           async_thread_lock (lo_acquire lo) (lo_release lo) (lo_env lo) (lo_first lo) (lo_undo lo) (lo_last lo)
             (map_option (Key (reg_name reg)) lock_thread) tok
             (activity_body txt ad sc reg (activity_context reg p fresh) p lock_thread) x))"

section \<open>The lock around a run\<close>

text \<open>What the graph may do: anything that leaves the lock of the key alone.\<close>

definition leaves_lock ::
    "('s \<Rightarrow> bool) \<Rightarrow> ('s \<Rightarrow> lock_key \<Rightarrow> token option) \<Rightarrow> lock_key \<Rightarrow> 's graph_runtime \<Rightarrow> bool" where
  "leaves_lock good owner k rt \<longleftrightarrow>
     (\<forall>g input cfg x. good x \<longrightarrow>
        good (snd (gr_invoke rt g input cfg x)) \<and> owner (snd (gr_invoke rt g input cfg x)) k = owner x k \<and>
        good (snd (gr_ainvoke rt g input cfg x)) \<and> owner (snd (gr_ainvoke rt g input cfg x)) k = owner x k)"

lemma invoke_graph_respects:
  assumes "leaves_lock good owner k rt" "good x" "invoke_graph rt sc reg input config x = (r, x1)"
  shows "good x1 \<and> owner x1 k = owner x k"
proof -
  have "x1 = snd (invoke_graph rt sc reg input config x)" using assms(3) by simp
  also have "\<dots> = (if is_effectively_async reg then snd (gr_ainvoke rt (reg_graph reg) input config x)
      else snd (gr_invoke rt (reg_graph reg) input config x))"
    by (simp add: invoke_graph_def run_sync_retaining_ownership_def split: prod.split option.split)
  finally show ?thesis using assms(1,2) by (simp add: leaves_lock_def)
qed

lemma guarded_run_cong:
  assumes "\<And>c. invoke_graph (ad_runtime ad) sc reg (pl_input p) c x = invoke_graph (ad_runtime ad') sc reg (pl_input p) c x"
    and "ad_observe ad = ad_observe ad'" "ad_guard ad = ad_guard ad'" "ad_fails ad = ad_fails ad'" "ad_enc ad = ad_enc ad'"
  shows "guarded_run ad sc reg ctx p lt token config x = guarded_run ad' sc reg ctx p lt token config x"
  unfolding guarded_run_def run_failed_def assms ..

context run_scope begin

lemma guarded_run_respects:
  assumes "leaves_lock inv owner k (ad_runtime ad)" "ad_observe ad = observe" "inv x"
  shows "inv (snd (guarded_run ad sc reg ctx p lt token config x)) \<and>
    owner (snd (guarded_run ad sc reg ctx p lt token config x)) k = owner x k"
proof (cases "guard_run_config (gp_is_guard (ad_guard ad)) (gp_provider (ad_guard ad)) (reg_name reg) lt token config")
  case (Inl ge)
  then show ?thesis using assms by (simp add: guarded_run_def run_failed_def observe_inv observe_owner)
next
  case (Inr rg)
  obtain rc g where rg: "rg = (rc, g)" by (rule prod.exhaust)
  obtain r x1 where i: "invoke_graph (ad_runtime ad) sc reg (pl_input p) rc x = (r, x1)" by (rule prod.exhaust)
  have "inv x1 \<and> owner x1 k = owner x k" by (rule invoke_graph_respects [OF assms(1,3) i])
  then show ?thesis
    using Inr rg i assms(2)
    by (cases r) (simp_all add: guarded_run_def run_failed_def observe_inv observe_owner split: sum.split option.split)
qed

lemma activity_body_respects:
  assumes "leaves_lock inv owner k (ad_runtime ad)" "ad_observe ad = observe" "inv x"
  shows "inv (snd (activity_body txt ad sc reg ctx p lt token x)) \<and>
    owner (snd (activity_body txt ad sc reg ctx p lt token x)) k = owner x k"
proof (cases "lt \<noteq> None \<and> token = None")
  case True
  with assms(2,3) show ?thesis by (auto simp: activity_body_def observe_inv observe_owner)
next
  case run: False
  show ?thesis
  proof (cases "pinned_config (pl_thread p) (pl_config p)")
    case (Inl e)
    with run assms(3) show ?thesis by (auto simp: activity_body_def)
  next
    case (Inr config)
    let ?x = "observe (RunStarted ctx) x"
    have "activity_body txt ad sc reg ctx p lt token x = guarded_run ad sc reg ctx p lt token config ?x"
      using run Inr assms(2) by (auto simp: activity_body_def)
    moreover have "inv ?x" "owner ?x = owner x" using assms(3) by (simp_all add: observe_inv observe_owner)
    ultimately show ?thesis
      using guarded_run_respects [OF assms(1,2), of ?x sc reg ctx p lt token config] by simp
  qed
qed

text \<open>The activity gives its lock back, whatever the graph, the guard and cancellations do.\<close>

lemma activity_releases:
  assumes "inv x" "\<And>y. inv y \<Longrightarrow> inv (lo_env lo y) \<and> (owner y k = Some tok \<longrightarrow> owner (lo_env lo y) k = Some tok)"
    and "lo_acquire lo = acquire" "lo_release lo = release" "ad_observe ad = observe"
    and "map_of registry (pl_graph p) = Some reg" "locked_thread reg p = Some t" "k = Key (reg_name reg) t"
    and "leaves_lock inv owner k (ad_runtime ad)"
    and "execute_langgraph_run_impl txt ad lo sc registry fresh tok p x = (out, x')" "out \<noteq> Pending"
  shows "inv x' \<and> owner x' k = owner x k"
proof (rule scope_releases [OF assms(1,2)])
  show "async_thread_lock acquire release (lo_env lo) (lo_first lo) (lo_undo lo) (lo_last lo) (Some k) tok
      (activity_body txt ad sc reg (activity_context reg p fresh) p (Some t)) x = (out, x')"
    using assms(3-8,10) by (simp add: execute_langgraph_run_impl_def Let_def)
  show "inv (snd (activity_body txt ad sc reg (activity_context reg p fresh) p (Some t) token y)) \<and>
      owner (snd (activity_body txt ad sc reg (activity_context reg p fresh) p (Some t) token y)) k = owner y k"
    if "inv y" for token y
    by (rule activity_body_respects [OF assms(9,5) that])
qed (use assms(11) in auto)

text \<open>
  The graph runs only under the lock: two graphs that do the same while the token holds the key
  make the same activity.
\<close>

lemma activity_graph_owned:
  assumes "inv x" "lo_acquire lo = acquire" "ad_observe ad = observe" "ad_observe ad' = observe"
    and "map_of registry (pl_graph p) = Some reg" "locked_thread reg p = Some t" "k = Key (reg_name reg) t"
    and "ad_guard ad' = ad_guard ad" "ad_fails ad' = ad_fails ad" "ad_enc ad' = ad_enc ad"
    and same: "\<And>g input config y. inv y \<Longrightarrow> owner y k = Some tok \<Longrightarrow>
      gr_invoke (ad_runtime ad) g input config y = gr_invoke (ad_runtime ad') g input config y \<and>
      gr_ainvoke (ad_runtime ad) g input config y = gr_ainvoke (ad_runtime ad') g input config y"
  shows "execute_langgraph_run_impl txt ad lo sc registry fresh tok p x =
    execute_langgraph_run_impl txt ad' lo sc registry fresh tok p x"
proof -
  let ?ctx = "activity_context reg p fresh"
  let ?body = "\<lambda>ad. activity_body txt ad sc reg ?ctx p (Some t)"
  obtain r s1 where a: "acquire_thread_lock acquire (lo_release lo) (lo_env lo) (lo_first lo) (lo_undo lo) k tok x = (r, s1)"
    by (rule prod.exhaust)
  have ex: "execute_langgraph_run_impl txt ad lo sc registry fresh tok p x =
      async_thread_lock acquire (lo_release lo) (lo_env lo) (lo_first lo) (lo_undo lo) (lo_last lo) (Some k) tok (?body ad) x"
    if "ad_observe ad = observe" for ad
    using assms(2,5-7) by (simp add: execute_langgraph_run_impl_def Let_def)
  have body: "?body ad token s1 = ?body ad' token s1" if r: "r = Returned token" for token
  proof (cases token)
    case None
    then show ?thesis using assms(3,4) by (simp add: activity_body_def)
  next
    case (Some tk)
    obtain r0 s0 where acq: "acquire k tok x = (r0, s0)" by (rule prod.exhaust)
    have "r0 = Inr (Some tk)" "s1 = s0"
      using a r acq Some by (auto simp: acquire_thread_lock_def Let_def split: option.splits sum.splits if_splits prod.splits)
    then have "inv s1 \<and> owner s1 k = Some tok"
      using acquire_inv [OF assms(1) acq] acquire_token [OF assms(1)] acq by auto
    then have y: "inv (observe ev s1)" "owner (observe ev s1) k = Some tok" for ev
      by (simp_all add: observe_inv observe_owner)
    have inv_eq: "invoke_graph (ad_runtime ad) sc reg (pl_input p) c (observe ev s1) =
        invoke_graph (ad_runtime ad') sc reg (pl_input p) c (observe ev s1)" for c ev
      using same [OF y] by (simp add: invoke_graph_def run_sync_retaining_ownership_def)
    have "guarded_run ad sc reg ctx p lt token config (observe ev s1) =
        guarded_run ad' sc reg ctx p lt token config (observe ev s1)" for ctx lt config ev
      by (rule guarded_run_cong [OF inv_eq]) (simp_all add: assms)
    then show ?thesis
      using assms(3,4) by (cases "pinned_config (pl_thread p) (pl_config p)") (simp_all add: activity_body_def)
  qed
  show ?thesis
    unfolding ex [OF assms(3)] ex [OF assms(4)]
    using a body by (cases r) (simp_all add: async_thread_lock_def)
qed

end

section \<open>On the in-process lock, with a trace\<close>

text \<open>
  C12: The activity gives its lock back: for a checkpointed graph and a payload with a thread, the
  key has its former owner again when the activity ends, whatever the graph does besides the
  lock, whatever its guard says, and however often the task is cancelled.
\<close>

theorem durable_lock_released:
  assumes "traced_quiet x"
    "\<And>y. traced_quiet y \<Longrightarrow> traced_quiet (lo_env lo y) \<and>
       (traced_owner y k = Some tok \<longrightarrow> traced_owner (lo_env lo y) k = Some tok)"
    and "lo_acquire lo = traced_acquire ip_acquire" "lo_release lo = traced_release ip_release"
      "ad_observe ad = record_event"
    and "map_of registry (pl_graph p) = Some reg" "locked_thread reg p = Some t" "k = Key (reg_name reg) t"
    and "leaves_lock traced_quiet traced_owner k (ad_runtime ad)"
    and "execute_langgraph_run_impl txt ad lo sc registry fresh tok p x = (out, x')" "out \<noteq> Pending"
  shows "traced_quiet x' \<and> traced_owner x' k = traced_owner x k"
  by (rule traced.activity_releases [OF assms])

text \<open>
  The graph of a checkpointed thread runs only while the run's own token holds the lock: if
  two graphs behave the same in the states where it does, the activity cannot tell them apart.
\<close>

theorem durable_graph_owned:
  assumes "traced_quiet x" "lo_acquire lo = traced_acquire ip_acquire"
    and "ad_observe ad = record_event" "ad_observe ad' = record_event"
    and "map_of registry (pl_graph p) = Some reg" "locked_thread reg p = Some t" "k = Key (reg_name reg) t"
    and "ad_guard ad' = ad_guard ad" "ad_fails ad' = ad_fails ad" "ad_enc ad' = ad_enc ad"
    and "\<And>g input config y. traced_quiet y \<Longrightarrow> traced_owner y k = Some tok \<Longrightarrow>
      gr_invoke (ad_runtime ad) g input config y = gr_invoke (ad_runtime ad') g input config y \<and>
      gr_ainvoke (ad_runtime ad) g input config y = gr_ainvoke (ad_runtime ad') g input config y"
  shows "execute_langgraph_run_impl txt ad lo sc registry fresh tok p x =
    execute_langgraph_run_impl txt ad' lo sc registry fresh tok p x"
  by (rule traced.activity_graph_owned [OF assms])

text \<open>The events of a run by how it ended.\<close>

fun lifecycle :: "run_context \<Rightarrow> (lock_error, activity_end) outcome \<Rightarrow> run_event list \<Rightarrow> bool" where
  "lifecycle ctx (Returned (ActResult r)) evs =
     (case rr_status r of
        ActRejected \<Rightarrow> evs = [RunRejected ctx ''lock_contention'']
      | ActSuccess \<Rightarrow> evs = [RunStarted ctx, RunCompleted ctx]
      | ActError \<Rightarrow> \<exists>e. evs = [RunStarted ctx, RunFailed ctx e])"
| "lifecycle ctx (Returned (ActRaised e)) evs = (if base_exn e then evs = [RunStarted ctx, RunFailed ctx e] else evs = [])"
| "lifecycle ctx (Raised e) evs = (evs = [])"
| "lifecycle ctx Cancelled evs =
     (evs \<in> {[], [RunRejected ctx ''lock_contention''], [RunStarted ctx, RunCompleted ctx]} \<or>
      (\<exists>e. evs = [RunStarted ctx, RunFailed ctx e]))"
| "lifecycle ctx Pending evs = True"

definition leaves_trace :: "'s traced graph_runtime \<Rightarrow> bool" where
  "leaves_trace rt \<longleftrightarrow>
     (\<forall>g input cfg x. snd (snd (gr_invoke rt g input cfg x)) = snd x \<and>
        snd (snd (gr_ainvoke rt g input cfg x)) = snd x)"

lemma invoke_graph_trace:
  assumes "leaves_trace rt" "invoke_graph rt sc reg input config x = (r, x1)"
  shows "snd x1 = snd x"
proof -
  have "x1 = snd (invoke_graph rt sc reg input config x)" using assms(2) by simp
  also have "\<dots> = (if is_effectively_async reg then snd (gr_ainvoke rt (reg_graph reg) input config x)
      else snd (gr_invoke rt (reg_graph reg) input config x))"
    by (simp add: invoke_graph_def run_sync_retaining_ownership_def split: prod.split option.split)
  finally show ?thesis using assms(1) unfolding leaves_trace_def by metis
qed

lemma guarded_run_trace:
  assumes "leaves_trace (ad_runtime ad)" "ad_observe ad = record_event" "snd x = [RunStarted ctx]"
  shows "lifecycle ctx (fst (guarded_run ad sc reg ctx p lt token config x))
    (snd (snd (guarded_run ad sc reg ctx p lt token config x)))"
proof (cases "guard_run_config (gp_is_guard (ad_guard ad)) (gp_provider (ad_guard ad)) (reg_name reg) lt token config")
  case (Inl ge)
  then show ?thesis using assms by (simp add: guarded_run_def run_failed_def result_failure_def record_event_def)
next
  case (Inr rg)
  obtain rc g where rg: "rg = (rc, g)" by (rule prod.exhaust)
  obtain r x1 where i: "invoke_graph (ad_runtime ad) sc reg (pl_input p) rc x = (r, x1)" by (rule prod.exhaust)
  have t: "snd x1 = [RunStarted ctx]" using invoke_graph_trace [OF assms(1) i] assms(3) by simp
  show ?thesis
  proof (cases r)
    case (Returned v)
    show ?thesis
    proof (cases "check_ownership_guard (\<lambda>a. gp_check (ad_guard ad) a x1) g")
      case (Inr u)
      with Returned \<open>guard_run_config _ _ _ _ _ _ = Inr rg\<close> rg i t assms(2) show ?thesis
        by (cases "encode_output (ad_fails ad) (ad_enc ad) v")
          (simp_all add: guarded_run_def run_failed_def result_failure_def result_success_def record_event_def)
    qed (use Returned Inr rg i t assms(2) in \<open>simp add: guarded_run_def run_failed_def result_failure_def record_event_def\<close>)
  qed (use Inr rg i t assms(2) in \<open>simp_all add: guarded_run_def run_failed_def result_failure_def record_event_def\<close>)
qed

lemma activity_body_trace:
  assumes "leaves_trace (ad_runtime ad)" "ad_observe ad = record_event" "snd x = []"
  shows "lifecycle ctx (fst (activity_body txt ad sc reg ctx p lt token x))
    (snd (snd (activity_body txt ad sc reg ctx p lt token x)))"
proof (cases "lt \<noteq> None \<and> token = None")
  case True
  with assms show ?thesis by (auto simp: activity_body_def result_rejected_def record_event_def)
next
  case run: False
  show ?thesis
  proof (cases "pinned_config (pl_thread p) (pl_config p)")
    case (Inl e)
    then have "\<not> base_exn e" by (auto simp: pinned_config_def base_exn_def split: option.splits pyval.splits)
    with Inl run assms(3) show ?thesis by (auto simp: activity_body_def)
  next
    case (Inr config)
    let ?x = "record_event (RunStarted ctx) x"
    have "activity_body txt ad sc reg ctx p lt token x = guarded_run ad sc reg ctx p lt token config ?x"
      using run Inr assms(2) by (auto simp: activity_body_def)
    moreover have "snd ?x = [RunStarted ctx]" using assms(3) by (simp add: record_event_def)
    ultimately show ?thesis using guarded_run_trace [OF assms(1,2), of ?x ctx] by simp
  qed
qed

lemma lifecycle_cancelled: "lifecycle ctx out evs \<Longrightarrow> out \<noteq> Pending \<Longrightarrow> lifecycle ctx Cancelled evs"
  by (cases "(ctx, out, evs)" rule: lifecycle.cases) (auto split: activity_status.splits if_splits)

lemma acquire_trace:
  assumes "\<And>y. snd (env y) = snd y"
    "acquire_thread_lock (traced_acquire ip_acquire) (traced_release ip_release) env sc sc' k tok x = (r, s1)"
  shows "snd s1 = snd x"
proof -
  have "snd (snd (traced_acquire ip_acquire k tok x)) = snd x" by (simp add: traced_acquire_def split: prod.split)
  then show ?thesis
    using assms
    by (auto simp: acquire_thread_lock_def release_thread_lock_def traced_release_def Let_def
        split: prod.splits option.splits sum.splits if_splits)
qed

text \<open>
  The observer sees a run as its documentation promises: exactly one started and one terminal
  event, completed if and only if the result is a success; only a rejection when the lock is
  taken; nothing when the run never came so far. A base exception of the graph is told and raised
  again. A cancelled activity has one of these traces.
\<close>

theorem durable_lifecycle:
  assumes "lo_acquire lo = traced_acquire ip_acquire" "lo_release lo = traced_release ip_release"
    and "ad_observe ad = record_event" "leaves_trace (ad_runtime ad)" "\<And>y. snd (lo_env lo y) = snd y"
    and "map_of registry (pl_graph p) = Some reg"
    and "execute_langgraph_run_impl txt ad lo sc registry fresh tok p (l, []) = (out, (l', evs))"
  shows "lifecycle (activity_context reg p fresh) out evs"
proof -
  let ?ctx = "activity_context reg p fresh"
  let ?body = "activity_body txt ad sc reg ?ctx p (locked_thread reg p)"
  have body: "lifecycle ?ctx (fst (?body token x)) (snd (snd (?body token x)))" if "snd x = []" for token x
    by (rule activity_body_trace [OF assms(4,3) that])
  have ex: "async_thread_lock (traced_acquire ip_acquire) (traced_release ip_release) (lo_env lo) (lo_first lo)
      (lo_undo lo) (lo_last lo) (map_option (Key (reg_name reg)) (locked_thread reg p)) tok ?body (l, []) = (out, (l', evs))"
    using assms(1,2,6,7) by (simp add: execute_langgraph_run_impl_def Let_def)
  show ?thesis
  proof (cases "locked_thread reg p")
    case None
    then show ?thesis using ex body [of "(l, [])" None] by (simp add: async_thread_lock_def)
  next
    case (Some t)
    obtain r s1 where a: "acquire_thread_lock (traced_acquire ip_acquire) (traced_release ip_release) (lo_env lo)
        (lo_first lo) (lo_undo lo) (Key (reg_name reg) t) tok (l, []) = (r, s1)" by (rule prod.exhaust)
    have s1: "snd s1 = []" using acquire_trace [OF assms(5) a] by simp
    show ?thesis
    proof (cases r)
      case (Returned token)
      obtain b s2 where b: "?body token s1 = (b, s2)" by (rule prod.exhaust)
      have lb: "lifecycle ?ctx b (snd s2)" using body [OF s1, of token] b by simp
      have f: "finish_scope (traced_release ip_release) (Key (reg_name reg) t) (lo_last lo) token b s2 = (out, (l', evs))"
        using ex a Some Returned b by (simp add: async_thread_lock_def)
      then have evs: "evs = snd s2"
        by (auto simp: finish_scope_def release_thread_lock_def traced_release_def split: if_splits option.splits)
      have "out = b \<or> (out = Cancelled \<and> b \<noteq> Pending) \<or> out = Pending"
        using f by (auto simp: finish_scope_def release_thread_lock_def split: if_splits option.splits)
      then show ?thesis using lb evs lifecycle_cancelled by auto
    qed (use ex a Some s1 in \<open>auto simp: async_thread_lock_def\<close>)
  qed
qed

text \<open>
  A payload whose \<open>config.configurable\<close> is null makes the activity raise when a thread id is
  given: the exception escapes before the observer hears of the run, although the module
  promises that the activity never raises, and the platform routes take a null as absent.
\<close>

theorem null_configurable_escapes:
  assumes "pl_thread p = Some t" "map_of (pl_config p) ''configurable'' = Some PNone"
  shows "activity_body txt ad sc reg ctx p lt (Some tok) x =
    (Returned (ActRaised (Exn ''TypeError'' ''argument after ** must be a mapping'')), x)"
  using assms by (simp add: activity_body_def pinned_config_def)

section \<open>Examples\<close>

definition echo_runtime :: "inproc traced graph_runtime" where
  "echo_runtime = \<lparr>gr_invoke = (\<lambda>g input config x. (Inr input, x)),
     gr_ainvoke = (\<lambda>g input config x. (Returned input, x))\<rparr>"

definition echo_adapter :: "inproc traced adapter" where
  "echo_adapter = \<lparr>ad_runtime = echo_runtime,
     ad_guard = \<lparr>gp_is_guard = (\<lambda>_. False), gp_provider = None, gp_check = (\<lambda>_ _. None)\<rparr>,
     ad_observe = record_event, ad_fails = (\<lambda>_. False), ad_enc = (\<lambda>_. [])\<rparr>"

definition calm :: schedule where
  "calm = \<lparr>sc_rounds = [Finished], sc_late = False\<rparr>"

definition example_lock_side :: "inproc traced lock_side" where
  "example_lock_side = \<lparr>lo_acquire = traced_acquire ip_acquire, lo_release = traced_release ip_release,
     lo_env = id, lo_first = calm, lo_undo = calm, lo_last = calm\<rparr>"

definition example_reg :: registration where
  "example_reg = \<lparr>reg_graph = 0, reg_name = ''g'', reg_async = False, reg_invocable = True, reg_checkpointer = True\<rparr>"

definition example_payload :: run_payload where
  "example_payload = \<lparr>pl_run_id = ''r'', pl_graph = ''g'', pl_input = PInt 1, pl_thread = Some ''t'',
     pl_config = [], pl_assistant = None, pl_correlation = None\<rparr>"

abbreviation example_text :: py_text where
  "example_text \<equiv> \<lparr>pt_str = (\<lambda>_. []), pt_repr = id\<rparr>"

definition example_activity :: "(lock_error, activity_end) outcome \<times> inproc traced" where
  "example_activity = execute_langgraph_run_impl example_text echo_adapter example_lock_side calm
     [(''g'', example_reg)] ''f'' ''tok'' example_payload (inproc_init, [])"

lemmas example_activity_defs =
  example_lock_side_def example_reg_def example_payload_def echo_adapter_def echo_runtime_def calm_def

lemma example_quiet: "traced_quiet (inproc_init, [])"
  by (simp add: traced_quiet_def ip_quiet_def inproc_init_def)

lemma example_locked: "locked_thread example_reg example_payload = Some ''t''"
  by (simp add: locked_thread_def example_reg_def example_payload_def)

lemma example_not_pending: "fst example_activity \<noteq> Pending"
proof -
  have free: "ip_states inproc_init k = None" for k by (simp add: inproc_init_def)
  show ?thesis
    by (simp add: example_activity_def execute_langgraph_run_impl_def example_locked Let_def
        async_thread_lock_def acquire_thread_lock_def traced_acquire_def ip_acquire_free [OF free]
        await_schedule_def finish_scope_def release_thread_lock_def activity_body_def pinned_config_def
        guarded_run_def run_failed_def guard_run_config_def ownership_guard_for_def invoke_graph_def
        run_sync_retaining_ownership_def check_ownership_guard_def is_effectively_async_def
        example_activity_defs split: option.split prod.split sum.split)
qed

lemma durable_lock_released_witness:
  "traced_owner (snd example_activity) (Key ''g'' ''t'') = None"
proof -
  have run: "execute_langgraph_run_impl example_text echo_adapter example_lock_side calm
     [(''g'', example_reg)] ''f'' ''tok'' example_payload (inproc_init, []) = (fst example_activity, snd example_activity)"
    by (simp add: example_activity_def)
  have "traced_owner (snd example_activity) (Key ''g'' ''t'') = traced_owner (inproc_init, []) (Key ''g'' ''t'')"
    by (rule conjunct2 [OF durable_lock_released [OF example_quiet _ _ _ _ _ example_locked _ _ run example_not_pending]])
      (simp_all add: example_activity_defs leaves_lock_def)
  then show ?thesis by (simp add: traced_owner_def ip_owner_def inproc_init_def)
qed

lemma durable_graph_owned_witness:
  "fst example_activity = fst (execute_langgraph_run_impl example_text
     (echo_adapter\<lparr>ad_runtime := echo_runtime\<lparr>gr_invoke := (\<lambda>g input config x.
        if traced_owner x (Key ''g'' ''t'') = Some ''tok'' then (Inr input, x) else (Inl (Exn ''E'' []), x))\<rparr>\<rparr>)
     example_lock_side calm [(''g'', example_reg)] ''f'' ''tok'' example_payload (inproc_init, []))"
  unfolding example_activity_def
  by (rule arg_cong [of _ _ fst], rule durable_graph_owned [OF example_quiet _ _ _ _ example_locked])
    (simp_all add: example_activity_defs)

lemma durable_lifecycle_witness:
  "lifecycle (activity_context example_reg example_payload ''f'') (fst example_activity) (snd (snd example_activity))"
proof -
  have run: "execute_langgraph_run_impl example_text echo_adapter example_lock_side calm
     [(''g'', example_reg)] ''f'' ''tok'' example_payload (inproc_init, []) =
       (fst example_activity, (fst (snd example_activity), snd (snd example_activity)))"
    by (simp add: example_activity_def)
  show ?thesis
    by (rule durable_lifecycle [OF _ _ _ _ _ _ run])
      (simp_all add: example_activity_defs leaves_trace_def)
qed

lemma null_configurable_escapes_witness:
  "fst (activity_body example_text echo_adapter calm example_reg (activity_context example_reg example_payload ''f'')
      (example_payload\<lparr>pl_config := [(''configurable'', PNone)]\<rparr>) (Some ''t'') (Some ''tok'') (inproc_init, [])) =
    Returned (ActRaised (Exn ''TypeError'' ''argument after ** must be a mapping''))"
  by (subst null_configurable_escapes [where t = "''t''"]) (simp_all add: example_payload_def)

end
