(* ===== verification/Service_Bus.thy ===== *)
theory Service_Bus
  imports Durable_Activity
begin

text \<open>
  The Service Bus adapter, \<^verbatim>\<open>triggers/service_bus.py\<close>: one message drives one run of a graph,
  from a synchronous and from an asynchronous handler, under the same per-thread lock as every
  other entry point. It is a client of the lock contract and of the observer.
\<close>

section \<open>Messages and registrations\<close>

text \<open>
  A message with its decoded body, its id, and its \<open>session_id\<close> attribute (\<open>None\<close> when it has
  none). Mapper, factory and result handler are the operator's code and may raise.
\<close>

record bus_message =
  bm_text :: string
  bm_id :: "string option"
  bm_session :: pyval

record 's bus_registration =
  sb_reg :: registration
  sb_mapper :: "bus_message \<Rightarrow> exn + pyval"
  sb_factory :: "(bus_message \<Rightarrow> exn + string option) option"
  sb_handler :: "(pyval \<Rightarrow> bus_message \<Rightarrow> 's \<Rightarrow> (exn + unit) \<times> 's) option"
  sb_session :: bool
  sb_exclusive :: bool

datatype bus_error = BusLock lock_error | BusRaised exn

definition default_message_mapper :: "bus_message \<Rightarrow> pyval" where
  "default_message_mapper msg =
     (case loads (bm_text msg) of
        Some (PDict d) \<Rightarrow> PDict d
      | _ \<Rightarrow> PDict [(''messages'',
               PList [PDict [(''role'', PStr ''human''), (''content'', PStr (bm_text msg))]])])"

definition session_missing :: exn where
  "session_missing = Exn ''ValueError'' ''session mode requires a nonempty message session_id''"

definition session_mismatch :: exn where
  "session_mismatch = Exn ''ValueError'' ''thread_id_factory must match message session_id in session mode''"

definition message_thread_id :: "'s bus_registration \<Rightarrow> bus_message \<Rightarrow> exn + string option" where
  "message_thread_id reg msg =
     bind_res (case sb_factory reg of None \<Rightarrow> Inr None | Some f \<Rightarrow> f msg)
       (\<lambda>thread_id.
          if \<not> sb_session reg then Inr thread_id
          else case bm_session msg of
              PStr sid \<Rightarrow>
                (if strip_text sid = [] then Inl session_missing
                 else if sb_factory reg \<noteq> None \<and> thread_id \<noteq> Some sid then Inl session_mismatch
                 else Inr (Some sid))
            | _ \<Rightarrow> Inl session_missing)"

definition thread_contention_error :: "py_text \<Rightarrow> string \<Rightarrow> string \<Rightarrow> exn" where
  "thread_contention_error txt thread graph_name =
     Exn ''ThreadContentionError''
       (''Thread '' @ pt_repr txt thread @ '' for graph '' @ pt_repr txt graph_name @
        '' is currently in use; message will be retried by the broker'')"

definition bus_context :: "'s bus_registration \<Rightarrow> bus_message \<Rightarrow> string option \<Rightarrow> string \<Rightarrow> run_context" where
  "bus_context reg msg thread fresh =
     new_run_context fresh (reg_name (sb_reg reg)) ''invoke'' None thread None (bm_id msg)
       (reg_checkpointer (sb_reg reg)) ''service_bus''"

text \<open>\<open>use_lock\<close>, with the thread to lock.\<close>

definition bus_lock_thread :: "'s bus_registration \<Rightarrow> string option \<Rightarrow> string option" where
  "bus_lock_thread reg thread =
     (case thread of None \<Rightarrow> None
      | Some t \<Rightarrow> if t \<noteq> [] \<and> reg_checkpointer (sb_reg reg) \<and> \<not> sb_exclusive reg then Some t else None)"

definition thread_config :: "string option \<Rightarrow> pyval dict option" where
  "thread_config thread =
     (case thread of None \<Rightarrow> None
      | Some t \<Rightarrow> if t = [] then None
          else Some [(''configurable'', PDict [(''thread_id'', PStr t)])])"

section \<open>The two handlers\<close>

text \<open>
  The observed part that both handlers write out: guard, graph, guard check, and one terminal
  event; \<open>call\<close> is \<open>graph.invoke\<close> or the awaited \<open>graph.ainvoke\<close>.
\<close>

definition observed_run ::
    "'s adapter \<Rightarrow> (pyval \<Rightarrow> pyval dict option \<Rightarrow> 's \<Rightarrow> (exn, pyval) outcome \<times> 's) \<Rightarrow> string \<Rightarrow> run_context \<Rightarrow>
     string option \<Rightarrow> token option \<Rightarrow> pyval dict option \<Rightarrow> pyval \<Rightarrow> 's \<Rightarrow> (exn, pyval) outcome \<times> 's" where
  "observed_run ad call name ctx thread token config input x =
     (let x0 = ad_observe ad (RunStarted ctx) x in
      case guard_run_config (gp_is_guard (ad_guard ad)) (gp_provider (ad_guard ad)) name thread token config of
        Inl ge \<Rightarrow> (Raised (guard_exn ge), ad_observe ad (RunFailed ctx (guard_exn ge)) x0)
      | Inr (run_config, guard) \<Rightarrow>
          (case call input run_config x0 of
             (Raised e, x1) \<Rightarrow> (Raised e, ad_observe ad (RunFailed ctx e) x1)
           | (Cancelled, x1) \<Rightarrow> (Cancelled, ad_observe ad (RunFailed ctx cancelled_exn) x1)
           | (Pending, x1) \<Rightarrow> (Pending, x1)
           | (Returned v, x1) \<Rightarrow>
               (case check_ownership_guard (\<lambda>a. gp_check (ad_guard ad) a x1) guard of
                  Inl ge \<Rightarrow> (Raised (guard_exn ge), ad_observe ad (RunFailed ctx (guard_exn ge)) x1)
                | Inr _ \<Rightarrow> (Returned v, ad_observe ad (RunCompleted ctx) x1))))"

fun of_result :: "'e + 'a \<Rightarrow> ('e, 'a) outcome" where
  "of_result (Inl e) = Raised e"
| "of_result (Inr v) = Returned v"

definition call_invoke :: "'s adapter \<Rightarrow> registration \<Rightarrow> pyval \<Rightarrow> pyval dict option \<Rightarrow> 's \<Rightarrow> (exn, pyval) outcome \<times> 's" where
  "call_invoke ad r input config x =
     (let (res, x1) = gr_invoke (ad_runtime ad) (reg_graph r) input config x in (of_result res, x1))"

text \<open>The result handler runs after the lock is released and only on success.\<close>

definition deliver ::
    "'s bus_registration \<Rightarrow> bus_message \<Rightarrow> (bus_error, pyval) outcome \<Rightarrow> 's \<Rightarrow> (bus_error, pyval) outcome \<times> 's" where
  "deliver reg msg out x =
     (case (out, sb_handler reg) of
        (Returned v, Some h) \<Rightarrow>
          (case h v msg x of
             (Inl e, x1) \<Rightarrow> (Raised (BusRaised e), x1)
           | (Inr _, x1) \<Rightarrow> (Returned v, x1))
      | _ \<Rightarrow> (out, x))"

definition locked_sync_run ::
    "py_text \<Rightarrow> 's adapter \<Rightarrow> 's lock_side \<Rightarrow> string \<Rightarrow> token \<Rightarrow> 's bus_registration \<Rightarrow> bus_message \<Rightarrow>
     string option \<Rightarrow> pyval \<Rightarrow> 's \<Rightarrow> (bus_error, pyval) outcome \<times> 's" where
  "locked_sync_run txt ad lo fresh tok reg msg thread input x =
     (let name = reg_name (sb_reg reg);
          run = (\<lambda>token. observed_run ad (call_invoke ad (sb_reg reg)) name (bus_context reg msg thread fresh)
                   thread token (thread_config thread) input)
      in case bus_lock_thread reg thread of
           None \<Rightarrow> (let (r, x1) = run None x in (map_outcome BusRaised id r, x1))
         | Some t \<Rightarrow>
             (case lo_acquire lo (Key name t) tok x of
                (Inl e, x1) \<Rightarrow> (Raised (BusLock e), x1)
              | (Inr None, x1) \<Rightarrow> (Raised (BusRaised (thread_contention_error txt t name)), x1)
              | (Inr (Some token), x1) \<Rightarrow>
                  (if token = [] then (Raised (BusRaised (thread_contention_error txt t name)), x1)
                   else let (r, x2) = run (Some token) x1
                     in (map_outcome BusRaised id r, lo_release lo (Key name t) token x2))))"

definition process_service_bus_message ::
    "py_text \<Rightarrow> 's adapter \<Rightarrow> 's lock_side \<Rightarrow> string \<Rightarrow> token \<Rightarrow> 's bus_registration \<Rightarrow> bus_message \<Rightarrow>
     's \<Rightarrow> (bus_error, pyval) outcome \<times> 's" where
  "process_service_bus_message txt ad lo fresh tok reg msg x =
     (case sb_mapper reg msg of
        Inl e \<Rightarrow> (Raised (BusRaised e), x)
      | Inr input \<Rightarrow>
          (case message_thread_id reg msg of
             Inl e \<Rightarrow> (Raised (BusRaised e), x)
           | Inr thread \<Rightarrow>
               (let (out, x1) = locked_sync_run txt ad lo fresh tok reg msg thread input x
                in deliver reg msg out x1)))"

text \<open>In the body of the \<open>async with\<close> an exception of the run is a value, as in the activity.\<close>

fun as_value :: "(exn, pyval) outcome \<Rightarrow> (lock_error, exn + pyval) outcome" where
  "as_value (Returned v) = Returned (Inr v)"
| "as_value (Raised e) = Returned (Inl e)"
| "as_value Cancelled = Cancelled"
| "as_value Pending = Pending"

fun reraise :: "(lock_error, exn + pyval) outcome \<Rightarrow> (bus_error, pyval) outcome" where
  "reraise (Returned (Inr v)) = Returned v"
| "reraise (Returned (Inl e)) = Raised (BusRaised e)"
| "reraise (Raised e) = Raised (BusLock e)"
| "reraise Cancelled = Cancelled"
| "reraise Pending = Pending"

definition bus_body ::
    "py_text \<Rightarrow> 's adapter \<Rightarrow> string \<Rightarrow> 's bus_registration \<Rightarrow> bus_message \<Rightarrow> string option \<Rightarrow> pyval \<Rightarrow>
     token option \<Rightarrow> 's \<Rightarrow> (lock_error, exn + pyval) outcome \<times> 's" where
  "bus_body txt ad fresh reg msg thread input token x =
     (let name = reg_name (sb_reg reg); lock_thread = bus_lock_thread reg thread in
      if lock_thread \<noteq> None \<and> token = None
      then (Returned (Inl (thread_contention_error txt (the thread) name)), x)
      else let (r, x1) = observed_run ad (gr_ainvoke (ad_runtime ad) (reg_graph (sb_reg reg))) name
                 (bus_context reg msg thread fresh) lock_thread token (thread_config thread) input x
        in (as_value r, x1))"

definition process_service_bus_message_async ::
    "py_text \<Rightarrow> 's adapter \<Rightarrow> 's lock_side \<Rightarrow> string \<Rightarrow> token \<Rightarrow> 's bus_registration \<Rightarrow> bus_message \<Rightarrow>
     's \<Rightarrow> (bus_error, pyval) outcome \<times> 's" where
  "process_service_bus_message_async txt ad lo fresh tok reg msg x =
     (case sb_mapper reg msg of
        Inl e \<Rightarrow> (Raised (BusRaised e), x)
      | Inr input \<Rightarrow>
          (case message_thread_id reg msg of
             Inl e \<Rightarrow> (Raised (BusRaised e), x)
           | Inr thread \<Rightarrow>
               (let (out, x1) = async_thread_lock (lo_acquire lo) (lo_release lo) (lo_env lo) (lo_first lo)
                      (lo_undo lo) (lo_last lo) (map_option (Key (reg_name (sb_reg reg))) (bus_lock_thread reg thread))
                      tok (bus_body txt ad fresh reg msg thread input) x
                in deliver reg msg (reraise out) x1)))"

section \<open>Lemmas\<close>

lemma bus_lock_thread_Some:
  "bus_lock_thread reg thread = Some t \<longleftrightarrow>
     thread = Some t \<and> t \<noteq> [] \<and> reg_checkpointer (sb_reg reg) \<and> \<not> sb_exclusive reg"
  by (auto simp: bus_lock_thread_def split: option.splits)

text \<open>What code given to the adapter may do to the lock of \<open>k\<close>: leave it alone.\<close>

definition keeps_lock :: "('s \<Rightarrow> bool) \<Rightarrow> ('s \<Rightarrow> lock_key \<Rightarrow> token option) \<Rightarrow> lock_key \<Rightarrow> 's \<Rightarrow> 's \<Rightarrow> bool" where
  "keeps_lock good owner k x y \<longleftrightarrow> good y \<and> owner y k = owner x k"

definition handler_keeps ::
    "('s \<Rightarrow> bool) \<Rightarrow> ('s \<Rightarrow> lock_key \<Rightarrow> token option) \<Rightarrow> lock_key \<Rightarrow> 's bus_registration \<Rightarrow> bus_message \<Rightarrow> bool" where
  "handler_keeps good owner k reg msg \<longleftrightarrow>
     (\<forall>h v y. sb_handler reg = Some h \<longrightarrow> good y \<longrightarrow> keeps_lock good owner k y (snd (h v msg y)))"

lemma as_value_pending [simp]: "as_value r = Pending \<longleftrightarrow> r = Pending"
  by (cases r) simp_all

lemma reraise_pending [simp]: "reraise r = Pending \<longleftrightarrow> r = Pending"
  by (cases r rule: reraise.cases) simp_all

lemma reraise_as_value [simp]: "reraise (as_value r) = map_outcome BusRaised id r"
  by (cases r) simp_all

lemma deliver_pending: "fst (deliver reg msg out x) = Pending \<longleftrightarrow> out = Pending"
  by (cases out) (auto simp: deliver_def split: option.splits prod.splits sum.splits)

lemma call_invoke_result: "fst (call_invoke ad r input config x) \<notin> {Cancelled, Pending}"
  by (cases "fst (gr_invoke (ad_runtime ad) (reg_graph r) input config x)")
    (simp_all add: call_invoke_def split_def)

lemma observed_run_ends:
  assumes "\<And>i c y. fst (call i c y) \<notin> {Cancelled, Pending}"
  shows "fst (observed_run ad call name ctx thread token config input x) \<notin> {Cancelled, Pending}"
proof (cases "guard_run_config (gp_is_guard (ad_guard ad)) (gp_provider (ad_guard ad)) name thread token config")
  case (Inr rg)
  obtain rc g where rg: "rg = (rc, g)" by (rule prod.exhaust)
  obtain r x1 where c: "call input rc (ad_observe ad (RunStarted ctx) x) = (r, x1)" by (rule prod.exhaust)
  then have "r \<notin> {Cancelled, Pending}"
    using assms [of input rc "ad_observe ad (RunStarted ctx) x"] by simp
  with Inr rg c show ?thesis by (cases r) (simp_all add: observed_run_def split: sum.split)
qed (simp add: observed_run_def)

text \<open>An empty thread never reaches the lock, and both handlers hand the guard the same thread.\<close>

lemma guard_thread:
  "(if token = None then thread' = thread' else thread' = thread) \<Longrightarrow>
   guard_run_config g p name thread' token config = guard_run_config g p name thread token config"
  by (cases token) (auto simp: guard_run_config_def ownership_guard_for_def split: option.split)

lemma observed_run_thread:
  "token = None \<Longrightarrow>
   observed_run ad call name ctx thread token config input x = observed_run ad call name ctx thread' token config input x"
  using guard_thread [of token thread thread'] by (simp add: observed_run_def)

context run_scope begin

lemma observed_run_respects:
  assumes "\<And>i c y. inv y \<Longrightarrow> keeps_lock inv owner k y (snd (call i c y))"
    and "ad_observe ad = observe" "inv x"
  shows "keeps_lock inv owner k x (snd (observed_run ad call name ctx thread token config input x))"
proof -
  let ?x = "observe (RunStarted ctx) x"
  have x: "inv ?x" "owner ?x = owner x" using assms(3) by (simp_all add: observe_inv observe_owner)
  show ?thesis
  proof (cases "guard_run_config (gp_is_guard (ad_guard ad)) (gp_provider (ad_guard ad)) name thread token config")
    case (Inl ge)
    with x assms(2) show ?thesis
      by (simp add: observed_run_def keeps_lock_def observe_inv observe_owner)
  next
    case (Inr rg)
    obtain rc g where rg: "rg = (rc, g)" by (rule prod.exhaust)
    obtain r x1 where c: "call input rc ?x = (r, x1)" by (rule prod.exhaust)
    have "keeps_lock inv owner k ?x x1" using assms(1) [OF x(1), of input rc] c by simp
    with x Inr rg c assms(2) show ?thesis
      by (cases r) (simp_all add: observed_run_def keeps_lock_def observe_inv observe_owner split: sum.split)
  qed
qed

lemma deliver_respects:
  assumes "handler_keeps inv owner k reg msg" "inv x"
  shows "keeps_lock inv owner k x (snd (deliver reg msg out x))"
proof (cases "\<exists>v h. out = Returned v \<and> sb_handler reg = Some h")
  case True
  then obtain v h where vh: "out = Returned v" "sb_handler reg = Some h" by blast
  then have "keeps_lock inv owner k x (snd (h v msg x))" using assms by (simp add: handler_keeps_def)
  with vh show ?thesis by (auto simp: deliver_def split: prod.split sum.split)
next
  case False
  with assms(2) show ?thesis
    by (auto simp: deliver_def keeps_lock_def split: outcome.split option.split)
qed

lemma sync_run_releases:
  assumes "inv x" "lo_acquire lo = acquire" "lo_release lo = release" "ad_observe ad = observe" "tok \<noteq> []"
    and rt: "\<And>i c y. inv y \<Longrightarrow> keeps_lock inv owner k y (snd (gr_invoke (ad_runtime ad) (reg_graph (sb_reg reg)) i c y))"
    and lt: "bus_lock_thread reg thread = Some t" and k: "k = Key (reg_name (sb_reg reg)) t"
  shows "keeps_lock inv owner k x (snd (locked_sync_run txt ad lo fresh tok reg msg thread input x))"
proof -
  let ?run = "\<lambda>token. observed_run ad (call_invoke ad (sb_reg reg)) (reg_name (sb_reg reg))
     (bus_context reg msg thread fresh) thread token (thread_config thread) input"
  have call: "keeps_lock inv owner k y (snd (call_invoke ad (sb_reg reg) i c y))" if "inv y" for i c y
    using rt [OF that, of i c] by (simp add: call_invoke_def split_def Let_def)
  obtain r x1 where a: "acquire k tok x = (r, x1)" by (rule prod.exhaust)
  have i1: "inv x1" using assms(1) a by (rule acquire_inv)
  show ?thesis
  proof (cases "\<exists>token. r = Inr (Some token)")
    case True
    then obtain token where r: "r = Inr (Some token)" by blast
    then have o: "token = tok" "owner x k = None" "owner x1 k = Some tok" "token \<noteq> []"
      using acquire_token [OF assms(1)] a assms(5) by auto
    obtain b x2 where b: "?run (Some token) x1 = (b, x2)" by (rule prod.exhaust)
    have "keeps_lock inv owner k x1 (snd (?run (Some token) x1))"
      by (rule observed_run_respects [OF call assms(4) i1])
    then have "keeps_lock inv owner k x1 x2" by (simp add: b)
    with o have x2: "inv x2" "owner x2 k = Some tok" by (simp_all add: keeps_lock_def)
    have "snd (locked_sync_run txt ad lo fresh tok reg msg thread input x) = release k token x2"
      using lt k a r b o assms(2,3) by (simp add: locked_sync_run_def Let_def)
    with x2 o show ?thesis by (simp add: keeps_lock_def release_inv release_owner)
  next
    case False
    then have "owner x1 = owner x" using acquire_refused [OF assms(1) a] by blast
    moreover have "snd (locked_sync_run txt ad lo fresh tok reg msg thread input x) = x1"
      using lt k a False assms(2)
      by (cases r) (auto simp: locked_sync_run_def Let_def split: option.split)
    ultimately show ?thesis using i1 by (simp add: keeps_lock_def)
  qed
qed

lemma async_run_releases:
  assumes "inv x" "\<And>y. inv y \<Longrightarrow> inv (lo_env lo y) \<and> (owner y k = Some tok \<longrightarrow> owner (lo_env lo y) k = Some tok)"
    and "ad_observe ad = observe"
    and rt: "\<And>i c y. inv y \<Longrightarrow> keeps_lock inv owner k y (snd (gr_ainvoke (ad_runtime ad) (reg_graph (sb_reg reg)) i c y))"
    and run: "async_thread_lock acquire release (lo_env lo) (lo_first lo) (lo_undo lo) (lo_last lo) (Some k) tok
      (bus_body txt ad fresh reg msg thread input) x = (out, x')" "out \<noteq> Pending"
  shows "keeps_lock inv owner k x x'"
  unfolding keeps_lock_def
proof (rule scope_releases [OF assms(1,2) _ run])
  show "inv (snd (bus_body txt ad fresh reg msg thread input token y)) \<and>
      owner (snd (bus_body txt ad fresh reg msg thread input token y)) k = owner y k" if "inv y" for token y
    using observed_run_respects [where call = "gr_ainvoke (ad_runtime ad) (reg_graph (sb_reg reg))", OF rt assms(3) that,
        of "reg_name (sb_reg reg)" "bus_context reg msg thread fresh" "bus_lock_thread reg thread" token
        "thread_config thread" input] that
    by (auto simp: bus_body_def Let_def keeps_lock_def split: prod.split)
qed

text \<open>
  The asynchronous handler is the synchronous one when nobody cancels it and \<open>ainvoke\<close> computes
  what \<open>invoke\<close> does.
\<close>

lemma async_run_matches:
  assumes "inv x" "lo_acquire lo = acquire" "tok \<noteq> []"
    and calm: "await_schedule (lo_first lo) = Some False" "await_schedule (lo_last lo) = Some False"
    and same: "gr_ainvoke (ad_runtime ad) (reg_graph (sb_reg reg)) = call_invoke ad (sb_reg reg)"
  shows "(let (out, x1) = async_thread_lock (lo_acquire lo) (lo_release lo) (lo_env lo) (lo_first lo)
        (lo_undo lo) (lo_last lo) (map_option (Key (reg_name (sb_reg reg))) (bus_lock_thread reg thread))
        tok (bus_body txt ad fresh reg msg thread input) x in (reraise out, x1)) =
     locked_sync_run txt ad lo fresh tok reg msg thread input x"
proof -
  let ?run = "\<lambda>th token. observed_run ad (call_invoke ad (sb_reg reg)) (reg_name (sb_reg reg))
     (bus_context reg msg thread fresh) th token (thread_config thread) input"
  show ?thesis
  proof (cases "bus_lock_thread reg thread")
    case None
    then show ?thesis
      using observed_run_thread [of None ad _ _ _ None _ input x thread] same
      by (simp add: async_thread_lock_def bus_body_def locked_sync_run_def Let_def split_def)
  next
    case (Some t)
    let ?k = "Key (reg_name (sb_reg reg)) t"
    have t: "thread = Some t" using Some by (simp add: bus_lock_thread_Some)
    obtain r x1 where a: "acquire ?k tok x = (r, x1)" by (rule prod.exhaust)
    show ?thesis
    proof (cases r)
      case (Inl e)
      with a Some calm(1) assms(2) show ?thesis
        by (simp add: async_thread_lock_def acquire_thread_lock_def locked_sync_run_def Let_def)
    next
      case (Inr token)
      show ?thesis
      proof (cases token)
        case None
        with a Some Inr t calm(1) assms(2) show ?thesis
          by (simp add: async_thread_lock_def acquire_thread_lock_def locked_sync_run_def bus_body_def
              finish_scope_def Let_def)
      next
        case (Some tk)
        then have tk: "tk = tok" using acquire_token [OF assms(1), of ?k tok tk x1] a Inr by simp
        obtain b x2 where b: "?run thread (Some tk) x1 = (b, x2)" by (rule prod.exhaust)
        have "b \<notin> {Cancelled, Pending}"
          using observed_run_ends [of "call_invoke ad (sb_reg reg)" ad "reg_name (sb_reg reg)"
              "bus_context reg msg thread fresh" thread "Some tk" "thread_config thread" input x1, OF call_invoke_result]
          by (simp add: b)
        then show ?thesis
          using a \<open>bus_lock_thread reg thread = Some t\<close> Inr Some t b tk calm assms(2,3) same
          by (cases b) (simp_all add: async_thread_lock_def acquire_thread_lock_def locked_sync_run_def bus_body_def
              finish_scope_def release_thread_lock_def Let_def)
      qed
    qed
  qed
qed

lemma bus_releases:
  assumes "inv x" "tok \<noteq> []" "lo_acquire lo = acquire" "lo_release lo = release" "ad_observe ad = observe"
    and "\<And>y. inv y \<Longrightarrow> inv (lo_env lo y) \<and> (owner y k = Some tok \<longrightarrow> owner (lo_env lo y) k = Some tok)"
    and "leaves_lock inv owner k (ad_runtime ad)"
    and handler: "handler_keeps inv owner k reg msg"
    and thread: "message_thread_id reg msg = Inr thread" "bus_lock_thread reg thread = Some t"
      "k = Key (reg_name (sb_reg reg)) t"
  shows "owner (snd (process_service_bus_message txt ad lo fresh tok reg msg x)) k = owner x k \<and>
    (if fst (process_service_bus_message_async txt ad lo fresh tok reg msg x) = Pending then True
     else owner (snd (process_service_bus_message_async txt ad lo fresh tok reg msg x)) k = owner x k)"
proof (cases "sb_mapper reg msg")
  case (Inl e)
  then show ?thesis by (simp add: process_service_bus_message_def process_service_bus_message_async_def)
next
  case (Inr input)
  have rt: "keeps_lock inv owner k y (snd (gr_invoke (ad_runtime ad) (reg_graph (sb_reg reg)) i c y))"
    "keeps_lock inv owner k y (snd (gr_ainvoke (ad_runtime ad) (reg_graph (sb_reg reg)) i c y))" if "inv y" for i c y
    using assms(7) that by (simp_all add: leaves_lock_def keeps_lock_def)
  obtain out x1 where sync: "locked_sync_run txt ad lo fresh tok reg msg thread input x = (out, x1)" by (rule prod.exhaust)
  have "keeps_lock inv owner k x x1"
    using sync_run_releases [OF assms(1,3,4,5,2) rt(1) thread(2,3), of "txt" fresh msg input] sync by simp
  then have 1: "owner (snd (process_service_bus_message txt ad lo fresh tok reg msg x)) k = owner x k"
    using deliver_respects [OF handler, of x1 out] Inr thread(1) sync
    by (simp add: process_service_bus_message_def keeps_lock_def)
  obtain out' x2 where async: "async_thread_lock acquire release (lo_env lo) (lo_first lo) (lo_undo lo) (lo_last lo)
      (Some k) tok (bus_body txt ad fresh reg msg thread input) x = (out', x2)" by (rule prod.exhaust)
  have p: "process_service_bus_message_async txt ad lo fresh tok reg msg x = deliver reg msg (reraise out') x2"
    using Inr thread async assms(3,4) by (simp add: process_service_bus_message_async_def)
  have "owner (snd (deliver reg msg (reraise out') x2)) k = owner x k" if "out' \<noteq> Pending"
    using async_run_releases [OF assms(1,6,5) rt(2) async that] deliver_respects [OF handler, of x2 "reraise out'"]
    by (simp add: keeps_lock_def)
  with 1 p show ?thesis by (simp add: deliver_pending)
qed

end

section \<open>On the backends\<close>

text \<open>
  C11: Both handlers give the blob lock back: for a checkpointed graph and a message with a thread,
  the key has its former owner again when the handler ends, whatever the graph, the guard and the
  result handler do besides the lock, and however often the asynchronous one is cancelled.
\<close>

theorem service_bus_lock_released:
  assumes "bl_ok x" "tok \<noteq> []" "lo_acquire lo = bl_acquire sv timeout" "lo_release lo = bl_release sv"
    and "ad_observe ad = noop_observer"
    and "\<And>y. bl_ok y \<Longrightarrow> bl_ok (lo_env lo y) \<and> (bl_owner y k = Some tok \<longrightarrow> bl_owner (lo_env lo y) k = Some tok)"
    and "leaves_lock bl_ok bl_owner k (ad_runtime ad)"
    and "handler_keeps bl_ok bl_owner k reg msg"
    and "message_thread_id reg msg = Inr thread" "bus_lock_thread reg thread = Some t"
      "k = Key (reg_name (sb_reg reg)) t"
  shows "bl_owner (snd (process_service_bus_message txt ad lo fresh tok reg msg x)) k = bl_owner x k \<and>
    (if fst (process_service_bus_message_async txt ad lo fresh tok reg msg x) = Pending then True
     else bl_owner (snd (process_service_bus_message_async txt ad lo fresh tok reg msg x)) k = bl_owner x k)"
  by (rule blob_run.bus_releases [OF assms(1-5), where k = k and thread = thread and t = t]) (use assms(6-) in auto)

text \<open>
  C32: The asynchronous handler matches the synchronous one: when it is not cancelled and \<open>ainvoke\<close>
  computes what \<open>invoke\<close> does, it has the same result, error, lock operations and events, although
  the two hand different threads to the guard and test the token differently.
\<close>

theorem service_bus_async_matches:
  assumes "traced_quiet x" "tok \<noteq> []" "lo_acquire lo = traced_acquire ip_acquire"
    and "await_schedule (lo_first lo) = Some False" "await_schedule (lo_last lo) = Some False"
    and "gr_ainvoke (ad_runtime ad) (reg_graph (sb_reg reg)) = call_invoke ad (sb_reg reg)"
  shows "process_service_bus_message_async txt ad lo fresh tok reg msg x =
    process_service_bus_message txt ad lo fresh tok reg msg x"
proof -
  have "(let (out, x1) = async_thread_lock (lo_acquire lo) (lo_release lo) (lo_env lo) (lo_first lo)
        (lo_undo lo) (lo_last lo) (map_option (Key (reg_name (sb_reg reg))) (bus_lock_thread reg thread))
        tok (bus_body txt ad fresh reg msg thread input) x in deliver reg msg (reraise out) x1) =
     (let (out, x1) = locked_sync_run txt ad lo fresh tok reg msg thread input x in deliver reg msg out x1)"
    for thread input
    using traced.async_run_matches [OF assms(1,3,2,4-6), where fresh = fresh and thread = thread and input = input, symmetric]
    by (simp add: Let_def split_def)
  then show ?thesis
    unfolding process_service_bus_message_def process_service_bus_message_async_def by (simp only:)
qed

text \<open>The events a message may cause, by its outcome.\<close>

definition bus_trace :: "run_context \<Rightarrow> (bus_error, pyval) outcome \<Rightarrow> run_event list \<Rightarrow> bool" where
  "bus_trace ctx out evs \<longleftrightarrow>
     (\<exists>e. evs = [] \<and> out = Raised e) \<or> evs = [RunStarted ctx, RunCompleted ctx] \<or>
     (\<exists>e. evs = [RunStarted ctx, RunFailed ctx e] \<and> out = Raised (BusRaised e))"

lemma observed_run_trace:
  assumes "leaves_trace (ad_runtime ad)" "ad_observe ad = record_event" "snd x = []"
    and "observed_run ad (call_invoke ad r) name ctx thread token config input x = (out, x')"
  shows "(\<exists>v. out = Returned v \<and> snd x' = [RunStarted ctx, RunCompleted ctx]) \<or>
    (\<exists>e. out = Raised e \<and> snd x' = [RunStarted ctx, RunFailed ctx e])"
proof (cases "guard_run_config (gp_is_guard (ad_guard ad)) (gp_provider (ad_guard ad)) name thread token config")
  case (Inl ge)
  with assms show ?thesis by (auto simp: observed_run_def record_event_def)
next
  case (Inr rg)
  let ?x = "record_event (RunStarted ctx) x"
  obtain rc g where rg: "rg = (rc, g)" by (rule prod.exhaust)
  obtain b x1 where c: "call_invoke ad r input rc ?x = (b, x1)" by (rule prod.exhaust)
  have "x1 = snd (gr_invoke (ad_runtime ad) (reg_graph r) input rc ?x)"
    using c by (auto simp: call_invoke_def split_def Let_def)
  then have t: "snd x1 = [RunStarted ctx]"
    using assms(1,3) by (simp add: leaves_trace_def record_event_def)
  have "b \<notin> {Cancelled, Pending}" using call_invoke_result [of ad r input rc ?x] c by simp
  with assms(2,4) Inr rg c t show ?thesis
    by (cases b) (auto simp: observed_run_def record_event_def split: sum.splits)
qed

lemma traced_acquire_trace: "traced_acquire ip_acquire k tok x = (r, x1) \<Longrightarrow> snd x1 = snd x"
  by (auto simp: traced_acquire_def split_def Let_def)

lemma traced_release_trace: "snd (traced_release release k t x) = snd x"
  by (simp add: traced_release_def)

text \<open>
  What the observer hears of a message: nothing when it fails before the run (mapper, session,
  or a lock that is taken or broken), otherwise a start and exactly one terminal event, a failure
  that carries the error raised. The result handler causes no further event, also when it raises.
\<close>

theorem service_bus_lifecycle:
  assumes "lo_acquire lo = traced_acquire ip_acquire" "lo_release lo = traced_release ip_release"
    and "ad_observe ad = record_event" "leaves_trace (ad_runtime ad)"
    and "\<And>h v y. sb_handler reg = Some h \<Longrightarrow> snd (snd (h v msg y)) = snd y"
    and "process_service_bus_message txt ad lo fresh tok reg msg (l, []) = (out, (l', evs))"
  shows "\<exists>thread. bus_trace (bus_context reg msg thread fresh) out evs"
proof (cases "sb_mapper reg msg")
  case (Inl e)
  with assms(6) show ?thesis by (auto simp: process_service_bus_message_def bus_trace_def)
next
  case map: (Inr input)
  show ?thesis
  proof (cases "message_thread_id reg msg")
    case (Inl e)
    with map assms(6) show ?thesis by (auto simp: process_service_bus_message_def bus_trace_def)
  next
    case (Inr thread)
    let ?ctx = "bus_context reg msg thread fresh"
    obtain b x1 where s: "locked_sync_run txt ad lo fresh tok reg msg thread input (l, []) = (b, x1)" by (rule prod.exhaust)
    have d: "deliver reg msg b x1 = (out, (l', evs))"
      using map Inr s assms(6) by (simp add: process_service_bus_message_def)
    have run: "(\<exists>v. r = Returned v \<and> snd x' = [RunStarted ?ctx, RunCompleted ?ctx]) \<or>
        (\<exists>e. r = Raised e \<and> snd x' = [RunStarted ?ctx, RunFailed ?ctx e])"
      if "observed_run ad (call_invoke ad (sb_reg reg)) (reg_name (sb_reg reg)) ?ctx thread token c input x = (r, x')"
        "snd x = []" for token c x r x'
      by (rule observed_run_trace [OF assms(4,3) that(2,1)])
    have b: "(\<exists>e. b = Raised e \<and> snd x1 = []) \<or> (\<exists>v. b = Returned v \<and> snd x1 = [RunStarted ?ctx, RunCompleted ?ctx]) \<or>
        (\<exists>e. b = Raised (BusRaised e) \<and> snd x1 = [RunStarted ?ctx, RunFailed ?ctx e])"
    proof (cases "bus_lock_thread reg thread")
      case None
      obtain r x' where o: "observed_run ad (call_invoke ad (sb_reg reg)) (reg_name (sb_reg reg)) ?ctx thread None
          (thread_config thread) input (l, []) = (r, x')" by (rule prod.exhaust)
      with run [OF o] s None show ?thesis by (auto simp: locked_sync_run_def Let_def)
    next
      case (Some t)
      obtain a x0 where a: "traced_acquire ip_acquire (Key (reg_name (sb_reg reg)) t) tok (l, []) = (a, x0)"
        by (rule prod.exhaust)
      have x0: "snd x0 = []" using traced_acquire_trace [OF a] by simp
      show ?thesis
      proof (cases "\<exists>tk. a = Inr (Some tk) \<and> tk \<noteq> []")
        case True
        then obtain tk where tk: "a = Inr (Some tk)" "tk \<noteq> []" by blast
        obtain r x' where o: "observed_run ad (call_invoke ad (sb_reg reg)) (reg_name (sb_reg reg)) ?ctx thread (Some tk)
            (thread_config thread) input x0 = (r, x')" by (rule prod.exhaust)
        from run [OF o x0] s Some a tk o assms(1,2) show ?thesis
          by (auto simp: locked_sync_run_def Let_def traced_release_trace)
      next
        case False
        with s Some a x0 assms(1) show ?thesis
          by (cases a) (auto simp: locked_sync_run_def Let_def split: option.splits)
      qed
    qed
    have "evs = snd x1 \<and> ((\<exists>v. b = Returned v) \<or> out = b)"
    proof (cases "\<exists>v h. b = Returned v \<and> sb_handler reg = Some h")
      case True
      then obtain v h where vh: "b = Returned v" "sb_handler reg = Some h" by blast
      from d have "snd (snd (h v msg x1)) = evs"
        by (auto simp: deliver_def vh split: prod.splits sum.splits)
      with assms(5) [OF vh(2), of v x1] vh(1) show ?thesis by simp
    next
      case False
      with d show ?thesis by (auto simp: deliver_def split: outcome.splits option.splits)
    qed
    with b show ?thesis by (auto simp: bus_trace_def)
  qed
qed

text \<open>
  A message that meets a held lock is given back to the broker by an exception, and the observer
  hears nothing of it, not even of a rejection: the documentation of \<open>RunObserver\<close> says that a run
  rejected for lock contention emits \<open>on_run_rejected\<close>, as the durable activity does.
\<close>

lemma service_bus_contention_silent:
  assumes "ip_quiet l" "ip_owner l (Key (reg_name (sb_reg reg)) t) \<noteq> None"
    and "lo_acquire lo = traced_acquire ip_acquire" "sb_mapper reg msg = Inr input"
    and "message_thread_id reg msg = Inr thread" "bus_lock_thread reg thread = Some t"
  shows "process_service_bus_message txt ad lo fresh tok reg msg (l, evs) =
    (Raised (BusRaised (thread_contention_error txt t (reg_name (sb_reg reg)))), (l, evs))"
proof -
  obtain a where "ip_states l (Key (reg_name (sb_reg reg)) t) = Some a"
    using assms(2) by (auto simp: ip_owner_def split: option.splits)
  then have "traced_acquire ip_acquire (Key (reg_name (sb_reg reg)) t) tok (l, evs) = (Inr None, (l, evs))"
    using ip_acquire_held [OF assms(1)] by (simp add: traced_acquire_def)
  then show ?thesis
    using assms(3-6) by (simp add: process_service_bus_message_def locked_sync_run_def deliver_def Let_def)
qed

section \<open>Examples\<close>

definition example_message :: bus_message where
  "example_message = \<lparr>bm_text = ''{}'', bm_id = Some ''m'', bm_session = PStr ''t''\<rparr>"

definition example_bus :: "'s bus_registration" where
  "example_bus = \<lparr>sb_reg = example_reg, sb_mapper = (\<lambda>m. Inr (default_message_mapper m)), sb_factory = None,
     sb_handler = Some (\<lambda>v m x. (Inl (Exn ''SinkError'' []), x)), sb_session = True, sb_exclusive = False\<rparr>"

lemma example_thread:
  "message_thread_id example_bus example_message = Inr (Some ''t'')"
  "bus_lock_thread example_bus (Some ''t'') = Some ''t''"
  by (simp_all add: message_thread_id_def example_bus_def example_message_def bind_res_def strip_text_def
      is_white_def bus_lock_thread_def example_reg_def)

definition blob_echo :: "(blob_lock \<times> nat) adapter" where
  "blob_echo = \<lparr>ad_runtime = \<lparr>gr_invoke = (\<lambda>g i c x. (Inr i, x)), gr_ainvoke = (\<lambda>g i c x. (Cancelled, x))\<rparr>,
     ad_guard = \<lparr>gp_is_guard = (\<lambda>_. False), gp_provider = None, gp_check = (\<lambda>_ _. None)\<rparr>,
     ad_observe = noop_observer, ad_fails = (\<lambda>_. False), ad_enc = (\<lambda>_. [])\<rparr>"

definition blob_side :: "(blob_lock \<times> nat) lock_side" where
  "blob_side = \<lparr>lo_acquire = bl_acquire calm_service 0, lo_release = bl_release calm_service,
     lo_env = id, lo_first = calm, lo_undo = calm, lo_last = calm\<rparr>"

lemma service_bus_lock_released_witness:
  "bl_owner (snd (process_service_bus_message example_text blob_echo blob_side ''f'' ''tok'' example_bus
      example_message (example_lock, 0))) (Key ''g'' ''t'') = None"
proof -
  have ok: "bl_ok (example_lock, 0 :: nat)" "bl_owner (example_lock, 0 :: nat) (Key ''g'' ''t'') = None"
    by (simp_all add: bl_ok_def bl_owner_def example_lock_def)
  have "bl_owner (snd (process_service_bus_message example_text blob_echo blob_side ''f'' ''tok'' example_bus
      example_message (example_lock, 0))) (Key ''g'' ''t'') = bl_owner (example_lock, 0 :: nat) (Key ''g'' ''t'')"
    by (rule conjunct1 [OF service_bus_lock_released [OF ok(1) _ _ _ _ _ _ _ example_thread]])
      (simp_all add: blob_side_def blob_echo_def leaves_lock_def handler_keeps_def example_bus_def
        keeps_lock_def example_reg_def)
  with ok(2) show ?thesis by simp
qed

definition echo_both :: "inproc traced adapter" where
  "echo_both = echo_adapter\<lparr>ad_runtime := echo_runtime\<lparr>gr_ainvoke := (\<lambda>g i c x. (Returned i, x))\<rparr>\<rparr>"

lemma service_bus_async_matches_witness:
  "process_service_bus_message_async example_text echo_both example_lock_side ''f'' ''tok'' example_bus
     example_message (inproc_init, []) =
   process_service_bus_message example_text echo_both example_lock_side ''f'' ''tok'' example_bus
     example_message (inproc_init, [])"
  by (rule service_bus_async_matches [OF example_quiet])
    (auto simp: example_lock_side_def await_schedule_def calm_def echo_both_def echo_adapter_def echo_runtime_def
      call_invoke_def fun_eq_iff)

lemma service_bus_lifecycle_witness:
  "\<exists>thread. bus_trace (bus_context (example_bus :: inproc traced bus_registration) example_message thread ''f'')
     (fst (process_service_bus_message example_text echo_both example_lock_side ''f'' ''tok'' example_bus
        example_message (inproc_init, [])))
     (snd (snd (process_service_bus_message example_text echo_both example_lock_side ''f'' ''tok'' example_bus
        example_message (inproc_init, []))))"
proof -
  let ?r = "process_service_bus_message example_text echo_both example_lock_side ''f'' ''tok'' example_bus
      example_message (inproc_init, [])"
  have run: "?r = (fst ?r, (fst (snd ?r), snd (snd ?r)))" by simp
  show ?thesis
    by (rule service_bus_lifecycle [OF _ _ _ _ _ run])
      (auto simp: example_lock_side_def echo_both_def echo_adapter_def echo_runtime_def leaves_trace_def example_bus_def)
qed

end
