(* ===== verification/Platform_Common.thy ===== *)
theory Platform_Common
  imports Durable_Activity Quote Thread_Store
begin

text \<open>
  What the routes of the LangGraph Platform API share, \<^verbatim>\<open>platform/_common.py\<close> and
  \<^verbatim>\<open>platform/_sse.py\<close>: error answers, the preamble that parses and refuses a run request, the
  run configuration with its pinned thread, checkpoint configurations, and the buffered stream
  of server-sent events with its size limit. The validation of a request body by its pydantic
  model is a parameter.
\<close>

section \<open>Answers\<close>

text \<open>
  The detail of an error is a message, a message of a validator, or the sanitized list of
  pydantic's errors (location and type); a response is an error, a JSON value with its
  \<open>Content-Location\<close>, nothing, or the frames of a stream, which are sent concatenated.
\<close>

datatype detail = Message string | Rule verror | Invalid "(pyval list \<times> string) list"

datatype response =
    ErrorResponse (resp_code: nat) (resp_detail: detail) (resp_request: "string option")
  | JsonResponse (resp_value: pyval) (resp_location: "string option")
  | NoContent
  | SseResponse (resp_chunks: "string list") (resp_at: string)

definition platform_error :: "nat \<Rightarrow> detail \<Rightarrow> response" where
  "platform_error code d = ErrorResponse code d None"

fun status_of :: "response \<Rightarrow> nat" where
  "status_of (ErrorResponse code _ _) = code"
| "status_of (JsonResponse _ _) = 200"
| "status_of NoContent = 204"
| "status_of (SseResponse _ _) = 200"

section \<open>Strict mode and unknown fields\<close>

definition lower_char :: "char \<Rightarrow> char" where
  "lower_char c = (if CHR ''A'' \<le> c \<and> c \<le> CHR ''Z'' then char_of (of_char c + 32 :: nat) else c)"

definition platform_strict_env :: string where
  "platform_strict_env = ''AZFUNC_LANGGRAPH_PLATFORM_STRICT''"

definition platform_strict_enabled :: "string dict \<Rightarrow> bool" where
  "platform_strict_enabled env =
     (case map_of env platform_strict_env of None \<Rightarrow> False
      | Some raw \<Rightarrow> map lower_char (strip_text raw) \<notin> {[], ''0'', ''false'', ''no''})"

text \<open>A model is the list of its fields, each with its alias.\<close>

type_synonym model_fields = "(string \<times> string option) list"

definition allowed_keys :: "model_fields \<Rightarrow> string list" where
  "allowed_keys decl = concat (map (\<lambda>(name, alias). name # (case alias of None \<Rightarrow> [] | Some a \<Rightarrow> [a])) decl)"

definition unknown_request_fields :: "model_fields \<Rightarrow> pyval \<Rightarrow> string list" where
  "unknown_request_fields decl body =
     (case body of
        PDict d \<Rightarrow> sort (filter (\<lambda>k. k \<notin> set (allowed_keys decl)) (map fst d))
      | _ \<Rightarrow> [])"

definition check_unknown_platform_fields :: "string dict \<Rightarrow> model_fields \<Rightarrow> pyval \<Rightarrow> response option" where
  "check_unknown_platform_fields env decl body =
     (let unknown = unknown_request_fields decl body in
      if unknown = [] then None
      else if platform_strict_enabled env then
        Some (platform_error 400 (Message (''Unknown request field(s) rejected in strict mode: '' @
          join '', '' unknown @ ''. Unset '' @ platform_strict_env @ '' to ignore unknown fields instead.'')))
      else None)"

section \<open>The run request\<close>

text \<open>
  \<open>RunCreate\<close>; \<open>cr_other\<close> holds the nine fields that are declared but refused, by name.
\<close>

record run_create =
  cr_assistant :: string
  cr_input :: "pyval dict option"
  cr_metadata :: "pyval dict option"
  cr_config :: "pyval dict option"
  cr_context :: "pyval dict option"
  cr_stream_mode :: pyval
  cr_multitask :: "string option"
  cr_other :: "pyval dict"

definition run_create_fields :: model_fields where
  "run_create_fields = map (\<lambda>n. (n, None))
     [''assistant_id'', ''thread_id'', ''input'', ''metadata'', ''config'', ''context'', ''stream_mode'',
      ''interrupt_before'', ''interrupt_after'', ''webhook'', ''multitask_strategy'', ''checkpoint_id'',
      ''on_completion'', ''after_seconds'', ''if_not_exists'', ''command'', ''feedback_keys'']"

definition stream_modes :: "string list" where
  "stream_modes = [''values'', ''updates'', ''checkpoints'', ''tasks'', ''debug'', ''messages'', ''custom'']"

definition normalize_stream_mode :: "pyval \<Rightarrow> response + pyval" where
  "normalize_stream_mode raw_mode =
     (let check = (\<lambda>m. case m of
          PNone \<Rightarrow> Inr PNone
        | PStr s \<Rightarrow> (if s \<in> set stream_modes then Inr (PStr s)
            else Inl (platform_error 400 (Message ''stream_mode must be a supported LangGraph stream mode'')))
        | _ \<Rightarrow> Inl (platform_error 400 (Message ''stream_mode must be a supported LangGraph stream mode'')))
      in case raw_mode of
          PList [] \<Rightarrow> Inr (PStr ''values'')
        | PList [m] \<Rightarrow> check m
        | PList _ \<Rightarrow> Inl (platform_error 501 (Message (''Multi-stream-mode is not supported in this release. '' @
            ''Provide a single stream_mode string or a one-element list.'')))
        | m \<Rightarrow> check m)"

definition unsupported_fields :: "(string \<times> string) list" where
  "unsupported_fields =
     [(''interrupt_before'', ''Interrupt-before is not supported in this release.''),
      (''interrupt_after'', ''Interrupt-after is not supported in this release.''),
      (''webhook'', ''Webhook callbacks are not supported in this release.''),
      (''on_completion'', ''on_completion callbacks are not supported in this release.''),
      (''after_seconds'', ''Delayed runs are not supported in this release.''),
      (''if_not_exists'', ''if_not_exists is not supported in this release.''),
      (''checkpoint_id'', ''Checkpoint resumption is not supported in this release.''),
      (''command'', ''Command-based resumption is not supported in this release.''),
      (''feedback_keys'', ''Feedback keys are not supported in this release.'')]"

definition unsupported_thread_filter_fields :: "string list" where
  "unsupported_thread_filter_fields =
     [''values'', ''ids'', ''sort_by'', ''sort_order'', ''select'', ''extract'']"

fun first_unsupported :: "(string \<times> string) list \<Rightarrow> pyval dict \<Rightarrow> string option" where
  "first_unsupported [] other = None"
| "first_unsupported ((name, message) # rest) other =
     (if field_or_none name other \<noteq> PNone then Some message else first_unsupported rest other)"

definition preflight_run_create :: "py_text \<Rightarrow> run_create \<Rightarrow> response option" where
  "preflight_run_create txt run =
     (case first_unsupported unsupported_fields (cr_other run) of
        Some message \<Rightarrow> Some (platform_error 501 (Message message))
      | None \<Rightarrow>
          (case cr_multitask run of
             None \<Rightarrow> None
           | Some m \<Rightarrow> if m = ''reject'' then None
               else Some (platform_error 501 (Message (''Multitask strategy '' @ pt_repr txt m @
                 '' is not supported; only 'reject' is available.'')))))"

text \<open>Everything the routes are given, apart from the store, the lock and the graphs.\<close>

record route_deps =
  rd_registrations :: "registration dict"
  rd_max_stream :: nat
  rd_max_body :: nat
  rd_max_depth :: nat
  rd_max_nodes :: nat
  rd_max_limit :: int
  rd_env :: "string dict"

type_synonym 'r model_validate = "pyval \<Rightarrow> (pyval list \<times> string) list + 'r"

definition parse_run_create ::
    "py_text \<Rightarrow> run_create model_validate \<Rightarrow> route_deps \<Rightarrow> bool \<Rightarrow> http_request \<Rightarrow> response + run_create" where
  "parse_run_create txt validate deps require_dict req =
     (case validate_body_size (length (rq_body req)) (rd_max_body deps) of
        Some e \<Rightarrow> Inl (platform_error 413 (Rule e))
      | None \<Rightarrow>
          (case loads (rq_body req) of
             None \<Rightarrow> Inl (platform_error 400 (Message ''Invalid JSON body''))
           | Some body \<Rightarrow>
               (if require_dict \<and> \<not> is_dict body
                then Inl (platform_error 400 (Message ''Request body must be a JSON object''))
                else case check_unknown_platform_fields (rd_env deps) run_create_fields body of
                    Some r \<Rightarrow> Inl r
                  | None \<Rightarrow>
                      (case validate body of
                         Inl details \<Rightarrow> Inl (platform_error 422 (Invalid details))
                       | Inr run \<Rightarrow>
                           (case validate_graph_name (cr_assistant run) of
                              Some e \<Rightarrow> Inl (platform_error 400 (Rule e))
                            | None \<Rightarrow>
                                (case preflight_run_create txt run of
                                   Some r \<Rightarrow> Inl r
                                 | None \<Rightarrow> Inr run))))))"

text \<open>\<open>if run_req.input:\<close> skips a missing and an empty object.\<close>

definition structure_error :: "route_deps \<Rightarrow> pyval dict option \<Rightarrow> response option" where
  "structure_error deps d =
     (case d of None \<Rightarrow> None
      | Some v \<Rightarrow> if v = [] then None
          else map_option (\<lambda>e. platform_error 400 (Rule e))
            (validate_input_structure (PDict v) (rd_max_depth deps) (rd_max_nodes deps)))"

definition configurable_error :: "pyval dict option \<Rightarrow> response option" where
  "configurable_error config =
     (case config of None \<Rightarrow> None
      | Some c \<Rightarrow>
          (case map_of c ''configurable'' of None \<Rightarrow> None | Some PNone \<Rightarrow> None | Some (PDict _) \<Rightarrow> None
           | Some _ \<Rightarrow> Some (platform_error 400 (Message ''config.configurable must be a JSON object or null''))))"

definition first_error :: "response option \<Rightarrow> response option \<Rightarrow> response option" where
  "first_error a b = (case a of None \<Rightarrow> b | Some r \<Rightarrow> Some r)"

definition validate_run_io_structure :: "run_create \<Rightarrow> route_deps \<Rightarrow> response option" where
  "validate_run_io_structure run deps =
     first_error (structure_error deps (cr_input run))
       (first_error (structure_error deps (cr_config run))
         (first_error (configurable_error (cr_config run))
           (first_error (structure_error deps (cr_context run))
             (structure_error deps (cr_metadata run)))))"

definition resolve_run_graph :: "py_text \<Rightarrow> run_create \<Rightarrow> route_deps \<Rightarrow> response + registration" where
  "resolve_run_graph txt run deps =
     (case map_of (rd_registrations deps) (cr_assistant run) of
        None \<Rightarrow> Inl (platform_error 404 (Message (''Assistant '' @ pt_repr txt (cr_assistant run) @ '' not found'')))
      | Some reg \<Rightarrow>
          (case validate_run_io_structure run deps of Some r \<Rightarrow> Inl r | None \<Rightarrow> Inr reg))"

section \<open>Run configurations\<close>

text \<open>
  The client's \<open>configurable\<close>; validation has refused anything but an object or null, and null
  counts as absent.
\<close>

definition user_configurable :: "pyval dict \<Rightarrow> pyval dict" where
  "user_configurable c = (case map_of c ''configurable'' of Some (PDict d) \<Rightarrow> d | _ \<Rightarrow> [])"

definition build_threaded_config :: "run_create \<Rightarrow> string \<Rightarrow> pyval dict" where
  "build_threaded_config run tid =
     (let base = [(''thread_id'', PStr tid)] in
      case cr_config run of
        None \<Rightarrow> [(''configurable'', PDict base)]
      | Some c \<Rightarrow>
          (if c = [] then [(''configurable'', PDict base)]
           else dict_merge
             [(''configurable'', PDict (AList.update ''thread_id'' (PStr tid) (dict_merge base (user_configurable c))))]
             (AList.delete ''configurable'' c)))"

definition build_threadless_config :: "run_create \<Rightarrow> response + pyval dict" where
  "build_threadless_config run =
     (let config = (case cr_config run of None \<Rightarrow> []
         | Some c \<Rightarrow> if c = [] then []
             else dict_merge [(''configurable'', PDict (user_configurable c))] (AList.delete ''configurable'' c))
      in if field_or_none ''thread_id'' (user_configurable config) \<noteq> PNone
         then Inl (platform_error 422 (Message ''thread_id is not allowed on threadless runs''))
         else Inr config)"

text \<open>\<open>accepts\<close> says whether the method has a \<open>context\<close> parameter; the value is the keyword passed.\<close>

definition resolve_context_kwarg ::
    "py_text \<Rightarrow> bool \<Rightarrow> pyval dict option \<Rightarrow> string \<Rightarrow> response + pyval dict option" where
  "resolve_context_kwarg txt accepts context graph_name =
     (case context of
        None \<Rightarrow> Inr None
      | Some c \<Rightarrow>
          (if \<not> accepts
           then Inl (platform_error 422 (Message (''Graph '' @ pt_repr txt graph_name @ '' does not accept a 'context' argument'')))
           else Inr (Some c)))"

text \<open>
  Threadless runs use the graph without its checkpointer: \<open>clone\<close> is what \<open>copy\<close> returns, when the
  graph has that method.
\<close>

definition get_threadless_graph :: "bool \<Rightarrow> (exn + nat) option \<Rightarrow> nat \<Rightarrow> nat option" where
  "get_threadless_graph has_checkpointer clone g =
     (if \<not> has_checkpointer then Some g
      else case clone of None \<Rightarrow> None | Some (Inl e) \<Rightarrow> None | Some (Inr g') \<Rightarrow> Some g')"

section \<open>Bodies, threads and checkpoints\<close>

definition is_byte_space :: "char \<Rightarrow> bool" where
  "is_byte_space c = ((of_char c :: nat) \<in> {9, 10, 11, 12, 13, 32})"

definition read_json_body :: "http_request \<Rightarrow> route_deps \<Rightarrow> bool \<Rightarrow> bool \<Rightarrow> response + pyval" where
  "read_json_body req deps require_dict allow_empty =
     (case validate_body_size (length (rq_body req)) (rd_max_body deps) of
        Some e \<Rightarrow> Inl (platform_error 413 (Rule e))
      | None \<Rightarrow>
          (if allow_empty \<and> list_all is_byte_space (rq_body req) then Inr (PDict [])
           else case loads (rq_body req) of
               None \<Rightarrow> Inl (platform_error 400 (Message ''Invalid JSON body''))
             | Some body \<Rightarrow>
                 (if require_dict \<and> \<not> is_dict body
                  then Inl (platform_error 400 (Message ''Request body must be a JSON object''))
                  else Inr body)))"

definition thread_missing :: "py_text \<Rightarrow> string \<Rightarrow> response" where
  "thread_missing txt tid = platform_error 404 (Message (''Thread '' @ pt_repr txt tid @ '' not found''))"

text \<open>\<open>supports\<close> is the protocol test; the thread is what the store returned for \<open>tid\<close>.\<close>

definition resolve_thread_graph ::
    "py_text \<Rightarrow> route_deps \<Rightarrow> (nat \<Rightarrow> bool) \<Rightarrow> string \<Rightarrow> string \<Rightarrow> thread option \<Rightarrow> response + nat" where
  "resolve_thread_graph txt deps supports capability tid th =
     (case th of
        None \<Rightarrow> Inl (thread_missing txt tid)
      | Some t \<Rightarrow>
          (case th_assistant t of
             None \<Rightarrow> Inl (platform_error 409 (Message (''Thread '' @ pt_repr txt tid @
               '' is not bound to any assistant. Run a graph on this thread first.'')))
           | Some a \<Rightarrow>
               (case map_of (rd_registrations deps) a of
                  None \<Rightarrow> Inl (platform_error 404 (Message (''Assistant '' @ pt_repr txt a @
                    '' not found for thread '' @ pt_repr txt tid)))
                | Some reg \<Rightarrow>
                    (if \<not> supports (reg_graph reg)
                     then Inl (platform_error 409 (Message (''Graph '' @ pt_repr txt a @ '' does not support '' @ capability)))
                     else Inr (reg_graph reg)))))"

definition repr_of :: "py_text \<Rightarrow> pyval \<Rightarrow> string" where
  "repr_of txt v = (case v of PStr s \<Rightarrow> pt_repr txt s | _ \<Rightarrow> pt_str txt v)"

definition build_checkpoint_config ::
    "py_text \<Rightarrow> string \<Rightarrow> pyval dict option \<Rightarrow> string option \<Rightarrow> response + pyval dict" where
  "build_checkpoint_config txt tid checkpoint fallback =
     (let base = [(''thread_id'', PStr tid)];
          wrap = (\<lambda>d. [(''configurable'', PDict d)]);
          carry = (\<lambda>k cp d. if field_or_none k cp = PNone then d else AList.update k (field_or_none k cp) d)
      in case checkpoint of
          Some cp \<Rightarrow>
            (let cp_thread = field_or_none ''thread_id'' cp in
             if cp_thread \<noteq> PNone \<and> cp_thread \<noteq> PStr tid
             then Inl (platform_error 422 (Message (''Checkpoint thread_id '' @ repr_of txt cp_thread @
               '' does not match path thread_id '' @ pt_repr txt tid)))
             else Inr (wrap (carry ''checkpoint_ns'' cp (carry ''checkpoint_id'' cp base))))
        | None \<Rightarrow>
            (case fallback of None \<Rightarrow> Inr (wrap base)
             | Some c \<Rightarrow> Inr (wrap (AList.update ''checkpoint_id'' (PStr c) base))))"

record checkpoint_ref =
  cp_thread :: string
  cp_ns :: pyval
  cp_id :: pyval

record snapshot =
  sn_values :: pyval
  sn_next :: "string list option"
  sn_metadata :: "pyval dict option"
  sn_config :: pyval
  sn_parent :: pyval
  sn_created :: "string option"

record thread_state =
  ts_values :: pyval
  ts_next :: "string list"
  ts_checkpoint :: checkpoint_ref
  ts_metadata :: "pyval dict option"
  ts_created :: "string option"
  ts_parent :: "checkpoint_ref option"

text \<open>LangGraph's own configurations, which have a mapping under \<open>configurable\<close> if anything.\<close>

definition snapshot_configurable :: "pyval \<Rightarrow> pyval dict" where
  "snapshot_configurable config = (case config of PDict c \<Rightarrow> user_configurable c | _ \<Rightarrow> [])"

definition ns_or_empty :: "pyval dict \<Rightarrow> pyval" where
  "ns_or_empty d = (case map_of d ''checkpoint_ns'' of None \<Rightarrow> PStr [] | Some v \<Rightarrow> v)"

definition snapshot_to_thread_state :: "snapshot \<Rightarrow> string \<Rightarrow> thread_state" where
  "snapshot_to_thread_state sn tid =
     (let conf = snapshot_configurable (sn_config sn);
          parent = snapshot_configurable (sn_parent sn);
          parent_id = field_or_none ''checkpoint_id'' parent
      in \<lparr>ts_values = (if is_dict (sn_values sn) \<or> is_list (sn_values sn) then sn_values sn else PDict []),
          ts_next = (case sn_next sn of None \<Rightarrow> [] | Some xs \<Rightarrow> xs),
          ts_checkpoint = \<lparr>cp_thread = tid, cp_ns = ns_or_empty conf, cp_id = field_or_none ''checkpoint_id'' conf\<rparr>,
          ts_metadata = sn_metadata sn,
          ts_created = sn_created sn,
          ts_parent = (if parent_id = PNone then None
            else Some \<lparr>cp_thread = tid, cp_ns = ns_or_empty parent, cp_id = parent_id\<rparr>)\<rparr>)"

definition result_limit_error :: "int \<Rightarrow> int \<Rightarrow> response option" where
  "result_limit_error limit maximum =
     (if limit \<le> maximum then None
      else Some (platform_error 422 (Invalid [([PStr ''limit''], ''less_than_equal'')])))"

section \<open>Server-sent events\<close>

text \<open>
  \<open>dumps\<close> raises when the fallback of an opaque object does, at the first such object.
\<close>

primrec first_some :: "'a option list \<Rightarrow> 'a option" where
  "first_some [] = None"
| "first_some (x # xs) = (case x of None \<Rightarrow> first_some xs | Some e \<Rightarrow> Some e)"

fun encode_error :: "(nat \<Rightarrow> exn option) \<Rightarrow> pyval \<Rightarrow> exn option" where
  "encode_error f (PList xs) = first_some (map (encode_error f) xs)"
| "encode_error f (PDict d) = first_some (map (\<lambda>kv. encode_error f (snd kv)) d)"
| "encode_error f (PObj a) = f a"
| "encode_error f _ = None"

record encoder =
  en_error :: "nat \<Rightarrow> exn option"
  en_text :: "nat \<Rightarrow> string"

definition checked_dumps :: "encoder \<Rightarrow> pyval \<Rightarrow> exn + string" where
  "checked_dumps en v = (case encode_error (en_error en) v of Some e \<Rightarrow> Inl e | None \<Rightarrow> Inr (dumps (en_text en) v))"

definition nl :: string where "nl = [CHR 0x0A]"

definition sse_frame :: "string \<Rightarrow> string \<Rightarrow> string" where
  "sse_frame event data = ''event: '' @ event @ nl @ ''data: '' @ data @ nl @ nl"

definition format_metadata_event :: "string \<Rightarrow> string" where
  "format_metadata_event run_id = sse_frame ''metadata'' (dumps (\<lambda>_. []) (PDict [(''run_id'', PStr run_id)]))"

definition format_data_event :: "encoder \<Rightarrow> string \<Rightarrow> pyval \<Rightarrow> exn + string" where
  "format_data_event en stream_mode payload =
     (case checked_dumps en (if is_dict payload then payload else PDict [(''data'', payload)]) of
        Inl e \<Rightarrow> Inl e | Inr data \<Rightarrow> Inr (sse_frame stream_mode data))"

definition format_error_event :: "string \<Rightarrow> string option \<Rightarrow> string" where
  "format_error_event message request_id =
     sse_frame ''error'' (dumps (\<lambda>_. []) (PDict ((''error'', PStr message) #
       (case request_id of None \<Rightarrow> [] | Some r \<Rightarrow> [(''request_id'', PStr r)]))))"

definition format_end_event :: string where
  "format_end_event = sse_frame ''end'' ''null''"

text \<open>\<open>len(chunk.encode())\<close>.\<close>

definition byte_size :: "string \<Rightarrow> nat" where
  "byte_size s = length (concat (map utf8 s))"

definition overflow_event :: "nat \<Rightarrow> string" where
  "overflow_event max_bytes =
     format_error_event (''stream response exceeded max buffered size ('' @ nat_text max_bytes @ '' bytes)'') None"

definition check_stream_overflow :: "string list \<Rightarrow> nat \<Rightarrow> nat \<Rightarrow> nat \<Rightarrow> bool \<times> string list" where
  "check_stream_overflow chunks buffered chunk_bytes max_bytes =
     (if buffered + chunk_bytes > max_bytes
      then (True, chunks @ [overflow_event max_bytes, format_end_event])
      else (False, chunks))"

section \<open>The thread of a run is pinned\<close>

lemma map_of_threaded_configurable:
  "map_of (build_threaded_config run tid) ''configurable'' =
     Some (PDict (case cr_config run of None \<Rightarrow> [(''thread_id'', PStr tid)]
       | Some c \<Rightarrow> AList.update ''thread_id'' (PStr tid) (dict_merge [(''thread_id'', PStr tid)] (user_configurable c))))"
proof (cases "cr_config run")
  case (Some c)
  have "''configurable'' \<notin> dict_keys (AList.delete ''configurable'' c)" by (simp add: dom_map_of_conv_image_fst [symmetric] delete_conv dom_def)
  with Some show ?thesis
    by (cases "c = []") (simp_all add: build_threaded_config_def Let_def map_of_dict_merge_notin user_configurable_def)
qed (simp add: build_threaded_config_def)

lemma threaded_configurable:
  "configurable_map (Some (build_threaded_config run tid)) =
     Some (case cr_config run of None \<Rightarrow> [(''thread_id'', PStr tid)]
       | Some c \<Rightarrow> AList.update ''thread_id'' (PStr tid) (dict_merge [(''thread_id'', PStr tid)] (user_configurable c)))"
  by (simp add: configurable_map_def map_of_threaded_configurable)

text \<open>
  Whatever configuration a client sends, the one that reaches the graph of a thread-scoped run,
  with the ownership guard injected or stripped, names the thread of the path; every other
  \<open>configurable\<close> key but the guard's is the client's.
\<close>

theorem threaded_config_pins:
  fixes run tid guard
  defines "final \<equiv> config_with_ownership_guard (Some (build_threaded_config run tid)) guard"
  assumes "dict_ok (case cr_config run of None \<Rightarrow> [] | Some c \<Rightarrow> user_configurable c)" "k \<noteq> guard_key"
  shows "\<exists>d. configurable_map final = Some d \<and>
    map_of d k = (if k = ''thread_id'' then Some (PStr tid)
      else case cr_config run of None \<Rightarrow> None | Some c \<Rightarrow> map_of (user_configurable c) k)"
proof -
  have key: "''thread_id'' \<noteq> guard_key" by (simp add: guard_key_def)
  show ?thesis
    using assms(2,3) key unfolding final_def
    by (cases guard; cases "cr_config run")
      (auto simp: configurable_map_with_guard configurable_map_without_guard threaded_configurable map_of_dict_merge
        split: option.splits)
qed

lemma threaded_config_pins_witness:
  "\<exists>d. configurable_map (config_with_ownership_guard (Some (build_threaded_config
      \<lparr>cr_assistant = ''a'', cr_input = None, cr_metadata = None,
       cr_config = Some [(''configurable'', PDict [(''thread_id'', PStr ''other''), (''k'', PInt 1)])],
       cr_context = None, cr_stream_mode = PNone, cr_multitask = None, cr_other = []\<rparr> ''t'')) (Some 7)) = Some d \<and>
    map_of d ''thread_id'' = Some (PStr ''t'')"
  using threaded_config_pins [where k = "''thread_id''" and tid = "''t''" and guard = "Some 7" and
      run = "\<lparr>cr_assistant = ''a'', cr_input = None, cr_metadata = None,
       cr_config = Some [(''configurable'', PDict [(''thread_id'', PStr ''other''), (''k'', PInt 1)])],
       cr_context = None, cr_stream_mode = PNone, cr_multitask = None, cr_other = []\<rparr>"]
  by (simp add: user_configurable_def dict_ok_def guard_key_def)

text \<open>A threadless run carries no thread at all.\<close>

lemma threadless_has_no_thread:
  "build_threadless_config run = Inr config \<Longrightarrow>
     field_or_none ''thread_id'' (user_configurable config) = PNone"
  by (auto simp: build_threadless_config_def Let_def split: if_splits)

text \<open>A checkpoint configuration names the thread of the path, or the request is refused.\<close>

lemma checkpoint_config_pins:
  assumes "build_checkpoint_config txt tid checkpoint fallback = Inr config"
  shows "map_of (user_configurable config) ''thread_id'' = Some (PStr tid)"
  using assms
  by (auto simp: build_checkpoint_config_def user_configurable_def Let_def split: option.splits if_splits)

section \<open>What passes the preamble\<close>

lemma first_unsupported_None:
  "first_unsupported table other = None \<longleftrightarrow> (\<forall>p\<in>set table. field_or_none (fst p) other = PNone)"
  by (induction table other rule: first_unsupported.induct) auto

text \<open>
  A run request that passes the preamble is within the size limit, is JSON that its model
  accepts, names a valid assistant, uses none of the unsupported features and asks for no other
  multitask strategy than \<open>reject\<close>; in strict mode its body has no unknown field.
\<close>

theorem parse_run_create_accepts:
  assumes "parse_run_create txt validate deps require_dict req = Inr run"
  shows "length (rq_body req) \<le> rd_max_body deps \<and>
    (\<exists>body. loads (rq_body req) = Some body \<and> validate body = Inr run \<and> (if require_dict then is_dict body else True) \<and>
       (if platform_strict_enabled (rd_env deps) then unknown_request_fields run_create_fields body = [] else True)) \<and>
    validate_graph_name (cr_assistant run) = None \<and> cr_multitask run \<in> {None, Some ''reject''} \<and>
    list_all (\<lambda>p. field_or_none (fst p) (cr_other run) = PNone) unsupported_fields"
proof -
  obtain body where b: "loads (rq_body req) = Some body" "length (rq_body req) \<le> rd_max_body deps"
      "validate body = Inr run" "if require_dict then is_dict body else True"
      "check_unknown_platform_fields (rd_env deps) run_create_fields body = None"
      "validate_graph_name (cr_assistant run) = None" "preflight_run_create txt run = None"
    using assms
    by (auto simp: parse_run_create_def validate_body_size_def split: option.splits if_splits sum.splits)
  moreover have "if platform_strict_enabled (rd_env deps) then unknown_request_fields run_create_fields body = [] else True"
    using b(5) by (auto simp: check_unknown_platform_fields_def Let_def split: if_splits)
  moreover have "cr_multitask run \<in> {None, Some ''reject''} \<and>
      list_all (\<lambda>p. field_or_none (fst p) (cr_other run) = PNone) unsupported_fields"
    using b(7) by (auto simp: preflight_run_create_def list_all_iff first_unsupported_None split: option.splits if_splits)
  ultimately show ?thesis by blast
qed

section \<open>The wire format\<close>

text \<open>
  A client's view of the stream, after the specification of server-sent events: lines end in a
  newline, an empty line dispatches the event and data collected since the last one.
\<close>

fun sse_lines :: "string list \<Rightarrow> string \<Rightarrow> string \<Rightarrow> (string \<times> string) list" where
  "sse_lines [] event data = []"
| "sse_lines (l # ls) event data =
     (if l = [] then (if event = [] \<and> data = [] then [] else [(event, data)]) @ sse_lines ls [] []
      else if take 7 l = ''event: '' then sse_lines ls (drop 7 l) data
      else if take 6 l = ''data: '' then sse_lines ls event (drop 6 l)
      else sse_lines ls event data)"

definition sse_decode :: "string \<Rightarrow> (string \<times> string) list" where
  "sse_decode s = sse_lines (split_on (CHR 0x0A) s) [] []"

lemma sse_decode_Nil: "sse_decode [] = []"
  by (simp add: sse_decode_def)

lemma sse_decode_frame:
  assumes "CHR 0x0A \<notin> set event" "CHR 0x0A \<notin> set data" "event \<noteq> []"
  shows "sse_decode (sse_frame event data @ s) = (event, data) # sse_decode s"
proof -
  have "split_on (CHR 0x0A) (sse_frame event data @ s) =
      (''event: '' @ event) # (''data: '' @ data) # [] # split_on (CHR 0x0A) s"
    using split_on_append [of "CHR 0x0A" "''event: '' @ event" "''data: '' @ data @ CHR 0x0A # CHR 0x0A # s"]
      split_on_append [of "CHR 0x0A" "''data: '' @ data" "CHR 0x0A # s"] assms(1,2)
    by (simp add: sse_frame_def nl_def)
  then show ?thesis using assms(3) by (simp add: sse_decode_def)
qed

lemma sse_decode_frames:
  "\<forall>p\<in>set ps. CHR 0x0A \<notin> set (fst p) \<and> CHR 0x0A \<notin> set (snd p) \<and> fst p \<noteq> [] \<Longrightarrow>
     sse_decode (concat (map (\<lambda>p. sse_frame (fst p) (snd p)) ps) @ s) = ps @ sse_decode s"
  by (induction ps) (auto simp: sse_decode_frame)

text \<open>JSON text has no newline: control characters are escaped.\<close>

lemma escape_no_nl: "CHR 0x0A \<notin> set (escape_char c)"
proof -
  have hex: "lower_hex n \<noteq> CHR 0x0A" if "n < 16" for n
    using hex_val_lower [OF that] by (auto simp: hex_val_def)
  have less: "(of_char c :: nat) div 16 < 16" using of_char_256 [of c] by (intro less_mult_imp_div_less) simp
  show ?thesis
  proof
    assume "CHR 0x0A \<in> set (escape_char c)"
    then show False
      using hex [OF less] hex [of "of_char c mod 16"]
      by (auto simp: escape_char_def Let_def split: if_splits)
  qed
qed

lemma string_text_no_nl: "CHR 0x0A \<notin> set (string_text s)"
  using escape_no_nl by (auto simp: string_text_def)

lemma int_text_no_nl: "CHR 0x0A \<notin> set (int_text i)"
  using nat_text_digits by (force simp: int_text_def is_digit_def split: if_splits)

lemma join_no: "c \<notin> set sep \<Longrightarrow> \<forall>x\<in>set xs. c \<notin> set x \<Longrightarrow> c \<notin> set (join sep xs)"
  by (induction sep xs rule: join.induct) auto

lemma dumps_no_nl: "\<forall>a. CHR 0x0A \<notin> set (enc a) \<Longrightarrow> CHR 0x0A \<notin> set (dumps enc v)"
proof (induction v)
  case (PList xs)
  then show ?case using join_no [of "CHR 0x0A" "'', ''" "map (dumps enc) xs"] by auto
next
  case (PDict d)
  have "CHR 0x0A \<notin> set (string_text (fst kv) @ '': '' @ dumps enc (snd kv))" if "kv \<in> set d" for kv
    using PDict that string_text_no_nl by (cases kv) (fastforce simp: snds.simps)
  then show ?case
    using join_no [of "CHR 0x0A" "'', ''" "map (\<lambda>kv. string_text (fst kv) @ '': '' @ dumps enc (snd kv)) d"] by auto
qed (auto simp: string_text_no_nl int_text_no_nl)

text \<open>
  A client reads back what a stream wrote: decoding the concatenated frames gives the metadata
  event, one event per item, in order and under the stream mode, and the end event; the data of
  an item parses to the item, or to \<open>{"data": item}\<close> when it is no object.
\<close>

theorem sse_roundtrip:
  assumes "map (format_data_event en mode) items = map Inr frames"
    and "\<forall>a. CHR 0x0A \<notin> set (en_text en a)" "mode \<in> set stream_modes" "\<forall>v\<in>set items. json_value v"
  shows "\<exists>texts. sse_decode (concat (format_metadata_event run_id # frames @ [format_end_event])) =
      (''metadata'', dumps (\<lambda>_. []) (PDict [(''run_id'', PStr run_id)])) # map (Pair mode) texts @ [(''end'', ''null'')] \<and>
    map loads texts = map (\<lambda>v. Some (if is_dict v then v else PDict [(''data'', v)])) items"
proof -
  let ?wrap = "\<lambda>v. if is_dict v then v else PDict [(''data'', v)]"
  let ?texts = "map (\<lambda>v. dumps (en_text en) (?wrap v)) items"
  have frames: "frames = map (\<lambda>d. sse_frame mode d) ?texts"
    using assms(1)
  proof (induction items arbitrary: frames)
    case (Cons v items)
    then show ?case
      by (cases frames) (auto simp: format_data_event_def checked_dumps_def split: option.splits sum.splits)
  qed simp
  have mode: "CHR 0x0A \<notin> set mode" "mode \<noteq> []" using assms(3) by (auto simp: stream_modes_def)
  have data: "CHR 0x0A \<notin> set (dumps (en_text en) v)" for v using assms(2) by (rule dumps_no_nl)
  let ?fs = "(''metadata'', dumps (\<lambda>_. []) (PDict [(''run_id'', PStr run_id)])) #
      map (Pair mode) ?texts @ [(''end'', ''null'')]"
  have "concat (format_metadata_event run_id # frames @ [format_end_event]) =
      concat (map (\<lambda>p. sse_frame (fst p) (snd p)) ?fs) @ []"
    by (simp add: frames format_metadata_event_def format_end_event_def comp_def)
  moreover have "sse_decode (concat (map (\<lambda>p. sse_frame (fst p) (snd p)) ?fs) @ []) = ?fs @ sse_decode []"
    by (rule sse_decode_frames) (use mode data in \<open>auto simp: string_text_no_nl\<close>)
  moreover have "map loads ?texts = map (\<lambda>v. Some (?wrap v)) items"
    using assms(4) by (auto simp: loads_dumps)
  ultimately show ?thesis by (intro exI [of _ ?texts]) (simp add: sse_decode_Nil)
qed

lemma sse_roundtrip_witness:
  "\<exists>texts. sse_decode (concat (format_metadata_event ''r'' #
      map (sse_frame ''values'') [dumps (\<lambda>_. []) (PDict [(''k'', PStr [CHR 0x0A])]), dumps (\<lambda>_. []) (PDict [(''data'', PInt 3)])] @
      [format_end_event])) =
      (''metadata'', dumps (\<lambda>_. []) (PDict [(''run_id'', PStr ''r'')])) # map (Pair ''values'') texts @ [(''end'', ''null'')] \<and>
    map loads texts = [Some (PDict [(''k'', PStr [CHR 0x0A])]), Some (PDict [(''data'', PInt 3)])]"
  using sse_roundtrip [where en = "\<lparr>en_error = \<lambda>_. None, en_text = \<lambda>_. []\<rparr>" and mode = "''values''" and
      items = "[PDict [(''k'', PStr [CHR 0x0A])], PInt 3]" and run_id = "''r''" and
      frames = "map (sse_frame ''values'') [dumps (\<lambda>_. []) (PDict [(''k'', PStr [CHR 0x0A])]), dumps (\<lambda>_. []) (PDict [(''data'', PInt 3)])]"]
  by (simp add: format_data_event_def checked_dumps_def stream_modes_def del: dumps.simps)

lemma parse_run_create_accepts_witness:
  "cr_multitask \<lparr>cr_assistant = ''a'', cr_input = None, cr_metadata = None, cr_config = None, cr_context = None,
      cr_stream_mode = PNone, cr_multitask = Some ''reject'', cr_other = []\<rparr> \<in> {None, Some ''reject''}"
proof -
  let ?run = "\<lparr>cr_assistant = ''a'', cr_input = None, cr_metadata = None, cr_config = None, cr_context = None,
      cr_stream_mode = PNone, cr_multitask = Some ''reject'', cr_other = []\<rparr>"
  have l: "loads ''{}'' = Some (PDict [])" by (simp add: loads_def skip_def is_space_def mk_dict_def)
  have "parse_run_create \<lparr>pt_str = (\<lambda>_. []), pt_repr = id\<rparr> (\<lambda>_. Inr ?run)
      \<lparr>rd_registrations = [], rd_max_stream = 9, rd_max_body = 9, rd_max_depth = 9, rd_max_nodes = 9, rd_max_limit = 9, rd_env = []\<rparr>
      True \<lparr>rq_body = ''{}'', rq_params = [], rq_headers = []\<rparr> = Inr ?run"
    by (simp add: parse_run_create_def validate_body_size_def l check_unknown_platform_fields_def
        unknown_request_fields_def validate_graph_name_def dollar_bodies_def graph_name_body_def is_letter_def
        preflight_run_create_def unsupported_fields_def field_or_none_def)
  from parse_run_create_accepts [OF this] show ?thesis by blast
qed

end
