(* ===== verification/Store_Renewal.thy ===== *)
theory Store_Renewal
  imports Run_Scope Thread_Store
begin

text \<open>
  The renewal of a run lock while its run executes, \<^verbatim>\<open>platform/_store_renewal.py\<close>: a worker thread
  per run, which wakes every 20 seconds, and a registry of the workers by owner token. The worker
  is described by what it meets at its wake-ups; the registry holds what it has met so far.
\<close>

section \<open>The worker\<close>

text \<open>A wake-up: the stop event is set, or the store renews, refuses, or raises.\<close>

datatype wake = StopSet | Renews | Refuses | Raises exn

datatype worker = Working | Finished_worker "exn option"

definition renewal_lost :: exn where
  "renewal_lost = Exn ''RunLockRenewalError'' []"

definition stop_timeout :: exn where
  "stop_timeout = Exn ''RunLockRenewalStopTimeoutError'' []"

fun renewal_worker :: "wake list \<Rightarrow> worker" where
  "renewal_worker [] = Working"
| "renewal_worker (StopSet # ws) = Finished_worker None"
| "renewal_worker (Renews # ws) = renewal_worker ws"
| "renewal_worker (Refuses # ws) = Finished_worker (Some renewal_lost)"
| "renewal_worker (Raises e # ws) = Finished_worker (Some e)"

section \<open>The registry\<close>

type_synonym renewals = "wake list dict"

text \<open>
  \<open>capable\<close>: the store has a callable \<open>renew_run_lock\<close>; \<open>starts\<close>: the thread could be started.
\<close>

definition start_store_renewal :: "bool \<Rightarrow> bool \<Rightarrow> token \<Rightarrow> renewals \<Rightarrow> (exn + unit) \<times> renewals" where
  "start_store_renewal capable starts owner rs =
     (if \<not> capable then (Inr (), rs)
      else let rs' = AList.update owner [] rs in
        if starts then (Inr (), rs')
        else (Inl (Exn ''RuntimeError'' ''can't start new thread''), AList.delete owner rs'))"

text \<open>
  Stopping sets the event and joins the worker for at most five seconds: \<open>during\<close> is what it meets
  until then, the stop event among it if it wakes in time.
\<close>

definition stop_store_renewal :: "wake list \<Rightarrow> token \<Rightarrow> renewals \<Rightarrow> exn option \<times> renewals" where
  "stop_store_renewal during owner rs =
     (case map_of rs owner of
        None \<Rightarrow> (None, rs)
      | Some past \<Rightarrow>
          ((case renewal_worker (past @ during) of
              Working \<Rightarrow> Some stop_timeout
            | Finished_worker failure \<Rightarrow> failure), AList.delete owner rs))"

text \<open>A wake-up of the worker of \<open>owner\<close>, while it is registered.\<close>

definition wake_up :: "wake \<Rightarrow> token \<Rightarrow> renewals \<Rightarrow> renewals" where
  "wake_up w owner rs =
     (case map_of rs owner of None \<Rightarrow> rs | Some past \<Rightarrow> AList.update owner (past @ [w]) rs)"

section \<open>Properties\<close>

lemma renewal_worker_append:
  "renewal_worker (ws @ ws') = (case renewal_worker ws of Working \<Rightarrow> renewal_worker ws' | Finished_worker f \<Rightarrow> Finished_worker f)"
  by (induction ws rule: renewal_worker.induct) auto

lemma renewal_worker_working: "renewal_worker ws = Working \<longleftrightarrow> set ws \<subseteq> {Renews}"
  by (induction ws rule: renewal_worker.induct) auto

definition stops_cleanly :: "wake list \<Rightarrow> bool" where
  "stops_cleanly ws \<longleftrightarrow> (\<exists>n rest. ws = replicate n Renews @ StopSet # rest)"

lemma stops_cleanly_Cons:
  "stops_cleanly (w # ws) \<longleftrightarrow> w = StopSet \<or> (w = Renews \<and> stops_cleanly ws)"
proof
  assume "stops_cleanly (w # ws)"
  then obtain n rest where eq: "w # ws = replicate n Renews @ StopSet # rest" by (auto simp: stops_cleanly_def)
  then show "w = StopSet \<or> (w = Renews \<and> stops_cleanly ws)"
    by (cases n) (auto simp: stops_cleanly_def)
next
  assume "w = StopSet \<or> (w = Renews \<and> stops_cleanly ws)"
  then show "stops_cleanly (w # ws)"
  proof
    assume "w = StopSet"
    then have "w # ws = replicate 0 Renews @ StopSet # ws" by simp
    then show ?thesis unfolding stops_cleanly_def by blast
  next
    assume "w = Renews \<and> stops_cleanly ws"
    then obtain n rest where "w # ws = replicate (Suc n) Renews @ StopSet # rest" by (auto simp: stops_cleanly_def)
    then show ?thesis unfolding stops_cleanly_def by blast
  qed
qed

lemma stops_cleanly_Nil [simp]: "\<not> stops_cleanly []"
  by (simp add: stops_cleanly_def)

lemma renewal_worker_clean: "renewal_worker ws = Finished_worker None \<longleftrightarrow> stops_cleanly ws"
  by (induction ws rule: renewal_worker.induct) (auto simp: stops_cleanly_Cons)

definition wakes :: "(wake \<times> token) list \<Rightarrow> renewals \<Rightarrow> renewals" where
  "wakes = fold (\<lambda>p. wake_up (fst p) (snd p))"

lemma wakes_lookup:
  "map_of (wakes ps rs) owner = map_option (\<lambda>past. past @ map fst (filter (\<lambda>p. snd p = owner) ps)) (map_of rs owner)"
  by (induction ps arbitrary: rs) (auto simp: wakes_def wake_up_def option.map_comp comp_def option.map_ident split: option.split)

text \<open>
  The cleanup of a run trusts its store lock only when the worker met nothing but successful
  renewals before it saw the stop event: a refused renewal, an error, or a worker still blocked in
  a store call after the wait is reported, whatever the workers of other runs do, and the entry is
  gone in every case.
\<close>

theorem renewal_failure_reported:
  assumes "start_store_renewal True True owner rs = (Inr (), rs1)"
    and "stop_store_renewal during owner (wakes ps rs1) = (failure, rs2)"
  shows "(failure = None \<longleftrightarrow> stops_cleanly (map fst (filter (\<lambda>p. snd p = owner) ps) @ during)) \<and>
    map_of rs2 owner = None"
proof -
  let ?met = "map fst (filter (\<lambda>p. snd p = owner) ps) @ during"
  have "map_of (wakes ps rs1) owner = Some (map fst (filter (\<lambda>p. snd p = owner) ps))"
    using assms(1) by (auto simp: start_store_renewal_def wakes_lookup Let_def)
  then have "failure = (case renewal_worker ?met of Working \<Rightarrow> Some stop_timeout | Finished_worker f \<Rightarrow> f)"
    and "rs2 = AList.delete owner (wakes ps rs1)"
    using assms(2) by (auto simp: stop_store_renewal_def)
  then show ?thesis
    using renewal_worker_clean [of ?met] by (auto split: worker.splits)
qed

lemma renewal_failure_reported_witness:
  "fst (stop_store_renewal [Renews] ''o'' (wakes [(Renews, ''o''), (Refuses, ''other'')] [(''o'', [])])) \<noteq> None"
proof -
  have s: "start_store_renewal True True ''o'' [] = (Inr (), [(''o'', [])])"
    by (simp add: start_store_renewal_def)
  show ?thesis
    using renewal_failure_reported [OF s prod.collapse [symmetric], where during = "[Renews]" and ps = "[(Renews, ''o''), (Refuses, ''other'')]"]
    by (simp add: stops_cleanly_Cons)
qed

end
