(* ===== verification/Platform_Runs.thy ===== *)
theory Platform_Runs
  imports Platform_Common Store_Renewal
begin

text \<open>
  The run routes of the Platform API, \<^verbatim>\<open>platform/_runs.py\<close>. A run on a thread takes two locks, the
  thread lock of the graph and the run lock of the thread's record, starts the renewal of the
  second, runs the graph and gives everything back, whatever fails on the way. A handler returns a
  response or lets an exception escape; the state is whatever store, locks, graphs and observer
  share.
\<close>

section \<open>What the routes are given\<close>

text \<open>One step of a graph's stream: \<open>gen n\<close> is the \<open>n\<close>-th request for an item.\<close>

datatype gen_step = Yield pyval | Exhausted | Breaks exn

type_synonym 's generator = "nat \<Rightarrow> 's \<Rightarrow> gen_step \<times> 's"

record 's platform =
  pf_deps :: route_deps
  pf_text :: py_text
  pf_validate :: "run_create model_validate"
  pf_authorize :: "(string option \<Rightarrow> http_request \<Rightarrow> 's \<Rightarrow> (exn + bool) \<times> 's) option"
  pf_acquire :: "lock_key \<Rightarrow> 's \<Rightarrow> (exn + token option) \<times> 's"
  pf_release :: "lock_key \<Rightarrow> token \<Rightarrow> 's \<Rightarrow> exn option \<times> 's"
  pf_get :: "string \<Rightarrow> 's \<Rightarrow> (exn + thread option) \<times> 's"
  pf_update :: "string \<Rightarrow> thread_patch \<Rightarrow> 's \<Rightarrow> (exn + thread) \<times> 's"
  pf_try :: "string \<Rightarrow> string option \<Rightarrow> 's \<Rightarrow> (exn + thread option) \<times> 's"
  pf_free :: "string \<Rightarrow> thread_status \<Rightarrow> pyval dict option \<Rightarrow> token option \<Rightarrow> 's \<Rightarrow> (exn + thread) \<times> 's"
  pf_start :: "string \<Rightarrow> token \<Rightarrow> 's \<Rightarrow> (exn + unit) \<times> 's"
  pf_stop :: "token \<Rightarrow> 's \<Rightarrow> exn option \<times> 's"
  pf_observe :: "run_event \<Rightarrow> 's \<Rightarrow> 's"
  pf_guard :: "'s guard_side"
  pf_encoder :: encoder
  pf_checkpointer :: "nat \<Rightarrow> bool"
  pf_streamable :: "nat \<Rightarrow> bool"
  pf_clone :: "nat \<Rightarrow> (exn + nat) option"
  pf_invoke_context :: "nat \<Rightarrow> bool"
  pf_stream_context :: "nat \<Rightarrow> bool"
  pf_invoke :: "nat \<Rightarrow> pyval dict \<Rightarrow> pyval dict \<Rightarrow> pyval dict option \<Rightarrow> 's \<Rightarrow> (exn + pyval) \<times> 's"
  pf_stream :: "nat \<Rightarrow> pyval dict \<Rightarrow> pyval dict \<Rightarrow> pyval \<Rightarrow> pyval dict option \<Rightarrow> 's generator"
  pf_fresh :: string

type_synonym 's handler = "'s \<Rightarrow> (exn + response) \<times> 's"

text \<open>\<open>authorization_status\<close> on a policy that raises, allows or denies.\<close>

definition authorization_status ::
    "(string option \<Rightarrow> http_request \<Rightarrow> 's \<Rightarrow> (exn + bool) \<times> 's) option \<Rightarrow> string option \<Rightarrow> http_request \<Rightarrow>
     's \<Rightarrow> (exn + nat option) \<times> 's" where
  "authorization_status authorize tid req x =
     (case authorize of
        None \<Rightarrow> (Inr None, x)
      | Some policy \<Rightarrow>
          (case policy tid req x of
             (Inl e, x1) \<Rightarrow> (if exn_type e = ''UnauthenticatedError'' then (Inr (Some 401), x1) else (Inl e, x1))
           | (Inr allowed, x1) \<Rightarrow> (Inr (if allowed then None else Some 403), x1)))"

definition authorized :: "'s platform \<Rightarrow> string option \<Rightarrow> http_request \<Rightarrow> 's handler \<Rightarrow> 's handler" where
  "authorized pf tid req body x =
     (case authorization_status (pf_authorize pf) tid req x of
        (Inl e, x1) \<Rightarrow> (Inl e, x1)
      | (Inr (Some status), x1) \<Rightarrow> (Inr (platform_error status (Message ''Access denied'')), x1)
      | (Inr None, x1) \<Rightarrow> body x1)"

section \<open>The two locks of a run\<close>

definition key_of :: "registration \<Rightarrow> string \<Rightarrow> lock_key" where
  "key_of reg tid = Key (reg_name reg) tid"

definition released ::
    "'s platform \<Rightarrow> lock_key \<Rightarrow> token \<Rightarrow> response \<Rightarrow> 's \<Rightarrow> (exn + response) \<times> 's" where
  "released pf k tok resp x =
     (case pf_release pf k tok x of (Some e, x1) \<Rightarrow> (Inl e, x1) | (None, x1) \<Rightarrow> (Inr resp, x1))"

definition failed_run :: "run_context \<Rightarrow> response" where
  "failed_run ctx = ErrorResponse 500 (Message ''Graph execution failed'') (Some (rc_run_id ctx))"

definition busy_response :: "py_text \<Rightarrow> string \<Rightarrow> response" where
  "busy_response txt tid = platform_error 409 (Message (''Thread '' @ pt_repr txt tid @ '' is already busy. '' @
     ''Concurrent runs are not supported (multitask_strategy=reject).''))"

text \<open>
  From \<open>acquire\<close> to the thread record that carries the run lock: the tokens of both locks, or how
  the request ends. A lost race releases the thread lock before it is reported.
\<close>

definition take_run_locks ::
    "'s platform \<Rightarrow> run_context \<Rightarrow> run_create \<Rightarrow> registration \<Rightarrow> string \<Rightarrow> 's \<Rightarrow>
     ((exn + response) + token \<times> token) \<times> 's" where
  "take_run_locks pf ctx run reg tid x =
     (let k = key_of reg tid; stop = (\<lambda>(r, x). (Inl r, x));
          rejected = (Inr (busy_response (pf_text pf) tid)) in
      case pf_acquire pf k x of
        (Inl e, x1) \<Rightarrow> (Inl (Inl e), x1)
      | (Inr None, x1) \<Rightarrow> (Inl rejected, pf_observe pf (RunRejected ctx ''lock_contention'') x1)
      | (Inr (Some tok), x1) \<Rightarrow>
          (case pf_try pf tid (Some (cr_assistant run)) x1 of
             (Inl e, x2) \<Rightarrow>
               (if exn_type e = ''KeyError'' then stop (released pf k tok (thread_missing (pf_text pf) tid) x2)
                else if exn_type e = ''ValueError''
                then stop (released pf k tok (platform_error 409 (Message (exn_message e))) x2)
                else stop (released pf k tok (failed_run ctx) (pf_observe pf (RunFailed ctx e) x2)))
           | (Inr None, x2) \<Rightarrow>
               (case pf_release pf k tok x2 of
                  (Some e, x3) \<Rightarrow> (Inl (Inl e), x3)
                | (None, x3) \<Rightarrow> (Inl rejected, pf_observe pf (RunRejected ctx ''lock_contention'') x3))
           | (Inr (Some th), x2) \<Rightarrow>
               (Inr (tok, case th_token th of None \<Rightarrow> tok | Some t \<Rightarrow> if t = [] then tok else t), x2)))"

text \<open>
  \<open>_release_thread_run_lock\<close>: a renewal failure turns the status into an error and drops the values;
  neither a failing store release nor a failing lock release hides the first failure.
\<close>

definition release_thread_run_lock ::
    "'s platform \<Rightarrow> string \<Rightarrow> lock_key \<Rightarrow> token \<Rightarrow> thread_status \<Rightarrow> pyval dict option \<Rightarrow> token \<Rightarrow>
     's \<Rightarrow> exn option \<times> 's" where
  "release_thread_run_lock pf tid k tok status vals store_tok x =
     (let (f0, x1) = pf_stop pf store_tok x;
          (r, x2) = pf_free pf tid (if f0 = None then status else SError) (if f0 = None then vals else None)
            (Some (if store_tok = [] then tok else store_tok)) x1;
          f1 = (case r of Inl e \<Rightarrow> opt_orelse f0 (Some e) | Inr _ \<Rightarrow> f0);
          (rel, x3) = pf_release pf k tok x2
      in (opt_orelse f1 rel, x3))"

section \<open>Waiting for a run\<close>

definition or_empty :: "pyval dict option \<Rightarrow> pyval dict" where
  "or_empty d = (case d of None \<Rightarrow> [] | Some v \<Rightarrow> v)"

text \<open>
  What comes before the graph in the \<open>try\<close> block of both routes: renewal, configuration and guard,
  and the merge of the run's metadata into the thread's.
\<close>

definition prepare_run ::
    "'s platform \<Rightarrow> run_create \<Rightarrow> registration \<Rightarrow> string \<Rightarrow> thread \<Rightarrow> token \<Rightarrow> token \<Rightarrow> 's \<Rightarrow>
     (exn + pyval dict \<times> nat option) \<times> 's" where
  "prepare_run pf run reg tid thread tok store_tok x =
     (case pf_start pf tid store_tok x of
        (Inl e, x1) \<Rightarrow> (Inl e, x1)
      | (Inr _, x1) \<Rightarrow>
          (case guard_run_config (gp_is_guard (pf_guard pf)) (gp_provider (pf_guard pf)) (reg_name reg) (Some tid)
                  (Some tok) (Some (build_threaded_config run tid)) of
             Inl ge \<Rightarrow> (Inl (guard_exn ge), x1)
           | Inr (config, guard) \<Rightarrow>
               (let ok = Inr (or_empty config, guard); md = or_empty (cr_metadata run) in
                if md = [] then (ok, x1)
                else case pf_update pf tid \<lparr>p_metadata = Some (dict_merge (or_empty (th_metadata thread)) md),
                       p_status = None, p_values = None, p_interrupts = None, p_assistant = None\<rparr> x1 of
                    (Inl e, x2) \<Rightarrow> (Inl e, x2)
                  | (Inr _, x2) \<Rightarrow> (ok, x2))))"

definition guarded :: "'s platform \<Rightarrow> nat option \<Rightarrow> 's \<Rightarrow> exn option" where
  "guarded pf guard x =
     (case check_ownership_guard (\<lambda>a. gp_check (pf_guard pf) a x) guard of
        Inl ge \<Rightarrow> Some (guard_exn ge) | Inr _ \<Rightarrow> None)"

definition as_output :: "pyval \<Rightarrow> pyval dict" where
  "as_output v = (case v of PDict d \<Rightarrow> d | _ \<Rightarrow> [(''result'', v)])"

definition wait_body ::
    "'s platform \<Rightarrow> run_context \<Rightarrow> run_create \<Rightarrow> registration \<Rightarrow> string \<Rightarrow> thread \<Rightarrow> pyval dict option \<Rightarrow>
     token \<Rightarrow> token \<Rightarrow> 's \<Rightarrow> (exn + pyval dict) \<times> 's" where
  "wait_body pf ctx run reg tid thread context tok store_tok x =
     (case prepare_run pf run reg tid thread tok store_tok x of
        (Inl e, x1) \<Rightarrow> (Inl e, x1)
      | (Inr (config, guard), x1) \<Rightarrow>
          (case pf_invoke pf (reg_graph reg) (or_empty (cr_input run)) config context
                  (pf_observe pf (RunStarted ctx) x1) of
             (Inl e, x2) \<Rightarrow> (Inl e, x2)
           | (Inr result, x2) \<Rightarrow>
               (case guarded pf guard x2 of
                  Some e \<Rightarrow> (Inl e, x2)
                | None \<Rightarrow>
                    (case checked_dumps (pf_encoder pf) (PDict (as_output result)) of
                       Inl e \<Rightarrow> (Inl e, x2)
                     | Inr _ \<Rightarrow> (Inr (as_output result), x2)))))"

definition release_failed :: "run_context \<Rightarrow> response" where
  "release_failed ctx = ErrorResponse 500 (Message ''Run-lock release failed'') (Some (rc_run_id ctx))"

definition run_location :: "string \<Rightarrow> string \<Rightarrow> string" where
  "run_location tid run_id = ''/api/threads/'' @ tid @ ''/runs/'' @ run_id"

definition finish_wait ::
    "'s platform \<Rightarrow> run_context \<Rightarrow> registration \<Rightarrow> string \<Rightarrow> token \<Rightarrow> token \<Rightarrow> exn + pyval dict \<Rightarrow> 's handler" where
  "finish_wait pf ctx reg tid tok store_tok result x =
     (let release = release_thread_run_lock pf tid (key_of reg tid) tok in
      case result of
        Inr output \<Rightarrow>
          (case release SIdle (Some output) store_tok x of
             (None, x1) \<Rightarrow> (Inr (JsonResponse (PDict output) (Some (run_location tid (rc_run_id ctx)))),
               pf_observe pf (RunCompleted ctx) x1)
           | (Some e, x1) \<Rightarrow> (Inr (release_failed ctx), pf_observe pf (RunFailed ctx e) x1))
      | Inl e \<Rightarrow>
          (if base_exn e then (Inl e, snd (release SError None store_tok x))
           else (Inr (failed_run ctx), snd (release SError None store_tok (pf_observe pf (RunFailed ctx e) x)))))"

text \<open>An HTTP run has no trigger type; the empty string stands for \<open>None\<close>.\<close>

definition platform_context ::
    "'s platform \<Rightarrow> string \<Rightarrow> run_create \<Rightarrow> registration \<Rightarrow> string option \<Rightarrow> bool \<Rightarrow> http_request \<Rightarrow> run_context" where
  "platform_context pf endpoint run reg tid checkpointer req =
     new_run_context (pf_fresh pf) (reg_name reg) endpoint
       (Some (request_id_from_headers (pf_fresh pf) (rq_headers req))) tid (Some (cr_assistant run)) None checkpointer []"

text \<open>The part both thread routes begin with: from the path to the parsed run and the thread.\<close>

definition with_thread_run ::
    "'s platform \<Rightarrow> http_request \<Rightarrow> (string \<Rightarrow> run_create \<Rightarrow> thread \<Rightarrow> 's handler) \<Rightarrow> 's handler" where
  "with_thread_run pf req body x =
     (let tid = route_param ''thread_id'' req in
      authorized pf (Some tid) req (\<lambda>x.
        case validate_thread_id tid of
          Some e \<Rightarrow> (Inr (platform_error 400 (Rule e)), x)
        | None \<Rightarrow>
            (case parse_run_create (pf_text pf) (pf_validate pf) (pf_deps pf) False req of
               Inl r \<Rightarrow> (Inr r, x)
             | Inr run \<Rightarrow>
                 (case pf_get pf tid x of
                    (Inl e, x1) \<Rightarrow> (Inl e, x1)
                  | (Inr None, x1) \<Rightarrow> (Inr (thread_missing (pf_text pf) tid), x1)
                  | (Inr (Some thread), x1) \<Rightarrow> body tid run thread x1))) x)"

definition locked_wait ::
    "'s platform \<Rightarrow> run_context \<Rightarrow> run_create \<Rightarrow> registration \<Rightarrow> string \<Rightarrow> thread \<Rightarrow> pyval dict option \<Rightarrow> 's handler" where
  "locked_wait pf ctx run reg tid thread context x =
     (case take_run_locks pf ctx run reg tid x of
        (Inl r, x1) \<Rightarrow> (r, x1)
      | (Inr (tok, store_tok), x1) \<Rightarrow>
          (let (result, x2) = wait_body pf ctx run reg tid thread context tok store_tok x1
           in finish_wait pf ctx reg tid tok store_tok result x2))"

definition runs_wait :: "'s platform \<Rightarrow> http_request \<Rightarrow> 's handler" where
  "runs_wait pf req =
     with_thread_run pf req (\<lambda>tid run thread x.
       case resolve_run_graph (pf_text pf) run (pf_deps pf) of
         Inl r \<Rightarrow> (Inr r, x)
       | Inr reg \<Rightarrow>
           (case resolve_context_kwarg (pf_text pf) (pf_invoke_context pf (reg_graph reg)) (cr_context run) (reg_name reg) of
              Inl r \<Rightarrow> (Inr r, x)
            | Inr context \<Rightarrow>
                locked_wait pf (platform_context pf ''invoke'' run reg (Some tid) (pf_checkpointer pf (reg_graph reg)) req)
                  run reg tid thread context x))"

section \<open>Streaming a run\<close>

text \<open>
  The loop over the graph's items, with the chunks and bytes buffered so far; it stops at the limit.
  \<open>Out_of_fuel\<close> is no outcome of the code, see \<open>stream_returns\<close>.
\<close>

datatype stream_end = Drained | Overflowed | Broken exn | Out_of_fuel

fun mode_text :: "pyval \<Rightarrow> string" where
  "mode_text (PStr s) = s"
| "mode_text _ = ''None''"

fun stream_loop ::
    "encoder \<Rightarrow> pyval \<Rightarrow> nat \<Rightarrow> 's generator \<Rightarrow> nat \<Rightarrow> nat \<Rightarrow> string list \<Rightarrow> nat \<Rightarrow> 's \<Rightarrow>
     stream_end \<times> string list \<times> 's" where
  "stream_loop en mode max_bytes gen 0 n chunks buffered x = (Out_of_fuel, chunks, x)"
| "stream_loop en mode max_bytes gen (Suc fuel) n chunks buffered x =
     (case gen n x of
        (Exhausted, x1) \<Rightarrow> (Drained, chunks, x1)
      | (Breaks e, x1) \<Rightarrow> (Broken e, chunks, x1)
      | (Yield v, x1) \<Rightarrow>
          (case format_data_event en (mode_text mode) v of
             Inl e \<Rightarrow> (Broken e, chunks, x1)
           | Inr chunk \<Rightarrow>
               (case check_stream_overflow chunks buffered (byte_size chunk) max_bytes of
                  (True, chunks') \<Rightarrow> (Overflowed, chunks', x1)
                | (False, _) \<Rightarrow>
                    stream_loop en mode max_bytes gen fuel (Suc n) (chunks @ [chunk]) (buffered + byte_size chunk) x1)))"

text \<open>The metadata event counts, too, and may exceed the limit alone.\<close>

definition stream_items ::
    "encoder \<Rightarrow> pyval \<Rightarrow> nat \<Rightarrow> 's generator \<Rightarrow> string \<Rightarrow> 's \<Rightarrow> stream_end \<times> string list \<times> 's" where
  "stream_items en mode max_bytes gen run_id x =
     (let meta = format_metadata_event run_id in
      case check_stream_overflow [meta] (byte_size meta) 0 max_bytes of
        (True, chunks) \<Rightarrow> (Overflowed, chunks, x)
      | (False, _) \<Rightarrow> stream_loop en mode max_bytes gen (Suc max_bytes) 0 [meta] (byte_size meta) x)"

definition overflow_exn :: exn where
  "overflow_exn = Exn ''RuntimeError'' ''stream response exceeded max buffered size''"

definition stream_body ::
    "'s platform \<Rightarrow> run_context \<Rightarrow> run_create \<Rightarrow> registration \<Rightarrow> string \<Rightarrow> thread \<Rightarrow> pyval \<Rightarrow> pyval dict option \<Rightarrow>
     token \<Rightarrow> token \<Rightarrow> 's \<Rightarrow> stream_end \<times> string list \<times> 's" where
  "stream_body pf ctx run reg tid thread mode context tok store_tok x =
     (case prepare_run pf run reg tid thread tok store_tok x of
        (Inl e, x1) \<Rightarrow> (Broken e, [], x1)
      | (Inr (config, guard), x1) \<Rightarrow>
          (case stream_items (pf_encoder pf) mode (rd_max_stream (pf_deps pf))
                  (pf_stream pf (reg_graph reg) (or_empty (cr_input run)) config mode context) (rc_run_id ctx)
                  (pf_observe pf (RunStarted ctx) x1) of
             (Drained, chunks, x2) \<Rightarrow>
               (case guarded pf guard x2 of
                  Some e \<Rightarrow> (Broken e, chunks, x2)
                | None \<Rightarrow> (Drained, chunks @ [format_end_event], x2))
           | r \<Rightarrow> r))"

definition finish_stream ::
    "'s platform \<Rightarrow> run_context \<Rightarrow> registration \<Rightarrow> string \<Rightarrow> token \<Rightarrow> token \<Rightarrow> stream_end \<Rightarrow> string list \<Rightarrow> 's handler" where
  "finish_stream pf ctx reg tid tok store_tok result chunks x =
     (let release = (\<lambda>status. release_thread_run_lock pf tid (key_of reg tid) tok status None store_tok);
          sse = (\<lambda>cs. SseResponse cs (run_location tid (rc_run_id ctx))) in
      case result of
        Drained \<Rightarrow>
          (case release SIdle x of
             (None, x1) \<Rightarrow> (Inr (sse chunks), pf_observe pf (RunCompleted ctx) x1)
           | (Some e, x1) \<Rightarrow> (Inr (release_failed ctx), pf_observe pf (RunFailed ctx e) x1))
      | Overflowed \<Rightarrow>
          (case release SError (pf_observe pf (RunFailed ctx overflow_exn) x) of
             (None, x1) \<Rightarrow> (Inr (sse chunks), x1)
           | (Some e, x1) \<Rightarrow> (Inr (release_failed ctx), x1))
      | Broken e \<Rightarrow>
          (if base_exn e then (Inl e, snd (release SError x))
           else (case release SError (pf_observe pf (RunFailed ctx e) x) of
                   (None, x1) \<Rightarrow>
                     (Inr (if chunks = [] then failed_run ctx
                        else sse (chunks @ [format_error_event ''stream processing failed'' (Some (rc_run_id ctx)),
                          format_end_event])), x1)
                 | (Some _, x1) \<Rightarrow> (Inr (failed_run ctx), x1)))
      | Out_of_fuel \<Rightarrow> (Inl (Exn ''Out_of_fuel'' []), x))"

definition locked_stream ::
    "'s platform \<Rightarrow> run_context \<Rightarrow> run_create \<Rightarrow> registration \<Rightarrow> string \<Rightarrow> thread \<Rightarrow> pyval \<Rightarrow> pyval dict option \<Rightarrow> 's handler" where
  "locked_stream pf ctx run reg tid thread mode context x =
     (case take_run_locks pf ctx run reg tid x of
        (Inl r, x1) \<Rightarrow> (r, x1)
      | (Inr (tok, store_tok), x1) \<Rightarrow>
          (let (result, chunks, x2) = stream_body pf ctx run reg tid thread mode context tok store_tok x1
           in finish_stream pf ctx reg tid tok store_tok result chunks x2))"

definition no_streaming :: "py_text \<Rightarrow> run_create \<Rightarrow> response" where
  "no_streaming txt run =
     platform_error 501 (Message (''Graph '' @ pt_repr txt (cr_assistant run) @ '' does not support streaming''))"

definition runs_stream :: "'s platform \<Rightarrow> http_request \<Rightarrow> 's handler" where
  "runs_stream pf req =
     with_thread_run pf req (\<lambda>tid run thread x.
       case normalize_stream_mode (cr_stream_mode run) of
         Inl r \<Rightarrow> (Inr r, x)
       | Inr mode \<Rightarrow>
           (case resolve_run_graph (pf_text pf) run (pf_deps pf) of
              Inl r \<Rightarrow> (Inr r, x)
            | Inr reg \<Rightarrow>
                (if \<not> pf_streamable pf (reg_graph reg) then (Inr (no_streaming (pf_text pf) run), x)
                 else case resolve_context_kwarg (pf_text pf) (pf_stream_context pf (reg_graph reg)) (cr_context run) (reg_name reg) of
                     Inl r \<Rightarrow> (Inr r, x)
                   | Inr context \<Rightarrow>
                       locked_stream pf (platform_context pf ''stream'' run reg (Some tid) (pf_checkpointer pf (reg_graph reg)) req)
                         run reg tid thread mode context x)))"

section \<open>Runs without a thread\<close>

definition undisablable :: "py_text \<Rightarrow> run_create \<Rightarrow> response" where
  "undisablable txt run =
     platform_error 501 (Message (''Graph '' @ pt_repr txt (cr_assistant run) @
       '' has a checkpointer that cannot be disabled for threadless execution.''))"

definition threadless_location :: "string \<Rightarrow> string" where
  "threadless_location run_id = ''/api/runs/'' @ run_id"

text \<open>The parsed request, as far as both threadless routes agree.\<close>

definition with_threadless_run :: "'s platform \<Rightarrow> http_request \<Rightarrow> (run_create \<Rightarrow> 's handler) \<Rightarrow> 's handler" where
  "with_threadless_run pf req body =
     authorized pf None req (\<lambda>x.
       case parse_run_create (pf_text pf) (pf_validate pf) (pf_deps pf) True req of
         Inl r \<Rightarrow> (Inr r, x)
       | Inr run \<Rightarrow> body run x)"

definition threadless_graph :: "'s platform \<Rightarrow> registration \<Rightarrow> nat option" where
  "threadless_graph pf reg =
     get_threadless_graph (pf_checkpointer pf (reg_graph reg)) (pf_clone pf (reg_graph reg)) (reg_graph reg)"

text \<open>The result is encoded after \<open>on_run_completed\<close>, outside the \<open>try\<close> block.\<close>

definition threadless_wait ::
    "'s platform \<Rightarrow> run_context \<Rightarrow> run_create \<Rightarrow> nat \<Rightarrow> pyval dict \<Rightarrow> pyval dict option \<Rightarrow> 's handler" where
  "threadless_wait pf ctx run g config context x =
     (case pf_invoke pf g (or_empty (cr_input run)) config context (pf_observe pf (RunStarted ctx) x) of
        (Inl e, x1) \<Rightarrow>
          (if base_exn e then (Inl e, x1) else (Inr (failed_run ctx), pf_observe pf (RunFailed ctx e) x1))
      | (Inr result, x1) \<Rightarrow>
          (case checked_dumps (pf_encoder pf) (PDict (as_output result)) of
             Inl e \<Rightarrow> (Inl e, pf_observe pf (RunCompleted ctx) x1)
           | Inr _ \<Rightarrow> (Inr (JsonResponse (PDict (as_output result)) (Some (threadless_location (rc_run_id ctx)))),
                pf_observe pf (RunCompleted ctx) x1)))"

definition runs_wait_threadless :: "'s platform \<Rightarrow> http_request \<Rightarrow> 's handler" where
  "runs_wait_threadless pf req =
     with_threadless_run pf req (\<lambda>run x.
       case resolve_run_graph (pf_text pf) run (pf_deps pf) of
         Inl r \<Rightarrow> (Inr r, x)
       | Inr reg \<Rightarrow>
           (case threadless_graph pf reg of
              None \<Rightarrow> (Inr (undisablable (pf_text pf) run), x)
            | Some g \<Rightarrow>
                (case build_threadless_config run of
                   Inl r \<Rightarrow> (Inr r, x)
                 | Inr config \<Rightarrow>
                     (case resolve_context_kwarg (pf_text pf) (pf_invoke_context pf g) (cr_context run) (reg_name reg) of
                        Inl r \<Rightarrow> (Inr r, x)
                      | Inr context \<Rightarrow>
                          threadless_wait pf (platform_context pf ''invoke'' run reg None False req) run g config context x))))"

definition threadless_stream ::
    "'s platform \<Rightarrow> run_context \<Rightarrow> run_create \<Rightarrow> nat \<Rightarrow> pyval dict \<Rightarrow> pyval \<Rightarrow> pyval dict option \<Rightarrow> 's handler" where
  "threadless_stream pf ctx run g config mode context x =
     (let sse = (\<lambda>cs. Inr (SseResponse cs (threadless_location (rc_run_id ctx)))) in
      case stream_items (pf_encoder pf) mode (rd_max_stream (pf_deps pf))
             (pf_stream pf g (or_empty (cr_input run)) config mode context) (rc_run_id ctx)
             (pf_observe pf (RunStarted ctx) x) of
        (Drained, chunks, x1) \<Rightarrow> (sse (chunks @ [format_end_event]), pf_observe pf (RunCompleted ctx) x1)
      | (Overflowed, chunks, x1) \<Rightarrow> (sse chunks, pf_observe pf (RunFailed ctx overflow_exn) x1)
      | (Broken e, chunks, x1) \<Rightarrow>
          (if base_exn e then (Inl e, x1)
           else (sse (chunks @ [format_error_event ''stream processing failed'' (Some (rc_run_id ctx)), format_end_event]),
             pf_observe pf (RunFailed ctx e) x1))
      | (Out_of_fuel, chunks, x1) \<Rightarrow> (Inl (Exn ''Out_of_fuel'' []), x1))"

definition runs_stream_threadless :: "'s platform \<Rightarrow> http_request \<Rightarrow> 's handler" where
  "runs_stream_threadless pf req =
     with_threadless_run pf req (\<lambda>run x.
       case normalize_stream_mode (cr_stream_mode run) of
         Inl r \<Rightarrow> (Inr r, x)
       | Inr mode \<Rightarrow>
           (case resolve_run_graph (pf_text pf) run (pf_deps pf) of
              Inl r \<Rightarrow> (Inr r, x)
            | Inr reg \<Rightarrow>
                (case threadless_graph pf reg of
                   None \<Rightarrow> (Inr (undisablable (pf_text pf) run), x)
                 | Some g \<Rightarrow>
                     (if \<not> pf_streamable pf g then (Inr (no_streaming (pf_text pf) run), x)
                      else case build_threadless_config run of
                          Inl r \<Rightarrow> (Inr r, x)
                        | Inr config \<Rightarrow>
                            (case resolve_context_kwarg (pf_text pf) (pf_stream_context pf g) (cr_context run) (reg_name reg) of
                               Inl r \<Rightarrow> (Inr r, x)
                             | Inr context \<Rightarrow>
                                 threadless_stream pf (platform_context pf ''stream'' run reg None False req) run g config
                                   mode context x)))))"

section \<open>The stream is bounded\<close>

lemma byte_size_append [simp]: "byte_size (s @ t) = byte_size s + byte_size t"
  by (simp add: byte_size_def)

lemma byte_size_ge: "length s \<le> byte_size s"
proof (induction s)
  case (Cons c s)
  then show ?case by (cases "(of_char c :: nat) < 128") (auto simp: byte_size_def utf8_def Let_def)
qed (simp add: byte_size_def)

lemma data_event_size: "format_data_event en mode v = Inr chunk \<Longrightarrow> 0 < byte_size chunk"
  using byte_size_ge [of chunk] by (auto simp: format_data_event_def sse_frame_def split: sum.splits)

definition buffered_size :: "string list \<Rightarrow> nat" where
  "buffered_size chunks = sum_list (map byte_size chunks)"

lemma buffered_size_append [simp]: "buffered_size (xs @ ys) = buffered_size xs + buffered_size ys"
  by (simp add: buffered_size_def)

lemma buffered_size_simps [simp]: "buffered_size [] = 0" "buffered_size [c] = byte_size c"
  by (simp_all add: buffered_size_def)

lemma stream_loop_bounded:
  assumes "buffered_size chunks = buffered" "buffered \<le> max_bytes" "max_bytes < buffered + fuel"
    and "stream_loop en mode max_bytes gen fuel n chunks buffered x = (out, chunks', x')"
  shows "out \<noteq> Out_of_fuel \<and>
    (if out = Overflowed
     then \<exists>kept. chunks' = kept @ [overflow_event max_bytes, format_end_event] \<and> buffered_size kept \<le> max_bytes
     else buffered_size chunks' \<le> max_bytes)"
  using assms
proof (induction en mode max_bytes gen fuel n chunks buffered x arbitrary: out chunks' x' rule: stream_loop.induct)
  case (1 en mode max_bytes gen n chunks buffered x)
  then show ?case by simp
next
  case (2 en mode max_bytes gen fuel n chunks buffered x)
  obtain g x1 where g: "gen n x = (g, x1)" by (rule prod.exhaust)
  show ?case
  proof (cases g)
    case (Yield v)
    show ?thesis
    proof (cases "format_data_event en (mode_text mode) v")
      case (Inl e)
      with 2(2-) g Yield show ?thesis by auto
    next
      case (Inr chunk)
      have pos: "0 < byte_size chunk" using Inr by (rule data_event_size)
      show ?thesis
      proof (cases "buffered + byte_size chunk > max_bytes")
        case True
        with 2(2-) g Yield Inr show ?thesis by (auto simp: check_stream_overflow_def)
      next
        case False
        have "stream_loop en mode max_bytes gen fuel (Suc n) (chunks @ [chunk]) (buffered + byte_size chunk) x1 =
            (out, chunks', x')"
          using 2(5) g Yield Inr False by (simp add: check_stream_overflow_def)
        moreover have "check_stream_overflow chunks buffered (byte_size chunk) max_bytes = (False, chunks)"
          using False by (simp add: check_stream_overflow_def)
        ultimately show ?thesis
          using 2(1) [OF g [symmetric] Yield Inr, of False chunks] 2(2-4) False pos
          by simp
      qed
    qed
  qed (use 2(2-) g in auto)
qed

text \<open>
  What a client is sent, before the frames that end the stream: the metadata event alone, or
  chunks that fit in the limit together.
\<close>

definition stream_within :: "nat \<Rightarrow> string \<Rightarrow> stream_end \<Rightarrow> string list \<Rightarrow> bool" where
  "stream_within max_bytes meta out chunks \<longleftrightarrow>
     (\<exists>kept. chunks = kept @ (if out = Overflowed then [overflow_event max_bytes, format_end_event] else []) \<and>
        (buffered_size kept \<le> max_bytes \<or> out = Overflowed \<and> kept = [meta]))"

lemma stream_items_ends:
  "case stream_items en mode max_bytes gen run_id x of (out, chunks, x') \<Rightarrow>
     out \<noteq> Out_of_fuel \<and> stream_within max_bytes (format_metadata_event run_id) out chunks"
proof -
  let ?meta = "format_metadata_event run_id"
  obtain out chunks x' where s: "stream_items en mode max_bytes gen run_id x = (out, chunks, x')" by (metis prod.exhaust)
  show ?thesis
  proof (cases "byte_size ?meta > max_bytes")
    case True
    with s show ?thesis by (auto simp: stream_items_def check_stream_overflow_def stream_within_def)
  next
    case False
    then have "stream_loop en mode max_bytes gen (Suc max_bytes) 0 [?meta] (byte_size ?meta) x = (out, chunks, x')"
      using s by (simp add: stream_items_def check_stream_overflow_def Let_def)
    then have "out \<noteq> Out_of_fuel \<and> (if out = Overflowed
        then \<exists>kept. chunks = kept @ [overflow_event max_bytes, format_end_event] \<and> buffered_size kept \<le> max_bytes
        else buffered_size chunks \<le> max_bytes)"
      using False by (intro stream_loop_bounded [OF _ _ _ \<open>stream_loop _ _ _ _ _ _ _ _ _ = _\<close>]) simp_all
    with s show ?thesis by (auto simp: stream_within_def split: if_splits)
  qed
qed

text \<open>
  C23: The buffered stream ends and is bounded, whatever the graph yields, for ever if it likes: the
  loop returns within \<open>max_bytes + 1\<close> requests for an item, and the chunks kept are within
  \<open>max_bytes\<close>, unless the metadata event alone is longer; on overflow exactly an error and an end
  event follow.
\<close>

theorem stream_bounded:
  "case stream_items en mode max_bytes gen run_id x of (out, chunks, x') \<Rightarrow>
     out \<noteq> Out_of_fuel \<and> stream_within max_bytes (format_metadata_event run_id) out chunks"
  by (rule stream_items_ends)

lemma stream_body_ends:
  assumes "stream_body pf ctx run reg tid thread mode context tok st x = (out, chunks, x')"
  shows "out \<noteq> Out_of_fuel"
proof -
  have ends: "stream_items en mode max_bytes gen run_id y = (Out_of_fuel, cs, y') \<Longrightarrow> False"
    for en mode max_bytes gen run_id cs and y y'
    using stream_items_ends [where en = en and mode = mode and max_bytes = max_bytes and gen = gen and run_id = run_id and x = y]
    by simp
  show ?thesis
    using assms
    by (auto simp: stream_body_def split: prod.splits sum.splits stream_end.splits option.splits dest: ends)
qed

section \<open>Both locks are given back\<close>

text \<open>
  What the routes rely on: \<open>owner\<close> is the thread lock's owner, \<open>holder\<close> the token of a thread's run
  lock. Acquiring and releasing do what they say, everything else leaves the locks alone; of the
  graph's methods that is asked for the thread of the run only.
\<close>

definition quiet ::
    "('s \<Rightarrow> bool) \<Rightarrow> ('s \<Rightarrow> lock_key \<Rightarrow> token option) \<Rightarrow> ('s \<Rightarrow> string \<Rightarrow> token option) \<Rightarrow>
     lock_key \<Rightarrow> string \<Rightarrow> 's \<Rightarrow> 's \<Rightarrow> bool" where
  "quiet good owner holder k tid x y \<longleftrightarrow> good y \<and> owner y k = owner x k \<and> holder y tid = holder x tid"

definition graph_quiet ::
    "('s \<Rightarrow> bool) \<Rightarrow> ('s \<Rightarrow> lock_key \<Rightarrow> token option) \<Rightarrow> ('s \<Rightarrow> string \<Rightarrow> token option) \<Rightarrow>
     lock_key \<Rightarrow> string \<Rightarrow> 's platform \<Rightarrow> bool" where
  "graph_quiet good owner holder k tid pf \<longleftrightarrow>
     (\<forall>g input config context x. good x \<longrightarrow> quiet good owner holder k tid x (snd (pf_invoke pf g input config context x))) \<and>
     (\<forall>g input config mode context n x. good x \<longrightarrow>
        quiet good owner holder k tid x (snd (pf_stream pf g input config mode context n x)))"

locale platform_run =
  fixes pf :: "'s platform"
    and owner :: "'s \<Rightarrow> lock_key \<Rightarrow> token option"
    and holder :: "'s \<Rightarrow> string \<Rightarrow> token option"
    and inv :: "'s \<Rightarrow> bool"
  assumes acquire_law: "inv s \<Longrightarrow> pf_acquire pf k s = (r, s') \<Longrightarrow> inv s' \<and> holder s' = holder s \<and>
      (case r of Inr (Some t) \<Rightarrow> owner s k = None \<and> owner s' = (owner s)(k := Some t) | _ \<Rightarrow> owner s' = owner s)"
    and release_law: "inv s \<Longrightarrow> pf_release pf k t s = (e, s') \<Longrightarrow> inv s' \<and> holder s' = holder s \<and>
      owner s' = (if owner s k = Some t then (owner s)(k := None) else owner s)"
    and try_law: "inv s \<Longrightarrow> pf_try pf tid a s = (q, s') \<Longrightarrow> inv s' \<and> owner s' = owner s \<and>
      (case q of Inr (Some th) \<Rightarrow> holder s tid = None \<and>
           (\<exists>t. t \<noteq> [] \<and> th_token th = Some t \<and> holder s' = (holder s)(tid := Some t))
         | _ \<Rightarrow> holder s' = holder s)"
    and free_law: "inv s \<Longrightarrow> status \<noteq> SBusy \<Longrightarrow> pf_free pf tid status vals (Some t) s = (f, s') \<Longrightarrow> inv s' \<and>
      owner s' = owner s \<and> holder s' = (if holder s tid = Some t then (holder s)(tid := None) else holder s)"
    and get_law: "inv s \<Longrightarrow> pf_get pf tid s = (th, s') \<Longrightarrow> inv s' \<and> owner s' = owner s \<and> holder s' = holder s"
    and update_law: "inv s \<Longrightarrow> p_status p = None \<Longrightarrow> pf_update pf tid p s = (u, s') \<Longrightarrow>
      inv s' \<and> owner s' = owner s \<and> holder s' = holder s"
    and start_law: "inv s \<Longrightarrow> pf_start pf tid t s = (u', s') \<Longrightarrow> inv s' \<and> owner s' = owner s \<and> holder s' = holder s"
    and stop_law: "inv s \<Longrightarrow> pf_stop pf t s = (f', s') \<Longrightarrow> inv s' \<and> owner s' = owner s \<and> holder s' = holder s"
    and observe_law: "inv s \<Longrightarrow> inv (pf_observe pf ev s) \<and> owner (pf_observe pf ev s) = owner s \<and>
      holder (pf_observe pf ev s) = holder s"
    and authorize_law: "inv s \<Longrightarrow> pf_authorize pf = Some policy \<Longrightarrow> policy t' req s = (d, s') \<Longrightarrow>
      inv s' \<and> owner s' = owner s \<and> holder s' = holder s"
begin

lemma quiet_refl: "inv x \<Longrightarrow> quiet inv owner holder k tid x x"
  by (simp add: quiet_def)

lemma quiet_trans: "quiet inv owner holder k tid x y \<Longrightarrow> quiet inv owner holder k tid y z \<Longrightarrow> quiet inv owner holder k tid x z"
  by (simp add: quiet_def)

lemma quiet_observe: "inv x \<Longrightarrow> quiet inv owner holder k tid x (pf_observe pf ev x)"
  by (simp add: quiet_def observe_law)

lemma quiet_inv: "quiet inv owner holder k tid x y \<Longrightarrow> inv y"
  by (simp add: quiet_def)

lemma release_quiet_holder:
  assumes "inv x" "owner x k = Some tok" "holder x tid = Some st" "st \<noteq> []" "status \<noteq> SBusy"
    and "release_thread_run_lock pf tid k tok status vals st x = (f, x')"
  shows "inv x' \<and> owner x' = (owner x)(k := None) \<and> holder x' = (holder x)(tid := None)"
proof -
  obtain f0 x1 where s: "pf_stop pf st x = (f0, x1)" by (rule prod.exhaust)
  define status' where "status' = (if f0 = None then status else SError)"
  define vals' where "vals' = (if f0 = None then vals else None)"
  obtain r x2 where fr: "pf_free pf tid status' vals' (Some st) x1 = (r, x2)" by (rule prod.exhaust)
  obtain rel x3 where re: "pf_release pf k tok x2 = (rel, x3)" by (rule prod.exhaust)
  have "x' = x3"
    using assms(4,6) s fr re by (simp add: release_thread_run_lock_def status'_def vals'_def Let_def split_def)
  moreover have "inv x1 \<and> owner x1 = owner x \<and> holder x1 = holder x" by (rule stop_law [OF assms(1) s])
  moreover from this have "inv x2 \<and> owner x2 = owner x \<and> holder x2 = (holder x)(tid := None)"
    using free_law [OF _ _ fr] assms(3,5) by (simp add: status'_def)
  moreover from this have "inv x3 \<and> holder x3 = holder x2 \<and> owner x3 = (owner x)(k := None)"
    using release_law [OF _ re] assms(2) by simp
  ultimately show ?thesis by simp
qed

abbreviation same_locks :: "'s \<Rightarrow> 's \<Rightarrow> bool" where
  "same_locks x y \<equiv> inv y \<and> owner y = owner x \<and> holder y = holder x"

text \<open>Taking the locks: both are held, or none was taken.\<close>

lemma take_run_locks_ends:
  assumes "inv x" "k = key_of reg tid" "take_run_locks pf ctx run reg tid x = (r, x')"
  shows "case r of Inl _ \<Rightarrow> same_locks x x'
    | Inr (tok, st) \<Rightarrow> inv x' \<and> owner x k = None \<and> holder x tid = None \<and> owner x' = (owner x)(k := Some tok) \<and>
        holder x' = (holder x)(tid := Some st) \<and> st \<noteq> []"
proof -
  obtain a x1 where a: "pf_acquire pf k x = (a, x1)" by (rule prod.exhaust)
  note al = acquire_law [OF assms(1) a]
  show ?thesis
  proof (cases "\<exists>tok. a = Inr (Some tok)")
    case False
    then have "owner x1 = owner x" "holder x1 = holder x" "inv x1" using al by (auto split: sum.splits option.splits)
    then have q: "same_locks x x1" "same_locks x (pf_observe pf ev x1)" for ev
      by (simp_all add: observe_law)
    show ?thesis
      using assms(2,3) a False q by (cases a) (auto simp: take_run_locks_def Let_def split: option.splits)
  next
    case True
    then obtain tok where tok: "a = Inr (Some tok)" by blast
    with al have x1: "inv x1" "owner x k = None" "owner x1 = (owner x)(k := Some tok)" "holder x1 = holder x" by auto
    obtain b x2 where b: "pf_try pf tid (Some (cr_assistant run)) x1 = (b, x2)" by (rule prod.exhaust)
    note bl = try_law [OF x1(1) b]
    have given_back: "same_locks x y'" if "owner y = owner x1" "holder y = holder x1" "inv y" "pf_release pf k tok y = (d, y')" for y y' d
      using release_law [OF that(3,4)] that(1,2) x1 by (auto simp: fun_eq_iff)
    show ?thesis
    proof (cases "\<exists>th. b = Inr (Some th)")
      case True
      then obtain th where "b = Inr (Some th)" by blast
      with bl x1 assms(2,3) a tok b show ?thesis by (auto simp: take_run_locks_def Let_def)
    next
      case False
      then have x2: "owner x2 = owner x1" "holder x2 = holder x1" "inv x2" using bl by (auto split: sum.splits option.splits)
      obtain c x3 where c: "pf_release pf k tok x2 = (c, x3)" by (rule prod.exhaust)
      have q3: "same_locks x x3" "same_locks x (pf_observe pf ev x3)" for ev
        using given_back [OF x2 c] by (simp_all add: observe_law)
      show ?thesis
      proof (cases b)
        case (Inr n)
        with False have "b = Inr None" by (cases n) auto
        with assms(2,3) a tok b c q3 show ?thesis
          by (auto simp: take_run_locks_def Let_def split: option.splits)
      next
        case (Inl e)
        let ?y = "pf_observe pf (RunFailed ctx e) x2"
        obtain d x4 where d: "pf_release pf k tok ?y = (d, x4)" by (rule prod.exhaust)
        have "same_locks x x4" using given_back [OF _ _ _ d] x2 observe_law by simp
        with assms(2,3) a tok b c d Inl q3 show ?thesis
          by (auto simp: take_run_locks_def released_def Let_def split: option.splits if_splits)
      qed
    qed
  qed
qed

text \<open>What runs between the locks leaves them alone.\<close>

lemma prepare_run_quiet:
  assumes "inv x" "prepare_run pf run reg tid thread tok st x = (r, x')"
  shows "quiet inv owner holder k tid x x'"
proof -
  obtain a x1 where a: "pf_start pf tid st x = (a, x1)" by (rule prod.exhaust)
  have x1: "inv x1 \<and> owner x1 = owner x \<and> holder x1 = holder x" by (rule start_law [OF assms(1) a])
  let ?p = "\<lparr>p_metadata = Some (dict_merge (or_empty (th_metadata thread)) (or_empty (cr_metadata run))),
    p_status = None, p_values = None, p_interrupts = None, p_assistant = None\<rparr>"
  obtain b x2 where b: "pf_update pf tid ?p x1 = (b, x2)" by (rule prod.exhaust)
  have "inv x2 \<and> owner x2 = owner x1 \<and> holder x2 = holder x1" by (rule update_law [OF _ _ b]) (simp_all add: x1)
  with x1 assms(2) a b show ?thesis
    by (auto simp: prepare_run_def quiet_def Let_def split: sum.splits if_splits)
qed

lemma wait_body_quiet:
  assumes "inv x" "graph_quiet inv owner holder k tid pf"
    and "wait_body pf ctx run reg tid thread context tok st x = (r, x')"
  shows "quiet inv owner holder k tid x x'"
proof -
  obtain a x1 where a: "prepare_run pf run reg tid thread tok st x = (a, x1)" by (rule prod.exhaust)
  have q1: "quiet inv owner holder k tid x x1" by (rule prepare_run_quiet [OF assms(1) a])
  show ?thesis
  proof (cases a)
    case (Inl e)
    with assms(3) a q1 show ?thesis by (simp add: wait_body_def)
  next
    case (Inr cg)
    obtain config guard where cg: "cg = (config, guard)" by (rule prod.exhaust)
    let ?y = "pf_observe pf (RunStarted ctx) x1"
    obtain b x2 where b: "pf_invoke pf (reg_graph reg) (or_empty (cr_input run)) config context ?y = (b, x2)" by (rule prod.exhaust)
    have "quiet inv owner holder k tid x ?y" using q1 quiet_observe quiet_trans quiet_inv by blast
    moreover from this have "quiet inv owner holder k tid ?y x2"
      using assms(2) b unfolding graph_quiet_def by (metis quiet_inv snd_conv)
    ultimately have "quiet inv owner holder k tid x x2" by (rule quiet_trans)
    with assms(3) a Inr cg b show ?thesis
      by (auto simp: wait_body_def split: sum.splits option.splits)
  qed
qed

lemma stream_loop_quiet:
  assumes "\<And>n y. inv y \<Longrightarrow> quiet inv owner holder k tid y (snd (gen n y))" "inv x"
    and "stream_loop en mode max_bytes gen fuel n chunks buffered x = (out, chunks', x')"
  shows "quiet inv owner holder k tid x x'"
  using assms
proof (induction en mode max_bytes gen fuel n chunks buffered x rule: stream_loop.induct)
  case (1 en mode max_bytes gen n chunks buffered x)
  then show ?case by (simp add: quiet_refl)
next
  case (2 en mode max_bytes gen fuel n chunks buffered x)
  obtain g x1 where g: "gen n x = (g, x1)" by (rule prod.exhaust)
  have q1: "quiet inv owner holder k tid x x1" using 2(2) [OF 2(3), of n] g by simp
  show ?case
  proof (cases g)
    case (Yield v)
    show ?thesis
    proof (cases "format_data_event en (mode_text mode) v")
      case (Inl e)
      with 2(4) g Yield q1 show ?thesis by simp
    next
      case (Inr chunk)
      obtain over chunks1 where c: "check_stream_overflow chunks buffered (byte_size chunk) max_bytes = (over, chunks1)"
        by (rule prod.exhaust)
      show ?thesis
      proof (cases over)
        case True
        with 2(4) g Yield Inr c q1 show ?thesis by simp
      next
        case False
        then have over: "over = False" by simp
        with 2(4) g Yield Inr c have "stream_loop en mode max_bytes gen fuel (Suc n) (chunks @ [chunk])
            (buffered + byte_size chunk) x1 = (out, chunks', x')" by simp
        then have "quiet inv owner holder k tid x1 x'"
          using 2(1) [OF g [symmetric] Yield Inr c [symmetric] over] 2(2) quiet_inv [OF q1] by blast
        then show ?thesis by (rule quiet_trans [OF q1])
      qed
    qed
  qed (use 2(4) g q1 in auto)
qed

lemma stream_items_quiet:
  assumes "\<And>n y. inv y \<Longrightarrow> quiet inv owner holder k tid y (snd (gen n y))" "inv x"
    and "stream_items en mode max_bytes gen run_id x = (out, chunks, x')"
  shows "quiet inv owner holder k tid x x'"
proof (cases "byte_size (format_metadata_event run_id) > max_bytes")
  case True
  with assms(2,3) show ?thesis by (auto simp: stream_items_def check_stream_overflow_def quiet_refl)
next
  case False
  then have "stream_loop en mode max_bytes gen (Suc max_bytes) 0 [format_metadata_event run_id]
      (byte_size (format_metadata_event run_id)) x = (out, chunks, x')"
    using assms(3) by (simp add: stream_items_def check_stream_overflow_def Let_def)
  from stream_loop_quiet [where gen = gen, OF assms(1,2) this] show ?thesis .
qed

lemma stream_body_quiet:
  assumes "inv x" "graph_quiet inv owner holder k tid pf"
    and "stream_body pf ctx run reg tid thread mode context tok st x = (out, chunks, x')"
  shows "quiet inv owner holder k tid x x'"
proof -
  obtain a x1 where a: "prepare_run pf run reg tid thread tok st x = (a, x1)" by (rule prod.exhaust)
  have q1: "quiet inv owner holder k tid x x1" by (rule prepare_run_quiet [OF assms(1) a])
  show ?thesis
  proof (cases a)
    case (Inl e)
    with assms(3) a q1 show ?thesis by (simp add: stream_body_def)
  next
    case (Inr cg)
    obtain config guard where cg: "cg = (config, guard)" by (rule prod.exhaust)
    let ?y = "pf_observe pf (RunStarted ctx) x1"
    let ?gen = "pf_stream pf (reg_graph reg) (or_empty (cr_input run)) config mode context"
    obtain b chunks1 x2 where b: "stream_items (pf_encoder pf) mode (rd_max_stream (pf_deps pf)) ?gen (rc_run_id ctx) ?y =
        (b, chunks1, x2)" by (metis prod.exhaust)
    have y: "quiet inv owner holder k tid x ?y" using q1 quiet_observe quiet_trans quiet_inv by blast
    have gen: "quiet inv owner holder k tid z (snd (?gen n z))" if "inv z" for n z
      using assms(2) that unfolding graph_quiet_def by blast
    have "quiet inv owner holder k tid ?y x2"
      using stream_items_quiet [where gen = ?gen, OF gen quiet_inv [OF y] b] .
    then have "quiet inv owner holder k tid x x2" by (rule quiet_trans [OF y])
    with assms(3) a Inr cg b show ?thesis
      by (auto simp: stream_body_def split: option.splits stream_end.splits)
  qed
qed

lemma finish_wait_frees:
  assumes "inv x" "owner x (key_of reg tid) = Some tok" "holder x tid = Some st" "st \<noteq> []"
    and "finish_wait pf ctx reg tid tok st result x = (r, x')"
  shows "inv x' \<and> owner x' = (owner x)(key_of reg tid := None) \<and> holder x' = (holder x)(tid := None)"
proof -
  have frees: "inv y' \<and> owner y' = (owner x)(key_of reg tid := None) \<and> holder y' = (holder x)(tid := None)"
    if "inv y" "owner y = owner x" "holder y = holder x" "status \<noteq> SBusy"
      "release_thread_run_lock pf tid (key_of reg tid) tok status vals st y = (f, y')" for y y' status vals f
    using release_quiet_holder [OF that(1) _ _ assms(4) that(4,5)] that(2,3) assms(2,3) by simp
  have obs: "inv y \<Longrightarrow> inv (pf_observe pf ev y) \<and> owner (pf_observe pf ev y) = owner y \<and> holder (pf_observe pf ev y) = holder y" for ev y
    by (rule observe_law)
  show ?thesis
  proof (cases result)
    case (Inr v)
    obtain f y where f: "release_thread_run_lock pf tid (key_of reg tid) tok SIdle (Some v) st x = (f, y)" by (rule prod.exhaust)
    from frees [OF assms(1) refl refl _ f] assms(5) Inr f obs show ?thesis
      by (auto simp: finish_wait_def Let_def split: option.splits)
  next
    case (Inl e)
    let ?x = "if base_exn e then x else pf_observe pf (RunFailed ctx e) x"
    obtain f y where f: "release_thread_run_lock pf tid (key_of reg tid) tok SError None st ?x = (f, y)" by (rule prod.exhaust)
    have "x' = y" using assms(5) Inl f by (auto simp: finish_wait_def Let_def split: if_splits)
    with frees [OF _ _ _ _ f] obs [OF assms(1)] assms(1) show ?thesis by simp
  qed
qed

lemma finish_stream_frees:
  assumes "inv x" "owner x (key_of reg tid) = Some tok" "holder x tid = Some st" "st \<noteq> []" "out \<noteq> Out_of_fuel"
    and "finish_stream pf ctx reg tid tok st out chunks x = (r, x')"
  shows "inv x' \<and> owner x' = (owner x)(key_of reg tid := None) \<and> holder x' = (holder x)(tid := None)"
proof -
  let ?status = "if out = Drained then SIdle else SError"
  let ?ev = "if out = Overflowed then Some overflow_exn else case out of Broken e \<Rightarrow> if base_exn e then None else Some e | _ \<Rightarrow> None"
  let ?x = "case ?ev of None \<Rightarrow> x | Some e \<Rightarrow> pf_observe pf (RunFailed ctx e) x"
  obtain f y where f: "release_thread_run_lock pf tid (key_of reg tid) tok ?status None st ?x = (f, y)" by (rule prod.exhaust)
  have x: "inv ?x \<and> owner ?x = owner x \<and> holder ?x = holder x"
    using assms(1) observe_law by (simp split: option.split)
  have "inv y \<and> owner y = (owner x)(key_of reg tid := None) \<and> holder y = (holder x)(tid := None)"
    using release_quiet_holder [OF _ _ _ assms(4) _ f] x assms(2,3) by simp
  moreover have "x' = y \<or> (\<exists>ev. x' = pf_observe pf ev y)"
    using assms(5,6) f
    by (cases out) (auto simp: finish_stream_def Let_def split: option.splits if_splits)
  ultimately show ?thesis using observe_law by auto
qed

text \<open>Between taking and freeing, the state is quiet for the keys of the thread.\<close>

lemma locked_wait_balanced:
  assumes "inv x" "graph_quiet inv owner holder k tid pf" "graph_quiet inv owner holder (key_of reg tid) tid pf"
    and "locked_wait pf ctx run reg tid thread context x = (r, x')"
  shows "quiet inv owner holder k tid x x'"
proof -
  obtain a x1 where a: "take_run_locks pf ctx run reg tid x = (a, x1)" by (rule prod.exhaust)
  note taken = take_run_locks_ends [OF assms(1) refl a]
  show ?thesis
  proof (cases a)
    case (Inl e)
    with taken assms(4) a show ?thesis by (simp add: locked_wait_def quiet_def)
  next
    case (Inr ts)
    obtain tok st where ts: "ts = (tok, st)" by (rule prod.exhaust)
    obtain b x2 where b: "wait_body pf ctx run reg tid thread context tok st x1 = (b, x2)" by (rule prod.exhaust)
    have x1: "inv x1" "owner x1 = (owner x)(key_of reg tid := Some tok)" "holder x1 = (holder x)(tid := Some st)"
      "owner x (key_of reg tid) = None" "holder x tid = None" "st \<noteq> []" using taken Inr ts by auto
    have q: "quiet inv owner holder k tid x1 x2" "quiet inv owner holder (key_of reg tid) tid x1 x2"
      using wait_body_quiet [OF x1(1) _ b] assms(2,3) by auto
    have "finish_wait pf ctx reg tid tok st b x2 = (r, x')" using assms(4) a Inr ts b by (simp add: locked_wait_def)
    from finish_wait_frees [OF _ _ _ x1(6) this] q x1 show ?thesis by (auto simp: quiet_def)
  qed
qed

lemma locked_stream_balanced:
  assumes "inv x" "graph_quiet inv owner holder k tid pf" "graph_quiet inv owner holder (key_of reg tid) tid pf"
    and "locked_stream pf ctx run reg tid thread mode context x = (r, x')"
  shows "quiet inv owner holder k tid x x'"
proof -
  obtain a x1 where a: "take_run_locks pf ctx run reg tid x = (a, x1)" by (rule prod.exhaust)
  note taken = take_run_locks_ends [OF assms(1) refl a]
  show ?thesis
  proof (cases a)
    case (Inl e)
    with taken assms(4) a show ?thesis by (simp add: locked_stream_def quiet_def)
  next
    case (Inr ts)
    obtain tok st where ts: "ts = (tok, st)" by (rule prod.exhaust)
    obtain b chunks x2 where b: "stream_body pf ctx run reg tid thread mode context tok st x1 = (b, chunks, x2)"
      by (metis prod.exhaust)
    have x1: "inv x1" "owner x1 = (owner x)(key_of reg tid := Some tok)" "holder x1 = (holder x)(tid := Some st)"
      "owner x (key_of reg tid) = None" "holder x tid = None" "st \<noteq> []" using taken Inr ts by auto
    have q: "quiet inv owner holder k tid x1 x2" "quiet inv owner holder (key_of reg tid) tid x1 x2"
      using stream_body_quiet [OF x1(1) _ b] assms(2,3) by auto
    have "finish_stream pf ctx reg tid tok st b chunks x2 = (r, x')"
      using assms(4) a Inr ts b by (simp add: locked_stream_def)
    from finish_stream_frees [OF _ _ _ x1(6) stream_body_ends [OF b] this] q x1 show ?thesis
      by (auto simp: quiet_def)
  qed
qed

lemma thread_run_quiet:
  assumes "inv x" "\<And>run thread y r y'. inv y \<Longrightarrow> body (route_param ''thread_id'' req) run thread y = (r, y') \<Longrightarrow>
      quiet inv owner holder k (route_param ''thread_id'' req) y y'"
    and "with_thread_run pf req body x = (r, x')"
  shows "quiet inv owner holder k (route_param ''thread_id'' req) x x'"
proof -
  let ?tid = "route_param ''thread_id'' req"
  obtain a x1 where a: "authorization_status (pf_authorize pf) (Some ?tid) req x = (a, x1)" by (rule prod.exhaust)
  have x1: "same_locks x x1"
    using a assms(1) authorize_law
    by (auto simp: authorization_status_def split: option.splits prod.splits sum.splits if_splits) (metis+)?
  have q1: "quiet inv owner holder k ?tid x x1" using x1 by (simp add: quiet_def)
  obtain b x2 where b: "pf_get pf ?tid x1 = (b, x2)" by (rule prod.exhaust)
  have q2: "quiet inv owner holder k ?tid x x2" using get_law [OF _ b] x1 by (simp add: quiet_def)
  show ?thesis
    using assms(3) a b q1 q2 assms(2) [OF quiet_inv [OF q2]] quiet_trans [OF q2]
    by (auto simp: with_thread_run_def authorized_def Let_def split: sum.splits option.splits)
qed

lemma runs_balanced:
  assumes "inv x" "tid = route_param ''thread_id'' req"
    and "\<And>name. graph_quiet inv owner holder (Key name tid) tid pf"
    and "runs_wait pf req x = (r, x') \<or> runs_stream pf req x = (r, x')"
  shows "quiet inv owner holder (Key name tid) tid x x'"
  using assms(4)
proof
  assume "runs_wait pf req x = (r, x')"
  then show ?thesis
    unfolding runs_wait_def assms(2)
  proof (rule thread_run_quiet [OF assms(1), rotated])
    show "quiet inv owner holder (Key name (route_param ''thread_id'' req)) (route_param ''thread_id'' req) y y'"
      if "inv y" "(case resolve_run_graph (pf_text pf) run (pf_deps pf) of
         Inl r \<Rightarrow> (Inr r, y)
       | Inr reg \<Rightarrow>
           (case resolve_context_kwarg (pf_text pf) (pf_invoke_context pf (reg_graph reg)) (cr_context run) (reg_name reg) of
              Inl r \<Rightarrow> (Inr r, y)
            | Inr context \<Rightarrow>
                locked_wait pf (platform_context pf ''invoke'' run reg (Some (route_param ''thread_id'' req)) (pf_checkpointer pf (reg_graph reg)) req)
                  run reg (route_param ''thread_id'' req) thread context y)) = (r, y')" for run thread y r y'
      using that assms(2,3) quiet_refl locked_wait_balanced [OF that(1)]
      by (auto simp: key_of_def split: sum.splits)
  qed
next
  assume "runs_stream pf req x = (r, x')"
  then show ?thesis
    unfolding runs_stream_def assms(2)
    by (rule thread_run_quiet [OF assms(1), rotated])
      (use assms(2,3) in \<open>auto simp: key_of_def quiet_refl intro: locked_stream_balanced split: sum.splits if_splits\<close>)
qed

end

section \<open>What the observer hears\<close>

text \<open>What a client reads from an answer: the name of a frame's event, and whether a stream reports an error.\<close>

definition frame_event :: "string \<Rightarrow> string" where
  "frame_event f = takeWhile (\<lambda>c. c \<noteq> CHR 0x0A) (drop 7 f)"

definition reports_error :: "string list \<Rightarrow> bool" where
  "reports_error cs = list_ex (\<lambda>f. frame_event f = ''error'') cs"

fun completed :: "response \<Rightarrow> bool" where
  "completed (JsonResponse v l) = True"
| "completed (SseResponse cs l) = (\<not> reports_error cs)"
| "completed r = False"

fun failed :: "response \<Rightarrow> bool" where
  "failed (ErrorResponse code d i) = (code = 500)"
| "failed (SseResponse cs l) = reports_error cs"
| "failed r = False"

text \<open>The events of one run, by how it is answered; \<open>busy\<close> is the answer of a run that meets a held lock.\<close>

definition run_trace :: "run_context \<Rightarrow> response \<Rightarrow> exn + response \<Rightarrow> run_event list \<Rightarrow> bool" where
  "run_trace ctx busy r evs \<longleftrightarrow>
     (case r of
        Inl e \<Rightarrow> evs = [] \<or> base_exn e \<and> evs = [RunStarted ctx]
      | Inr a \<Rightarrow>
          (if completed a then evs = [RunStarted ctx, RunCompleted ctx]
           else if failed a then \<exists>e. evs = [RunFailed ctx e] \<or> evs = [RunStarted ctx, RunFailed ctx e]
           else if a = busy then evs = [RunRejected ctx ''lock_contention'']
           else evs = []))"

lemma frame_event_sse: "CHR 0x0A \<notin> set event \<Longrightarrow> frame_event (sse_frame event data) = event"
proof -
  assume "CHR 0x0A \<notin> set event"
  then have "takeWhile (\<lambda>c. c \<noteq> CHR 0x0A) (event @ CHR 0x0A # t) = event" for t
    by (induction event) auto
  then show ?thesis by (simp add: frame_event_def sse_frame_def nl_def)
qed

lemma frame_events [simp]:
  "frame_event (format_metadata_event i) = ''metadata''" "frame_event format_end_event = ''end''"
  "frame_event (format_error_event m r) = ''error''" "frame_event (overflow_event n) = ''error''"
  by (simp_all add: format_metadata_event_def format_end_event_def format_error_event_def overflow_event_def frame_event_sse)

lemma reports_error_simps [simp]:
  "reports_error [] = False" "reports_error (c # cs) = (frame_event c = ''error'' \<or> reports_error cs)"
  "reports_error (xs @ ys) = (reports_error xs \<or> reports_error ys)"
  by (simp_all add: reports_error_def)

text \<open>The modes that the routes accept never look like an error event.\<close>

definition mode_ok :: "pyval \<Rightarrow> bool" where
  "mode_ok mode \<longleftrightarrow> CHR 0x0A \<notin> set (mode_text mode) \<and> mode_text mode \<noteq> ''error''"

lemma normalized_mode_ok: "normalize_stream_mode raw = Inr mode \<Longrightarrow> mode_ok mode"
  by (auto simp: normalize_stream_mode_def mode_ok_def stream_modes_def Let_def split: pyval.splits list.splits if_splits)

lemma data_event_ok: "mode_ok mode \<Longrightarrow> format_data_event en (mode_text mode) v = Inr chunk \<Longrightarrow> frame_event chunk \<noteq> ''error''"
  by (auto simp: format_data_event_def mode_ok_def frame_event_sse split: sum.splits)

lemma stream_loop_reports:
  assumes "mode_ok mode" "\<not> reports_error chunks"
    and "stream_loop en mode max_bytes gen fuel n chunks buffered x = (out, chunks', x')"
  shows "reports_error chunks' \<longleftrightarrow> out = Overflowed"
  using assms
proof (induction en mode max_bytes gen fuel n chunks buffered x rule: stream_loop.induct)
  case (2 en mode max_bytes gen fuel n chunks buffered x)
  obtain g x1 where g: "gen n x = (g, x1)" by (rule prod.exhaust)
  show ?case
  proof (cases g)
    case (Yield v)
    show ?thesis
    proof (cases "format_data_event en (mode_text mode) v")
      case (Inl e)
      with 2(3,4) g Yield show ?thesis by auto
    next
      case (Inr chunk)
      note ok = data_event_ok [OF 2(2) Inr]
      show ?thesis
      proof (cases "buffered + byte_size chunk > max_bytes")
        case True
        with 2(4) g Yield Inr show ?thesis by (auto simp: check_stream_overflow_def)
      next
        case False
        then have c: "check_stream_overflow chunks buffered (byte_size chunk) max_bytes = (False, chunks)"
          by (simp add: check_stream_overflow_def)
        have "stream_loop en mode max_bytes gen fuel (Suc n) (chunks @ [chunk]) (buffered + byte_size chunk) x1 = (out, chunks', x')"
          using 2(4) g Yield Inr c by simp
        then show ?thesis using 2(1) [OF g [symmetric] Yield Inr c [symmetric]] 2(2,3) ok by simp
      qed
    qed
  qed (use 2(3,4) g in auto)
qed auto

lemma stream_items_reports:
  assumes "mode_ok mode" "stream_items en mode max_bytes gen run_id x = (out, chunks, x')"
  shows "reports_error chunks \<longleftrightarrow> out = Overflowed"
proof (cases "byte_size (format_metadata_event run_id) > max_bytes")
  case True
  with assms(2) show ?thesis by (auto simp: stream_items_def check_stream_overflow_def)
next
  case False
  then have "stream_loop en mode max_bytes gen (Suc max_bytes) 0 [format_metadata_event run_id]
      (byte_size (format_metadata_event run_id)) x = (out, chunks, x')"
    using assms(2) by (simp add: stream_items_def check_stream_overflow_def Let_def)
  from stream_loop_reports [OF assms(1) _ this] show ?thesis by simp
qed

lemma stream_body_reports:
  assumes "mode_ok mode" "stream_body pf ctx run reg tid thread mode context tok st x = (out, chunks, x')"
  shows "reports_error chunks \<longleftrightarrow> out = Overflowed"
proof (cases "prepare_run pf run reg tid thread tok st x")
  case (Pair a x1)
  show ?thesis
  proof (cases a)
    case (Inr cg)
    obtain config guard where cg: "cg = (config, guard)" by (rule prod.exhaust)
    obtain b cs x2 where b: "stream_items (pf_encoder pf) mode (rd_max_stream (pf_deps pf))
        (pf_stream pf (reg_graph reg) (or_empty (cr_input run)) config mode context) (rc_run_id ctx)
        (pf_observe pf (RunStarted ctx) x1) = (b, cs, x2)" by (metis prod.exhaust)
    from stream_items_reports [OF assms(1) b] assms(2) Pair Inr cg b show ?thesis
      by (auto simp: stream_body_def split: stream_end.splits option.splits)
  qed (use assms(2) Pair in \<open>auto simp: stream_body_def\<close>)
qed

lemma run_answers [simp]:
  "\<not> completed (busy_response txt tid)" "\<not> failed (busy_response txt tid)"
  "\<not> completed (failed_run ctx)" "failed (failed_run ctx)" "\<not> completed (release_failed ctx)" "failed (release_failed ctx)"
  "\<not> completed (thread_missing txt tid)" "\<not> failed (thread_missing txt tid)" "thread_missing txt tid \<noteq> busy_response txt tid'"
  "failed_run ctx \<noteq> busy_response txt tid" "release_failed ctx \<noteq> busy_response txt tid"
  "JsonResponse v l \<noteq> busy_response txt tid" "SseResponse cs loc \<noteq> busy_response txt tid"
  "\<not> completed (platform_error code d)" "failed (platform_error code d) \<longleftrightarrow> code = 500"
  by (simp_all add: busy_response_def failed_run_def release_failed_def thread_missing_def platform_error_def)

text \<open>
  Only the observer writes the record of the events; a lock is released without an exception, as
  its contract demands, and a refusal of the store does not read like that of the lock.
\<close>

locale recorded_platform =
  fixes pf :: "'s platform"
    and events :: "'s \<Rightarrow> run_event list"
  assumes observe_events: "events (pf_observe pf ev s) = events s @ [ev]"
    and acquire_events: "pf_acquire pf k s = (a, s') \<Longrightarrow> events s' = events s"
    and release_events: "pf_release pf k t s = (b, s') \<Longrightarrow> b = None \<and> events s' = events s"
    and try_events: "pf_try pf tid assistant s = (c, s') \<Longrightarrow> events s' = events s"
    and try_refusals: "pf_try pf tid assistant s = (Inl e, s') \<Longrightarrow> exn_type e = ''ValueError'' \<Longrightarrow>
      platform_error 409 (Message (exn_message e)) \<noteq> busy_response (pf_text pf) tid"
    and free_events: "pf_free pf tid status vals own s = (d, s') \<Longrightarrow> events s' = events s"
    and update_events: "pf_update pf tid p s = (u, s') \<Longrightarrow> events s' = events s"
    and start_events: "pf_start pf tid t s = (st, s') \<Longrightarrow> events s' = events s"
    and stop_events: "pf_stop pf t s = (f, s') \<Longrightarrow> events s' = events s"
begin

lemma release_run_events:
  "release_thread_run_lock pf tid k tok status vals st x = (f, x') \<Longrightarrow> events x' = events x"
  by (auto simp: release_thread_run_lock_def Let_def split: prod.splits
      dest!: stop_events free_events release_events)

lemma release_run_events_snd: "events (snd (release_thread_run_lock pf tid k tok status vals st x)) = events x"
  by (rule release_run_events [OF surjective_pairing])

lemma released_events: "released pf k tok resp x = (r, x') \<Longrightarrow> r = Inr resp \<and> events x' = events x"
  by (auto simp: released_def split: prod.splits option.splits dest!: release_events)

lemma take_run_locks_events:
  assumes "take_run_locks pf ctx run reg tid x = (r, x')"
  shows "case r of Inl r' \<Rightarrow> \<exists>evs. events x' = events x @ evs \<and> run_trace ctx (busy_response (pf_text pf) tid) r' evs
    | Inr _ \<Rightarrow> events x' = events x"
proof -
  obtain a x1 where a: "pf_acquire pf (key_of reg tid) x = (a, x1)" by (rule prod.exhaust)
  have e1: "events x1 = events x" using a by (rule acquire_events)
  show ?thesis
  proof (cases "\<exists>tok. a = Inr (Some tok)")
    case False
    with a e1 assms show ?thesis
      by (cases a) (auto simp: take_run_locks_def Let_def run_trace_def observe_events split: option.splits)
  next
    case True
    then obtain tok where tok: "a = Inr (Some tok)" by blast
    obtain b x2 where b: "pf_try pf tid (Some (cr_assistant run)) x1 = (b, x2)" by (rule prod.exhaust)
    have e2: "events x2 = events x" using try_events [OF b] e1 by simp
    show ?thesis
    proof (cases b)
      case (Inl e)
      with assms a tok b e2 try_refusals [of tid "Some (cr_assistant run)" x1 e x2] show ?thesis
        by (auto simp: take_run_locks_def Let_def run_trace_def observe_events split: if_splits prod.splits dest!: released_events)
    next
      case (Inr th)
      with assms a tok b e2 show ?thesis
        by (cases th) (auto simp: take_run_locks_def Let_def run_trace_def observe_events
            split: prod.splits option.splits dest!: release_events)
    qed
  qed
qed

lemma prepare_run_events: "prepare_run pf run reg tid thread tok st x = (r, x') \<Longrightarrow> events x' = events x"
  by (auto simp: prepare_run_def Let_def split: prod.splits sum.splits if_splits dest!: start_events update_events)

lemma wait_body_events:
  assumes "\<And>g i c ct y. events (snd (pf_invoke pf g i c ct y)) = events y"
    and "wait_body pf ctx run reg tid thread context tok st x = (r, x')"
  shows "events x' = events x @ [RunStarted ctx] \<or> ((\<exists>e. r = Inl e) \<and> events x' = events x)"
proof -
  obtain a x1 where a: "prepare_run pf run reg tid thread tok st x = (a, x1)" by (rule prod.exhaust)
  have e1: "events x1 = events x" using a by (rule prepare_run_events)
  show ?thesis
  proof (cases a)
    case (Inr cg)
    obtain config guard where cg: "cg = (config, guard)" by (rule prod.exhaust)
    obtain b x2 where b: "pf_invoke pf (reg_graph reg) (or_empty (cr_input run)) config context
        (pf_observe pf (RunStarted ctx) x1) = (b, x2)" by (rule prod.exhaust)
    have "events x2 = events x @ [RunStarted ctx]"
      using assms(1) [of "reg_graph reg" "or_empty (cr_input run)" config "context" "pf_observe pf (RunStarted ctx) x1"] b e1
      by (simp add: observe_events)
    with assms(2) a Inr cg b show ?thesis by (auto simp: wait_body_def split: sum.splits option.splits)
  qed (use assms(2) a e1 in \<open>auto simp: wait_body_def\<close>)
qed

lemma locked_wait_events:
  assumes "\<And>g i c ct y. events (snd (pf_invoke pf g i c ct y)) = events y"
    and "locked_wait pf ctx run reg tid thread context x = (r, x')"
  shows "\<exists>evs. events x' = events x @ evs \<and> run_trace ctx (busy_response (pf_text pf) tid) r evs"
proof -
  obtain a x1 where a: "take_run_locks pf ctx run reg tid x = (a, x1)" by (rule prod.exhaust)
  note taken = take_run_locks_events [OF a]
  show ?thesis
  proof (cases a)
    case (Inl e)
    with taken assms(2) a show ?thesis by (auto simp: locked_wait_def)
  next
    case (Inr ts)
    obtain tok st where ts: "ts = (tok, st)" by (rule prod.exhaust)
    obtain b x2 where b: "wait_body pf ctx run reg tid thread context tok st x1 = (b, x2)" by (rule prod.exhaust)
    have "events x1 = events x" using taken Inr by simp
    then have x2: "events x2 = events x @ [RunStarted ctx] \<or> ((\<exists>e. b = Inl e) \<and> events x2 = events x)"
      using wait_body_events [OF assms(1) b] by simp
    have "finish_wait pf ctx reg tid tok st b x2 = (r, x')" using assms(2) a Inr ts b by (simp add: locked_wait_def)
    then show ?thesis
      using x2
      by (cases b) (auto simp: finish_wait_def Let_def run_trace_def
          observe_events release_run_events_snd split: prod.splits option.splits if_splits dest!: release_run_events)
  qed
qed

lemma stream_loop_events:
  assumes "\<And>n y. events (snd (gen n y)) = events y"
    and "stream_loop en mode max_bytes gen fuel n chunks buffered x = (out, chunks', x')"
  shows "events x' = events x"
  using assms
proof (induction en mode max_bytes gen fuel n chunks buffered x rule: stream_loop.induct)
  case (2 en mode max_bytes gen fuel n chunks buffered x)
  obtain g x1 where g: "gen n x = (g, x1)" by (rule prod.exhaust)
  have e1: "events x1 = events x" using 2(2) [of n x] g by simp
  define over where "over c = fst (check_stream_overflow chunks buffered (byte_size c) max_bytes)" for c
  define cs where "cs c = snd (check_stream_overflow chunks buffered (byte_size c) max_bytes)" for c
  have c: "check_stream_overflow chunks buffered (byte_size c) max_bytes = (over c, cs c)" for c
    by (simp add: over_def cs_def)
  show ?case
  proof (cases "\<exists>v c. g = Yield v \<and> format_data_event en (mode_text mode) v = Inr c \<and> over c = False")
    case True
    then obtain v chunk where vc: "g = Yield v" "format_data_event en (mode_text mode) v = Inr chunk" "over chunk = False"
      by blast
    have "stream_loop en mode max_bytes gen fuel (Suc n) (chunks @ [chunk]) (buffered + byte_size chunk) x1 = (out, chunks', x')"
      using 2(3) g vc c by simp
    then show ?thesis using 2(1) [OF g [symmetric] vc(1,2) c [symmetric] vc(3)] 2(2) e1 by simp
  next
    case False
    with 2(3) g c e1 show ?thesis
      by (cases g) (auto split: sum.splits bool.splits)
  qed
qed simp

lemma stream_body_events:
  assumes "\<And>g i c m ct n y. events (snd (pf_stream pf g i c m ct n y)) = events y"
    and "stream_body pf ctx run reg tid thread mode context tok st x = (out, chunks, x')"
  shows "events x' = events x @ [RunStarted ctx] \<or> ((\<exists>e. out = Broken e) \<and> chunks = [] \<and> events x' = events x)"
proof -
  obtain a x1 where a: "prepare_run pf run reg tid thread tok st x = (a, x1)" by (rule prod.exhaust)
  have e1: "events x1 = events x" using a by (rule prepare_run_events)
  show ?thesis
  proof (cases a)
    case (Inr cg)
    obtain config guard where cg: "cg = (config, guard)" by (rule prod.exhaust)
    let ?gen = "pf_stream pf (reg_graph reg) (or_empty (cr_input run)) config mode context"
    obtain b cs x2 where b: "stream_items (pf_encoder pf) mode (rd_max_stream (pf_deps pf)) ?gen (rc_run_id ctx)
        (pf_observe pf (RunStarted ctx) x1) = (b, cs, x2)" by (metis prod.exhaust)
    have gen: "events (snd (?gen n y)) = events y" for n y by (rule assms(1))
    have "events x2 = events (pf_observe pf (RunStarted ctx) x1)"
      using b stream_loop_events [where gen = ?gen, OF gen]
      by (auto simp: stream_items_def Let_def simp del: stream_loop.simps split: prod.splits bool.splits)
    then have "events x2 = events x @ [RunStarted ctx]" using e1 by (simp add: observe_events)
    with assms(2) a Inr cg b show ?thesis by (auto simp: stream_body_def split: stream_end.splits option.splits)
  qed (use assms(2) a e1 in \<open>auto simp: stream_body_def\<close>)
qed

lemma locked_stream_events:
  assumes "\<And>g i c m ct n y. events (snd (pf_stream pf g i c m ct n y)) = events y" "mode_ok mode"
    and "locked_stream pf ctx run reg tid thread mode context x = (r, x')"
  shows "\<exists>evs. events x' = events x @ evs \<and> run_trace ctx (busy_response (pf_text pf) tid) r evs"
proof -
  obtain a x1 where a: "take_run_locks pf ctx run reg tid x = (a, x1)" by (rule prod.exhaust)
  note taken = take_run_locks_events [OF a]
  show ?thesis
  proof (cases a)
    case (Inl e)
    with taken assms(3) a show ?thesis by (auto simp: locked_stream_def)
  next
    case (Inr ts)
    obtain tok st where ts: "ts = (tok, st)" by (rule prod.exhaust)
    obtain b cs x2 where b: "stream_body pf ctx run reg tid thread mode context tok st x1 = (b, cs, x2)"
      by (metis prod.exhaust)
    have "events x1 = events x" using taken Inr by simp
    then have x2: "events x2 = events x @ [RunStarted ctx] \<or> ((\<exists>e. b = Broken e) \<and> events x2 = events x)"
      using stream_body_events [OF assms(1) b] by auto
    have "finish_stream pf ctx reg tid tok st b cs x2 = (r, x')" using assms(3) a Inr ts b by (simp add: locked_stream_def)
    then show ?thesis
      using x2 stream_body_ends [OF b] stream_body_reports [OF assms(2) b]
      by (cases b) (auto simp: finish_stream_def Let_def run_trace_def observe_events release_run_events_snd
          split: prod.splits option.splits if_splits dest!: release_run_events)
  qed
qed

end

end
