(* ===== verification/Platform_Memory.thy ===== *)
theory Platform_Memory
  imports Platform_Runs InProcess_Lock
begin

text \<open>
  The run routes on the backends the package starts with: the in-process thread lock, the in-memory
  thread store, and an observer that records what it hears. Tokens are numbered; the renewal worker
  sees the stop event at once.
\<close>

section \<open>The world of one process\<close>

record world =
  w_lock :: inproc
  w_store :: store
  w_renewals :: renewals
  w_events :: "run_event list"
  w_clock :: int
  w_fresh :: nat

definition fresh_token :: "nat \<Rightarrow> token" where
  "fresh_token n = ''token-'' @ nat_text n"

fun lock_exn :: "lock_error \<Rightarrow> exn" where
  "lock_exn LockClosed = Exn ''RuntimeError'' ''lock is closed''"
| "lock_exn (LockServiceError e) = Exn ''HttpResponseError'' []"
| "lock_exn LockPolling = Exn ''TimeoutError'' []"

fun store_exn :: "py_text \<Rightarrow> store_error \<Rightarrow> exn" where
  "store_exn txt (KeyError tid) = Exn ''KeyError'' tid"
| "store_exn txt (BoundToOther tid a b) =
     Exn ''ValueError'' (''Thread '' @ pt_repr txt tid @ '' is bound to assistant '' @ pt_repr txt a @
       '', cannot run with '' @ pt_repr txt b)"
| "store_exn txt (DuplicateThread tid) = Exn ''ValueError'' (''Duplicate thread ID generated: '' @ pt_repr txt tid)"
| "store_exn txt ReleaseToBusy = Exn ''ValueError'' (''release_run_lock cannot set status to '' @ pt_repr txt ''busy'')"
| "store_exn txt (NegativeLimit i) = Exn ''ValueError'' (''limit must be non-negative, got '' @ int_text i)"
| "store_exn txt (NegativeOffset i) = Exn ''ValueError'' (''offset must be non-negative, got '' @ int_text i)"

definition on_store :: "py_text \<Rightarrow> (int \<Rightarrow> store \<Rightarrow> store_error + ('a \<times> store)) \<Rightarrow> world \<Rightarrow> (exn + 'a) \<times> world" where
  "on_store txt f w =
     (case f (w_clock w) (w_store w) of
        Inl e \<Rightarrow> (Inl (store_exn txt e), w)
      | Inr (a, s) \<Rightarrow> (Inr a, w\<lparr>w_store := s\<rparr>))"

definition memory_platform ::
    "(string option \<Rightarrow> http_request \<Rightarrow> exn + bool) option \<Rightarrow> world platform \<Rightarrow> world platform" where
  "memory_platform policy pf =
     pf\<lparr>pf_authorize := map_option (\<lambda>p tid req w. (p tid req, w)) policy,
        pf_acquire := (\<lambda>k w. let (r, l) = ip_acquire k (fresh_token (w_fresh w)) (w_lock w) in
          (map_sum lock_exn id r, w\<lparr>w_lock := l, w_fresh := Suc (w_fresh w)\<rparr>)),
        pf_release := (\<lambda>k t w. (None, w\<lparr>w_lock := ip_release k t (w_lock w)\<rparr>)),
        pf_get := (\<lambda>tid w. (Inr (store_get tid (w_store w)), w)),
        pf_update := (\<lambda>tid p. on_store (pf_text pf) (store_update tid p)),
        pf_try := (\<lambda>tid a w. on_store (pf_text pf) (store_try_acquire tid a (fresh_token (w_fresh w)))
          (w\<lparr>w_fresh := Suc (w_fresh w)\<rparr>)),
        pf_free := (\<lambda>tid status vals own. on_store (pf_text pf) (store_release tid status vals own)),
        pf_start := (\<lambda>tid t w. let (r, rs) = start_store_renewal True True t (w_renewals w) in (r, w\<lparr>w_renewals := rs\<rparr>)),
        pf_stop := (\<lambda>t w. let (f, rs) = stop_store_renewal [StopSet] t (w_renewals w) in (f, w\<lparr>w_renewals := rs\<rparr>)),
        pf_observe := (\<lambda>ev w. w\<lparr>w_events := w_events w @ [ev]\<rparr>)\<rparr>"

definition world_owner :: "world \<Rightarrow> lock_key \<Rightarrow> token option" where
  "world_owner w = ip_owner (w_lock w)"

text \<open>The token of a thread's run lock, while the thread is busy.\<close>

definition run_token :: "store \<Rightarrow> string \<Rightarrow> token option" where
  "run_token s tid =
     (case map_of s tid of None \<Rightarrow> None | Some t \<Rightarrow> if th_status t = SBusy then th_token t else None)"

definition world_holder :: "world \<Rightarrow> string \<Rightarrow> token option" where
  "world_holder w = run_token (w_store w)"

definition world_ok :: "world \<Rightarrow> bool" where
  "world_ok w = ip_quiet (w_lock w)"

lemma run_token_update:
  "run_token (AList.update tid t s) = (run_token s)(tid := (if th_status t = SBusy then th_token t else None))"
  by (simp add: run_token_def fun_eq_iff)

lemma on_store_frame:
  "on_store txt f w = (r, w') \<Longrightarrow> world_ok w' = world_ok w \<and> world_owner w' = world_owner w"
  by (auto simp: on_store_def world_ok_def world_owner_def split: sum.splits prod.splits)

lemma on_store_store:
  "on_store txt f w = (r, w') \<Longrightarrow>
     (case f (w_clock w) (w_store w) of Inl e \<Rightarrow> r = Inl (store_exn txt e) \<and> w_store w' = w_store w
      | Inr (a, s) \<Rightarrow> r = Inr a \<and> w_store w' = s)"
  by (auto simp: on_store_def split: sum.splits prod.splits)

lemma fresh_token_ne [simp]: "fresh_token n \<noteq> []"
  by (simp add: fresh_token_def)

interpretation memory: platform_run "memory_platform policy pf" world_owner world_holder world_ok
  for policy and pf :: "world platform"
proof (unfold_locales, goal_cases)
  case (1 s k r s')
  obtain a l where a: "ip_acquire k (fresh_token (w_fresh s)) (w_lock s) = (a, l)" by (rule prod.exhaust)
  have q: "ip_quiet (w_lock s)" using 1(1) by (simp add: world_ok_def)
  have s': "r = map_sum lock_exn id a" "s' = s\<lparr>w_lock := l, w_fresh := Suc (w_fresh s)\<rparr>"
    using 1(2) a by (auto simp: memory_platform_def)
  have "ip_quiet l" using inprocess.acquire_inv [OF q a] .
  moreover have "case a of Inr (Some t) \<Rightarrow> ip_owner (w_lock s) k = None \<and> ip_owner l = (ip_owner (w_lock s))(k := Some t)
      | _ \<Rightarrow> ip_owner l = ip_owner (w_lock s)"
    using inprocess.acquire_refused [OF q a] inprocess.acquire_token [OF q, of k "fresh_token (w_fresh s)" _ l] a
    by (auto split: sum.splits option.splits)
  ultimately show ?case
    using s' by (auto simp: world_ok_def world_owner_def world_holder_def split: sum.splits option.splits)
next
  case (2 s k t e s')
  then show ?case
    by (auto simp: memory_platform_def world_ok_def world_owner_def world_holder_def inprocess.release_inv
        inprocess.release_owner)
next
  case (3 s tid a q s')
  let ?w = "s\<lparr>w_fresh := Suc (w_fresh s)\<rparr>"
  have o: "on_store (pf_text pf) (store_try_acquire tid a (fresh_token (w_fresh s))) ?w = (q, s')"
    using 3(2) by (simp add: memory_platform_def)
  note f = on_store_frame [OF o] on_store_store [OF o]
  show ?case
    using f 3(1)
    by (auto simp: world_ok_def world_owner_def world_holder_def store_try_acquire_def Let_def run_token_update
        lock_thread_def run_token_def split: option.splits if_splits)
next
  case (4 s status tid vals t f s')
  have o: "on_store (pf_text pf) (store_release tid status vals (Some t)) s = (f, s')"
    using 4(3) by (simp add: memory_platform_def)
  note f = on_store_frame [OF o] on_store_store [OF o]
  have "run_token (w_store s') = (if run_token (w_store s) tid = Some t then (run_token (w_store s))(tid := None)
      else run_token (w_store s))"
    using f(2) 4(2)
    by (auto simp: store_release_def Let_def run_token_update unlock_thread_def run_token_def fun_eq_iff
        split: option.splits if_splits)
  with f(1) 4(1) show ?case by (simp add: world_holder_def)
next
  case (5 s tid th s')
  then show ?case by (auto simp: memory_platform_def)
next
  case (6 s p tid u s')
  have o: "on_store (pf_text pf) (store_update tid p) s = (u, s')" using 6(3) by (simp add: memory_platform_def)
  have "run_token (w_store s') = run_token (w_store s)"
    using on_store_store [OF o] 6(2)
    by (auto simp: store_update_def Let_def run_token_update patch_thread_def opt_or_def run_token_def fun_eq_iff
        split: option.splits)
  with on_store_frame [OF o] 6(1) show ?case by (simp add: world_holder_def)
next
  case (7 s tid t u' s')
  then show ?case
    by (auto simp: memory_platform_def start_store_renewal_def world_ok_def world_owner_def world_holder_def Let_def)
next
  case (8 s t f' s')
  then show ?case
    by (auto simp: memory_platform_def world_ok_def world_owner_def world_holder_def split: prod.splits)
next
  case (9 s ev)
  then show ?case by (simp add: memory_platform_def world_ok_def world_owner_def world_holder_def)
next
  case (10 s policy' t' req d s')
  then show ?case by (auto simp: memory_platform_def)
qed

text \<open>A thread bound to another assistant is refused in other words than a busy one.\<close>

lemma refusal_not_busy: "platform_error 409 (Message (exn_message (store_exn txt (BoundToOther tid a b)))) \<noteq> busy_response txt tid"
  by (simp add: platform_error_def busy_response_def)

interpretation memory: recorded_platform "memory_platform policy pf" w_events
  for policy and pf :: "world platform"
proof (unfold_locales, goal_cases)
  case (5 tid assistant s e s')
  then show ?case
    using refusal_not_busy [of "pf_text pf" tid]
    by (auto simp: memory_platform_def on_store_def store_try_acquire_def Let_def split: option.splits if_splits)
qed (auto simp: memory_platform_def on_store_def split: prod.splits sum.splits)

section \<open>A run as a whole\<close>

text \<open>
  C1: A thread run is balanced: whatever request comes in, and whether it is refused, rejected,
  fails in the policy, the store, the guard or the graph, streams, overflows or succeeds, both
  locks of its thread are afterwards as they were, provided the graph itself leaves them alone.
\<close>

theorem platform_run_balanced:
  assumes "world_ok w" "tid = route_param ''thread_id'' req"
    and "\<And>name. graph_quiet world_ok world_owner world_holder (Key name tid) tid (memory_platform policy pf)"
    and "runs_wait (memory_platform policy pf) req w = (r, w') \<or> runs_stream (memory_platform policy pf) req w = (r, w')"
  shows "world_owner w' (Key name tid) = world_owner w (Key name tid) \<and> world_holder w' tid = world_holder w tid"
  using memory.runs_balanced [OF assms] by (simp add: quiet_def)

text \<open>
  C13: What the observer of a thread run hears is settled by how the client is answered, on both routes. A
  result, or a stream without an error event, goes with a start and a completion; an internal error, or a stream with an error
  event, with one failure, after a start if the graph was called; the answer that the thread is
  busy with one rejection; any other refusal with nothing. When an exception escapes instead,
  the observer has heard nothing, or of a base exception a start alone.
\<close>

theorem platform_run_lifecycle:
  assumes "\<And>g i c ct y. w_events (snd (pf_invoke pf g i c ct y)) = w_events y"
    and "\<And>g i c m ct n y. w_events (snd (pf_stream pf g i c m ct n y)) = w_events y"
    and "normalize_stream_mode raw = Inr mode"
  shows "(\<exists>evs. w_events (snd (locked_wait (memory_platform policy pf) ctx run reg tid thread ct w)) = w_events w @ evs \<and>
      run_trace ctx (busy_response (pf_text pf) tid) (fst (locked_wait (memory_platform policy pf) ctx run reg tid thread ct w)) evs) \<and>
    (\<exists>evs. w_events (snd (locked_stream (memory_platform policy pf) ctx run reg tid thread mode ct w)) = w_events w @ evs \<and>
      run_trace ctx (busy_response (pf_text pf) tid) (fst (locked_stream (memory_platform policy pf) ctx run reg tid thread mode ct w)) evs)"
  using memory.locked_wait_events [OF _ surjective_pairing, of policy pf ctx run reg tid thread ct w]
    memory.locked_stream_events [OF _ normalized_mode_ok [OF assms(3)] surjective_pairing, of policy pf ctx run reg tid thread ct w] assms(1,2)
  by (simp add: memory_platform_def)

section \<open>Examples\<close>

definition example_run :: run_create where
  "example_run = \<lparr>cr_assistant = ''g'', cr_input = Some [(''x'', PInt 1)], cr_metadata = None, cr_config = None,
     cr_context = None, cr_stream_mode = PStr ''values'', cr_multitask = None, cr_other = []\<rparr>"

definition example_platform :: "(string \<Rightarrow> string \<Rightarrow> string \<Rightarrow> pyval) option \<Rightarrow> world platform" where
  "example_platform provider =
     \<lparr>pf_deps = \<lparr>rd_registrations = [(''g'', example_reg)], rd_max_stream = 100, rd_max_body = 100, rd_max_depth = 9,
        rd_max_nodes = 9, rd_max_limit = 9, rd_env = []\<rparr>,
      pf_text = example_text, pf_validate = (\<lambda>_. Inr example_run), pf_authorize = None,
      pf_acquire = (\<lambda>k w. (Inr None, w)), pf_release = (\<lambda>k t w. (None, w)), pf_get = (\<lambda>tid w. (Inr None, w)),
      pf_update = (\<lambda>tid p w. (Inl (Exn [] []), w)), pf_try = (\<lambda>tid a w. (Inr None, w)),
      pf_free = (\<lambda>tid s v own w. (Inl (Exn [] []), w)), pf_start = (\<lambda>tid t w. (Inr (), w)), pf_stop = (\<lambda>t w. (None, w)),
      pf_observe = (\<lambda>ev w. w),
      pf_guard = \<lparr>gp_is_guard = (\<lambda>_. False), gp_provider = provider, gp_check = (\<lambda>_ _. None)\<rparr>,
      pf_encoder = \<lparr>en_error = (\<lambda>_. None), en_text = (\<lambda>_. [])\<rparr>,
      pf_checkpointer = (\<lambda>_. True), pf_streamable = (\<lambda>_. True), pf_clone = (\<lambda>_. None),
      pf_invoke_context = (\<lambda>_. False), pf_stream_context = (\<lambda>_. False),
      pf_invoke = (\<lambda>g i c ct w. (Inr (PDict i), w)),
      pf_stream = (\<lambda>g i c m ct n w. (Yield (PDict i), w)), pf_fresh = ''run''\<rparr>"

definition example_world :: world where
  "example_world = \<lparr>w_lock = inproc_init, w_store = [(''t'', new_thread ''t'' 0 None)], w_renewals = [], w_events = [],
     w_clock = 5, w_fresh = 0\<rparr>"

definition example_request :: http_request where
  "example_request = \<lparr>rq_body = ''{}'', rq_params = [(''thread_id'', ''t'')], rq_headers = []\<rparr>"

lemma example_world_ok: "world_ok example_world"
  by (simp add: world_ok_def example_world_def ip_quiet_def inproc_init_def)

lemma example_graph_quiet:
  "graph_quiet world_ok world_owner world_holder k tid (memory_platform policy (example_platform provider))"
  by (simp add: graph_quiet_def quiet_def memory_platform_def example_platform_def)

lemma platform_run_balanced_witness:
  "world_owner (snd (runs_stream (memory_platform None (example_platform None)) example_request example_world)) (Key ''g'' ''t'') = None"
proof -
  let ?r = "runs_stream (memory_platform None (example_platform None)) example_request example_world"
  have "world_owner (snd ?r) (Key ''g'' ''t'') = world_owner example_world (Key ''g'' ''t'')"
    by (rule conjunct1 [OF platform_run_balanced [OF example_world_ok _ example_graph_quiet disjI2 [OF prod.collapse [symmetric]]]])
      (simp add: route_param_def example_request_def)
  then show ?thesis by (simp add: world_owner_def example_world_def ip_owner_def inproc_init_def)
qed

definition example_ctx :: run_context where
  "example_ctx = new_run_context ''f'' ''g'' ''invoke'' (Some ''r'') (Some ''t'') None None True []"

lemma platform_run_lifecycle_witness:
  "\<exists>evs. w_events (snd (locked_stream (memory_platform None (example_platform None)) example_ctx example_run example_reg ''t''
      (new_thread ''t'' 0 None) (PStr ''values'') None example_world)) = evs \<and>
    run_trace example_ctx (busy_response example_text ''t'')
      (fst (locked_stream (memory_platform None (example_platform None)) example_ctx example_run example_reg ''t''
        (new_thread ''t'' 0 None) (PStr ''values'') None example_world)) evs"
proof -
  have "normalize_stream_mode (PStr ''values'') = Inr (PStr ''values'')" by (simp add: normalize_stream_mode_def stream_modes_def)
  from platform_run_lifecycle [OF _ _ this, of "example_platform None" None example_ctx example_run example_reg "''t''"
      "new_thread ''t'' 0 None" None example_world]
  show ?thesis by (auto simp: example_platform_def example_world_def)
qed

text \<open>
  A provider that returns no guard fails the run before its graph is called: the observer hears of a
  failure that had no start, which its documentation excludes.
\<close>

lemma failure_without_start:
  "w_events (snd (locked_wait (memory_platform None (example_platform (Some (\<lambda>_ _ _. PInt 3)))) example_ctx example_run
      example_reg ''t'' (new_thread ''t'' 0 None) None example_world)) =
   [RunFailed example_ctx (guard_exn GuardTypeError)]"
proof -
  have free: "ip_states inproc_init k = None" for k by (simp add: inproc_init_def)
  show ?thesis
    by (simp add: locked_wait_def take_run_locks_def memory_platform_def example_platform_def example_world_def Let_def
        ip_acquire_free [OF free] key_of_def example_reg_def on_store_def store_try_acquire_def example_run_def
        new_thread_def bound_to_other_def lock_thread_def wait_body_def prepare_run_def start_store_renewal_def
        guard_run_config_def ownership_guard_for_def finish_wait_def base_exn_def release_thread_run_lock_def
        stop_store_renewal_def store_release_def unlock_thread_def split: prod.split sum.split option.split)
qed

end
