(* ===== verification/Platform_Threads.thy ===== *)
theory Platform_Threads
  imports Platform_Runs
begin

text \<open>
  The thread routes of the Platform API, \<^verbatim>\<open>platform/_threads.py\<close>: creating, reading, updating, deleting,
  searching and counting threads, and reading, updating and listing the state of the graph a thread
  is bound to. An update of the state takes the same two locks as a run. A response body is the
  JSON value that is encoded.
\<close>

section \<open>What the routes are given\<close>

datatype auth_action =
  ThreadCreate | ThreadRead | ThreadUpdate | ThreadDelete | ThreadSearch | RunAction | StateRead | StateUpdate |
  HistoryRead

record thread_query =
  tq_metadata :: "pyval dict option"
  tq_status :: "thread_status option"
  tq_limit :: int
  tq_offset :: int

record state_update =
  su_values :: pyval
  su_node :: "string option"
  su_checkpoint_id :: "string option"
  su_checkpoint :: "pyval dict option"

record history_query =
  hq_limit :: int
  hq_before :: pyval
  hq_metadata :: "pyval dict option"
  hq_checkpoint :: "pyval dict option"

text \<open>
  Besides what the run routes have: the policy, which is told the action, the other operations of
  the store, the request models, the text of a time and the graphs' state methods. A history is
  the snapshots it yields and the exception that ends it, if one does.
\<close>

record 's thread_api =
  ta_platform :: "'s platform"
  ta_policy :: "(auth_action \<Rightarrow> string option \<Rightarrow> http_request \<Rightarrow> 's \<Rightarrow> (exn + bool) \<times> 's) option"
  ta_create :: "pyval dict option \<Rightarrow> 's \<Rightarrow> (exn + thread) \<times> 's"
  ta_delete :: "string \<Rightarrow> 's \<Rightarrow> (exn + unit) \<times> 's"
  ta_search :: "pyval dict option \<Rightarrow> thread_status option \<Rightarrow> int \<Rightarrow> int \<Rightarrow> 's \<Rightarrow> (exn + thread list) \<times> 's"
  ta_count :: "pyval dict option \<Rightarrow> thread_status option \<Rightarrow> 's \<Rightarrow> (exn + nat) \<times> 's"
  ta_valid_metadata :: "pyval dict option model_validate"
  ta_valid_search :: "thread_query model_validate"
  ta_valid_count :: "thread_query model_validate"
  ta_valid_update :: "state_update model_validate"
  ta_valid_history :: "history_query model_validate"
  ta_time :: "int \<Rightarrow> string"
  ta_stateful :: "nat \<Rightarrow> bool"
  ta_updatable :: "nat \<Rightarrow> bool"
  ta_historic :: "nat \<Rightarrow> bool"
  ta_get_state :: "nat \<Rightarrow> pyval dict \<Rightarrow> 's \<Rightarrow> (exn + snapshot) \<times> 's"
  ta_update_state :: "nat \<Rightarrow> pyval dict option \<Rightarrow> pyval \<Rightarrow> string option \<Rightarrow> 's \<Rightarrow> (exn + pyval) \<times> 's"
  ta_get_history :: "nat \<Rightarrow> pyval dict \<Rightarrow> 's \<Rightarrow> (exn + snapshot list \<times> exn option) \<times> 's"

definition permitted ::
    "'s thread_api \<Rightarrow> auth_action \<Rightarrow> string option \<Rightarrow> http_request \<Rightarrow> 's handler \<Rightarrow> 's handler" where
  "permitted ta action tid req body x =
     (case authorization_status (map_option (\<lambda>policy. policy action) (ta_policy ta)) tid req x of
        (Inl e, x1) \<Rightarrow> (Inl e, x1)
      | (Inr (Some status), x1) \<Rightarrow> (Inr (platform_error status (Message ''Access denied'')), x1)
      | (Inr None, x1) \<Rightarrow> body x1)"

section \<open>Bodies and answers\<close>

definition opt_value :: "('a \<Rightarrow> pyval) \<Rightarrow> 'a option \<Rightarrow> pyval" where
  "opt_value f v = (case v of None \<Rightarrow> PNone | Some x \<Rightarrow> f x)"

text \<open>\<open>model_dump\<close>: the lock token and its expiry are excluded fields.\<close>

definition thread_json :: "(int \<Rightarrow> string) \<Rightarrow> thread \<Rightarrow> pyval" where
  "thread_json time t = PDict
     [(''thread_id'', PStr (th_id t)), (''created_at'', PStr (time (th_created t))),
      (''updated_at'', PStr (time (th_updated t))), (''metadata'', opt_value PDict (th_metadata t)),
      (''status'', PStr (status_text (th_status t))), (''values'', opt_value PDict (th_values t)),
      (''assistant_id'', opt_value PStr (th_assistant t)), (''interrupts'', PDict (th_interrupts t))]"

definition checkpoint_json :: "checkpoint_ref \<Rightarrow> pyval" where
  "checkpoint_json c = PDict
     [(''thread_id'', PStr (cp_thread c)), (''checkpoint_ns'', cp_ns c), (''checkpoint_id'', cp_id c),
      (''checkpoint_map'', PNone)]"

definition state_json :: "thread_state \<Rightarrow> pyval" where
  "state_json s = PDict
     [(''values'', ts_values s), (''next'', PList (map PStr (ts_next s))), (''checkpoint'', checkpoint_json (ts_checkpoint s)),
      (''metadata'', opt_value PDict (ts_metadata s)), (''created_at'', opt_value PStr (ts_created s)),
      (''parent_checkpoint'', opt_value checkpoint_json (ts_parent s)), (''tasks'', PList []), (''interrupts'', PList [])]"

definition answer :: "pyval \<Rightarrow> exn + response" where
  "answer v = Inr (JsonResponse v None)"

text \<open>The declared fields of the request models; none has an alias.\<close>

definition plain_fields :: "string list \<Rightarrow> model_fields" where
  "plain_fields = map (\<lambda>n. (n, None))"

definition metadata_fields :: model_fields where
  "metadata_fields = plain_fields [''metadata'']"

definition search_fields :: model_fields where
  "search_fields = plain_fields [''metadata'', ''status'', ''limit'', ''offset'']"

definition count_fields :: model_fields where
  "count_fields = plain_fields [''metadata'', ''status'']"

definition update_fields :: model_fields where
  "update_fields = plain_fields [''values'', ''as_node'', ''checkpoint_id'', ''checkpoint'']"

definition history_fields :: model_fields where
  "history_fields = plain_fields [''limit'', ''before'', ''metadata'', ''checkpoint'']"

text \<open>Reading the body, refusing unknown fields in strict mode, validating.\<close>

definition parse_model ::
    "'s thread_api \<Rightarrow> http_request \<Rightarrow> bool \<Rightarrow> bool \<Rightarrow> (pyval \<Rightarrow> response option) \<Rightarrow> model_fields \<Rightarrow> 'r model_validate \<Rightarrow>
     response + 'r" where
  "parse_model ta req require_dict allow_empty refuse decl validate =
     (let deps = pf_deps (ta_platform ta) in
      case read_json_body req deps require_dict allow_empty of
        Inl r \<Rightarrow> Inl r
      | Inr body \<Rightarrow>
          (case first_error (refuse body) (check_unknown_platform_fields (rd_env deps) decl body) of
             Some r \<Rightarrow> Inl r
           | None \<Rightarrow>
               (case validate body of
                  Inl details \<Rightarrow> Inl (platform_error 422 (Invalid details))
                | Inr v \<Rightarrow> Inr v)))"

definition no_refusal :: "pyval \<Rightarrow> response option" where
  "no_refusal body = None"

definition unsupported_filters :: "pyval \<Rightarrow> response option" where
  "unsupported_filters body =
     (let used = filter (\<lambda>k. k \<in> set unsupported_thread_filter_fields)
          (case body of PDict d \<Rightarrow> map fst d | _ \<Rightarrow> []) in
      if used = [] then None
      else Some (platform_error 501 (Message (''Unsupported filter(s): '' @ join '', '' (sort used)))))"

text \<open>A route with a thread id: the policy is asked before the id is checked.\<close>

definition on_thread ::
    "'s thread_api \<Rightarrow> auth_action \<Rightarrow> http_request \<Rightarrow> (string \<Rightarrow> 's handler) \<Rightarrow> 's handler" where
  "on_thread ta action req body =
     (let tid = route_param ''thread_id'' req in
      permitted ta action (Some tid) req (\<lambda>x.
        case validate_thread_id tid of
          Some e \<Rightarrow> (Inr (platform_error 400 (Rule e)), x)
        | None \<Rightarrow> body tid x))"

definition missing_thread :: "'s thread_api \<Rightarrow> string \<Rightarrow> response" where
  "missing_thread ta = thread_missing (pf_text (ta_platform ta))"

definition thread_answer :: "'s thread_api \<Rightarrow> (exn + thread) \<times> 's \<Rightarrow> (exn + response) \<times> 's" where
  "thread_answer ta = map_prod (\<lambda>r. bind_res r (\<lambda>t. answer (thread_json (ta_time ta) t))) id"

section \<open>Threads\<close>

definition threads_create :: "'s thread_api \<Rightarrow> http_request \<Rightarrow> 's handler" where
  "threads_create ta req =
     permitted ta ThreadCreate None req (\<lambda>x.
       case parse_model ta req False True no_refusal metadata_fields (ta_valid_metadata ta) of
         Inl r \<Rightarrow> (Inr r, x)
       | Inr md \<Rightarrow> thread_answer ta (ta_create ta md x))"

definition threads_get :: "'s thread_api \<Rightarrow> http_request \<Rightarrow> 's handler" where
  "threads_get ta req =
     on_thread ta ThreadRead req (\<lambda>tid x.
       case pf_get (ta_platform ta) tid x of
         (Inl e, x1) \<Rightarrow> (Inl e, x1)
       | (Inr None, x1) \<Rightarrow> (Inr (missing_thread ta tid), x1)
       | (Inr (Some t), x1) \<Rightarrow> thread_answer ta (Inr t, x1))"

definition or_missing :: "'s thread_api \<Rightarrow> string \<Rightarrow> (exn + response) \<times> 's \<Rightarrow> (exn + response) \<times> 's" where
  "or_missing ta tid = (\<lambda>(r, x).
     (case r of Inl e \<Rightarrow> (if exn_type e = ''KeyError'' then Inr (missing_thread ta tid) else Inl e) | Inr v \<Rightarrow> Inr v, x))"

definition threads_update :: "'s thread_api \<Rightarrow> http_request \<Rightarrow> 's handler" where
  "threads_update ta req =
     on_thread ta ThreadUpdate req (\<lambda>tid x.
       case parse_model ta req False True no_refusal metadata_fields (ta_valid_metadata ta) of
         Inl r \<Rightarrow> (Inr r, x)
       | Inr md \<Rightarrow>
           (case pf_get (ta_platform ta) tid x of
              (Inl e, x1) \<Rightarrow> (Inl e, x1)
            | (Inr None, x1) \<Rightarrow> (Inr (missing_thread ta tid), x1)
            | (Inr (Some t), x1) \<Rightarrow>
                (case md of
                   None \<Rightarrow> thread_answer ta (Inr t, x1)
                 | Some m \<Rightarrow>
                     or_missing ta tid (thread_answer ta (pf_update (ta_platform ta) tid
                       \<lparr>p_metadata = Some (dict_merge (or_empty (th_metadata t)) m), p_status = None,
                        p_values = None, p_interrupts = None, p_assistant = None\<rparr> x1)))))"

definition threads_delete :: "'s thread_api \<Rightarrow> http_request \<Rightarrow> 's handler" where
  "threads_delete ta req =
     on_thread ta ThreadDelete req (\<lambda>tid x.
       or_missing ta tid (map_prod (map_sum id (\<lambda>_. NoContent)) id (ta_delete ta tid x)))"

definition threads_search :: "'s thread_api \<Rightarrow> http_request \<Rightarrow> 's handler" where
  "threads_search ta req =
     permitted ta ThreadSearch None req (\<lambda>x.
       case parse_model ta req True True unsupported_filters search_fields (ta_valid_search ta) of
         Inl r \<Rightarrow> (Inr r, x)
       | Inr q \<Rightarrow>
           (case result_limit_error (tq_limit q) (rd_max_limit (pf_deps (ta_platform ta))) of
              Some r \<Rightarrow> (Inr r, x)
            | None \<Rightarrow>
                map_prod (\<lambda>r. bind_res r (\<lambda>ts. answer (PList (map (thread_json (ta_time ta)) ts)))) id
                  (ta_search ta (tq_metadata q) (tq_status q) (tq_limit q) (tq_offset q) x)))"

definition threads_count :: "'s thread_api \<Rightarrow> http_request \<Rightarrow> 's handler" where
  "threads_count ta req =
     permitted ta ThreadSearch None req (\<lambda>x.
       case parse_model ta req True True unsupported_filters count_fields (ta_valid_count ta) of
         Inl r \<Rightarrow> (Inr r, x)
       | Inr q \<Rightarrow>
           map_prod (\<lambda>r. bind_res r (\<lambda>n. answer (PInt (int n)))) id
             (ta_count ta (tq_metadata q) (tq_status q) x))"

section \<open>Reading the state\<close>

text \<open>The names stand for the exception classes with their subclasses.\<close>

definition lookup_failed :: "exn \<Rightarrow> bool" where
  "lookup_failed e \<longleftrightarrow> exn_type e \<in> {''KeyError'', ''ValueError''}"

definition internal_error :: "string \<Rightarrow> exn + response" where
  "internal_error message = Inr (platform_error 500 (Message message))"

definition bound_graph ::
    "'s thread_api \<Rightarrow> (nat \<Rightarrow> bool) \<Rightarrow> string \<Rightarrow> string \<Rightarrow> (nat \<Rightarrow> 's handler) \<Rightarrow> 's handler" where
  "bound_graph ta supports capability tid body x =
     (case pf_get (ta_platform ta) tid x of
        (Inl e, x1) \<Rightarrow> (Inl e, x1)
      | (Inr th, x1) \<Rightarrow>
          (case resolve_thread_graph (pf_text (ta_platform ta)) (pf_deps (ta_platform ta)) supports capability tid th of
             Inl r \<Rightarrow> (Inr r, x1)
           | Inr g \<Rightarrow> body g x1))"

definition empty_state :: "string \<Rightarrow> thread_state" where
  "empty_state tid =
     \<lparr>ts_values = PDict [], ts_next = [], ts_checkpoint = \<lparr>cp_thread = tid, cp_ns = PStr [], cp_id = PNone\<rparr>,
      ts_metadata = None, ts_created = None, ts_parent = None\<rparr>"

definition threads_state_get :: "'s thread_api \<Rightarrow> http_request \<Rightarrow> 's handler" where
  "threads_state_get ta req =
     on_thread ta StateRead req (\<lambda>tid.
       bound_graph ta (ta_stateful ta) ''state retrieval'' tid (\<lambda>g x.
         case ta_get_state ta g [(''configurable'', PDict [(''thread_id'', PStr tid)])] x of
           (Inr sn, x1) \<Rightarrow> (answer (state_json (snapshot_to_thread_state sn tid)), x1)
         | (Inl e, x1) \<Rightarrow>
             (if lookup_failed e then answer (state_json (empty_state tid))
              else if base_exn e then Inl e
              else internal_error ''Internal error retrieving thread state'', x1)))"

section \<open>Updating the state\<close>

definition not_released :: exn where
  "not_released = Exn ''RuntimeError'' ''State-update store ownership was not released''"

definition release_thread_state_lock ::
    "'s platform \<Rightarrow> string \<Rightarrow> lock_key \<Rightarrow> token \<Rightarrow> thread_status \<Rightarrow> token \<Rightarrow> 's \<Rightarrow> exn option \<times> 's" where
  "release_thread_state_lock pf tid k tok status store_tok x =
     (let (r, x1) = pf_free pf tid status None (Some (if store_tok = [] then tok else store_tok)) x;
          failure = (case r of
              Inl e \<Rightarrow> Some e
            | Inr th \<Rightarrow> if th_status th = SBusy \<or> th_token th \<noteq> None then Some not_released else None);
          (rel, x2) = pf_release pf k tok x1
      in (opt_orelse failure rel, x2))"

definition state_busy :: "py_text \<Rightarrow> string \<Rightarrow> response" where
  "state_busy txt tid = platform_error 409 (Message (''Thread '' @ pt_repr txt tid @ '' is already busy. '' @
     ''State updates are not supported while a run is active.''))"

text \<open>
  Both locks, or how the request ends. An error of the store that is neither a \<open>KeyError\<close> nor a
  \<open>ValueError\<close> escapes with the thread lock still held.
\<close>

definition take_state_locks ::
    "'s platform \<Rightarrow> lock_key \<Rightarrow> string \<Rightarrow> 's \<Rightarrow> ((exn + response) + token \<times> token) \<times> 's" where
  "take_state_locks pf k tid x =
     (let stop = (\<lambda>(r, x). (Inl r, x)) in
      case pf_acquire pf k x of
        (Inl e, x1) \<Rightarrow> (Inl (Inl e), x1)
      | (Inr None, x1) \<Rightarrow> (Inl (Inr (state_busy (pf_text pf) tid)), x1)
      | (Inr (Some tok), x1) \<Rightarrow>
          (case pf_try pf tid (Some (key_graph k)) x1 of
             (Inl e, x2) \<Rightarrow>
               (if exn_type e = ''KeyError'' then stop (released pf k tok (thread_missing (pf_text pf) tid) x2)
                else if exn_type e = ''ValueError''
                then stop (released pf k tok (platform_error 409 (Message (exn_message e))) x2)
                else (Inl (Inl e), x2))
           | (Inr None, x2) \<Rightarrow> stop (released pf k tok (state_busy (pf_text pf) tid) x2)
           | (Inr (Some th), x2) \<Rightarrow>
               (Inr (tok, case th_token th of None \<Rightarrow> tok | Some t \<Rightarrow> if t = [] then tok else t), x2)))"

text \<open>Building the guarded configuration and calling the graph.\<close>

definition write_state ::
    "'s thread_api \<Rightarrow> nat \<Rightarrow> lock_key \<Rightarrow> token \<Rightarrow> pyval dict \<Rightarrow> state_update \<Rightarrow> 's \<Rightarrow> (exn + pyval) \<times> 's" where
  "write_state ta g k tok config su x =
     (let guard = pf_guard (ta_platform ta) in
      case guard_run_config (gp_is_guard guard) (gp_provider guard) (key_graph k) (Some (key_thread k)) (Some tok)
             (Some config) of
        Inl ge \<Rightarrow> (Inl (guard_exn ge), x)
      | Inr (state_config, _) \<Rightarrow> ta_update_state ta g state_config (su_values su) (su_node su) x)"

definition updated_checkpoint :: "string \<Rightarrow> pyval \<Rightarrow> pyval" where
  "updated_checkpoint tid result =
     (let conf = snapshot_configurable result in
      PDict [(''checkpoint'', checkpoint_json
        \<lparr>cp_thread = tid, cp_ns = ns_or_empty conf, cp_id = field_or_none ''checkpoint_id'' conf\<rparr>)])"

text \<open>A base exception of the graph passes both handlers, and with them both releases.\<close>

definition finish_state ::
    "'s thread_api \<Rightarrow> lock_key \<Rightarrow> token \<Rightarrow> token \<Rightarrow> thread_status \<Rightarrow> exn + pyval \<Rightarrow> 's handler" where
  "finish_state ta k tok store_tok prior result x =
     (let pf = ta_platform ta; tid = key_thread k;
          release = (\<lambda>status. release_thread_state_lock pf tid k tok status store_tok x) in
      case result of
        Inl e \<Rightarrow>
          (if lookup_failed e
           then (Inr (platform_error 404 (Message (''Cannot update state for thread '' @ pt_repr (pf_text pf) tid @ '': '' @
             exn_message e))), snd (release SError))
           else if base_exn e then (Inl e, x)
           else (internal_error ''Internal error updating thread state'', snd (release SError)))
      | Inr v \<Rightarrow>
          (case release prior of
             (Some _, x1) \<Rightarrow> (internal_error ''Internal error releasing thread state lock'', x1)
           | (None, x1) \<Rightarrow> (answer (updated_checkpoint tid v), x1)))"

definition locked_update ::
    "'s thread_api \<Rightarrow> nat \<Rightarrow> lock_key \<Rightarrow> pyval dict \<Rightarrow> state_update \<Rightarrow> thread_status \<Rightarrow> 's handler" where
  "locked_update ta g k config su prior x =
     (case take_state_locks (ta_platform ta) k (key_thread k) x of
        (Inl r, x1) \<Rightarrow> (r, x1)
      | (Inr (tok, store_tok), x1) \<Rightarrow>
          (let (result, x2) = write_state ta g k tok config su x1
           in finish_state ta k tok store_tok prior result x2))"

definition structure_refusal :: "'s thread_api \<Rightarrow> pyval \<Rightarrow> response option" where
  "structure_refusal ta v =
     (let deps = pf_deps (ta_platform ta) in
      map_option (\<lambda>e. platform_error 400 (Rule e)) (validate_input_structure v (rd_max_depth deps) (rd_max_nodes deps)))"

text \<open>
  Once the graph is known, the thread is read again for its assistant, which names the lock, and its
  status, which the update is to restore.
\<close>

definition update_bound :: "'s thread_api \<Rightarrow> string \<Rightarrow> state_update \<Rightarrow> nat \<Rightarrow> 's handler" where
  "update_bound ta tid su g x =
     (let pf = ta_platform ta in
      case build_checkpoint_config (pf_text pf) tid (su_checkpoint su) (su_checkpoint_id su) of
        Inl r \<Rightarrow> (Inr r, x)
      | Inr config \<Rightarrow>
          (case pf_get pf tid x of
             (Inl e, x1) \<Rightarrow> (Inl e, x1)
           | (Inr None, x1) \<Rightarrow> (Inr (missing_thread ta tid), x1)
           | (Inr (Some th), x1) \<Rightarrow>
               (case th_assistant th of
                  None \<Rightarrow> (Inr (missing_thread ta tid), x1)
                | Some a \<Rightarrow> locked_update ta g (Key a tid) config su (th_status th) x1)))"

definition update_values :: "'s thread_api \<Rightarrow> string \<Rightarrow> state_update \<Rightarrow> 's handler" where
  "update_values ta tid su x =
     (case structure_refusal ta (if is_dict (su_values su) then su_values su else PDict [(''items'', su_values su)]) of
        Some r \<Rightarrow> (Inr r, x)
      | None \<Rightarrow> bound_graph ta (ta_updatable ta) ''state updates'' tid (update_bound ta tid su) x)"

definition threads_state_update :: "'s thread_api \<Rightarrow> http_request \<Rightarrow> 's handler" where
  "threads_state_update ta req =
     on_thread ta StateUpdate req (\<lambda>tid x.
       case parse_model ta req True False no_refusal update_fields (ta_valid_update ta) of
         Inl r \<Rightarrow> (Inr r, x)
       | Inr su \<Rightarrow> update_values ta tid su x)"

section \<open>The history of states\<close>

definition snapshot_id :: "snapshot \<Rightarrow> pyval" where
  "snapshot_id sn = field_or_none ''checkpoint_id'' (snapshot_configurable (sn_config sn))"

definition snapshot_matches :: "pyval dict option \<Rightarrow> snapshot \<Rightarrow> bool" where
  "snapshot_matches wanted sn =
     (case wanted of None \<Rightarrow> True
      | Some w \<Rightarrow> list_all (\<lambda>kv. py_eq (field_or_none (fst kv) (or_empty (sn_metadata sn))) (snd kv)) w)"

text \<open>The loop over the snapshots; the flag says whether the limit has ended it.\<close>

fun history_loop ::
    "pyval \<Rightarrow> pyval dict option \<Rightarrow> int \<Rightarrow> string \<Rightarrow> bool \<Rightarrow> thread_state list \<Rightarrow> snapshot list \<Rightarrow>
     thread_state list \<times> bool" where
  "history_loop before wanted limit tid found results [] = (results, False)"
| "history_loop before wanted limit tid found results (sn # sns) =
     (if \<not> found then history_loop before wanted limit tid (py_eq (snapshot_id sn) before) results sns
      else if \<not> snapshot_matches wanted sn then history_loop before wanted limit tid found results sns
      else (let results' = results @ [snapshot_to_thread_state sn tid] in
        if int (length results') \<ge> limit then (results', True)
        else history_loop before wanted limit tid found results' sns))"

definition before_id :: "py_text \<Rightarrow> string \<Rightarrow> pyval \<Rightarrow> response + pyval" where
  "before_id txt tid before =
     (case before of
        PStr i \<Rightarrow> Inr (PStr i)
      | PDict d \<Rightarrow>
          (let t = field_or_none ''thread_id'' d in
           if t \<noteq> PNone \<and> \<not> py_eq t (PStr tid)
           then Inl (platform_error 422 (Message (''before checkpoint thread_id '' @ repr_of txt t @
             '' does not match path thread_id '' @ pt_repr txt tid)))
           else Inr (field_or_none ''checkpoint_id'' d))
      | _ \<Rightarrow> Inr PNone)"

definition history_failed :: "exn \<Rightarrow> exn + response" where
  "history_failed e =
     (if lookup_failed e then answer (PList [])
      else if base_exn e then Inl e
      else internal_error ''Internal error retrieving thread history'')"

definition history_answer :: "py_text \<Rightarrow> string \<Rightarrow> history_query \<Rightarrow> snapshot list \<times> exn option \<Rightarrow> exn + response" where
  "history_answer txt tid hq = (\<lambda>(snapshots, ending).
     case before_id txt tid (hq_before hq) of
       Inl r \<Rightarrow> Inr r
     | Inr b \<Rightarrow>
         (case history_loop b (hq_metadata hq) (hq_limit hq) tid (b = PNone) [] snapshots of
            (results, full) \<Rightarrow>
              (case (full, ending) of
                 (False, Some e) \<Rightarrow> history_failed e
               | _ \<Rightarrow> answer (PList (map state_json results)))))"

definition threads_history :: "'s thread_api \<Rightarrow> http_request \<Rightarrow> 's handler" where
  "threads_history ta req =
     on_thread ta HistoryRead req (\<lambda>tid x.
       let pf = ta_platform ta in
       case parse_model ta req True True no_refusal history_fields (ta_valid_history ta) of
         Inl r \<Rightarrow> (Inr r, x)
       | Inr hq \<Rightarrow>
           (case first_error (result_limit_error (hq_limit hq) (rd_max_limit (pf_deps pf)))
                  (case hq_metadata hq of None \<Rightarrow> None | Some md \<Rightarrow> structure_refusal ta (PDict md)) of
              Some r \<Rightarrow> (Inr r, x)
            | None \<Rightarrow>
                bound_graph ta (ta_historic ta) ''state history'' tid (\<lambda>g x.
                  case build_checkpoint_config (pf_text pf) tid (hq_checkpoint hq) None of
                    Inl r \<Rightarrow> (Inr r, x)
                  | Inr config \<Rightarrow>
                      (case ta_get_history ta g config x of
                         (Inl e, x1) \<Rightarrow> (history_failed e, x1)
                       | (Inr h, x1) \<Rightarrow> (history_answer (pf_text pf) tid hq h, x1))) x))"

section \<open>Dispatch\<close>

text \<open>\<open>register_thread_routes\<close>: the routes, what each asks the policy, and what serves it.\<close>

datatype thread_route =
  CreateRoute | GetRoute | UpdateRoute | DeleteRoute | SearchRoute | CountRoute | StateRoute | StateUpdateRoute |
  HistoryRoute

fun route_action :: "thread_route \<Rightarrow> auth_action" where
  "route_action CreateRoute = ThreadCreate"
| "route_action GetRoute = ThreadRead"
| "route_action UpdateRoute = ThreadUpdate"
| "route_action DeleteRoute = ThreadDelete"
| "route_action SearchRoute = ThreadSearch"
| "route_action CountRoute = ThreadSearch"
| "route_action StateRoute = StateRead"
| "route_action StateUpdateRoute = StateUpdate"
| "route_action HistoryRoute = HistoryRead"

definition route_thread :: "thread_route \<Rightarrow> http_request \<Rightarrow> string option" where
  "route_thread r req =
     (if r \<in> {CreateRoute, SearchRoute, CountRoute} then None else Some (route_param ''thread_id'' req))"

fun serve :: "'s thread_api \<Rightarrow> thread_route \<Rightarrow> http_request \<Rightarrow> 's handler" where
  "serve ta CreateRoute = threads_create ta"
| "serve ta GetRoute = threads_get ta"
| "serve ta UpdateRoute = threads_update ta"
| "serve ta DeleteRoute = threads_delete ta"
| "serve ta SearchRoute = threads_search ta"
| "serve ta CountRoute = threads_count ta"
| "serve ta StateRoute = threads_state_get ta"
| "serve ta StateUpdateRoute = threads_state_update ta"
| "serve ta HistoryRoute = threads_history ta"

lemmas route_defs = threads_create_def threads_get_def threads_update_def threads_delete_def threads_search_def
  threads_count_def threads_state_get_def threads_state_update_def threads_history_def

text \<open>
  C19: A thread route does nothing before its policy has allowed it: for every route, a policy that
  denies answers 403, one that finds no principal answers 401, one that fails is not hidden, and
  in each case the state is the one the policy left.
\<close>

theorem denied_route_untouched:
  assumes "ta_policy ta = Some policy" "policy (route_action r) (route_thread r req) req x = (d, x1)" "d \<noteq> Inr True"
  shows "serve ta r req x =
    (case d of
       Inl e \<Rightarrow> if exn_type e = ''UnauthenticatedError'' then Inr (platform_error 401 (Message ''Access denied'')) else Inl e
     | Inr _ \<Rightarrow> Inr (platform_error 403 (Message ''Access denied'')), x1)"
proof -
  have "permitted ta (route_action r) (route_thread r req) req body x =
    (case d of
       Inl e \<Rightarrow> if exn_type e = ''UnauthenticatedError'' then Inr (platform_error 401 (Message ''Access denied'')) else Inl e
     | Inr _ \<Rightarrow> Inr (platform_error 403 (Message ''Access denied'')), x1)" for body
    using assms by (auto simp: permitted_def authorization_status_def split: sum.split)
  then show ?thesis
    by (cases r) (simp_all add: route_defs on_thread_def route_thread_def Let_def)
qed

section \<open>The history is a page\<close>

text \<open>What follows the snapshot with a given id; everything when there is none.\<close>

definition after_snapshot :: "pyval \<Rightarrow> snapshot list \<Rightarrow> snapshot list" where
  "after_snapshot before sns =
     (if before = PNone then sns else drop 1 (dropWhile (\<lambda>sn. \<not> py_eq (snapshot_id sn) before) sns))"

lemma history_loop_found:
  "int (length results) < limit \<Longrightarrow>
     history_loop before wanted limit tid True results sns =
     (results @ map (\<lambda>sn. snapshot_to_thread_state sn tid) (take (nat limit - length results) (filter (snapshot_matches wanted) sns)),
      nat limit \<le> length results + length (filter (snapshot_matches wanted) sns))"
proof (induction sns arbitrary: results)
  case (Cons sn sns)
  show ?case
  proof (cases "snapshot_matches wanted sn")
    case True
    have n: "nat limit - length results = Suc (nat limit - Suc (length results))" using Cons.prems by linarith
    show ?thesis
    proof (cases "limit \<le> 1 + int (length results)")
      case full: True
      then have "nat limit = Suc (length results)" using Cons.prems by linarith
      with True full show ?thesis by simp
    next
      case False
      then show ?thesis using Cons.IH [of "results @ [snapshot_to_thread_state sn tid]"] True n by simp
    qed
  next
    case False
    with Cons show ?thesis by simp
  qed
qed auto

lemma history_loop_page:
  assumes "1 \<le> limit"
  shows "history_loop before wanted limit tid (before = PNone) [] sns =
    (map (\<lambda>sn. snapshot_to_thread_state sn tid)
      (take (nat limit) (filter (snapshot_matches wanted) (after_snapshot before sns))),
     nat limit \<le> length (filter (snapshot_matches wanted) (after_snapshot before sns)))"
proof -
  have found: "history_loop before wanted limit tid True [] sns =
      (map (\<lambda>sn. snapshot_to_thread_state sn tid) (take (nat limit) (filter (snapshot_matches wanted) sns)),
       nat limit \<le> length (filter (snapshot_matches wanted) sns))" for sns
    using history_loop_found [of "[]" limit before wanted tid sns] assms by simp
  show ?thesis
  proof (cases "before = PNone")
    case True
    with found [of sns] show ?thesis by (simp add: after_snapshot_def)
  next
    case False
    have "history_loop before wanted limit tid False [] sns =
      (let rest = drop 1 (dropWhile (\<lambda>sn. \<not> py_eq (snapshot_id sn) before) sns) in
       (map (\<lambda>sn. snapshot_to_thread_state sn tid) (take (nat limit) (filter (snapshot_matches wanted) rest)),
        nat limit \<le> length (filter (snapshot_matches wanted) rest)))"
      using assms by (induction sns) (simp_all add: found)
    with False show ?thesis by (simp add: after_snapshot_def Let_def)
  qed
qed

text \<open>
  The history route answers with one page: of the snapshots after the one named by \<open>before\<close>,
  those whose metadata match, at most \<open>limit\<close> of them and in the graph's order; whatever ends the
  graph's history is not reported when the page is full.
\<close>

theorem history_is_page:
  assumes "1 \<le> hq_limit hq" "before_id txt tid (hq_before hq) = Inr b"
    and "case ending of None \<Rightarrow> True
      | Some e \<Rightarrow> nat (hq_limit hq) \<le> length (filter (snapshot_matches (hq_metadata hq)) (after_snapshot b sns))"
  shows "history_answer txt tid hq (sns, ending) =
    answer (PList (map (\<lambda>sn. state_json (snapshot_to_thread_state sn tid))
      (take (nat (hq_limit hq)) (filter (snapshot_matches (hq_metadata hq)) (after_snapshot b sns)))))"
  using assms(2,3) by (simp add: history_answer_def history_loop_page [OF assms(1)] comp_def split: option.splits bool.split)

section \<open>An update of the state gives both locks back\<close>

text \<open>
  What the update relies on beyond the laws of a run: a thread that reads as busy cannot be taken.
  The store may fail with any error.
\<close>

locale platform_state = platform_run pf owner holder inv
  for pf :: "'s platform" and owner holder inv +
  fixes busy :: "'s \<Rightarrow> string \<Rightarrow> bool"
  assumes get_busy: "inv s \<Longrightarrow> pf_get pf tid s = (r, s') \<Longrightarrow> busy s' = busy s \<and>
      (\<forall>th. r = Inr (Some th) \<longrightarrow> (th_status th = SBusy \<longleftrightarrow> busy s tid))"
    and acquire_busy: "inv s \<Longrightarrow> pf_acquire pf k s = (a, s') \<Longrightarrow> busy s' = busy s"
    and try_busy: "inv s \<Longrightarrow> pf_try pf tid b s = (Inr (Some th), s') \<Longrightarrow> \<not> busy s tid"
begin

lemma take_state_locks_ends:
  assumes "inv x" "take_state_locks pf k tid x = (r, x')"
  shows "case r of Inl r' \<Rightarrow> same_locks x x' \<or> (\<exists>e. r' = Inl e \<and> \<not> lookup_failed e)
    | Inr (tok, st) \<Rightarrow> inv x' \<and> owner x k = None \<and> holder x tid = None \<and> owner x' = (owner x)(k := Some tok) \<and>
        holder x' = (holder x)(tid := Some st) \<and> st \<noteq> [] \<and> \<not> busy x tid"
proof -
  obtain a x1 where a: "pf_acquire pf k x = (a, x1)" by (rule prod.exhaust)
  note al = acquire_law [OF assms(1) a] and ab = acquire_busy [OF assms(1) a]
  show ?thesis
  proof (cases "\<exists>tok. a = Inr (Some tok)")
    case False
    then have "a = Inr None \<or> (\<exists>e. a = Inl e)" by (cases a) auto
    with al assms(2) a show ?thesis by (auto simp: take_state_locks_def Let_def)
  next
    case True
    then obtain tok where tok: "a = Inr (Some tok)" by blast
    with al have x1: "inv x1" "owner x k = None" "owner x1 = (owner x)(k := Some tok)" "holder x1 = holder x" by auto
    obtain b x2 where b: "pf_try pf tid (Some (key_graph k)) x1 = (b, x2)" by (rule prod.exhaust)
    note bl = try_law [OF x1(1) b]
    show ?thesis
    proof (cases "\<exists>th. b = Inr (Some th)")
      case True
      then obtain th where th: "b = Inr (Some th)" by blast
      with try_busy [OF x1(1)] b ab have "\<not> busy x tid" by auto
      with th bl x1 assms(2) a tok b show ?thesis by (auto simp: take_state_locks_def Let_def)
    next
      case False
      then have x2: "owner x2 = owner x1" "holder x2 = holder x1" "inv x2" using bl by (auto split: sum.splits option.splits)
      obtain c x3 where c: "pf_release pf k tok x2 = (c, x3)" by (rule prod.exhaust)
      have q3: "same_locks x x3" using release_law [OF x2(3) c] x1 x2 by (auto simp: fun_eq_iff)
      show ?thesis
      proof (cases b)
        case (Inr n)
        with False have "b = Inr None" by (cases n) auto
        with assms(2) a tok b c q3 show ?thesis
          by (auto simp: take_state_locks_def released_def Let_def split: option.splits)
      next
        case (Inl e)
        with assms(2) a tok b c q3 show ?thesis
          by (auto simp: take_state_locks_def released_def lookup_failed_def Let_def split: option.splits if_splits)
      qed
    qed
  qed
qed

lemma release_state_frees:
  assumes "inv x" "owner x k = Some tok" "holder x tid = Some st" "st \<noteq> []" "status \<noteq> SBusy"
    and "release_thread_state_lock pf tid k tok status st x = (f, x')"
  shows "inv x' \<and> owner x' = (owner x)(k := None) \<and> holder x' = (holder x)(tid := None)"
proof -
  obtain r x1 where fr: "pf_free pf tid status None (Some st) x = (r, x1)" by (rule prod.exhaust)
  obtain rel x2 where re: "pf_release pf k tok x1 = (rel, x2)" by (rule prod.exhaust)
  have "x' = x2" using assms(4,6) fr re by (simp add: release_thread_state_lock_def Let_def split_def)
  moreover have x1: "inv x1 \<and> owner x1 = owner x \<and> holder x1 = (holder x)(tid := None)"
    using free_law [OF assms(1,5) fr] assms(3) by simp
  moreover have "inv x2 \<and> holder x2 = holder x1 \<and> owner x2 = (owner x)(k := None)"
    using release_law [OF _ re] x1 assms(2) by simp
  ultimately show ?thesis by simp
qed

end

definition update_quiet ::
    "('s \<Rightarrow> bool) \<Rightarrow> ('s \<Rightarrow> lock_key \<Rightarrow> token option) \<Rightarrow> ('s \<Rightarrow> string \<Rightarrow> token option) \<Rightarrow>
     lock_key \<Rightarrow> string \<Rightarrow> 's thread_api \<Rightarrow> bool" where
  "update_quiet good owner holder k tid ta \<longleftrightarrow>
     (\<forall>g config v node x. good x \<longrightarrow> quiet good owner holder k tid x (snd (ta_update_state ta g config v node x)))"

definition policy_quiet ::
    "('s \<Rightarrow> bool) \<Rightarrow> ('s \<Rightarrow> lock_key \<Rightarrow> token option) \<Rightarrow> ('s \<Rightarrow> string \<Rightarrow> token option) \<Rightarrow> 's thread_api \<Rightarrow> bool" where
  "policy_quiet good owner holder ta \<longleftrightarrow>
     (\<forall>policy. ta_policy ta = Some policy \<longrightarrow> (\<forall>action t rq s. good s \<longrightarrow>
        good (snd (policy action t rq s)) \<and> owner (snd (policy action t rq s)) = owner s \<and>
        holder (snd (policy action t rq s)) = holder s))"

lemma base_not_lookup: "base_exn e \<Longrightarrow> \<not> lookup_failed e"
  by (auto simp: base_exn_def lookup_failed_def)

text \<open>How a request may end with locks that are not given back: an exception escapes that is no lookup error.\<close>

definition escapes :: "exn + response \<Rightarrow> bool" where
  "escapes r \<longleftrightarrow> (\<exists>e. r = Inl e \<and> \<not> lookup_failed e)"

lemma escapes_simps [simp]: "escapes (Inl e) \<longleftrightarrow> \<not> lookup_failed e" "\<not> escapes (Inr v)"
  by (simp_all add: escapes_def)

context platform_state
begin

lemma write_state_quiet:
  assumes "inv x" "update_quiet inv owner holder k' tid ta" "write_state ta g k tok config su x = (r, x')"
  shows "quiet inv owner holder k' tid x x'"
  using assms unfolding write_state_def update_quiet_def Let_def
  by (auto simp: quiet_refl split: sum.splits prod.splits) (metis snd_conv)

lemma locked_update_balanced:
  assumes pf: "ta_platform ta = pf" and x: "inv x" and prior: "prior \<noteq> SBusy \<or> busy x (key_thread k)"
    and q: "update_quiet inv owner holder k' (key_thread k) ta" "update_quiet inv owner holder k (key_thread k) ta"
    and run: "locked_update ta g k config su prior x = (r, x')"
  shows "escapes r \<or> quiet inv owner holder k' (key_thread k) x x'"
proof -
  let ?tid = "key_thread k"
  obtain a x1 where a: "take_state_locks pf k ?tid x = (a, x1)" by (rule prod.exhaust)
  note taken = take_state_locks_ends [OF x a]
  show ?thesis
  proof (cases a)
    case (Inl e)
    with taken run a pf show ?thesis by (auto simp: locked_update_def quiet_def)
  next
    case (Inr ts)
    obtain tok st where ts: "ts = (tok, st)" by (rule prod.exhaust)
    obtain b x2 where b: "write_state ta g k tok config su x1 = (b, x2)" by (rule prod.exhaust)
    have x1: "inv x1" "owner x1 = (owner x)(k := Some tok)" "holder x1 = (holder x)(?tid := Some st)"
      "owner x k = None" "holder x ?tid = None" "st \<noteq> []" "prior \<noteq> SBusy" using taken Inr ts prior by auto
    have q2: "quiet inv owner holder k' ?tid x1 x2" "quiet inv owner holder k ?tid x1 x2"
      using write_state_quiet [OF x1(1) _ b] q by auto
    have frees: "inv y \<and> owner y = (owner x2)(k := None) \<and> holder y = (holder x2)(?tid := None)"
      if "release_thread_state_lock pf ?tid k tok status st x2 = (f, y)" "status \<noteq> SBusy" for status f y
      using release_state_frees [OF _ _ _ x1(6) that(2,1)] q2(2) x1 by (simp add: quiet_def)
    have fin: "finish_state ta k tok st prior b x2 = (r, x')"
      using run a Inr ts b pf by (simp add: locked_update_def)
    have "escapes r \<or> (\<exists>status f. status \<noteq> SBusy \<and> release_thread_state_lock pf ?tid k tok status st x2 = (f, x'))"
    proof (cases b)
      case (Inl e)
      show ?thesis
      proof (cases "base_exn e")
        case True
        with fin Inl base_not_lookup [OF True] show ?thesis by (auto simp: finish_state_def Let_def)
      next
        case False
        then have "x' = snd (release_thread_state_lock pf ?tid k tok SError st x2)"
          using fin Inl pf by (auto simp: finish_state_def Let_def split: if_splits)
        then show ?thesis by (intro disjI2 exI [of _ SError]) (simp add: prod_eq_iff)
      qed
    next
      case (Inr v)
      with fin pf x1(7) show ?thesis
        by (intro disjI2 exI [of _ prior]) (auto simp: finish_state_def Let_def split: option.splits prod.splits)
    qed
    then have "escapes r \<or> inv x' \<and> owner x' = (owner x2)(k := None) \<and> holder x' = (holder x2)(?tid := None)"
      using frees by blast
    with q2 x1 show ?thesis by (auto simp: quiet_def)
  qed
qed

abbreviation balanced :: "lock_key \<Rightarrow> string \<Rightarrow> 's \<Rightarrow> exn + response \<Rightarrow> 's \<Rightarrow> bool" where
  "balanced k tid x r y \<equiv> escapes r \<or> quiet inv owner holder k tid x y"

lemma bound_graph_balanced:
  assumes pf: "ta_platform ta = pf" and x: "inv x"
    and body: "\<And>g y r y'. inv y \<Longrightarrow> body g y = (r, y') \<Longrightarrow> balanced k tid y r y'"
    and run: "bound_graph ta supports capability tid body x = (r, x')"
  shows "balanced k tid x r x'"
proof -
  obtain a x1 where a: "pf_get pf tid x = (a, x1)" by (rule prod.exhaust)
  have q: "quiet inv owner holder k tid x x1" using get_law [OF x a] by (simp add: quiet_def)
  show ?thesis
    using run pf a q body [OF quiet_inv [OF q]] quiet_trans [OF q]
    by (auto simp: bound_graph_def split: sum.splits)
qed

lemma on_thread_balanced:
  assumes x: "inv x"
    and policy: "policy_quiet inv owner holder ta"
    and body: "\<And>y r y'. inv y \<Longrightarrow> body (route_param ''thread_id'' req) y = (r, y') \<Longrightarrow> balanced k tid y r y'"
    and run: "on_thread ta action req body x = (r, x')"
  shows "balanced k tid x r x'"
proof -
  let ?t = "Some (route_param ''thread_id'' req)"
  obtain a x1 where a: "authorization_status (map_option (\<lambda>p. p action) (ta_policy ta)) ?t req x = (a, x1)" by (rule prod.exhaust)
  have "same_locks x x1"
  proof (cases "ta_policy ta")
    case None
    with a x show ?thesis by (simp add: authorization_status_def)
  next
    case (Some p)
    obtain d y where d: "p action ?t req x = (d, y)" by (rule prod.exhaust)
    with a Some have "x1 = y" by (auto simp: authorization_status_def split: sum.splits if_splits)
    moreover have "same_locks x (snd (p action ?t req x))" using policy Some x unfolding policy_quiet_def by blast
    ultimately show ?thesis using d by simp
  qed
  then have q: "quiet inv owner holder k tid x x1" by (simp add: quiet_def)
  show ?thesis
    using run a q body [OF quiet_inv [OF q]] quiet_trans [OF q]
    by (auto simp: on_thread_def permitted_def Let_def split: sum.splits option.splits)
qed

lemma update_bound_balanced:
  assumes pf: "ta_platform ta = pf" and y: "inv y"
    and graph: "\<And>name. update_quiet inv owner holder (Key name tid) tid ta"
    and run: "update_bound ta tid su g y = (r, y')"
  shows "balanced (Key name tid) tid y r y'"
proof -
  obtain q y1 where q: "pf_get pf tid y = (q, y1)" by (rule prod.exhaust)
  have same: "same_locks y y1" using get_law [OF y q] by simp
  then have q1: "quiet inv owner holder (Key name tid) tid y y1" by (simp add: quiet_def)
  have locked: "balanced (Key name tid) tid y r y'"
    if "q = Inr (Some th)" "locked_update ta g (Key a tid) config su (th_status th) y1 = (r, y')" for th a config
    using locked_update_balanced [OF pf _ _ _ _ that(2), of "Key name tid"] get_busy [OF y q] same graph that(1)
      quiet_trans [OF q1] by auto
  show ?thesis
    using run pf q locked quiet_refl [OF y] q1
    by (auto simp: update_bound_def Let_def split: sum.splits option.splits)
qed

lemma state_update_ends:
  assumes pf: "ta_platform ta = pf" and x: "inv x" and tid: "tid = route_param ''thread_id'' req"
    and policy: "policy_quiet inv owner holder ta"
    and graph: "\<And>name. update_quiet inv owner holder (Key name tid) tid ta"
    and run: "threads_state_update ta req x = (r, x')"
  shows "balanced (Key name tid) tid x r x'"
proof -
  have checked: "balanced (Key name tid) tid y r y'" if y: "inv y" and run: "update_values ta tid su y = (r, y')" for su y r y'
    using run bound_graph_balanced [OF pf y update_bound_balanced [OF pf _ graph]] quiet_refl [OF y]
    by (auto simp: update_values_def split: option.splits)
  show ?thesis unfolding tid
  proof (rule on_thread_balanced [OF x policy _ run [unfolded threads_state_update_def]])
    fix y and r :: "exn + response" and y'
    assume y: "inv y" and "(case parse_model ta req True False no_refusal update_fields (ta_valid_update ta) of
        Inl r \<Rightarrow> (Inr r, y) | Inr su \<Rightarrow> update_values ta (route_param ''thread_id'' req) su y) = (r, y')"
    then show "balanced (Key name (route_param ''thread_id'' req)) (route_param ''thread_id'' req) y r y'"
      using checked [OF y] quiet_refl [OF y] tid by (auto split: sum.splits)
  qed
qed

end

end
