(* ===== verification/Threads_Memory.thy ===== *)
theory Threads_Memory
  imports Platform_Threads Platform_Memory
begin

text \<open>
  The thread routes on the in-memory store and the in-process lock: the laws an update of the state
  relies on, the life of a thread from its creation to its deletion, and what the answers never
  contain.
\<close>

section \<open>The routes on the world of one process\<close>

definition memory_threads ::
    "(auth_action \<Rightarrow> string option \<Rightarrow> http_request \<Rightarrow> exn + bool) option \<Rightarrow> world thread_api \<Rightarrow> world thread_api" where
  "memory_threads policy ta =
     (let txt = pf_text (ta_platform ta) in
      ta\<lparr>ta_platform := memory_platform None (ta_platform ta),
        ta_policy := map_option (\<lambda>p action tid req w. (p action tid req, w)) policy,
        ta_create := (\<lambda>md w. on_store txt (\<lambda>now. store_create (fresh_token (w_fresh w)) now md) (w\<lparr>w_fresh := Suc (w_fresh w)\<rparr>)),
        ta_delete := (\<lambda>tid. on_store txt (\<lambda>_ s. map_sum id (Pair ()) (store_delete tid s))),
        ta_search := (\<lambda>md st limit offset. on_store txt (\<lambda>_ s. map_sum id (\<lambda>ts. (ts, s)) (store_search md st limit offset s))),
        ta_count := (\<lambda>md st w. (Inr (store_count md st (w_store w)), w))\<rparr>)"

definition world_busy :: "world \<Rightarrow> string \<Rightarrow> bool" where
  "world_busy w tid = (case map_of (w_store w) tid of None \<Rightarrow> False | Some t \<Rightarrow> th_status t = SBusy)"


text \<open>
  The same with a store whose acquire may fail: \<open>fault\<close> says when and with which exception, as a
  storage service may.
\<close>

definition faulty_store :: "(string \<Rightarrow> world \<Rightarrow> exn option) \<Rightarrow> world platform \<Rightarrow> world platform" where
  "faulty_store fault pf =
     pf\<lparr>pf_try := (\<lambda>tid a w. case fault tid w of Some e \<Rightarrow> (Inl e, w) | None \<Rightarrow> pf_try pf tid a w)\<rparr>"


lemma no_faults: "faulty_store (\<lambda>_ _. None) pf = pf"
  by (simp add: faulty_store_def)



lemma memory_threads_platform [simp]: "ta_platform (memory_threads policy ta) = memory_platform None (ta_platform ta)"
  by (simp add: memory_threads_def Let_def)

lemma memory_threads_fields [simp]:
  "ta_policy (memory_threads policy ta) = map_option (\<lambda>p action tid req w. (p action tid req, w)) policy"
  "ta_create (memory_threads policy ta) = (\<lambda>md w. on_store (pf_text (ta_platform ta))
     (\<lambda>now. store_create (fresh_token (w_fresh w)) now md) (w\<lparr>w_fresh := Suc (w_fresh w)\<rparr>))"
  "ta_delete (memory_threads policy ta) = (\<lambda>tid. on_store (pf_text (ta_platform ta)) (\<lambda>_ s. map_sum id (Pair ()) (store_delete tid s)))"
  "ta_search (memory_threads policy ta) = (\<lambda>md st limit offset. on_store (pf_text (ta_platform ta))
     (\<lambda>_ s. map_sum id (\<lambda>ts. (ts, s)) (store_search md st limit offset s)))"
  "ta_count (memory_threads policy ta) = (\<lambda>md st w. (Inr (store_count md st (w_store w)), w))"
  "ta_time (memory_threads policy ta) = ta_time ta"
  "ta_valid_metadata (memory_threads policy ta) = ta_valid_metadata ta"
  "ta_valid_search (memory_threads policy ta) = ta_valid_search ta"
  "ta_valid_count (memory_threads policy ta) = ta_valid_count ta"
  by (simp_all add: memory_threads_def Let_def)

lemma memory_platform_fields [simp]:
  "pf_text (memory_platform policy pf) = pf_text pf"
  "pf_deps (memory_platform policy pf) = pf_deps pf"
  "pf_get (memory_platform policy pf) = (\<lambda>tid w. (Inr (store_get tid (w_store w)), w))"
  "pf_update (memory_platform policy pf) = (\<lambda>tid p. on_store (pf_text pf) (store_update tid p))"
  by (simp_all add: memory_platform_def)




section \<open>A run excludes an update\<close>

lemma memory_acquire_held:
  assumes "world_ok w" "world_owner w k \<noteq> None"
  shows "\<exists>w1. pf_acquire (memory_platform policy pf) k w = (Inr None, w1) \<and> w_store w1 = w_store w"
proof -
  obtain r l where a: "ip_acquire k (fresh_token (w_fresh w)) (w_lock w) = (r, l)" by (rule prod.exhaust)
  have "ip_quiet (w_lock w)" using assms(1) by (simp add: world_ok_def)
  moreover obtain t where "ip_owner (w_lock w) k = Some t" using assms(2) by (auto simp: world_owner_def)
  ultimately have "r \<noteq> Inr (Some t')" for t' using inprocess.acquire_held [OF _ _ a] by blast
  moreover have "\<exists>v. r = Inr v"
    using a by (auto simp: ip_acquire_def Let_def split: prod.splits if_splits)
  ultimately have "r = Inr None" by (metis not_None_eq)
  with a show ?thesis by (simp add: memory_platform_def)
qed

text \<open>
  A run excludes an update of the state: while the thread lock is held, or the thread's record is
  busy, the update is answered with a conflict and the thread's record stays as it is; the graph
  is not called, whatever it would do.
\<close>

theorem state_update_excluded:
  assumes "world_ok w" "map_of (w_store w) tid = Some th" "th_assistant th = Some a"
    and "world_owner w (Key a tid) \<noteq> None \<or> th_status th = SBusy"
  shows "fst (locked_update (memory_threads policy ta) g (Key a tid) config su prior w) =
      Inr (state_busy (pf_text (ta_platform ta)) tid) \<and>
    w_store (snd (locked_update (memory_threads policy ta) g (Key a tid) config su prior w)) = w_store w"
proof (cases "world_owner w (Key a tid) = None")
  case False
  obtain w1 where "pf_acquire (memory_platform None (ta_platform ta)) (Key a tid) w = (Inr None, w1)" "w_store w1 = w_store w"
    using memory_acquire_held [OF assms(1) False] by blast
  then show ?thesis by (simp add: locked_update_def take_state_locks_def memory_platform_def)
next
  case True
  then have busy: "th_status th = SBusy" using assms(4) by simp
  let ?pf = "memory_platform None (ta_platform ta)"
  obtain r w1 where a: "pf_acquire ?pf (Key a tid) w = (r, w1)" by (rule prod.exhaust)
  have store: "w_store w1 = w_store w" "\<nexists>e. r = Inl e"
    using a by (auto simp: memory_platform_def ip_acquire_def Let_def split: prod.splits if_splits sum.splits)
  then show ?thesis
    using a assms(2,3) busy
    by (cases r; cases "projr r")
      (auto simp: locked_update_def take_state_locks_def memory_platform_def on_store_def store_try_acquire_def
        released_def bound_to_other_def Let_def split: prod.splits)
qed

section \<open>The life of a thread\<close>

lemma memory_permitted: "permitted (memory_threads None ta) action tid req body w = body w"
  by (simp add: permitted_def authorization_status_def)

lemma memory_on_thread:
  "validate_thread_id tid = None \<Longrightarrow> route_param ''thread_id'' req = tid \<Longrightarrow>
     on_thread (memory_threads None ta) action req body w = body tid w"
  by (simp add: on_thread_def memory_permitted)

lemma memory_missing [simp]: "missing_thread (memory_threads policy ta) = missing_thread ta"
  by (simp add: missing_thread_def fun_eq_iff)

lemma memory_answer: "thread_answer (memory_threads policy ta) (r, w) = (bind_res r (\<lambda>t. answer (thread_json (ta_time ta) t)), w)"
  by (simp add: thread_answer_def)

lemma memory_threads_get:
  assumes "validate_thread_id tid = None" "route_param ''thread_id'' req = tid"
  shows "threads_get (memory_threads None ta) req w =
    (case map_of (w_store w) tid of
       None \<Rightarrow> Inr (missing_thread ta tid)
     | Some t \<Rightarrow> answer (thread_json (ta_time ta) t), w)"
  by (simp add: threads_get_def memory_on_thread [OF assms] store_get_def memory_answer split: option.splits)

text \<open>
  C18: A thread lives from its creation to its deletion: what creation answers is what the thread reads
  as afterwards; an update of its metadata is merged into them and read back; once deleted, the
  thread is not found, and deleting it again neither.
\<close>

theorem thread_life:
  fixes w ta
  defines "T \<equiv> memory_threads None ta" and "tid \<equiv> fresh_token (w_fresh w)"
  assumes "map_of (w_store w) tid = None" "validate_thread_id tid = None" "route_param ''thread_id'' rq = tid"
    and "parse_model T req False True no_refusal metadata_fields (ta_valid_metadata ta) = Inr md"
    and "parse_model T rq False True no_refusal metadata_fields (ta_valid_metadata ta) = Inr (Some m)"
  shows "let (r1, w1) = threads_create T req w; (r2, w2) = threads_update T rq w1; (r3, w3) = threads_delete T rq w2 in
    r1 = answer (thread_json (ta_time ta) (new_thread tid (w_clock w) md)) \<and> threads_get T rq w1 = (r1, w1) \<and>
    r2 = answer (thread_json (ta_time ta) (new_thread tid (w_clock w) (Some (dict_merge (or_empty md) m)))) \<and>
    threads_get T rq w2 = (r2, w2) \<and>
    r3 = Inr NoContent \<and> threads_get T rq w3 = (Inr (missing_thread ta tid), w3) \<and>
    threads_delete T rq w3 = (Inr (missing_thread ta tid), w3)"
proof -
  define t where "t = new_thread tid (w_clock w) md"
  define t' where "t' = new_thread tid (w_clock w) (Some (dict_merge (or_empty md) m))"
  define w1 where "w1 = w\<lparr>w_fresh := Suc (w_fresh w), w_store := AList.update tid t (w_store w)\<rparr>"
  define w2 where "w2 = w1\<lparr>w_store := AList.update tid t' (w_store w1)\<rparr>"
  define w3 where "w3 = w2\<lparr>w_store := AList.delete tid (w_store w2)\<rparr>"
  have tid: "fresh_token (w_fresh w) = tid" by (simp add: tid_def)
  have create: "threads_create T req w = (answer (thread_json (ta_time ta) t), w1)"
    using assms(3,6) tid
    by (simp add: T_def threads_create_def memory_permitted memory_answer on_store_def store_create_def t_def w1_def Let_def)
  have update: "threads_update T rq w1 = (answer (thread_json (ta_time ta) t'), w2)"
    using assms(7)
    by (simp add: T_def threads_update_def memory_on_thread [OF assms(4,5)] store_get_def memory_answer or_missing_def
        Let_def on_store_def store_update_def w1_def w2_def t_def t'_def patch_thread_def opt_or_def opt_orelse_def
        new_thread_def answer_def)
  have delete: "threads_delete T rq w2 = (Inr NoContent, w3)" "threads_delete T rq w3 = (Inr (missing_thread ta tid), w3)"
    by (simp_all add: T_def threads_delete_def memory_on_thread [OF assms(4,5)] or_missing_def on_store_def store_delete_def
        w2_def w3_def delete_conv)
  have get: "threads_get T rq w' = (case map_of (w_store w') tid of
       None \<Rightarrow> Inr (missing_thread ta tid)
     | Some t \<Rightarrow> answer (thread_json (ta_time ta) t), w')" for w'
    using memory_threads_get [OF assms(4,5)] by (simp add: T_def)
  show ?thesis
    unfolding create update delete Let_def case_prod_conv get
    by (simp add: t_def t'_def w1_def w2_def w3_def delete_conv)
qed

section \<open>Tokens stay inside\<close>

definition retoken :: "(string \<Rightarrow> token option) \<Rightarrow> (string \<Rightarrow> int option) \<Rightarrow> world \<Rightarrow> world" where
  "retoken f g w = w\<lparr>w_store := map (\<lambda>(k, t). (k, t\<lparr>th_token := f k, th_expires := g k\<rparr>)) (w_store w)\<rparr>"

definition forget :: "thread \<Rightarrow> thread" where
  "forget t = t\<lparr>th_token := None, th_expires := None\<rparr>"

lemma map_of_retoken:
  "map_of (w_store (retoken f g w)) k = map_option (\<lambda>t. t\<lparr>th_token := f k, th_expires := g k\<rparr>) (map_of (w_store w) k)"
proof -
  have "map_of (map (\<lambda>(k, t). (k, t\<lparr>th_token := f k, th_expires := g k\<rparr>)) s) k =
      map_option (\<lambda>t. t\<lparr>th_token := f k, th_expires := g k\<rparr>) (map_of s k)" for s
    by (induction s) auto
  then show ?thesis by (simp add: retoken_def)
qed

lemma thread_json_forget:
  "thread_json time (t\<lparr>th_token := a, th_expires := b\<rparr>) = thread_json time t" "thread_json time (forget t) = thread_json time t"
  by (simp_all add: thread_json_def forget_def)

lemma insort_map: "(\<And>x. k (f x) = k x) \<Longrightarrow> insort_key k (f x) (map f xs) = map f (insort_key k x xs)"
  by (induction xs) auto

lemma sort_map: "(\<And>x. k (f x) = k x) \<Longrightarrow> sort_key k (map f xs) = map f (sort_key k xs)"
  by (induction xs) (simp_all add: insort_map)

lemma filtered_forget:
  "map forget (filtered_threads md st (w_store (retoken f g w))) = map forget (filtered_threads md st (w_store w))"
proof -
  have "map forget (filtered_threads md st (map (\<lambda>(k, t). (k, t\<lparr>th_token := f k, th_expires := g k\<rparr>)) s)) =
      map forget (filtered_threads md st s)" for s
    by (cases st; induction s) (auto simp: filtered_threads_def forget_def)
  then show ?thesis by (simp add: retoken_def)
qed

lemma search_forget:
  "map (thread_json time) (take n (drop m (newest_first (filtered_threads md st (w_store (retoken f g w)))))) =
   map (thread_json time) (take n (drop m (newest_first (filtered_threads md st (w_store w)))))"
proof -
  have "map (thread_json time) xs = map (thread_json time) (map forget xs)" for xs
    by (simp add: thread_json_forget)
  moreover have "map forget (newest_first xs) = newest_first (map forget xs)" for xs
    unfolding newest_first_def by (rule sort_map [symmetric]) (simp add: forget_def)
  ultimately show ?thesis
    using filtered_forget [of md st f g w] by (metis (no_types, lifting) drop_map take_map)
qed

lemma permitted_retoken:
  "fst (body (retoken f g w)) = fst (body w) \<Longrightarrow>
     fst (permitted (memory_threads policy ta) action tid req body (retoken f g w)) =
     fst (permitted (memory_threads policy ta) action tid req body w)"
  by (cases policy) (auto simp: permitted_def authorization_status_def split: sum.split)

lemma on_thread_retoken:
  "(\<And>tid. fst (body tid (retoken f g w)) = fst (body tid w)) \<Longrightarrow>
     fst (on_thread (memory_threads policy ta) action req body (retoken f g w)) =
     fst (on_thread (memory_threads policy ta) action req body w)"
  unfolding on_thread_def Let_def by (rule permitted_retoken) (simp split: option.split)

lemma retoken_fields [simp]: "w_fresh (retoken f g w) = w_fresh w" "w_clock (retoken f g w) = w_clock w"
  by (simp_all add: retoken_def)

lemma count_retoken: "store_count md st (w_store (retoken f g w)) = store_count md st (w_store w)"
  using arg_cong [OF filtered_forget, of length] by (simp add: store_count_def)

text \<open>
  What the routes on the threads' records answer, errors included, is the same whatever the lock tokens and their
  expiries in the store are; \<open>Token_Secrecy\<close> has the other routes.
\<close>

lemma record_routes_retoken:
  assumes "r \<in> {CreateRoute, GetRoute, UpdateRoute, DeleteRoute, SearchRoute, CountRoute}"
  shows "fst (serve (memory_threads policy ta) r req (retoken f g w)) = fst (serve (memory_threads policy ta) r req w)"
proof -
  let ?T = "memory_threads policy ta"
  have create: "fst (threads_create ?T req (retoken f g w)) = fst (threads_create ?T req w)"
    unfolding threads_create_def
    by (rule permitted_retoken)
      (auto simp: thread_answer_def on_store_def store_create_def map_of_retoken Let_def split: sum.split)
  have get: "fst (threads_get ?T req (retoken f g w)) = fst (threads_get ?T req w)"
    unfolding threads_get_def
    by (rule on_thread_retoken) (auto simp: store_get_def map_of_retoken memory_answer thread_json_forget answer_def split: option.split)
  have update: "fst (threads_update ?T req (retoken f g w)) = fst (threads_update ?T req w)"
    unfolding threads_update_def
    by (rule on_thread_retoken)
      (auto simp: store_get_def map_of_retoken memory_answer thread_json_forget or_missing_def on_store_def store_update_def
        patch_thread_def thread_json_def answer_def Let_def split: option.split sum.split)
  have delete: "fst (threads_delete ?T req (retoken f g w)) = fst (threads_delete ?T req w)"
    unfolding threads_delete_def
    by (rule on_thread_retoken)
      (auto simp: map_of_retoken or_missing_def on_store_def store_delete_def split: option.split sum.split)
  have search: "fst (threads_search ?T req (retoken f g w)) = fst (threads_search ?T req w)"
    unfolding threads_search_def
    by (rule permitted_retoken)
      (auto simp: on_store_def store_search_def search_forget answer_def split: option.split sum.split)
  have count: "fst (threads_count ?T req (retoken f g w)) = fst (threads_count ?T req w)"
    unfolding threads_count_def
    by (rule permitted_retoken) (auto simp: count_retoken parse_model_def split: option.split sum.split)
  show ?thesis using assms create get update delete search count by auto
qed

section \<open>Examples\<close>

definition example_threads :: "world thread_api" where
  "example_threads =
     \<lparr>ta_platform = example_platform None, ta_policy = Some (\<lambda>_ _ _ w. (Inr False, w)),
      ta_create = (\<lambda>_ w. (Inl (Exn [] []), w)), ta_delete = (\<lambda>_ w. (Inr (), w)),
      ta_search = (\<lambda>_ _ _ _ w. (Inr [], w)), ta_count = (\<lambda>_ _ w. (Inr 0, w)),
      ta_valid_metadata = (\<lambda>_. Inr (Some [(''k'', PInt 1)])),
      ta_valid_search = (\<lambda>_. Inr \<lparr>tq_metadata = None, tq_status = None, tq_limit = 5, tq_offset = 0\<rparr>),
      ta_valid_count = (\<lambda>_. Inr \<lparr>tq_metadata = None, tq_status = None, tq_limit = 5, tq_offset = 0\<rparr>),
      ta_valid_update = (\<lambda>_. Inr \<lparr>su_values = PDict [], su_node = None, su_checkpoint_id = None, su_checkpoint = None\<rparr>),
      ta_valid_history = (\<lambda>_. Inr \<lparr>hq_limit = 1, hq_before = PNone, hq_metadata = None, hq_checkpoint = None\<rparr>),
      ta_time = (\<lambda>_. []), ta_stateful = (\<lambda>_. True), ta_updatable = (\<lambda>_. True), ta_historic = (\<lambda>_. True),
      ta_get_state = (\<lambda>_ _ w. (Inl (Exn ''KeyError'' []), w)), ta_update_state = (\<lambda>_ _ _ _ w. (Inr PNone, w)),
      ta_get_history = (\<lambda>_ _ w. (Inr ([], None), w))\<rparr>"

definition example_snapshot :: snapshot where
  "example_snapshot = \<lparr>sn_values = PDict [], sn_next = None, sn_metadata = None, sn_config = PNone, sn_parent = PNone, sn_created = None\<rparr>"

definition busy_world :: world where
  "busy_world = example_world\<lparr>w_store := [(''t'', (new_thread ''t'' 0 None)
     \<lparr>th_status := SBusy, th_assistant := Some ''g'', th_token := Some ''r''\<rparr>)]\<rparr>"

lemma denied_route_untouched_witness:
  "serve example_threads DeleteRoute example_request example_world =
     (Inr (platform_error 403 (Message ''Access denied'')), example_world)"
  using denied_route_untouched [of example_threads "\<lambda>_ _ _ w. (Inr False, w)" DeleteRoute example_request example_world
      "Inr False" example_world]
  by (simp add: example_threads_def)

lemma history_is_page_witness:
  "history_answer example_text ''t'' \<lparr>hq_limit = 1, hq_before = PNone, hq_metadata = None, hq_checkpoint = None\<rparr>
     ([example_snapshot, example_snapshot], Some (Exn ''KeyError'' [])) =
   answer (PList [state_json (snapshot_to_thread_state example_snapshot ''t'')])"
  using history_is_page [of "\<lparr>hq_limit = 1, hq_before = PNone, hq_metadata = None, hq_checkpoint = None\<rparr>" example_text
      "''t''" PNone "[example_snapshot, example_snapshot]" "Some (Exn ''KeyError'' [])"]
  by (simp add: before_id_def after_snapshot_def snapshot_matches_def)


lemma state_update_excluded_witness:
  "fst (locked_update (memory_threads None example_threads) 0 (Key ''g'' ''t'') []
      \<lparr>su_values = PDict [], su_node = None, su_checkpoint_id = None, su_checkpoint = None\<rparr> SIdle busy_world) =
    Inr (state_busy example_text ''t'')"
  using state_update_excluded [of busy_world "''t''" "(new_thread ''t'' 0 None)\<lparr>th_status := SBusy, th_assistant := Some ''g'',
      th_token := Some ''r''\<rparr>" "''g''" None example_threads 0 "[]"
      "\<lparr>su_values = PDict [], su_node = None, su_checkpoint_id = None, su_checkpoint = None\<rparr>" SIdle]
    example_world_ok
  by (simp add: busy_world_def example_threads_def example_platform_def world_ok_def)

definition example_rq :: http_request where
  "example_rq = \<lparr>rq_body = ''{}'', rq_params = [(''thread_id'', ''token-0'')], rq_headers = []\<rparr>"

lemma thread_life_witness:
  "fst (threads_delete (memory_threads None example_threads) example_rq
      (snd (threads_update (memory_threads None example_threads) example_rq
        (snd (threads_create (memory_threads None example_threads) example_rq example_world))))) = Inr NoContent"
proof -
  have "fresh_token 0 = ''token-0''" by (simp add: fresh_token_def nat_text.simps digit_def) code_simp
  then have tid: "fresh_token (w_fresh example_world) = ''token-0''" by (simp add: example_world_def)
  have valid: "validate_thread_id (fresh_token (w_fresh example_world)) = None"
    unfolding tid by (simp add: validate_thread_id_def dollar_bodies_def printable_body_def is_printable_def less_eq_char_def
      max_thread_id_length_def)
  have l: "loads ''{}'' = Some (PDict [])" by (simp add: loads_def skip_def is_space_def mk_dict_def)
  have parse: "parse_model (memory_threads None example_threads) example_rq False True no_refusal metadata_fields
      (ta_valid_metadata example_threads) = Inr (Some [(''k'', PInt 1)])"
    by (simp add: parse_model_def read_json_body_def validate_body_size_def l no_refusal_def first_error_def
        check_unknown_platform_fields_def unknown_request_fields_def is_byte_space_def example_rq_def
        example_threads_def example_platform_def)
  have absent: "map_of (w_store example_world) (fresh_token (w_fresh example_world)) = None"
    unfolding tid by (simp add: example_world_def)
  have param: "route_param ''thread_id'' example_rq = fresh_token (w_fresh example_world)"
    unfolding tid by (simp add: route_param_def example_rq_def)
  show ?thesis
    using thread_life [OF absent valid param parse parse] by (simp add: Let_def split_def)
qed

section \<open>Two ways to lose a lock\<close>

text \<open>
  A store that fails otherwise than with a \<open>KeyError\<close> or a \<open>ValueError\<close>, as a storage service may: the
  error escapes and the thread lock stays held, where the run routes give it back.
\<close>

definition failing_store :: "world thread_api" where
  "failing_store = example_threads\<lparr>ta_policy := None,
     ta_platform := (memory_platform None (example_platform None))
       \<lparr>pf_try := (\<lambda>_ _ w. (Inl (Exn ''HttpResponseError'' []), w))\<rparr>\<rparr>"

lemma store_error_keeps_lock:
  "case locked_update failing_store 0 (Key ''g'' ''t'') [] su SIdle example_world of
     (r, w') \<Rightarrow> r = Inl (Exn ''HttpResponseError'' []) \<and> world_owner w' (Key ''g'' ''t'') \<noteq> None"
proof -
  have free: "ip_states inproc_init k = None" for k by (simp add: inproc_init_def)
  show ?thesis
    by (simp add: locked_update_def take_state_locks_def failing_store_def memory_platform_def example_world_def
        ip_acquire_free [OF free] world_owner_def ip_owner_def)
qed

text \<open>A base exception of the graph passes every handler: both locks stay held.\<close>

definition interrupted_threads :: "world thread_api" where
  "interrupted_threads = memory_threads None (example_threads
     \<lparr>ta_update_state := (\<lambda>_ _ _ _ w. (Inl (Exn ''KeyboardInterrupt'' []), w))\<rparr>)"

lemma base_exception_keeps_locks:
  "case locked_update interrupted_threads 0 (Key ''g'' ''t'') [] su SIdle example_world of
     (r, w') \<Rightarrow> r = Inl (Exn ''KeyboardInterrupt'' []) \<and> world_owner w' (Key ''g'' ''t'') \<noteq> None \<and> world_holder w' ''t'' \<noteq> None"
proof -
  have free: "ip_states inproc_init k = None" for k by (simp add: inproc_init_def)
  show ?thesis
    by (simp add: locked_update_def take_state_locks_def interrupted_threads_def memory_threads_def example_threads_def
        example_platform_def memory_platform_def example_world_def ip_acquire_free [OF free] on_store_def store_try_acquire_def
        bound_to_other_def new_thread_def lock_thread_def write_state_def guard_run_config_def ownership_guard_for_def
        finish_state_def lookup_failed_def base_exn_def world_owner_def ip_owner_def world_holder_def run_token_def Let_def)
qed

text \<open>
  A run that ends between the read of the thread and the acquire of the lock: the thread was read as
  busy, the locks can be taken, the graph is updated, and the release to the status that was read
  is refused. The client hears of a failure and the thread stays busy.
\<close>

definition racing_threads :: "world thread_api" where
  "racing_threads = example_threads\<lparr>ta_policy := None,
     ta_platform := (memory_platform None (example_platform None))
       \<lparr>pf_acquire := (\<lambda>k w. pf_acquire (memory_platform None (example_platform None)) k
          (snd (pf_free (memory_platform None (example_platform None)) ''t'' SIdle None (Some ''r'') w)))\<rparr>\<rparr>"

lemma busy_status_restored:
  "case update_bound racing_threads ''t'' \<lparr>su_values = PDict [], su_node = None, su_checkpoint_id = None, su_checkpoint = None\<rparr>
      0 busy_world of
     (r, w') \<Rightarrow> r = Inr (platform_error 500 (Message ''Internal error releasing thread state lock'')) \<and>
       world_busy w' ''t'' \<and> world_owner w' (Key ''g'' ''t'') = None"
proof -
  have free: "ip_states inproc_init k = None" for k by (simp add: inproc_init_def)
  show ?thesis
    by (simp add: update_bound_def locked_update_def take_state_locks_def racing_threads_def memory_platform_def
        example_world_def busy_world_def ip_acquire_free [OF free] build_checkpoint_config_def store_get_def on_store_def
        store_try_acquire_def store_release_def unlock_thread_def lock_thread_def bound_to_other_def new_thread_def
        write_state_def example_threads_def example_platform_def guard_run_config_def ownership_guard_for_def
        finish_state_def release_thread_state_lock_def internal_error_def world_busy_def world_owner_def
        ip_release_def ip_owner_def opt_orelse_def maybe_gc_def Let_def)
      (simp add: upd_state_def inproc_init_def)
qed

end
