(* ===== verification/Token_Secrecy.thy ===== *)
theory Token_Secrecy
  imports Threads_Memory
begin

text \<open>
  The tokens of the locks stay inside the server. A token is told to a client, if the answer of a route depends on
  it; so two executions of a route are compared, of which one uses other tokens: those in the store and the
  locks are renamed, and those minted on the way, too. Nothing that leaves the server may differ: no answer of a thread route or
  a run route, and no event of the observer.
\<close>

section \<open>Renaming tokens\<close>

text \<open>A renaming keeps different tokens apart; whether a token is empty the code asks.\<close>

definition renaming :: "(token \<Rightarrow> token) \<Rightarrow> bool" where
  "renaming \<rho> \<longleftrightarrow> inj \<rho> \<and> (\<forall>t. \<rho> t = [] \<longleftrightarrow> t = [])"

lemma renaming_eq [simp]: "renaming \<rho> \<Longrightarrow> \<rho> a = \<rho> b \<longleftrightarrow> a = b"
  by (auto simp: renaming_def inj_def)

lemma renaming_empty [simp]: "renaming \<rho> \<Longrightarrow> \<rho> t = [] \<longleftrightarrow> t = []"
  by (simp add: renaming_def)

lemma renaming_option [simp]: "renaming \<rho> \<Longrightarrow> map_option \<rho> a = Some (\<rho> b) \<longleftrightarrow> a = Some b"
  by (cases a) simp_all

definition rethread :: "(token \<Rightarrow> token) \<Rightarrow> thread \<Rightarrow> thread" where
  "rethread \<rho> t = t\<lparr>th_token := map_option \<rho> (th_token t)\<rparr>"

lemma rethread_fields [simp]:
  "th_id (rethread \<rho> t) = th_id t" "th_metadata (rethread \<rho> t) = th_metadata t" "th_status (rethread \<rho> t) = th_status t"
  "th_assistant (rethread \<rho> t) = th_assistant t" "th_token (rethread \<rho> t) = map_option \<rho> (th_token t)"
  "th_created (rethread \<rho> t) = th_created t" "thread_json time (rethread \<rho> t) = thread_json time t"
  by (simp_all add: rethread_def thread_json_def)

section \<open>The run routes\<close>

text \<open>
  The interface: \<open>pf' \<rho>\<close> is the platform that mints the renamed tokens, \<open>ren \<rho>\<close> the state with renamed tokens, and
  the operations on tokens go along with the renaming.
\<close>

locale renamed_platform =
  fixes pf :: "'s platform" and pf' :: "(token \<Rightarrow> token) \<Rightarrow> 's platform" and ren :: "(token \<Rightarrow> token) \<Rightarrow> 's \<Rightarrow> 's"
  assumes same: "pf' \<rho> = pf\<lparr>pf_acquire := pf_acquire (pf' \<rho>), pf_try := pf_try (pf' \<rho>)\<rparr>"
    and acquire_ren: "renaming \<rho> \<Longrightarrow> pf_acquire (pf' \<rho>) k (ren \<rho> x) = map_prod (map_sum id (map_option \<rho>)) (ren \<rho>) (pf_acquire pf k x)"
    and try_ren: "renaming \<rho> \<Longrightarrow> pf_try (pf' \<rho>) tid a (ren \<rho> x) = map_prod (map_sum id (map_option (rethread \<rho>))) (ren \<rho>) (pf_try pf tid a x)"
    and release_ren: "renaming \<rho> \<Longrightarrow> pf_release pf k (\<rho> t) (ren \<rho> x) = map_prod id (ren \<rho>) (pf_release pf k t x)"
    and get_ren: "renaming \<rho> \<Longrightarrow> pf_get pf tid (ren \<rho> x) = map_prod (map_sum id (map_option (rethread \<rho>))) (ren \<rho>) (pf_get pf tid x)"
    and update_ren: "renaming \<rho> \<Longrightarrow> pf_update pf tid p (ren \<rho> x) = map_prod (map_sum id (rethread \<rho>)) (ren \<rho>) (pf_update pf tid p x)"
    and free_ren: "renaming \<rho> \<Longrightarrow> pf_free pf tid st vals (Some (\<rho> t)) (ren \<rho> x) =
      map_prod (map_sum id (rethread \<rho>)) (ren \<rho>) (pf_free pf tid st vals (Some t) x)"
    and start_ren: "renaming \<rho> \<Longrightarrow> pf_start pf tid (\<rho> t) (ren \<rho> x) = map_prod id (ren \<rho>) (pf_start pf tid t x)"
    and stop_ren: "renaming \<rho> \<Longrightarrow> pf_stop pf (\<rho> t) (ren \<rho> x) = map_prod id (ren \<rho>) (pf_stop pf t x)"
    and observe_ren: "renaming \<rho> \<Longrightarrow> pf_observe pf ev (ren \<rho> x) = ren \<rho> (pf_observe pf ev x)"
    and authorize_ren: "renaming \<rho> \<Longrightarrow> pf_authorize pf = Some policy \<Longrightarrow> policy tid' req (ren \<rho> x) = map_prod id (ren \<rho>) (policy tid' req x)"

text \<open>
  Asked of the graphs and the guards: the code that they are does not look for the tokens of the server, which they are
  not given.
\<close>

definition token_blind :: "((token \<Rightarrow> token) \<Rightarrow> 's \<Rightarrow> 's) \<Rightarrow> (token \<Rightarrow> token) \<Rightarrow> 's platform \<Rightarrow> bool" where
  "token_blind ren \<rho> pf \<longleftrightarrow>
     (\<forall>og graph tid t. gp_provider (pf_guard pf) = Some og \<longrightarrow> og graph tid (\<rho> t) = og graph tid t) \<and>
     (\<forall>a x. gp_check (pf_guard pf) a (ren \<rho> x) = gp_check (pf_guard pf) a x) \<and>
     (\<forall>g input config context x. pf_invoke pf g input config context (ren \<rho> x) = map_prod id (ren \<rho>) (pf_invoke pf g input config context x)) \<and>
     (\<forall>g input config mode context n x. pf_stream pf g input config mode context n (ren \<rho> x) =
        map_prod id (ren \<rho>) (pf_stream pf g input config mode context n x))"

lemma guard_config_blind:
  assumes "renaming \<rho>" "\<forall>og graph tid t. provider = Some og \<longrightarrow> og graph tid (\<rho> t) = og graph tid t"
  shows "guard_run_config is_guard provider g tid (Some (\<rho> t)) config = guard_run_config is_guard provider g tid (Some t) config"
  using assms
  by (cases provider; cases tid) (simp_all add: guard_run_config_def ownership_guard_for_def)

context renamed_platform begin

lemma same_fields:
  "pf_deps (pf' \<rho>) = pf_deps pf" "pf_text (pf' \<rho>) = pf_text pf" "pf_validate (pf' \<rho>) = pf_validate pf"
  "pf_authorize (pf' \<rho>) = pf_authorize pf" "pf_release (pf' \<rho>) = pf_release pf" "pf_get (pf' \<rho>) = pf_get pf"
  "pf_update (pf' \<rho>) = pf_update pf" "pf_free (pf' \<rho>) = pf_free pf" "pf_start (pf' \<rho>) = pf_start pf"
  "pf_stop (pf' \<rho>) = pf_stop pf" "pf_observe (pf' \<rho>) = pf_observe pf" "pf_guard (pf' \<rho>) = pf_guard pf"
  "pf_encoder (pf' \<rho>) = pf_encoder pf" "pf_checkpointer (pf' \<rho>) = pf_checkpointer pf" "pf_streamable (pf' \<rho>) = pf_streamable pf"
  "pf_clone (pf' \<rho>) = pf_clone pf" "pf_invoke_context (pf' \<rho>) = pf_invoke_context pf"
  "pf_stream_context (pf' \<rho>) = pf_stream_context pf" "pf_invoke (pf' \<rho>) = pf_invoke pf" "pf_stream (pf' \<rho>) = pf_stream pf"
  "pf_fresh (pf' \<rho>) = pf_fresh pf"
  by (subst same, simp)+

lemmas renames [simp] = same_fields acquire_ren try_ren release_ren get_ren update_ren free_ren start_ren stop_ren observe_ren

lemma authorized_ren:
  assumes "renaming \<rho>" "\<And>y. body' (ren \<rho> y) = map_prod id (ren \<rho>) (body y)"
  shows "authorized (pf' \<rho>) tid req body' (ren \<rho> x) = map_prod id (ren \<rho>) (authorized pf tid req body x)"
proof (cases "pf_authorize pf")
  case (Some policy)
  note p = authorize_ren [OF assms(1) Some, of tid req x]
  obtain d y where d: "policy tid req x = (d, y)" by (rule prod.exhaust)
  with p assms(2) Some show ?thesis
    by (cases d) (simp_all add: authorized_def authorization_status_def)
qed (use assms(2) in \<open>simp add: authorized_def authorization_status_def\<close>)

lemma released_ren:
  "renaming \<rho> \<Longrightarrow> released (pf' \<rho>) k (\<rho> t) resp (ren \<rho> x) = map_prod id (ren \<rho>) (released pf k t resp x)"
  by (simp add: released_def split: prod.split option.split)

lemma take_run_locks_ren:
  "renaming \<rho> \<Longrightarrow> take_run_locks (pf' \<rho>) ctx run reg tid (ren \<rho> x) =
    map_prod (map_sum id (map_prod \<rho> \<rho>)) (ren \<rho>) (take_run_locks pf ctx run reg tid x)"
  by (simp add: take_run_locks_def released_ren Let_def split: prod.split sum.split option.split)

lemma release_thread_run_lock_ren:
  "renaming \<rho> \<Longrightarrow> release_thread_run_lock (pf' \<rho>) tid k (\<rho> t) status vals (\<rho> st) (ren \<rho> x) =
    map_prod id (ren \<rho>) (release_thread_run_lock pf tid k t status vals st x)"
  by (simp add: release_thread_run_lock_def split: prod.split sum.split)

lemma blindD:
  assumes "token_blind ren \<rho> pf"
  shows "\<forall>og graph tid t. gp_provider (pf_guard pf) = Some og \<longrightarrow> og graph tid (\<rho> t) = og graph tid t"
    "gp_check (pf_guard pf) a (ren \<rho> x) = gp_check (pf_guard pf) a x"
    "pf_invoke pf g input config context (ren \<rho> x) = map_prod id (ren \<rho>) (pf_invoke pf g input config context x)"
    "pf_stream pf g input config mode context n (ren \<rho> x) = map_prod id (ren \<rho>) (pf_stream pf g input config mode context n x)"
  using assms by (simp_all add: token_blind_def)

lemma prepare_run_ren:
  assumes "renaming \<rho>" "token_blind ren \<rho> pf"
  shows "prepare_run (pf' \<rho>) run reg tid (rethread \<rho> th) (\<rho> t) (\<rho> st) (ren \<rho> x) =
    map_prod id (ren \<rho>) (prepare_run pf run reg tid th t st x)"
  using assms(1)
  by (simp add: prepare_run_def guard_config_blind [OF assms(1) blindD(1) [OF assms(2)]] Let_def split: prod.split sum.split)

lemma guarded_ren: "token_blind ren \<rho> pf \<Longrightarrow> guarded (pf' \<rho>) guard (ren \<rho> x) = guarded pf guard x"
  by (simp add: guarded_def blindD(2) check_ownership_guard_def split: option.split)

lemma wait_body_ren:
  assumes "renaming \<rho>" "token_blind ren \<rho> pf"
  shows "wait_body (pf' \<rho>) ctx run reg tid (rethread \<rho> th) context (\<rho> t) (\<rho> st) (ren \<rho> x) =
    map_prod id (ren \<rho>) (wait_body pf ctx run reg tid th context t st x)"
  using assms by (simp add: wait_body_def prepare_run_ren guarded_ren blindD(3) split: prod.split sum.split option.split)

lemma finish_wait_ren:
  "renaming \<rho> \<Longrightarrow> finish_wait (pf' \<rho>) ctx reg tid (\<rho> t) (\<rho> st) result (ren \<rho> x) =
    map_prod id (ren \<rho>) (finish_wait pf ctx reg tid t st result x)"
  by (simp add: finish_wait_def release_thread_run_lock_ren Let_def split: prod.split sum.split option.split)

lemma locked_wait_ren:
  assumes "renaming \<rho>" "token_blind ren \<rho> pf"
  shows "locked_wait (pf' \<rho>) ctx run reg tid (rethread \<rho> th) context (ren \<rho> x) =
    map_prod id (ren \<rho>) (locked_wait pf ctx run reg tid th context x)"
  using assms by (simp add: locked_wait_def take_run_locks_ren wait_body_ren finish_wait_ren Let_def split: prod.split sum.split)

lemma platform_context_ren: "platform_context (pf' \<rho>) = platform_context pf"
  by (simp add: platform_context_def fun_eq_iff)

lemma with_thread_run_ren:
  assumes "renaming \<rho>" "\<And>tid run th y. body' tid run (rethread \<rho> th) (ren \<rho> y) = map_prod id (ren \<rho>) (body tid run th y)"
  shows "with_thread_run (pf' \<rho>) req body' (ren \<rho> x) = map_prod id (ren \<rho>) (with_thread_run pf req body x)"
  unfolding with_thread_run_def Let_def
  by (rule authorized_ren [OF assms(1)]) (simp add: assms split: prod.split sum.split option.split)

lemma runs_wait_ren:
  assumes "renaming \<rho>" "token_blind ren \<rho> pf"
  shows "runs_wait (pf' \<rho>) req (ren \<rho> x) = map_prod id (ren \<rho>) (runs_wait pf req x)"
  unfolding runs_wait_def
  by (rule with_thread_run_ren [OF assms(1)]) (simp add: locked_wait_ren [OF assms] platform_context_ren split: sum.split)

lemma stream_loop_ren:
  assumes "\<And>n y. gen n (ren \<rho> y) = map_prod id (ren \<rho>) (gen n y)"
  shows "stream_loop en mode max_bytes gen fuel n chunks buffered (ren \<rho> x) =
    map_prod id (map_prod id (ren \<rho>)) (stream_loop en mode max_bytes gen fuel n chunks buffered x)"
proof (induction en mode max_bytes gen\<equiv>gen fuel n chunks buffered x rule: stream_loop.induct)
  case (2 en mode max_bytes fuel n chunks buffered x)
  obtain p y where p: "gen n x = (p, y)" by (rule prod.exhaust)
  show ?case
  proof (cases p)
    case (Yield v)
    show ?thesis
    proof (cases "format_data_event en (mode_text mode) v")
      case (Inr chunk)
      obtain b cs where c: "check_stream_overflow chunks buffered (byte_size chunk) max_bytes = (b, cs)" by (rule prod.exhaust)
      with 2 [OF p [symmetric] Yield Inr c [symmetric]] show ?thesis
        using p Yield Inr by (cases b) (simp_all add: assms)
    qed (use p Yield in \<open>simp add: assms\<close>)
  qed (use p in \<open>simp_all add: assms\<close>)
qed simp

lemma stream_items_ren:
  assumes "\<And>n y. gen n (ren \<rho> y) = map_prod id (ren \<rho>) (gen n y)"
  shows "stream_items en mode max_bytes gen run_id (ren \<rho> x) =
    map_prod id (map_prod id (ren \<rho>)) (stream_items en mode max_bytes gen run_id x)"
  by (simp add: stream_items_def stream_loop_ren [where gen = gen and \<rho> = \<rho>, OF assms] Let_def del: stream_loop.simps split: prod.split bool.split)

lemma stream_body_ren:
  assumes "renaming \<rho>" "token_blind ren \<rho> pf"
  shows "stream_body (pf' \<rho>) ctx run reg tid (rethread \<rho> th) mode context (\<rho> t) (\<rho> st) (ren \<rho> x) =
    map_prod id (map_prod id (ren \<rho>)) (stream_body pf ctx run reg tid th mode context t st x)"
  using assms
  by (simp add: stream_body_def prepare_run_ren guarded_ren stream_items_ren blindD(4)
      split: prod.split sum.split option.split stream_end.split)

lemma finish_stream_ren:
  "renaming \<rho> \<Longrightarrow> finish_stream (pf' \<rho>) ctx reg tid (\<rho> t) (\<rho> st) result chunks (ren \<rho> x) =
    map_prod id (ren \<rho>) (finish_stream pf ctx reg tid t st result chunks x)"
  by (simp add: finish_stream_def release_thread_run_lock_ren Let_def split: prod.split option.split stream_end.split)

lemma locked_stream_ren:
  assumes "renaming \<rho>" "token_blind ren \<rho> pf"
  shows "locked_stream (pf' \<rho>) ctx run reg tid (rethread \<rho> th) mode context (ren \<rho> x) =
    map_prod id (ren \<rho>) (locked_stream pf ctx run reg tid th mode context x)"
  using assms by (simp add: locked_stream_def take_run_locks_ren stream_body_ren finish_stream_ren Let_def split: prod.split sum.split)

lemma runs_stream_ren:
  assumes "renaming \<rho>" "token_blind ren \<rho> pf"
  shows "runs_stream (pf' \<rho>) req (ren \<rho> x) = map_prod id (ren \<rho>) (runs_stream pf req x)"
  unfolding runs_stream_def
  by (rule with_thread_run_ren [OF assms(1)]) (simp add: locked_stream_ren [OF assms] platform_context_ren split: sum.split)

lemma threadless_ren:
  assumes "renaming \<rho>" "token_blind ren \<rho> pf"
  shows "threadless_wait (pf' \<rho>) ctx run g config context (ren \<rho> x) =
      map_prod id (ren \<rho>) (threadless_wait pf ctx run g config context x)"
    "threadless_stream (pf' \<rho>) ctx run g config mode context (ren \<rho> x) =
      map_prod id (ren \<rho>) (threadless_stream pf ctx run g config mode context x)"
  using assms
  by (simp_all add: threadless_wait_def threadless_stream_def stream_items_ren blindD(3,4) Let_def
      split: prod.split sum.split stream_end.split)

lemma with_threadless_run_ren:
  assumes "renaming \<rho>" "\<And>run y. body' run (ren \<rho> y) = map_prod id (ren \<rho>) (body run y)"
  shows "with_threadless_run (pf' \<rho>) req body' (ren \<rho> x) = map_prod id (ren \<rho>) (with_threadless_run pf req body x)"
  unfolding with_threadless_run_def
  by (rule authorized_ren [OF assms(1)]) (simp add: assms split: sum.split)

lemma runs_threadless_ren:
  assumes "renaming \<rho>" "token_blind ren \<rho> pf"
  shows "runs_wait_threadless (pf' \<rho>) req (ren \<rho> x) = map_prod id (ren \<rho>) (runs_wait_threadless pf req x)"
    "runs_stream_threadless (pf' \<rho>) req (ren \<rho> x) = map_prod id (ren \<rho>) (runs_stream_threadless pf req x)"
  unfolding runs_wait_threadless_def runs_stream_threadless_def
  by (rule with_threadless_run_ren [OF assms(1)];
      simp add: threadless_ren [OF assms] platform_context_ren threadless_graph_def split: sum.split option.split)+

end

section \<open>The tokens of one process\<close>

definition rename_lock :: "(token \<Rightarrow> token) \<Rightarrow> inproc \<Rightarrow> inproc" where
  "rename_lock \<rho> l = l\<lparr>ip_heap := (\<lambda>a. (ip_heap l a)\<lparr>ks_token := map_option \<rho> (ks_token (ip_heap l a))\<rparr>)\<rparr>"

definition rename_store :: "(token \<Rightarrow> token) \<Rightarrow> store \<Rightarrow> store" where
  "rename_store \<rho> = map (\<lambda>(k, t). (k, rethread \<rho> t))"

definition rename_renewals :: "(token \<Rightarrow> token) \<Rightarrow> renewals \<Rightarrow> renewals" where
  "rename_renewals \<rho> = map (\<lambda>(t, ws). (\<rho> t, ws))"

definition rename_tokens :: "(token \<Rightarrow> token) \<Rightarrow> world \<Rightarrow> world" where
  "rename_tokens \<rho> w =
     w\<lparr>w_lock := rename_lock \<rho> (w_lock w), w_store := rename_store \<rho> (w_store w), w_renewals := rename_renewals \<rho> (w_renewals w)\<rparr>"

text \<open>The same platform, on which \<open>secrets.token_hex\<close> returns other tokens.\<close>

definition minted_platform ::
    "(token \<Rightarrow> token) \<Rightarrow> (string option \<Rightarrow> http_request \<Rightarrow> exn + bool) option \<Rightarrow> world platform \<Rightarrow> world platform" where
  "minted_platform \<rho> policy pf =
     (memory_platform policy pf)
       \<lparr>pf_acquire := (\<lambda>k w. let (r, l) = ip_acquire k (\<rho> (fresh_token (w_fresh w))) (w_lock w) in
          (map_sum lock_exn id r, w\<lparr>w_lock := l, w_fresh := Suc (w_fresh w)\<rparr>)),
        pf_try := (\<lambda>tid a w. on_store (pf_text pf) (store_try_acquire tid a (\<rho> (fresh_token (w_fresh w))))
          (w\<lparr>w_fresh := Suc (w_fresh w)\<rparr>))\<rparr>"

lemma rename_fields [simp]:
  "w_lock (rename_tokens \<rho> w) = rename_lock \<rho> (w_lock w)" "w_store (rename_tokens \<rho> w) = rename_store \<rho> (w_store w)"
  "w_renewals (rename_tokens \<rho> w) = rename_renewals \<rho> (w_renewals w)" "w_events (rename_tokens \<rho> w) = w_events w"
  "w_clock (rename_tokens \<rho> w) = w_clock w" "w_fresh (rename_tokens \<rho> w) = w_fresh w"
  by (simp_all add: rename_tokens_def)

text \<open>The stores of the process go along with a renaming.\<close>

lemma rename_store_lookup [simp]: "map_of (rename_store \<rho> s) k = map_option (rethread \<rho>) (map_of s k)"
  by (induction s) (auto simp: rename_store_def)

lemma rename_store_update [simp]: "AList.update k (rethread \<rho> t) (rename_store \<rho> s) = rename_store \<rho> (AList.update k t s)"
  by (induction s) (auto simp: rename_store_def)

lemma rename_store_delete [simp]: "AList.delete k (rename_store \<rho> s) = rename_store \<rho> (AList.delete k s)"
  by (induction s) (auto simp: rename_store_def)

lemma rename_renewals_simps [simp]:
  assumes "renaming \<rho>"
  shows "map_of (rename_renewals \<rho> rs) (\<rho> t) = map_of rs t"
    "AList.update (\<rho> t) ws (rename_renewals \<rho> rs) = rename_renewals \<rho> (AList.update t ws rs)"
    "AList.delete (\<rho> t) (rename_renewals \<rho> rs) = rename_renewals \<rho> (AList.delete t rs)"
  using assms by (induction rs) (auto simp: rename_renewals_def)

lemma rename_heap [simp]:
  "ip_states (rename_lock \<rho> l) = ip_states l" "ip_next (rename_lock \<rho> l) = ip_next l"
  "ip_heap (rename_lock \<rho> l) a = (ip_heap l a)\<lparr>ks_token := map_option \<rho> (ks_token (ip_heap l a))\<rparr>"
  by (simp_all add: rename_lock_def)

lemma ip_acquire_ren:
  "ip_acquire k (\<rho> t) (rename_lock \<rho> l) = map_prod (map_sum id (map_option \<rho>)) (rename_lock \<rho>) (ip_acquire k t l)"
  by (auto simp: ip_defs Let_def rename_lock_def fun_eq_iff split: option.split)

lemma ip_release_ren:
  "renaming \<rho> \<Longrightarrow> ip_release k (\<rho> t) (rename_lock \<rho> l) = rename_lock \<rho> (ip_release k t l)"
  by (auto simp: ip_release_def maybe_gc_def upd_state_def rename_lock_def fun_eq_iff split: option.split)

lemma rethread_ops:
  "rethread \<rho> (patch_thread p now t) = patch_thread p now (rethread \<rho> t)"
  "rethread \<rho> (lock_thread a tok now t) = lock_thread a (\<rho> tok) now (rethread \<rho> t)"
  "rethread \<rho> (unlock_thread st vals now t) = unlock_thread st vals now (rethread \<rho> t)"
  "rethread \<rho> (new_thread tid now md) = new_thread tid now md"
  by (simp_all add: rethread_def patch_thread_def lock_thread_def unlock_thread_def new_thread_def)

lemma bound_rethread [simp]: "bound_to_other (rethread \<rho> t) a = bound_to_other t a"
  by (simp add: bound_to_other_def)

lemma store_ops_ren:
  "store_update tid p now (rename_store \<rho> s) = map_sum id (map_prod (rethread \<rho>) (rename_store \<rho>)) (store_update tid p now s)"
  "store_try_acquire tid a (\<rho> t) now (rename_store \<rho> s) =
    map_sum id (map_prod (map_option (rethread \<rho>)) (rename_store \<rho>)) (store_try_acquire tid a t now s)"
  "renaming \<rho> \<Longrightarrow> store_release tid st vals (Some (\<rho> t)) now (rename_store \<rho> s) =
    map_sum id (map_prod (rethread \<rho>) (rename_store \<rho>)) (store_release tid st vals (Some t) now s)"
  "store_create tid now md (rename_store \<rho> s) = map_sum id (map_prod (rethread \<rho>) (rename_store \<rho>)) (store_create tid now md s)"
  "store_delete tid (rename_store \<rho> s) = map_sum id (rename_store \<rho>) (store_delete tid s)"
  by (simp_all add: store_update_def store_try_acquire_def store_release_def store_create_def store_delete_def Let_def
      rethread_ops(1-3) [symmetric] rename_store_update [of _ \<rho> "new_thread _ _ _", unfolded rethread_ops(4)]
      rethread_ops(4) split: option.split)

lemma filtered_ren: "filtered_threads md st (rename_store \<rho> s) = map (rethread \<rho>) (filtered_threads md st s)"
  by (cases st; induction s) (auto simp: filtered_threads_def rename_store_def)

lemma newest_first_ren: "newest_first (map (rethread \<rho>) ts) = map (rethread \<rho>) (newest_first ts)"
  unfolding newest_first_def by (rule sort_map) simp

lemma store_search_ren:
  "store_search md st limit offset (rename_store \<rho> s) = map_sum id (map (rethread \<rho>)) (store_search md st limit offset s)"
  by (simp add: store_search_def filtered_ren newest_first_ren take_map drop_map)

lemma on_store_ren:
  assumes "f' (w_clock w) (rename_store \<rho> (w_store w)) = map_sum id (map_prod h (rename_store \<rho>)) (f (w_clock w) (w_store w))"
  shows "on_store txt f' (rename_tokens \<rho> w) = map_prod (map_sum id h) (rename_tokens \<rho>) (on_store txt f w)"
  using assms by (simp add: on_store_def rename_tokens_def split: sum.split prod.split)

lemma renamed_clock: "rename_tokens \<rho> (w\<lparr>w_fresh := n\<rparr>) = (rename_tokens \<rho> w)\<lparr>w_fresh := n\<rparr>"
  by (simp add: rename_tokens_def)

interpretation renamed_memory: renamed_platform "memory_platform policy pf" "\<lambda>\<rho>. minted_platform \<rho> policy pf" rename_tokens
  for policy and pf :: "world platform"
proof (unfold_locales, goal_cases)
  case (1 \<rho>)
  show ?case by (simp add: minted_platform_def)
next
  case (2 \<rho> k x)
  show ?case
    by (simp add: minted_platform_def memory_platform_def ip_acquire_ren rename_tokens_def sum.map_comp split: prod.split)
next
  case (3 \<rho> tid a x)
  show ?case
    by (simp add: minted_platform_def memory_platform_def renamed_clock [symmetric])
      (rule on_store_ren, simp add: store_ops_ren)
next
  case (4 \<rho> k t x)
  then show ?case by (simp add: memory_platform_def ip_release_ren rename_tokens_def)
next
  case (6 \<rho> tid p x)
  show ?case by (simp add: memory_platform_def) (rule on_store_ren, simp add: store_ops_ren)
next
  case (7 \<rho> tid st vals t x)
  then show ?case by (simp add: memory_platform_def) (rule on_store_ren, simp add: store_ops_ren)
next
  case (8 \<rho> tid t x)
  then show ?case by (simp add: memory_platform_def start_store_renewal_def rename_tokens_def Let_def)
next
  case (9 \<rho> t x)
  then show ?case
    by (simp add: memory_platform_def stop_store_renewal_def rename_tokens_def split: option.split prod.split)
next
  case (11 \<rho> policy' tid' req x)
  then show ?case by (auto simp: memory_platform_def)
qed (simp_all add: memory_platform_def store_get_def rename_tokens_def)

section \<open>The thread routes\<close>

locale renamed_threads = renamed_platform pf pf' ren
  for pf :: "'s platform" and pf' :: "(token \<Rightarrow> token) \<Rightarrow> 's platform" and ren :: "(token \<Rightarrow> token) \<Rightarrow> 's \<Rightarrow> 's" +
  fixes ta :: "'s thread_api" and ta' :: "(token \<Rightarrow> token) \<Rightarrow> 's thread_api"
  assumes platform: "ta_platform ta = pf" "ta' \<rho> = ta\<lparr>ta_platform := pf' \<rho>\<rparr>"
    and create_ren: "renaming \<rho> \<Longrightarrow> ta_create ta md (ren \<rho> x) = map_prod (map_sum id (rethread \<rho>)) (ren \<rho>) (ta_create ta md x)"
    and delete_ren: "renaming \<rho> \<Longrightarrow> ta_delete ta tid (ren \<rho> x) = map_prod id (ren \<rho>) (ta_delete ta tid x)"
    and search_ren: "renaming \<rho> \<Longrightarrow> ta_search ta md st limit offset (ren \<rho> x) =
      map_prod (map_sum id (map (rethread \<rho>))) (ren \<rho>) (ta_search ta md st limit offset x)"
    and count_ren: "renaming \<rho> \<Longrightarrow> ta_count ta md st (ren \<rho> x) = map_prod id (ren \<rho>) (ta_count ta md st x)"
    and policy_ren: "renaming \<rho> \<Longrightarrow> ta_policy ta = Some policy \<Longrightarrow>
      policy action tid' req (ren \<rho> x) = map_prod id (ren \<rho>) (policy action tid' req x)"

definition threads_blind :: "((token \<Rightarrow> token) \<Rightarrow> 's \<Rightarrow> 's) \<Rightarrow> (token \<Rightarrow> token) \<Rightarrow> 's thread_api \<Rightarrow> bool" where
  "threads_blind ren \<rho> ta \<longleftrightarrow>
     token_blind ren \<rho> (ta_platform ta) \<and>
     (\<forall>g config x. ta_get_state ta g config (ren \<rho> x) = map_prod id (ren \<rho>) (ta_get_state ta g config x)) \<and>
     (\<forall>g config v node x. ta_update_state ta g config v node (ren \<rho> x) = map_prod id (ren \<rho>) (ta_update_state ta g config v node x)) \<and>
     (\<forall>g config x. ta_get_history ta g config (ren \<rho> x) = map_prod id (ren \<rho>) (ta_get_history ta g config x))"

context renamed_threads begin

lemma same_api:
  "ta_platform (ta' \<rho>) = pf' \<rho>" "ta_policy (ta' \<rho>) = ta_policy ta" "ta_create (ta' \<rho>) = ta_create ta"
  "ta_delete (ta' \<rho>) = ta_delete ta" "ta_search (ta' \<rho>) = ta_search ta" "ta_count (ta' \<rho>) = ta_count ta"
  "ta_valid_metadata (ta' \<rho>) = ta_valid_metadata ta" "ta_valid_search (ta' \<rho>) = ta_valid_search ta"
  "ta_valid_count (ta' \<rho>) = ta_valid_count ta" "ta_valid_update (ta' \<rho>) = ta_valid_update ta"
  "ta_valid_history (ta' \<rho>) = ta_valid_history ta" "ta_time (ta' \<rho>) = ta_time ta" "ta_stateful (ta' \<rho>) = ta_stateful ta"
  "ta_updatable (ta' \<rho>) = ta_updatable ta" "ta_historic (ta' \<rho>) = ta_historic ta" "ta_get_state (ta' \<rho>) = ta_get_state ta"
  "ta_update_state (ta' \<rho>) = ta_update_state ta" "ta_get_history (ta' \<rho>) = ta_get_history ta"
  by (simp_all add: platform)

lemmas api [simp] = same_api platform(1) create_ren delete_ren search_ren count_ren

lemma parse_ren: "parse_model (ta' \<rho>) = parse_model ta" "missing_thread (ta' \<rho>) = missing_thread ta"
  by (simp_all add: parse_model_def missing_thread_def fun_eq_iff)

lemma structure_ren: "structure_refusal (ta' \<rho>) = structure_refusal ta"
  by (simp add: structure_refusal_def fun_eq_iff)

lemma permitted_ren:
  assumes "renaming \<rho>" "\<And>y. body' (ren \<rho> y) = map_prod id (ren \<rho>) (body y)"
  shows "permitted (ta' \<rho>) action tid req body' (ren \<rho> x) = map_prod id (ren \<rho>) (permitted ta action tid req body x)"
proof (cases "ta_policy ta")
  case (Some policy)
  note p = policy_ren [OF assms(1) Some, of action tid req x]
  obtain d y where d: "policy action tid req x = (d, y)" by (rule prod.exhaust)
  with p assms(2) Some show ?thesis
    by (cases d) (simp_all add: permitted_def authorization_status_def)
qed (use assms(2) in \<open>simp add: permitted_def authorization_status_def\<close>)

lemma on_thread_ren:
  assumes "renaming \<rho>" "\<And>tid y. body' tid (ren \<rho> y) = map_prod id (ren \<rho>) (body tid y)"
  shows "on_thread (ta' \<rho>) action req body' (ren \<rho> x) = map_prod id (ren \<rho>) (on_thread ta action req body x)"
  unfolding on_thread_def Let_def by (rule permitted_ren [OF assms(1)]) (simp add: assms split: option.split)

lemma bound_graph_ren:
  assumes "renaming \<rho>" "\<And>g y. body' g (ren \<rho> y) = map_prod id (ren \<rho>) (body g y)"
  shows "bound_graph (ta' \<rho>) supports capability tid body' (ren \<rho> x) = map_prod id (ren \<rho>) (bound_graph ta supports capability tid body x)"
proof -
  have "resolve_thread_graph (pf_text pf) (pf_deps pf) supports capability tid (map_option (rethread \<rho>) th) =
      resolve_thread_graph (pf_text pf) (pf_deps pf) supports capability tid th" for th
    by (cases th) (simp_all add: resolve_thread_graph_def)
  with assms show ?thesis by (simp add: bound_graph_def split: prod.split sum.split)
qed

lemma record_routes_ren:
  assumes "renaming \<rho>"
  shows "threads_create (ta' \<rho>) req (ren \<rho> x) = map_prod id (ren \<rho>) (threads_create ta req x)"
    "threads_get (ta' \<rho>) req (ren \<rho> x) = map_prod id (ren \<rho>) (threads_get ta req x)"
    "threads_update (ta' \<rho>) req (ren \<rho> x) = map_prod id (ren \<rho>) (threads_update ta req x)"
    "threads_delete (ta' \<rho>) req (ren \<rho> x) = map_prod id (ren \<rho>) (threads_delete ta req x)"
    "threads_search (ta' \<rho>) req (ren \<rho> x) = map_prod id (ren \<rho>) (threads_search ta req x)"
    "threads_count (ta' \<rho>) req (ren \<rho> x) = map_prod id (ren \<rho>) (threads_count ta req x)"
proof -
  have told: "thread_answer (ta' \<rho>) (map_prod (map_sum id (rethread \<rho>)) (ren \<rho>) p) = map_prod id (ren \<rho>) (thread_answer ta p)" for p
    by (cases p; cases "fst p") (simp_all add: thread_answer_def)
  have found: "or_missing (ta' \<rho>) tid (map_prod id (ren \<rho>) p) = map_prod id (ren \<rho>) (or_missing ta tid p)" for tid p
    by (cases p; cases "fst p") (simp_all add: or_missing_def parse_ren)
  show "threads_create (ta' \<rho>) req (ren \<rho> x) = map_prod id (ren \<rho>) (threads_create ta req x)"
    unfolding threads_create_def
    by (rule permitted_ren [OF assms]) (simp add: assms parse_ren told split: sum.split)
  have same_thread: "thread_answer (ta' \<rho>) (Inr (rethread \<rho> t), ren \<rho> y) = map_prod id (ren \<rho>) (thread_answer ta (Inr t, y))" for t y
    using told [of "(Inr t, y)"] by simp
  show "threads_get (ta' \<rho>) req (ren \<rho> x) = map_prod id (ren \<rho>) (threads_get ta req x)"
    unfolding threads_get_def
    by (rule on_thread_ren [OF assms]) (simp add: assms parse_ren same_thread split: prod.split sum.split option.split)
  show "threads_update (ta' \<rho>) req (ren \<rho> x) = map_prod id (ren \<rho>) (threads_update ta req x)"
    unfolding threads_update_def
    by (rule on_thread_ren [OF assms]) (simp add: assms parse_ren same_thread told found split: prod.split sum.split option.split)
  show "threads_delete (ta' \<rho>) req (ren \<rho> x) = map_prod id (ren \<rho>) (threads_delete ta req x)"
    unfolding threads_delete_def
    by (rule on_thread_ren [OF assms]) (simp add: assms prod.map_comp comp_def found [symmetric])
  have listed: "bind_res (map_sum id (map (rethread \<rho>)) r) (\<lambda>ts. answer (PList (map (thread_json (ta_time ta)) ts))) =
      bind_res r (\<lambda>ts. answer (PList (map (thread_json (ta_time ta)) ts)))" for r
    by (cases r) (simp_all add: comp_def)
  show "threads_search (ta' \<rho>) req (ren \<rho> x) = map_prod id (ren \<rho>) (threads_search ta req x)"
    unfolding threads_search_def
    by (rule permitted_ren [OF assms]) (simp add: assms parse_ren listed prod.map_comp comp_def split: sum.split option.split prod.split)
  show "threads_count (ta' \<rho>) req (ren \<rho> x) = map_prod id (ren \<rho>) (threads_count ta req x)"
    unfolding threads_count_def
    by (rule permitted_ren [OF assms]) (simp add: assms parse_ren prod.map_comp comp_def split: sum.split prod.split)
qed

lemma state_get_ren:
  assumes "renaming \<rho>" "threads_blind ren \<rho> ta"
  shows "threads_state_get (ta' \<rho>) req (ren \<rho> x) = map_prod id (ren \<rho>) (threads_state_get ta req x)"
proof -
  have "ta_get_state ta g config (ren \<rho> y) = map_prod id (ren \<rho>) (ta_get_state ta g config y)" for g config y
    using assms(2) by (simp add: threads_blind_def)
  then show ?thesis
    unfolding threads_state_get_def api
    by (intro on_thread_ren [OF assms(1)] bound_graph_ren [OF assms(1)]) (simp split: prod.split sum.split)
qed

lemma history_ren:
  assumes "renaming \<rho>" "threads_blind ren \<rho> ta"
  shows "threads_history (ta' \<rho>) req (ren \<rho> x) = map_prod id (ren \<rho>) (threads_history ta req x)"
proof -
  have history: "ta_get_history ta g config (ren \<rho> y) = map_prod id (ren \<rho>) (ta_get_history ta g config y)" for g config y
    using assms(2) by (simp add: threads_blind_def)
  have bound: "bound_graph (ta' \<rho>) (ta_historic ta) capability tid
      (\<lambda>g x. case build_checkpoint_config (pf_text pf) tid (hq_checkpoint hq) None of
         Inl r \<Rightarrow> (Inr r, x)
       | Inr config \<Rightarrow>
           (case ta_get_history ta g config x of
              (Inl e, x1) \<Rightarrow> (history_failed e, x1)
            | (Inr h, x1) \<Rightarrow> (history_answer (pf_text pf) tid hq h, x1))) (ren \<rho> y) =
    map_prod id (ren \<rho>) (bound_graph ta (ta_historic ta) capability tid
      (\<lambda>g x. case build_checkpoint_config (pf_text pf) tid (hq_checkpoint hq) None of
         Inl r \<Rightarrow> (Inr r, x)
       | Inr config \<Rightarrow>
           (case ta_get_history ta g config x of
              (Inl e, x1) \<Rightarrow> (history_failed e, x1)
            | (Inr h, x1) \<Rightarrow> (history_answer (pf_text pf) tid hq h, x1))) y)" for capability tid hq y
    by (rule bound_graph_ren [OF assms(1)]) (simp add: history split: prod.split sum.split)
  show ?thesis
    unfolding threads_history_def Let_def api same_fields parse_ren structure_ren
    by (rule on_thread_ren [OF assms(1)]) (simp add: bound split: sum.split option.split)
qed

lemma take_state_locks_ren:
  "renaming \<rho> \<Longrightarrow> take_state_locks (pf' \<rho>) k tid (ren \<rho> x) =
    map_prod (map_sum id (map_prod \<rho> \<rho>)) (ren \<rho>) (take_state_locks pf k tid x)"
  by (simp add: take_state_locks_def released_ren Let_def split: prod.split sum.split option.split)

lemma release_thread_state_lock_ren:
  "renaming \<rho> \<Longrightarrow> release_thread_state_lock (pf' \<rho>) tid k (\<rho> t) status (\<rho> st) (ren \<rho> x) =
    map_prod id (ren \<rho>) (release_thread_state_lock pf tid k t status st x)"
  by (simp add: release_thread_state_lock_def Let_def split: prod.split sum.split)

lemma locked_update_ren:
  assumes "renaming \<rho>" "threads_blind ren \<rho> ta"
  shows "locked_update (ta' \<rho>) g k config su prior (ren \<rho> x) = map_prod id (ren \<rho>) (locked_update ta g k config su prior x)"
proof -
  have blind: "token_blind ren \<rho> pf"
    and update: "ta_update_state ta g config v node (ren \<rho> y) = map_prod id (ren \<rho>) (ta_update_state ta g config v node y)" for g config v node y
    using assms(2) by (simp_all add: threads_blind_def)
  have written: "write_state (ta' \<rho>) g k (\<rho> t) config su (ren \<rho> y) = map_prod id (ren \<rho>) (write_state ta g k t config su y)" for t y
    by (simp add: write_state_def guard_config_blind [OF assms(1) blindD(1) [OF blind]] update Let_def split: sum.split prod.split)
  have finish: "finish_state (ta' \<rho>) k (\<rho> t) (\<rho> st) prior result (ren \<rho> y) = map_prod id (ren \<rho>) (finish_state ta k t st prior result y)"
    for t st result y
    using assms(1)
    by (simp add: finish_state_def release_thread_state_lock_ren Let_def split: sum.split prod.split option.split)
  show ?thesis
    using assms(1) by (simp add: locked_update_def take_state_locks_ren written finish Let_def split: prod.split sum.split)
qed

lemma state_update_ren:
  assumes "renaming \<rho>" "threads_blind ren \<rho> ta"
  shows "threads_state_update (ta' \<rho>) req (ren \<rho> x) = map_prod id (ren \<rho>) (threads_state_update ta req x)"
proof -
  have "update_bound (ta' \<rho>) tid su g (ren \<rho> y) = map_prod id (ren \<rho>) (update_bound ta tid su g y)" for tid su g y
    using assms(1)
    by (simp add: update_bound_def locked_update_ren [OF assms] parse_ren Let_def split: prod.split sum.split option.split)
  then have "update_values (ta' \<rho>) tid su (ren \<rho> y) = map_prod id (ren \<rho>) (update_values ta tid su y)" for tid su y
    by (simp add: update_values_def structure_ren bound_graph_ren [OF assms(1)] split: option.split)
  then show ?thesis
    unfolding threads_state_update_def api parse_ren
    by (intro on_thread_ren [OF assms(1)]) (simp split: sum.split)
qed

lemma serve_ren:
  assumes "renaming \<rho>" "threads_blind ren \<rho> ta"
  shows "serve (ta' \<rho>) r req (ren \<rho> x) = map_prod id (ren \<rho>) (serve ta r req x)"
  by (cases r) (simp_all add: record_routes_ren [OF assms(1)] state_get_ren [OF assms] history_ren [OF assms] state_update_ren [OF assms])

end

section \<open>No answer tells a token\<close>

definition minted_threads ::
    "(token \<Rightarrow> token) \<Rightarrow> (auth_action \<Rightarrow> string option \<Rightarrow> http_request \<Rightarrow> exn + bool) option \<Rightarrow>
     world thread_api \<Rightarrow> world thread_api" where
  "minted_threads \<rho> policy ta = (memory_threads policy ta)\<lparr>ta_platform := minted_platform \<rho> None (ta_platform ta)\<rparr>"

interpretation renamed_routes: renamed_threads "memory_platform None (ta_platform ta)" "\<lambda>\<rho>. minted_platform \<rho> None (ta_platform ta)"
    rename_tokens "memory_threads policy ta" "\<lambda>\<rho>. minted_threads \<rho> policy ta"
  for policy and ta :: "world thread_api"
proof (unfold_locales, goal_cases)
  case (3 \<rho> md x)
  show ?case by (simp add: renamed_clock [symmetric]) (rule on_store_ren, simp add: store_ops_ren)
next
  case (4 \<rho> tid x)
  have "on_store tx (\<lambda>_ s. map_sum id (Pair ()) (store_delete tid s)) (rename_tokens \<rho> x) =
      map_prod (map_sum id id) (rename_tokens \<rho>) (on_store tx (\<lambda>_ s. map_sum id (Pair ()) (store_delete tid s)) x)" for tx
    by (rule on_store_ren) (simp add: store_ops_ren sum.map_comp comp_def)
  then show ?case by (simp add: sum.map_id0)
next
  case (5 \<rho> md st limit offset x)
  show ?case by simp (rule on_store_ren, simp add: store_search_ren sum.map_comp comp_def)
next
  case (6 \<rho> md st x)
  show ?case by (simp add: store_count_def filtered_ren)
next
  case (7 \<rho> policy' action tid' req x)
  then show ?case by auto
qed (simp_all add: minted_threads_def)

lemma memory_blind:
  "threads_blind rename_tokens \<rho> ta \<Longrightarrow> threads_blind rename_tokens \<rho> (memory_threads policy ta)"
  "threads_blind rename_tokens \<rho> ta \<Longrightarrow> token_blind rename_tokens \<rho> (memory_platform policy' (ta_platform ta))"
  by (simp_all add: threads_blind_def token_blind_def memory_threads_def memory_platform_def Let_def)

text \<open>
  C21: No answer and no event tells a token: under any renaming of the tokens that the server holds and of those that it mints
  meanwhile, all nine routes on threads and all four routes for runs answer the same, errors and streams included,
  and the observer hears the same, if the graphs and guards do not look for the tokens themselves. The routes
  on the threads' records answer the same even if the stored tokens and their expiries are replaced by any others, or
  removed.
\<close>

theorem tokens_stay_inside:
  assumes "renaming \<rho>" "threads_blind rename_tokens \<rho> ta"
  shows "fst (serve (minted_threads \<rho> policy ta) r req (rename_tokens \<rho> w)) = fst (serve (memory_threads policy ta) r req w) \<and>
    w_events (snd (serve (minted_threads \<rho> policy ta) r req (rename_tokens \<rho> w))) = w_events (snd (serve (memory_threads policy ta) r req w)) \<and>
    (\<forall>run \<in> {runs_wait, runs_stream, runs_wait_threadless, runs_stream_threadless}.
       fst (run (minted_platform \<rho> policy' (ta_platform ta)) req (rename_tokens \<rho> w)) =
         fst (run (memory_platform policy' (ta_platform ta)) req w) \<and>
       w_events (snd (run (minted_platform \<rho> policy' (ta_platform ta)) req (rename_tokens \<rho> w))) =
         w_events (snd (run (memory_platform policy' (ta_platform ta)) req w))) \<and>
    (r \<in> {CreateRoute, GetRoute, UpdateRoute, DeleteRoute, SearchRoute, CountRoute} \<longrightarrow>
       fst (serve (memory_threads policy ta) r req (retoken f g w)) = fst (serve (memory_threads policy ta) r req w))"
proof -
  note blind = memory_blind(2) [OF assms(2), of policy']
  note runs = renamed_memory.runs_wait_ren [OF assms(1) blind] renamed_memory.runs_stream_ren [OF assms(1) blind]
    renamed_memory.runs_threadless_ren [OF assms(1) blind]
  show ?thesis
    using renamed_routes.serve_ren [OF assms(1) memory_blind(1) [OF assms(2)], of policy r req w]
      record_routes_retoken [of r policy ta req f g w]
    by (simp add: runs)
qed

definition example_naming :: "token \<Rightarrow> token" where
  "example_naming t = (if t = [] then [] else ''x'' @ t)"

lemma example_renaming: "renaming example_naming"
  unfolding renaming_def
proof
  show "inj example_naming" by (rule injI) (simp add: example_naming_def split: if_splits)
qed (simp add: example_naming_def)

lemma tokens_stay_inside_witness:
  "fst (runs_wait (minted_platform example_naming None (ta_platform example_threads)) example_request
      (rename_tokens example_naming busy_world)) =
   fst (runs_wait (memory_platform None (ta_platform example_threads)) example_request busy_world)"
proof -
  have "threads_blind rename_tokens example_naming example_threads"
    by (simp add: threads_blind_def token_blind_def example_threads_def example_platform_def)
  from bspec [OF conjunct1 [OF conjunct2 [OF conjunct2 [OF
      tokens_stay_inside [OF example_renaming this, of None StateUpdateRoute example_request busy_world None]]]] insertI1]
  show ?thesis by (rule conjunct1)
qed

end
