(* ===== verification/Platform_Assistants.thy ===== *)
theory Platform_Assistants
  imports Platform_Threads "HOL-Library.Sublist"
begin

text \<open>
  The assistant routes of the Platform API, \<^verbatim>\<open>platform/_assistants.py\<close>: every registered graph is one
  assistant of the same name; the routes find, count and read them and never change anything.
\<close>

section \<open>Assistants\<close>

record assistant =
  as_id :: string
  as_graph :: string
  as_created :: string
  as_version :: int
  as_name :: string
  as_description :: "string option"

record assistant_query =
  aq_graph :: "string option"
  aq_metadata :: "pyval dict option"
  aq_name :: "string option"
  aq_limit :: int
  aq_offset :: int

text \<open>The registered graphs in order, with what else the routes are given; \<open>aa_started\<close> is \<open>_PROCESS_START\<close>.\<close>

record assistant_api =
  aa_deps :: route_deps
  aa_text :: py_text
  aa_started :: string
  aa_describe :: "string \<Rightarrow> string option"
  aa_valid_search :: "assistant_query model_validate"
  aa_valid_count :: "assistant_query model_validate"

definition registration_to_assistant :: "assistant_api \<Rightarrow> string \<Rightarrow> assistant" where
  "registration_to_assistant aa name =
     \<lparr>as_id = name, as_graph = name, as_created = aa_started aa, as_version = 1, as_name = name,
      as_description = aa_describe aa name\<rparr>"

definition assistant_json :: "assistant \<Rightarrow> pyval" where
  "assistant_json a = PDict
     [(''assistant_id'', PStr (as_id a)), (''graph_id'', PStr (as_graph a)), (''config'', PDict []),
      (''created_at'', PStr (as_created a)), (''metadata'', PNone), (''version'', PInt (as_version a)),
      (''name'', PStr (as_name a)), (''description'', opt_value PStr (as_description a)),
      (''updated_at'', PStr (as_created a)), (''context'', PDict [])]"

text \<open>
  \<open>str.casefold\<close> on the characters below 256, but for the micro sign, whose image is beyond them; no
  registered name contains either.
\<close>

definition casefold_char :: "char \<Rightarrow> string" where
  "casefold_char c =
     (let n = of_char c :: nat in
      if 65 \<le> n \<and> n \<le> 90 \<or> 192 \<le> n \<and> n \<le> 222 \<and> n \<noteq> 215 then [char_of (n + 32)]
      else if n = 223 then ''ss'' else [c])"

definition casefold :: "string \<Rightarrow> string" where
  "casefold s = concat (map casefold_char s)"

text \<open>Assistants have no metadata: a filter on them matches nothing, even an empty one.\<close>

definition selected :: "assistant_query \<Rightarrow> string \<Rightarrow> bool" where
  "selected q name \<longleftrightarrow>
     \<not> (case aq_graph q of None \<Rightarrow> False | Some g \<Rightarrow> name \<noteq> g) \<and> aq_metadata q = None \<and>
     \<not> (case aq_name q of None \<Rightarrow> False | Some n \<Rightarrow> \<not> sublist (casefold n) (casefold name))"

text \<open>A slice whose bounds are not negative, as the request model sees to.\<close>

definition slice :: "int \<Rightarrow> int \<Rightarrow> 'a list \<Rightarrow> 'a list" where
  "slice offset limit xs = take (nat limit) (drop (nat offset) xs)"

section \<open>The routes\<close>

definition assistant_request ::
    "assistant_api \<Rightarrow> model_fields \<Rightarrow> assistant_query model_validate \<Rightarrow> http_request \<Rightarrow> response + assistant_query" where
  "assistant_request aa decl validate req =
     (case validate_body_size (length (rq_body req)) (rd_max_body (aa_deps aa)) of
        Some e \<Rightarrow> Inl (platform_error 413 (Rule e))
      | None \<Rightarrow>
          (case (if list_all is_byte_space (rq_body req) then Some (PDict []) else loads (rq_body req)) of
             None \<Rightarrow> Inl (platform_error 400 (Message ''Invalid JSON body''))
           | Some body \<Rightarrow>
               (case check_unknown_platform_fields (rd_env (aa_deps aa)) decl body of
                  Some r \<Rightarrow> Inl r
                | None \<Rightarrow>
                    (case validate body of
                       Inl details \<Rightarrow> Inl (platform_error 422 (Invalid details))
                     | Inr q \<Rightarrow> Inr q))))"

definition assistant_search_fields :: model_fields where
  "assistant_search_fields = plain_fields [''graph_id'', ''metadata'', ''name'', ''limit'', ''offset'']"

definition assistant_count_fields :: model_fields where
  "assistant_count_fields = plain_fields [''graph_id'', ''metadata'', ''name'']"

fun search_loop :: "assistant_api \<Rightarrow> assistant_query \<Rightarrow> registration dict \<Rightarrow> assistant list \<Rightarrow> assistant list" where
  "search_loop aa q [] results = results"
| "search_loop aa q ((name, reg) # regs) results =
     (if selected q name then search_loop aa q regs (results @ [registration_to_assistant aa name])
      else search_loop aa q regs results)"

fun count_loop :: "assistant_query \<Rightarrow> registration dict \<Rightarrow> int \<Rightarrow> int" where
  "count_loop q [] n = n"
| "count_loop q ((name, reg) # regs) n =
     (if selected q name then count_loop q regs (n + 1) else count_loop q regs n)"

definition assistants_search :: "assistant_api \<Rightarrow> http_request \<Rightarrow> response" where
  "assistants_search aa req =
     (case assistant_request aa assistant_search_fields (aa_valid_search aa) req of
        Inl r \<Rightarrow> r
      | Inr q \<Rightarrow>
          (case result_limit_error (aq_limit q) (rd_max_limit (aa_deps aa)) of
             Some r \<Rightarrow> r
           | None \<Rightarrow>
               JsonResponse (PList (map assistant_json
                 (slice (aq_offset q) (aq_limit q) (search_loop aa q (rd_registrations (aa_deps aa)) [])))) None))"

definition assistants_count :: "assistant_api \<Rightarrow> http_request \<Rightarrow> response" where
  "assistants_count aa req =
     (case assistant_request aa assistant_count_fields (aa_valid_count aa) req of
        Inl r \<Rightarrow> r
      | Inr q \<Rightarrow> JsonResponse (PInt (count_loop q (rd_registrations (aa_deps aa)) 0)) None)"

definition assistants_get :: "assistant_api \<Rightarrow> http_request \<Rightarrow> response" where
  "assistants_get aa req =
     (let aid = route_param ''assistant_id'' req in
      case map_of (rd_registrations (aa_deps aa)) aid of
        None \<Rightarrow> platform_error 404 (Message (''Assistant '' @ pt_repr (aa_text aa) aid @ '' not found''))
      | Some reg \<Rightarrow> JsonResponse (assistant_json (registration_to_assistant aa aid)) None)"

section \<open>Pages, counts and single reads agree\<close>

lemma set_slice: "set (slice offset limit xs) \<subseteq> set xs"
  unfolding slice_def by (meson set_take_subset set_drop_subset subset_trans)

lemma search_loop_filter:
  "search_loop aa q regs results =
     results @ map (registration_to_assistant aa) (filter (selected q) (map fst regs))"
  by (induction aa q regs results rule: search_loop.induct) simp_all

lemma count_loop_filter: "count_loop q regs n = n + int (length (filter (selected q) (map fst regs)))"
  by (induction q regs n rule: count_loop.induct) simp_all

text \<open>
  The three routes agree: a page that is not full to its limit ends the selection, so that with an
  offset of zero it has exactly as many assistants as the count of the same filters, and every
  assistant of a page is the one that reading its id answers.
\<close>

theorem assistant_routes_agree:
  assumes "assistant_request aa assistant_search_fields (aa_valid_search aa) req = Inr q"
    and "assistant_request aa assistant_count_fields (aa_valid_count aa) rq = Inr q'"
    and "aq_graph q' = aq_graph q" "aq_name q' = aq_name q" "aq_metadata q' = aq_metadata q"
    and "assistants_search aa req = JsonResponse (PList page) None"
  shows "int (length page) \<le> max 0 (rd_max_limit (aa_deps aa)) \<and>
    (aq_offset q = 0 \<and> int (length page) < aq_limit q \<longrightarrow>
       assistants_count aa rq = JsonResponse (PInt (int (length page))) None) \<and>
    (\<forall>v\<in>set page. \<exists>name. selected q name \<and> v = assistant_json (registration_to_assistant aa name) \<and>
       (\<forall>g. route_param ''assistant_id'' g = name \<longrightarrow> assistants_get aa g = JsonResponse v None))"
proof -
  let ?names = "filter (selected q) (map fst (rd_registrations (aa_deps aa)))"
  have page: "page = map (assistant_json \<circ> registration_to_assistant aa) (slice (aq_offset q) (aq_limit q) ?names)"
    and limit: "aq_limit q \<le> rd_max_limit (aa_deps aa)"
    using assms(1,6)
    by (auto simp: assistants_search_def search_loop_filter slice_def result_limit_error_def platform_error_def take_map drop_map
        split: if_splits)
  have "selected q' = selected q" using assms(3-5) by (simp add: selected_def fun_eq_iff)
  then have "assistants_count aa rq = JsonResponse (PInt (int (length ?names))) None"
    using assms(2) by (simp add: assistants_count_def count_loop_filter)
  moreover have "length page = length ?names" if "aq_offset q = 0" "int (length page) < aq_limit q"
    using that by (auto simp: page slice_def min_def split: if_splits)
  moreover have "int (length page) \<le> max 0 (rd_max_limit (aa_deps aa))"
    using limit by (auto simp: page slice_def)
  moreover have "\<exists>name. selected q name \<and> v = assistant_json (registration_to_assistant aa name) \<and>
       (\<forall>g. route_param ''assistant_id'' g = name \<longrightarrow> assistants_get aa g = JsonResponse v None)" if v: "v \<in> set page" for v
  proof -
    obtain name where name: "name \<in> set (slice (aq_offset q) (aq_limit q) ?names)"
        "v = assistant_json (registration_to_assistant aa name)"
      using v unfolding page by auto
    then have "name \<in> set ?names" using set_slice by fastforce
    then obtain reg where "map_of (rd_registrations (aa_deps aa)) name = Some reg"
      by (auto dest!: weak_map_of_SomeI)
    moreover have "selected q name" using \<open>name \<in> set ?names\<close> by simp
    ultimately show ?thesis using name(2) by (intro exI [of _ name]) (simp add: assistants_get_def Let_def)
  qed
  ultimately show ?thesis by simp
qed

definition example_assistants :: assistant_api where
  "example_assistants =
     \<lparr>aa_deps = \<lparr>rd_registrations = [(''Mail'', \<lparr>reg_graph = 0, reg_name = ''Mail'', reg_async = False, reg_invocable = True,
          reg_checkpointer = True\<rparr>)], rd_max_stream = 9, rd_max_body = 9, rd_max_depth = 9, rd_max_nodes = 9, rd_max_limit = 9, rd_env = []\<rparr>,
      aa_text = \<lparr>pt_str = (\<lambda>_. []), pt_repr = id\<rparr>, aa_started = [], aa_describe = (\<lambda>_. None),
      aa_valid_search = (\<lambda>_. Inr \<lparr>aq_graph = None, aq_metadata = None, aq_name = Some ''mAi'', aq_limit = 5, aq_offset = 0\<rparr>),
      aa_valid_count = (\<lambda>_. Inr \<lparr>aq_graph = None, aq_metadata = None, aq_name = Some ''mAi'', aq_limit = 5, aq_offset = 0\<rparr>)\<rparr>"

lemma assistant_routes_agree_witness:
  "assistants_count example_assistants \<lparr>rq_body = [], rq_params = [], rq_headers = []\<rparr> = JsonResponse (PInt 1) None"
proof -
  let ?req = "\<lparr>rq_body = [], rq_params = [], rq_headers = []\<rparr> :: http_request"
  let ?q = "\<lparr>aq_graph = None, aq_metadata = None, aq_name = Some ''mAi'', aq_limit = 5, aq_offset = 0\<rparr>"
  have parsed: "assistant_request example_assistants assistant_search_fields (aa_valid_search example_assistants) ?req = Inr ?q"
    "assistant_request example_assistants assistant_count_fields (aa_valid_count example_assistants) ?req = Inr ?q"
    by (simp_all add: assistant_request_def validate_body_size_def check_unknown_platform_fields_def
        unknown_request_fields_def example_assistants_def)
  have "selected ?q ''Mail''" by code_simp
  then have page: "assistants_search example_assistants ?req =
      JsonResponse (PList [assistant_json (registration_to_assistant example_assistants ''Mail'')]) None"
    using parsed(1) by (simp add: assistants_search_def result_limit_error_def slice_def example_assistants_def)
  from assistant_routes_agree [OF parsed refl refl refl page] show ?thesis by simp
qed

end
