(* ===== verification/Native_Handlers.thy ===== *)
theory Native_Handlers
  imports Service_Bus Platform_Runs
begin

text \<open>
  The native endpoints, \<^verbatim>\<open>_handlers.py\<close>: invoking a graph and streaming it into a buffered answer,
  each in a synchronous and an asynchronous handler, and reading a thread's state. A request is
  parsed, its configuration and thread are checked, the policy is asked, the lock of a
  checkpointed thread is taken, and the observer hears of each step.
\<close>

section \<open>Answers, registrations, requests\<close>

text \<open>
  A JSON answer has the id of its run in a header, if it belongs to a run; a stream answers with its
  frames, which are sent concatenated.
\<close>

datatype native_response =
    NativeError nat detail "string option"
  | NativeJson pyval "string option"
  | NativeStream "string list" string

record native_registration = registration +
  ng_saver :: bool
  ng_stream_enabled :: bool
  ng_streams :: bool
  ng_astreams :: bool
  ng_stateful :: bool
  ng_allowed :: "string list"

record native_request =
  nr_input :: "pyval dict"
  nr_config :: "pyval dict option"
  nr_mode :: string
  nr_version :: "string option"

datatype graph_method = InvokeMethod | AinvokeMethod | StreamMethod | AstreamMethod

text \<open>One step of an asynchronous stream.\<close>

datatype agen_step = AYield pyval | AExhausted | ABreaks exn | ACancelled | APending

text \<open>
  What the handlers are given: the limits, the request models, the policy as it is called and as it
  is awaited, the lock's capability, the observer, the encoder, and the graphs. \<open>nv_object\<close> is the
  dictionary that a result object dumps to, if it is a model or a data class.
\<close>

record 's native =
  nv_max_body :: nat
  nv_max_depth :: nat
  nv_max_nodes :: nat
  nv_max_stream :: nat
  nv_text :: py_text
  nv_fresh :: string
  nv_valid_invoke :: "native_request model_validate"
  nv_valid_stream :: "native_request model_validate"
  nv_policy :: "(string option \<Rightarrow> http_request \<Rightarrow> 's \<Rightarrow> (exn + bool) \<times> 's) option"
  nv_apolicy :: "(string option \<Rightarrow> http_request \<Rightarrow> 's \<Rightarrow> (exn, bool) outcome \<times> 's) option"
  nv_guard :: "'s guard_side"
  nv_observe :: "run_event \<Rightarrow> 's \<Rightarrow> 's"
  nv_encoder :: encoder
  nv_object :: "nat \<Rightarrow> pyval dict option"
  nv_versioned :: "nat \<Rightarrow> graph_method \<Rightarrow> bool"
  nv_invoke :: "nat \<Rightarrow> pyval dict \<Rightarrow> pyval dict option \<Rightarrow> string option \<Rightarrow> 's \<Rightarrow> (exn + pyval) \<times> 's"
  nv_ainvoke :: "nat \<Rightarrow> pyval dict \<Rightarrow> pyval dict option \<Rightarrow> string option \<Rightarrow> 's \<Rightarrow> (exn, pyval) outcome \<times> 's"
  nv_stream :: "nat \<Rightarrow> pyval dict \<Rightarrow> pyval dict option \<Rightarrow> string \<Rightarrow> string option \<Rightarrow> 's generator"
  nv_astream :: "nat \<Rightarrow> pyval dict \<Rightarrow> pyval dict option \<Rightarrow> string \<Rightarrow> string option \<Rightarrow> nat \<Rightarrow> 's \<Rightarrow> agen_step \<times> 's"
  nv_aclose :: "nat \<Rightarrow> 's \<Rightarrow> (exn, unit) outcome \<times> 's"
  nv_state :: "nat \<Rightarrow> pyval dict \<Rightarrow> 's \<Rightarrow> (exn + snapshot) \<times> 's"

datatype native_error = NativeLock lock_error | NativeRaised exn

type_synonym 's native_handler = "'s \<Rightarrow> (native_error, native_response) outcome \<times> 's"

section \<open>Before the run\<close>

definition extract_thread_id :: "pyval dict \<Rightarrow> detail + string option" where
  "extract_thread_id config =
     (case field_or_none ''configurable'' config of
        PNone \<Rightarrow> Inr None
      | PDict d \<Rightarrow>
          (case field_or_none ''thread_id'' d of
             PNone \<Rightarrow> Inr None
           | PStr tid \<Rightarrow> (case validate_thread_id tid of Some e \<Rightarrow> Inl (Rule e) | None \<Rightarrow> Inr (Some tid))
           | _ \<Rightarrow> Inl (Message ''config.configurable.thread_id must be a string''))
      | _ \<Rightarrow> Inl (Message ''config.configurable must be an object''))"

definition require_checkpoint_thread_id :: "bool \<Rightarrow> string option \<Rightarrow> detail option" where
  "require_checkpoint_thread_id saver tid =
     (if saver \<and> tid = None
      then Some (Message ''config.configurable.thread_id is required for checkpointed graphs'') else None)"

definition validated_run_thread :: "pyval dict \<Rightarrow> bool \<Rightarrow> detail + string option" where
  "validated_run_thread config saver =
     bind_res (extract_thread_id config) (\<lambda>tid.
       case require_checkpoint_thread_id saver tid of None \<Rightarrow> Inr tid | Some d \<Rightarrow> Inl d)"

definition error_response :: "nat \<Rightarrow> detail \<Rightarrow> native_response" where
  "error_response code d = NativeError code d None"

text \<open>A rejection tells the observer why and gives the answer the id of the run.\<close>

fun with_request_id :: "string \<Rightarrow> native_response \<Rightarrow> native_response" where
  "with_request_id rid (NativeError code d _) = NativeError code d (Some rid)"
| "with_request_id rid r = r"

definition reject :: "'s native \<Rightarrow> run_context \<Rightarrow> string \<Rightarrow> native_response \<Rightarrow> 's \<Rightarrow> native_response \<times> 's" where
  "reject nv ctx reason r x = (with_request_id (rc_run_id ctx) r, nv_observe nv (RunRejected ctx reason) x)"

definition resolve_version_kwarg ::
    "py_text \<Rightarrow> bool \<Rightarrow> string option \<Rightarrow> string \<Rightarrow> native_response + string option" where
  "resolve_version_kwarg txt accepts version graph_name =
     (case version of
        None \<Rightarrow> Inr None
      | Some v \<Rightarrow>
          (if \<not> accepts
           then Inl (error_response 422 (Message (''Graph '' @ pt_repr txt graph_name @
             '' does not accept a 'version' argument (requires langgraph>=1.1)'')))
           else Inr (Some v)))"

definition parse_native_request ::
    "'s native \<Rightarrow> string list \<Rightarrow> native_request model_validate \<Rightarrow> http_request \<Rightarrow> native_response + native_request" where
  "parse_native_request nv allowed validate req =
     (let structure = (\<lambda>d. validate_input_structure (PDict d) (nv_max_depth nv) (nv_max_nodes nv)) in
      case validate_body_size (length (rq_body req)) (nv_max_body nv) of
        Some e \<Rightarrow> Inl (error_response 413 (Rule e))
      | None \<Rightarrow>
          (case loads (rq_body req) of
             None \<Rightarrow> Inl (error_response 400 (Message ''Invalid JSON body''))
           | Some body \<Rightarrow>
               (case validate body of
                  Inl details \<Rightarrow> Inl (error_response 422 (Invalid details))
                | Inr r \<Rightarrow>
                    (case structure (nr_input r) of
                       Some e \<Rightarrow> Inl (error_response 400 (Rule e))
                     | None \<Rightarrow>
                         (case nr_config r of
                            None \<Rightarrow> Inr r
                          | Some config \<Rightarrow>
                              (if config = [] then Inr r
                               else case opt_orelse (structure config) (validate_native_config config allowed) of
                                   Some e \<Rightarrow> Inl (error_response 400 (Rule e))
                                 | None \<Rightarrow> Inr r))))))"

text \<open>\<open>native_authorization_status\<close>: a policy that fails closes the endpoint.\<close>

fun native_status :: "(exn, bool) outcome \<Rightarrow> (exn, nat option) outcome" where
  "native_status (Returned allowed) = Returned (if allowed then None else Some 403)"
| "native_status (Raised e) =
     (if exn_type e = ''UnauthenticatedError'' then Returned (Some 401)
      else if base_exn e then Raised e else Returned (Some 500))"
| "native_status Cancelled = Cancelled"
| "native_status Pending = Pending"

definition native_authorization ::
    "(string option \<Rightarrow> http_request \<Rightarrow> 's \<Rightarrow> (exn, bool) outcome \<times> 's) option \<Rightarrow> string option \<Rightarrow> http_request \<Rightarrow> 's \<Rightarrow>
     (exn, nat option) outcome \<times> 's" where
  "native_authorization policy tid req x =
     (case policy of
        None \<Rightarrow> (Returned None, x)
      | Some p \<Rightarrow> (let (r, x1) = p tid req x in (native_status r, x1)))"

definition called_policy :: "'s native \<Rightarrow> (string option \<Rightarrow> http_request \<Rightarrow> 's \<Rightarrow> (exn, bool) outcome \<times> 's) option" where
  "called_policy nv = map_option (\<lambda>p tid req x. let (r, x1) = p tid req x in (of_result r, x1)) (nv_policy nv)"

text \<open>
  What the four run handlers do first: the request and its thread, or the rejection. The policy is
  called or awaited; the rest is the same code.
\<close>

record prepared =
  pr_context :: run_context
  pr_request :: native_request
  pr_config :: "pyval dict"
  pr_thread :: "string option"

definition native_context :: "'s native \<Rightarrow> string \<Rightarrow> native_registration \<Rightarrow> http_request \<Rightarrow> run_context" where
  "native_context nv endpoint reg req =
     new_run_context (nv_fresh nv) (reg_name reg) endpoint (Some (request_id_from_headers (nv_fresh nv) (rq_headers req)))
       None None None (reg_checkpointer reg) []"

definition prepare_native ::
    "'s native \<Rightarrow> string \<Rightarrow> native_registration \<Rightarrow> graph_method \<Rightarrow> native_request model_validate \<Rightarrow>
     (string option \<Rightarrow> http_request \<Rightarrow> 's \<Rightarrow> (exn, bool) outcome \<times> 's) option \<Rightarrow> http_request \<Rightarrow> 's \<Rightarrow>
     (exn, native_response + prepared) outcome \<times> 's" where
  "prepare_native nv endpoint reg method validate policy req x =
     (let ctx = native_context nv endpoint reg req;
          refuse = (\<lambda>ctx reason r x. map_prod (\<lambda>r. Returned (Inl r)) id (reject nv ctx reason r x)) in
      case parse_native_request nv (ng_allowed reg) validate req of
        Inl r \<Rightarrow> refuse ctx ''invalid_request'' r x
      | Inr request \<Rightarrow>
          (let config = or_empty (nr_config request) in
           case validated_run_thread config (ng_saver reg) of
             Inl d \<Rightarrow> refuse ctx ''invalid_config'' (error_response 400 d) x
           | Inr tid \<Rightarrow>
               (let ctx1 = ctx\<lparr>rc_thread := tid\<rparr> in
                case native_authorization policy tid req x of
                  (Raised e, x1) \<Rightarrow> (Raised e, x1)
                | (Cancelled, x1) \<Rightarrow> (Cancelled, x1)
                | (Pending, x1) \<Rightarrow> (Pending, x1)
                | (Returned (Some status), x1) \<Rightarrow>
                    refuse ctx1 ''authorization_denied'' (error_response status (Message ''Access denied'')) x1
                | (Returned None, x1) \<Rightarrow>
                    (case resolve_version_kwarg (nv_text nv) (nv_versioned nv (reg_graph reg) method) (nr_version request)
                            (reg_name reg) of
                       Inl r \<Rightarrow> refuse ctx1 ''unsupported_version'' r x1
                     | Inr _ \<Rightarrow>
                         (Returned (Inr \<lparr>pr_context = ctx1, pr_request = request, pr_config = config, pr_thread = tid\<rparr>), x1)))))"

text \<open>The thread to lock; a validated thread id is not empty.\<close>

definition native_lock_thread :: "native_registration \<Rightarrow> string option \<Rightarrow> string option" where
  "native_lock_thread reg tid =
     (case tid of None \<Rightarrow> None | Some t \<Rightarrow> if reg_checkpointer reg \<and> t \<noteq> [] then Some t else None)"

definition or_nil :: "string option \<Rightarrow> string" where
  "or_nil v = (case v of None \<Rightarrow> [] | Some s \<Rightarrow> s)"

definition in_use :: "py_text \<Rightarrow> string \<Rightarrow> native_response" where
  "in_use txt tid =
     error_response 409 (Message (''Thread '' @ pt_repr txt tid @ '' is currently in use by another request''))"

section \<open>Invoking\<close>

text \<open>
  A result that is no dictionary is dumped, if it is a model or a data class, or wrapped as its text.
\<close>

definition text_of :: "py_text \<Rightarrow> pyval \<Rightarrow> string" where
  "text_of txt v = (case v of PStr s \<Rightarrow> s | _ \<Rightarrow> pt_str txt v)"

definition serialize_graph_output :: "py_text \<Rightarrow> (nat \<Rightarrow> pyval dict option) \<Rightarrow> pyval \<Rightarrow> pyval dict" where
  "serialize_graph_output txt dump v =
     (let wrapped = [(''result'', PStr (text_of txt v))] in
      case v of
        PDict d \<Rightarrow> d
      | PObj a \<Rightarrow> (case dump a of Some d \<Rightarrow> d | None \<Rightarrow> wrapped)
      | _ \<Rightarrow> wrapped)"

definition execution_failed :: "run_context \<Rightarrow> native_response" where
  "execution_failed ctx = NativeError 500 (Message ''Graph execution failed'') (Some (rc_run_id ctx))"

text \<open>\<open>except Exception\<close>: a base exception of the graph passes without a terminal event.\<close>

definition run_broken ::
    "'s native \<Rightarrow> run_context \<Rightarrow> exn \<Rightarrow> 's \<Rightarrow> (exn, native_response + pyval) outcome \<times> 's" where
  "run_broken nv ctx e x =
     (if base_exn e then (Raised e, x)
      else (Returned (Inl (execution_failed ctx)), nv_observe nv (RunFailed ctx e) x))"

text \<open>
  The \<open>try\<close> block that both invoke handlers write out: guard, graph, guard check, encoding; \<open>call\<close>
  is \<open>graph.invoke\<close> or the awaited \<open>graph.ainvoke\<close>.
\<close>

definition invoke_body ::
    "'s native \<Rightarrow> native_registration \<Rightarrow>
     (nat \<Rightarrow> pyval dict \<Rightarrow> pyval dict option \<Rightarrow> string option \<Rightarrow> 's \<Rightarrow> (exn, pyval) outcome \<times> 's) \<Rightarrow>
     prepared \<Rightarrow> string option \<Rightarrow> token option \<Rightarrow> 's \<Rightarrow> (exn, native_response + pyval) outcome \<times> 's" where
  "invoke_body nv reg call pr guard_thread token x =
     (let ctx = pr_context pr; guards = nv_guard nv; x0 = nv_observe nv (RunStarted ctx) x in
      case guard_run_config (gp_is_guard guards) (gp_provider guards) (reg_name reg) guard_thread token (Some (pr_config pr)) of
        Inl ge \<Rightarrow> run_broken nv ctx (guard_exn ge) x0
      | Inr (config, guard) \<Rightarrow>
          (case call (reg_graph reg) (nr_input (pr_request pr)) config (nr_version (pr_request pr)) x0 of
             (Raised e, x1) \<Rightarrow> run_broken nv ctx e x1
           | (Cancelled, x1) \<Rightarrow> (Cancelled, x1)
           | (Pending, x1) \<Rightarrow> (Pending, x1)
           | (Returned v, x1) \<Rightarrow>
               (case check_ownership_guard (\<lambda>a. gp_check guards a x1) guard of
                  Inl ge \<Rightarrow> run_broken nv ctx (guard_exn ge) x1
                | Inr _ \<Rightarrow>
                    (let output = PDict [(''output'', PDict (serialize_graph_output (nv_text nv) (nv_object nv) v))] in
                     case checked_dumps (nv_encoder nv) output of
                       Inl e \<Rightarrow> run_broken nv ctx e x1
                     | Inr _ \<Rightarrow> (Returned (Inr output), x1)))))"

text \<open>After the lock is released: the success is reported and answered.\<close>

definition finish_invoke ::
    "'s native \<Rightarrow> run_context \<Rightarrow> (native_error, native_response + pyval) outcome \<Rightarrow> 's native_handler" where
  "finish_invoke nv ctx out x =
     (case out of
        Returned (Inl r) \<Rightarrow> (Returned r, x)
      | Returned (Inr v) \<Rightarrow> (Returned (NativeJson v (Some (rc_run_id ctx))), nv_observe nv (RunCompleted ctx) x)
      | Raised e \<Rightarrow> (Raised e, x)
      | Cancelled \<Rightarrow> (Cancelled, x)
      | Pending \<Rightarrow> (Pending, x))"

definition refused :: "native_response \<times> 's \<Rightarrow> (native_error, native_response) outcome \<times> 's" where
  "refused = map_prod Returned id"

text \<open>\<open>acquire\<close>, the run with its token, and \<open>release\<close> in the \<open>finally\<close> clause.\<close>

definition sync_locked ::
    "'s lock_side \<Rightarrow> token \<Rightarrow> lock_key option \<Rightarrow> (token option \<Rightarrow> 's \<Rightarrow> (exn, 'a) outcome \<times> 's) \<Rightarrow>
     ('s \<Rightarrow> (native_error, native_response) outcome \<times> 's) \<Rightarrow>
     ((native_error, 'a) outcome \<Rightarrow> 's native_handler) \<Rightarrow> 's native_handler" where
  "sync_locked lo tok key run busy finish x =
     (case key of
        None \<Rightarrow> (let (r, x1) = run None x in finish (map_outcome NativeRaised id r) x1)
      | Some k \<Rightarrow>
          (case lo_acquire lo k tok x of
             (Inl e, x1) \<Rightarrow> (Raised (NativeLock e), x1)
           | (Inr None, x1) \<Rightarrow> busy x1
           | (Inr (Some token), x1) \<Rightarrow>
               (if token = [] then busy x1
                else let (r, x2) = run (Some token) x1
                  in finish (map_outcome NativeRaised id r) (lo_release lo k token x2))))"

definition busy_thread :: "'s native \<Rightarrow> prepared \<Rightarrow> 's native_handler" where
  "busy_thread nv pr x =
     refused (reject nv (pr_context pr) ''lock_contention'' (in_use (nv_text nv) (or_nil (pr_thread pr))) x)"

definition native_key :: "native_registration \<Rightarrow> string option \<Rightarrow> lock_key option" where
  "native_key reg tid = map_option (Key (reg_name reg)) (native_lock_thread reg tid)"

definition when_prepared ::
    "(exn, native_response + prepared) outcome \<times> 's \<Rightarrow> (prepared \<Rightarrow> 's native_handler) \<Rightarrow>
     (native_error, native_response) outcome \<times> 's" where
  "when_prepared p run =
     (case p of
        (Returned (Inl r), x) \<Rightarrow> (Returned r, x)
      | (Returned (Inr pr), x) \<Rightarrow> run pr x
      | (Raised e, x) \<Rightarrow> (Raised (NativeRaised e), x)
      | (Cancelled, x) \<Rightarrow> (Cancelled, x)
      | (Pending, x) \<Rightarrow> (Pending, x))"

definition called_invoke ::
    "'s native \<Rightarrow> nat \<Rightarrow> pyval dict \<Rightarrow> pyval dict option \<Rightarrow> string option \<Rightarrow> 's \<Rightarrow> (exn, pyval) outcome \<times> 's" where
  "called_invoke nv g input config version x =
     (let (r, x1) = nv_invoke nv g input config version x in (of_result r, x1))"

definition handle_invoke ::
    "'s native \<Rightarrow> 's lock_side \<Rightarrow> token \<Rightarrow> native_registration \<Rightarrow> http_request \<Rightarrow> 's native_handler" where
  "handle_invoke nv lo tok reg req x =
     when_prepared (prepare_native nv ''invoke'' reg InvokeMethod (nv_valid_invoke nv) (called_policy nv) req x) (\<lambda>pr.
       sync_locked lo tok (native_key reg (pr_thread pr)) (invoke_body nv reg (called_invoke nv) pr (pr_thread pr))
         (busy_thread nv pr) (finish_invoke nv (pr_context pr)))"

text \<open>
  The asynchronous scope; in its body an exception is a value, and a refused key is the rejection,
  which returns from the handler at once.
\<close>

fun boxed :: "(exn, 'a) outcome \<Rightarrow> (lock_error, exn + 'a) outcome" where
  "boxed (Returned v) = Returned (Inr v)"
| "boxed (Raised e) = Returned (Inl e)"
| "boxed Cancelled = Cancelled"
| "boxed Pending = Pending"

fun unboxed :: "(lock_error, exn + 'a) outcome \<Rightarrow> (native_error, 'a) outcome" where
  "unboxed (Returned (Inr v)) = Returned v"
| "unboxed (Returned (Inl e)) = Raised (NativeRaised e)"
| "unboxed (Raised e) = Raised (NativeLock e)"
| "unboxed Cancelled = Cancelled"
| "unboxed Pending = Pending"

definition scope_body ::
    "lock_key option \<Rightarrow> (token option \<Rightarrow> 's \<Rightarrow> (exn, 'a) outcome \<times> 's) \<Rightarrow> ('s \<Rightarrow> native_response \<times> 's) \<Rightarrow>
     token option \<Rightarrow> 's \<Rightarrow> (lock_error, exn + native_response + 'a) outcome \<times> 's" where
  "scope_body key run busy token x =
     (if key \<noteq> None \<and> token = None then (let (r, x1) = busy x in (Returned (Inr (Inl r)), x1))
      else let (r, x1) = run token x in (boxed (map_outcome id Inr r), x1))"

definition leave_scope ::
    "((native_error, 'a) outcome \<Rightarrow> 's native_handler) \<Rightarrow> (native_error, native_response + 'a) outcome \<Rightarrow> 's native_handler" where
  "leave_scope finish out x =
     (case out of
        Returned (Inl r) \<Rightarrow> (Returned r, x)
      | Returned (Inr v) \<Rightarrow> finish (Returned v) x
      | Raised e \<Rightarrow> finish (Raised e) x
      | Cancelled \<Rightarrow> finish Cancelled x
      | Pending \<Rightarrow> finish Pending x)"

definition async_locked ::
    "'s lock_side \<Rightarrow> token \<Rightarrow> lock_key option \<Rightarrow> (token option \<Rightarrow> 's \<Rightarrow> (exn, 'a) outcome \<times> 's) \<Rightarrow>
     ('s \<Rightarrow> native_response \<times> 's) \<Rightarrow> ((native_error, 'a) outcome \<Rightarrow> 's native_handler) \<Rightarrow> 's native_handler" where
  "async_locked lo tok key run busy finish x =
     (let (out, x1) = async_thread_lock (lo_acquire lo) (lo_release lo) (lo_env lo) (lo_first lo) (lo_undo lo) (lo_last lo)
            key tok (scope_body key run busy) x
      in leave_scope finish (unboxed out) x1)"

definition handle_invoke_async ::
    "'s native \<Rightarrow> 's lock_side \<Rightarrow> token \<Rightarrow> native_registration \<Rightarrow> http_request \<Rightarrow> 's native_handler" where
  "handle_invoke_async nv lo tok reg req x =
     when_prepared (prepare_native nv ''invoke'' reg AinvokeMethod (nv_valid_invoke nv) (nv_apolicy nv) req x) (\<lambda>pr.
       async_locked lo tok (native_key reg (pr_thread pr))
         (invoke_body nv reg (nv_ainvoke nv) pr (native_lock_thread reg (pr_thread pr)))
         (reject nv (pr_context pr) ''lock_contention'' (in_use (nv_text nv) (or_nil (pr_thread pr))))
         (finish_invoke nv (pr_context pr)))"

section \<open>Streaming into a buffer\<close>

definition native_frame :: "string \<Rightarrow> string \<Rightarrow> string" where
  "native_frame event data = sse_frame event data"

definition failure_frame :: "string \<Rightarrow> string \<Rightarrow> string" where
  "failure_frame message rid =
     native_frame ''error'' (dumps (\<lambda>_. []) (PDict [(''error'', PStr message), (''request_id'', PStr rid)]))"

definition size_message :: "nat \<Rightarrow> string" where
  "size_message max_bytes = ''stream response exceeded max buffered size ('' @ nat_text max_bytes @ '' bytes)''"

definition native_end :: string where
  "native_end = native_frame ''end'' ''{}''"

text \<open>\<open>_append_chunk\<close>: a chunk that does not fit is replaced by an error frame, which is not counted.\<close>

definition append_chunk :: "nat \<Rightarrow> string \<Rightarrow> string \<Rightarrow> string list \<Rightarrow> nat \<Rightarrow> bool \<times> string list \<times> nat" where
  "append_chunk max_bytes rid chunk chunks buffered =
     (if buffered + byte_size chunk > max_bytes
      then (False, chunks @ [failure_frame (size_message max_bytes) rid], buffered)
      else (True, chunks @ [chunk], buffered + byte_size chunk))"

definition data_frame :: "encoder \<Rightarrow> pyval \<Rightarrow> exn + string" where
  "data_frame en v = (case checked_dumps en v of Inl e \<Rightarrow> Inl e | Inr data \<Rightarrow> Inr (native_frame ''data'' data))"

text \<open>How a step of either kind of stream goes on; the synchronous one is never cancelled.\<close>

datatype pull = Pulled pyval | Ended | Failed exn | Stopped | Waiting

fun sync_pull :: "gen_step \<Rightarrow> pull" where
  "sync_pull (Yield v) = Pulled v"
| "sync_pull Exhausted = Ended"
| "sync_pull (Breaks e) = Failed e"

fun async_pull :: "agen_step \<Rightarrow> pull" where
  "async_pull (AYield v) = Pulled v"
| "async_pull AExhausted = Ended"
| "async_pull (ABreaks e) = Failed e"
| "async_pull ACancelled = Stopped"
| "async_pull APending = Waiting"

datatype native_end_of = Complete | TooLong | Error exn | Abandoned | Unfinished | No_fuel

fun native_loop ::
    "encoder \<Rightarrow> nat \<Rightarrow> string \<Rightarrow> (nat \<Rightarrow> 's \<Rightarrow> pull \<times> 's) \<Rightarrow> nat \<Rightarrow> nat \<Rightarrow> string list \<Rightarrow> nat \<Rightarrow> 's \<Rightarrow>
     native_end_of \<times> string list \<times> nat \<times> 's" where
  "native_loop en max_bytes rid gen 0 n chunks buffered x = (No_fuel, chunks, buffered, x)"
| "native_loop en max_bytes rid gen (Suc fuel) n chunks buffered x =
     (case gen n x of
        (Ended, x1) \<Rightarrow> (Complete, chunks, buffered, x1)
      | (Failed e, x1) \<Rightarrow> (Error e, chunks, buffered, x1)
      | (Stopped, x1) \<Rightarrow> (Abandoned, chunks, buffered, x1)
      | (Waiting, x1) \<Rightarrow> (Unfinished, chunks, buffered, x1)
      | (Pulled v, x1) \<Rightarrow>
          (case data_frame en v of
             Inl e \<Rightarrow> (Error e, chunks, buffered, x1)
           | Inr frame \<Rightarrow>
               (case append_chunk max_bytes rid frame chunks buffered of
                  (False, chunks1, buffered1) \<Rightarrow> (TooLong, chunks1, buffered1, x1)
                | (True, chunks1, buffered1) \<Rightarrow>
                    native_loop en max_bytes rid gen fuel (Suc n) chunks1 buffered1 x1)))"

definition too_long :: exn where
  "too_long = Exn ''RuntimeError'' ''stream response exceeded max buffered size''"

text \<open>
  The \<open>try\<close> block and its handler: the frames, and the error of the stream, if it had one.
\<close>

definition stream_failed ::
    "nat \<Rightarrow> string \<Rightarrow> exn \<Rightarrow> string list \<Rightarrow> nat \<Rightarrow> (exn, exn option \<times> string list) outcome" where
  "stream_failed max_bytes rid e chunks buffered =
     (if base_exn e then Raised e
      else case append_chunk max_bytes rid (failure_frame ''stream processing failed'' rid) chunks buffered of
          (_, chunks1, _) \<Rightarrow> Returned (Some e, chunks1))"

definition native_stream_body ::
    "'s native \<Rightarrow> native_registration \<Rightarrow>
     (nat \<Rightarrow> pyval dict \<Rightarrow> pyval dict option \<Rightarrow> string \<Rightarrow> string option \<Rightarrow> nat \<Rightarrow> 's \<Rightarrow> pull \<times> 's) \<Rightarrow>
     (nat \<Rightarrow> 's \<Rightarrow> (exn, unit) outcome \<times> 's) \<Rightarrow> prepared \<Rightarrow> string option \<Rightarrow> token option \<Rightarrow> 's \<Rightarrow>
     (exn, exn option \<times> string list) outcome \<times> 's" where
  "native_stream_body nv reg pull close pr guard_thread token x =
     (let ctx = pr_context pr; rid = rc_run_id ctx; limit = nv_max_stream nv; guards = nv_guard nv;
          x0 = nv_observe nv (RunStarted ctx) x in
      case guard_run_config (gp_is_guard guards) (gp_provider guards) (reg_name reg) guard_thread token (Some (pr_config pr)) of
        Inl ge \<Rightarrow> (stream_failed limit rid (guard_exn ge) [] 0, x0)
      | Inr (config, guard) \<Rightarrow>
          (let gen = pull (reg_graph reg) (nr_input (pr_request pr)) config (nr_mode (pr_request pr)) (nr_version (pr_request pr));
               (ending, chunks, buffered, x1) = native_loop (nv_encoder nv) limit rid gen (Suc limit) 0 [] 0 x0;
               result = (case ending of
                   Complete \<Rightarrow>
                     (case check_ownership_guard (\<lambda>a. gp_check guards a x1) guard of
                        Inl ge \<Rightarrow> stream_failed limit rid (guard_exn ge) chunks buffered
                      | Inr _ \<Rightarrow> Returned (None, chunks))
                 | TooLong \<Rightarrow> Returned (Some too_long, chunks)
                 | Error e \<Rightarrow> stream_failed limit rid e chunks buffered
                 | Abandoned \<Rightarrow> Cancelled
                 | Unfinished \<Rightarrow> Pending
                 | No_fuel \<Rightarrow> Raised (Exn ''Out_of_fuel'' []))
           in if ending = Unfinished then (Pending, x1)
              else let (closed, x2) = close (reg_graph reg) x1 in (after closed result, x2)))"

text \<open>
  A synchronous generator is left to the garbage collector. A call of \<open>astream\<close> that raises is a
  stream that breaks at once; closing it does nothing.
\<close>

definition no_close :: "nat \<Rightarrow> 's \<Rightarrow> (exn, unit) outcome \<times> 's" where
  "no_close g x = (Returned (), x)"

definition finish_native_stream ::
    "'s native \<Rightarrow> run_context \<Rightarrow> (native_error, exn option \<times> string list) outcome \<Rightarrow> 's native_handler" where
  "finish_native_stream nv ctx out x =
     (case out of
        Returned (failure, chunks) \<Rightarrow>
          (Returned (NativeStream (chunks @ [native_end]) (rc_run_id ctx)),
           nv_observe nv (case failure of None \<Rightarrow> RunCompleted ctx | Some e \<Rightarrow> RunFailed ctx e) x)
      | Raised e \<Rightarrow> (Raised e, x)
      | Cancelled \<Rightarrow> (Cancelled, x)
      | Pending \<Rightarrow> (Pending, x))"

text \<open>Streaming has to be enabled for the graph and supported by it; both are asked before the body.\<close>

definition streaming_unsupported :: "'s native \<Rightarrow> native_registration \<Rightarrow> bool \<Rightarrow> native_response option" where
  "streaming_unsupported nv reg supported =
     (if \<not> ng_stream_enabled reg
      then Some (error_response 501 (Message (''Graph '' @ pt_repr (nv_text nv) (reg_name reg) @ '' is configured as invoke-only'')))
      else if \<not> supported
      then Some (error_response 501 (Message (''Graph '' @ pt_repr (nv_text nv) (reg_name reg) @ '' does not support streaming'')))
      else None)"

definition handle_stream ::
    "'s native \<Rightarrow> 's lock_side \<Rightarrow> token \<Rightarrow> native_registration \<Rightarrow> http_request \<Rightarrow> 's native_handler" where
  "handle_stream nv lo tok reg req x =
     (case streaming_unsupported nv reg (ng_streams reg) of
        Some r \<Rightarrow> refused (reject nv (native_context nv ''stream'' reg req) ''streaming_unsupported'' r x)
      | None \<Rightarrow>
          when_prepared (prepare_native nv ''stream'' reg StreamMethod (nv_valid_stream nv) (called_policy nv) req x) (\<lambda>pr.
            sync_locked lo tok (native_key reg (pr_thread pr))
              (native_stream_body nv reg (\<lambda>g i c m v n x. let (s, x1) = nv_stream nv g i c m v n x in (sync_pull s, x1))
                no_close pr (pr_thread pr))
              (busy_thread nv pr) (finish_native_stream nv (pr_context pr))))"

definition handle_stream_async ::
    "'s native \<Rightarrow> 's lock_side \<Rightarrow> token \<Rightarrow> native_registration \<Rightarrow> http_request \<Rightarrow> 's native_handler" where
  "handle_stream_async nv lo tok reg req x =
     (case streaming_unsupported nv reg (ng_astreams reg) of
        Some r \<Rightarrow> refused (reject nv (native_context nv ''stream'' reg req) ''streaming_unsupported'' r x)
      | None \<Rightarrow>
          when_prepared (prepare_native nv ''stream'' reg AstreamMethod (nv_valid_stream nv) (nv_apolicy nv) req x) (\<lambda>pr.
            async_locked lo tok (native_key reg (pr_thread pr))
              (native_stream_body nv reg (\<lambda>g i c m v n x. let (s, x1) = nv_astream nv g i c m v n x in (async_pull s, x1))
                (nv_aclose nv) pr (native_lock_thread reg (pr_thread pr)))
              (reject nv (pr_context pr) ''lock_contention'' (in_use (nv_text nv) (or_nil (pr_thread pr))))
              (finish_native_stream nv (pr_context pr))))"

section \<open>Reading the state\<close>

definition handle_state :: "'s native \<Rightarrow> native_registration \<Rightarrow> http_request \<Rightarrow> 's native_handler" where
  "handle_state nv reg req x =
     (let say = (\<lambda>code m. Returned (error_response code (Message m))); txt = nv_text nv in
      if \<not> ng_stateful reg then (say 409 (''Graph '' @ pt_repr txt (reg_name reg) @ '' does not support state retrieval''), x)
      else let tid = route_param ''thread_id'' req in
        if tid = [] then (say 400 ''Missing thread_id in URL path'', x)
        else case authorization_status (nv_policy nv) (Some tid) req x of
            (Inl e, x1) \<Rightarrow> (Raised (NativeRaised e), x1)
          | (Inr (Some status), x1) \<Rightarrow> (say status ''Access denied'', x1)
          | (Inr None, x1) \<Rightarrow>
              (case validate_thread_id tid of
                 Some e \<Rightarrow> (Returned (error_response 400 (Rule e)), x1)
               | None \<Rightarrow>
                   (case nv_state nv (reg_graph reg) [(''configurable'', PDict [(''thread_id'', PStr tid)])] x1 of
                      (Inl e, x2) \<Rightarrow>
                        (if exn_type e \<in> {''KeyError'', ''ValueError''}
                         then say 404 (''Thread '' @ pt_repr txt tid @ '' not found'')
                         else if base_exn e then Raised (NativeRaised e)
                         else say 500 ''Internal error while retrieving thread state'', x2)
                    | (Inr sn, x2) \<Rightarrow>
                        (Returned (NativeJson (PDict
                           [(''values'', if is_dict (sn_values sn) then sn_values sn else PDict []),
                            (''next'', PList (map PStr (case sn_next sn of None \<Rightarrow> [] | Some ns \<Rightarrow> ns))),
                            (''metadata'', case sn_metadata sn of None \<Rightarrow> PNone | Some [] \<Rightarrow> PNone | Some d \<Rightarrow> PDict d)])
                           None), x2))))"

section \<open>Dispatch\<close>

text \<open>The run routes of a graph: its asynchronous handlers are used when it has to be awaited.\<close>

datatype native_endpoint = Invoke | InvokeAsync | Stream | StreamAsync

definition endpoint_for :: "bool \<Rightarrow> native_registration \<Rightarrow> native_endpoint" where
  "endpoint_for streaming reg =
     (if reg_async reg \<or> \<not> reg_invocable reg then (if streaming then StreamAsync else InvokeAsync)
      else if streaming then Stream else Invoke)"

fun serve_native ::
    "native_endpoint \<Rightarrow> 's native \<Rightarrow> 's lock_side \<Rightarrow> token \<Rightarrow> native_registration \<Rightarrow> http_request \<Rightarrow> 's native_handler" where
  "serve_native Invoke = handle_invoke"
| "serve_native InvokeAsync = handle_invoke_async"
| "serve_native Stream = handle_stream"
| "serve_native StreamAsync = handle_stream_async"

fun prepare_for ::
    "native_endpoint \<Rightarrow> 's native \<Rightarrow> native_registration \<Rightarrow> http_request \<Rightarrow> 's \<Rightarrow> (exn, native_response + prepared) outcome \<times> 's" where
  "prepare_for Invoke nv reg = prepare_native nv ''invoke'' reg InvokeMethod (nv_valid_invoke nv) (called_policy nv)"
| "prepare_for InvokeAsync nv reg = prepare_native nv ''invoke'' reg AinvokeMethod (nv_valid_invoke nv) (nv_apolicy nv)"
| "prepare_for Stream nv reg = prepare_native nv ''stream'' reg StreamMethod (nv_valid_stream nv) (called_policy nv)"
| "prepare_for StreamAsync nv reg = prepare_native nv ''stream'' reg AstreamMethod (nv_valid_stream nv) (nv_apolicy nv)"

section \<open>The lock is given back\<close>

text \<open>What everything given to the handlers may do to a lock, or to a trace: keep it.\<close>

definition kept :: "('s \<Rightarrow> bool) \<Rightarrow> ('s \<Rightarrow> 'a) \<Rightarrow> 's \<Rightarrow> 's \<Rightarrow> bool" where
  "kept good view x y \<longleftrightarrow> good y \<and> view y = view x"

lemma kept_refl: "good x \<Longrightarrow> kept good view x x"
  by (simp add: kept_def)

lemma kept_trans: "kept good view x y \<Longrightarrow> kept good view y z \<Longrightarrow> kept good view x z"
  by (simp add: kept_def)

lemma kept_good: "kept good view x y \<Longrightarrow> good y"
  by (simp add: kept_def)

text \<open>What everything given to the handlers may do to a lock: keep it.\<close>

definition keeping :: "('s \<Rightarrow> bool) \<Rightarrow> ('s \<Rightarrow> 'a) \<Rightarrow> ('s \<Rightarrow> 'r \<times> 's) \<Rightarrow> bool" where
  "keeping good view f \<longleftrightarrow> (\<forall>y. good y \<longrightarrow> kept good view y (snd (f y)))"

lemma keepingD: "keeping good view f \<Longrightarrow> good y \<Longrightarrow> f y = (r, z) \<Longrightarrow> kept good view y z"
  by (force simp: keeping_def)

definition policy_keeps :: "('s \<Rightarrow> bool) \<Rightarrow> ('s \<Rightarrow> 'a) \<Rightarrow> (string option \<Rightarrow> http_request \<Rightarrow> 's \<Rightarrow> 'r \<times> 's) option \<Rightarrow> bool" where
  "policy_keeps good view policy \<longleftrightarrow> (\<forall>p tid req. policy = Some p \<longrightarrow> keeping good view (p tid req))"

definition native_keeps :: "('s \<Rightarrow> bool) \<Rightarrow> ('s \<Rightarrow> 'a) \<Rightarrow> 's native \<Rightarrow> bool" where
  "native_keeps good view nv \<longleftrightarrow>
     policy_keeps good view (nv_policy nv) \<and> policy_keeps good view (nv_apolicy nv) \<and>
     (\<forall>g i c v. keeping good view (nv_invoke nv g i c v) \<and> keeping good view (nv_ainvoke nv g i c v)) \<and>
     (\<forall>g i c m v n. keeping good view (nv_stream nv g i c m v n) \<and> keeping good view (nv_astream nv g i c m v n)) \<and>
     (\<forall>g. keeping good view (nv_aclose nv g))"

definition observing :: "('s \<Rightarrow> bool) \<Rightarrow> ('s \<Rightarrow> 'a) \<Rightarrow> 's native \<Rightarrow> bool" where
  "observing good view nv \<longleftrightarrow> (\<forall>ev y. good y \<longrightarrow> kept good view y (nv_observe nv ev y))"

lemma observingD: "observing good view nv \<Longrightarrow> good y \<Longrightarrow> kept good view y (nv_observe nv ev y)"
  by (simp add: observing_def)

lemma native_loop_kept:
  assumes gen: "\<forall>n. keeping good view (gen n)"
  shows "good x \<Longrightarrow> native_loop en max_bytes rid gen fuel n chunks buffered x = (r, cs, b, x') \<Longrightarrow> kept good view x x'"
proof (induction fuel arbitrary: n chunks buffered x)
  case 0
  then show ?case by (simp add: kept_refl)
next
  case (Suc fuel)
  obtain s x1 where g: "gen n x = (s, x1)" by (rule prod.exhaust)
  have q: "kept good view x x1" using gen Suc.prems(1) g by (blast intro: keepingD)
  show ?case
  proof (cases s)
    case (Pulled v)
    show ?thesis
    proof (cases "data_frame en v")
      case (Inl e)
      with Suc.prems(2) g Pulled q show ?thesis by simp
    next
      case (Inr frame)
      obtain ok chunks1 buffered1 where a: "append_chunk max_bytes rid frame chunks buffered = (ok, chunks1, buffered1)"
        by (metis prod.exhaust)
      show ?thesis
      proof (cases ok)
        case True
        with Suc.prems(2) g Pulled Inr a have "native_loop en max_bytes rid gen fuel (Suc n) chunks1 buffered1 x1 = (r, cs, b, x')"
          by simp
        from Suc.IH [OF kept_good [OF q] this] q show ?thesis by (rule kept_trans [rotated])
      next
        case False
        with Suc.prems(2) g Pulled Inr a q show ?thesis by simp
      qed
    qed
  qed (use Suc.prems(2) g q in auto)
qed

text \<open>The preparation ends with a rejection that is reported, or reports nothing.\<close>

lemma parse_native_request_refuses:
  assumes "parse_native_request nv allowed validate req = Inl r"
  shows "\<exists>code d. r = NativeError code d None"
proof -
  have "\<exists>code d. r = error_response code d"
    using assms by (auto simp: parse_native_request_def Let_def split: option.splits sum.splits if_splits)
  then show ?thesis by (auto simp: error_response_def)
qed

lemma resolve_version_refuses:
  "resolve_version_kwarg txt accepts version name = Inl r \<Longrightarrow> \<exists>code d. r = NativeError code d None"
  by (auto simp: resolve_version_kwarg_def error_response_def split: option.splits if_splits)

definition refused_to :: "'s native \<Rightarrow> native_response \<Rightarrow> 's \<Rightarrow> 's \<Rightarrow> bool" where
  "refused_to nv r y z \<longleftrightarrow>
     (\<exists>c reason code d. r = NativeError code d (Some (rc_run_id c)) \<and> z = nv_observe nv (RunRejected c reason) y)"

lemma refused_toI: "rid = rc_run_id c \<Longrightarrow> refused_to nv (NativeError code d (Some rid)) y (nv_observe nv (RunRejected c reason) y)"
  unfolding refused_to_def by blast

lemma refused_to_reject:
  assumes "\<exists>code d. a = NativeError code d None" "map_prod (\<lambda>r. Returned (Inl r)) id (reject nv c reason a y) = (r, z)"
  shows "case r of Returned (Inl a) \<Rightarrow> refused_to nv a y z | _ \<Rightarrow> z = y"
  using assms by (auto simp: reject_def refused_toI)

lemma prepare_native_ends:
  assumes "prepare_native nv endpoint reg method validate policy req x = (r, x')"
  shows "\<exists>y. (y = x \<or> (\<exists>tid. y = snd (native_authorization policy tid req x))) \<and>
    (case r of Returned (Inl a) \<Rightarrow> refused_to nv a y x' | _ \<Rightarrow> x' = y)"
proof (cases "parse_native_request nv (ng_allowed reg) validate req")
  case (Inl a)
  with assms have "map_prod (\<lambda>r. Returned (Inl r)) id (reject nv (native_context nv endpoint reg req) ''invalid_request'' a x) = (r, x')"
    by (simp add: prepare_native_def Let_def)
  from refused_to_reject [OF parse_native_request_refuses [OF Inl] this] show ?thesis by blast
next
  case parsed: (Inr request)
  show ?thesis
  proof (cases "validated_run_thread (or_empty (nr_config request)) (ng_saver reg)")
    case (Inl d)
    with parsed assms have "map_prod (\<lambda>r. Returned (Inl r)) id
        (reject nv (native_context nv endpoint reg req) ''invalid_config'' (error_response 400 d) x) = (r, x')"
      by (simp add: prepare_native_def Let_def)
    from refused_to_reject [OF _ this] show ?thesis by (auto simp: error_response_def)
  next
    case (Inr tid)
    obtain a y where y: "native_authorization policy tid req x = (a, y)" by (rule prod.exhaust)
    have "case r of Returned (Inl a) \<Rightarrow> refused_to nv a y x' | _ \<Rightarrow> x' = y"
    proof (cases "a = Returned None")
      case True
      with assms parsed Inr y show ?thesis
        by (auto simp: prepare_native_def Let_def reject_def refused_toI split: sum.splits dest!: resolve_version_refuses)
    next
      case False
      with assms parsed Inr y show ?thesis
        by (cases a) (auto simp: prepare_native_def Let_def error_response_def refused_toI reject_def)
    qed
    moreover have "y = snd (native_authorization policy tid req x)" using y by simp
    ultimately show ?thesis by blast
  qed
qed

lemma native_authorization_kept:
  "policy_keeps good view policy \<Longrightarrow> good x \<Longrightarrow> kept good view x (snd (native_authorization policy tid req x))"
  by (auto simp: native_authorization_def policy_keeps_def keeping_def kept_def split_def Let_def split: option.split)

lemma prepare_native_kept:
  assumes "policy_keeps good view policy" "observing good view nv" "good x"
    and run: "prepare_native nv endpoint reg method validate policy req x = (r, x')"
  shows "kept good view x x'"
proof -
  obtain y where y: "y = x \<or> (\<exists>tid. y = snd (native_authorization policy tid req x))"
      "case r of Returned (Inl a) \<Rightarrow> refused_to nv a y x' | _ \<Rightarrow> x' = y"
    using prepare_native_ends [OF run] by blast
  have k: "kept good view x y"
    using y(1) assms(3) native_authorization_kept [OF assms(1,3)] by (auto simp: kept_def)
  have "x' = y \<or> (\<exists>ev. x' = nv_observe nv ev y)"
    using y(2) by (auto simp: refused_to_def split: outcome.splits sum.splits)
  with k observingD [OF assms(2)] show ?thesis by (auto simp: kept_def)
qed

lemma run_broken_kept:
  "observing good view nv \<Longrightarrow> kept good view x y \<Longrightarrow> kept good view x (snd (run_broken nv ctx e y))"
  by (simp add: run_broken_def kept_def observing_def)

lemma invoke_body_kept:
  assumes call: "\<forall>g i c v. keeping good view (call g i c v)" and observe: "observing good view nv" and x: "good x"
  shows "kept good view x (snd (invoke_body nv reg call pr th token x))"
proof -
  let ?x = "nv_observe nv (RunStarted (pr_context pr)) x"
  have k0: "kept good view x ?x" by (rule observingD [OF observe x])
  note broken = run_broken_kept [OF observe]
  show ?thesis
  proof (cases "guard_run_config (gp_is_guard (nv_guard nv)) (gp_provider (nv_guard nv)) (reg_name reg) th token (Some (pr_config pr))")
    case (Inl ge)
    with broken [OF k0] show ?thesis by (simp add: invoke_body_def Let_def)
  next
    case (Inr cg)
    obtain config guard where cg: "cg = (config, guard)" by (rule prod.exhaust)
    obtain a x1 where a: "call (reg_graph reg) (nr_input (pr_request pr)) config (nr_version (pr_request pr)) ?x = (a, x1)"
      by (rule prod.exhaust)
    have "kept good view ?x x1" using call kept_good [OF k0] a by (blast intro: keepingD)
    with k0 have k1: "kept good view x x1" by (rule kept_trans)
    show ?thesis
      using Inr cg a k1 broken [OF k1]
      by (cases a) (auto simp: invoke_body_def Let_def split: sum.splits)
  qed
qed

lemma native_stream_body_kept:
  assumes pull: "\<forall>g i c m v n. keeping good view (pull g i c m v n)" and close: "\<forall>g. keeping good view (close g)"
    and observe: "observing good view nv" and x: "good x"
  shows "kept good view x (snd (native_stream_body nv reg pull close pr th token x))"
proof -
  let ?x = "nv_observe nv (RunStarted (pr_context pr)) x"
  have k0: "kept good view x ?x" by (rule observingD [OF observe x])
  show ?thesis
  proof (cases "guard_run_config (gp_is_guard (nv_guard nv)) (gp_provider (nv_guard nv)) (reg_name reg) th token (Some (pr_config pr))")
    case (Inl ge)
    with k0 show ?thesis by (simp add: native_stream_body_def Let_def)
  next
    case (Inr cg)
    obtain config guard where cg: "cg = (config, guard)" by (rule prod.exhaust)
    let ?gen = "pull (reg_graph reg) (nr_input (pr_request pr)) config (nr_mode (pr_request pr)) (nr_version (pr_request pr))"
    obtain r cs b x1 where l: "native_loop (nv_encoder nv) (nv_max_stream nv) (rc_run_id (pr_context pr)) ?gen
        (Suc (nv_max_stream nv)) 0 [] 0 ?x = (r, cs, b, x1)" by (metis prod.exhaust)
    have "\<forall>n. keeping good view (?gen n)" using pull by blast
    from native_loop_kept [OF this kept_good [OF k0] l] have k1: "kept good view x x1" by (rule kept_trans [OF k0])
    obtain c x2 where c: "close (reg_graph reg) x1 = (c, x2)" by (rule prod.exhaust)
    have "kept good view x x2" using close kept_good [OF k1] c by (blast intro: keepingD kept_trans [OF k1])
    with k1 show ?thesis
      using Inr cg l c by (simp add: native_stream_body_def Let_def del: native_loop.simps)
  qed
qed

lemma native_keepsD:
  assumes "native_keeps good view nv"
  shows "policy_keeps good view (called_policy nv)" "policy_keeps good view (nv_apolicy nv)"
    "\<forall>g i c v. keeping good view (called_invoke nv g i c v)" "\<forall>g i c v. keeping good view (nv_ainvoke nv g i c v)"
    "\<forall>g i c m v n. keeping good view (\<lambda>x. let (s, x1) = nv_stream nv g i c m v n x in (sync_pull s, x1))"
    "\<forall>g i c m v n. keeping good view (\<lambda>x. let (s, x1) = nv_astream nv g i c m v n x in (async_pull s, x1))"
    "\<forall>g. keeping good view (nv_aclose nv g)" "\<forall>g. keeping good view (no_close g)"
  using assms
  by (auto simp: native_keeps_def called_policy_def policy_keeps_def keeping_def called_invoke_def no_close_def kept_def
      split_def Let_def)

lemma reject_kept: "observing good view nv \<Longrightarrow> keeping good view (reject nv c reason r)"
  by (simp add: keeping_def reject_def observing_def)

lemma busy_kept: "observing good view nv \<Longrightarrow> keeping good view (busy_thread nv pr)"
  by (simp add: busy_thread_def refused_def keeping_def reject_def observing_def)

lemma finish_kept:
  assumes "observing good view nv"
  shows "\<forall>r. keeping good view (finish_invoke nv c r)" "\<forall>r. keeping good view (finish_native_stream nv c r)"
  using assms
  by (auto simp: keeping_def finish_invoke_def finish_native_stream_def observing_def kept_def split: outcome.split sum.split)

context run_scope begin

abbreviation of_key :: "lock_key \<Rightarrow> 'a \<Rightarrow> token option" where
  "of_key k \<equiv> \<lambda>s. owner s k"

lemma sync_locked_releases:
  assumes x: "inv x" and lo: "lo_acquire lo = acquire" "lo_release lo = release" "tok \<noteq> []"
    and keeps: "\<forall>t. keeping inv (of_key k) (run t)" "keeping inv (of_key k) busy" "\<forall>r. keeping inv (of_key k) (finish r)"
  shows "kept inv (of_key k) x (snd (sync_locked lo tok (Some k) run busy finish x))"
proof -
  obtain r x1 where a: "acquire k tok x = (r, x1)" by (rule prod.exhaust)
  have i1: "inv x1" using x a by (rule acquire_inv)
  show ?thesis
  proof (cases "\<exists>token. r = Inr (Some token)")
    case True
    then obtain token where r: "r = Inr (Some token)" by blast
    then have o: "token = tok" "owner x k = None" "owner x1 k = Some tok"
      using acquire_token [OF x] a by auto
    obtain b x2 where b: "run (Some token) x1 = (b, x2)" by (rule prod.exhaust)
    have x2: "inv x2" "owner x2 k = Some tok" using keepingD [OF spec [OF keeps(1)] i1 b] o by (simp_all add: kept_def)
    then have "inv (release k token x2)" "owner (release k token x2) k = None"
      using o by (simp_all add: release_inv release_owner)
    then have "kept inv (of_key k) x (snd (finish (map_outcome NativeRaised id b) (release k token x2)))"
      using keeps(3) o by (simp add: keeping_def kept_def)
    then show ?thesis using a r b o(1) lo by (simp add: sync_locked_def)
  next
    case False
    then have o: "owner x1 = owner x" using acquire_refused [OF x a] by blast
    have "kept inv (of_key k) x (snd (busy x1))" using keeps(2) i1 o by (simp add: keeping_def kept_def)
    with a False lo i1 o show ?thesis
      by (cases r) (auto simp: sync_locked_def kept_def split: option.split)
  qed
qed

lemma async_locked_releases:
  assumes x: "inv x" and lo: "lo_acquire lo = acquire" "lo_release lo = release"
    and env: "\<And>y. inv y \<Longrightarrow> inv (lo_env lo y) \<and> (owner y k = Some tok \<longrightarrow> owner (lo_env lo y) k = Some tok)"
    and keeps: "\<forall>t. keeping inv (of_key k) (run t)" "keeping inv (of_key k) busy" "\<forall>r. keeping inv (of_key k) (finish r)"
    and pending: "\<And>y. fst (finish Pending y) = Pending"
    and run: "async_locked lo tok (Some k) run busy finish x = (out, x')" "out \<noteq> Pending"
  shows "kept inv (of_key k) x x'"
proof -
  let ?body = "scope_body (Some k) run busy"
  obtain r x1 where a: "async_thread_lock acquire release (lo_env lo) (lo_first lo) (lo_undo lo) (lo_last lo) (Some k) tok ?body x = (r, x1)"
    by (rule prod.exhaust)
  have end_eq: "leave_scope finish (unboxed r) x1 = (out, x')" using run(1) a lo by (simp add: async_locked_def)
  have "r \<noteq> Pending"
  proof
    assume "r = Pending"
    with end_eq pending [of x1] run(2) show False by (simp add: leave_scope_def)
  qed
  have "inv (snd (?body t y)) \<and> owner (snd (?body t y)) k = owner y k" if "inv y" for t y
    using keeps(1,2) that by (auto simp: scope_body_def keeping_def kept_def split_def Let_def)
  from scope_releases [OF x env this a \<open>r \<noteq> Pending\<close>] have k1: "kept inv (of_key k) x x1" by (simp add: kept_def)
  have "kept inv (of_key k) x1 x'"
  proof (cases "\<exists>v. unboxed r = Returned (Inl v)")
    case True
    with end_eq k1 show ?thesis by (auto simp: leave_scope_def kept_def)
  next
    case False
    then obtain o' where fin: "finish o' x1 = (out, x')"
      using end_eq by (auto simp: leave_scope_def split: outcome.splits sum.splits)
    have "keeping inv (of_key k) (finish o')" using keeps(3) by blast
    from keepingD [OF this kept_good [OF k1] fin] show ?thesis .
  qed
  with k1 show ?thesis by (rule kept_trans)
qed

lemma native_releases:
  assumes x: "inv x" and lo: "lo_acquire lo = acquire" "lo_release lo = release" "tok \<noteq> []"
    and env: "\<And>y. inv y \<Longrightarrow> inv (lo_env lo y) \<and> (owner y k = Some tok \<longrightarrow> owner (lo_env lo y) k = Some tok)"
    and obs: "nv_observe nv = observe" and keeps: "native_keeps inv (of_key k) nv"
    and prep: "prepare_for e nv reg req x = (Returned (Inr pr), x0)" "native_key reg (pr_thread pr) = Some k"
    and run: "serve_native e nv lo tok reg req x = (out, x')" "out \<noteq> Pending"
  shows "kept inv (of_key k) x x'"
proof -
  note parts = native_keepsD [OF keeps]
  have o: "observing inv (of_key k) nv" using obs by (simp add: observing_def kept_def observe_inv observe_owner)
  have k0: "kept inv (of_key k) x x0"
    using prep(1) prepare_native_kept [OF parts(1) o x] prepare_native_kept [OF parts(2) o x] by (cases e) auto
  note i0 = kept_good [OF k0]
  have rej: "kept inv (of_key k) x (nv_observe nv ev x)" for ev using observingD [OF o x] .
  have sync: "kept inv (of_key k) x y"
    if "sync_locked lo tok (Some k) body (busy_thread nv pr) fin x0 = (q, y)"
      "\<forall>t. keeping inv (of_key k) (body t)" "\<forall>r. keeping inv (of_key k) (fin r)"
    for fin q y and body :: "token option \<Rightarrow> 'a \<Rightarrow> (exn, 'q) outcome \<times> 'a"
    using kept_trans [OF k0 sync_locked_releases [OF i0 lo that(2) busy_kept [OF o] that(3), of pr]] that(1) by simp
  have async: "kept inv (of_key k) x y"
    if "async_locked lo tok (Some k) body (reject nv cc ''lock_contention'' rr) fin x0 = (q, y)" "q \<noteq> Pending"
      "\<forall>t. keeping inv (of_key k) (body t)" "\<forall>r. keeping inv (of_key k) (fin r)" "\<And>y. fst (fin Pending y) = Pending"
    for cc rr fin q y and body :: "token option \<Rightarrow> 'a \<Rightarrow> (exn, 'q) outcome \<times> 'a"
    by (rule kept_trans [OF k0 async_locked_releases [OF i0 lo(1,2) env that(3) reject_kept [OF o] that(4,5,1,2)]])
  have inv_body: "\<forall>t. keeping inv (of_key k) (invoke_body nv reg call pr th t)" if "\<forall>g i c v. keeping inv (of_key k) (call g i c v)" for call th
    unfolding keeping_def using invoke_body_kept [OF that o] by blast
  have str_body: "\<forall>t. keeping inv (of_key k) (native_stream_body nv reg pull close pr th t)"
    if "\<forall>g i c m v n. keeping inv (of_key k) (pull g i c m v n)" "\<forall>g. keeping inv (of_key k) (close g)" for pull close th
    unfolding keeping_def using native_stream_body_kept [OF that o] by blast
  show ?thesis
  proof (cases e)
    case Invoke
    then show ?thesis
      using run(1) prep sync [OF _ inv_body [OF parts(3)] finish_kept(1) [OF o]]
      by (simp add: handle_invoke_def when_prepared_def)
  next
    case InvokeAsync
    then show ?thesis
      using run prep async [OF _ _ inv_body [OF parts(4)] finish_kept(1) [OF o]]
      by (simp add: handle_invoke_async_def when_prepared_def finish_invoke_def)
  next
    case Stream
    then show ?thesis
      using run(1) prep sync [OF _ str_body [OF parts(5,8)] finish_kept(2) [OF o]] rej
      by (auto simp: handle_stream_def when_prepared_def refused_def reject_def split: option.splits)
  next
    case StreamAsync
    then show ?thesis
      using run prep async [OF _ _ str_body [OF parts(6,7)] finish_kept(2) [OF o]] rej
      by (auto simp: handle_stream_async_def when_prepared_def finish_native_stream_def refused_def reject_def split: option.splits)
  qed
qed

end

end
