(* ===== verification/Native_Lifecycle.thy ===== *)
theory Native_Lifecycle
  imports Native_Handlers
begin

text \<open>
  What the native run endpoints promise, on the lock backends: the lock is given back, the observer
  hears of each answered request once, the asynchronous handlers agree with the synchronous ones,
  and a buffered stream is bounded.
\<close>

section \<open>The lock\<close>

text \<open>
  C16: Each of the four run endpoints gives the blob lock back: once a request has passed its checks,
  the key of its thread has its former owner again when the handler ends, with an answer, an
  exception or a cancellation, whatever policy, graph and stream do besides the lock.
\<close>

theorem native_lock_released:
  assumes "bl_ok x" "lo_acquire lo = bl_acquire sv timeout" "lo_release lo = bl_release sv" "tok \<noteq> []"
    and "\<And>y. bl_ok y \<Longrightarrow> bl_ok (lo_env lo y) \<and> (bl_owner y k = Some tok \<longrightarrow> bl_owner (lo_env lo y) k = Some tok)"
    and "nv_observe nv = noop_observer" "native_keeps bl_ok (\<lambda>s. bl_owner s k) nv"
    and "prepare_for e nv reg req x = (Returned (Inr pr), x0)" "native_key reg (pr_thread pr) = Some k"
    and "fst (serve_native e nv lo tok reg req x) \<noteq> Pending"
  shows "bl_owner (snd (serve_native e nv lo tok reg req x)) k = bl_owner x k"
  using blob_run.native_releases [OF assms(1-9) _ assms(10), of "snd (serve_native e nv lo tok reg req x)"]
  by (simp add: kept_def)

section \<open>The observer\<close>

text \<open>
  What the observer has heard of a request that is answered with \<open>r\<close>; a stream tells its own failure by
  an error event.
\<close>

definition told :: "native_response \<Rightarrow> run_event list \<Rightarrow> bool" where
  "told r evs \<longleftrightarrow>
     (\<exists>ctx reason code d. evs = [RunRejected ctx reason] \<and> r = NativeError code d (Some (rc_run_id ctx))) \<or>
     (\<exists>ctx. evs = [RunStarted ctx, RunCompleted ctx] \<and>
        (\<exists>v cs. r = NativeJson v (Some (rc_run_id ctx)) \<or> r = NativeStream cs (rc_run_id ctx) \<and> \<not> reports_error cs)) \<or>
     (\<exists>ctx e. evs = [RunStarted ctx, RunFailed ctx e] \<and>
        (\<exists>cs. r = execution_failed ctx \<or> r = NativeStream cs (rc_run_id ctx) \<and> reports_error cs))"

text \<open>
  And of one that is not answered: nothing, if the lock failed; at most a start, if an exception
  escapes; what it was told before, if it is cancelled, but no completion.
\<close>

definition only_started :: "run_event list \<Rightarrow> bool" where
  "only_started evs \<longleftrightarrow> evs = [] \<or> (\<exists>ctx. evs = [RunStarted ctx])"

definition cut_short :: "run_event list \<Rightarrow> bool" where
  "cut_short evs \<longleftrightarrow> (\<exists>ctx reason e. evs \<in> {[], [RunRejected ctx reason], [RunStarted ctx], [RunStarted ctx, RunFailed ctx e]})"

definition heard :: "(native_error, native_response) outcome \<Rightarrow> run_event list \<Rightarrow> bool" where
  "heard out evs \<longleftrightarrow>
     (case out of
        Returned r \<Rightarrow> told r evs
      | Raised (NativeLock e) \<Rightarrow> evs = []
      | Raised (NativeRaised e) \<Rightarrow> only_started evs
      | _ \<Rightarrow> cut_short evs)"

lemma only_started_simps [simp]: "only_started []" "only_started [RunStarted ctx]"
  by (simp_all add: only_started_def)

lemma cut_short_simps [simp]:
  "cut_short []" "cut_short [RunRejected ctx reason]" "cut_short [RunStarted ctx]" "cut_short [RunStarted ctx, RunFailed ctx e]"
  by (auto simp: cut_short_def)

section \<open>The frames of a stream\<close>

lemma native_frame_events [simp]:
  "frame_event (failure_frame m rid) = ''error''" "frame_event native_end = ''end''"
  by (simp_all add: failure_frame_def native_end_def native_frame_def frame_event_sse)

lemma data_frame_event: "data_frame en v = Inr frame \<Longrightarrow> frame_event frame = ''data''"
  by (auto simp: data_frame_def native_frame_def frame_event_sse split: sum.splits)

lemma native_loop_reports:
  assumes "\<not> reports_error chunks"
    and "native_loop en max_bytes rid gen fuel n chunks buffered x = (out, chunks', buffered', x')"
  shows "reports_error chunks' \<longleftrightarrow> out = TooLong"
  using assms
proof (induction en max_bytes rid gen fuel n chunks buffered x rule: native_loop.induct)
  case (2 en max_bytes rid gen fuel n chunks buffered x)
  obtain p y where p: "gen n x = (p, y)" by (rule prod.exhaust)
  show ?case
  proof (cases p)
    case (Pulled v)
    show ?thesis
    proof (cases "data_frame en v")
      case (Inl e)
      with 2(2,3) p Pulled show ?thesis by auto
    next
      case (Inr frame)
      show ?thesis
      proof (cases "buffered + byte_size frame > max_bytes")
        case True
        with 2(2,3) p Pulled Inr show ?thesis by (auto simp: append_chunk_def)
      next
        case False
        then have a: "append_chunk max_bytes rid frame chunks buffered = (True, chunks @ [frame], buffered + byte_size frame)"
          by (simp add: append_chunk_def)
        have "native_loop en max_bytes rid gen fuel (Suc n) (chunks @ [frame]) (buffered + byte_size frame) y =
            (out, chunks', buffered', x')"
          using 2(3) p Pulled Inr a by simp
        then show ?thesis using 2(1) [OF p [symmetric] Pulled Inr a [symmetric]] 2(2) data_frame_event [OF Inr] by simp
      qed
    qed
  qed (use 2(2,3) p in auto)
qed auto

lemma stream_failed_reports:
  "stream_failed limit rid e chunks buffered = Returned (failure, cs) \<Longrightarrow> failure \<noteq> None \<and> reports_error cs"
  by (auto simp: stream_failed_def append_chunk_def split: if_splits prod.splits)

lemma after_Returned: "after c r = Returned v \<Longrightarrow> r = Returned v"
  by (cases c) simp_all

lemma native_stream_reports:
  assumes "native_stream_body nv reg pull close pr th token x = (Returned (failure, chunks), x')"
  shows "reports_error chunks \<longleftrightarrow> failure \<noteq> None"
proof (cases "guard_run_config (gp_is_guard (nv_guard nv)) (gp_provider (nv_guard nv)) (reg_name reg) th token (Some (pr_config pr))")
  case (Inl ge)
  with assms show ?thesis by (auto simp: native_stream_body_def Let_def dest!: stream_failed_reports)
next
  case (Inr cg)
  let ?limit = "nv_max_stream nv" and ?rid = "rc_run_id (pr_context pr)"
  obtain config guard where cg: "cg = (config, guard)" by (rule prod.exhaust)
  let ?loop = "native_loop (nv_encoder nv) ?limit ?rid
      (pull (reg_graph reg) (nr_input (pr_request pr)) config (nr_mode (pr_request pr)) (nr_version (pr_request pr)))
      (Suc ?limit) 0 [] 0 (nv_observe nv (RunStarted (pr_context pr)) x)"
  obtain r cs b y where l: "?loop = (r, cs, b, y)" by (metis prod.exhaust)
  note reports = native_loop_reports [OF _ l]
  show ?thesis
    using assms Inr cg l reports
    by (cases r) (auto simp: native_stream_body_def Let_def simp del: native_loop.simps
        split: prod.splits sum.splits dest!: after_Returned stream_failed_reports)
qed

text \<open>The code given to the handlers says nothing to the observer.\<close>

abbreviation says_nothing :: "('s traced \<Rightarrow> 'r \<times> 's traced) \<Rightarrow> bool" where
  "says_nothing \<equiv> keeping (\<lambda>_. True) snd"

lemma says_nothingD: "says_nothing f \<Longrightarrow> snd (snd (f y)) = snd y"
  by (cases y) (simp add: keeping_def kept_def)

text \<open>What the body of a run leaves behind: a start, and a failure with the answer that tells it.\<close>

definition body_told :: "run_context \<Rightarrow> (exn, native_response + pyval) outcome \<Rightarrow> run_event list \<Rightarrow> bool" where
  "body_told ctx b evs \<longleftrightarrow>
     (case b of
        Returned (Inl r) \<Rightarrow> r = execution_failed ctx \<and> (\<exists>e. evs = [RunStarted ctx, RunFailed ctx e])
      | _ \<Rightarrow> evs = [RunStarted ctx])"

lemma run_broken_told:
  assumes "nv_observe nv = record_event" "snd x = [RunStarted ctx]"
  shows "body_told ctx (fst (run_broken nv ctx e x)) (snd (snd (run_broken nv ctx e x)))"
  using assms by (simp add: run_broken_def body_told_def record_event_def)

lemma invoke_body_told:
  assumes "nv_observe nv = record_event" "\<forall>g i c v. says_nothing (call g i c v)" "snd x = []"
    and run: "invoke_body nv reg call pr th token x = (b, x')"
  shows "body_told (pr_context pr) b (snd x')"
proof -
  let ?ctx = "pr_context pr" and ?x = "record_event (RunStarted (pr_context pr)) x"
  have x: "snd ?x = [RunStarted ?ctx]" using assms(3) by (simp add: record_event_def)
  note broken = run_broken_told [OF assms(1)]
  show ?thesis
  proof (cases "guard_run_config (gp_is_guard (nv_guard nv)) (gp_provider (nv_guard nv)) (reg_name reg) th token (Some (pr_config pr))")
    case (Inl ge)
    then have "run_broken nv ?ctx (guard_exn ge) ?x = (b, x')"
      using run assms(1) by (simp add: invoke_body_def Let_def)
    with broken [OF x, of "guard_exn ge"] show ?thesis by simp
  next
    case (Inr cg)
    obtain config guard where cg: "cg = (config, guard)" by (rule prod.exhaust)
    obtain a x1 where a: "call (reg_graph reg) (nr_input (pr_request pr)) config (nr_version (pr_request pr)) ?x = (a, x1)"
      by (rule prod.exhaust)
    have "says_nothing (call (reg_graph reg) (nr_input (pr_request pr)) config (nr_version (pr_request pr)))"
      using assms(2) by blast
    from says_nothingD [OF this, of ?x] have x1: "snd x1 = [RunStarted ?ctx]" using a x by simp
    have "(\<exists>e. run_broken nv ?ctx e x1 = (b, x')) \<or> x' = x1 \<and> (\<forall>r. b \<noteq> Returned (Inl r))"
      using run Inr cg a assms(1)
      by (cases a) (auto simp: invoke_body_def Let_def split: sum.splits)
    then show ?thesis
    proof
      assume "\<exists>e. run_broken nv ?ctx e x1 = (b, x')"
      with broken [OF x1] show ?thesis by (metis fst_conv snd_conv)
    next
      assume "x' = x1 \<and> (\<forall>r. b \<noteq> Returned (Inl r))"
      with x1 show ?thesis
        by (cases b) (auto simp: body_told_def split: sum.split)
    qed
  qed
qed

lemma native_stream_body_told:
  assumes "nv_observe nv = record_event" "\<forall>g i c m v n. says_nothing (pull g i c m v n)"
    and "\<forall>g. says_nothing (close g)" "snd x = []"
    and run: "native_stream_body nv reg pull close pr th token x = (b, x')"
  shows "snd x' = [RunStarted (pr_context pr)]"
proof -
  let ?x = "record_event (RunStarted (pr_context pr)) x" and ?saver = "nv\<lparr>nv_observe := \<lambda>_ y. y\<rparr>"
  have same: "native_stream_body ?saver reg pull close pr th token ?x = (b, x')"
    using run assms(1)
    by (cases "guard_run_config (gp_is_guard (nv_guard nv)) (gp_provider (nv_guard nv)) (reg_name reg) th token (Some (pr_config pr))")
      (simp_all add: native_stream_body_def Let_def split_def)
  have "observing (\<lambda>_. True) snd ?saver" by (simp add: observing_def kept_def)
  from native_stream_body_kept [OF assms(2,3) this, of ?x reg pr th token] same
  show ?thesis using assms(4) by (simp add: kept_def record_event_def)
qed

text \<open>A lock that keeps the trace: what is heard is heard before it, in the body, or after it.\<close>

lemma traced_ops_silent:
  "snd (snd (traced_acquire ip_acquire k tok x)) = snd x" "snd (traced_release ip_release k t x) = snd x"
  by (simp_all add: traced_acquire_def traced_release_def split: prod.split)

lemma sync_locked_heard:
  assumes lo: "lo_acquire lo = traced_acquire ip_acquire" "lo_release lo = traced_release ip_release" and x: "snd x = []"
    and run: "\<And>t y b z. snd y = [] \<Longrightarrow> body t y = (b, z) \<Longrightarrow> told_by b (snd z)"
    and fin: "\<And>b evs y. told_by b evs \<Longrightarrow> snd y = evs \<Longrightarrow>
      heard (fst (finish (map_outcome NativeRaised id b) y)) (snd (snd (finish (map_outcome NativeRaised id b) y)))"
    and busy: "\<And>y. snd y = [] \<Longrightarrow> heard (fst (busy y)) (snd (snd (busy y)))"
  shows "heard (fst (sync_locked lo tok key body busy finish x)) (snd (snd (sync_locked lo tok key body busy finish x)))"
proof -
  have free: "heard (fst (let (r, x1) = body t y in finish (map_outcome NativeRaised id r) (f x1)))
      (snd (snd (let (r, x1) = body t y in finish (map_outcome NativeRaised id r) (f x1))))"
    if "snd y = []" "\<And>z. snd (f z) = snd z" for t y f
  proof -
    obtain b z where b: "body t y = (b, z)" by (rule prod.exhaust)
    from fin [OF run [OF that(1) b], of "f z"] that(2) show ?thesis by (simp add: b)
  qed
  show ?thesis
  proof (cases key)
    case None
    with free [OF x, of id None] show ?thesis by (simp add: sync_locked_def)
  next
    case (Some k)
    obtain r y where a: "traced_acquire ip_acquire k tok x = (r, y)" by (rule prod.exhaust)
    have y: "snd y = []" using traced_ops_silent(1) [of k tok x] a x by simp
    show ?thesis
    proof (cases "\<exists>t. r = Inr (Some t) \<and> t \<noteq> []")
      case True
      then obtain t where t: "r = Inr (Some t)" "t \<noteq> []" by blast
      show ?thesis using free [OF y, of "traced_release ip_release k t" "Some t"] t a lo Some
        by (simp add: sync_locked_def traced_ops_silent)
    next
      case False
      with a lo Some busy [OF y] y show ?thesis
        by (cases r) (auto simp: sync_locked_def heard_def split: option.splits)
    qed
  qed
qed

lemma scope_trace:
  assumes env: "\<And>y. snd (env y) = snd y"
    and run: "async_thread_lock (traced_acquire ip_acquire) (traced_release ip_release) env sc sc' sc'' key tok body x = (r, x')"
  shows "(snd x' = snd x \<and> (\<forall>v. r \<noteq> Returned v)) \<or>
    (\<exists>t y b z. snd y = snd x \<and> (key \<noteq> None \<or> t = None) \<and> body t y = (b, z) \<and> snd x' = snd z \<and>
       (r = b \<or> r = Cancelled \<or> r = Pending))"
proof (cases key)
  case None
  with run have "body None x = (r, x')" by (simp add: async_thread_lock_def)
  with None show ?thesis by blast
next
  case (Some k)
  obtain a y where a: "acquire_thread_lock (traced_acquire ip_acquire) (traced_release ip_release) env sc sc' k tok x = (a, y)"
    by (rule prod.exhaust)
  have y: "snd y = snd x" by (rule acquire_trace [OF env a])
  show ?thesis
  proof (cases a)
    case (Returned token)
    obtain b z where b: "body token y = (b, z)" by (rule prod.exhaust)
    have "finish_scope (traced_release ip_release) k sc'' token b z = (r, x')"
      using run a Some Returned b by (simp add: async_thread_lock_def)
    then have "snd x' = snd z \<and> (r = b \<or> r = Cancelled \<or> r = Pending)"
      by (auto simp: finish_scope_def release_thread_lock_def traced_ops_silent split: if_splits option.splits)
    with y b Some show ?thesis by blast
  qed (use run a Some y in \<open>auto simp: async_thread_lock_def\<close>)
qed

lemma async_locked_heard:
  assumes lo: "lo_acquire lo = traced_acquire ip_acquire" "lo_release lo = traced_release ip_release" "\<And>y. snd (lo_env lo y) = snd y"
    and x: "snd x = []" and observe: "nv_observe nv = record_event"
    and run: "\<And>t y b z. snd y = [] \<Longrightarrow> body t y = (b, z) \<Longrightarrow> told_by b (snd z)"
    and cut: "\<And>b evs. told_by b evs \<Longrightarrow> cut_short evs"
    and fin: "\<And>v y. told_by (Returned v) (snd y) \<Longrightarrow> heard (fst (finish (Returned v) y)) (snd (snd (finish (Returned v) y)))"
    and raised: "\<And>e evs. told_by (Raised e) evs \<Longrightarrow> only_started evs"
    and passes: "\<And>e y. finish (Raised e) y = (Raised e, y)" "\<And>y. finish Cancelled y = (Cancelled, y)"
      "\<And>y. finish Pending y = (Pending, y)"
    and go: "async_locked lo tok key body (reject nv ctx reason (NativeError code d None)) finish x = (out, x')"
  shows "heard out (snd x')"
proof -
  let ?busy = "reject nv ctx reason (NativeError code d None)"
  obtain r x1 where a: "async_thread_lock (traced_acquire ip_acquire) (traced_release ip_release) (lo_env lo) (lo_first lo)
      (lo_undo lo) (lo_last lo) key tok (scope_body key body ?busy) x = (r, x1)" by (rule prod.exhaust)
  have leave: "leave_scope finish (unboxed r) x1 = (out, x')" using go a lo by (simp add: async_locked_def)
  have short: "heard out (snd x')" if "cut_short (snd x1)" "\<forall>v. unboxed r \<noteq> Returned v"
      "\<And>e. r = Raised e \<Longrightarrow> snd x1 = []" "\<And>e. r = Returned (Inl e) \<Longrightarrow> only_started (snd x1)"
    using leave that passes by (cases r rule: unboxed.cases) (auto simp: leave_scope_def heard_def)
  from scope_trace [OF lo(3) a] show ?thesis
  proof
    assume q: "snd x1 = snd x \<and> (\<forall>v. r \<noteq> Returned v)"
    then have "\<forall>v. unboxed r \<noteq> Returned v" by (cases r rule: unboxed.cases) auto
    with short q x show ?thesis by auto
  next
    assume "\<exists>t y b z. snd y = snd x \<and> (key \<noteq> None \<or> t = None) \<and> scope_body key body ?busy t y = (b, z) \<and> snd x1 = snd z \<and>
       (r = b \<or> r = Cancelled \<or> r = Pending)"
    then obtain t y b z where y: "snd y = []" and b: "scope_body key body ?busy t y = (b, z)" "snd x1 = snd z"
        "r = b \<or> r = Cancelled \<or> r = Pending" using x by auto
    show ?thesis
    proof (cases "key \<noteq> None \<and> t = None")
      case True
      then have bz: "b = Returned (Inr (Inl (NativeError code d (Some (rc_run_id ctx)))))" "snd z = [RunRejected ctx reason]"
        using b(1) y observe by (auto simp: scope_body_def reject_def record_event_def)
      show ?thesis
      proof (cases "r = b")
        case True
        with bz b(2) leave show ?thesis by (auto simp: leave_scope_def heard_def told_def)
      next
        case False
        with short bz b(2,3) show ?thesis by auto
      qed
    next
      case False
      then obtain c where c: "body t y = (c, z)" "b = boxed (map_outcome id Inr c)"
        using b(1) by (auto simp: scope_body_def split: prod.splits)
      from run [OF y c(1)] have told: "told_by c (snd x1)" by (simp add: b(2))
      show ?thesis
      proof (cases "\<exists>v. unboxed r = Returned v")
        case True
        then obtain v where v: "unboxed r = Returned v" by blast
        then have "r = b" "c = Returned (case v of Inr w \<Rightarrow> w)" "\<exists>w. v = Inr w" using b(3) c(2) by (cases c; auto)+
        then obtain w where w: "c = Returned w" "finish (Returned w) x1 = (out, x')"
          using leave v by (auto simp: leave_scope_def)
        with fin [of w x1] told show ?thesis by simp
      next
        case False
        have "only_started (snd x1)" if "r = Returned (Inl e)" for e
          using that b(3) c(2) told raised by (cases c) auto
        moreover have "r \<noteq> Raised e" for e using b(3) c(2) by (cases c) auto
        ultimately show ?thesis using False short cut [OF told] by simp
      qed
    qed
  qed
qed

lemma prepare_native_heard:
  assumes "nv_observe nv = record_event" "policy_keeps (\<lambda>_. True) snd policy" "snd x = []"
    and run: "prepare_native nv endpoint reg meth validate policy req x = (r, x')"
  shows "case r of Returned (Inl a) \<Rightarrow> heard (Returned a) (snd x') | _ \<Rightarrow> snd x' = []"
proof -
  obtain y where y: "y = x \<or> (\<exists>tid. y = snd (native_authorization policy tid req x))"
      "case r of Returned (Inl a) \<Rightarrow> refused_to nv a y x' | _ \<Rightarrow> x' = y"
    using prepare_native_ends [OF run] by blast
  have "snd y = []"
    using y(1) native_authorization_kept [OF assms(2), of x] assms(3) by (auto simp: kept_def)
  with y(2) assms(1) show ?thesis
    by (auto simp: heard_def told_def refused_to_def record_event_def split: outcome.splits sum.splits)
qed

lemma refused_heard:
  assumes "nv_observe nv = record_event" "snd x = []"
  shows "heard (fst (refused (reject nv c reason (error_response code d) x)))
    (snd (snd (refused (reject nv c reason (error_response code d) x))))"
  using assms by (simp add: refused_def reject_def error_response_def record_event_def heard_def told_def)

lemma when_prepared_heard:
  assumes prep: "case r of Returned (Inl a) \<Rightarrow> heard (Returned a) (snd x) | _ \<Rightarrow> snd x = []"
    and run: "\<And>pr. snd x = [] \<Longrightarrow> heard (fst (body pr x)) (snd (snd (body pr x)))"
  shows "heard (fst (when_prepared (r, x) body)) (snd (snd (when_prepared (r, x) body)))"
  using assms by (cases r) (auto simp: when_prepared_def heard_def split: sum.splits)

lemma invoke_told:
  assumes "nv_observe nv = record_event"
  shows "body_told ctx b evs \<Longrightarrow> cut_short evs"
    and "body_told ctx b (snd y) \<Longrightarrow> heard (fst (finish_invoke nv ctx (map_outcome NativeRaised id b) y))
      (snd (snd (finish_invoke nv ctx (map_outcome NativeRaised id b) y)))"
  using assms
  by (auto simp: body_told_def heard_def told_def finish_invoke_def record_event_def split: outcome.splits sum.splits)

text \<open>What the body of a stream leaves behind.\<close>

definition started :: "run_context \<Rightarrow> (exn, exn option \<times> string list) outcome \<Rightarrow> run_event list \<Rightarrow> bool" where
  "started ctx b evs \<longleftrightarrow> evs = [RunStarted ctx] \<and>
     (case b of Returned (failure, cs) \<Rightarrow> reports_error cs \<longleftrightarrow> failure \<noteq> None | _ \<Rightarrow> True)"

lemma native_stream_started:
  assumes "nv_observe nv = record_event" "\<forall>g i c m v n. says_nothing (pull g i c m v n)"
    and "\<forall>g. says_nothing (close g)" "snd x = []"
    and run: "native_stream_body nv reg pull close pr th token x = (b, x')"
  shows "started (pr_context pr) b (snd x')"
  using native_stream_body_told [OF assms] run native_stream_reports [of nv reg pull close pr th token x]
  by (cases b) (auto simp: started_def)

lemma stream_told:
  assumes "nv_observe nv = record_event" "started ctx b (snd y)"
  shows "heard (fst (finish_native_stream nv ctx (map_outcome NativeRaised id b) y))
    (snd (snd (finish_native_stream nv ctx (map_outcome NativeRaised id b) y)))"
  using assms
  by (cases b) (auto simp: started_def heard_def told_def finish_native_stream_def record_event_def split: option.split)

lemma finish_passes:
  "finish_invoke nv c (Raised e) y = (Raised e, y)" "finish_invoke nv c Cancelled y = (Cancelled, y)"
  "finish_invoke nv c Pending y = (Pending, y)" "finish_native_stream nv c (Raised e) y = (Raised e, y)"
  "finish_native_stream nv c Cancelled y = (Cancelled, y)" "finish_native_stream nv c Pending y = (Pending, y)"
  by (simp_all add: finish_invoke_def finish_native_stream_def)

definition hears :: "(native_error, native_response) outcome \<times> 's traced \<Rightarrow> bool" where
  "hears r \<longleftrightarrow> heard (fst r) (snd (snd r))"

lemma prepared_hears:
  assumes "nv_observe nv = record_event" "policy_keeps (\<lambda>_. True) snd policy" "\<And>pr y. snd y = [] \<Longrightarrow> hears (body pr y)"
  shows "hears (when_prepared (prepare_native nv endpoint reg meth validate policy req (l, [])) body)"
proof -
  obtain r y where r: "prepare_native nv endpoint reg meth validate policy req (l, []) = (r, y)" by (rule prod.exhaust)
  show ?thesis unfolding r hears_def
    by (rule when_prepared_heard [OF prepare_native_heard [OF assms(1,2) _ r] assms(3) [unfolded hears_def]]) simp_all
qed

lemma gate_hears:
  "nv_observe nv = record_event \<Longrightarrow> streaming_unsupported nv reg s = Some r \<Longrightarrow> hears (refused (reject nv c reason r (l, [])))"
  using refused_heard [of nv "(l, [])"] by (auto simp: hears_def streaming_unsupported_def split: if_splits)

lemma sync_hears:
  assumes lo: "lo_acquire lo = traced_acquire ip_acquire" "lo_release lo = traced_release ip_release"
    and o: "nv_observe nv = record_event" and x: "snd x = []"
  shows "\<forall>g i c v. says_nothing (call g i c v) \<Longrightarrow>
      hears (sync_locked lo tok key (invoke_body nv reg call pr th) (busy_thread nv pr) (finish_invoke nv (pr_context pr)) x)"
    and "\<forall>g i c m v n. says_nothing (pl g i c m v n) \<Longrightarrow> \<forall>g. says_nothing (close g) \<Longrightarrow>
      hears (sync_locked lo tok key (native_stream_body nv reg pl close pr th) (busy_thread nv pr)
        (finish_native_stream nv (pr_context pr)) x)"
  unfolding hears_def
  subgoal premises call
    by (rule sync_locked_heard [OF lo x, where told_by = "body_told (pr_context pr)"])
      (use invoke_body_told [OF o call] invoke_told [OF o] refused_heard [OF o] in \<open>auto simp: busy_thread_def in_use_def\<close>)
  subgoal premises pulls
    by (rule sync_locked_heard [OF lo x, where told_by = "started (pr_context pr)"])
      (use native_stream_started [OF o pulls] stream_told [OF o] refused_heard [OF o]
        in \<open>auto simp: busy_thread_def in_use_def\<close>)
  done

lemma async_hears:
  assumes lo: "lo_acquire lo = traced_acquire ip_acquire" "lo_release lo = traced_release ip_release" "\<And>y. snd (lo_env lo y) = snd y"
    and o: "nv_observe nv = record_event" and x: "snd x = []"
  shows "\<forall>g i c v. says_nothing (call g i c v) \<Longrightarrow>
      hears (async_locked lo tok key (invoke_body nv reg call pr th) (reject nv c reason (in_use tx t))
        (finish_invoke nv (pr_context pr)) x)"
    and "\<forall>g i c m v n. says_nothing (pl g i c m v n) \<Longrightarrow> \<forall>g. says_nothing (close g) \<Longrightarrow>
      hears (async_locked lo tok key (native_stream_body nv reg pl close pr th) (reject nv c reason (in_use tx t))
        (finish_native_stream nv (pr_context pr)) x)"
  unfolding hears_def in_use_def error_response_def
  subgoal premises call
    by (rule async_locked_heard [OF lo x o _ _ _ _ _ _ _ surjective_pairing, where told_by = "body_told (pr_context pr)"])
      (use invoke_body_told [OF o call] invoke_told(1) [OF o] invoke_told(2) [OF o, of _ "Returned v" for v]
        in \<open>auto simp: finish_passes body_told_def\<close>)
  subgoal premises pulls
    by (rule async_locked_heard [OF lo x o _ _ _ _ _ _ _ surjective_pairing, where told_by = "started (pr_context pr)"])
      (use native_stream_started [OF o pulls] stream_told [OF o, of _ "Returned v" for v]
        in \<open>auto simp: finish_passes started_def\<close>)
  done

text \<open>
  The observer hears of every answered request exactly once: a rejection, whose answer is an
  error with the id of the run; or a start and one terminal event, a completion with a result or a
  stream, or a failure with the failed run's answer. A request that ends otherwise is not reported
  as completed.
\<close>

theorem native_lifecycle:
  assumes "lo_acquire lo = traced_acquire ip_acquire" "lo_release lo = traced_release ip_release"
    and "\<And>y. snd (lo_env lo y) = snd y" "nv_observe nv = record_event" "native_keeps (\<lambda>_. True) snd nv"
  shows "heard (fst (serve_native e nv lo tok reg req (l, []))) (snd (snd (serve_native e nv lo tok reg req (l, []))))"
proof -
  note o = assms(4) and parts = native_keepsD [OF assms(5)]
  note prep = prepared_hears [OF o] and sync = sync_hears [OF assms(1,2) o] and async = async_hears [OF assms(1-3) o]
  have "hears (handle_invoke nv lo tok reg req (l, []))"
    unfolding handle_invoke_def by (rule prep [OF parts(1)], rule sync(1) [OF _ parts(3)])
  moreover have "hears (handle_invoke_async nv lo tok reg req (l, []))"
    unfolding handle_invoke_async_def by (rule prep [OF parts(2)], rule async(1) [OF _ parts(4)])
  moreover have "hears (handle_stream nv lo tok reg req (l, []))"
    unfolding handle_stream_def
    by (split option.split, intro conjI allI impI gate_hears [OF o] prep [OF parts(1)] sync(2) [OF _ parts(5,8)])
  moreover have "hears (handle_stream_async nv lo tok reg req (l, []))"
    unfolding handle_stream_async_def
    by (split option.split, intro conjI allI impI gate_hears [OF o] prep [OF parts(2)] async(2) [OF _ parts(6,7)])
  ultimately show ?thesis by (cases e) (simp_all add: hears_def)
qed

section \<open>How a run ends by itself\<close>

text \<open>
  How a run ends without a cancellation: with an answer, or of a base exception; a synchronous handler
  besides them with an error of its lock.
\<close>

definition uncut :: "(exn, 'a) outcome \<Rightarrow> bool" where
  "uncut b \<longleftrightarrow> (case b of Returned _ \<Rightarrow> True | Raised e \<Rightarrow> base_exn e | _ \<Rightarrow> False)"

definition ends_itself :: "(native_error, native_response) outcome \<Rightarrow> bool" where
  "ends_itself out \<longleftrightarrow>
     (case out of Returned _ \<Rightarrow> True | Raised (NativeLock _) \<Rightarrow> True | Raised (NativeRaised e) \<Rightarrow> base_exn e | _ \<Rightarrow> False)"

lemma uncut_simps [simp]: "uncut (Returned v)" "uncut (Raised e) = base_exn e" "\<not> uncut Cancelled" "\<not> uncut Pending"
  by (simp_all add: uncut_def)

lemma ends_itself_simps [simp]: "ends_itself (Returned v)" "ends_itself (Raised (NativeLock l))"
  "ends_itself (Raised (NativeRaised e)) = base_exn e" "\<not> ends_itself Cancelled" "\<not> ends_itself Pending"
  by (simp_all add: ends_itself_def)

lemma uncut_not_cut: "uncut b \<Longrightarrow> b \<notin> {Cancelled, Pending}"
  by auto

lemma uncut_of_failure: "uncut (fst (run_broken nv ctx e x))" "uncut (stream_failed limit rid e chunks buffered)"
  by (auto simp: run_broken_def stream_failed_def split: prod.split)

lemma invoke_body_uncut:
  assumes "\<And>g i c v y. fst (call g i c v y) \<notin> {Cancelled, Pending}"
  shows "uncut (fst (invoke_body nv reg call pr th token x))"
proof (cases "guard_run_config (gp_is_guard (nv_guard nv)) (gp_provider (nv_guard nv)) (reg_name reg) th token (Some (pr_config pr))")
  case (Inr cg)
  obtain config guard where cg: "cg = (config, guard)" by (rule prod.exhaust)
  let ?call = "call (reg_graph reg) (nr_input (pr_request pr)) config (nr_version (pr_request pr))
      (nv_observe nv (RunStarted (pr_context pr)) x)"
  obtain a y where a: "?call = (a, y)" by (rule prod.exhaust)
  then have "a \<notin> {Cancelled, Pending}"
    using assms [of "reg_graph reg" "nr_input (pr_request pr)" config "nr_version (pr_request pr)"
        "nv_observe nv (RunStarted (pr_context pr)) x"] by simp
  with Inr cg a uncut_of_failure show ?thesis
    by (cases a) (auto simp: invoke_body_def Let_def split: sum.split)
qed (use uncut_of_failure in \<open>simp add: invoke_body_def Let_def\<close>)

lemma data_frame_size: "data_frame en v = Inr frame \<Longrightarrow> 0 < byte_size frame"
  using byte_size_ge [of frame] by (auto simp: data_frame_def native_frame_def sse_frame_def split: sum.splits)

lemma native_loop_bounded:
  assumes "buffered_size chunks = buffered" "buffered \<le> max_bytes" "max_bytes < buffered + fuel"
    and "native_loop en max_bytes rid gen fuel n chunks buffered x = (out, chunks', buffered', x')"
  shows "out \<noteq> No_fuel \<and> buffered' \<le> max_bytes \<and>
    (\<exists>frames. chunks' = frames @ (if out = TooLong then [failure_frame (size_message max_bytes) rid] else []) \<and>
       buffered_size frames = buffered')"
  using assms
proof (induction en max_bytes rid gen fuel n chunks buffered x rule: native_loop.induct)
  case (2 en max_bytes rid gen fuel n chunks buffered x)
  obtain p y where p: "gen n x = (p, y)" by (rule prod.exhaust)
  show ?case
  proof (cases p)
    case (Pulled v)
    show ?thesis
    proof (cases "data_frame en v")
      case (Inl e)
      with 2(2-) p Pulled show ?thesis by auto
    next
      case (Inr frame)
      show ?thesis
      proof (cases "buffered + byte_size frame > max_bytes")
        case True
        with 2(2-) p Pulled Inr show ?thesis by (auto simp: append_chunk_def)
      next
        case False
        then have a: "append_chunk max_bytes rid frame chunks buffered = (True, chunks @ [frame], buffered + byte_size frame)"
          by (simp add: append_chunk_def)
        have "native_loop en max_bytes rid gen fuel (Suc n) (chunks @ [frame]) (buffered + byte_size frame) y =
            (out, chunks', buffered', x')"
          using 2(5) p Pulled Inr a by simp
        then show ?thesis
          using 2(1) [OF p [symmetric] Pulled Inr a [symmetric]] 2(2-4) False data_frame_size [OF Inr] by simp
      qed
    qed
  qed (use 2(2-) p in auto)
qed simp

lemma native_loop_ends:
  assumes "\<And>n y. fst (gen n y) \<notin> {Stopped, Waiting}"
  shows "fst (native_loop en max_bytes rid gen fuel n chunks buffered x) \<notin> {Abandoned, Unfinished}"
proof (induction en max_bytes rid gen\<equiv>gen fuel n chunks buffered x rule: native_loop.induct)
  case (2 en max_bytes rid fuel n chunks buffered x)
  obtain p y where p: "gen n x = (p, y)" by (rule prod.exhaust)
  show ?case
  proof (cases p)
    case (Pulled v)
    show ?thesis
    proof (cases "data_frame en v")
      case (Inr frame)
      obtain ok cs b where c: "append_chunk max_bytes rid frame chunks buffered = (ok, cs, b)" by (metis prod.exhaust)
      with 2 [OF p [symmetric] Pulled Inr c [symmetric]] p Pulled Inr show ?thesis by (cases ok) auto
    qed (use p Pulled in simp)
  qed (use p assms [of n x] in simp_all)
qed simp

lemma native_stream_body_uncut:
  assumes "\<And>g i c m v n y. fst (pull g i c m v n y) \<notin> {Stopped, Waiting}" "\<And>g y. fst (close g y) = Returned ()"
  shows "uncut (fst (native_stream_body nv reg pull close pr th token x))"
proof (cases "guard_run_config (gp_is_guard (nv_guard nv)) (gp_provider (nv_guard nv)) (reg_name reg) th token (Some (pr_config pr))")
  case (Inl ge)
  then show ?thesis using uncut_of_failure by (simp add: native_stream_body_def Let_def)
next
  case (Inr cg)
  obtain config guard where cg: "cg = (config, guard)" by (rule prod.exhaust)
  let ?loop = "native_loop (nv_encoder nv) (nv_max_stream nv) (rc_run_id (pr_context pr))
      (pull (reg_graph reg) (nr_input (pr_request pr)) config (nr_mode (pr_request pr)) (nr_version (pr_request pr)))
      (Suc (nv_max_stream nv)) 0 [] 0 (nv_observe nv (RunStarted (pr_context pr)) x)"
  obtain r cs b y where l: "?loop = (r, cs, b, y)" by (metis prod.exhaust)
  have "fst ?loop \<notin> {Abandoned, Unfinished}" by (rule native_loop_ends) (rule assms(1))
  with l native_loop_bounded [OF _ _ _ l] have r: "r \<notin> {Abandoned, Unfinished, No_fuel}" by simp
  obtain c z where c: "close (reg_graph reg) y = (c, z)" by (rule prod.exhaust)
  with assms(2) [of "reg_graph reg" y] have "c = Returned ()" by simp
  with Inr cg l c r uncut_of_failure show ?thesis
    by (cases r) (simp_all add: native_stream_body_def Let_def del: native_loop.simps split: sum.split)
qed

lemma called_invoke_ends: "fst (called_invoke nv g i c v y) \<notin> {Cancelled, Pending}"
proof -
  obtain r z where "nv_invoke nv g i c v y = (r, z)" by (rule prod.exhaust)
  then show ?thesis by (cases r) (simp_all add: called_invoke_def)
qed

lemma sync_pull_ends: "sync_pull s \<notin> {Stopped, Waiting}"
  by (cases s) simp_all

lemma ends_with_finish:
  assumes "uncut b" "\<And>v. \<exists>r y. finish (Returned v) x = (Returned r, y)" "\<And>e. finish (Raised e) x = (Raised e, x)"
  shows "ends_itself (fst (finish (map_outcome NativeRaised id b) x))"
  using assms(1,3) assms(2) [of v for v] by (cases b) (auto, metis ends_itself_simps(1) fst_conv)

lemma sync_locked_ends:
  assumes "\<And>t y. uncut (fst (run t y))" "\<And>v y. \<exists>r z. finish (Returned v) y = (Returned r, z)"
    and "\<And>e y. finish (Raised e) y = (Raised e, y)" "\<And>y. ends_itself (fst (busy y))"
  shows "ends_itself (fst (sync_locked lo tok key run busy finish x))"
proof -
  have "ends_itself (fst (let (r, y) = run t y in finish (map_outcome NativeRaised id r) (f y)))" for t y f
    using ends_with_finish [of "fst (run t y)" finish "f (snd (run t y))"] assms by (simp add: split_def Let_def)
  then show ?thesis using assms(4)
    by (auto simp: sync_locked_def split: option.split prod.split sum.split)
qed

lemma finish_answers:
  "\<exists>r z. finish_invoke nv ctx (Returned v) y = (Returned r, z)" "\<exists>r z. finish_native_stream nv ctx (Returned w) y = (Returned r, z)"
  by (auto simp: finish_invoke_def finish_native_stream_def split: sum.split prod.split)

lemma called_prepared_ends:
  assumes "\<And>pr x. ends_itself (fst (body pr x))"
  shows "ends_itself (fst (when_prepared (prepare_native nv endpoint reg meth validate (called_policy nv) req x) body))"
proof -
  have "uncut (fst (native_authorization (called_policy nv) tid req x))" for tid
  proof (cases "nv_policy nv")
    case (Some p)
    obtain r y where p: "p tid req x = (r, y)" by (rule prod.exhaust)
    with Some show ?thesis by (cases r) (auto simp: native_authorization_def called_policy_def)
  qed (simp add: native_authorization_def called_policy_def)
  then have "uncut (fst (prepare_native nv endpoint reg meth validate (called_policy nv) req x))"
    by (auto simp: prepare_native_def Let_def split: sum.split prod.split outcome.split option.split)
      (metis fst_conv uncut_simps)+
  then show ?thesis using assms
    by (auto simp: when_prepared_def split: prod.split outcome.split sum.split)
qed

lemma busy_ends: "ends_itself (fst (busy_thread nv pr y))"
  by (simp add: busy_thread_def refused_def)

text \<open>A synchronous handler answers, or its lock fails, or a base exception passes.\<close>

lemma sync_handlers_end:
  "ends_itself (fst (handle_invoke nv lo tok reg req x))" "ends_itself (fst (handle_stream nv lo tok reg req x))"
proof -
  show "ends_itself (fst (handle_invoke nv lo tok reg req x))"
    unfolding handle_invoke_def
    by (intro called_prepared_ends sync_locked_ends finish_answers(1) busy_ends finish_passes invoke_body_uncut called_invoke_ends)
  have pulls: "fst (let (s, y) = nv_stream nv g i c m v n y in (sync_pull s, y)) \<notin> {Stopped, Waiting}" for g i c m v n y
    using sync_pull_ends by (simp add: split_def Let_def)
  have "fst (no_close g y) = Returned ()" for g y by (simp add: no_close_def)
  from native_stream_body_uncut [OF pulls this]
  show "ends_itself (fst (handle_stream nv lo tok reg req x))"
    unfolding handle_stream_def
    by (auto simp: refused_def split: option.split
        intro!: called_prepared_ends sync_locked_ends finish_answers(2) busy_ends finish_passes)
qed

section \<open>The asynchronous handlers agree\<close>

context run_scope begin

lemma locked_matches:
  assumes x: "inv x" and lo: "lo_acquire lo = acquire" "tok \<noteq> []"
    and calm: "await_schedule (lo_first lo) = Some False" "await_schedule (lo_last lo) = Some False"
    and ends: "\<And>t y. fst (run t y) \<notin> {Cancelled, Pending}"
    and same: "\<And>t. (key = None) = (t = None) \<Longrightarrow> run' t = run t"
    and passes: "\<And>e y. finish (Raised e) y = (Raised e, y)"
  shows "async_locked lo tok key run' busy finish x = sync_locked lo tok key run (\<lambda>y. refused (busy y)) finish x"
proof (cases key)
  case None
  obtain b y where b: "run None x = (b, y)" by (rule prod.exhaust)
  with ends [of None x] None same [of None] show ?thesis
    by (cases b) (simp_all add: async_locked_def sync_locked_def async_thread_lock_def scope_body_def leave_scope_def)
next
  case (Some k)
  obtain r x1 where a: "acquire k tok x = (r, x1)" by (rule prod.exhaust)
  show ?thesis
  proof (cases r)
    case (Inl e)
    with a Some calm(1) lo(1) passes show ?thesis
      by (simp add: async_locked_def sync_locked_def async_thread_lock_def acquire_thread_lock_def leave_scope_def Let_def)
  next
    case token: (Inr token)
    show ?thesis
    proof (cases token)
      case None
      obtain q y where q: "busy x1 = (q, y)" by (rule prod.exhaust)
      with a Some token None calm(1) lo(1) show ?thesis
        by (simp add: async_locked_def sync_locked_def async_thread_lock_def acquire_thread_lock_def scope_body_def
            finish_scope_def leave_scope_def refused_def Let_def)
    next
      case tk: (Some t)
      then have t: "t = tok" using acquire_token [OF x, of k tok t x1] a token by simp
      obtain b y where b: "run (Some t) x1 = (b, y)" by (rule prod.exhaust)
      have b': "run' (Some t) x1 = (b, y)" using same [of "Some t"] Some b by simp
      show ?thesis
        using ends [of "Some t" x1] a Some token tk t b b' calm lo passes
        by (cases b) (simp_all add: async_locked_def sync_locked_def async_thread_lock_def acquire_thread_lock_def
            scope_body_def finish_scope_def release_thread_lock_def leave_scope_def Let_def)
    qed
  qed
qed

end

lemma invoke_body_thread:
  "(if token = None then True else th = th') \<Longrightarrow> invoke_body nv reg call pr th token = invoke_body nv reg call pr th' token"
  using guard_thread [of None th th'] by (cases token) (simp_all add: invoke_body_def fun_eq_iff)

lemma native_stream_body_thread:
  "(if token = None then True else th = th') \<Longrightarrow>
   native_stream_body nv reg pull close pr th token = native_stream_body nv reg pull close pr th' token"
  using guard_thread [of None th th'] by (cases token) (simp_all add: native_stream_body_def fun_eq_iff)

lemma native_key_thread: "native_key reg th \<noteq> None \<Longrightarrow> native_lock_thread reg th = th"
  by (auto simp: native_key_def native_lock_thread_def split: option.splits if_splits)

text \<open>
  What is asked of the awaited code so that it is the called code: the policy, \<open>ainvoke\<close> and \<open>astream\<close>
  compute what their counterparts do, closing the stream does nothing.
\<close>

definition awaits_the_same :: "'s native \<Rightarrow> native_registration \<Rightarrow> bool" where
  "awaits_the_same nv reg \<longleftrightarrow>
     nv_apolicy nv = called_policy nv \<and> nv_ainvoke nv = called_invoke nv \<and>
     (\<forall>g i c m v n y. map_prod async_pull id (nv_astream nv g i c m v n y) = map_prod sync_pull id (nv_stream nv g i c m v n y)) \<and>
     nv_aclose nv = no_close \<and> ng_astreams reg = ng_streams reg \<and>
     (\<forall>g. nv_versioned nv g AinvokeMethod = nv_versioned nv g InvokeMethod \<and>
        nv_versioned nv g AstreamMethod = nv_versioned nv g StreamMethod)"

lemma when_prepared_cong:
  "(\<And>pr x. p = (Returned (Inr pr), x) \<Longrightarrow> f pr x = g pr x) \<Longrightarrow> when_prepared p f = when_prepared p g"
  by (auto simp: when_prepared_def split: prod.split outcome.split sum.split)

lemma prepare_native_method:
  assumes "nv_versioned nv (reg_graph reg) meth = nv_versioned nv (reg_graph reg) meth'"
  shows "prepare_native nv endpoint reg meth = prepare_native nv endpoint reg meth'"
  unfolding prepare_native_def [abs_def] by (simp only: assms)

lemma prepared_good:
  assumes "policy_keeps good view policy" "observing good view nv" "good x"
  shows "prepare_native nv endpoint reg meth validate policy req x = (Returned (Inr pr), y) \<Longrightarrow> good y"
  using prepare_native_kept [OF assms] by (rule kept_good)

lemma key_and_thread:
  assumes "(native_key reg th = None) = (t = None)"
  shows "invoke_body nv reg call pr (native_lock_thread reg th) t = invoke_body nv reg call pr th t"
    and "native_stream_body nv reg pl close pr (native_lock_thread reg th) t = native_stream_body nv reg pl close pr th t"
  using assms native_key_thread [of reg th] by (auto intro: invoke_body_thread native_stream_body_thread)

lemma locked_runs_match:
  fixes lo :: "inproc traced lock_side"
  assumes x: "traced_quiet x" and lo: "lo_acquire lo = traced_acquire ip_acquire" "tok \<noteq> []"
    and calm: "await_schedule (lo_first lo) = Some False" "await_schedule (lo_last lo) = Some False"
  shows "async_locked lo tok (native_key reg (pr_thread pr))
        (invoke_body nv reg (called_invoke nv) pr (native_lock_thread reg (pr_thread pr)))
        (reject nv (pr_context pr) ''lock_contention'' (in_use (nv_text nv) (or_nil (pr_thread pr)))) (finish_invoke nv c) x =
      sync_locked lo tok (native_key reg (pr_thread pr)) (invoke_body nv reg (called_invoke nv) pr (pr_thread pr))
        (busy_thread nv pr) (finish_invoke nv c) x"
    and "\<lbrakk>\<And>g i c m v n y. fst (pl g i c m v n y) \<notin> {Stopped, Waiting}\<rbrakk> \<Longrightarrow>
      async_locked lo tok (native_key reg (pr_thread pr))
        (native_stream_body nv reg pl no_close pr (native_lock_thread reg (pr_thread pr)))
        (reject nv (pr_context pr) ''lock_contention'' (in_use (nv_text nv) (or_nil (pr_thread pr)))) (finish_native_stream nv c) x =
      sync_locked lo tok (native_key reg (pr_thread pr)) (native_stream_body nv reg pl no_close pr (pr_thread pr))
        (busy_thread nv pr) (finish_native_stream nv c) x"
proof -
  have busy: "busy_thread nv pr =
      (\<lambda>y. refused (reject nv (pr_context pr) ''lock_contention'' (in_use (nv_text nv) (or_nil (pr_thread pr))) y))"
    by (simp add: busy_thread_def fun_eq_iff)
  note matches = traced.locked_matches [OF x lo calm] and ends = uncut_not_cut [OF invoke_body_uncut [OF called_invoke_ends]]
  show "async_locked lo tok (native_key reg (pr_thread pr))
        (invoke_body nv reg (called_invoke nv) pr (native_lock_thread reg (pr_thread pr)))
        (reject nv (pr_context pr) ''lock_contention'' (in_use (nv_text nv) (or_nil (pr_thread pr)))) (finish_invoke nv c) x =
      sync_locked lo tok (native_key reg (pr_thread pr)) (invoke_body nv reg (called_invoke nv) pr (pr_thread pr))
        (busy_thread nv pr) (finish_invoke nv c) x"
    unfolding busy by (rule matches [OF ends key_and_thread(1)]) (simp_all add: finish_passes)
  show "async_locked lo tok (native_key reg (pr_thread pr))
        (native_stream_body nv reg pl no_close pr (native_lock_thread reg (pr_thread pr)))
        (reject nv (pr_context pr) ''lock_contention'' (in_use (nv_text nv) (or_nil (pr_thread pr)))) (finish_native_stream nv c) x =
      sync_locked lo tok (native_key reg (pr_thread pr)) (native_stream_body nv reg pl no_close pr (pr_thread pr))
        (busy_thread nv pr) (finish_native_stream nv c) x"
    if "\<And>g i c m v n y. fst (pl g i c m v n y) \<notin> {Stopped, Waiting}"
    unfolding busy
    by (rule matches [OF uncut_not_cut [OF native_stream_body_uncut [OF that]] key_and_thread(2)]) (simp_all add: finish_passes no_close_def)
qed

text \<open>
  C27: The asynchronous handlers match the synchronous ones, answer, error, lock operations and
  events: when they are not cancelled and what they await computes what the others call, although
  the two hand different threads to the guard and test the token differently.
\<close>

theorem native_async_matches:
  assumes "traced_quiet x" "tok \<noteq> []" "lo_acquire lo = traced_acquire ip_acquire"
    and "await_schedule (lo_first lo) = Some False" "await_schedule (lo_last lo) = Some False"
    and "awaits_the_same nv reg" "native_keeps traced_quiet (\<lambda>_. ()) nv" "nv_observe nv = record_event"
  shows "handle_invoke_async nv lo tok reg req x = handle_invoke nv lo tok reg req x \<and>
    handle_stream_async nv lo tok reg req x = handle_stream nv lo tok reg req x"
proof
  have o: "observing traced_quiet (\<lambda>_. ()) nv"
    using assms(8) by (simp add: observing_def kept_def record_event_def traced_quiet_def)
  have same: "nv_apolicy nv = called_policy nv" "nv_ainvoke nv = called_invoke nv" "nv_aclose nv = no_close"
      "ng_astreams reg = ng_streams reg"
    and pulls: "map_prod async_pull id (nv_astream nv g i c m v n y) = map_prod sync_pull id (nv_stream nv g i c m v n y)" for g i c m v n y
    using assms(6) unfolding awaits_the_same_def by blast+
  have meth: "prepare_native nv endpoint reg AinvokeMethod = prepare_native nv endpoint reg InvokeMethod"
      "prepare_native nv endpoint reg AstreamMethod = prepare_native nv endpoint reg StreamMethod" for endpoint
    by (rule prepare_native_method, use assms(6) in \<open>simp add: awaits_the_same_def\<close>)+
  note runs = locked_runs_match [OF _ assms(3,2,4,5)] and good = prepared_good [OF native_keepsD(1) [OF assms(7)] o assms(1)]
  show "handle_invoke_async nv lo tok reg req x = handle_invoke nv lo tok reg req x"
    unfolding handle_invoke_async_def handle_invoke_def same meth
    by (rule when_prepared_cong, rule runs(1), erule good)
  let ?pull = "\<lambda>g i c m v n x. let (s, x1) = nv_stream nv g i c m v n x in (sync_pull s, x1)"
  have pull: "(\<lambda>g i c m v n x. let (s, x1) = nv_astream nv g i c m v n x in (async_pull s, x1)) = ?pull"
    using pulls by (simp add: fun_eq_iff map_prod_def split_def Let_def)
  have "fst (?pull g i c m v n y) \<notin> {Stopped, Waiting}" for g i c m v n y
    using sync_pull_ends by (simp add: split_def Let_def)
  from runs(2) [OF _ this] show "handle_stream_async nv lo tok reg req x = handle_stream nv lo tok reg req x"
    unfolding handle_stream_async_def handle_stream_def same meth pull
    by (auto split: option.split intro!: when_prepared_cong dest!: good)
qed

section \<open>The buffer\<close>

text \<open>What a stream is answered with: data within the limit, then at most one error frame, which is not counted.\<close>

definition native_within :: "nat \<Rightarrow> string \<Rightarrow> exn option \<Rightarrow> string list \<Rightarrow> bool" where
  "native_within max_bytes rid failure chunks \<longleftrightarrow>
     (\<exists>frames. buffered_size frames \<le> max_bytes \<and>
        (chunks = frames \<or> failure \<noteq> None \<and> chunks = frames @ [failure_frame (size_message max_bytes) rid]))"

lemma native_withinI:
  "buffered_size frames \<le> limit \<Longrightarrow> native_within limit rid failure frames"
  "buffered_size frames \<le> limit \<Longrightarrow> native_within limit rid (Some e) (frames @ [failure_frame (size_message limit) rid])"
  by (auto simp: native_within_def)

lemma stream_failed_within:
  assumes "buffered_size chunks \<le> limit" "buffered_size chunks = buffered"
    and "stream_failed limit rid e chunks buffered = Returned (failure, chunks')"
  shows "native_within limit rid failure chunks'"
proof (cases "buffered + byte_size (failure_frame ''stream processing failed'' rid) > limit")
  case True
  with assms native_withinI(2) [OF assms(1)] show ?thesis
    by (auto simp: stream_failed_def append_chunk_def split: if_splits)
next
  case False
  with assms show ?thesis
    by (auto simp: stream_failed_def append_chunk_def intro!: native_withinI(1) split: if_splits)
qed

lemma native_stream_within:
  assumes "native_stream_body nv reg pull close pr th token x = (Returned (failure, chunks), x')"
  shows "native_within (nv_max_stream nv) (rc_run_id (pr_context pr)) failure chunks"
proof (cases "guard_run_config (gp_is_guard (nv_guard nv)) (gp_provider (nv_guard nv)) (reg_name reg) th token (Some (pr_config pr))")
  case (Inl ge)
  with assms show ?thesis
    by (intro stream_failed_within [of "[]" _ 0]) (auto simp: native_stream_body_def Let_def)
next
  case (Inr cg)
  let ?limit = "nv_max_stream nv" and ?rid = "rc_run_id (pr_context pr)"
  obtain config guard where cg: "cg = (config, guard)" by (rule prod.exhaust)
  let ?loop = "native_loop (nv_encoder nv) ?limit ?rid
      (pull (reg_graph reg) (nr_input (pr_request pr)) config (nr_mode (pr_request pr)) (nr_version (pr_request pr)))
      (Suc ?limit) 0 [] 0 (nv_observe nv (RunStarted (pr_context pr)) x)"
  obtain r cs b y where l: "?loop = (r, cs, b, y)" by (metis prod.exhaust)
  from native_loop_bounded [OF _ _ _ l] obtain frames where
      b: "r \<noteq> No_fuel" "b \<le> ?limit" "buffered_size frames = b"
      "cs = frames @ (if r = TooLong then [failure_frame (size_message ?limit) ?rid] else [])" by auto
  note failed = stream_failed_within [of frames ?limit b ?rid]
  show ?thesis
  proof (cases r)
    case Complete
    with assms Inr cg l b failed show ?thesis
      by (auto simp: native_stream_body_def Let_def native_within_def simp del: native_loop.simps
          split: prod.splits sum.splits dest!: after_Returned)
  next
    case TooLong
    with assms Inr cg l b show ?thesis
      by (auto simp: native_stream_body_def Let_def native_within_def simp del: native_loop.simps
          split: prod.splits dest!: after_Returned)
  next
    case (Error e)
    with assms Inr cg l b failed show ?thesis
      by (auto simp: native_stream_body_def Let_def simp del: native_loop.simps
          split: prod.splits dest!: after_Returned)
  qed (use assms Inr cg l b in \<open>auto simp: native_stream_body_def Let_def simp del: native_loop.simps
          split: prod.splits dest!: after_Returned\<close>)
qed

text \<open>
  A native stream ends and is bounded, whatever the graph yields, for ever if it likes: the loop
  returns within \<open>max_bytes + 1\<close> steps, its data frames fit in \<open>max_bytes\<close> together, and the answer has
  besides them at most the error frame of an overflow, which always tells the observer a failure.
\<close>

theorem native_stream_bounded:
  "fst (native_loop en max_bytes rid gen (Suc max_bytes) 0 [] 0 x) \<noteq> No_fuel \<and>
   (case native_stream_body nv reg pull close pr th token y of
      (Returned (failure, chunks), _) \<Rightarrow> native_within (nv_max_stream nv) (rc_run_id (pr_context pr)) failure chunks
    | _ \<Rightarrow> True)"
proof
  obtain r cs b z where "native_loop en max_bytes rid gen (Suc max_bytes) 0 [] 0 x = (r, cs, b, z)" by (metis prod.exhaust)
  from native_loop_bounded [OF _ _ _ this] this
  show "fst (native_loop en max_bytes rid gen (Suc max_bytes) 0 [] 0 x) \<noteq> No_fuel" by simp
qed (auto split: prod.split outcome.split intro: native_stream_within)

section \<open>Examples\<close>

definition native_example :: "native_request" where
  "native_example = \<lparr>nr_input = [], nr_config = Some [(''configurable'', PDict [(''thread_id'', PStr ''t'')])],
     nr_mode = ''values'', nr_version = None\<rparr>"

definition native_with ::
    "(run_event \<Rightarrow> 's \<Rightarrow> 's) \<Rightarrow> (nat \<Rightarrow> pyval dict \<Rightarrow> pyval dict option \<Rightarrow> string option \<Rightarrow> 's \<Rightarrow> (exn, pyval) outcome \<times> 's) \<Rightarrow>
     's native" where
  "native_with observe ainvoke =
     \<lparr>nv_max_body = 100, nv_max_depth = 9, nv_max_nodes = 9, nv_max_stream = 100, nv_text = example_text, nv_fresh = ''run'',
      nv_valid_invoke = (\<lambda>_. Inr native_example), nv_valid_stream = (\<lambda>_. Inr native_example),
      nv_policy = None, nv_apolicy = None,
      nv_guard = \<lparr>gp_is_guard = (\<lambda>_. False), gp_provider = None, gp_check = (\<lambda>_ _. None)\<rparr>,
      nv_observe = observe, nv_encoder = \<lparr>en_error = (\<lambda>_. None), en_text = (\<lambda>_. [])\<rparr>, nv_object = (\<lambda>_. None),
      nv_versioned = (\<lambda>_ _. False), nv_invoke = (\<lambda>g i c v x. (Inr (PDict i), x)),
      nv_ainvoke = ainvoke, nv_stream = (\<lambda>g i c m v n x. (Yield (PDict i), x)),
      nv_astream = (\<lambda>g i c m v n x. (AYield (PDict i), x)), nv_aclose = no_close,
      nv_state = (\<lambda>g c x. (Inl (Exn ''KeyError'' []), x))\<rparr>"

definition example_native :: "(run_event \<Rightarrow> 's \<Rightarrow> 's) \<Rightarrow> 's native" where
  "example_native observe = native_with observe (\<lambda>g i c v x. (Returned (PDict i), x))"

definition example_graph :: native_registration where
  "example_graph = \<lparr>reg_graph = 0, reg_name = ''g'', reg_async = False, reg_invocable = True, reg_checkpointer = True,
     ng_saver = True, ng_stream_enabled = True, ng_streams = True, ng_astreams = True, ng_stateful = True, ng_allowed = []\<rparr>"

lemma example_native_keeps: "(\<And>x. good x) \<Longrightarrow> native_keeps good view (example_native observe)"
  "native_keeps good view (example_native noop_observer)"
  by (auto simp: native_keeps_def policy_keeps_def keeping_def kept_def example_native_def native_with_def no_close_def)

definition example_call :: prepared where
  "example_call = \<lparr>pr_context = (native_context (example_native noop_observer :: unit native) ''invoke'' example_graph
       \<lparr>rq_body = ''{}'', rq_params = [], rq_headers = []\<rparr>)\<lparr>rc_thread := Some ''t''\<rparr>, pr_request = native_example,
     pr_config = [(''configurable'', PDict [(''thread_id'', PStr ''t'')])], pr_thread = Some ''t''\<rparr>"

lemma example_parsed: "loads ''{}'' = Some (PDict [])" "validate_input_structure (PDict []) 9 9 = None"
  "validate_input_structure (PDict [(''configurable'', PDict [(''thread_id'', PStr ''t'')])]) 9 9 = None"
  "validate_native_config [(''configurable'', PDict [(''thread_id'', PStr ''t'')])] [] = None"
  "validated_run_thread [(''configurable'', PDict [(''thread_id'', PStr ''t'')])] True = Inr (Some ''t'')"
  by code_simp+

lemma example_prepared:
  "prepare_native (native_with observe ainvoke) ''invoke'' example_graph meth (\<lambda>_. Inr native_example) None
     \<lparr>rq_body = ''{}'', rq_params = [], rq_headers = []\<rparr> x = (Returned (Inr example_call), x)"
  using example_parsed
  by (simp add: prepare_native_def parse_native_request_def example_native_def native_with_def example_graph_def native_example_def
      validate_body_size_def native_authorization_def resolve_version_kwarg_def example_call_def native_context_def
      opt_orelse_def or_empty_def Let_def)

abbreviation braces :: http_request where
  "braces \<equiv> \<lparr>rq_body = ''{}'', rq_params = [], rq_headers = []\<rparr>"

lemma native_lock_released_witness:
  "(let r = serve_native Invoke (example_native noop_observer) blob_side ''tok'' example_graph braces (example_lock, 0)
    in if fst r = Pending then True else bl_owner (snd r) (Key ''g'' ''t'') = None)"
proof -
  have ok: "bl_ok (example_lock, 0 :: nat)" "bl_owner (example_lock, 0 :: nat) (Key ''g'' ''t'') = None"
    by (simp_all add: bl_ok_def bl_owner_def example_lock_def)
  have prep: "prepare_for Invoke (example_native noop_observer) example_graph braces x = (Returned (Inr example_call), x)" for x :: "blob_lock \<times> nat"
    using example_prepared [where observe = noop_observer and meth = InvokeMethod and x = x]
    unfolding example_native_def by (simp add: called_policy_def native_with_def)
  have run: "bl_owner (snd (serve_native Invoke (example_native noop_observer) blob_side ''tok'' example_graph braces (example_lock, 0)))
      (Key ''g'' ''t'') = bl_owner (example_lock, 0 :: nat) (Key ''g'' ''t'')"
    if "fst (serve_native Invoke (example_native noop_observer) blob_side ''tok'' example_graph braces (example_lock, 0 :: nat)) \<noteq> Pending"
    by (rule native_lock_released [OF ok(1) _ _ _ _ _ example_native_keeps(2) prep _ that])
      (simp_all add: blob_side_def example_native_def native_with_def native_key_def native_lock_thread_def example_call_def example_graph_def)
  then show ?thesis using ok(2) by (simp add: Let_def del: serve_native.simps)
qed

lemma native_lifecycle_witness:
  "heard (fst (serve_native StreamAsync (example_native record_event) example_lock_side ''tok'' example_graph braces (inproc_init, [])))
    (snd (snd (serve_native StreamAsync (example_native record_event) example_lock_side ''tok'' example_graph braces (inproc_init, []))))"
  by (rule native_lifecycle) (simp_all add: example_lock_side_def example_native_keeps, simp add: example_native_def native_with_def)

lemma native_async_matches_witness:
  "handle_invoke_async (example_native record_event) example_lock_side ''tok'' example_graph braces (inproc_init, []) =
     handle_invoke (example_native record_event) example_lock_side ''tok'' example_graph braces (inproc_init, [])"
proof (rule conjunct1 [OF native_async_matches [OF example_quiet]])
  show "awaits_the_same (example_native record_event :: inproc traced native) example_graph"
    by (simp add: awaits_the_same_def example_native_def native_with_def called_policy_def called_invoke_def example_graph_def fun_eq_iff)
  show "native_keeps traced_quiet (\<lambda>_. ()) (example_native record_event)"
    by (auto simp: native_keeps_def policy_keeps_def keeping_def kept_def example_native_def native_with_def no_close_def)
qed (simp_all add: example_lock_side_def await_schedule_def calm_def example_native_def native_with_def)

text \<open>
  A graph that is cancelled leaves a start without a terminal event, although the documentation of
  \<open>RunObserver\<close> promises exactly one.
\<close>

definition cancelled_native :: "inproc traced native" where
  "cancelled_native = native_with record_event (\<lambda>g i c v x. (Cancelled, x))"

lemma cancelled_run_unreported:
  "let r = handle_invoke_async cancelled_native example_lock_side ''tok'' example_graph braces (inproc_init, [])
   in fst r = Cancelled \<and> snd (snd r) = [RunStarted (pr_context example_call)]"
proof -
  have free: "ip_states inproc_init k = None" for k by (simp add: inproc_init_def)
  have "prepare_native cancelled_native ''invoke'' example_graph AinvokeMethod (nv_valid_invoke cancelled_native)
      (nv_apolicy cancelled_native) braces x = (Returned (Inr example_call), x)" for x
    using example_prepared [of record_event _ AinvokeMethod x] unfolding cancelled_native_def by (simp add: native_with_def)
  moreover have "native_key example_graph (pr_thread example_call) = Some (Key ''g'' ''t'')"
    by (simp add: native_key_def native_lock_thread_def example_call_def example_graph_def)
  ultimately show ?thesis
    by (simp add: handle_invoke_async_def when_prepared_def async_locked_def async_thread_lock_def acquire_thread_lock_def
        example_lock_side_def traced_acquire_def ip_acquire_free [OF free] calm_def await_schedule_def scope_body_def
        invoke_body_def cancelled_native_def native_with_def guard_run_config_def ownership_guard_for_def record_event_def
        finish_scope_def release_thread_lock_def traced_release_def leave_scope_def finish_passes Let_def split_def
        split: option.split)
qed

end
