(* ===== verification/Streaming.thy ===== *)
theory Streaming
  imports Native_Lifecycle
begin

text \<open>
  The true-streaming application, \<^verbatim>\<open>streaming.py\<close>, \<^verbatim>\<open>_stream_response.py\<close> and
  \<^verbatim>\<open>streaming_authorization.py\<close>. A stream is an asynchronous generator: at each \<open>yield\<close> it waits for its
  consumer, who asks for the next frame, closes it, or is never heard of again; while it awaits the
  graph it may be cancelled. The consumer is a list of what is done at the yields, in order.
\<close>

section \<open>The graph's events\<close>

text \<open>
  \<open>_await_sync_worker\<close>: unlike \<open>run_sync_retaining_ownership\<close> it does not catch an exception of the
  worker around the \<open>await\<close>, so one that ends the wait is raised even after a cancellation was seen.
\<close>

fun await_sync_worker :: "wait_round list \<Rightarrow> bool \<Rightarrow> exn + 'a \<Rightarrow> (exn, 'a) outcome" where
  "await_sync_worker [] cancelled r = Pending"
| "await_sync_worker (Interrupted done # rounds) cancelled r =
     (if done then (case r of Inl e \<Rightarrow> if base_exn e then Raised e else Cancelled | Inr _ \<Rightarrow> Cancelled)
      else await_sync_worker rounds True r)"
| "await_sync_worker (Finished # rounds) cancelled r =
     (case r of Inl e \<Rightarrow> Raised e | Inr v \<Rightarrow> if cancelled then Cancelled else Returned v)"

text \<open>The graph's own iterator: it is opened by the first request, asked for items, and closed.\<close>

record 's source =
  so_open :: "'s \<Rightarrow> (exn + unit) \<times> 's"
  so_pull :: "nat \<Rightarrow> 's \<Rightarrow> (exn, pyval option) outcome \<times> 's"
  so_close :: "'s \<Rightarrow> (exn, unit) outcome \<times> 's"

datatype source_state = Unopened | Opened | Finalized

text \<open>
  \<open>_aiter_graph_events\<close>: \<open>__anext__\<close> and \<open>aclose\<close> of the generator around the iterator. Its \<open>finally\<close>
  clause closes the iterator when it ends, breaks, is cancelled or is closed; an error of the
  close replaces the outcome. Before the first request there is nothing to close.
\<close>

definition end_source :: "'s source \<Rightarrow> (exn, 'a) outcome \<Rightarrow> 's \<Rightarrow> (exn, 'a) outcome \<times> source_state \<times> 's" where
  "end_source so out x =
     (let (closed, x1) = so_close so x
      in (after closed out, if closed = Pending then Opened else Finalized, x1))"

definition pull_source :: "'s source \<Rightarrow> nat \<Rightarrow> 's \<Rightarrow> (exn, pyval option) outcome \<times> source_state \<times> 's" where
  "pull_source so n x =
     (case so_pull so n x of
        (Pending, x1) \<Rightarrow> (Pending, Opened, x1)
      | (Returned (Some v), x1) \<Rightarrow> (Returned (Some v), Opened, x1)
      | (out, x1) \<Rightarrow> end_source so out x1)"

definition events_next ::
    "'s source \<Rightarrow> nat \<Rightarrow> source_state \<Rightarrow> 's \<Rightarrow> (exn, pyval option) outcome \<times> source_state \<times> 's" where
  "events_next so n st x =
     (case st of
        Unopened \<Rightarrow>
          (case so_open so x of
             (Inl e, x1) \<Rightarrow> (Raised e, Finalized, x1)
           | (Inr _, x1) \<Rightarrow> pull_source so n x1)
      | Opened \<Rightarrow> pull_source so n x
      | Finalized \<Rightarrow> (Returned None, Finalized, x))"

definition events_aclose :: "'s source \<Rightarrow> source_state \<Rightarrow> 's \<Rightarrow> (exn, unit) outcome \<times> source_state \<times> 's" where
  "events_aclose so st x = (if st = Opened then end_source so (Returned ()) x else (Returned (), Finalized, x))"

section \<open>The generator of frames\<close>

datatype resume = Resume | Aclose

definition gen_exit :: exn where
  "gen_exit = Exn ''GeneratorExit'' []"

text \<open>\<open>isinstance(exc, (asyncio.CancelledError, GeneratorExit))\<close>\<close>

definition stops :: "exn option \<Rightarrow> bool" where
  "stops e \<longleftrightarrow> (\<exists>x. e = Some x \<and> exn_type x \<in> {''CancelledError'', ''GeneratorExit''})"

datatype halt = Awaiting | AtYield

text \<open>
  How the \<open>try\<close> block and its handlers end: they fall through, or an exception leaves them, in both cases with
  the value of \<open>stream_error\<close>; or the generator halts.
\<close>

datatype body_end = Falls "exn option" | Leaves "exn option" exn | Halts halt

record stream_spec =
  ss_encoder :: encoder
  ss_text :: py_text
  ss_run_id :: string
  ss_max_events :: nat

definition stream_data_event :: "stream_spec \<Rightarrow> pyval \<Rightarrow> exn + string" where
  "stream_data_event sp v =
     (case checked_dumps (ss_encoder sp) (if is_dict v then v else PDict [(''data'', PStr (text_of (ss_text sp) v))]) of
        Inl e \<Rightarrow> Inl e
      | Inr data \<Rightarrow> Inr (native_frame ''data'' data))"

definition cap_message :: "nat \<Rightarrow> string" where
  "cap_message n = ''stream exceeded max events ('' @ nat_text n @ '')''"

definition cap_exn :: "nat \<Rightarrow> exn" where
  "cap_exn n = Exn ''RuntimeError'' (cap_message n)"

text \<open>The rest of a generator that waits at a \<open>yield\<close>.\<close>

definition at_yield :: "resume list \<Rightarrow> (resume list \<Rightarrow> 'r) \<Rightarrow> 'r \<Rightarrow> (resume list \<Rightarrow> 'r) \<Rightarrow> 'r" where
  "at_yield rs shut waits go =
     (case rs of [] \<Rightarrow> waits | Resume # rs \<Rightarrow> go rs | Aclose # rs \<Rightarrow> shut rs)"

type_synonym 's body_result = "body_end \<times> resume list \<times> string list \<times> source_state \<times> 's"

text \<open>An exception inside the block: an ordinary one is told in an error frame, others leave.\<close>

definition body_failed ::
    "stream_spec \<Rightarrow> exn \<Rightarrow> resume list \<Rightarrow> string list \<Rightarrow> source_state \<Rightarrow> 's \<Rightarrow> 's body_result" where
  "body_failed sp e rs frames st x =
     (if base_exn e then (Leaves (Some e) e, rs, frames, st, x)
      else let frames1 = frames @ [failure_frame ''stream processing failed'' (ss_run_id sp)]
        in at_yield rs (\<lambda>rs. (Leaves (Some e) gen_exit, rs, frames1, st, x)) (Halts AtYield, [], frames1, st, x)
          (\<lambda>rs. (Falls (Some e), rs, frames1, st, x)))"

fun stream_events ::
    "stream_spec \<Rightarrow> 's source \<Rightarrow> ('s \<Rightarrow> guard_error + unit) \<Rightarrow> resume list \<Rightarrow> nat \<Rightarrow> string list \<Rightarrow> source_state \<Rightarrow> 's \<Rightarrow>
     's body_result" where
  "stream_events sp so check rs n frames st x =
     (case events_next so n st x of
        (Pending, st1, x1) \<Rightarrow> (Halts Awaiting, rs, frames, st1, x1)
      | (Cancelled, st1, x1) \<Rightarrow> (Leaves (Some cancelled_exn) cancelled_exn, rs, frames, st1, x1)
      | (Raised e, st1, x1) \<Rightarrow> body_failed sp e rs frames st1 x1
      | (Returned None, st1, x1) \<Rightarrow>
          (case check x1 of
             Inl ge \<Rightarrow> body_failed sp (guard_exn ge) rs frames st1 x1
           | Inr _ \<Rightarrow> (Falls None, rs, frames, st1, x1))
      | (Returned (Some v), st1, x1) \<Rightarrow>
          (if n \<ge> ss_max_events sp
           then let frames1 = frames @ [failure_frame (cap_message (ss_max_events sp)) (ss_run_id sp)];
                    e = cap_exn (ss_max_events sp)
             in at_yield rs (\<lambda>rs. (Leaves (Some gen_exit) gen_exit, rs, frames1, st1, x1)) (Halts AtYield, [], frames1, st1, x1)
               (\<lambda>rs. (Falls (Some e), rs, frames1, st1, x1))
           else case stream_data_event sp v of
               Inl e \<Rightarrow> body_failed sp e rs frames st1 x1
             | Inr frame \<Rightarrow>
                 (case rs of
                    [] \<Rightarrow> (Halts AtYield, [], frames @ [frame], st1, x1)
                  | Aclose # rs1 \<Rightarrow> (Leaves (Some gen_exit) gen_exit, rs1, frames @ [frame], st1, x1)
                  | Resume # rs1 \<Rightarrow> stream_events sp so check rs1 (Suc n) (frames @ [frame]) st1 x1)))"

declare stream_events.simps [simp del]

text \<open>
  The \<open>finally\<close> clause. A step gives the exception it raises, \<open>stream_error\<close>, and whether the cleanup
  was itself cancelled. A cancellation of \<open>aclose\<close> or of the release is raised unless the stream was already
  cancelled or closed; an error of \<open>aclose\<close> is recorded; an error of the release is raised only if there was no other.
\<close>

record cleanup =
  cl_error :: "exn option"
  cl_raises :: "exn option"
  cl_cancelled :: bool

fun raised_by :: "(exn, 'a) outcome \<Rightarrow> exn option" where
  "raised_by (Raised e) = Some e"
| "raised_by Cancelled = Some cancelled_exn"
| "raised_by (Returned v) = None"
| "raised_by Pending = None"

definition close_step :: "exn option \<Rightarrow> exn option \<Rightarrow> cleanup" where
  "close_step primary raised =
     (case raised of
        None \<Rightarrow> \<lparr>cl_error = primary, cl_raises = None, cl_cancelled = False\<rparr>
      | Some e \<Rightarrow>
          (if stops (Some e) then
             (if stops primary then \<lparr>cl_error = primary, cl_raises = None, cl_cancelled = True\<rparr>
              else \<lparr>cl_error = if primary = None then Some e else primary, cl_raises = Some e, cl_cancelled = True\<rparr>)
           else if primary = None then \<lparr>cl_error = Some e, cl_raises = if base_exn e then Some e else None, cl_cancelled = False\<rparr>
           else \<lparr>cl_error = primary, cl_raises = None, cl_cancelled = False\<rparr>))"

definition release_step :: "exn option \<Rightarrow> exn option \<Rightarrow> cleanup \<Rightarrow> cleanup" where
  "release_step primary raised cl =
     (case raised of
        None \<Rightarrow> cl
      | Some e \<Rightarrow>
          (if stops (Some e) \<and> \<not> cl_cancelled cl \<and> \<not> stops primary
           then cl\<lparr>cl_error := if cl_error cl = None then Some e else cl_error cl, cl_raises := Some e\<rparr>
           else if primary = None \<and> cl_error cl = None then cl\<lparr>cl_error := Some e, cl_raises := Some e\<rparr>
           else cl))"

text \<open>
  How the generator ends: exhausted, left by an exception (\<open>GeneratorExit\<close> is how a close ends), waiting
  in an \<open>await\<close> or at a \<open>yield\<close>, or at the last \<open>yield\<close>, which comes after the cleanup.
\<close>

datatype stream_outcome = Exhausts | Escapes exn | Stalls halt | AtEnd

definition terminal_event :: "run_context \<Rightarrow> exn option \<Rightarrow> run_event" where
  "terminal_event ctx e = (case e of None \<Rightarrow> RunCompleted ctx | Some e \<Rightarrow> RunFailed ctx e)"

text \<open>The token's release, if a token was taken.\<close>

definition release_token ::
    "'s lock_side \<Rightarrow> lock_key \<Rightarrow> token option \<Rightarrow> 's \<Rightarrow> (exn, unit) outcome \<times> 's" where
  "release_token lo k token x =
     (case token of None \<Rightarrow> (Returned (), x) | Some t \<Rightarrow> release_thread_lock (lo_release lo) k t (lo_last lo) x)"

definition finish_sse ::
    "('s \<Rightarrow> (exn, unit) outcome \<times> 's) \<Rightarrow> (run_event \<Rightarrow> 's \<Rightarrow> 's) \<Rightarrow> run_context \<Rightarrow> 's source \<Rightarrow>
     exn option \<Rightarrow> exn option \<Rightarrow> resume list \<Rightarrow> string list \<Rightarrow> source_state \<Rightarrow> 's \<Rightarrow>
     stream_outcome \<times> string list \<times> 's" where
  "finish_sse rel observe ctx so primary leaving rs frames st x =
     (case events_aclose so st x of
        (Pending, _, x1) \<Rightarrow> (Stalls Awaiting, frames, x1)
      | (c, _, x1) \<Rightarrow>
          (case rel x1 of
             (Pending, x2) \<Rightarrow> (Stalls Awaiting, frames, x2)
           | (r, x2) \<Rightarrow>
               (let cl = release_step primary (raised_by r) (close_step primary (raised_by c));
                    x3 = observe (terminal_event ctx (opt_orelse primary (cl_error cl))) x2
                in case opt_orelse (cl_raises cl) leaving of
                    Some e \<Rightarrow> (Escapes e, frames, x3)
                  | None \<Rightarrow>
                      at_yield rs (\<lambda>_. (Escapes gen_exit, frames @ [native_end], x3)) (AtEnd, frames @ [native_end], x3)
                        (\<lambda>_. (Exhausts, frames @ [native_end], x3)))))"

definition sse_event_stream ::
    "stream_spec \<Rightarrow> ('s \<Rightarrow> (exn, unit) outcome \<times> 's) \<Rightarrow> (run_event \<Rightarrow> 's \<Rightarrow> 's) \<Rightarrow> run_context \<Rightarrow> 's source \<Rightarrow>
     ('s \<Rightarrow> guard_error + unit) \<Rightarrow> bool \<Rightarrow> resume list \<Rightarrow> 's \<Rightarrow> stream_outcome \<times> string list \<times> 's" where
  "sse_event_stream sp rel observe ctx so check prime rs x =
     (let body = (\<lambda>rs frames. stream_events sp so check rs 0 frames Unopened x);
          started = (if prime
            then at_yield rs (\<lambda>rs. (Leaves (Some gen_exit) gen_exit, rs, [[]], Unopened, x)) (Halts AtYield, [], [[]], Unopened, x)
              (\<lambda>rs. body rs [[]])
            else body rs [])
      in case started of
          (Halts h, rs1, frames, st, x1) \<Rightarrow> (Stalls h, frames, x1)
        | (Falls e, rs1, frames, st, x1) \<Rightarrow> finish_sse rel observe ctx so e None rs1 frames st x1
        | (Leaves primary e, rs1, frames, st, x1) \<Rightarrow> finish_sse rel observe ctx so primary (Some e) rs1 frames st x1)"

section \<open>The application\<close>

text \<open>
  What the streaming application has besides what the native handlers are given: the limit, the dump
  of an output by its response model, the opening and closing of a graph's iterators, and the schedules of
  the worker threads that run a synchronous graph.
\<close>

record 's streaming = "'s native" +
  sm_max_events :: nat
  sm_dump :: "pyval dict \<Rightarrow> exn + pyval"
  sm_open :: "nat \<Rightarrow> pyval dict \<Rightarrow> pyval dict option \<Rightarrow> string \<Rightarrow> string option \<Rightarrow> 's \<Rightarrow> (exn + unit) \<times> 's"
  sm_aopen :: "nat \<Rightarrow> pyval dict \<Rightarrow> pyval dict option \<Rightarrow> string \<Rightarrow> string option \<Rightarrow> 's \<Rightarrow> (exn + unit) \<times> 's"
  sm_close :: "nat \<Rightarrow> 's \<Rightarrow> (exn + unit) \<times> 's"
  sm_pulls :: "nat \<Rightarrow> wait_round list"
  sm_closing :: "wait_round list"
  sm_running :: schedule

fun step_result :: "gen_step \<Rightarrow> exn + pyval option" where
  "step_result (Yield v) = Inr (Some v)"
| "step_result Exhausted = Inr None"
| "step_result (Breaks e) = Inl e"

fun astep_outcome :: "agen_step \<Rightarrow> (exn, pyval option) outcome" where
  "astep_outcome (AYield v) = Returned (Some v)"
| "astep_outcome AExhausted = Returned None"
| "astep_outcome (ABreaks e) = Raised e"
| "astep_outcome ACancelled = Cancelled"
| "astep_outcome APending = Pending"

definition graph_source ::
    "('s, 'm) streaming_scheme \<Rightarrow> bool \<Rightarrow> nat \<Rightarrow> pyval dict \<Rightarrow> pyval dict option \<Rightarrow> string \<Rightarrow> string option \<Rightarrow> 's source" where
  "graph_source sm is_async g input config mode version =
     (if is_async
      then \<lparr>so_open = sm_aopen sm g input config mode version,
         so_pull = (\<lambda>n x. let (s, x1) = nv_astream sm g input config mode version n x in (astep_outcome s, x1)),
         so_close = nv_aclose sm g\<rparr>
      else \<lparr>so_open = sm_open sm g input config mode version,
         so_pull = (\<lambda>n x. let (s, x1) = nv_stream sm g input config mode version n x
            in (await_sync_worker (sm_pulls sm n) False (step_result s), x1)),
         so_close = (\<lambda>x. let (r, x1) = sm_close sm g x in (await_sync_worker (sm_closing sm) False r, x1))\<rparr>)"

text \<open>\<open>_read_json_body\<close> (an empty body is an empty object) and \<open>_validate_request\<close>.\<close>

definition read_stream_body :: "('s, 'm) streaming_scheme \<Rightarrow> http_request \<Rightarrow> native_response + pyval" where
  "read_stream_body sm req =
     (case validate_body_size (length (rq_body req)) (nv_max_body sm) of
        Some e \<Rightarrow> Inl (error_response 413 (Rule e))
      | None \<Rightarrow>
          (if rq_body req = [] then Inr (PDict [])
           else case loads (rq_body req) of
               None \<Rightarrow> Inl (error_response 400 (Message ''Invalid JSON body''))
             | Some body \<Rightarrow> Inr body))"

definition validate_stream_request ::
    "('s, 'm) streaming_scheme \<Rightarrow> string list \<Rightarrow> native_request model_validate \<Rightarrow> pyval \<Rightarrow> native_response + native_request" where
  "validate_stream_request sm allowed validate body =
     (let structure = (\<lambda>d. validate_input_structure (PDict d) (nv_max_depth sm) (nv_max_nodes sm)) in
      case validate body of
        Inl details \<Rightarrow> Inl (error_response 422 (Invalid details))
      | Inr r \<Rightarrow>
          (case structure (nr_input r) of
             Some e \<Rightarrow> Inl (error_response 400 (Rule e))
           | None \<Rightarrow>
               (case nr_config r of
                  None \<Rightarrow> Inr r
                | Some config \<Rightarrow>
                    (if config = [] then Inr r
                     else case opt_orelse (structure config) (validate_native_config config allowed) of
                         Some e \<Rightarrow> Inl (error_response 400 (Rule e))
                       | None \<Rightarrow> Inr r))))"

text \<open>
  What both handlers do before the run; \<open>_authorization_status\<close> decides like the policy of the native
  endpoints, and a denied request is reported without its thread.
\<close>

definition prepare_true ::
    "('s, 'm) streaming_scheme \<Rightarrow> string \<Rightarrow> native_registration \<Rightarrow> graph_method \<Rightarrow> native_request model_validate \<Rightarrow>
     http_request \<Rightarrow> 's \<Rightarrow> (exn, native_response + prepared) outcome \<times> 's" where
  "prepare_true sm endpoint reg meth validate req x =
     (let nv = native.truncate sm; ctx = native_context nv endpoint reg req;
          refuse = (\<lambda>reason r x. map_prod (\<lambda>r. Returned (Inl r)) id (reject nv ctx reason r x)) in
      case bind_res (read_stream_body sm req) (validate_stream_request sm (ng_allowed reg) validate) of
        Inl r \<Rightarrow> refuse ''invalid_request'' r x
      | Inr request \<Rightarrow>
          (let config = or_empty (nr_config request) in
           case validated_run_thread config (ng_saver reg) of
             Inl d \<Rightarrow> refuse ''invalid_config'' (error_response 400 d) x
           | Inr tid \<Rightarrow>
               (let ctx1 = ctx\<lparr>rc_thread := tid\<rparr> in
                case native_authorization (nv_apolicy sm) tid req x of
                  (Raised e, x1) \<Rightarrow> (Raised e, x1)
                | (Cancelled, x1) \<Rightarrow> (Cancelled, x1)
                | (Pending, x1) \<Rightarrow> (Pending, x1)
                | (Returned (Some status), x1) \<Rightarrow>
                    refuse ''authorization_denied'' (error_response status (Message ''Access denied'')) x1
                | (Returned None, x1) \<Rightarrow>
                    (case resolve_version_kwarg (nv_text sm) (nv_versioned sm (reg_graph reg) meth) (nr_version request)
                            (reg_name reg) of
                       Inl r \<Rightarrow> map_prod (\<lambda>r. Returned (Inl r)) id (reject nv ctx1 ''unsupported_version'' r x1)
                     | Inr _ \<Rightarrow>
                         (Returned (Inr \<lparr>pr_context = ctx1, pr_request = request, pr_config = config, pr_thread = tid\<rparr>), x1)))))"

subsection \<open>Invoking\<close>

definition run_graph ::
    "('s, 'm) streaming_scheme \<Rightarrow> native_registration \<Rightarrow> bool \<Rightarrow> prepared \<Rightarrow> pyval dict option \<Rightarrow> 's \<Rightarrow> (exn, pyval) outcome \<times> 's" where
  "run_graph sm reg is_async pr config x =
     (let r = pr_request pr; g = reg_graph reg in
      if is_async then nv_ainvoke sm g (nr_input r) config (nr_version r) x
      else run_sync_retaining_ownership (nv_invoke sm g (nr_input r) config (nr_version r)) (sm_running sm) x)"

text \<open>The block under the lock, from \<open>on_run_started\<close> to the guard's last check.\<close>

definition true_invoke_body ::
    "('s, 'm) streaming_scheme \<Rightarrow> native_registration \<Rightarrow> bool \<Rightarrow> prepared \<Rightarrow> token option \<Rightarrow> 's \<Rightarrow> (exn, pyval) outcome \<times> 's" where
  "true_invoke_body sm reg is_async pr token x =
     (let guards = nv_guard sm; x0 = nv_observe sm (RunStarted (pr_context pr)) x in
      case guard_run_config (gp_is_guard guards) (gp_provider guards) (reg_name reg) (native_lock_thread reg (pr_thread pr))
             token (Some (pr_config pr)) of
        Inl ge \<Rightarrow> (Raised (guard_exn ge), x0)
      | Inr (config, guard) \<Rightarrow>
          (case run_graph sm reg is_async pr config x0 of
             (Returned v, x1) \<Rightarrow>
               (case check_ownership_guard (\<lambda>a. gp_check guards a x1) guard of
                  Inl ge \<Rightarrow> (Raised (guard_exn ge), x1)
                | Inr _ \<Rightarrow> (Returned v, x1))
           | (out, x1) \<Rightarrow> (out, x1)))"

text \<open>After the lock: the answer, and the one terminal event of a run that was started.\<close>

definition true_invoke_failed ::
    "('s, 'm) streaming_scheme \<Rightarrow> run_context \<Rightarrow> exn \<Rightarrow> 's \<Rightarrow> (exn, native_response) outcome \<times> 's" where
  "true_invoke_failed sm ctx e x =
     (if base_exn e then Raised e else Returned (execution_failed ctx), nv_observe sm (RunFailed ctx e) x)"

definition end_true_invoke ::
    "('s, 'm) streaming_scheme \<Rightarrow> run_context \<Rightarrow> (exn, pyval) outcome \<Rightarrow> 's \<Rightarrow> (exn, native_response) outcome \<times> 's" where
  "end_true_invoke sm ctx out x =
     (case out of
        Pending \<Rightarrow> (Pending, x)
      | Cancelled \<Rightarrow> (Cancelled, nv_observe sm (RunFailed ctx cancelled_exn) x)
      | Raised e \<Rightarrow> true_invoke_failed sm ctx e x
      | Returned v \<Rightarrow>
          (case sm_dump sm (serialize_graph_output (nv_text sm) (nv_object sm) v) of
             Inl e \<Rightarrow> true_invoke_failed sm ctx e x
           | Inr body \<Rightarrow> (Returned (NativeJson body None), nv_observe sm (RunCompleted ctx) x)))"

text \<open>An error of the lock is answered like one of the graph, but the run was not started.\<close>

definition true_invoke_run ::
    "('s, 'm) streaming_scheme \<Rightarrow> 's lock_side \<Rightarrow> token \<Rightarrow> native_registration \<Rightarrow> bool \<Rightarrow> prepared \<Rightarrow> 's \<Rightarrow>
     (exn, native_response) outcome \<times> 's" where
  "true_invoke_run sm lo tok reg is_async pr x =
     (let ctx = pr_context pr; run = true_invoke_body sm reg is_async pr in
      case native_key reg (pr_thread pr) of
        None \<Rightarrow> (let (out, x1) = run None x in end_true_invoke sm ctx out x1)
      | Some k \<Rightarrow>
          (case acquire_thread_lock (lo_acquire lo) (lo_release lo) (lo_env lo) (lo_first lo) (lo_undo lo) k tok x of
             (Raised _, x1) \<Rightarrow> (Returned (execution_failed ctx), x1)
           | (Cancelled, x1) \<Rightarrow> (Cancelled, x1)
           | (Pending, x1) \<Rightarrow> (Pending, x1)
           | (Returned None, x1) \<Rightarrow>
               map_prod Returned id (reject (native.truncate sm) ctx ''lock_contention'' (in_use (nv_text sm) (or_nil (pr_thread pr))) x1)
           | (Returned (Some token), x1) \<Rightarrow>
               (let (out, x2) = run (Some token) x1;
                    (out1, x3) = finish_scope (lo_release lo) k (lo_last lo) (Some token) out x2
                in end_true_invoke sm ctx out1 x3)))"

definition after_preparing ::
    "(exn, native_response + prepared) outcome \<times> 's \<Rightarrow> (prepared \<Rightarrow> 's \<Rightarrow> (exn, native_response + 'r) outcome \<times> 's) \<Rightarrow>
     (exn, native_response + 'r) outcome \<times> 's" where
  "after_preparing p run =
     (case p of
        (Returned (Inl r), x) \<Rightarrow> (Returned (Inl r), x)
      | (Returned (Inr pr), x) \<Rightarrow> run pr x
      | (Raised e, x) \<Rightarrow> (Raised e, x)
      | (Cancelled, x) \<Rightarrow> (Cancelled, x)
      | (Pending, x) \<Rightarrow> (Pending, x))"

definition handle_true_invoke ::
    "('s, 'm) streaming_scheme \<Rightarrow> 's lock_side \<Rightarrow> token \<Rightarrow> native_registration \<Rightarrow> bool \<Rightarrow> http_request \<Rightarrow> 's \<Rightarrow>
     (exn, native_response + unit) outcome \<times> 's" where
  "handle_true_invoke sm lo tok reg is_async req x =
     after_preparing (prepare_true sm ''invoke'' reg (if is_async then AinvokeMethod else InvokeMethod) (nv_valid_invoke sm) req x)
       (\<lambda>pr x. map_prod (map_outcome id Inl) id (true_invoke_run sm lo tok reg is_async pr x))"

subsection \<open>Streaming\<close>

text \<open>
  \<open>_handle_stream\<close> checks the request and defers the rest until its response is consumed; a response that never is
  takes no lock and starts no run. Whether streaming is enabled decides on the route.
\<close>

definition handle_true_stream ::
    "('s, 'm) streaming_scheme \<Rightarrow> native_registration \<Rightarrow> bool \<Rightarrow> http_request \<Rightarrow> 's \<Rightarrow>
     (exn, native_response + prepared) outcome \<times> 's" where
  "handle_true_stream sm reg is_async req x =
     (if \<not> (if is_async then ng_astreams reg else ng_streams reg)
      then map_prod (\<lambda>r. Returned (Inl r)) id
        (reject (native.truncate sm) (native_context (native.truncate sm) ''stream'' reg req) ''streaming_unsupported''
          (error_response 501 (Message (''Graph '' @ pt_repr (nv_text sm) (reg_name reg) @ '' does not support streaming''))) x)
      else prepare_true sm ''stream'' reg (if is_async then AstreamMethod else StreamMethod) (nv_valid_stream sm) req x)"

datatype stream_answer = Refusal native_response | Frames stream_outcome "string list"

text \<open>
  \<open>_prepare_stream_response\<close>: the lock, the start, and the generator, which \<open>anext\<close> brings to its first
  \<open>yield\<close>, inside the block that cleans up. A guard that cannot be made fails the run; an error of that release is swallowed.
\<close>

definition stream_run ::
    "('s, 'm) streaming_scheme \<Rightarrow> 's lock_side \<Rightarrow> native_registration \<Rightarrow> bool \<Rightarrow> prepared \<Rightarrow> lock_key \<Rightarrow> token option \<Rightarrow>
     resume list \<Rightarrow> 's \<Rightarrow> (native_error, stream_answer) outcome \<times> 's" where
  "stream_run sm lo reg is_async pr k token rs x =
     (let ctx = pr_context pr; guards = nv_guard sm; r = pr_request pr; x0 = nv_observe sm (RunStarted ctx) x;
          sp = \<lparr>ss_encoder = nv_encoder sm, ss_text = nv_text sm, ss_run_id = rc_run_id ctx, ss_max_events = sm_max_events sm\<rparr>
      in case guard_run_config (gp_is_guard guards) (gp_provider guards) (reg_name reg) (native_lock_thread reg (pr_thread pr))
             token (Some (pr_config pr)) of
          Inl ge \<Rightarrow>
            (case release_token lo k token x0 of
               (Pending, x1) \<Rightarrow> (Pending, x1)
             | (_, x1) \<Rightarrow> (Raised (NativeRaised (guard_exn ge)), nv_observe sm (RunFailed ctx (guard_exn ge)) x1))
        | Inr (config, guard) \<Rightarrow>
            (let (ending, frames, x1) =
               sse_event_stream sp (release_token lo k token) (nv_observe sm) ctx
                 (graph_source sm is_async (reg_graph reg) (nr_input r) config (nr_mode r) (nr_version r))
                 (\<lambda>x. check_ownership_guard (\<lambda>a. gp_check guards a x) guard) True rs x0
             in (Returned (Frames ending frames), x1)))"

definition prepare_stream_response ::
    "('s, 'm) streaming_scheme \<Rightarrow> 's lock_side \<Rightarrow> token \<Rightarrow> native_registration \<Rightarrow> bool \<Rightarrow> prepared \<Rightarrow> resume list \<Rightarrow> 's \<Rightarrow>
     (native_error, stream_answer) outcome \<times> 's" where
  "prepare_stream_response sm lo tok reg is_async pr rs x =
     (case native_key reg (pr_thread pr) of
        None \<Rightarrow> stream_run sm lo reg is_async pr (Key (reg_name reg) []) None rs x
      | Some k \<Rightarrow>
          (case acquire_thread_lock (lo_acquire lo) (lo_release lo) (lo_env lo) (lo_first lo) (lo_undo lo) k tok x of
             (Raised e, x1) \<Rightarrow> (Raised (NativeLock e), x1)
           | (Cancelled, x1) \<Rightarrow> (Cancelled, x1)
           | (Pending, x1) \<Rightarrow> (Pending, x1)
           | (Returned None, x1) \<Rightarrow>
               map_prod (\<lambda>r. Returned (Refusal r)) id
                 (reject (native.truncate sm) (pr_context pr) ''lock_contention'' (in_use (nv_text sm) (or_nil (pr_thread pr))) x1)
           | (Returned (Some token), x1) \<Rightarrow> stream_run sm lo reg is_async pr k (Some token) rs x1))"

text \<open>
  \<open>DeferredStreamingResponse\<close>: \<open>aclosing\<close> closes the generator however its consumption ends, after \<open>n\<close>
  requests for a frame, by a disconnect or a cancellation of the server.
\<close>

definition deferred_response ::
    "('s, 'm) streaming_scheme \<Rightarrow> 's lock_side \<Rightarrow> token \<Rightarrow> native_registration \<Rightarrow> bool \<Rightarrow> prepared \<Rightarrow> nat \<Rightarrow> 's \<Rightarrow>
     (native_error, stream_answer) outcome \<times> 's" where
  "deferred_response sm lo tok reg is_async pr n x =
     prepare_stream_response sm lo tok reg is_async pr (replicate n Resume @ [Aclose]) x"

end
