(* ===== verification/Stream_Guarantees.thy ===== *)
theory Stream_Guarantees
  imports Streaming
begin

text \<open>
  What a true stream promises: it is settled however it is consumed (one terminal event, the lock given
  back), it ends, and an invocation reports every run it starts.
\<close>

section \<open>What the source may do\<close>

definition source_keeps :: "('s \<Rightarrow> bool) \<Rightarrow> ('s \<Rightarrow> 'a) \<Rightarrow> 's source \<Rightarrow> bool" where
  "source_keeps good view so \<longleftrightarrow>
     keeping good view (so_open so) \<and> (\<forall>n. keeping good view (so_pull so n)) \<and> keeping good view (so_close so)"

lemma end_source_kept:
  "source_keeps good view so \<Longrightarrow> good x \<Longrightarrow> end_source so out x = (r, st, y) \<Longrightarrow> kept good view x y"
  by (auto simp: end_source_def source_keeps_def Let_def split: prod.splits intro: keepingD)

lemma pull_source_kept:
  assumes "source_keeps good view so" "good x" "pull_source so n x = (r, st, y)"
  shows "kept good view x y"
proof -
  obtain out z where p: "so_pull so n x = (out, z)" by (rule prod.exhaust)
  have z: "kept good view x z" using assms(1,2) p by (auto simp: source_keeps_def intro: keepingD)
  have "y = z \<or> (\<exists>out' :: (exn, pyval option) outcome. end_source so out' z = (r, st, y))"
    using assms(3) p by (auto simp: pull_source_def split: outcome.splits option.splits)
  with z end_source_kept [OF assms(1) kept_good [OF z]] show ?thesis by (blast intro: kept_trans)
qed

lemma events_next_kept:
  assumes "source_keeps good view so" "good x" "events_next so n st x = (r, st', y)"
  shows "kept good view x y"
proof (cases st)
  case Unopened
  obtain out z where p: "so_open so x = (out, z)" by (rule prod.exhaust)
  have z: "kept good view x z" using assms(1,2) p by (auto simp: source_keeps_def intro: keepingD)
  have "y = z \<or> pull_source so n z = (r, st', y)"
    using assms(3) Unopened p by (auto simp: events_next_def split: sum.splits)
  with z pull_source_kept [OF assms(1) kept_good [OF z]] show ?thesis by (blast intro: kept_trans)
next
  case Opened
  with assms show ?thesis by (auto simp: events_next_def intro: pull_source_kept)
next
  case Finalized
  with assms show ?thesis by (auto simp: events_next_def kept_refl)
qed

lemma events_aclose_kept:
  "source_keeps good view so \<Longrightarrow> good x \<Longrightarrow> events_aclose so st x = (r, st', y) \<Longrightarrow> kept good view x y"
  by (auto simp: events_aclose_def kept_refl split: if_splits intro: end_source_kept)

section \<open>The block\<close>

text \<open>
  What the \<open>try\<close> block yields: data frames, at most one for each of the events allowed, then at most one error
  frame, none if the stream was exhausted. A yield takes one resumption, and only a yield that finds none halts.
\<close>

definition error_frames :: "string list \<Rightarrow> bool" where
  "error_frames extra \<longleftrightarrow> extra = [] \<or> (\<exists>m rid. extra = [failure_frame m rid])"

definition data_frames :: "stream_spec \<Rightarrow> string list \<Rightarrow> bool" where
  "data_frames sp datas \<longleftrightarrow> (\<forall>f\<in>set datas. \<exists>v. stream_data_event sp v = Inr f)"

definition yields :: "body_end \<Rightarrow> resume list \<Rightarrow> nat \<Rightarrow> resume list \<Rightarrow> bool" where
  "yields b rs y rs' \<longleftrightarrow>
     (case b of
        Falls _ \<Rightarrow> rs = replicate y Resume @ rs'
      | Halts Awaiting \<Rightarrow> rs = replicate y Resume @ rs'
      | Halts AtYield \<Rightarrow> y > 0 \<and> rs = replicate (y - 1) Resume
      | Leaves primary _ \<Rightarrow> primary \<noteq> None)"

definition body_spec :: "stream_spec \<Rightarrow> resume list \<Rightarrow> nat \<Rightarrow> string list \<Rightarrow> 's body_result \<Rightarrow> bool" where
  "body_spec sp rs n frames r \<longleftrightarrow>
     (case r of (b, rs', frames', st', x') \<Rightarrow>
        \<exists>datas extra. frames' = frames @ datas @ extra \<and> data_frames sp datas \<and> error_frames extra \<and>
          n + length datas \<le> max n (ss_max_events sp) \<and> (b = Falls None \<longrightarrow> extra = []) \<and>
          yields b rs (length datas + length extra) rs')"

lemma body_specI:
  assumes "error_frames extra" "b = Falls None \<Longrightarrow> extra = []" "yields b rs (length extra) rs'"
  shows "body_spec sp rs n frames (b, rs', frames @ extra, st', x')"
  unfolding body_spec_def split_conv
  using assms by (intro exI [of _ "[]"] exI [of _ extra]) (simp add: data_frames_def)

lemma body_spec_next:
  assumes "body_spec sp rs (Suc n) (frames @ [f]) r" "stream_data_event sp v = Inr f" "n < ss_max_events sp"
  shows "body_spec sp (Resume # rs) n frames r"
proof -
  obtain b rs' frames' st' x' where r: "r = (b, rs', frames', st', x')" by (metis prod.exhaust)
  with assms(1) obtain datas extra where d: "frames' = frames @ [f] @ datas @ extra" "data_frames sp datas" "error_frames extra"
      "Suc n + length datas \<le> max (Suc n) (ss_max_events sp)" "b = Falls None \<longrightarrow> extra = []"
      "yields b rs (length datas + length extra) rs'"
    by (auto simp: body_spec_def)
  have "yields b (Resume # rs) (length (f # datas) + length extra) rs'"
    using d(6) by (cases "length datas + length extra") (auto simp: yields_def split: body_end.splits halt.splits)
  moreover have "data_frames sp (f # datas)" using d(2) assms(2) by (auto simp: data_frames_def)
  ultimately show ?thesis
    unfolding r body_spec_def split_conv
    using d assms(3) by (intro exI [of _ "f # datas"] exI [of _ extra]) auto
qed

lemma body_spec_last:
  assumes "stream_data_event sp v = Inr f" "n < ss_max_events sp" "yields b rs 1 rs'"
  shows "body_spec sp rs n frames (b, rs', frames @ [f], st', x')"
  unfolding body_spec_def split_conv
  using assms by (intro exI [of _ "[f]"] exI [of _ "[]"]) (auto simp: data_frames_def error_frames_def)

lemma error_frames_simps [simp]: "error_frames []" "error_frames [failure_frame m rid]"
  by (auto simp: error_frames_def)

lemma at_yield_spec:
  assumes "error_frames [f]"
  shows "body_spec sp rs n frames (at_yield rs (\<lambda>rs. (Leaves (Some e) e', rs, frames @ [f], st, x))
    (Halts AtYield, [], frames @ [f], st, x) (\<lambda>rs. (Falls (Some e2), rs, frames @ [f], st, x)))"
proof (cases rs)
  case Nil
  then show ?thesis by (auto simp: at_yield_def yields_def intro!: body_specI assms)
next
  case (Cons r rs')
  then show ?thesis by (cases r) (auto simp: at_yield_def yields_def intro!: body_specI assms)
qed

lemma body_failed_spec: "body_spec sp rs n frames (body_failed sp e rs frames st x)"
proof (cases "base_exn e")
  case True
  then show ?thesis
    using body_specI [of "[]" "Leaves (Some e) e" rs rs sp n frames] by (simp add: body_failed_def error_frames_def yields_def)
next
  case False
  then show ?thesis
    by (auto simp: body_failed_def Let_def intro!: at_yield_spec)
qed

lemma stream_events_spec: "body_spec sp rs n frames (stream_events sp so check rs n frames st x)"
proof (induction sp so check rs n frames st x rule: stream_events.induct)
  case (1 sp so check rs n frames st x)
  obtain a st1 y where e: "events_next so n st x = (a, st1, y)" by (metis prod.exhaust)
  note plain = body_specI [of "[]", simplified] and simp = stream_events.simps [of sp so check rs n frames st x]
  show ?case
  proof (cases "\<exists>v. a = Returned (Some v)")
    case True
    then obtain v where a: "a = Returned (Some v)" by blast
    show ?thesis
    proof (cases "n \<ge> ss_max_events sp")
      case True
      then show ?thesis using e a simp by (auto simp: Let_def intro!: at_yield_spec)
    next
      case False
      show ?thesis
      proof (cases "stream_data_event sp v")
        case (Inl err)
        with e a False simp body_failed_spec show ?thesis by simp
      next
        case (Inr f)
        have go: "body_spec sp (Resume # rs1) n frames (stream_events sp so check rs1 (Suc n) (frames @ [f]) st1 y)"
          if "rs = Resume # rs1" for rs1
          using body_spec_next [OF 1 [OF e [symmetric] a refl refl False Inr that refl] Inr] False by simp
        show ?thesis
        proof (cases rs)
          case Nil
          then show ?thesis using e a False Inr simp by (auto simp: yields_def intro!: body_spec_last [OF Inr])
        next
          case (Cons r rs1)
          then show ?thesis using e a False Inr simp go by (cases r) (auto simp: yields_def intro!: body_spec_last [OF Inr])
        qed
      qed
    qed
  next
    case False
    then show ?thesis using e simp body_failed_spec
      by (cases a) (auto simp: error_frames_def yields_def intro!: plain split: option.splits sum.splits)
  qed
qed

lemma stream_events_kept:
  assumes "source_keeps good view so"
  shows "good x \<Longrightarrow> stream_events sp so check rs n frames st x = (b, rs', frames', st', x') \<Longrightarrow> kept good view x x'"
proof (induction sp so\<equiv>so check rs n frames st x rule: stream_events.induct)
  case (1 sp check rs n frames st x)
  obtain a st1 y where e: "events_next so n st x = (a, st1, y)" by (metis prod.exhaust)
  have y: "kept good view x y" using events_next_kept [OF assms 1(2) e] .
  note simp = stream_events.simps [of sp so check rs n frames st x]
  have failed: "snd (snd (snd (snd (body_failed sp err rs frames st1 y)))) = y" for err
    by (auto simp: body_failed_def at_yield_def Let_def split: list.split resume.split)
  show ?case
  proof (cases "\<exists>v f rs1. a = Returned (Some v) \<and> n < ss_max_events sp \<and> stream_data_event sp v = Inr f \<and> rs = Resume # rs1")
    case True
    then obtain v f rs1 where g: "a = Returned (Some v)" "n < ss_max_events sp" "stream_data_event sp v = Inr f" "rs = Resume # rs1"
      by blast
    have "stream_events sp so check rs1 (Suc n) (frames @ [f]) st1 y = (b, rs', frames', st', x')"
      using simp 1(3) e g by simp
    from 1(1) [OF e [symmetric] g(1) refl refl _ g(3,4) refl kept_good [OF y] this] g(2) y
    show ?thesis by (auto intro: kept_trans)
  next
    case False
    then have "x' = y"
      using simp 1(3) e failed
      by (cases a) (auto simp: at_yield_def Let_def split: option.splits sum.splits if_splits list.splits resume.splits
          dest: arg_cong [where f = "\<lambda>r. snd (snd (snd (snd r)))"])
    with y show ?thesis by simp
  qed
qed

section \<open>The cleanup\<close>

lemma cleanup_without_error:
  assumes "opt_orelse primary (cl_error (release_step primary r (close_step primary c))) = None"
  shows "primary = None \<and> cl_raises (release_step primary r (close_step primary c)) = None"
  using assms by (auto simp: opt_orelse_def close_step_def release_step_def split: option.splits if_splits)

definition complete_frames :: "stream_spec \<Rightarrow> bool \<Rightarrow> string list \<Rightarrow> bool" where
  "complete_frames sp prime frames \<longleftrightarrow>
     (\<exists>datas. frames = (if prime then [[]] else []) @ datas @ [native_end] \<and> data_frames sp datas)"

text \<open>
  The generator's end, if it has one: the source is closed, then the token is released, then the observer is told, once; of
  a completion only if nothing failed.
\<close>

definition settled ::
    "('s \<Rightarrow> bool) \<Rightarrow> ('s \<Rightarrow> 'a) \<Rightarrow> ('s \<Rightarrow> (exn, unit) outcome \<times> 's) \<Rightarrow> (run_event \<Rightarrow> 's \<Rightarrow> 's) \<Rightarrow> run_context \<Rightarrow> 's \<Rightarrow>
     (string list \<Rightarrow> bool) \<Rightarrow> stream_outcome \<times> string list \<times> 's \<Rightarrow> bool" where
  "settled good view rel observe ctx x whole_run result \<longleftrightarrow>
     (case result of (out, frames, x') \<Rightarrow>
        (\<exists>h. out = Stalls h) \<or>
        (\<exists>y r z e. kept good view x y \<and> rel y = (r, z) \<and> r \<noteq> Pending \<and> x' = observe (terminal_event ctx e) z \<and>
           (e = None \<longrightarrow> whole_run frames)))"

lemma settled_after:
  assumes "kept good view x y" "settled good view rel observe ctx y whole_run r"
  shows "settled good view rel observe ctx x whole_run r"
proof -
  obtain out fr z where r: "r = (out, fr, z)" by (metis prod.exhaust)
  with assms(2) kept_trans [OF assms(1)] show ?thesis unfolding settled_def split_conv by blast
qed

lemma finish_sse_settled:
  assumes keeps: "source_keeps good view so" and x: "good x"
    and whole: "primary = None \<Longrightarrow> leaving = None \<and> whole_run (frames @ [native_end])"
  shows "settled good view rel observe ctx x whole_run (finish_sse rel observe ctx so primary leaving rs frames st x)"
proof -
  obtain c st' y where c: "events_aclose so st x = (c, st', y)" by (metis prod.exhaust)
  have y: "kept good view x y" by (rule events_aclose_kept [OF keeps x c])
  obtain r z where r: "rel y = (r, z)" by (rule prod.exhaust)
  show ?thesis
  proof (cases "c = Pending \<or> r = Pending")
    case True
    with c r show ?thesis by (cases c) (auto simp: finish_sse_def settled_def)
  next
    case False
    let ?cl = "release_step primary (raised_by r) (close_step primary (raised_by c))"
    let ?e = "opt_orelse primary (cl_error ?cl)" and ?last = "frames @ [native_end]"
    let ?z = "observe (terminal_event ctx ?e) z"
    have eq: "finish_sse rel observe ctx so primary leaving rs frames st x =
       (case opt_orelse (cl_raises ?cl) leaving of
          Some e \<Rightarrow> (Escapes e, frames, ?z)
        | None \<Rightarrow> at_yield rs (\<lambda>_. (Escapes gen_exit, ?last, ?z)) (AtEnd, ?last, ?z) (\<lambda>_. (Exhausts, ?last, ?z)))"
      using False c r by (cases c; cases r) (simp_all add: finish_sse_def Let_def cong: option.case_cong)
    have whole_end: "opt_orelse (cl_raises ?cl) leaving = None \<and> whole_run ?last" if "?e = None"
      using cleanup_without_error [OF that] whole by (auto simp: opt_orelse_def)
    obtain out fr where of: "finish_sse rel observe ctx so primary leaving rs frames st x = (out, fr, ?z)"
        "?e = None \<Longrightarrow> fr = ?last"
      unfolding eq using whole_end
      by (cases "opt_orelse (cl_raises ?cl) leaving"; cases rs; cases "hd rs") (auto simp: at_yield_def)
    have "?e = None \<longrightarrow> whole_run fr" using of(2) whole_end by auto
    with y r False of(1) show ?thesis unfolding settled_def by (auto intro!: exI)
  qed
qed

lemma sse_settled:
  assumes keeps: "source_keeps good view so" and x: "good x"
  shows "settled good view rel observe ctx x (complete_frames sp prime) (sse_event_stream sp rel observe ctx so check prime rs x)"
proof -
  let ?pre = "if prime then [[]] else []"
  have body: "settled good view rel observe ctx x (complete_frames sp prime)
      (case stream_events sp so check rs1 0 ?pre Unopened x of
          (Halts h, rs1, frames, st, x1) \<Rightarrow> (Stalls h, frames, x1)
        | (Falls e, rs1, frames, st, x1) \<Rightarrow> finish_sse rel observe ctx so e None rs1 frames st x1
        | (Leaves primary e, rs1, frames, st, x1) \<Rightarrow> finish_sse rel observe ctx so primary (Some e) rs1 frames st x1)" for rs1
  proof -
    obtain b rs' frames st y where b: "stream_events sp so check rs1 0 ?pre Unopened x = (b, rs', frames, st, y)" by (metis prod.exhaust)
    have y: "kept good view x y" by (rule stream_events_kept [OF keeps x b])
    from stream_events_spec [of sp rs1 0 ?pre so check Unopened x] b obtain datas extra where
      d: "frames = ?pre @ datas @ extra" "data_frames sp datas" "b = Falls None \<longrightarrow> extra = []" "yields b rs1 (length datas + length extra) rs'"
      by (auto simp: body_spec_def)
    have fin: "settled good view rel observe ctx x (complete_frames sp prime) (finish_sse rel observe ctx so p l rs' frames st y)"
      if "p = None \<Longrightarrow> l = None \<and> complete_frames sp prime (frames @ [native_end])" for p l
      by (rule settled_after [OF y finish_sse_settled [where whole_run = "complete_frames sp prime", OF keeps kept_good [OF y]]]) (rule that)
    show ?thesis
    proof (cases b)
      case (Falls e)
      with fin [of e None] b d show ?thesis by (auto simp: complete_frames_def)
    next
      case (Leaves p e)
      with fin [of p "Some e"] b d show ?thesis by (auto simp: yields_def)
    qed (use b in \<open>simp add: settled_def\<close>)
  qed
  have shut: "settled good view rel observe ctx x (complete_frames sp prime)
      (finish_sse rel observe ctx so (Some gen_exit) (Some gen_exit) rs1 [[]] Unopened x)" for rs1
    by (rule finish_sse_settled [OF keeps x]) simp
  show ?thesis
  proof (cases prime)
    case True
    then show ?thesis
      using body shut by (cases rs; cases "hd rs") (auto simp: sse_event_stream_def at_yield_def settled_def [of _ _ _ _ _ _ _ "(_, _)"])
  next
    case False
    then show ?thesis using body [of rs] by (simp add: sse_event_stream_def)
  qed
qed

section \<open>The end\<close>

lemma finish_sse_ends:
  assumes "finish_sse rel observe ctx so primary leaving rs frames st x = (out, frames', x')"
  shows "out \<noteq> Stalls AtYield \<and> (out = AtEnd \<longrightarrow> rs = [] \<and> leaving = None) \<and> length frames' \<le> Suc (length frames)"
proof -
  obtain c st' y where c: "events_aclose so st x = (c, st', y)" by (metis prod.exhaust)
  obtain r z where r: "rel y = (r, z)" by (rule prod.exhaust)
  have "out = Stalls Awaiting \<and> frames' = frames \<or> (\<exists>e. out = Escapes e) \<and> frames' = frames \<or>
      frames' = frames @ [native_end] \<and> (out = Escapes gen_exit \<or> out = Exhausts \<or> out = AtEnd \<and> rs = [] \<and> leaving = None)"
    using assms c r
    by (cases c; cases r) (auto simp: finish_sse_def at_yield_def opt_orelse_def Let_def split: option.splits list.splits resume.splits)
  then show ?thesis by auto
qed

definition long_enough :: "stream_spec \<Rightarrow> resume list \<Rightarrow> bool" where
  "long_enough sp rs \<longleftrightarrow>
     (\<exists>m. rs = replicate m Resume @ [Aclose] \<or> rs = replicate (ss_max_events sp + 3 + m) Resume)"

lemma replicate_rest:
  assumes "replicate m Resume @ rest = replicate y Resume @ rs'" "rest = [Aclose] \<or> rest = [] \<and> y < m"
  shows "rs' \<noteq> []"
proof (cases "y \<le> m")
  case True
  then have "replicate m Resume = replicate y Resume @ replicate (m - y) Resume" by (simp flip: replicate_add)
  with assms show ?thesis by auto
next
  case False
  with assms(2) have "rest = [Aclose]" by simp
  show ?thesis
  proof
    assume "rs' = []"
    with assms(1) \<open>rest = [Aclose]\<close> have "Aclose \<in> set (replicate y Resume)" by (metis append_Nil2 in_set_conv_decomp)
    then show False by simp
  qed
qed

lemma block_ends:
  assumes rs: "rs = replicate m Resume @ rest" "rest = [Aclose] \<or> rest = [] \<and> ss_max_events sp + 2 \<le> m"
    and b: "stream_events sp so check rs 0 frames Unopened x = (b, rs', frames', st, y)"
  shows "b \<noteq> Halts AtYield \<and> ((\<exists>e. b = Falls e) \<longrightarrow> rs' \<noteq> []) \<and> length frames' \<le> length frames + ss_max_events sp + 1"
proof -
  from stream_events_spec [of sp rs 0 frames so check Unopened x] b obtain datas extra where
    d: "frames' = frames @ datas @ extra" "error_frames extra" "length datas \<le> ss_max_events sp"
      "yields b rs (length datas + length extra) rs'"
    by (auto simp: body_spec_def)
  let ?y = "length datas + length extra"
  have y: "?y \<le> ss_max_events sp + 1" using d(2,3) by (auto simp: error_frames_def)
  have "b \<noteq> Halts AtYield"
  proof
    assume "b = Halts AtYield"
    then have "0 < ?y" "replicate m Resume @ rest = replicate (?y - 1) Resume @ []" using d(4) rs(1) by (auto simp: yields_def)
    with replicate_rest [of m rest "?y - 1" "[]"] rs(2) y show False by auto
  qed
  moreover have "rs' \<noteq> []" if "b = Falls e" for e
    using that d(4) rs y replicate_rest [of m rest ?y rs'] by (auto simp: yields_def)
  ultimately show ?thesis using d(1) y by auto
qed

lemma sse_ends:
  assumes "long_enough sp rs" "sse_event_stream sp rel observe ctx so check prime rs x = (out, frames, x')"
  shows "out \<notin> {Stalls AtYield, AtEnd} \<and> length frames \<le> ss_max_events sp + 3"
proof -
  let ?pre = "if prime then [[]] else []"
  obtain m rest where rs: "rs = replicate m Resume @ rest" "rest = [Aclose] \<or> rest = [] \<and> ss_max_events sp + 3 \<le> m"
    using assms(1) by (fastforce simp: long_enough_def)
  have body: "out \<notin> {Stalls AtYield, AtEnd} \<and> length frames \<le> ss_max_events sp + 3"
    if "(case stream_events sp so check rs1 0 ?pre Unopened x of
          (Halts h, rs1, frames, st, x1) \<Rightarrow> (Stalls h, frames, x1)
        | (Falls e, rs1, frames, st, x1) \<Rightarrow> finish_sse rel observe ctx so e None rs1 frames st x1
        | (Leaves primary e, rs1, frames, st, x1) \<Rightarrow> finish_sse rel observe ctx so primary (Some e) rs1 frames st x1) = (out, frames, x')"
      "rs1 = replicate m1 Resume @ rest" "rest = [Aclose] \<or> rest = [] \<and> ss_max_events sp + 2 \<le> m1" for rs1 m1
  proof -
    obtain b rs' fr st y where b: "stream_events sp so check rs1 0 ?pre Unopened x = (b, rs', fr, st, y)" by (metis prod.exhaust)
    note ends = block_ends [OF that(2,3) b]
    have len: "length fr \<le> ss_max_events sp + 2" using ends by (auto split: if_splits)
    show ?thesis
    proof (cases b)
      case (Falls e)
      with that(1) b finish_sse_ends [of rel observe ctx so e None rs' fr st y out frames x'] ends len show ?thesis by auto
    next
      case (Leaves p e)
      with that(1) b finish_sse_ends [of rel observe ctx so p "Some e" rs' fr st y out frames x'] ends len show ?thesis by auto
    next
      case (Halts h)
      with that(1) b ends len show ?thesis by auto
    qed
  qed
  show ?thesis
  proof (cases prime)
    case False
    with assms(2) body [OF _ rs(1)] rs(2) show ?thesis by (auto simp: sse_event_stream_def)
  next
    case True
    show ?thesis
    proof (cases m)
      case 0
      with rs have "rs = [Aclose]" by simp
      with True assms(2) finish_sse_ends [of rel observe ctx so "Some gen_exit" "Some gen_exit" "[]" "[[]]" Unopened x out frames x']
      show ?thesis by (auto simp: sse_event_stream_def at_yield_def)
    next
      case (Suc m1)
      with True assms(2) rs body [of "replicate m1 Resume @ rest" m1] show ?thesis
        by (auto simp: sse_event_stream_def at_yield_def)
    qed
  qed
qed

section \<open>Deferred responses\<close>

definition streaming_keeps :: "('s \<Rightarrow> bool) \<Rightarrow> ('s \<Rightarrow> 'a) \<Rightarrow> 's streaming \<Rightarrow> bool" where
  "streaming_keeps good view sm \<longleftrightarrow>
     native_keeps good view (native.truncate sm) \<and>
     (\<forall>g i c m v. keeping good view (sm_open sm g i c m v) \<and> keeping good view (sm_aopen sm g i c m v)) \<and>
     (\<forall>g. keeping good view (sm_close sm g))"

lemma keeping_answer: "keeping good view f \<Longrightarrow> keeping good view (\<lambda>x. case f x of (s, x1) \<Rightarrow> (h s, x1))"
  by (simp add: keeping_def split_def)

lemma graph_source_keeps:
  assumes "streaming_keeps good view sm"
  shows "source_keeps good view (graph_source sm is_async g input config mode version)"
  using assms
  by (cases is_async) (auto simp: graph_source_def source_keeps_def streaming_keeps_def native_keeps_def native.truncate_def
      intro!: keeping_answer)

text \<open>A lock and a trace, as one view of the state.\<close>

definition lock_trace :: "lock_key \<Rightarrow> inproc traced \<Rightarrow> run_event list \<times> token option" where
  "lock_trace k x = (snd x, traced_owner x k)"

lemma record_event_view [simp]:
  "traced_quiet (record_event ev x) = traced_quiet x" "traced_owner (record_event ev x) = traced_owner x"
  "snd (record_event ev x) = snd x @ [ev]"
  by (simp_all add: record_event_def traced_quiet_def traced_owner_def)

definition token_held :: "lock_key \<Rightarrow> token option \<Rightarrow> inproc traced \<Rightarrow> bool" where
  "token_held k token x \<longleftrightarrow> (\<forall>t. token = Some t \<longrightarrow> traced_owner x k = Some t)"

lemma release_token_view:
  assumes "lo_release lo = traced_release ip_release" "traced_quiet y" "token_held k token y" "release_token lo k token y = (r, z)"
  shows "traced_quiet z \<and> snd z = snd y \<and> traced_owner z k = (if token = None then traced_owner y k else None)"
  using assms traced.release_inv [of y k] traced.release_owner [of y k]
  by (cases token) (auto simp: release_token_def release_thread_lock_def token_held_def traced_ops_silent)

text \<open>What the observer has heard when a deferred response is over, by how it ended.\<close>

definition stream_told :: "run_context \<Rightarrow> (native_error, stream_answer) outcome \<Rightarrow> run_event list \<Rightarrow> bool" where
  "stream_told ctx out evs \<longleftrightarrow>
     (case out of
        Returned (Frames ending frames) \<Rightarrow>
          ending = Stalls Awaiting \<or>
          ending \<notin> {Stalls AtYield, AtEnd} \<and>
          (evs = [RunStarted ctx, RunCompleted ctx] \<and> last frames = native_end \<or> (\<exists>e. evs = [RunStarted ctx, RunFailed ctx e]))
      | Returned (Refusal r) \<Rightarrow> evs = [RunRejected ctx ''lock_contention'']
      | Raised (NativeRaised e) \<Rightarrow> evs = [RunStarted ctx, RunFailed ctx e]
      | Raised (NativeLock e) \<Rightarrow> evs = []
      | Cancelled \<Rightarrow> evs = []
      | Pending \<Rightarrow> True)"

definition waiting :: "(native_error, stream_answer) outcome \<Rightarrow> bool" where
  "waiting out \<longleftrightarrow> out = Pending \<or> (\<exists>frames. out = Returned (Frames (Stalls Awaiting) frames))"

lemma stream_run_told:
  assumes sm: "nv_observe sm = record_event" "streaming_keeps traced_quiet (lock_trace k) sm"
    and lo: "lo_release lo = traced_release ip_release"
    and x: "traced_quiet x" "snd x = []" "token_held k token x"
    and rs: "rs = replicate n Resume @ [Aclose]"
    and run: "stream_run sm lo reg is_async pr k token rs x = (out, x')"
  shows "stream_told (pr_context pr) out (snd x') \<and>
    (waiting out \<or> traced_owner x' k = (if token = None then traced_owner x k else None))"
proof -
  let ?ctx = "pr_context pr" and ?x = "record_event (RunStarted (pr_context pr)) x" and ?r = "pr_request pr"
  have rel: "traced_quiet z \<and> snd z = snd y \<and> traced_owner z k = (if token = None then traced_owner x k else None)"
    if "kept traced_quiet (lock_trace k) ?x y" "release_token lo k token y = (r, z)" for r y z
    using release_token_view [OF lo _ _ that(2)] that(1) x(3) by (simp add: kept_def lock_trace_def token_held_def)
  show ?thesis
  proof (cases "guard_run_config (gp_is_guard (nv_guard sm)) (gp_provider (nv_guard sm)) (reg_name reg)
      (native_lock_thread reg (pr_thread pr)) token (Some (pr_config pr))")
    case (Inl ge)
    obtain r z where r: "release_token lo k token ?x = (r, z)" by (rule prod.exhaust)
    from rel [OF kept_refl r] x run Inl r sm(1) show ?thesis
      by (cases r) (auto simp: stream_run_def Let_def stream_told_def waiting_def)
  next
    case (Inr cg)
    obtain config guard where cg: "cg = (config, guard)" by (rule prod.exhaust)
    let ?sp = "\<lparr>ss_encoder = nv_encoder sm, ss_text = nv_text sm, ss_run_id = rc_run_id ?ctx, ss_max_events = sm_max_events sm\<rparr>"
    let ?so = "graph_source sm is_async (reg_graph reg) (nr_input ?r) config (nr_mode ?r) (nr_version ?r)"
    let ?sse = "sse_event_stream ?sp (release_token lo k token) record_event ?ctx ?so
      (\<lambda>x. check_ownership_guard (\<lambda>a. gp_check (nv_guard sm) a x) guard) True rs ?x"
    obtain ending frames where f: "?sse = (ending, frames, x')" "out = Returned (Frames ending frames)"
      using run Inr cg sm(1) by (auto simp: stream_run_def Let_def split: prod.splits)
    have "long_enough ?sp rs" using rs by (auto simp: long_enough_def)
    from sse_ends [OF this f(1)] have ends: "ending \<notin> {Stalls AtYield, AtEnd}" by simp
    have "traced_quiet ?x" using x(1) by simp
    from sse_settled [OF graph_source_keeps [OF sm(2)] this, of "release_token lo k token" record_event ?ctx ?sp True] f(1)
    have "settled traced_quiet (lock_trace k) (release_token lo k token) record_event ?ctx ?x (complete_frames ?sp True) (ending, frames, x')"
      by metis
    then consider h where "ending = Stalls h"
      | y r z e where "kept traced_quiet (lock_trace k) ?x y" "release_token lo k token y = (r, z)"
          "x' = record_event (terminal_event ?ctx e) z" "e = None \<longrightarrow> complete_frames ?sp True frames"
      unfolding settled_def by auto
    then show ?thesis
    proof cases
      case 1
      with ends f(2) show ?thesis by (cases h) (auto simp: stream_told_def waiting_def)
    next
      case (2 y r z e)
      from 2(1) have "snd y = [RunStarted ?ctx]" using x(2) by (simp add: kept_def lock_trace_def)
      with rel [OF 2(1,2)] 2(3,4) ends f(2) show ?thesis
        by (cases e) (auto simp: stream_told_def terminal_event_def complete_frames_def)
    qed
  qed
qed

lemma prepare_stream_told:
  assumes sm: "nv_observe sm = record_event" "streaming_keeps traced_quiet (lock_trace k) sm"
    and lo: "lo_acquire lo = traced_acquire ip_acquire" "lo_release lo = traced_release ip_release"
    and env: "\<And>y. snd (lo_env lo y) = snd y"
      "\<And>y. traced_quiet y \<Longrightarrow> traced_quiet (lo_env lo y) \<and> (traced_owner y k = Some tok \<longrightarrow> traced_owner (lo_env lo y) k = Some tok)"
    and x: "traced_quiet x" "snd x = []" and key: "native_key reg (pr_thread pr) \<in> {None, Some k}"
    and run: "deferred_response sm lo tok reg is_async pr n x = (out, x')"
  shows "stream_told (pr_context pr) out (snd x') \<and> (waiting out \<or> traced_owner x' k = traced_owner x k)"
proof (cases "native_key reg (pr_thread pr)")
  case None
  let ?k = "Key (reg_name reg) []"
  have start: "stream_run sm lo reg is_async pr ?k None (replicate n Resume @ [Aclose]) x = (out, x')"
    using run None by (simp add: deferred_response_def prepare_stream_response_def)
  have same: "stream_run sm lo reg is_async pr ?k None = stream_run sm lo reg is_async pr k None"
  proof -
    have rel: "release_token lo ?k None = release_token lo k None" by (simp add: release_token_def fun_eq_iff)
    show ?thesis unfolding stream_run_def [abs_def] rel ..
  qed
  from stream_run_told [OF sm lo(2) x _ refl start [unfolded same]] show ?thesis by (simp add: token_held_def)
next
  case (Some k')
  with key have k: "native_key reg (pr_thread pr) = Some k" by simp
  obtain a y where a: "acquire_thread_lock (traced_acquire ip_acquire) (traced_release ip_release) (lo_env lo) (lo_first lo)
      (lo_undo lo) k tok x = (a, y)" by (rule prod.exhaust)
  have y: "snd y = []" using acquire_trace [OF env(1) a] x(2) by simp
  show ?thesis
  proof (cases "a = Pending")
    case True
    with run k a lo show ?thesis
      by (auto simp: deferred_response_def prepare_stream_response_def stream_told_def waiting_def)
  next
    case False
    note own = traced.acquire_no_leak [OF x(1) env(2) a False]
    show ?thesis
    proof (cases "\<exists>t. a = Returned (Some t)")
      case True
      with own have t: "a = Returned (Some tok)" "traced_quiet y" "traced_owner x k = None" "traced_owner y k = Some tok" by auto
      then have "stream_run sm lo reg is_async pr k (Some tok) (replicate n Resume @ [Aclose]) y = (out, x')"
        using run k a lo by (simp add: deferred_response_def prepare_stream_response_def)
      from stream_run_told [OF sm lo(2) t(2) y _ refl this] t show ?thesis by (simp add: token_held_def)
    next
      case False
      with own run k a lo y sm(1) show ?thesis
        by (cases a) (auto simp: deferred_response_def prepare_stream_response_def stream_told_def reject_def native.truncate_def
            split: option.splits)
    qed
  qed
qed

section \<open>Invocations\<close>

lemma stream_body_refuses: "read_stream_body sm req = Inl r \<Longrightarrow> \<exists>code d. r = NativeError code d None"
  by (auto simp: read_stream_body_def error_response_def split: option.splits if_splits)

lemma stream_request_refuses:
  "validate_stream_request sm allowed validate body = Inl r \<Longrightarrow> \<exists>code d. r = NativeError code d None"
  by (auto simp: validate_stream_request_def error_response_def Let_def split: sum.splits option.splits if_splits)

lemma parsed_refuses:
  "bind_res (read_stream_body sm req) (validate_stream_request sm allowed validate) = Inl r \<Longrightarrow> \<exists>code d. r = NativeError code d None"
  using stream_body_refuses stream_request_refuses by (auto simp: bind_res_def split: sum.splits)

lemma truncate_fields [simp]:
  "nv_observe (native.truncate sm) = nv_observe sm" "native.truncate (native.truncate sm) = native.truncate sm"
  by (simp_all add: native.truncate_def)

lemma prepare_true_ends:
  assumes "prepare_true sm endpoint reg meth validate req x = (r, x')"
  shows "\<exists>y. (y = x \<or> (\<exists>tid. y = snd (native_authorization (nv_apolicy sm) tid req x))) \<and>
    (case r of Returned (Inl a) \<Rightarrow> refused_to (native.truncate sm) a y x' | _ \<Rightarrow> x' = y)"
proof (cases "bind_res (read_stream_body sm req) (validate_stream_request sm (ng_allowed reg) validate)")
  case (Inl a)
  with assms have "map_prod (\<lambda>r. Returned (Inl r)) id
      (reject (native.truncate sm) (native_context (native.truncate sm) endpoint reg req) ''invalid_request'' a x) = (r, x')"
    by (simp add: prepare_true_def Let_def)
  from refused_to_reject [OF parsed_refuses [OF Inl] this] show ?thesis by blast
next
  case parsed: (Inr request)
  show ?thesis
  proof (cases "validated_run_thread (or_empty (nr_config request)) (ng_saver reg)")
    case (Inl d)
    with parsed assms have "map_prod (\<lambda>r. Returned (Inl r)) id
        (reject (native.truncate sm) (native_context (native.truncate sm) endpoint reg req) ''invalid_config'' (error_response 400 d) x) = (r, x')"
      by (simp add: prepare_true_def Let_def)
    from refused_to_reject [OF _ this] show ?thesis by (auto simp: error_response_def)
  next
    case (Inr tid)
    obtain a y where y: "native_authorization (nv_apolicy sm) tid req x = (a, y)" by (rule prod.exhaust)
    have "case r of Returned (Inl a) \<Rightarrow> refused_to (native.truncate sm) a y x' | _ \<Rightarrow> x' = y"
    proof (cases "a = Returned None")
      case True
      with assms parsed Inr y show ?thesis
        by (auto simp: prepare_true_def Let_def reject_def refused_toI split: sum.splits dest!: resolve_version_refuses
            intro!: refused_toI [where nv = "native.truncate sm", simplified])
    next
      case False
      with assms parsed Inr y show ?thesis
        by (cases a) (auto simp: prepare_true_def Let_def error_response_def reject_def
            intro!: refused_toI [where nv = "native.truncate sm", simplified])
    qed
    moreover have "y = snd (native_authorization (nv_apolicy sm) tid req x)" using y by simp
    ultimately show ?thesis by blast
  qed
qed

definition reported :: "(exn, native_response) outcome \<Rightarrow> run_event list \<Rightarrow> bool" where
  "reported out evs \<longleftrightarrow>
     (case out of
        Returned r \<Rightarrow>
          (\<exists>ctx reason code d. evs = [RunRejected ctx reason] \<and> r = NativeError code d (Some (rc_run_id ctx))) \<or>
          (\<exists>ctx v. evs = [RunStarted ctx, RunCompleted ctx] \<and> r = NativeJson v None) \<or>
          (\<exists>ctx e. (evs = [] \<or> evs = [RunStarted ctx, RunFailed ctx e]) \<and> r = execution_failed ctx)
      | Pending \<Rightarrow> True
      | _ \<Rightarrow> evs = [] \<or> (\<exists>ctx e. evs = [RunStarted ctx, RunFailed ctx e]))"

lemma run_graph_kept:
  assumes "streaming_keeps good view sm" "good x" "run_graph sm reg is_async pr config x = (out, y)"
  shows "kept good view x y"
proof -
  have ks: "keeping good view (nv_invoke sm g i c v)" "keeping good view (nv_ainvoke sm g i c v)" for g i c v
    using assms(1) by (auto simp: streaming_keeps_def native_keeps_def native.truncate_def)
  have "y = snd (if is_async then nv_ainvoke sm (reg_graph reg) (nr_input (pr_request pr)) config (nr_version (pr_request pr)) x
      else map_prod of_result id (nv_invoke sm (reg_graph reg) (nr_input (pr_request pr)) config (nr_version (pr_request pr)) x))"
    using assms(3) by (auto simp: run_graph_def run_sync_retaining_ownership_def Let_def split: prod.splits option.splits)
  with ks assms(2) show ?thesis by (auto simp: keeping_def)
qed

lemma true_invoke_body_kept:
  assumes sm: "nv_observe sm = record_event" "streaming_keeps traced_quiet (lock_trace k) sm"
    and x: "traced_quiet x" "snd x = []" and run: "true_invoke_body sm reg is_async pr token x = (out, y)"
  shows "traced_quiet y \<and> snd y = [RunStarted (pr_context pr)] \<and> traced_owner y k = traced_owner x k"
proof -
  let ?x = "record_event (RunStarted (pr_context pr)) x"
  have "kept traced_quiet (lock_trace k) ?x y"
  proof (cases "guard_run_config (gp_is_guard (nv_guard sm)) (gp_provider (nv_guard sm)) (reg_name reg)
      (native_lock_thread reg (pr_thread pr)) token (Some (pr_config pr))")
    case (Inl ge)
    with run sm(1) x show ?thesis by (auto simp: true_invoke_body_def Let_def kept_def)
  next
    case (Inr cg)
    obtain config guard where cg: "cg = (config, guard)" by (rule prod.exhaust)
    obtain a z where a: "run_graph sm reg is_async pr config ?x = (a, z)" by (rule prod.exhaust)
    have "traced_quiet ?x" using x(1) by simp
    from run_graph_kept [OF sm(2) this a] run Inr cg a sm(1) show ?thesis
      by (cases a) (auto simp: true_invoke_body_def Let_def split: sum.splits)
  qed
  with x show ?thesis by (simp add: kept_def lock_trace_def)
qed

lemma end_true_invoke_told:
  assumes "nv_observe sm = record_event" "snd x = [RunStarted ctx]" "end_true_invoke sm ctx out x = (out', x')"
  shows "reported out' (snd x') \<and> (out' = Pending \<longleftrightarrow> out = Pending) \<and>
    (traced_quiet x \<longrightarrow> traced_quiet x') \<and> traced_owner x' k = traced_owner x k"
  using assms
  by (cases out) (auto simp: end_true_invoke_def true_invoke_failed_def reported_def split: sum.splits if_splits)

lemma true_invoke_told:
  assumes sm: "nv_observe sm = record_event" "streaming_keeps traced_quiet (lock_trace k) sm"
    and lo: "lo_acquire lo = traced_acquire ip_acquire" "lo_release lo = traced_release ip_release"
    and env: "\<And>y. snd (lo_env lo y) = snd y"
      "\<And>y. traced_quiet y \<Longrightarrow> traced_quiet (lo_env lo y) \<and> (traced_owner y k = Some tok \<longrightarrow> traced_owner (lo_env lo y) k = Some tok)"
    and x: "traced_quiet x" "snd x = []" and key: "native_key reg (pr_thread pr) \<in> {None, Some k}"
    and run: "true_invoke_run sm lo tok reg is_async pr x = (out, x')"
  shows "reported out (snd x') \<and> (out = Pending \<or> traced_owner x' k = traced_owner x k)"
proof (cases "native_key reg (pr_thread pr)")
  case None
  obtain b y where b: "true_invoke_body sm reg is_async pr None x = (b, y)" by (rule prod.exhaust)
  note body = true_invoke_body_kept [OF sm x b]
  have "end_true_invoke sm (pr_context pr) b y = (out, x')" using run None b by (simp add: true_invoke_run_def)
  with end_true_invoke_told [OF sm(1), of y "pr_context pr" b out x' k] body show ?thesis by auto
next
  case (Some k')
  with key have k: "native_key reg (pr_thread pr) = Some k" by simp
  obtain a y where a: "acquire_thread_lock (traced_acquire ip_acquire) (traced_release ip_release) (lo_env lo) (lo_first lo)
      (lo_undo lo) k tok x = (a, y)" by (rule prod.exhaust)
  have y: "snd y = []" using acquire_trace [OF env(1) a] x(2) by simp
  show ?thesis
  proof (cases "a = Pending")
    case True
    with run k a lo show ?thesis by (auto simp: true_invoke_run_def reported_def)
  next
    case False
    note own = traced.acquire_no_leak [OF x(1) env(2) a False]
    show ?thesis
    proof (cases "\<exists>t. a = Returned (Some t)")
      case True
      with own have t: "a = Returned (Some tok)" "traced_quiet y" "traced_owner x k = None" "traced_owner y k = Some tok" by auto
      obtain b z where b: "true_invoke_body sm reg is_async pr (Some tok) y = (b, z)" by (rule prod.exhaust)
      note body = true_invoke_body_kept [OF sm t(2) y b]
      obtain c u where c: "finish_scope (traced_release ip_release) k (lo_last lo) (Some tok) b z = (c, u)" by (rule prod.exhaust)
      have "c = Pending \<or> traced_owner u k = None" "snd u = snd z"
        using c body t traced.release_owner [of z k tok]
        by (auto simp: finish_scope_def release_thread_lock_def traced_ops_silent split: if_splits)
      moreover have "end_true_invoke sm (pr_context pr) c u = (out, x')"
        using run k a lo t b c by (simp add: true_invoke_run_def)
      ultimately show ?thesis
        using end_true_invoke_told [OF sm(1), of u "pr_context pr" c out x' k] body t by auto
    next
      case False
      with own run k a lo y sm(1) show ?thesis
        by (cases a) (auto simp: true_invoke_run_def reported_def reject_def native.truncate_def in_use_def error_response_def Let_def
            split: option.splits)
    qed
  qed
qed

section \<open>On the default backend\<close>

text \<open>
  C14: Whatever becomes of the consumer of a true stream, after any number of frames, by a disconnect or
  a cancellation anywhere, the run is settled: the thread's lock is back, and the observer has heard
  of the start and of exactly one terminal event, a completion only if the last frame is the end
  frame; a refused or cancelled acquisition starts nothing. Only an \<open>await\<close> that never ends is excepted.
\<close>

theorem stream_settled:
  assumes "nv_observe sm = record_event" "streaming_keeps traced_quiet (lock_trace k) sm"
    and "lo_acquire lo = traced_acquire ip_acquire" "lo_release lo = traced_release ip_release"
    and "\<And>y. snd (lo_env lo y) = snd y"
    and "\<And>y. traced_quiet y \<Longrightarrow> traced_quiet (lo_env lo y) \<and> (traced_owner y k = Some tok \<longrightarrow> traced_owner (lo_env lo y) k = Some tok)"
    and "traced_quiet (l, [])" "native_key reg (pr_thread pr) \<in> {None, Some k}"
    and "deferred_response sm lo tok reg is_async pr n (l, []) = (out, x')"
  shows "stream_told (pr_context pr) out (snd x') \<and> (waiting out \<or> traced_owner x' k = traced_owner (l, []) k)"
  by (rule prepare_stream_told [OF assms(1-7) snd_conv assms(8,9)])

text \<open>
  C28: A true stream ends: whatever the graph yields, for ever if it likes, a consumer that keeps asking
  is at the end after \<open>max_stream_events + 3\<close> requests, and has been sent no more than so many frames.
\<close>

theorem stream_terminates:
  "case sse_event_stream sp rel observe ctx so check prime (replicate (ss_max_events sp + 3 + m) Resume) x of
     (out, frames, x') \<Rightarrow> out \<notin> {Stalls AtYield, AtEnd} \<and> length frames \<le> ss_max_events sp + 3"
proof -
  let ?rs = "replicate (ss_max_events sp + 3 + m) Resume"
  obtain out frames x' where r: "sse_event_stream sp rel observe ctx so check prime ?rs x = (out, frames, x')" by (metis prod.exhaust)
  have "long_enough sp ?rs" by (auto simp: long_enough_def)
  from sse_ends [OF this r] r show ?thesis by simp
qed

text \<open>
  C17: The streaming application reports every invocation it starts with one terminal event, also one that
  is cancelled or ended by a base exception, which the buffered application does not; a rejection is one event with
  its answer; an error of the lock is answered as a failed run that was never started. The lock is given back.
\<close>

theorem true_invoke_reported:
  assumes "nv_observe sm = record_event" "streaming_keeps traced_quiet (lock_trace k) sm"
    and "lo_acquire lo = traced_acquire ip_acquire" "lo_release lo = traced_release ip_release"
    and "\<And>y. snd (lo_env lo y) = snd y"
    and "\<And>y. traced_quiet y \<Longrightarrow> traced_quiet (lo_env lo y) \<and> (traced_owner y k = Some tok \<longrightarrow> traced_owner (lo_env lo y) k = Some tok)"
    and "traced_quiet (l, [])" "native_key reg (pr_thread pr) \<in> {None, Some k}"
    and "true_invoke_run sm lo tok reg is_async pr (l, []) = (out, x')"
  shows "reported out (snd x') \<and> (out = Pending \<or> traced_owner x' k = traced_owner (l, []) k)"
  by (rule true_invoke_told [OF assms(1-7) snd_conv assms(8,9)])

text \<open>
  A synchronous iterator that breaks after its consumer was cancelled loses the cancellation: the error
  is raised instead, and the generator goes on with an error frame. The helper of \<^verbatim>\<open>locks/_async.py\<close> for the same
  purpose raises the cancellation.
\<close>

lemma cancellation_lost:
  assumes "\<not> base_exn e"
  shows "await_sync_worker [Interrupted False, Finished] False (Inl e :: exn + 'a) = Raised e"
    and "fst (run_sync_retaining_ownership (\<lambda>s. (Inl e :: exn + 'a, s)) \<lparr>sc_rounds = [Interrupted False, Finished], sc_late = late\<rparr> s) = Cancelled"
  by (simp_all add: run_sync_retaining_ownership_def await_schedule_def)

section \<open>Examples\<close>

text \<open>A graph that yields for ever, streamed to a consumer that is gone after three frames.\<close>

definition example_streaming :: "inproc traced streaming" where
  "example_streaming = native.extend (example_native record_event)
     (streaming.fields 5 (\<lambda>d. Inr (PDict d)) (\<lambda>g i c m v x. (Inr (), x)) (\<lambda>g i c m v x. (Inr (), x)) (\<lambda>g x. (Inr (), x))
        (\<lambda>n. [Finished]) [Finished] calm)"

lemma example_streaming_observe: "nv_observe example_streaming = record_event"
  by (simp add: example_streaming_def native.defs streaming.defs example_native_def native_with_def)

lemma example_streaming_keeps: "streaming_keeps good view example_streaming"
  by (simp add: streaming_keeps_def example_streaming_def native.defs streaming.defs native_keeps_def policy_keeps_def keeping_def kept_def
      example_native_def native_with_def no_close_def)

lemma example_key: "native_key example_graph (pr_thread example_call) = Some (Key ''g'' ''t'')"
  by (simp add: native_key_def native_lock_thread_def example_call_def example_graph_def)

lemma example_lock_side_simps:
  "lo_acquire example_lock_side = traced_acquire ip_acquire" "lo_release example_lock_side = traced_release ip_release"
  "lo_env example_lock_side y = y"
  by (simp_all add: example_lock_side_def)

lemma stream_settled_witness:
  "let r = deferred_response example_streaming example_lock_side ''tok'' example_graph False example_call 3 (inproc_init, [])
   in stream_told (pr_context example_call) (fst r) (snd (snd r)) \<and>
     (waiting (fst r) \<or> traced_owner (snd r) (Key ''g'' ''t'') = None)"
proof -
  let ?r = "deferred_response example_streaming example_lock_side ''tok'' example_graph False example_call 3 (inproc_init, [])"
  have free: "traced_owner (inproc_init, []) (Key ''g'' ''t'') = None" by (simp add: traced_owner_def ip_owner_def inproc_init_def)
  have "stream_told (pr_context example_call) (fst ?r) (snd (snd ?r)) \<and>
      (waiting (fst ?r) \<or> traced_owner (snd ?r) (Key ''g'' ''t'') = traced_owner (inproc_init, []) (Key ''g'' ''t''))"
    by (rule stream_settled [OF example_streaming_observe example_streaming_keeps _ _ _ _ example_quiet _ prod.collapse [symmetric]])
      (simp_all add: example_lock_side_simps example_key)
  with free show ?thesis by (simp add: Let_def)
qed

lemma true_invoke_reported_witness:
  "let r = true_invoke_run example_streaming example_lock_side ''tok'' example_graph True example_call (inproc_init, [])
   in reported (fst r) (snd (snd r))"
proof -
  let ?r = "true_invoke_run example_streaming example_lock_side ''tok'' example_graph True example_call (inproc_init, [])"
  have "reported (fst ?r) (snd (snd ?r)) \<and>
      (fst ?r = Pending \<or> traced_owner (snd ?r) (Key ''g'' ''t'') = traced_owner (inproc_init, []) (Key ''g'' ''t''))"
    by (rule true_invoke_reported [OF example_streaming_observe example_streaming_keeps _ _ _ _ example_quiet _ prod.collapse [symmetric]])
      (simp_all add: example_lock_side_simps example_key)
  then show ?thesis by (simp add: Let_def)
qed

end
