(* ===== verification/Blob_Paths.thy ===== *)
theory Blob_Paths
  imports Durable Quote "HOL-Library.Sublist"
begin

text \<open>
  The blob names of the checkpoint saver, \<^verbatim>\<open>checkpointers/azure_blob.py\<close>: one builder per kind of
  blob, each segment percent-encoded, and the parsers that read names back from a listing.
  \<open>lossy\<close> stands for \<open>unquote\<close> on bytes that are no text of the modelled characters, which only
  foreign blobs have. \<open>blob_name\<close> is the abstract name; \<open>path_of\<close> is injective, and every
  question about prefixes is settled by splitting a path into its segments.
\<close>

section \<open>Builders\<close>

definition py_str :: "py_text \<Rightarrow> pyval \<Rightarrow> string" where
  "py_str txt v = (case v of PStr s \<Rightarrow> s | PInt i \<Rightarrow> int_text i | _ \<Rightarrow> pt_str txt v)"

definition thread_prefix :: "string \<Rightarrow> string" where
  "thread_prefix t = ''threads/'' @ quote t @ ''/''"

definition namespace_prefix :: "string \<Rightarrow> string \<Rightarrow> string" where
  "namespace_prefix t n = thread_prefix t @ ''ns/'' @ quote n @ ''/''"

definition checkpoints_prefix :: "string \<Rightarrow> string \<Rightarrow> string" where
  "checkpoints_prefix t n = namespace_prefix t n @ ''checkpoints/''"

definition checkpoint_base_prefix :: "string \<Rightarrow> string \<Rightarrow> string \<Rightarrow> string" where
  "checkpoint_base_prefix t n i = checkpoints_prefix t n @ quote i @ ''/''"

definition checkpoint_blob_path :: "string \<Rightarrow> string \<Rightarrow> string \<Rightarrow> string" where
  "checkpoint_blob_path t n i = checkpoint_base_prefix t n i @ ''checkpoint.bin''"

definition metadata_blob_path :: "string \<Rightarrow> string \<Rightarrow> string \<Rightarrow> string" where
  "metadata_blob_path t n i = checkpoint_base_prefix t n i @ ''metadata.bin''"

definition writes_prefix :: "string \<Rightarrow> string \<Rightarrow> string \<Rightarrow> string" where
  "writes_prefix t n i = checkpoint_base_prefix t n i @ ''writes/''"

definition write_blob_path :: "string \<Rightarrow> string \<Rightarrow> string \<Rightarrow> string \<Rightarrow> int \<Rightarrow> string" where
  "write_blob_path t n i task idx = writes_prefix t n i @ quote task @ ''/'' @ quote (int_text idx) @ ''.bin''"

definition values_prefix :: "string \<Rightarrow> string \<Rightarrow> string" where
  "values_prefix t n = namespace_prefix t n @ ''values/''"

definition value_blob_path :: "string \<Rightarrow> string \<Rightarrow> string \<Rightarrow> string \<Rightarrow> string" where
  "value_blob_path t n channel version = values_prefix t n @ quote channel @ ''/'' @ quote version @ ''.bin''"

definition latest_blob_path :: "string \<Rightarrow> string \<Rightarrow> string" where
  "latest_blob_path t n = namespace_prefix t n @ ''latest.json''"

section \<open>Parsers\<close>

definition unquote_text :: "(string \<Rightarrow> string) \<Rightarrow> string \<Rightarrow> string" where
  "unquote_text lossy s = (case unquote s of Some t \<Rightarrow> t | None \<Rightarrow> lossy s)"

definition bin_suffix :: string where
  "bin_suffix = ''.bin''"

definition remove_bin :: "string \<Rightarrow> string" where
  "remove_bin s = take (length s - 4) s"

text \<open>\<open>_parse_value_blob_path\<close>: the channel and the version of a value blob.\<close>

definition parse_value_blob_path ::
    "(string \<Rightarrow> string) \<Rightarrow> string \<Rightarrow> string \<Rightarrow> string \<Rightarrow> (string \<times> string) option" where
  "parse_value_blob_path lossy t n path =
     (if \<not> prefix (values_prefix t n) path then None
      else case split_on CHR ''/'' (drop (length (values_prefix t n)) path) of
          [a, b] \<Rightarrow>
            (if suffix bin_suffix b then Some (unquote_text lossy a, unquote_text lossy (remove_bin b)) else None)
        | _ \<Rightarrow> None)"

text \<open>The id of a checkpoint marker in a listing, and the sorted ids, newest first.\<close>

definition listed_checkpoint :: "(string \<Rightarrow> string) \<Rightarrow> string \<Rightarrow> string option" where
  "listed_checkpoint lossy name =
     (if \<not> suffix ''/checkpoint.bin'' name then None
      else
        let parts = split_on CHR ''/'' name
        in if length parts \<noteq> 7 then None else Some (unquote_text lossy (parts ! 5)))"

definition checkpoint_ids_of :: "(string \<Rightarrow> string) \<Rightarrow> string list \<Rightarrow> string list" where
  "checkpoint_ids_of lossy names = rev (sort (remdups (List.map_filter (listed_checkpoint lossy) names)))"

definition listed_thread :: "(string \<Rightarrow> string) \<Rightarrow> string \<Rightarrow> string option" where
  "listed_thread lossy name =
     (let parts = split_on CHR ''/'' name
      in if 2 \<le> length parts \<and> parts ! 0 = ''threads'' then Some (unquote_text lossy (parts ! 1)) else None)"

definition listed_namespace :: "(string \<Rightarrow> string) \<Rightarrow> string \<Rightarrow> string option" where
  "listed_namespace lossy name =
     (let parts = split_on CHR ''/'' name
      in if 4 \<le> length parts \<and> parts ! 2 = ''ns'' then Some (unquote_text lossy (parts ! 3)) else None)"

definition sorted_names :: "(string \<Rightarrow> string option) \<Rightarrow> string list \<Rightarrow> string list" where
  "sorted_names f names = sort (remdups (List.map_filter f names))"

text \<open>
  \<open>int(s)\<close> on a string: surrounding white space, a sign, and digits with single underscores
  between them; anything else is a \<open>ValueError\<close>.
\<close>

definition py_digits :: "string \<Rightarrow> nat option" where
  "py_digits s =
     (let parts = split_on CHR ''_'' s
      in if list_all (\<lambda>p. p \<noteq> [] \<and> list_all is_digit p) parts then Some (digits_value (concat parts)) else None)"

definition py_int :: "string \<Rightarrow> int option" where
  "py_int s =
     (case strip_text s of
        [] \<Rightarrow> None
      | c # r \<Rightarrow>
          (if c = CHR ''-'' then map_option (\<lambda>n. - int n) (py_digits r)
           else if c = CHR ''+'' then map_option int (py_digits r)
           else map_option int (py_digits (c # r))))"

text \<open>The task and the index of a write blob, relative to the prefix it was listed under.\<close>

definition parse_write_name :: "(string \<Rightarrow> string) \<Rightarrow> string \<Rightarrow> string \<Rightarrow> (string \<times> int) option" where
  "parse_write_name lossy pre name =
     (if \<not> prefix pre name then None
      else case split_on CHR ''/'' (drop (length pre) name) of
          [a, b] \<Rightarrow>
            (if \<not> suffix bin_suffix b then None
             else map_option (\<lambda>idx. (unquote_text lossy a, idx)) (py_int (unquote_text lossy (remove_bin b))))
        | _ \<Rightarrow> None)"

section \<open>Abstract names\<close>

datatype blob_name =
    Latest string string
  | Marker string string string
  | Metadata string string string
  | Write string string string string int
  | Value string string string string

fun path_of :: "blob_name \<Rightarrow> string" where
  "path_of (Latest t n) = latest_blob_path t n"
| "path_of (Marker t n i) = checkpoint_blob_path t n i"
| "path_of (Metadata t n i) = metadata_blob_path t n i"
| "path_of (Write t n i task idx) = write_blob_path t n i task idx"
| "path_of (Value t n c v) = value_blob_path t n c v"

lemmas path_defs = latest_blob_path_def checkpoint_blob_path_def metadata_blob_path_def
  write_blob_path_def value_blob_path_def writes_prefix_def values_prefix_def
  checkpoint_base_prefix_def checkpoints_prefix_def namespace_prefix_def thread_prefix_def

text \<open>The segments of a path, computed by the simplifier: an escaped segment has no slash.\<close>

lemma split_quote_append [simp]: "split_on CHR ''/'' (quote s @ CHR ''/'' # r) = quote s # split_on CHR ''/'' r"
  by (rule split_on_append) simp

lemma split_quote [simp]: "split_on CHR ''/'' (quote s) = [quote s]"
  by (rule split_on_none) simp

lemma split_quote_suffix [simp]:
  "CHR ''/'' \<notin> set r \<Longrightarrow> split_on CHR ''/'' (quote s @ r) = [quote s @ r]"
  by (rule split_on_none) simp

lemmas segments = path_defs split_on.simps

fun segs :: "blob_name \<Rightarrow> string list" where
  "segs (Latest t n) = [''threads'', quote t, ''ns'', quote n, ''latest.json'']"
| "segs (Marker t n i) = [''threads'', quote t, ''ns'', quote n, ''checkpoints'', quote i, ''checkpoint.bin'']"
| "segs (Metadata t n i) = [''threads'', quote t, ''ns'', quote n, ''checkpoints'', quote i, ''metadata.bin'']"
| "segs (Write t n i task idx) =
     [''threads'', quote t, ''ns'', quote n, ''checkpoints'', quote i, ''writes'', quote task,
      quote (int_text idx) @ ''.bin'']"
| "segs (Value t n c v) = [''threads'', quote t, ''ns'', quote n, ''values'', quote c, quote v @ ''.bin'']"

lemma split_path: "split_on CHR ''/'' (path_of b) = segs b"
  by (cases b) (simp_all add: path_defs)

lemma int_text_inject [simp]: "int_text i = int_text j \<longleftrightarrow> i = j"
proof
  assume "int_text i = int_text j"
  then have "parse_int (int_text i @ []) = parse_int (int_text j @ [])" by simp
  moreover have "stops []" by (simp add: stops_def)
  ultimately show "i = j" using parse_int_text by (metis option.inject prod.inject)
qed simp

lemma path_of_inject [simp]: "path_of a = path_of b \<longleftrightarrow> a = b"
proof
  assume "path_of a = path_of b"
  then have "segs a = segs b" by (metis split_path)
  then show "a = b" by (cases a; cases b) auto
qed simp

text \<open>Which blobs a prefix lists.\<close>

fun thread_of :: "blob_name \<Rightarrow> string" where
  "thread_of (Latest t n) = t"
| "thread_of (Marker t n i) = t"
| "thread_of (Metadata t n i) = t"
| "thread_of (Write t n i task idx) = t"
| "thread_of (Value t n c v) = t"

fun namespace_of :: "blob_name \<Rightarrow> string" where
  "namespace_of (Latest t n) = n"
| "namespace_of (Marker t n i) = n"
| "namespace_of (Metadata t n i) = n"
| "namespace_of (Write t n i task idx) = n"
| "namespace_of (Value t n c v) = n"

fun checkpoint_of :: "blob_name \<Rightarrow> string option" where
  "checkpoint_of (Marker t n i) = Some i"
| "checkpoint_of (Metadata t n i) = Some i"
| "checkpoint_of (Write t n i task idx) = Some i"
| "checkpoint_of _ = None"

lemma prefix_segs:
  assumes "prefix p (path_of b)" "\<And>r. split_on CHR ''/'' (p @ r) = xs @ split_on CHR ''/'' r"
  shows "take (length xs) (segs b) = xs"
  using assms by (auto simp: prefix_def simp flip: split_path)

lemma prefix_thread [simp]:
  "prefix (thread_prefix t) (path_of b) \<longleftrightarrow> thread_of b = t"
  using prefix_segs [of "thread_prefix t" b "[''threads'', quote t]"]
  by (cases b) (auto simp: path_defs)

lemma prefix_checkpoints [simp]:
  "prefix (checkpoints_prefix t n) (path_of b) \<longleftrightarrow> thread_of b = t \<and> namespace_of b = n \<and> checkpoint_of b \<noteq> None"
  using prefix_segs [of "checkpoints_prefix t n" b "[''threads'', quote t, ''ns'', quote n, ''checkpoints'']"]
  by (cases b) (auto simp: path_defs)

lemma prefix_base [simp]:
  "prefix (checkpoint_base_prefix t n i) (path_of b) \<longleftrightarrow> 
     thread_of b = t \<and> namespace_of b = n \<and> checkpoint_of b = Some i"
  using prefix_segs [of "checkpoint_base_prefix t n i" b "[''threads'', quote t, ''ns'', quote n, ''checkpoints'', quote i]"]
  by (cases b) (auto simp: path_defs)

lemma prefix_values [simp]:
  "prefix (values_prefix t n) (path_of b) \<longleftrightarrow> (\<exists>c v. b = Value t n c v)"
  using prefix_segs [of "values_prefix t n" b "[''threads'', quote t, ''ns'', quote n, ''values'']"]
  by (cases b) (auto simp: path_defs)

lemma prefix_writes [simp]:
  "prefix (writes_prefix t n i) (path_of b) \<longleftrightarrow> (\<exists>task idx. b = Write t n i task idx)"
  using prefix_segs [of "writes_prefix t n i" b "[''threads'', quote t, ''ns'', quote n, ''checkpoints'', quote i, ''writes'']"]
  by (cases b) (auto simp: path_defs)

lemma prefix_ns [simp]:
  "prefix (thread_prefix t @ ''ns/'') (path_of b) \<longleftrightarrow> thread_of b = t"
  using prefix_segs [of "thread_prefix t @ ''ns/''" b "[''threads'', quote t, ''ns'']"]
  by (cases b) (auto simp: path_defs)

section \<open>Names read back\<close>

lemma unquote_text_quote [simp]: "unquote_text lossy (quote s) = s"
  by (simp add: unquote_text_def unquote_quote)

lemma remove_bin_append [simp]: "remove_bin (s @ ''.bin'') = s"
  by (simp add: remove_bin_def)

lemma last_segment:
  assumes "suffix (CHR ''/'' # s) p" "CHR ''/'' \<notin> set s"
  shows "last (split_on CHR ''/'' p) = s"
  using assms by (auto simp: suffix_def split_on_two split_on_none)

lemma marker_suffix: "suffix ''/checkpoint.bin'' (checkpoint_blob_path t n i)"
  using suffixI [of "checkpoint_blob_path t n i" "checkpoints_prefix t n @ quote i" "''/checkpoint.bin''"]
  by (simp add: checkpoint_blob_path_def checkpoint_base_prefix_def)

lemma metadata_suffix: "\<not> suffix ''/checkpoint.bin'' (metadata_blob_path t n i)"
  using last_segment [of "''checkpoint.bin''" "path_of (Metadata t n i)"] split_path [of "Metadata t n i"]
  by auto

text \<open>Below the checkpoints of a namespace only a marker counts as a checkpoint.\<close>

lemma listed_checkpoint_path:
  assumes "checkpoint_of b \<noteq> None"
  shows "listed_checkpoint lossy (path_of b) = (case b of Marker t n i \<Rightarrow> Some i | _ \<Rightarrow> None)"
  using assms split_path [of b] marker_suffix metadata_suffix
  by (cases b) (auto simp: listed_checkpoint_def)

lemma parse_value_path [simp]:
  "parse_value_blob_path lossy t n (value_blob_path t n c v) = Some (c, v)"
  by (simp add: parse_value_blob_path_def value_blob_path_def bin_suffix_def suffix_def)

lemma listed_thread_path [simp]: "listed_thread lossy (path_of b) = Some (thread_of b)"
  by (cases b) (simp_all add: listed_thread_def split_path del: path_of.simps)

lemma listed_namespace_path [simp]: "listed_namespace lossy (path_of b) = Some (namespace_of b)"
  by (cases b) (simp_all add: listed_namespace_def split_path del: path_of.simps)

lemma digits_no_underscore: "list_all is_digit s \<Longrightarrow> CHR ''_'' \<notin> set s"
  by (auto simp: list_all_iff is_digit_def)

lemma py_digits_text [simp]: "py_digits (nat_text k) = Some k"
proof -
  have "list_all is_digit (nat_text k)" by (auto simp: list_all_iff nat_text_digits)
  then show ?thesis
    by (simp add: py_digits_def split_on_none digits_no_underscore digits_value_text)
qed

lemma digit_not_white: "is_digit c \<Longrightarrow> \<not> is_white c"
  by (auto simp: is_digit_def is_white_def)

lemma strip_no_white:
  assumes "\<And>c. c \<in> set s \<Longrightarrow> \<not> is_white c"
  shows "strip_text s = s"
proof -
  have "dropWhile is_white u = u" if "set u \<subseteq> set s" for u
    using that assms by (cases u) auto
  then show ?thesis by (simp add: strip_text_def)
qed

lemma int_text_chars: "c \<in> set (int_text i) \<Longrightarrow> is_digit c \<or> c = CHR ''-''"
  by (auto simp: int_text_def nat_text_digits split: if_splits)

lemma py_int_text [simp]: "py_int (int_text i) = Some i"
proof -
  have "strip_text (int_text i) = int_text i"
    by (rule strip_no_white) (auto dest!: int_text_chars digit_not_white simp: is_white_def)
  moreover have "py_int_part = Some i"
    if "py_int_part = (case nat_text k of [] \<Rightarrow> None | c # r \<Rightarrow>
        (if c = CHR ''-'' then map_option (\<lambda>n. - int n) (py_digits r)
         else if c = CHR ''+'' then map_option int (py_digits r)
         else map_option int (py_digits (c # r))))" "int k = i" for k py_int_part
    using that nat_text_digits [of "hd (nat_text k)" k] py_digits_text [of k]
    by (cases "nat_text k") (auto simp: is_digit_def)
  ultimately show ?thesis
    by (cases "i < 0") (auto simp: py_int_def int_text_def)
qed

lemma parse_write_path [simp]:
  "parse_write_name lossy (writes_prefix t n i) (write_blob_path t n i task idx) = Some (task, idx)"
  by (simp add: parse_write_name_def write_blob_path_def bin_suffix_def suffix_def)

text \<open>From here on paths are written through their abstract names.\<close>

lemma parsed_paths [simp]:
  "parse_value_blob_path lossy t n (path_of (Value t n c v)) = Some (c, v)"
  "parse_write_name lossy (writes_prefix t n i) (path_of (Write t n i task idx)) = Some (task, idx)"
  by simp_all

lemmas path_folds = path_of.simps [symmetric]
declare path_of.simps [simp del]
declare path_folds [simp]

end
