(* ===== verification/Blob_Container.thy ===== *)
theory Blob_Container
  imports Blob_Paths
begin

text \<open>
  A blob container as the checkpoint saver uses it, and how its calls compose. The Azure client
  is a parameter: its five calls either answer or raise. An operation of the saver is a function
  on the world that returns a result or an exception and the new world. \<open>container_laws\<close> is what
  the saver relies on: each call does what it says to the blobs a client sees, or fails with an
  exception of \<open>fails\<close>, when an upload or a deletion may or may not have taken effect. The ideal
  container keeps the blobs in a map together with every state it went through; \<open>sim\<close> relates an
  operation on a real client to the same operation on the ideal one, cut short at any point if
  a call fails. So what is proved of the ideal container holds of every client, crashes included.
\<close>

section \<open>Operations that may raise\<close>

type_synonym ('w, 'a) io = "'w \<Rightarrow> (exn + 'a) \<times> 'w"

definition io_lift :: "exn + 'a \<Rightarrow> ('w, 'a) io" where
  "io_lift r w = (r, w)"

abbreviation io_return :: "'a \<Rightarrow> ('w, 'a) io" where
  "io_return x \<equiv> io_lift (Inr x)"

abbreviation io_raise :: "exn \<Rightarrow> ('w, 'a) io" where
  "io_raise e \<equiv> io_lift (Inl e)"

definition io_bind :: "('w, 'a) io \<Rightarrow> ('a \<Rightarrow> ('w, 'b) io) \<Rightarrow> ('w, 'b) io" where
  "io_bind m f w = (case m w of (Inl e, w1) \<Rightarrow> (Inl e, w1) | (Inr x, w1) \<Rightarrow> f x w1)"

abbreviation io_then :: "('w, unit) io \<Rightarrow> ('w, 'b) io \<Rightarrow> ('w, 'b) io" where
  "io_then m f \<equiv> io_bind m (\<lambda>_. f)"

definition blob_missing :: "exn \<Rightarrow> bool" where
  "blob_missing e \<longleftrightarrow> exn_type e = ''ResourceNotFoundError''"

text \<open>\<open>try: m except ResourceNotFoundError: h\<close>.\<close>

definition io_catch :: "('w, 'a) io \<Rightarrow> ('w, 'a) io \<Rightarrow> ('w, 'a) io" where
  "io_catch m h w =
     (case m w of (Inl e, w1) \<Rightarrow> (if blob_missing e then h w1 else (Inl e, w1)) | (Inr x, w1) \<Rightarrow> (Inr x, w1))"

fun io_each :: "('b \<Rightarrow> ('w, unit) io) \<Rightarrow> 'b list \<Rightarrow> ('w, unit) io" where
  "io_each f [] = io_return ()"
| "io_each f (x # xs) = io_then (f x) (io_each f xs)"

text \<open>A loop that collects what its body yields, when it yields something.\<close>

fun io_collect :: "('b \<Rightarrow> ('w, 'a option) io) \<Rightarrow> 'b list \<Rightarrow> ('w, 'a list) io" where
  "io_collect f [] = io_return []"
| "io_collect f (x # xs) =
     io_bind (f x) (\<lambda>y. io_bind (io_collect f xs)
       (\<lambda>ys. io_return (case y of None \<Rightarrow> ys | Some z \<Rightarrow> z # ys)))"

section \<open>The client\<close>

record blob_item =
  bi_name :: string
  bi_modified :: "int option"

record 'w container =
  ct_upload :: "string \<Rightarrow> string \<Rightarrow> string dict \<Rightarrow> ('w, unit) io"
  ct_download :: "string \<Rightarrow> ('w, string) io"
  ct_properties :: "string \<Rightarrow> ('w, string dict option) io"
  ct_delete :: "string \<Rightarrow> ('w, unit) io"
  ct_list :: "string \<Rightarrow> ('w, blob_item list) io"

text \<open>The helpers around single calls.\<close>

definition download_blob :: "'w container \<Rightarrow> string \<Rightarrow> ('w, string option) io" where
  "download_blob c path = io_catch (io_bind (ct_download c path) (\<lambda>x. io_return (Some x))) (io_return None)"

definition blob_metadata :: "'w container \<Rightarrow> string \<Rightarrow> ('w, string dict) io" where
  "blob_metadata c path =
     io_catch (io_bind (ct_properties c path) (\<lambda>m. io_return (case m of None \<Rightarrow> [] | Some d \<Rightarrow> d)))
       (io_return [])"

definition blob_exists :: "'w container \<Rightarrow> string \<Rightarrow> ('w, bool) io" where
  "blob_exists c path = io_catch (io_bind (ct_properties c path) (\<lambda>_. io_return True)) (io_return False)"

definition upload_blob :: "'w container \<Rightarrow> string \<Rightarrow> string \<Rightarrow> string dict \<Rightarrow> ('w, unit) io" where
  "upload_blob c path payload metadata = ct_upload c path payload metadata"

definition list_names :: "'w container \<Rightarrow> string \<Rightarrow> ('w, string list) io" where
  "list_names c pre = io_bind (ct_list c pre) (\<lambda>items. io_return (map bi_name items))"

definition download_typed_blob ::
    "'w container \<Rightarrow> string \<Rightarrow> ('w, (string \<times> string \<times> string dict) option) io" where
  "download_typed_blob c path =
     io_bind (download_blob c path) (\<lambda>payload.
       case payload of
         None \<Rightarrow> io_return None
       | Some data \<Rightarrow>
           io_bind (blob_metadata c path) (\<lambda>metadata.
             io_return (case map_of metadata ''serde_type'' of
                 None \<Rightarrow> None
               | Some ty \<Rightarrow> (if ty = [] then None else Some (ty, data, metadata)))))"

section \<open>What the client promises\<close>

type_synonym bstore = "string \<Rightarrow> (string \<times> string dict) option"

definition listing :: "bstore \<Rightarrow> string \<Rightarrow> string list" where
  "listing S pre = sorted_list_of_set {p \<in> dom S. prefix pre p}"

definition call_ok ::
    "('w \<Rightarrow> bstore) \<Rightarrow> ('w \<Rightarrow> bool) \<Rightarrow> (exn \<Rightarrow> bool) \<Rightarrow> ('w, 'a) io \<Rightarrow>
     (bstore \<Rightarrow> 'a option) \<Rightarrow> (bstore \<Rightarrow> bstore) \<Rightarrow> bool" where
  "call_ok view good fails m answer effect \<longleftrightarrow>
     (\<forall>w. good w \<longrightarrow> (case m w of
        (Inr x, w1) \<Rightarrow> good w1 \<and> view w1 = effect (view w) \<and> answer (view w) = Some x
      | (Inl e, w1) \<Rightarrow> good w1 \<and>
          (blob_missing e \<and> view w1 = view w \<and> answer (view w) = None \<or>
           \<not> blob_missing e \<and> fails e \<and> view w1 \<in> {view w, effect (view w)})))"

definition container_laws ::
    "'w container \<Rightarrow> ('w \<Rightarrow> bstore) \<Rightarrow> ('w \<Rightarrow> bool) \<Rightarrow> (exn \<Rightarrow> bool) \<Rightarrow> bool" where
  "container_laws c view good fails \<longleftrightarrow>
     (\<forall>w. good w \<longrightarrow> finite (dom (view w))) \<and>
     (\<forall>p x m. call_ok view good fails (ct_upload c p x m) (\<lambda>_. Some ()) (\<lambda>S. S(p \<mapsto> (x, m)))) \<and>
     (\<forall>p. call_ok view good fails (ct_download c p) (\<lambda>S. map_option fst (S p)) id) \<and>
     (\<forall>p. call_ok view good fails
        (io_bind (ct_properties c p) (\<lambda>m. io_return (case m of None \<Rightarrow> [] | Some d \<Rightarrow> d)))
        (\<lambda>S. map_option snd (S p)) id) \<and>
     (\<forall>p. call_ok view good fails (ct_delete c p)
        (\<lambda>S. if S p = None then None else Some ()) (\<lambda>S. S(p := None))) \<and>
     (\<forall>p. call_ok view good fails (list_names c p) (\<lambda>S. Some (listing S p)) id)"

section \<open>The ideal container\<close>

type_synonym bworld = "bstore \<times> bstore list"

definition missing_exn :: exn where
  "missing_exn = Exn ''ResourceNotFoundError'' []"

definition set_blob :: "string \<Rightarrow> (string \<times> string dict) option \<Rightarrow> bworld \<Rightarrow> bworld" where
  "set_blob p b w = ((fst w)(p := b), snd w @ [(fst w)(p := b)])"

definition ideal :: "bworld container" where
  "ideal =
     \<lparr>ct_upload = (\<lambda>p x m w. (Inr (), set_blob p (Some (x, m)) w)),
      ct_download = (\<lambda>p w. (case fst w p of None \<Rightarrow> Inl missing_exn | Some b \<Rightarrow> Inr (fst b), w)),
      ct_properties = (\<lambda>p w. (case fst w p of None \<Rightarrow> Inl missing_exn | Some b \<Rightarrow> Inr (Some (snd b)), w)),
      ct_delete = (\<lambda>p w. (case fst w p of None \<Rightarrow> (Inl missing_exn, w) | Some _ \<Rightarrow> (Inr (), set_blob p None w))),
      ct_list = (\<lambda>p w. (Inr (map (\<lambda>q. \<lparr>bi_name = q, bi_modified = None\<rparr>) (listing (fst w) p)), w))\<rparr>"

section \<open>Simulation\<close>

definition growing :: "(bworld, 'a) io \<Rightarrow> bool" where
  "growing m \<longleftrightarrow> (\<forall>S h. \<exists>r S1 d. m (S, h) = (r, S1, h @ d) \<and> S1 = last (S # d))"

definition same_result :: "exn + 'a \<Rightarrow> exn + 'a \<Rightarrow> bool" where
  "same_result r r' \<longleftrightarrow> r = r' \<or> (\<exists>e e'. r = Inl e \<and> r' = Inl e' \<and> blob_missing e \<and> blob_missing e')"

definition sim ::
    "('w \<Rightarrow> bstore) \<Rightarrow> ('w \<Rightarrow> bool) \<Rightarrow> (exn \<Rightarrow> bool) \<Rightarrow> ('w, 'a) io \<Rightarrow> (bworld, 'a) io \<Rightarrow> bool" where
  "sim view good fails m m' \<longleftrightarrow>
     growing m' \<and>
     (\<forall>w h r w1 r' S' d. good w \<longrightarrow> m w = (r, w1) \<longrightarrow> m' (view w, h) = (r', S', h @ d) \<longrightarrow>
        good w1 \<and>
        (same_result r r' \<and> view w1 = S' \<or>
         (\<exists>e. r = Inl e \<and> fails e \<and> \<not> blob_missing e) \<and> view w1 \<in> set (view w # d)))"

named_theorems sim_rules "rules that relate an operation to itself on the ideal container"

lemma growsI:
  assumes "\<And>S h. \<exists>r d. m (S, h) = (r, last (S # d), h @ d)"
  shows "growing m"
  using assms unfolding growing_def by blast

lemma growsE:
  assumes "growing m"
  obtains r d where "m (S, h) = (r, last (S # d), h @ d)"
  using assms unfolding growing_def by blast

lemma grows_lift [simp]: "growing (io_lift r)"
  by (rule growsI) (auto simp: io_lift_def intro: exI [of _ "[]"])

lemma last_append_Cons: "last (last (S # d) # e) = last (S # d @ e)"
  by (cases e) auto

lemma grows_bind:
  assumes "growing m" "\<And>x. growing (f x)"
  shows "growing (io_bind m f)"
proof (rule growsI)
  fix S :: bstore and h :: "bstore list"
  obtain r d where m: "m (S, h) = (r, last (S # d), h @ d)" by (rule growsE [OF assms(1)])
  show "\<exists>r d. io_bind m f (S, h) = (r, last (S # d), h @ d)"
  proof (cases r)
    case (Inl e)
    with m show ?thesis by (auto simp: io_bind_def)
  next
    case (Inr x)
    obtain r' d' where "f x (last (S # d), h @ d) = (r', last (last (S # d) # d'), (h @ d) @ d')"
      by (rule growsE [OF assms(2)])
    with m Inr show ?thesis
      by (auto simp: io_bind_def last_append_Cons simp del: last.simps intro: exI [of _ "d @ d'"])
  qed
qed

lemma grows_catch:
  assumes "growing m" "growing g"
  shows "growing (io_catch m g)"
proof (rule growsI)
  fix S :: bstore and h :: "bstore list"
  obtain r d where m: "m (S, h) = (r, last (S # d), h @ d)" by (rule growsE [OF assms(1)])
  obtain r' d' where g: "g (last (S # d), h @ d) = (r', last (last (S # d) # d'), (h @ d) @ d')"
    by (rule growsE [OF assms(2)])
  show "\<exists>r d. io_catch m g (S, h) = (r, last (S # d), h @ d)"
    using m g by (cases r) (auto simp: io_catch_def last_append_Cons simp del: last.simps)
qed

text \<open>The two ways a run on a real client relates to the ideal run.\<close>

lemma simI:
  assumes "growing m'"
    and "\<And>w h r w1 r' d. good w \<Longrightarrow> m w = (r, w1) \<Longrightarrow> m' (view w, h) = (r', last (view w # d), h @ d) \<Longrightarrow>
      good w1 \<and> (same_result r r' \<and> view w1 = last (view w # d) \<or>
        (\<exists>e. r = Inl e \<and> fails e \<and> \<not> blob_missing e) \<and> view w1 \<in> set (view w # d))"
  shows "sim view good fails m m'"
  unfolding sim_def
proof (intro conjI allI impI assms(1), goal_cases)
  case (1 w h r w1 r' S' d)
  obtain r2 d2 where "m' (view w, h) = (r2, last (view w # d2), h @ d2)" by (rule growsE [OF assms(1)])
  with 1 assms(2) show ?case by auto
next
  case (2 w h r w1 r' S' d)
  obtain r2 d2 where "m' (view w, h) = (r2, last (view w # d2), h @ d2)" by (rule growsE [OF assms(1)])
  with 2 assms(2) [OF 2(1,2)] show ?case by auto
qed

lemma sim_cases:
  assumes "sim view good fails m m'" "good w" "m w = (r, w1)"
  obtains (same) r' d where "m' (view w, h) = (r', last (view w # d), h @ d)" "good w1" "same_result r r'"
      "view w1 = last (view w # d)"
    | (failed) e r' d where "m' (view w, h) = (r', last (view w # d), h @ d)" "good w1" "r = Inl e" "fails e"
      "\<not> blob_missing e" "view w1 \<in> set (view w # d)"
proof -
  have g: "growing m'" using assms(1) by (simp add: sim_def)
  obtain r' d where m': "m' (view w, h) = (r', last (view w # d), h @ d)" by (rule growsE [OF g])
  with assms have "good w1 \<and> (same_result r r' \<and> view w1 = last (view w # d) \<or>
      (\<exists>e. r = Inl e \<and> fails e \<and> \<not> blob_missing e) \<and> view w1 \<in> set (view w # d))"
    unfolding sim_def by blast
  then show thesis using same [OF m'] failed [OF m'] by blast
qed

lemma same_result_simps [simp]:
  "same_result (Inr x) r \<longleftrightarrow> r = Inr x" "same_result r (Inr x) \<longleftrightarrow> r = Inr x" "same_result r r"
  "same_result (Inl e) (Inl e') \<longleftrightarrow> e = e' \<or> blob_missing e \<and> blob_missing e'"
  by (auto simp: same_result_def)

lemma sim_lift [sim_rules]: "sim view good fails (io_lift r) (io_lift r)"
  by (rule simI) (auto simp: io_lift_def split: if_splits)

lemma sim_grows: "sim view good fails m m' \<Longrightarrow> growing m'"
  by (simp add: sim_def)

lemma last_in_set: "last (S # d) \<in> set (S # d)"
  by (rule last_in_set) simp

lemma sim_bind [sim_rules]:
  assumes "sim view good fails m m'" "\<And>x. sim view good fails (f x) (f' x)"
  shows "sim view good fails (io_bind m f) (io_bind m' f')"
proof (rule simI)
  show g: "growing (io_bind m' f')" by (intro grows_bind sim_grows [OF assms(1)] sim_grows [OF assms(2)])
  fix w h r w2 r' d
  assume w: "good w" and run: "io_bind m f w = (r, w2)"
    and run': "io_bind m' f' (view w, h) = (r', last (view w # d), h @ d)"
  obtain r1 w1 where m: "m w = (r1, w1)" by fastforce
  from assms(1) w m show "good w2 \<and> (same_result r r' \<and> view w2 = last (view w # d) \<or>
      (\<exists>e. r = Inl e \<and> fails e \<and> \<not> blob_missing e) \<and> view w2 \<in> set (view w # d))"
  proof (cases rule: sim_cases [where h = h])
    case (same r1' d1)
    show ?thesis
    proof (cases r1)
      case (Inl e)
      with same m run run' show ?thesis by (auto simp: io_bind_def same_result_def)
    next
      case (Inr x)
      then have r1': "r1' = Inr x" using same by simp
      from assms(2) same(2) run m Inr have fx: "f x w1 = (r, w2)" by (simp add: io_bind_def)
      from assms(2) same(2) fx show ?thesis
      proof (cases rule: sim_cases [where h = "h @ d1"])
        case (same r2 d2)
        with \<open>m' _ = _\<close> r1' run' \<open>view w1 = _\<close> show ?thesis
          by (auto simp: io_bind_def last_append_Cons simp del: last.simps)
      next
        case (failed e r2 d2)
        have "view w1 \<in> set (view w # d1)" unfolding \<open>view w1 = _\<close> by (rule last_in_set)
        with failed \<open>m' _ = _\<close> r1' run' \<open>view w1 = _\<close> show ?thesis
          by (auto simp: io_bind_def simp del: last.simps)
      qed
    qed
  next
    case (failed e r1' d1)
    obtain r2 d2 where "io_bind m' f' (view w, h) = (r2, last (view w # d1 @ d2), h @ d1 @ d2)"
    proof (cases r1')
      case (Inl e')
      with failed that [of _ "[]"] show thesis by (simp add: io_bind_def)
    next
      case (Inr x)
      obtain r2 d2 where "f' x (last (view w # d1), h @ d1) = (r2, last (last (view w # d1) # d2), (h @ d1) @ d2)"
        by (rule growsE [OF sim_grows [OF assms(2)]])
      with failed Inr that [of r2 d2] show thesis
        by (simp add: io_bind_def last_append_Cons del: last.simps)
    qed
    with failed m run run' show ?thesis by (auto simp: io_bind_def simp del: last.simps)
  qed
qed

lemma sim_catch [sim_rules]:
  assumes "sim view good fails m m'" "sim view good fails g g'"
  shows "sim view good fails (io_catch m g) (io_catch m' g')"
proof (rule simI)
  show gr: "growing (io_catch m' g')" by (intro grows_catch sim_grows [OF assms(1)] sim_grows [OF assms(2)])
  fix w h r w2 r' d
  assume w: "good w" and run: "io_catch m g w = (r, w2)"
    and run': "io_catch m' g' (view w, h) = (r', last (view w # d), h @ d)"
  obtain r1 w1 where m: "m w = (r1, w1)" by fastforce
  from assms(1) w m show "good w2 \<and> (same_result r r' \<and> view w2 = last (view w # d) \<or>
      (\<exists>e. r = Inl e \<and> fails e \<and> \<not> blob_missing e) \<and> view w2 \<in> set (view w # d))"
  proof (cases rule: sim_cases [where h = h])
    case (same r1' d1)
    show ?thesis
    proof (cases "\<exists>e. r1 = Inl e \<and> blob_missing e")
      case True
      then obtain e' where r1': "r1' = Inl e'" "blob_missing e'" using same by (auto simp: same_result_def)
      from True run m have gx: "g w1 = (r, w2)" by (auto simp: io_catch_def)
      from assms(2) same(2) gx show ?thesis
      proof (cases rule: sim_cases [where h = "h @ d1"])
        case (same r2 d2)
        with \<open>m' _ = _\<close> r1' run' \<open>view w1 = _\<close> show ?thesis
          by (auto simp: io_catch_def last_append_Cons simp del: last.simps)
      next
        case (failed e r2 d2)
        have "view w1 \<in> set (view w # d1)" unfolding \<open>view w1 = _\<close> by (rule last_in_set)
        with failed \<open>m' _ = _\<close> r1' run' \<open>view w1 = _\<close> show ?thesis
          by (auto simp: io_catch_def simp del: last.simps)
      qed
    next
      case False
      then have "r1' = r1" using same by (auto simp: same_result_def)
      with False same m run run' show ?thesis
        by (cases r1) (auto simp: io_catch_def)
    qed
  next
    case (failed e r1' d1)
    obtain r2 d2 where "io_catch m' g' (view w, h) = (r2, last (view w # d1 @ d2), h @ d1 @ d2)"
    proof (cases "\<exists>e. r1' = Inl e \<and> blob_missing e")
      case True
      obtain r2 d2 where "g' (last (view w # d1), h @ d1) = (r2, last (last (view w # d1) # d2), (h @ d1) @ d2)"
        by (rule growsE [OF sim_grows [OF assms(2)]])
      with failed True that [of r2 d2] show thesis
        by (auto simp: io_catch_def last_append_Cons simp del: last.simps)
    next
      case False
      with failed that [of r1' "[]"] show thesis by (cases r1') (auto simp: io_catch_def)
    qed
    with failed m run run' show ?thesis by (auto simp: io_catch_def simp del: last.simps)
  qed
qed

lemma sim_each [sim_rules]:
  assumes "\<And>x. sim view good fails (f x) (f' x)"
  shows "sim view good fails (io_each f xs) (io_each f' xs)"
  by (induction xs) (auto intro!: sim_lift sim_bind assms)

lemma sim_collect [sim_rules]:
  assumes "\<And>x. sim view good fails (f x) (f' x)"
  shows "sim view good fails (io_collect f xs) (io_collect f' xs)"
  by (induction xs) (auto intro!: sim_lift sim_bind assms)

lemma sim_if [sim_rules]:
  assumes "b \<Longrightarrow> sim view good fails f f'" "\<not> b \<Longrightarrow> sim view good fails g g'"
  shows "sim view good fails (if b then f else g) (if b then f' else g')"
  using assms by simp

lemma sim_option [sim_rules]:
  assumes "x = None \<Longrightarrow> sim view good fails f f'" "\<And>y. x = Some y \<Longrightarrow> sim view good fails (g y) (g' y)"
  shows "sim view good fails (case x of None \<Rightarrow> f | Some y \<Rightarrow> g y) (case x of None \<Rightarrow> f' | Some y \<Rightarrow> g' y)"
  using assms by (cases x) auto

lemma sim_prod [sim_rules]:
  assumes "\<And>a b. x = (a, b) \<Longrightarrow> sim view good fails (f a b) (f' a b)"
  shows "sim view good fails (case x of (a, b) \<Rightarrow> f a b) (case x of (a, b) \<Rightarrow> f' a b)"
  using assms by (cases x) auto

section \<open>The calls of a client against those of the ideal container\<close>

lemma ideal_grows:
  "growing (ct_upload ideal p x m)" "growing (ct_download ideal p)" "growing (ct_properties ideal p)"
  "growing (ct_delete ideal p)" "growing (ct_list ideal p)"
proof -
  have one: "\<exists>r d. (u, T, h @ [T]) = (r, last (S # d), h @ d)" for u :: "exn + unit" and S T and h :: "bstore list"
    by (rule exI [of _ u], rule exI [of _ "[T]"]) simp
  have none: "\<exists>r d. (u, S, h) = (r, last (S # d), h @ d)" for u :: "exn + 'a" and S and h :: "bstore list"
    by (rule exI [of _ u], rule exI [of _ "[]"]) simp
  show "growing (ct_upload ideal p x m)"
    by (rule growsI) (simp only: ideal_def container.simps set_blob_def fst_conv snd_conv one)
  show "growing (ct_delete ideal p)"
  proof (rule growsI)
    fix S h
    show "\<exists>r d. ct_delete ideal p (S, h) = (r, last (S # d), h @ d)"
      using one [of _ "S(p := None)" h S] none [of _ S h]
      by (cases "S p") (auto simp: ideal_def set_blob_def simp del: last.simps)
  qed
  show "growing (ct_download ideal p)" "growing (ct_properties ideal p)" "growing (ct_list ideal p)"
    by (rule growsI, auto simp: ideal_def intro: exI [of _ "[]"])+
qed

lemma sim_call:
  assumes "call_ok view good fails m answer effect" "growing m'"
    and "\<And>S h. m' (S, h) = (case answer S of None \<Rightarrow> (Inl missing_exn, S, h)
        | Some x \<Rightarrow> (Inr x, effect S, if upd then h @ [effect S] else h))"
    and "\<not> upd \<Longrightarrow> effect = id" "\<And>S. answer S = None \<Longrightarrow> effect S = S"
  shows "sim view good fails m m'"
proof (rule simI [OF assms(2)])
  fix w h r w1 r' d
  assume w: "good w" and m: "m w = (r, w1)" and m': "m' (view w, h) = (r', last (view w # d), h @ d)"
  have nf: "blob_missing missing_exn" by (simp add: blob_missing_def missing_exn_def)
  have "case r of Inr x \<Rightarrow> good w1 \<and> view w1 = effect (view w) \<and> answer (view w) = Some x
      | Inl e \<Rightarrow> good w1 \<and> (blob_missing e \<and> view w1 = view w \<and> answer (view w) = None \<or>
           \<not> blob_missing e \<and> fails e \<and> view w1 \<in> {view w, effect (view w)})"
    using assms(1) w m unfolding call_ok_def by (cases r) (fastforce, fastforce)
  moreover have "d = (if answer (view w) \<noteq> None \<and> upd then [effect (view w)] else [])"
    using m' assms(3) [of "view w" h] by (auto split: option.splits if_splits)
  ultimately show "good w1 \<and> (same_result r r' \<and> view w1 = last (view w # d) \<or>
      (\<exists>e. r = Inl e \<and> fails e \<and> \<not> blob_missing e) \<and> view w1 \<in> set (view w # d))"
    using m' assms(3) [of "view w" h] assms(4,5) nf
    by (cases r; cases "answer (view w)"; cases upd) (auto simp: same_result_def)
qed

lemma container_calls:
  assumes "container_laws c view good fails"
  shows "call_ok view good fails (ct_upload c p x m) (\<lambda>_. Some ()) (\<lambda>S. S(p \<mapsto> (x, m)))"
    "call_ok view good fails (ct_download c p) (\<lambda>S. map_option fst (S p)) id"
    "call_ok view good fails (ct_delete c p) (\<lambda>S. if S p = None then None else Some ()) (\<lambda>S. S(p := None))"
    "call_ok view good fails (list_names c q) (\<lambda>S. Some (listing S q)) id"
    "call_ok view good fails
        (io_bind (ct_properties c p) (\<lambda>m. io_return (case m of None \<Rightarrow> [] | Some d \<Rightarrow> d)))
        (\<lambda>S. map_option snd (S p)) id"
  using assms by (simp_all add: container_laws_def)

lemma sim_upload [sim_rules]:
  "container_laws c view good fails \<Longrightarrow> sim view good fails (upload_blob c p x m) (upload_blob ideal p x m)"
  unfolding upload_blob_def
  by (rule sim_call [OF container_calls(1) ideal_grows(1), where upd = True])
    (auto simp: ideal_def set_blob_def)

lemma sim_delete [sim_rules]:
  "container_laws c view good fails \<Longrightarrow> sim view good fails (ct_delete c p) (ct_delete ideal p)"
  by (rule sim_call [OF container_calls(3) ideal_grows(4), where upd = True])
    (auto simp: ideal_def set_blob_def fun_upd_idem split: option.splits if_splits)

lemma sim_download [sim_rules]:
  "container_laws c view good fails \<Longrightarrow> sim view good fails (ct_download c p) (ct_download ideal p)"
  by (rule sim_call [OF container_calls(2) ideal_grows(2), where upd = False])
    (auto simp: ideal_def split: option.splits)

lemma sim_list [sim_rules]:
  "container_laws c view good fails \<Longrightarrow> sim view good fails (list_names c p) (list_names ideal p)"
  by (rule sim_call [OF container_calls(4), where upd = False])
    (auto simp: ideal_def list_names_def io_bind_def io_lift_def comp_def
      intro!: grows_bind ideal_grows(5) [unfolded ideal_def, simplified] growsI exI [of _ "[]"])

text \<open>\<open>get_blob_properties\<close> as the saver reads it: no metadata is the empty metadata.\<close>

definition properties_of :: "'w container \<Rightarrow> string \<Rightarrow> ('w, string dict) io" where
  "properties_of c p = io_bind (ct_properties c p) (\<lambda>m. io_return (case m of None \<Rightarrow> [] | Some d \<Rightarrow> d))"

lemma grows_properties: "growing (properties_of ideal p)"
  unfolding properties_of_def by (intro grows_bind ideal_grows grows_lift)

lemma sim_properties [sim_rules]:
  "container_laws c view good fails \<Longrightarrow> sim view good fails (properties_of c p) (properties_of ideal p)"
  unfolding properties_of_def
  by (rule sim_call [OF container_calls(5) grows_properties [unfolded properties_of_def], where upd = False])
    (auto simp: ideal_def io_bind_def io_lift_def split: option.splits)

lemma blob_metadata_properties: "blob_metadata c p = io_catch (properties_of c p) (io_return [])"
  by (simp add: blob_metadata_def properties_of_def)

lemma blob_exists_properties:
  "blob_exists c p = io_catch (io_bind (properties_of c p) (\<lambda>_. io_return True)) (io_return False)"
  by (rule ext) (simp add: blob_exists_def properties_of_def io_bind_def io_lift_def io_catch_def
      split: prod.split sum.split)

lemma sim_helpers [sim_rules]:
  assumes "container_laws c view good fails"
  shows "sim view good fails (download_blob c p) (download_blob ideal p)"
    "sim view good fails (blob_metadata c p) (blob_metadata ideal p)"
    "sim view good fails (blob_exists c p) (blob_exists ideal p)"
    "sim view good fails (download_typed_blob c p) (download_typed_blob ideal p)"
proof -
  show d: "sim view good fails (download_blob c p) (download_blob ideal p)"
    unfolding download_blob_def by (intro sim_rules assms)
  show m: "sim view good fails (blob_metadata c p) (blob_metadata ideal p)"
    unfolding blob_metadata_properties by (intro sim_rules assms)
  show "sim view good fails (blob_exists c p) (blob_exists ideal p)"
    unfolding blob_exists_properties by (intro sim_rules assms)
  show "sim view good fails (download_typed_blob c p) (download_typed_blob ideal p)"
    unfolding download_typed_blob_def by (intro sim_rules d m)
qed

section \<open>From the ideal container to any client\<close>

text \<open>
  Reading on the ideal container is a function of the blobs; \<open>reads m f\<close> says so of \<open>m\<close>.
\<close>

definition reads :: "(bworld, 'a) io \<Rightarrow> (bstore \<Rightarrow> exn + 'a) \<Rightarrow> bool" where
  "reads m f \<longleftrightarrow> (\<forall>S h. m (S, h) = (f S, S, h))"

lemma sim_reads:
  assumes "sim view good fails m m'" "reads m' f" "good w" "m w = (r, w1)"
  shows "good w1 \<and> view w1 = view w \<and> (same_result r (f (view w)) \<or> (\<exists>e. r = Inl e \<and> fails e))"
  using assms(1,3,4)
proof (cases rule: sim_cases [where h = "[]"])
  case (same r' d)
  with assms(2) show ?thesis by (auto simp: reads_def)
next
  case (failed e r' d)
  with assms(2) show ?thesis by (auto simp: reads_def)
qed

text \<open>A property of the blobs that every state of the ideal run has holds after the real run.\<close>

lemma sim_invariant:
  assumes "sim view good fails m m'" "good w" "m w = (r, w1)" "I (view w)"
    and "\<And>r' d. m' (view w, []) = (r', last (view w # d), d) \<Longrightarrow> \<forall>S\<in>set d. I S"
  shows "good w1 \<and> I (view w1)"
  using assms(1-3)
proof (cases rule: sim_cases [where h = "[]"])
  case (same r' d)
  then have "\<forall>S\<in>set d. I S" using assms(5) by simp
  with same assms(4) show ?thesis using last_in_set [of "view w" d] by auto
next
  case (failed e r' d)
  then have "\<forall>S\<in>set d. I S" using assms(5) by simp
  with failed assms(4) show ?thesis by auto
qed

lemma sim_success:
  assumes "sim view good fails m m'" "good w" "m w = (Inr x, w1)"
  obtains d where "m' (view w, []) = (Inr x, view w1, d)" "good w1"
  using assms
proof (cases rule: sim_cases [where h = "[]"])
  case (same r' d)
  with that show thesis by simp
qed simp

text \<open>A client whose calls never fail on their own returns what the ideal one returns.\<close>

lemma sim_calm:
  assumes "sim view good (\<lambda>_. False) m m'" "good w" "m w = (r, w1)"
  obtains r' d where "m' (view w, []) = (r', view w1, d)" "good w1" "same_result r r'"
  using assms
proof (cases rule: sim_cases [where h = "[]"])
  case (same r' d)
  with that show thesis by simp
qed simp

section \<open>Reading\<close>

lemma reads_lift: "reads (io_lift r) (\<lambda>_. r)"
  by (simp add: reads_def io_lift_def)

lemma reads_bind:
  assumes "reads m f" "\<And>x. reads (g x) (h x)"
  shows "reads (io_bind m g) (\<lambda>S. bind_res (f S) (\<lambda>x. h x S))"
  using assms by (simp add: reads_def io_bind_def bind_res_def split: sum.split)

definition blob_text :: "bstore \<Rightarrow> string \<Rightarrow> string option" where
  "blob_text S p = map_option fst (S p)"

definition typed_blob :: "bstore \<Rightarrow> string \<Rightarrow> (string \<times> string \<times> string dict) option" where
  "typed_blob S p =
     (case S p of None \<Rightarrow> None
      | Some (x, m) \<Rightarrow>
          (case map_of m ''serde_type'' of None \<Rightarrow> None
           | Some ty \<Rightarrow> if ty = [] then None else Some (ty, x, m)))"

lemma missing_not_found [simp]: "blob_missing missing_exn"
  by (simp add: blob_missing_def missing_exn_def)

lemma reads_calls:
  "reads (download_blob ideal p) (\<lambda>S. Inr (blob_text S p))"
  "reads (blob_exists ideal p) (\<lambda>S. Inr (S p \<noteq> None))"
  "reads (list_names ideal p) (\<lambda>S. Inr (listing S p))"
  "reads (download_typed_blob ideal p) (\<lambda>S. Inr (typed_blob S p))"
  by (auto simp: reads_def download_blob_def blob_exists_def list_names_def download_typed_blob_def
      blob_metadata_def blob_text_def typed_blob_def ideal_def io_bind_def io_lift_def io_catch_def comp_def
      split: option.split)

section \<open>Crash conditions\<close>

text \<open>
  \<open>triple I P m Q\<close>: started with blobs that satisfy \<open>P\<close>, every state the ideal run goes through
  satisfies \<open>I\<close>, and if it returns \<open>x\<close> then the blobs satisfy \<open>Q x\<close>.
\<close>

definition triple ::
    "(bstore \<Rightarrow> bool) \<Rightarrow> (bstore \<Rightarrow> bool) \<Rightarrow> (bworld, 'a) io \<Rightarrow> ('a \<Rightarrow> bstore \<Rightarrow> bool) \<Rightarrow> bool" where
  "triple I P m Q \<longleftrightarrow>
     (\<forall>S h r S' h'. P S \<longrightarrow> m (S, h) = (r, S', h') \<longrightarrow>
        (\<exists>d. h' = h @ d \<and> (\<forall>T\<in>set d. I T)) \<and> (\<forall>x. r = Inr x \<longrightarrow> Q x S'))"

lemma tripleE:
  assumes "triple I P m Q" "P S" "m (S, h) = (r, S', h')"
  obtains d where "h' = h @ d" "\<forall>T\<in>set d. I T" "\<And>x. r = Inr x \<Longrightarrow> Q x S'"
  using assms unfolding triple_def by meson

named_theorems triple_rules "crash conditions of operations"

lemma triple_lift [triple_rules]: "(\<And>S x. P S \<Longrightarrow> r = Inr x \<Longrightarrow> Q x S) \<Longrightarrow> triple I P (io_lift r) Q"
  by (auto simp: triple_def io_lift_def)

lemma triple_bind [triple_rules]:
  assumes "triple I P m R" "\<And>x. triple I (R x) (f x) Q"
  shows "triple I P (io_bind m f) Q"
  unfolding triple_def
proof (intro allI impI)
  fix S h r S' h'
  assume P: "P S" and run: "io_bind m f (S, h) = (r, S', h')"
  obtain r1 S1 h1 where m: "m (S, h) = (r1, S1, h1)" by (metis prod_cases3)
  obtain d where d: "h1 = h @ d" "\<forall>T\<in>set d. I T" "\<And>x. r1 = Inr x \<Longrightarrow> R x S1"
    using tripleE [OF assms(1) P m] by metis
  show "(\<exists>d. h' = h @ d \<and> (\<forall>T\<in>set d. I T)) \<and> (\<forall>x. r = Inr x \<longrightarrow> Q x S')"
  proof (cases r1)
    case (Inl e)
    with m run d show ?thesis by (auto simp: io_bind_def)
  next
    case (Inr x)
    with m run have "f x (S1, h1) = (r, S', h')" by (simp add: io_bind_def)
    then obtain d' where "h' = h1 @ d'" "\<forall>T\<in>set d'. I T" "\<And>y. r = Inr y \<Longrightarrow> Q y S'"
      using tripleE [OF assms(2) d(3) [OF Inr]] by metis
    with d show ?thesis by (auto intro: exI [of _ "d @ d'"])
  qed
qed

lemma triple_catch [triple_rules]:
  assumes "triple I P m Q" "\<And>S h r S' h'. P S \<Longrightarrow> m (S, h) = (r, S', h') \<Longrightarrow> isl r \<Longrightarrow> S' = S"
    "triple I P g Q"
  shows "triple I P (io_catch m g) Q"
  unfolding triple_def
proof (intro allI impI)
  fix S h r S' h'
  assume P: "P S" and run: "io_catch m g (S, h) = (r, S', h')"
  obtain r1 S1 h1 where m: "m (S, h) = (r1, S1, h1)" by (metis prod_cases3)
  obtain d where d: "h1 = h @ d" "\<forall>T\<in>set d. I T" "\<And>x. r1 = Inr x \<Longrightarrow> Q x S1"
    using tripleE [OF assms(1) P m] by metis
  show "(\<exists>d. h' = h @ d \<and> (\<forall>T\<in>set d. I T)) \<and> (\<forall>x. r = Inr x \<longrightarrow> Q x S')"
  proof (cases "\<exists>e. r1 = Inl e \<and> blob_missing e")
    case True
    with m run assms(2) [OF P m] have "g (S, h1) = (r, S', h')" by (auto simp: io_catch_def)
    then obtain d' where "h' = h1 @ d'" "\<forall>T\<in>set d'. I T" "\<And>y. r = Inr y \<Longrightarrow> Q y S'"
      using tripleE [OF assms(3) P] by metis
    with d show ?thesis by (auto intro: exI [of _ "d @ d'"])
  next
    case False
    with m run d show ?thesis by (cases r1) (auto simp: io_catch_def)
  qed
qed

lemma triple_pre: "triple I P m Q \<Longrightarrow> (\<And>S. P' S \<Longrightarrow> P S) \<Longrightarrow> triple I P' m Q"
  unfolding triple_def by blast

lemma triple_post: "triple I P m Q \<Longrightarrow> (\<And>x S. Q x S \<Longrightarrow> Q' x S) \<Longrightarrow> triple I P m Q'"
  unfolding triple_def by blast

lemma triple_crash: "triple I P m Q \<Longrightarrow> (\<And>S. I S \<Longrightarrow> I' S) \<Longrightarrow> triple I' P m Q"
  unfolding triple_def by blast

lemma triple_upload:
  "(\<And>S. P S \<Longrightarrow> I (S(p \<mapsto> (x, m))) \<and> Q () (S(p \<mapsto> (x, m)))) \<Longrightarrow> triple I P (upload_blob ideal p x m) Q"
  by (auto simp: triple_def upload_blob_def ideal_def set_blob_def)

lemma triple_delete:
  "(\<And>S. P S \<Longrightarrow> I (S(p := None)) \<and> Q () (S(p := None))) \<Longrightarrow> triple I P (ct_delete ideal p) Q"
  by (auto simp: triple_def ideal_def set_blob_def split: option.splits)

text \<open>A loop whose body keeps a condition.\<close>

lemma triple_each:
  "(\<And>x. x \<in> set xs \<Longrightarrow> triple I P (f x) (\<lambda>_. P)) \<Longrightarrow> triple I P (io_each f xs) (\<lambda>_. P)"
  by (induction xs) (auto intro!: triple_rules)

text \<open>A loop described by what it has done so far.\<close>

lemma triple_steps:
  assumes "\<And>ys x zs. xs = ys @ x # zs \<Longrightarrow> triple I (P ys) (f x) (\<lambda>_. P (ys @ [x]))"
  shows "triple I (P []) (io_each f xs) (\<lambda>_. P xs)"
proof -
  have "triple I (P ys) (io_each f zs) (\<lambda>_. P xs)" if "xs = ys @ zs" for ys zs
    using that
  proof (induction zs arbitrary: ys)
    case (Cons x zs)
    then show ?case by (auto intro!: triple_bind assms)
  qed (auto intro: triple_lift)
  from this [of "[]" xs] show ?thesis by simp
qed

text \<open>The condition holds on any client, whatever call fails.\<close>

lemma sim_triple:
  assumes "sim view good fails m m'" "triple I P m' Q" "good w" "m w = (r, w1)" "P (view w)" "I (view w)"
  shows "good w1 \<and> I (view w1) \<and> (\<forall>x. r = Inr x \<longrightarrow> Q x (view w1))"
proof -
  have "\<forall>T\<in>set d. I T" if "m' (view w, []) = (r', S', d)" for r' S' d
    using assms(2,5) that unfolding triple_def by fastforce
  then have I: "good w1 \<and> I (view w1)" by (intro sim_invariant [OF assms(1,3,4)] assms(6))
  have "Q x (view w1)" if "r = Inr x" for x
  proof -
    from assms(4) that have "m w = (Inr x, w1)" by simp
    with assms(1,3) obtain d where "m' (view w, []) = (Inr x, view w1, d)" by (rule sim_success)
    with assms(2,5) show ?thesis unfolding triple_def by blast
  qed
  with I show ?thesis by blast
qed

section \<open>Conditions on any client\<close>

text \<open>
  \<open>safe view good I P m Q\<close>: started with blobs that satisfy \<open>I\<close> and \<open>P\<close>, an operation leaves blobs that
  satisfy \<open>I\<close>, and if it returns \<open>x\<close> they also satisfy \<open>Q x\<close>.
\<close>

definition safe ::
    "('w \<Rightarrow> bstore) \<Rightarrow> ('w \<Rightarrow> bool) \<Rightarrow> (bstore \<Rightarrow> bool) \<Rightarrow> (bstore \<Rightarrow> bool) \<Rightarrow> ('w, 'a) io \<Rightarrow>
     ('a \<Rightarrow> bstore \<Rightarrow> bool) \<Rightarrow> bool" where
  "safe view good I P m Q \<longleftrightarrow>
     (\<forall>w r w1. good w \<longrightarrow> I (view w) \<longrightarrow> P (view w) \<longrightarrow> m w = (r, w1) \<longrightarrow>
        good w1 \<and> I (view w1) \<and> (\<forall>x. r = Inr x \<longrightarrow> Q x (view w1)))"

lemma safeD:
  assumes "safe view good I P m Q" "good w" "I (view w)" "P (view w)" "m w = (r, w1)"
  shows "good w1" "I (view w1)" "\<And>x. r = Inr x \<Longrightarrow> Q x (view w1)"
  using assms unfolding safe_def by blast+

named_theorems safe_rules "conditions of operations on any client"

lemma safe_lift [safe_rules]: "(\<And>S x. P S \<Longrightarrow> r = Inr x \<Longrightarrow> Q x S) \<Longrightarrow> safe view good I P (io_lift r) Q"
  by (auto simp: safe_def io_lift_def)

lemma safe_bind:
  assumes "safe view good I P m R" "\<And>x. safe view good I (R x) (f x) Q"
  shows "safe view good I P (io_bind m f) Q"
  unfolding safe_def
proof (intro allI impI)
  fix w r w1
  assume w: "good w" "I (view w)" "P (view w)" and run: "io_bind m f w = (r, w1)"
  obtain r1 w2 where m: "m w = (r1, w2)" by fastforce
  note s = safeD [OF assms(1) w m]
  show "good w1 \<and> I (view w1) \<and> (\<forall>x. r = Inr x \<longrightarrow> Q x (view w1))"
  proof (cases r1)
    case (Inl e)
    with m run s show ?thesis by (auto simp: io_bind_def)
  next
    case (Inr x)
    with m run have "f x w2 = (r, w1)" by (simp add: io_bind_def)
    with safeD [OF assms(2) s(1,2) s(3) [OF Inr]] show ?thesis by blast
  qed
qed

lemma safe_pre: "safe view good I P m Q \<Longrightarrow> (\<And>S. P' S \<Longrightarrow> P S) \<Longrightarrow> safe view good I P' m Q"
  unfolding safe_def by blast

lemma safe_option:
  assumes "x = None \<Longrightarrow> safe view good I P f Q" "\<And>y. x = Some y \<Longrightarrow> safe view good I P (g y) Q"
  shows "safe view good I P (case x of None \<Rightarrow> f | Some y \<Rightarrow> g y) Q"
  using assms by (cases x) auto

lemma safe_if:
  assumes "b \<Longrightarrow> safe view good I P f Q" "\<not> b \<Longrightarrow> safe view good I P g Q"
  shows "safe view good I P (if b then f else g) Q"
  using assms by simp

lemma safe_sim:
  assumes "sim view good fails m m'" "triple I (\<lambda>S. I S \<and> P S) m' Q"
  shows "safe view good I P m Q"
  unfolding safe_def using sim_triple [OF assms] by blast

end
