(* ===== verification/Checkpoint_Read.thy ===== *)
theory Checkpoint_Read
  imports Blob_Container "HOL-Library.Product_Lexorder"
begin

text \<open>
  The reading half of \<open>AzureBlobCheckpointSaver\<close> (\<^verbatim>\<open>checkpointers/azure_blob.py\<close>): \<open>get_tuple\<close> with its
  clean-hint shortcut and the authoritative scan, \<open>list\<close> with its filters, and the loading of
  channel values and pending writes. The serializer and the helpers of LangGraph
  (\<open>get_checkpoint_id\<close>, \<open>get_checkpoint_metadata\<close>, \<open>WRITES_IDX_MAP\<close>) are parameters. A generator is
  the list of what it yields when it is consumed to its end.
\<close>

record saver =
  cs_dumps :: "pyval \<Rightarrow> exn + string \<times> string"
  cs_loads :: "string \<times> string \<Rightarrow> exn + pyval"
  cs_require_guard :: bool
  cs_is_guard :: "nat \<Rightarrow> bool"
  cs_text :: py_text
  cs_lossy :: "string \<Rightarrow> string"
  cs_checkpoint_id :: "pyval dict \<Rightarrow> exn + string option"
  cs_metadata :: "pyval dict \<Rightarrow> pyval dict \<Rightarrow> pyval dict"
  cs_write_index :: "string \<Rightarrow> int option"

record checkpoint_tuple =
  tp_config :: "pyval dict"
  tp_checkpoint :: "pyval dict"
  tp_metadata :: pyval
  tp_parent :: "pyval dict option"
  tp_writes :: "(string \<times> string \<times> pyval) list"

section \<open>Configurations\<close>

definition value_error :: "string \<Rightarrow> exn" where
  "value_error m = Exn ''ValueError'' m"

definition config_thread_id :: "saver \<Rightarrow> pyval dict \<Rightarrow> exn + string" where
  "config_thread_id sv config =
     (case map_of config ''configurable'' of
        Some (PDict d) \<Rightarrow>
          (case field_or_none ''thread_id'' d of
             PNone \<Rightarrow> Inl (value_error ''thread_id is required in config.configurable'')
           | v \<Rightarrow> Inr (py_str (cs_text sv) v))
      | _ \<Rightarrow> Inl (value_error ''configurable must be provided in RunnableConfig''))"

definition config_checkpoint_ns :: "saver \<Rightarrow> pyval dict \<Rightarrow> exn + string" where
  "config_checkpoint_ns sv config =
     (case map_of config ''configurable'' of
        Some (PDict d) \<Rightarrow>
          Inr (case map_of d ''checkpoint_ns'' of None \<Rightarrow> [] | Some v \<Rightarrow> py_str (cs_text sv) v)
      | _ \<Rightarrow> Inl (value_error ''configurable must be provided in RunnableConfig''))"

definition checkpoint_config :: "string \<Rightarrow> string \<Rightarrow> string \<Rightarrow> pyval dict" where
  "checkpoint_config t n i =
     [(''configurable'', PDict [(''thread_id'', PStr t), (''checkpoint_ns'', PStr n), (''checkpoint_id'', PStr i)])]"

section \<open>The latest pointer\<close>

text \<open>Only a clean pointer of version 1 with a nonempty id counts; \<open>True == 1\<close> in Python.\<close>

definition parse_latest_checkpoint_id :: "string \<Rightarrow> string option" where
  "parse_latest_checkpoint_id payload =
     (case utf8_decode (map of_char payload) of
        None \<Rightarrow> None
      | Some s \<Rightarrow>
          (case loads s of
             Some (PDict data) \<Rightarrow>
               (if \<not> py_eq (field_or_none ''version'' data) (PInt 1) \<or> field_or_none ''dirty'' data \<noteq> PBool False
                then None
                else (case field_or_none ''checkpoint_id'' data of
                    PStr i \<Rightarrow> (if i = [] then None else Some i)
                  | _ \<Rightarrow> None))
           | _ \<Rightarrow> None))"

definition read_latest_checkpoint_id :: "'w container \<Rightarrow> string \<Rightarrow> string \<Rightarrow> ('w, string option) io" where
  "read_latest_checkpoint_id c t n =
     io_bind (download_blob c (latest_blob_path t n)) (\<lambda>payload.
       io_return (case payload of None \<Rightarrow> None | Some data \<Rightarrow> parse_latest_checkpoint_id data))"

section \<open>Listings\<close>

definition list_checkpoint_ids :: "saver \<Rightarrow> 'w container \<Rightarrow> string \<Rightarrow> string \<Rightarrow> ('w, string list) io" where
  "list_checkpoint_ids sv c t n =
     io_bind (list_names c (checkpoints_prefix t n)) (\<lambda>names. io_return (checkpoint_ids_of (cs_lossy sv) names))"

definition find_latest_checkpoint_id :: "saver \<Rightarrow> 'w container \<Rightarrow> string \<Rightarrow> string \<Rightarrow> ('w, string option) io" where
  "find_latest_checkpoint_id sv c t n =
     io_bind (list_checkpoint_ids sv c t n) (\<lambda>ids. io_return (case ids of [] \<Rightarrow> None | i # _ \<Rightarrow> Some i))"

definition list_thread_ids :: "saver \<Rightarrow> 'w container \<Rightarrow> ('w, string list) io" where
  "list_thread_ids sv c =
     io_bind (list_names c ''threads/'') (\<lambda>names. io_return (sorted_names (listed_thread (cs_lossy sv)) names))"

definition list_checkpoint_namespaces :: "saver \<Rightarrow> 'w container \<Rightarrow> string \<Rightarrow> ('w, string list) io" where
  "list_checkpoint_namespaces sv c t =
     io_bind (list_names c (thread_prefix t @ ''ns/''))
       (\<lambda>names. io_return (sorted_names (listed_namespace (cs_lossy sv)) names))"

section \<open>Loading a checkpoint\<close>

definition key_error :: "string \<Rightarrow> exn" where
  "key_error k = Exn ''KeyError'' k"

text \<open>\<open>data[k]\<close> on a deserialized value, and \<open>data.items()\<close>.\<close>

definition item_of :: "pyval \<Rightarrow> string \<Rightarrow> exn + pyval" where
  "item_of data k =
     (case data of
        PDict d \<Rightarrow> (case map_of d k of None \<Rightarrow> Inl (key_error k) | Some v \<Rightarrow> Inr v)
      | _ \<Rightarrow> Inl (Exn ''TypeError'' []))"

definition items_of :: "pyval \<Rightarrow> exn + pyval dict" where
  "items_of v = (case v of PDict d \<Rightarrow> Inr d | _ \<Rightarrow> Inl (Exn ''AttributeError'' []))"

definition load_channel_value ::
    "saver \<Rightarrow> 'w container \<Rightarrow> string \<Rightarrow> string \<Rightarrow> string \<times> pyval \<Rightarrow> ('w, (string \<times> pyval) option) io" where
  "load_channel_value sv c t n = (\<lambda>(channel, version).
     io_bind (download_typed_blob c (value_blob_path t n channel (py_str (cs_text sv) version))) (\<lambda>blob.
       case blob of
         None \<Rightarrow> io_return None
       | Some (ty, data, _) \<Rightarrow>
           (if ty = ''empty'' then io_return None
            else io_bind (io_lift (cs_loads sv (ty, data))) (\<lambda>v. io_return (Some (channel, v))))))"

definition load_channel_values ::
    "saver \<Rightarrow> 'w container \<Rightarrow> string \<Rightarrow> string \<Rightarrow> pyval dict \<Rightarrow> ('w, pyval dict) io" where
  "load_channel_values sv c t n channel_versions = io_collect (load_channel_value sv c t n) channel_versions"

type_synonym loaded_write = "string \<times> string \<times> int \<times> string \<times> pyval"

definition load_pending_write ::
    "saver \<Rightarrow> 'w container \<Rightarrow> string \<Rightarrow> string \<Rightarrow> ('w, loaded_write option) io" where
  "load_pending_write sv c pre name =
     (case parse_write_name (cs_lossy sv) pre name of
        None \<Rightarrow> io_return None
      | Some (task, idx) \<Rightarrow>
          io_bind (download_typed_blob c name) (\<lambda>blob.
            case blob of
              None \<Rightarrow> io_return None
            | Some (ty, data, meta) \<Rightarrow>
                (case map_of meta ''channel'' of
                   None \<Rightarrow> io_return None
                 | Some raw_channel \<Rightarrow>
                     (let un = unquote_text (cs_lossy sv);
                          task_id = (case map_of meta ''task_id'' of
                              None \<Rightarrow> task | Some raw \<Rightarrow> if raw = [] then task else un raw);
                          task_path = un (case map_of meta ''task_path'' of None \<Rightarrow> [] | Some raw \<Rightarrow> raw)
                      in io_bind (io_lift (cs_loads sv (ty, data))) (\<lambda>v.
                           io_return (Some (task_path, task_id, idx, un raw_channel, v)))))))"

definition write_key :: "loaded_write \<Rightarrow> string \<times> string \<times> int" where
  "write_key = (\<lambda>(path, task, idx, channel, v). (path, task, idx))"

definition load_pending_writes ::
    "saver \<Rightarrow> 'w container \<Rightarrow> string \<Rightarrow> string \<Rightarrow> string \<Rightarrow> ('w, (string \<times> string \<times> pyval) list) io" where
  "load_pending_writes sv c t n i =
     (let pre = writes_prefix t n i in
      io_bind (list_names c pre) (\<lambda>names.
        io_bind (io_collect (load_pending_write sv c pre) names) (\<lambda>loaded.
          io_return (map (\<lambda>(path, task, idx, channel, v). (task, channel, v)) (sort_key write_key loaded)))))"

definition parent_of :: "saver \<Rightarrow> string dict \<Rightarrow> string option" where
  "parent_of sv meta =
     (case map_of meta ''parent_id'' of
        None \<Rightarrow> None
      | Some raw \<Rightarrow> (if raw = [] then None else Some (unquote_text (cs_lossy sv) raw)))"

definition build_tuple ::
    "saver \<Rightarrow> 'w container \<Rightarrow> string \<Rightarrow> string \<Rightarrow> string \<Rightarrow> pyval dict \<Rightarrow> ('w, checkpoint_tuple option) io" where
  "build_tuple sv c t n i return_config =
     io_bind (download_typed_blob c (checkpoint_blob_path t n i)) (\<lambda>blob.
       case blob of
         None \<Rightarrow> io_return None
       | Some (ty, payload, meta) \<Rightarrow>
           io_bind (io_lift (cs_loads sv (ty, payload))) (\<lambda>data.
           io_bind (io_lift (item_of data ''channel_versions'')) (\<lambda>versions.
           io_bind (io_lift (items_of versions)) (\<lambda>channel_versions.
           io_bind (load_channel_values sv c t n channel_versions) (\<lambda>values.
           io_bind (download_typed_blob c (metadata_blob_path t n i)) (\<lambda>meta_blob.
             case meta_blob of
               None \<Rightarrow> io_return None
             | Some (mty, mpayload, _) \<Rightarrow>
                 io_bind (io_lift (cs_loads sv (mty, mpayload))) (\<lambda>metadata.
                 io_bind (load_pending_writes sv c t n i) (\<lambda>pending.
                 io_bind (io_lift (items_of data)) (\<lambda>fields.
                   io_return (Some
                     \<lparr>tp_config = return_config,
                      tp_checkpoint = AList.update ''channel_values'' (PDict values) fields,
                      tp_metadata = metadata,
                      tp_parent = (case parent_of sv meta of
                          None \<Rightarrow> None
                        | Some p \<Rightarrow> if p = [] then None else Some (checkpoint_config t n p)),
                      tp_writes = pending\<rparr>))))))))))"

section \<open>\<open>get_tuple\<close>\<close>

definition get_tuple :: "saver \<Rightarrow> 'w container \<Rightarrow> pyval dict \<Rightarrow> ('w, checkpoint_tuple option) io" where
  "get_tuple sv c config =
     io_bind (io_lift (config_thread_id sv config)) (\<lambda>t.
     io_bind (io_lift (config_checkpoint_ns sv config)) (\<lambda>n.
     io_bind (io_lift (cs_checkpoint_id sv config)) (\<lambda>requested.
       let scan =
         io_bind (find_latest_checkpoint_id sv c t n) (\<lambda>actual.
           case actual of
             None \<Rightarrow> io_return None
           | Some i \<Rightarrow> build_tuple sv c t n i (checkpoint_config t n i))
       in case requested of
            Some (x # xs) \<Rightarrow> build_tuple sv c t n (x # xs) config
          | _ \<Rightarrow>
              io_bind (read_latest_checkpoint_id c t n) (\<lambda>hint.
                case hint of
                  None \<Rightarrow> scan
                | Some i \<Rightarrow>
                    io_bind (build_tuple sv c t n i (checkpoint_config t n i)) (\<lambda>tuple.
                      case tuple of Some tp \<Rightarrow> io_return (Some tp) | None \<Rightarrow> scan)))))"

section \<open>\<open>list\<close>\<close>

text \<open>
  \<open>all(query_value == metadata.get(query_key) ...)\<close>; an empty filter is no filter. A loop returns what
  it yields and what is left of the limit, \<open>None\<close> when the generator has returned.
\<close>

definition metadata_selected :: "pyval dict option \<Rightarrow> pyval \<Rightarrow> exn + bool" where
  "metadata_selected wanted metadata =
     (case wanted of
        None \<Rightarrow> Inr True
      | Some q \<Rightarrow>
          (if q = [] then Inr True
           else bind_res (items_of metadata)
             (\<lambda>d. Inr (list_all (\<lambda>kv. py_eq (snd kv) (field_or_none (fst kv) d)) q))))"

record selection =
  se_id :: "string option"
  se_before :: "string option"
  se_filter :: "pyval dict option"

fun yield_ids ::
    "saver \<Rightarrow> 'w container \<Rightarrow> selection \<Rightarrow> string \<Rightarrow> string \<Rightarrow> string list \<Rightarrow> int option \<Rightarrow>
     ('w, checkpoint_tuple list \<times> int option option) io" where
  "yield_ids sv c sel t n [] remaining = io_return ([], Some remaining)"
| "yield_ids sv c sel t n (i # is) remaining =
     (if (case se_id sel of None \<Rightarrow> False | Some j \<Rightarrow> i \<noteq> j) then yield_ids sv c sel t n is remaining
      else if (case se_before sel of None \<Rightarrow> False | Some j \<Rightarrow> j \<le> i) then yield_ids sv c sel t n is remaining
      else
        io_bind (build_tuple sv c t n i (checkpoint_config t n i)) (\<lambda>tuple.
          case tuple of
            None \<Rightarrow> yield_ids sv c sel t n is remaining
          | Some tp \<Rightarrow>
              io_bind (io_lift (metadata_selected (se_filter sel) (tp_metadata tp))) (\<lambda>ok.
                if \<not> ok then yield_ids sv c sel t n is remaining
                else if (case remaining of None \<Rightarrow> False | Some k \<Rightarrow> k \<le> 0) then io_return ([], None)
                else io_bind (yield_ids sv c sel t n is (map_option (\<lambda>k. k - 1) remaining))
                       (\<lambda>(tps, left). io_return (tp # tps, left)))))"

text \<open>The outer loops: the body of the next element runs only if the generator has not returned.\<close>

fun yield_each ::
    "('b \<Rightarrow> int option \<Rightarrow> ('w, 'a list \<times> int option option) io) \<Rightarrow> 'b list \<Rightarrow> int option \<Rightarrow>
     ('w, 'a list \<times> int option option) io" where
  "yield_each f [] remaining = io_return ([], Some remaining)"
| "yield_each f (x # xs) remaining =
     io_bind (f x remaining) (\<lambda>(ys, left).
       case left of
         None \<Rightarrow> io_return (ys, None)
       | Some k \<Rightarrow> io_bind (yield_each f xs k) (\<lambda>(zs, left'). io_return (ys @ zs, left')))"

definition yield_namespace ::
    "saver \<Rightarrow> 'w container \<Rightarrow> selection \<Rightarrow> string \<Rightarrow> string \<Rightarrow> int option \<Rightarrow>
     ('w, checkpoint_tuple list \<times> int option option) io" where
  "yield_namespace sv c sel t n remaining =
     io_bind (list_checkpoint_ids sv c t n) (\<lambda>ids. yield_ids sv c sel t n ids remaining)"

definition yield_thread ::
    "saver \<Rightarrow> 'w container \<Rightarrow> selection \<Rightarrow> string option \<Rightarrow> string \<Rightarrow> int option \<Rightarrow>
     ('w, checkpoint_tuple list \<times> int option option) io" where
  "yield_thread sv c sel ns t remaining =
     io_bind (case ns of Some n \<Rightarrow> io_return [n] | None \<Rightarrow> list_checkpoint_namespaces sv c t)
       (\<lambda>namespaces. yield_each (yield_namespace sv c sel t) namespaces remaining)"

definition given :: "pyval dict option \<Rightarrow> pyval dict option" where
  "given config = (case config of Some (x # xs) \<Rightarrow> Some (x # xs) | _ \<Rightarrow> None)"

definition opt_res :: "('a \<Rightarrow> exn + 'b) \<Rightarrow> 'a option \<Rightarrow> exn + 'b option" where
  "opt_res f x = (case x of None \<Rightarrow> Inr None | Some y \<Rightarrow> bind_res (f y) (\<lambda>z. Inr (Some z)))"

definition opt_id :: "saver \<Rightarrow> pyval dict option \<Rightarrow> exn + string option" where
  "opt_id sv config = (case given config of None \<Rightarrow> Inr None | Some d \<Rightarrow> cs_checkpoint_id sv d)"

definition list_checkpoints ::
    "saver \<Rightarrow> 'w container \<Rightarrow> pyval dict option \<Rightarrow> pyval dict option \<Rightarrow> pyval dict option \<Rightarrow> int option \<Rightarrow>
     ('w, checkpoint_tuple list) io" where
  "list_checkpoints sv c config wanted before limit =
     io_bind (io_lift (opt_res (config_checkpoint_ns sv) (given config))) (\<lambda>ns.
     io_bind (io_lift (opt_id sv config)) (\<lambda>i.
     io_bind (io_lift (opt_id sv before)) (\<lambda>j.
     io_bind (case given config of
         Some d \<Rightarrow> io_bind (io_lift (config_thread_id sv d)) (\<lambda>t. io_return [t])
       | None \<Rightarrow> list_thread_ids sv c) (\<lambda>threads.
     io_bind (yield_each (yield_thread sv c \<lparr>se_id = i, se_before = j, se_filter = wanted\<rparr> ns) threads limit)
       (\<lambda>(tps, left). io_return tps)))))"

section \<open>Reading leaves the blobs alone\<close>

text \<open>
  On the ideal container a reading operation changes nothing and its answer does not depend on
  the past; \<open>answer m S\<close> is that answer.
\<close>

definition answer :: "(bworld, 'a) io \<Rightarrow> bstore \<Rightarrow> exn + 'a" where
  "answer m S = fst (m (S, []))"

definition readonly :: "(bworld, 'a) io \<Rightarrow> bool" where
  "readonly m \<longleftrightarrow> (\<forall>S h. m (S, h) = (answer m S, S, h))"

named_theorems readonly_rules "operations that only read"
named_theorems answer_simps "what reading operations answer"

lemma reads_readonly: "reads m f \<Longrightarrow> readonly m"
  by (simp add: reads_def readonly_def answer_def)

lemma readonly_reads: "readonly m \<Longrightarrow> reads m (answer m)"
  by (simp add: reads_def readonly_def)

lemma answer_reads: "reads m f \<Longrightarrow> answer m S = f S"
  by (simp add: reads_def answer_def)

lemmas readonly_calls [readonly_rules] = reads_calls [THEN reads_readonly]
lemmas answer_calls [answer_simps] = reads_calls [THEN answer_reads]

lemma readonly_lift [readonly_rules]: "readonly (io_lift r)"
  by (rule reads_readonly [OF reads_lift])

lemma answer_lift [answer_simps]: "answer (io_lift r) S = r"
  by (simp add: answer_def io_lift_def)

lemma readonly_bind [readonly_rules]:
  assumes "readonly m" "\<And>x. readonly (g x)"
  shows "readonly (io_bind m g)"
  by (rule reads_readonly [OF reads_bind [OF readonly_reads readonly_reads]]) (rule assms)+

lemma answer_bind [answer_simps]:
  assumes "readonly m"
  shows "answer (io_bind m g) S = bind_res (answer m S) (\<lambda>x. answer (g x) S)"
proof -
  have "m (S, []) = (answer m S, S, [])" using assms unfolding readonly_def by blast
  then show ?thesis by (cases "answer m S") (simp_all add: answer_def io_bind_def)
qed

lemma readonly_if [readonly_rules]: "readonly f \<Longrightarrow> readonly g \<Longrightarrow> readonly (if b then f else g)"
  by simp

lemma readonly_option [readonly_rules]:
  "readonly f \<Longrightarrow> (\<And>y. readonly (g y)) \<Longrightarrow> readonly (case x of None \<Rightarrow> f | Some y \<Rightarrow> g y)"
  by (cases x) auto

lemma readonly_prod [readonly_rules]:
  "(\<And>a b. readonly (f a b)) \<Longrightarrow> readonly (case x of (a, b) \<Rightarrow> f a b)"
  by (cases x) auto

lemma readonly_list [readonly_rules]:
  "readonly f \<Longrightarrow> (\<And>y ys. readonly (g y ys)) \<Longrightarrow> readonly (case x of [] \<Rightarrow> f | y # ys \<Rightarrow> g y ys)"
  by (cases x) auto

lemma readonly_collect [readonly_rules]: "(\<And>x. readonly (f x)) \<Longrightarrow> readonly (io_collect f xs)"
  by (induction xs) (simp_all add: readonly_rules)

lemma readonly_yield_each [readonly_rules]:
  "(\<And>x k. readonly (f x k)) \<Longrightarrow> readonly (yield_each f xs k)"
  by (induction xs arbitrary: k) (auto intro!: readonly_rules)

lemma sim_list_case [sim_rules]:
  "sim view good fails f f' \<Longrightarrow> (\<And>y ys. sim view good fails (g y ys) (g' y ys)) \<Longrightarrow>
     sim view good fails (case x of [] \<Rightarrow> f | y # ys \<Rightarrow> g y ys) (case x of [] \<Rightarrow> f' | y # ys \<Rightarrow> g' y ys)"
  by (cases x) auto

lemma sim_yield_each [sim_rules]:
  "(\<And>x k. sim view good fails (f x k) (f' x k)) \<Longrightarrow> sim view good fails (yield_each f xs k) (yield_each f' xs k)"
  by (induction xs arbitrary: k) (auto intro!: sim_rules)

lemmas read_defs = read_latest_checkpoint_id_def list_checkpoint_ids_def find_latest_checkpoint_id_def
  list_thread_ids_def list_checkpoint_namespaces_def load_channel_value_def load_channel_values_def
  load_pending_write_def load_pending_writes_def build_tuple_def get_tuple_def yield_namespace_def
  yield_thread_def list_checkpoints_def Let_def case_prod_unfold

lemma readonly_build [readonly_rules]:
  "readonly (read_latest_checkpoint_id ideal t n)" "readonly (list_checkpoint_ids sv ideal t n)"
  "readonly (load_channel_value sv ideal t n cv)" "readonly (load_pending_write sv ideal q name)"
  "readonly (build_tuple sv ideal t n i cfg)"
  unfolding read_defs by (intro readonly_rules)+

lemma readonly_yield_ids [readonly_rules]: "readonly (yield_ids sv ideal sel t n is k)"
  by (induction "is" arbitrary: k) (auto intro!: readonly_rules)

lemma readonly_get [readonly_rules]:
  "readonly (find_latest_checkpoint_id sv ideal t n)" "readonly (get_tuple sv ideal config)"
  "readonly (list_checkpoints sv ideal cfg wanted before limit)"
  unfolding find_latest_checkpoint_id_def get_tuple_def list_checkpoints_def yield_thread_def yield_namespace_def
    list_thread_ids_def list_checkpoint_namespaces_def Let_def case_prod_unfold
  by (intro readonly_rules)+

lemma sim_build [sim_rules]:
  assumes "container_laws c view good fails"
  shows "sim view good fails (read_latest_checkpoint_id c t n) (read_latest_checkpoint_id ideal t n)"
    "sim view good fails (list_checkpoint_ids sv c t n) (list_checkpoint_ids sv ideal t n)"
    "sim view good fails (build_tuple sv c t n i cfg) (build_tuple sv ideal t n i cfg)"
  unfolding read_defs by (intro sim_rules assms)+

lemma sim_yield_ids [sim_rules]:
  assumes "container_laws c view good fails"
  shows "sim view good fails (yield_ids sv c sel t n is k) (yield_ids sv ideal sel t n is k)"
  by (induction "is" arbitrary: k) (auto intro!: sim_rules assms)

lemma sim_get [sim_rules]:
  assumes "container_laws c view good fails"
  shows "sim view good fails (find_latest_checkpoint_id sv c t n) (find_latest_checkpoint_id sv ideal t n)"
    "sim view good fails (get_tuple sv c config) (get_tuple sv ideal config)"
    "sim view good fails (list_checkpoints sv c cfg wanted before limit)
       (list_checkpoints sv ideal cfg wanted before limit)"
  unfolding find_latest_checkpoint_id_def get_tuple_def list_checkpoints_def yield_thread_def yield_namespace_def
    list_thread_ids_def list_checkpoint_namespaces_def Let_def case_prod_unfold
  by (intro sim_rules assms)+

end
