(* ===== verification/Checkpoint_Write.thy ===== *)
theory Checkpoint_Write
  imports Checkpoint_Read
begin

text \<open>
  The writing half of \<open>AzureBlobCheckpointSaver\<close>: \<open>put\<close> (dirty pointer, channel values, metadata,
  checkpoint marker, clean pointer, in this order, with the ownership guard checked before every
  upload), \<open>put_writes\<close>, \<open>delete_thread\<close> and the retention helpers. A checkpoint is a dictionary
  whose \<open>id\<close> is a string and whose \<open>channel_values\<close> are a dictionary, as its type says; other values
  there are a \<open>TypeError\<close> at once.
\<close>

section \<open>\<open>put\<close>\<close>

definition missing_guard :: exn where
  "missing_guard = guard_exn (LeaseLost \<lparr>lle_reason = Missing, lle_graph = None, lle_thread = None\<rparr>)"

definition write_guard :: "saver \<Rightarrow> nat option \<Rightarrow> pyval dict \<Rightarrow> exn + nat option" where
  "write_guard sv scoped config =
     (let guard = resolve_ownership_guard (cs_is_guard sv) scoped (Some config) in
      if guard = None \<and> cs_require_guard sv then Inl missing_guard else Inr guard)"

type_synonym 'w write_check = "nat \<Rightarrow> 'w \<Rightarrow> lease_lost_error option"

definition check_guard :: "'w write_check \<Rightarrow> nat option \<Rightarrow> ('w, unit) io" where
  "check_guard chk guard w =
     (case check_ownership_guard (\<lambda>a. chk a w) guard of Inl e \<Rightarrow> (Inl (guard_exn e), w) | Inr u \<Rightarrow> (Inr u, w))"

definition guarded_upload ::
    "'w container \<Rightarrow> 'w write_check \<Rightarrow> nat option \<Rightarrow> string \<Rightarrow> string \<Rightarrow> string dict \<Rightarrow> ('w, unit) io" where
  "guarded_upload c chk guard path payload metadata =
     io_then (check_guard chk guard) (upload_blob c path payload metadata)"

definition dirty_payload :: string where
  "dirty_payload = ''{'' @ string_text ''version'' @ '':1,'' @ string_text ''dirty'' @ '':true}''"

definition latest_payload :: "string \<Rightarrow> string" where
  "latest_payload i =
     ''{'' @ string_text ''version'' @ '':1,'' @ string_text ''dirty'' @ '':false,'' @
     string_text ''checkpoint_id'' @ '':'' @ string_text i @ ''}''"

definition checkpoint_id_of :: "pyval dict \<Rightarrow> exn + string" where
  "checkpoint_id_of checkpoint =
     (case map_of checkpoint ''id'' of
        None \<Rightarrow> Inl (key_error ''id'') | Some (PStr i) \<Rightarrow> Inr i | Some _ \<Rightarrow> Inl (Exn ''TypeError'' []))"

definition channel_values_of :: "pyval dict \<Rightarrow> exn + pyval dict" where
  "channel_values_of checkpoint =
     (case map_of checkpoint ''channel_values'' of
        None \<Rightarrow> Inr [] | Some (PDict d) \<Rightarrow> Inr d | Some _ \<Rightarrow> Inl (Exn ''TypeError'' []))"

text \<open>The newest id before the write: a clean pointer whose checkpoint exists, or a scan.\<close>

definition current_latest :: "saver \<Rightarrow> 'w container \<Rightarrow> string \<Rightarrow> string \<Rightarrow> ('w, string option) io" where
  "current_latest sv c t n =
     io_bind (read_latest_checkpoint_id c t n) (\<lambda>hint.
       case hint of
         None \<Rightarrow> find_latest_checkpoint_id sv c t n
       | Some i \<Rightarrow>
           io_bind (blob_exists c (checkpoint_blob_path t n i)) (\<lambda>present.
             if present then io_return (Some i) else find_latest_checkpoint_id sv c t n))"

definition typed_value :: "saver \<Rightarrow> pyval dict \<Rightarrow> string \<Rightarrow> exn + string \<times> string" where
  "typed_value sv channel_values channel =
     (case map_of channel_values channel of Some v \<Rightarrow> cs_dumps sv v | None \<Rightarrow> Inr (''empty'', []))"

definition put_value ::
    "saver \<Rightarrow> 'w container \<Rightarrow> 'w write_check \<Rightarrow> nat option \<Rightarrow> string \<Rightarrow> string \<Rightarrow> pyval dict \<Rightarrow>
     string \<times> pyval \<Rightarrow> ('w, unit) io" where
  "put_value sv c chk guard t n channel_values = (\<lambda>(channel, version).
     io_bind (io_lift (typed_value sv channel_values channel)) (\<lambda>(ty, payload).
       guarded_upload c chk guard (value_blob_path t n channel (py_str (cs_text sv) version)) payload
         [(''serde_type'', ty)]))"

definition marker_metadata :: "string \<Rightarrow> string option \<Rightarrow> string dict" where
  "marker_metadata ty parent =
     (''serde_type'', ty) # (case parent of None \<Rightarrow> [] | Some p \<Rightarrow> [(''parent_id'', quote p)])"

definition put ::
    "saver \<Rightarrow> 'w container \<Rightarrow> 'w write_check \<Rightarrow> nat option \<Rightarrow> pyval dict \<Rightarrow> pyval dict \<Rightarrow> pyval dict \<Rightarrow>
     pyval dict \<Rightarrow> ('w, pyval dict) io" where
  "put sv c chk scoped config checkpoint metadata new_versions =
     io_bind (io_lift (write_guard sv scoped config)) (\<lambda>guard.
     io_bind (io_lift (config_thread_id sv config)) (\<lambda>t.
     io_bind (io_lift (config_checkpoint_ns sv config)) (\<lambda>n.
     io_bind (io_lift (checkpoint_id_of checkpoint)) (\<lambda>i.
     io_bind (io_lift (cs_checkpoint_id sv config)) (\<lambda>parent.
     io_bind (current_latest sv c t n) (\<lambda>current.
     io_then (guarded_upload c chk guard (latest_blob_path t n) dirty_payload [])
     (io_bind (io_lift (channel_values_of checkpoint)) (\<lambda>channel_values.
      io_then (io_each (put_value sv c chk guard t n channel_values) new_versions)
     (io_bind (io_lift (cs_dumps sv (PDict (cs_metadata sv config metadata)))) (\<lambda>(mty, mpayload).
      io_then (guarded_upload c chk guard (metadata_blob_path t n i) mpayload [(''serde_type'', mty)])
     (io_bind (io_lift (cs_dumps sv (PDict (AList.delete ''channel_values'' checkpoint)))) (\<lambda>(ty, payload).
      io_then (guarded_upload c chk guard (checkpoint_blob_path t n i) payload (marker_metadata ty parent))
     (io_then (guarded_upload c chk guard (latest_blob_path t n)
        (latest_payload (max (case current of None \<Rightarrow> [] | Some j \<Rightarrow> j) i)) [])
     (io_return (checkpoint_config t n i)))))))))))))))"

section \<open>\<open>put_writes\<close>\<close>

definition put_write ::
    "saver \<Rightarrow> 'w container \<Rightarrow> 'w write_check \<Rightarrow> nat option \<Rightarrow> string \<Rightarrow> string \<Rightarrow> string \<Rightarrow> string \<Rightarrow> string \<Rightarrow>
     nat \<times> string \<times> pyval \<Rightarrow> ('w, unit) io" where
  "put_write sv c chk guard t n i task path = (\<lambda>(k, channel, v).
     let idx = (case cs_write_index sv channel of None \<Rightarrow> int k | Some j \<Rightarrow> j);
         blob = write_blob_path t n i task idx
     in io_bind (if idx \<ge> 0 then blob_exists c blob else io_return False) (\<lambda>present.
          if present then io_return ()
          else io_bind (io_lift (cs_dumps sv v)) (\<lambda>(ty, payload).
            guarded_upload c chk guard blob payload
              [(''serde_type'', ty), (''channel'', quote channel), (''task_id'', quote task),
               (''task_path'', quote path)])))"

definition put_writes ::
    "saver \<Rightarrow> 'w container \<Rightarrow> 'w write_check \<Rightarrow> nat option \<Rightarrow> pyval dict \<Rightarrow> (string \<times> pyval) list \<Rightarrow> string \<Rightarrow>
     string \<Rightarrow> ('w, unit) io" where
  "put_writes sv c chk scoped config writes task path =
     io_bind (io_lift (write_guard sv scoped config)) (\<lambda>guard.
     io_bind (io_lift (config_thread_id sv config)) (\<lambda>t.
     io_bind (io_lift (config_checkpoint_ns sv config)) (\<lambda>n.
     io_bind (io_lift (cs_checkpoint_id sv config)) (\<lambda>requested.
       case requested of
         None \<Rightarrow> io_raise (value_error ''checkpoint_id is required in config to store writes'')
       | Some i \<Rightarrow> io_each (put_write sv c chk guard t n i task path) (List.enumerate 0 writes)))))"

section \<open>Deletion and retention\<close>

definition delete_thread :: "'w container \<Rightarrow> string \<Rightarrow> ('w, unit) io" where
  "delete_thread c t = io_bind (list_names c (thread_prefix t)) (\<lambda>names. io_each (ct_delete c) names)"

definition delete_checkpoint_blobs :: "'w container \<Rightarrow> string \<Rightarrow> string \<Rightarrow> string \<Rightarrow> ('w, unit) io" where
  "delete_checkpoint_blobs c t n i =
     io_bind (list_names c (checkpoint_base_prefix t n i))
       (\<lambda>names. io_each (\<lambda>p. io_catch (ct_delete c p) (io_return ())) names)"

definition namespaces_or :: "saver \<Rightarrow> 'w container \<Rightarrow> string \<Rightarrow> string option \<Rightarrow> ('w, string list) io" where
  "namespaces_or sv c t ns =
     (case ns of Some n \<Rightarrow> io_return [n] | None \<Rightarrow> list_checkpoint_namespaces sv c t)"

text \<open>The loop over the chosen ids of a namespace, which counts what it deletes.\<close>

fun delete_ids :: "'w container \<Rightarrow> string \<Rightarrow> string \<Rightarrow> string list \<Rightarrow> nat \<Rightarrow> ('w, nat) io" where
  "delete_ids c t n [] deleted = io_return deleted"
| "delete_ids c t n (i # is) deleted =
     io_then (delete_checkpoint_blobs c t n i) (delete_ids c t n is (deleted + 1))"

fun prune ::
    "saver \<Rightarrow> 'w container \<Rightarrow> string \<Rightarrow> (string list \<Rightarrow> string list) \<Rightarrow> string list \<Rightarrow> nat \<Rightarrow> ('w, nat) io" where
  "prune sv c t chosen [] deleted = io_return deleted"
| "prune sv c t chosen (n # ns) deleted =
     io_bind (list_checkpoint_ids sv c t n) (\<lambda>ids.
     io_bind (delete_ids c t n (chosen ids) deleted) (prune sv c t chosen ns))"

definition delete_checkpoints_before ::
    "saver \<Rightarrow> 'w container \<Rightarrow> string \<Rightarrow> string \<Rightarrow> string option \<Rightarrow> ('w, nat) io" where
  "delete_checkpoints_before sv c t before ns =
     io_bind (namespaces_or sv c t ns) (\<lambda>namespaces. prune sv c t (filter (\<lambda>i. i < before)) namespaces 0)"

definition delete_old_checkpoints ::
    "saver \<Rightarrow> 'w container \<Rightarrow> string \<Rightarrow> int \<Rightarrow> string option \<Rightarrow> ('w, nat) io" where
  "delete_old_checkpoints sv c t keep_last ns =
     (if keep_last < 0 then io_raise (value_error ''keep_last must be non-negative'')
      else io_bind (namespaces_or sv c t ns) (\<lambda>namespaces. prune sv c t (drop (nat keep_last)) namespaces 0))"

section \<open>Simulation of the writing operations\<close>

text \<open>
  On the ideal container the guard always passes; on a real one a rejection is one more way in
  which an operation may be cut short.
\<close>

abbreviation no_check :: "bworld write_check" where
  "no_check \<equiv> \<lambda>_ _. None"

definition rejections_fail :: "'w write_check \<Rightarrow> ('w \<Rightarrow> bool) \<Rightarrow> (exn \<Rightarrow> bool) \<Rightarrow> bool" where
  "rejections_fail chk good fails \<longleftrightarrow>
     (\<forall>a w e. good w \<longrightarrow> chk a w = Some e \<longrightarrow> fails (guard_exn (LeaseLost e)))"

lemma check_guard_ideal: "check_guard no_check guard = io_return ()"
  by (rule ext) (simp add: check_guard_def check_ownership_guard_def io_lift_def split: option.split)

lemma sim_check [sim_rules]:
  assumes "rejections_fail chk good fails"
  shows "sim view good fails (check_guard chk guard) (check_guard no_check guard)"
  unfolding check_guard_ideal
proof (rule simI)
  fix w h r w1 r' d
  assume w: "good w" and run: "check_guard chk guard w = (r, w1)"
    and run': "io_return () (view w, h) = (r', last (view w # d), h @ d)"
  have "\<not> blob_missing (guard_exn (LeaseLost e))" for e by (simp add: blob_missing_def)
  then show "good w1 \<and> (same_result r r' \<and> view w1 = last (view w # d) \<or>
      (\<exists>e. r = Inl e \<and> fails e \<and> \<not> blob_missing e) \<and> view w1 \<in> set (view w # d))"
    using w run run' assms
    by (auto simp: check_guard_def check_ownership_guard_def io_lift_def rejections_fail_def
        split: option.splits sum.splits)
qed simp

lemmas write_defs = guarded_upload_def put_value_def put_def put_write_def put_writes_def current_latest_def
  delete_thread_def delete_checkpoint_blobs_def namespaces_or_def list_checkpoint_namespaces_def Let_def
  case_prod_unfold

lemma sim_put [sim_rules]:
  assumes "container_laws c view good fails" "rejections_fail chk good fails"
  shows "sim view good fails (put sv c chk scoped config checkpoint metadata new_versions)
      (put sv ideal no_check scoped config checkpoint metadata new_versions)"
    "sim view good fails (put_writes sv c chk scoped config writes task path)
      (put_writes sv ideal no_check scoped config writes task path)"
  unfolding write_defs by (intro sim_rules assms)+

lemma sim_delete_blobs [sim_rules]:
  assumes "container_laws c view good fails"
  shows "sim view good fails (delete_thread c t) (delete_thread ideal t)"
    "sim view good fails (delete_checkpoint_blobs c t n i) (delete_checkpoint_blobs ideal t n i)"
    "sim view good fails (namespaces_or sv c t ns) (namespaces_or sv ideal t ns)"
  unfolding write_defs by (intro sim_rules assms)+

lemma sim_prune [sim_rules]:
  assumes "container_laws c view good fails"
  shows "sim view good fails (prune sv c t chosen ns k) (prune sv ideal t chosen ns k)"
proof -
  have "sim view good fails (delete_ids c t n is k) (delete_ids ideal t n is k)" for n "is" k
    by (induction "is" arbitrary: k) (auto intro!: sim_rules assms)
  then show ?thesis by (induction ns arbitrary: k) (auto intro!: sim_rules assms)
qed

lemma sim_retention [sim_rules]:
  assumes "container_laws c view good fails"
  shows "sim view good fails (delete_checkpoints_before sv c t before ns) (delete_checkpoints_before sv ideal t before ns)"
    "sim view good fails (delete_old_checkpoints sv c t keep ns) (delete_old_checkpoints sv ideal t keep ns)"
  unfolding delete_checkpoints_before_def delete_old_checkpoints_def by (intro sim_rules assms)+

end
