(* ===== verification/Checkpoint_Store.thy ===== *)
theory Checkpoint_Store
  imports Checkpoint_Write
begin

text \<open>
  What the blobs of the checkpoint saver look like between any two calls: \<open>blobs_ok\<close>. The names
  below \<open>threads/\<close> are names the saver builds, and a clean pointer of a namespace is no older than
  any checkpoint there. Every operation keeps it at every step, so it holds wherever a crash
  leaves the container, and under it \<open>get_tuple\<close> without an id answers with the newest checkpoint.
\<close>

section \<open>The condition\<close>

definition ids :: "bstore \<Rightarrow> string \<Rightarrow> string \<Rightarrow> string set" where
  "ids S t n = {i. S (path_of (Marker t n i)) \<noteq> None}"

definition well_named :: "bstore \<Rightarrow> bool" where
  "well_named S \<longleftrightarrow> finite (dom S) \<and> (\<forall>p\<in>dom S. prefix ''threads/'' p \<longrightarrow> (\<exists>b. p = path_of b))"

definition clean_hint :: "bstore \<Rightarrow> string \<Rightarrow> string \<Rightarrow> string option" where
  "clean_hint S t n =
     (case blob_text S (path_of (Latest t n)) of None \<Rightarrow> None | Some x \<Rightarrow> parse_latest_checkpoint_id x)"

definition blobs_ok :: "bstore \<Rightarrow> bool" where
  "blobs_ok S \<longleftrightarrow> well_named S \<and> (\<forall>t n h. clean_hint S t n = Some h \<longrightarrow> (\<forall>i\<in>ids S t n. i \<le> h))"

lemma blobs_ok_empty: "blobs_ok Map.empty"
  by (simp add: blobs_ok_def well_named_def clean_hint_def blob_text_def)

section \<open>Listings of well-named blobs\<close>

lemma set_listing: "finite (dom S) \<Longrightarrow> set (listing S p) = {q \<in> dom S. prefix p q}"
  by (simp add: listing_def)

lemma threads_prefix: "prefix ''threads/'' (thread_prefix t @ r)" "prefix ''threads/'' (namespace_prefix t n @ r)"
  by (simp_all add: thread_prefix_def namespace_prefix_def)

lemma prefix_threads:
  "prefix (checkpoints_prefix t n) p \<Longrightarrow> prefix ''threads/'' p"
  "prefix (checkpoint_base_prefix t n i) p \<Longrightarrow> prefix ''threads/'' p"
  "prefix (writes_prefix t n i) p \<Longrightarrow> prefix ''threads/'' p"
  "prefix (values_prefix t n) p \<Longrightarrow> prefix ''threads/'' p"
  "prefix (thread_prefix t) p \<Longrightarrow> prefix ''threads/'' p"
  "prefix (thread_prefix t @ ''ns/'') p \<Longrightarrow> prefix ''threads/'' p"
  by (auto simp: prefix_def path_defs simp del: path_folds)

lemma listing_names:
  assumes "well_named S" "\<And>q. prefix p q \<Longrightarrow> prefix ''threads/'' q"
  shows "set (listing S p) = {path_of b |b. S (path_of b) \<noteq> None \<and> prefix p (path_of b)}"
proof -
  have "\<exists>b. q = path_of b" if "q \<in> dom S" "prefix p q" for q
    using assms that by (simp add: well_named_def)
  then show ?thesis using assms(1) by (force simp: set_listing well_named_def)
qed

lemma set_map_filter: "set (List.map_filter f xs) = {y. \<exists>x\<in>set xs. f x = Some y}"
  by (force simp: List.map_filter_def)

lemma sort_remdups: "sort (remdups xs) = sorted_list_of_set (set xs)"
  by (rule sorted_list_of_set_sort_remdups [symmetric])

lemma finite_ids: "finite (dom S) \<Longrightarrow> finite (ids S t n)"
proof -
  assume "finite (dom S)"
  moreover have "(\<lambda>i. path_of (Marker t n i)) ` ids S t n \<subseteq> dom S" by (auto simp: ids_def)
  ultimately have "finite ((\<lambda>i. path_of (Marker t n i)) ` ids S t n)" by (rule rev_finite_subset)
  then show ?thesis by (rule finite_imageD) (simp add: inj_on_def)
qed

lemma marker_listed:
  assumes "well_named S"
  shows "{y. \<exists>x\<in>set (listing S (checkpoints_prefix t n)). listed_checkpoint lossy x = Some y} = ids S t n"
proof -
  have "(\<exists>x\<in>set (listing S (checkpoints_prefix t n)). listed_checkpoint lossy x = Some y) \<longleftrightarrow>
      (\<exists>b. S (path_of b) \<noteq> None \<and> thread_of b = t \<and> namespace_of b = n \<and> checkpoint_of b \<noteq> None \<and>
        listed_checkpoint lossy (path_of b) = Some y)" for y
    using assms by (auto simp: listing_names prefix_threads)
  also have "\<dots> y \<longleftrightarrow> y \<in> ids S t n" for y
  proof
    assume "\<exists>b. S (path_of b) \<noteq> None \<and> thread_of b = t \<and> namespace_of b = n \<and> checkpoint_of b \<noteq> None \<and>
        listed_checkpoint lossy (path_of b) = Some y"
    then show "y \<in> ids S t n"
      by (auto simp: listed_checkpoint_path ids_def split: blob_name.splits)
  next
    assume "y \<in> ids S t n"
    then show "\<exists>b. S (path_of b) \<noteq> None \<and> thread_of b = t \<and> namespace_of b = n \<and> checkpoint_of b \<noteq> None \<and>
        listed_checkpoint lossy (path_of b) = Some y"
      by (intro exI [of _ "Marker t n y"]) (simp add: ids_def listed_checkpoint_path)
  qed
  finally show ?thesis by blast
qed

text \<open>The sorted ids of a namespace.\<close>

lemma ids_answer [answer_simps]:
  assumes "well_named S"
  shows "answer (list_checkpoint_ids sv ideal t n) S = Inr (rev (sorted_list_of_set (ids S t n)))"
  using assms
  by (simp add: list_checkpoint_ids_def answer_simps readonly_rules checkpoint_ids_of_def sort_remdups
      set_map_filter marker_listed)

definition newest :: "bstore \<Rightarrow> string \<Rightarrow> string \<Rightarrow> string option" where
  "newest S t n = (if ids S t n = {} then None else Some (Max (ids S t n)))"

lemma hd_rev_sorted:
  assumes "finite A"
  shows "(case rev (sorted_list_of_set A) of [] \<Rightarrow> None | i # _ \<Rightarrow> Some i) = (if A = {} then None else Some (Max A))"
proof (cases "A = {}")
  case False
  then have ne: "sorted_list_of_set A \<noteq> []" using assms by simp
  have "Max A = last (sorted_list_of_set A)"
  proof (rule Max_eqI [OF assms])
    show "last (sorted_list_of_set A) \<in> A" using ne assms last_in_set by (metis set_sorted_list_of_set List.last_in_set)
    fix y assume "y \<in> A"
    then obtain k where k: "k < length (sorted_list_of_set A)" "y = sorted_list_of_set A ! k"
      using assms by (metis in_set_conv_nth set_sorted_list_of_set)
    then show "y \<le> last (sorted_list_of_set A)"
      using sorted_nth_mono [OF sorted_sorted_list_of_set, of k "length (sorted_list_of_set A) - 1" A] ne
      by (simp add: last_conv_nth)
  qed
  with False ne show ?thesis
    by (metis (no_types, lifting) hd_rev list.case_eq_if list.collapse rev_is_Nil_conv)
qed simp

lemma find_latest_answer [answer_simps]:
  assumes "well_named S"
  shows "answer (find_latest_checkpoint_id sv ideal t n) S = Inr (newest S t n)"
proof -
  have "finite (ids S t n)" using assms by (simp add: well_named_def finite_ids)
  then show ?thesis
    using assms hd_rev_sorted [of "ids S t n"]
    by (simp add: find_latest_checkpoint_id_def answer_simps readonly_rules newest_def)
qed

lemma read_latest_answer [answer_simps]:
  "answer (read_latest_checkpoint_id ideal t n) S = Inr (clean_hint S t n)"
  by (simp add: read_latest_checkpoint_id_def answer_simps readonly_rules clean_hint_def)

section \<open>The newest checkpoint\<close>

text \<open>\<open>tuple_at\<close> is what a client reads for one checkpoint id.\<close>

definition tuple_at ::
    "saver \<Rightarrow> bstore \<Rightarrow> string \<Rightarrow> string \<Rightarrow> string \<Rightarrow> pyval dict \<Rightarrow> exn + checkpoint_tuple option" where
  "tuple_at sv S t n i cfg = answer (build_tuple sv ideal t n i cfg) S"

lemma tuple_absent:
  assumes "i \<notin> ids S t n"
  shows "tuple_at sv S t n i cfg = Inr None"
proof -
  have "S (path_of (Marker t n i)) = None" using assms unfolding ids_def by blast
  then show ?thesis
  by (simp add: tuple_at_def build_tuple_def answer_simps readonly_rules typed_blob_def)
qed

definition newest_tuple :: "saver \<Rightarrow> bstore \<Rightarrow> string \<Rightarrow> string \<Rightarrow> exn + checkpoint_tuple option" where
  "newest_tuple sv S t n =
     (case newest S t n of None \<Rightarrow> Inr None | Some i \<Rightarrow> tuple_at sv S t n i (checkpoint_config t n i))"

lemma hint_newest:
  assumes "blobs_ok S" "clean_hint S t n = Some h" "h \<in> ids S t n"
  shows "newest S t n = Some h"
proof -
  have "finite (ids S t n)" using assms(1) by (simp add: blobs_ok_def well_named_def finite_ids)
  moreover have "\<forall>i\<in>ids S t n. i \<le> h" using assms(1,2) by (simp add: blobs_ok_def)
  ultimately have "Max (ids S t n) = h" using assms(3) by (intro Max_eqI) auto
  with assms(3) show ?thesis by (auto simp: newest_def)
qed

lemma bind_res_cong: "r = r' \<Longrightarrow> (\<And>x. r' = Inr x \<Longrightarrow> f x = g x) \<Longrightarrow> bind_res r f = bind_res r' g"
  by (cases r') auto

lemma get_newest:
  assumes "blobs_ok S" "config_thread_id sv config = Inr t" "config_checkpoint_ns sv config = Inr n"
    "cs_checkpoint_id sv config = Inr requested" "requested = None \<or> requested = Some []"
  shows "answer (get_tuple sv ideal config) S = newest_tuple sv S t n"
proof -
  have w: "well_named S" using assms(1) by (simp add: blobs_ok_def)
  let ?scan = "io_bind (find_latest_checkpoint_id sv ideal t n) (\<lambda>actual.
      case actual of None \<Rightarrow> io_return None | Some i \<Rightarrow> build_tuple sv ideal t n i (checkpoint_config t n i))"
  have scan: "answer ?scan S = newest_tuple sv S t n"
    using w by (simp add: answer_simps readonly_rules newest_tuple_def tuple_at_def split: option.split)
  have rs: "readonly ?scan" by (intro readonly_rules)
  have "answer (get_tuple sv ideal config) S =
      (case clean_hint S t n of None \<Rightarrow> answer ?scan S
       | Some i \<Rightarrow> bind_res (tuple_at sv S t n i (checkpoint_config t n i))
           (\<lambda>tuple. case tuple of Some tp \<Rightarrow> Inr (Some tp) | None \<Rightarrow> answer ?scan S))"
    using assms(2-5) rs
    by (auto simp: get_tuple_def answer_simps readonly_rules Let_def tuple_at_def
        intro!: bind_res_cong split: option.split)
  also have "\<dots> = newest_tuple sv S t n"
  proof (cases "clean_hint S t n")
    case None
    with scan show ?thesis by simp
  next
    case (Some h)
    show ?thesis
    proof (cases "h \<in> ids S t n")
      case True
      with Some have "newest_tuple sv S t n = tuple_at sv S t n h (checkpoint_config t n h)"
        using hint_newest [OF assms(1)] by (simp add: newest_tuple_def)
      with Some scan show ?thesis
        by (auto simp: bind_res_def split: sum.split option.split)
    next
      case False
      with Some scan show ?thesis by (simp add: tuple_absent)
    qed
  qed
  finally show ?thesis .
qed

section \<open>The pointer's two texts\<close>

lemma utf8_ascii: "list_all (\<lambda>c. (of_char c :: nat) < 128) s \<Longrightarrow> utf8_decode (map of_char s) = Some s"
  by (induction s) simp_all

lemma escape_ascii: "list_all (\<lambda>c. (of_char c :: nat) < 128) (escape_char c)"
proof -
  have "(of_char (lower_hex k) :: nat) < 128" if "k < 16" for k
  proof -
    have "k \<in> set [0..<16]" using that by simp
    moreover have "\<forall>j\<in>set [0..<16]. (of_char (lower_hex j) :: nat) < 128" by (simp add: upt_rec lower_hex_def)
    ultimately show ?thesis by blast
  qed
  moreover have "(of_char c :: nat) div 16 < 16"
    by (rule less_mult_imp_div_less) (simp add: of_char_less)
  ultimately show ?thesis by (simp add: escape_char_def Let_def)
qed

lemma string_text_ascii: "list_all (\<lambda>c. (of_char c :: nat) < 128) (string_text s)"
  using escape_ascii by (auto simp: string_text_def list_all_iff)

lemma dirty_no_hint [simp]: "parse_latest_checkpoint_id dirty_payload = None"
proof -
  have "utf8_decode (map of_char dirty_payload) = Some dirty_payload"
    by (rule utf8_ascii) (simp add: dirty_payload_def string_text_ascii)
  moreover have "loads dirty_payload = Some (PDict [(''version'', PInt 1), (''dirty'', PBool True)])"
    by code_simp
  ultimately show ?thesis by (simp add: parse_latest_checkpoint_id_def)
qed

lemma parse_members_3:
  "parse (Suc (Suc (Suc (Suc (Suc k)))))
     (''{'' @ string_text a @ '':1,'' @ string_text b @ '':false,'' @ string_text c @ '':'' @ string_text i @ ''}'') =
   Some (PDict (mk_dict [(a, PInt 1), (b, PBool False), (c, PStr i)]), [])"
  by (simp add: string_text_def parse_body_text literal_def parse_int_def parse_nat_def is_digit_def
      digits_value_def is_space_def)

lemma loads_latest:
  "loads (latest_payload i) =
     Some (PDict [(''version'', PInt 1), (''dirty'', PBool False), (''checkpoint_id'', PStr i)])"
proof -
  have "5 \<le> Suc (length (latest_payload i))" by (simp add: latest_payload_def)
  then obtain k where "Suc (length (latest_payload i)) = 5 + k" using le_iff_add by metis
  then have "Suc (length (latest_payload i)) = Suc (Suc (Suc (Suc (Suc k))))" by simp
  then have "parse (Suc (length (latest_payload i))) (latest_payload i) =
      Some (PDict (mk_dict [(''version'', PInt 1), (''dirty'', PBool False), (''checkpoint_id'', PStr i)]), [])"
    unfolding latest_payload_def by (simp only: parse_members_3)
  then show ?thesis by (simp add: loads_def mk_dict_self)
qed

lemma hint_parsed [simp]: "parse_latest_checkpoint_id (latest_payload i) = (if i = [] then None else Some i)"
proof -
  have "utf8_decode (map of_char (latest_payload i)) = Some (latest_payload i)"
    by (rule utf8_ascii) (simp add: latest_payload_def string_text_ascii)
  with loads_latest show ?thesis by (simp add: parse_latest_checkpoint_id_def)
qed

section \<open>Single changes\<close>

lemma well_named_upload: "well_named S \<Longrightarrow> well_named (S(path_of b \<mapsto> x))"
  by (auto simp: well_named_def)

lemma well_named_delete: "well_named S \<Longrightarrow> well_named (S(p := None))"
  by (auto simp: well_named_def)

lemma ids_upload [simp]:
  "ids (S(path_of b \<mapsto> x)) t n =
     (case b of Marker t' n' i \<Rightarrow> if t' = t \<and> n' = n then insert i (ids S t n) else ids S t n | _ \<Rightarrow> ids S t n)"
  by (cases b) (auto simp: ids_def)

lemma ids_delete: "ids (S(p := None)) t n \<subseteq> ids S t n"
  by (auto simp: ids_def)

lemma hint_upload [simp]:
  "clean_hint (S(path_of b \<mapsto> x)) t n =
     (case b of Latest t' n' \<Rightarrow> if t' = t \<and> n' = n then parse_latest_checkpoint_id (fst x) else clean_hint S t n
      | _ \<Rightarrow> clean_hint S t n)"
  by (cases b) (auto simp: clean_hint_def blob_text_def)

lemma hint_delete: "clean_hint (S(p := None)) t n = Some h \<Longrightarrow> clean_hint S t n = Some h"
  by (auto simp: clean_hint_def blob_text_def split: if_splits)

lemma blobs_ok_delete: "blobs_ok S \<Longrightarrow> blobs_ok (S(p := None))"
  using ids_delete hint_delete unfolding blobs_ok_def by (meson in_mono well_named_delete)

fun plain_name :: "blob_name \<Rightarrow> bool" where
  "plain_name (Latest t n) = False"
| "plain_name (Marker t n i) = False"
| "plain_name _ = True"

lemma blobs_ok_plain: "blobs_ok S \<Longrightarrow> plain_name b \<Longrightarrow> blobs_ok (S(path_of b \<mapsto> x))"
  by (cases b) (auto simp: blobs_ok_def well_named_upload)

section \<open>What \<open>put\<close> does to the blobs\<close>

lemma triple_readonly:
  assumes "readonly m" "\<And>S x. P S \<Longrightarrow> answer m S = Inr x \<Longrightarrow> Q x S"
  shows "triple I P m Q"
  unfolding triple_def
proof (intro allI impI)
  fix S h r S' h'
  assume "P S" "m (S, h) = (r, S', h')"
  moreover have "m (S, h) = (answer m S, S, h)" using assms(1) unfolding readonly_def by blast
  ultimately show "(\<exists>d. h' = h @ d \<and> (\<forall>T\<in>set d. I T)) \<and> (\<forall>x. r = Inr x \<longrightarrow> Q x S')"
    using assms(2) by auto
qed

lemma guarded_upload_ideal: "guarded_upload ideal no_check guard p x m = upload_blob ideal p x m"
  by (rule ext) (simp add: guarded_upload_def check_guard_ideal io_bind_def io_lift_def)

definition same_outside :: "blob_name set \<Rightarrow> bstore \<Rightarrow> bstore \<Rightarrow> bool" where
  "same_outside B S0 S \<longleftrightarrow> (\<forall>b. b \<notin> B \<longrightarrow> S (path_of b) = S0 (path_of b))"

lemma same_outside_refl [simp]: "same_outside B S S"
  by (simp add: same_outside_def)

lemma same_outside_upload [simp]:
  "same_outside B S0 S \<Longrightarrow> b \<in> B \<Longrightarrow> same_outside B S0 (S(path_of b \<mapsto> x))"
  by (auto simp: same_outside_def)

definition value_name :: "saver \<Rightarrow> string \<Rightarrow> string \<Rightarrow> string \<times> pyval \<Rightarrow> blob_name" where
  "value_name sv t n cv = Value t n (fst cv) (py_str (cs_text sv) (snd cv))"

definition put_names :: "saver \<Rightarrow> string \<Rightarrow> string \<Rightarrow> string \<Rightarrow> pyval dict \<Rightarrow> blob_name set" where
  "put_names sv t n i new_versions =
     {Latest t n, Metadata t n i, Marker t n i} \<union> value_name sv t n ` set new_versions"

definition value_stored :: "saver \<Rightarrow> string \<Rightarrow> string \<Rightarrow> pyval dict \<Rightarrow> bstore \<Rightarrow> string \<times> pyval \<Rightarrow> bool" where
  "value_stored sv t n values S cv \<longleftrightarrow>
     (\<exists>ty x. typed_value sv values (fst cv) = Inr (ty, x) \<and>
        S (path_of (value_name sv t n cv)) = Some (x, [(''serde_type'', ty)]))"

definition metadata_stored :: "saver \<Rightarrow> string \<Rightarrow> string \<Rightarrow> string \<Rightarrow> pyval dict \<Rightarrow> bstore \<Rightarrow> bool" where
  "metadata_stored sv t n i md S \<longleftrightarrow>
     (\<exists>ty x. cs_dumps sv (PDict md) = Inr (ty, x) \<and> S (path_of (Metadata t n i)) = Some (x, [(''serde_type'', ty)]))"

definition marker_stored ::
    "saver \<Rightarrow> string \<Rightarrow> string \<Rightarrow> string \<Rightarrow> pyval dict \<Rightarrow> string option \<Rightarrow> bstore \<Rightarrow> bool" where
  "marker_stored sv t n i checkpoint parent S \<longleftrightarrow>
     (\<exists>ty x. cs_dumps sv (PDict (AList.delete ''channel_values'' checkpoint)) = Inr (ty, x) \<and>
        S (path_of (Marker t n i)) = Some (x, marker_metadata ty parent))"

text \<open>The arguments of one \<open>put\<close>, once its configuration is read.\<close>

record put_args =
  pa_thread :: string
  pa_ns :: string
  pa_id :: string
  pa_parent :: "string option"
  pa_checkpoint :: "pyval dict"
  pa_values :: "pyval dict"
  pa_metadata :: "pyval dict"
  pa_versions :: "pyval dict"

definition put_reads :: "saver \<Rightarrow> pyval dict \<Rightarrow> pyval dict \<Rightarrow> pyval dict \<Rightarrow> pyval dict \<Rightarrow> put_args \<Rightarrow> bool" where
  "put_reads sv config checkpoint metadata new_versions a \<longleftrightarrow>
     config_thread_id sv config = Inr (pa_thread a) \<and> config_checkpoint_ns sv config = Inr (pa_ns a) \<and>
     checkpoint_id_of checkpoint = Inr (pa_id a) \<and> cs_checkpoint_id sv config = Inr (pa_parent a) \<and>
     channel_values_of checkpoint = Inr (pa_values a) \<and> pa_checkpoint a = checkpoint \<and>
     pa_metadata a = cs_metadata sv config metadata \<and> pa_versions a = new_versions"

definition put_complete :: "saver \<Rightarrow> put_args \<Rightarrow> bstore \<Rightarrow> bool" where
  "put_complete sv a S \<longleftrightarrow>
     (\<forall>cv\<in>set (pa_versions a). value_stored sv (pa_thread a) (pa_ns a) (pa_values a) S cv) \<and>
     metadata_stored sv (pa_thread a) (pa_ns a) (pa_id a) (pa_metadata a) S \<and>
     marker_stored sv (pa_thread a) (pa_ns a) (pa_id a) (pa_checkpoint a) (pa_parent a) S"

definition put_state :: "saver \<Rightarrow> put_args \<Rightarrow> bstore \<Rightarrow> bstore \<Rightarrow> bool" where
  "put_state sv a S0 S \<longleftrightarrow>
     blobs_ok S \<and> same_outside (put_names sv (pa_thread a) (pa_ns a) (pa_id a) (pa_versions a)) S0 S \<and>
     (S (path_of (Marker (pa_thread a) (pa_ns a) (pa_id a))) = S0 (path_of (Marker (pa_thread a) (pa_ns a) (pa_id a))) \<or>
      put_complete sv a S)"

text \<open>The pointer is dirty and \<open>j\<close> is no older than any checkpoint of the namespace.\<close>

definition dirty_at :: "string \<Rightarrow> string \<Rightarrow> string \<Rightarrow> bstore \<Rightarrow> bool" where
  "dirty_at t n j S \<longleftrightarrow> blobs_ok S \<and> clean_hint S t n = None \<and> (\<forall>i\<in>ids S t n. i \<le> j)"

lemma current_latest_answer:
  assumes "blobs_ok S" "answer (current_latest sv ideal t n) S = Inr cur"
  shows "\<forall>i\<in>ids S t n. i \<le> (case cur of None \<Rightarrow> [] | Some j \<Rightarrow> j)"
proof -
  have w: "well_named S" using assms(1) by (simp add: blobs_ok_def)
  have f: "finite (ids S t n)" using w by (simp add: well_named_def finite_ids)
  have new: "\<forall>i\<in>ids S t n. i \<le> (case newest S t n of None \<Rightarrow> [] | Some j \<Rightarrow> j)"
    using f by (auto simp: newest_def)
  show ?thesis
  proof (cases "clean_hint S t n")
    case None
    with assms(2) w new show ?thesis by (simp add: current_latest_def answer_simps readonly_rules)
  next
    case (Some h)
    then have "\<forall>i\<in>ids S t n. i \<le> h" using assms(1) by (simp add: blobs_ok_def)
    moreover have "cur = Some h \<or> cur = newest S t n"
      using Some assms(2) w by (cases "S (path_of (Marker t n h))")
        (simp_all add: current_latest_def answer_simps readonly_rules)
    ultimately show ?thesis using new by auto
  qed
qed

lemma current_latest_triple:
  assumes "\<And>S. P S \<Longrightarrow> blobs_ok S"
  shows "triple I P (current_latest sv ideal t n)
    (\<lambda>cur S. P S \<and> (\<forall>i\<in>ids S t n. i \<le> (case cur of None \<Rightarrow> [] | Some j \<Rightarrow> j)))"
proof (rule triple_readonly)
  show "readonly (current_latest sv ideal t n)" unfolding current_latest_def by (intro readonly_rules)
qed (use assms current_latest_answer in blast)

text \<open>The uploads of \<open>put\<close> after the pointer was made dirty.\<close>

definition put_uploads :: "saver \<Rightarrow> put_args \<Rightarrow> nat option \<Rightarrow> string \<Rightarrow> (bworld, pyval dict) io" where
  "put_uploads sv a guard j =
     (let t = pa_thread a; n = pa_ns a; i = pa_id a in
      io_then (io_each (put_value sv ideal no_check guard t n (pa_values a)) (pa_versions a))
      (io_bind (io_lift (cs_dumps sv (PDict (pa_metadata a)))) (\<lambda>(mty, mpayload).
       io_then (guarded_upload ideal no_check guard (metadata_blob_path t n i) mpayload [(''serde_type'', mty)])
      (io_bind (io_lift (cs_dumps sv (PDict (AList.delete ''channel_values'' (pa_checkpoint a))))) (\<lambda>(ty, payload).
       io_then (guarded_upload ideal no_check guard (checkpoint_blob_path t n i) payload (marker_metadata ty (pa_parent a)))
      (io_then (guarded_upload ideal no_check guard (latest_blob_path t n) (latest_payload (max j i)) [])
      (io_return (checkpoint_config t n i))))))))"

definition values_done :: "saver \<Rightarrow> put_args \<Rightarrow> bstore \<Rightarrow> string \<Rightarrow> pyval dict \<Rightarrow> bstore \<Rightarrow> bool" where
  "values_done sv a S0 j done S \<longleftrightarrow>
     dirty_at (pa_thread a) (pa_ns a) j S \<and>
     same_outside (put_names sv (pa_thread a) (pa_ns a) (pa_id a) (pa_versions a)) S0 S \<and>
     S (path_of (Marker (pa_thread a) (pa_ns a) (pa_id a))) = S0 (path_of (Marker (pa_thread a) (pa_ns a) (pa_id a))) \<and>
     (\<forall>cv\<in>set done. value_stored sv (pa_thread a) (pa_ns a) (pa_values a) S cv)"

lemma dirty_at_plain: "dirty_at t n j S \<Longrightarrow> plain_name b \<Longrightarrow> dirty_at t n j (S(path_of b \<mapsto> x))"
  by (cases b) (auto simp: dirty_at_def blobs_ok_plain)

lemma values_done_state: "values_done sv a S0 j done S \<Longrightarrow> put_state sv a S0 S"
  by (simp add: values_done_def put_state_def dirty_at_def)

lemma put_value_triple:
  assumes "pa_versions a = ys @ cv # zs" "distinct (map fst (pa_versions a))"
  shows "triple (put_state sv a S0) (values_done sv a S0 j ys)
    (put_value sv ideal no_check guard (pa_thread a) (pa_ns a) (pa_values a) cv)
    (\<lambda>_. values_done sv a S0 j (ys @ [cv]))"
proof -
  let ?b = "value_name sv (pa_thread a) (pa_ns a) cv"
  have path: "value_blob_path (pa_thread a) (pa_ns a) (fst cv) (py_str (cs_text sv) (snd cv)) = path_of ?b"
    by (simp add: value_name_def)
  have other: "value_name sv (pa_thread a) (pa_ns a) y \<noteq> ?b" if "y \<in> set ys" for y
    using assms that by (auto simp: value_name_def) (metis imageI)
  have mem: "?b \<in> put_names sv (pa_thread a) (pa_ns a) (pa_id a) (pa_versions a)" "plain_name ?b"
    "\<And>t n i. Marker t n i \<noteq> ?b"
    using assms(1) by (auto simp: put_names_def value_name_def)
  have step: "values_done sv a S0 j (ys @ [cv]) (S(path_of ?b \<mapsto> (x, [(''serde_type'', ty)])))"
    if "values_done sv a S0 j ys S" "typed_value sv (pa_values a) (fst cv) = Inr (ty, x)" for S ty x
    using that mem other dirty_at_plain by (auto simp: values_done_def value_stored_def)
  show ?thesis
    unfolding put_value_def case_prod_unfold guarded_upload_ideal path
  proof (rule triple_bind [where R = "\<lambda>p S. values_done sv a S0 j ys S \<and> typed_value sv (pa_values a) (fst cv) = Inr p"])
    show "triple (put_state sv a S0)
        (\<lambda>S. values_done sv a S0 j ys S \<and> typed_value sv (pa_values a) (fst cv) = Inr p)
        (upload_blob ideal (path_of ?b) (snd p) [(''serde_type'', fst p)]) (\<lambda>_. values_done sv a S0 j (ys @ [cv]))" for p
      by (rule triple_upload) (cases p, simp add: step values_done_state [OF step])
  qed (rule triple_lift, simp)
qed

lemma put_uploads_triple:
  assumes "distinct (map fst (pa_versions a))"
  shows "triple (put_state sv a S0) (values_done sv a S0 j []) (put_uploads sv a guard j)
    (\<lambda>cfg S. put_state sv a S0 S \<and> put_complete sv a S \<and>
       cfg = checkpoint_config (pa_thread a) (pa_ns a) (pa_id a))"
proof -
  let ?t = "pa_thread a" and ?n = "pa_ns a" and ?i = "pa_id a"
  let ?marker = "path_of (Marker ?t ?n ?i)"
  let ?done = "values_done sv a S0 j (pa_versions a)"
  let ?meta = "\<lambda>S. ?done S \<and> metadata_stored sv ?t ?n ?i (pa_metadata a) S"
  let ?mark = "\<lambda>S. put_state sv a S0 S \<and> put_complete sv a S \<and> dirty_at ?t ?n (max j ?i) S"
  have paths: "metadata_blob_path ?t ?n ?i = path_of (Metadata ?t ?n ?i)"
    "checkpoint_blob_path ?t ?n ?i = ?marker" "latest_blob_path ?t ?n = path_of (Latest ?t ?n)"
    by simp_all
  have mem: "{Latest ?t ?n, Metadata ?t ?n ?i, Marker ?t ?n ?i} \<subseteq> put_names sv ?t ?n ?i (pa_versions a)"
    by (auto simp: put_names_def)
  have vals: "value_stored sv ?t ?n (pa_values a) (S(path_of b \<mapsto> x)) cv = value_stored sv ?t ?n (pa_values a) S cv"
    if "\<forall>c v. Value ?t ?n c v \<noteq> b" for S b x cv
    using that by (simp add: value_stored_def value_name_def)
  have each: "triple (put_state sv a S0) (values_done sv a S0 j [])
      (io_each (put_value sv ideal no_check guard ?t ?n (pa_values a)) (pa_versions a)) (\<lambda>_. ?done)"
    by (rule triple_steps) (rule put_value_triple [OF _ assms])
  have meta: "?meta (S(path_of (Metadata ?t ?n ?i) \<mapsto> (x, [(''serde_type'', ty)])))"
    if "?done S" "cs_dumps sv (PDict (pa_metadata a)) = Inr (ty, x)" for S ty x
    using that mem dirty_at_plain [of ?t ?n j S "Metadata ?t ?n ?i"]
    by (simp add: values_done_def metadata_stored_def vals)
  have mark: "?mark (S(?marker \<mapsto> (x, marker_metadata ty (pa_parent a))))"
    if "?meta S" "cs_dumps sv (PDict (AList.delete ''channel_values'' (pa_checkpoint a))) = Inr (ty, x)" for S ty x
    using that mem
    by (auto simp: values_done_def put_state_def put_complete_def dirty_at_def blobs_ok_def well_named_upload
        metadata_stored_def marker_stored_def vals le_max_iff_disj)
  have publish: "put_state sv a S0 T \<and> put_complete sv a T"
    if "?mark S" "T = S(path_of (Latest ?t ?n) \<mapsto> (latest_payload (max j ?i), []))" for S T
    using that mem
    by (auto simp: put_state_def put_complete_def dirty_at_def blobs_ok_def well_named_upload
        metadata_stored_def marker_stored_def vals split: if_splits)
  have st: "put_state sv a S0 S" if "?meta S" for S using that values_done_state by blast
  show ?thesis
    unfolding put_uploads_def Let_def case_prod_unfold guarded_upload_ideal paths
    apply (rule triple_bind [OF each])
    apply (rule triple_bind [where R = "\<lambda>p S. ?done S \<and> cs_dumps sv (PDict (pa_metadata a)) = Inr p"])
     apply (rule triple_lift, simp)
    apply (rule triple_bind [where R = "\<lambda>_. ?meta"])
     apply (rule triple_upload) using meta st apply fastforce
    apply (rule triple_bind [where R = "\<lambda>p S. ?meta S \<and>
        cs_dumps sv (PDict (AList.delete ''channel_values'' (pa_checkpoint a))) = Inr p"])
     apply (rule triple_lift, simp)
    apply (rule triple_bind [where R = "\<lambda>_. ?mark"])
     apply (rule triple_upload) using mark apply fastforce
    apply (rule triple_bind [where R = "\<lambda>_ S. put_state sv a S0 S \<and> put_complete sv a S"])
     apply (rule triple_upload) using publish apply fastforce
    apply (rule triple_lift) apply simp
    done
qed

lemma io_bind_lift: "io_bind (io_lift (Inr x)) f = f x" "io_bind (io_lift (Inl e)) f = io_lift (Inl e)"
  by (rule ext, simp add: io_bind_def io_lift_def)+

lemma triple_raise: "triple I P (io_lift (Inl e)) Q"
  by (simp add: triple_def io_lift_def)

lemma triple_at: "(\<And>S0. P S0 \<Longrightarrow> triple I (\<lambda>S. S = S0) m Q) \<Longrightarrow> triple I P m Q"
  unfolding triple_def by blast

lemma dirty_upload:
  assumes "blobs_ok S"
  shows "blobs_ok (S(path_of (Latest t n) \<mapsto> (dirty_payload, [])))"
    "\<forall>i\<in>ids S t n. i \<le> j \<Longrightarrow> dirty_at t n j (S(path_of (Latest t n) \<mapsto> (dirty_payload, [])))"
  using assms by (auto simp: blobs_ok_def dirty_at_def well_named_upload)

lemma put_ideal:
  assumes "put_reads sv config checkpoint metadata new_versions a" "write_guard sv scoped config = Inr guard"
  shows "put sv ideal no_check scoped config checkpoint metadata new_versions =
    io_bind (current_latest sv ideal (pa_thread a) (pa_ns a)) (\<lambda>current.
      io_then (guarded_upload ideal no_check guard (latest_blob_path (pa_thread a) (pa_ns a)) dirty_payload [])
        (put_uploads sv a guard (case current of None \<Rightarrow> [] | Some j \<Rightarrow> j)))"
  using assms by (simp add: put_reads_def put_def put_uploads_def io_bind_lift case_prod_unfold Let_def)

text \<open>
  Started with blobs \<open>S0\<close>, \<open>put\<close> only touches its own names; the marker of the checkpoint appears
  when everything it needs is stored, and not before.
\<close>

lemma put_triple:
  assumes "put_reads sv config checkpoint metadata new_versions a" "dict_ok new_versions" "blobs_ok S0"
  shows "triple (put_state sv a S0) (\<lambda>S. S = S0)
    (put sv ideal no_check scoped config checkpoint metadata new_versions)
    (\<lambda>cfg S. put_state sv a S0 S \<and> put_complete sv a S \<and>
       cfg = checkpoint_config (pa_thread a) (pa_ns a) (pa_id a))"
proof (cases "write_guard sv scoped config")
  case (Inl e)
  then show ?thesis by (simp add: put_def io_bind_lift triple_raise)
next
  case (Inr guard)
  let ?t = "pa_thread a" and ?n = "pa_ns a"
  let ?cur = "\<lambda>cur. case cur of None \<Rightarrow> [] | Some j \<Rightarrow> j"
  have d: "distinct (map fst (pa_versions a))" using assms(1,2) by (simp add: put_reads_def dict_ok_def)
  have path: "latest_blob_path ?t ?n = path_of (Latest ?t ?n)" by simp
  have dirtied: "values_done sv a S0 (?cur cur) [] (S0(path_of (Latest ?t ?n) \<mapsto> (dirty_payload, [])))"
    if "\<forall>i\<in>ids S0 ?t ?n. i \<le> ?cur cur" for cur
    using that dirty_upload [OF assms(3)] by (simp add: values_done_def put_names_def)
  show ?thesis
    unfolding put_ideal [OF assms(1) Inr] guarded_upload_ideal path
  proof (rule triple_bind [OF current_latest_triple])
    show "triple (put_state sv a S0) (\<lambda>S. S = S0 \<and> (\<forall>i\<in>ids S ?t ?n. i \<le> ?cur cur))
        (io_then (upload_blob ideal (path_of (Latest ?t ?n)) dirty_payload []) (put_uploads sv a guard (?cur cur)))
        (\<lambda>cfg S. put_state sv a S0 S \<and> put_complete sv a S \<and> cfg = checkpoint_config ?t ?n (pa_id a))" for cur
      by (rule triple_bind [OF triple_upload put_uploads_triple [OF d, where j = "?cur cur"]])
        (use dirtied values_done_state [OF dirtied] in blast)
  qed (use assms(3) in simp)
qed

lemma put_keeps_blobs:
  assumes "dict_ok new_versions"
  shows "triple blobs_ok blobs_ok (put sv ideal no_check scoped config checkpoint metadata new_versions) (\<lambda>_. blobs_ok)"
proof (rule triple_at)
  fix S0 assume ok: "blobs_ok S0"
  let ?put = "put sv ideal no_check scoped config checkpoint metadata new_versions"
  show "triple blobs_ok (\<lambda>S. S = S0) ?put (\<lambda>_. blobs_ok)"
  proof (cases "\<exists>a. put_reads sv config checkpoint metadata new_versions a")
    case True
    then obtain a where "put_reads sv config checkpoint metadata new_versions a" by blast
    from put_triple [OF this assms ok]
    have "triple (put_state sv a S0) (\<lambda>S. S = S0) ?put (\<lambda>_. blobs_ok)"
      by (rule triple_post) (simp add: put_state_def)
    then show ?thesis by (rule triple_crash) (simp add: put_state_def)
  next
    case False
    show ?thesis
    proof (cases "\<exists>guard t n i parent. write_guard sv scoped config = Inr guard \<and> config_thread_id sv config = Inr t \<and>
        config_checkpoint_ns sv config = Inr n \<and> checkpoint_id_of checkpoint = Inr i \<and>
        cs_checkpoint_id sv config = Inr parent")
      case True
      then obtain guard t n i parent where eqs: "write_guard sv scoped config = Inr guard"
        "config_thread_id sv config = Inr t" "config_checkpoint_ns sv config = Inr n"
        "checkpoint_id_of checkpoint = Inr i" "cs_checkpoint_id sv config = Inr parent" by blast
      have "\<exists>e. channel_values_of checkpoint = Inl e"
      proof (cases "channel_values_of checkpoint")
        case (Inr vs)
        with eqs have "put_reads sv config checkpoint metadata new_versions \<lparr>pa_thread = t, pa_ns = n, pa_id = i,
            pa_parent = parent, pa_checkpoint = checkpoint, pa_values = vs,
            pa_metadata = cs_metadata sv config metadata, pa_versions = new_versions\<rparr>"
          by (simp add: put_reads_def)
        with False show ?thesis by blast
      qed simp
      then obtain e where "channel_values_of checkpoint = Inl e" ..
      with eqs have put: "?put = io_bind (current_latest sv ideal t n) (\<lambda>current.
          io_then (upload_blob ideal (path_of (Latest t n)) dirty_payload []) (io_lift (Inl e)))"
        by (simp add: put_def io_bind_lift guarded_upload_ideal)
      show ?thesis
        unfolding put
        by (rule triple_bind [OF current_latest_triple], use ok in simp,
            rule triple_bind [OF triple_upload triple_raise])
          (use ok dirty_upload in auto)
    next
      case False
      then have "\<exists>e. ?put = io_lift (Inl e)"
        by (cases "write_guard sv scoped config"; cases "config_thread_id sv config";
            cases "config_checkpoint_ns sv config"; cases "checkpoint_id_of checkpoint"; cases "cs_checkpoint_id sv config")
          (auto simp: put_def io_bind_lift)
      then show ?thesis by (auto simp: triple_raise)
    qed
  qed
qed

section \<open>The other writing operations keep the condition\<close>

text \<open>\<open>keeps m\<close>: \<open>blobs_ok\<close> holds at every step of \<open>m\<close> and after it.\<close>

abbreviation keeps_blobs :: "(bworld, 'a) io \<Rightarrow> bool" where
  "keeps_blobs m \<equiv> triple blobs_ok blobs_ok m (\<lambda>_. blobs_ok)"

lemma keeps_readonly: "readonly m \<Longrightarrow> keeps_blobs m"
  by (rule triple_readonly)

lemma keeps_delete: "keeps_blobs (ct_delete ideal p)"
  by (rule triple_delete) (simp add: blobs_ok_delete)

lemma failed_delete_same: "ct_delete ideal p (S, h) = (r, S', h') \<Longrightarrow> isl r \<Longrightarrow> S' = S"
  by (auto simp: ideal_def split: option.splits)

lemma keeps_catch_delete: "keeps_blobs (io_catch (ct_delete ideal p) (io_return ()))"
  by (rule triple_catch [OF keeps_delete]) (auto intro: failed_delete_same triple_lift)

lemma keeps_delete_thread: "keeps_blobs (delete_thread ideal t)"
  unfolding delete_thread_def
  by (intro triple_bind [OF keeps_readonly] readonly_rules triple_each keeps_delete)

lemma keeps_delete_checkpoint: "keeps_blobs (delete_checkpoint_blobs ideal t n i)"
  unfolding delete_checkpoint_blobs_def
  by (intro triple_bind [OF keeps_readonly] readonly_rules triple_each keeps_catch_delete)

lemma keeps_delete_ids: "keeps_blobs (delete_ids ideal t n is k)"
  by (induction "is" arbitrary: k)
    (auto intro: triple_lift triple_bind [OF keeps_delete_checkpoint])

lemma keeps_prune: "keeps_blobs (prune sv ideal t chosen ns k)"
  by (induction ns arbitrary: k)
    (auto intro!: triple_lift triple_bind [OF keeps_readonly] triple_bind [OF keeps_delete_ids] readonly_rules)

lemma readonly_namespaces [readonly_rules]: "readonly (namespaces_or sv ideal t ns)"
  unfolding namespaces_or_def list_checkpoint_namespaces_def by (intro readonly_rules)

lemma keeps_retention:
  "keeps_blobs (delete_checkpoints_before sv ideal t before ns)"
  "keeps_blobs (delete_old_checkpoints sv ideal t keep_last ns)"
proof -
  show "keeps_blobs (delete_checkpoints_before sv ideal t before ns)"
    unfolding delete_checkpoints_before_def
    by (intro triple_bind [OF keeps_readonly] readonly_rules keeps_prune)
  have "keeps_blobs (io_bind (namespaces_or sv ideal t ns) (\<lambda>namespaces. prune sv ideal t f namespaces 0))" for f
    by (intro triple_bind [OF keeps_readonly] readonly_rules keeps_prune)
  then show "keeps_blobs (delete_old_checkpoints sv ideal t keep_last ns)"
    by (simp add: delete_old_checkpoints_def triple_raise)
qed

lemma keeps_put_write: "keeps_blobs (put_write sv ideal no_check guard t n i task path kv)"
proof -
  have "keeps_blobs (upload_blob ideal (write_blob_path t n i task idx) x m)" for idx x m
    by (rule triple_upload) (simp add: blobs_ok_plain)
  then show ?thesis
    unfolding put_write_def Let_def case_prod_unfold guarded_upload_ideal
    by (auto intro!: triple_bind [OF keeps_readonly] readonly_rules triple_lift)
qed

lemma keeps_put_writes: "keeps_blobs (put_writes sv ideal no_check scoped config writes task path)"
proof -
  have "keeps_blobs (io_each (put_write sv ideal no_check guard t n i task path) kvs)" for guard t n i kvs
    by (rule triple_each) (rule keeps_put_write)
  then show ?thesis
    unfolding put_writes_def
    by (auto intro!: triple_bind [OF keeps_readonly] readonly_rules triple_raise split: option.split)
qed

end
