(* ===== verification/Checkpoint_Tuple.thy ===== *)
theory Checkpoint_Tuple
  imports Checkpoint_Store
begin

text \<open>
  What a checkpoint read back depends on: its marker, its metadata, its writes and the channel
  values its versions name. From this follow the guarantees of \<open>put\<close>: a checkpoint reads back as
  it was written, other checkpoints do not change, and a write that is cut short at any call
  leaves the checkpoint either absent or whole.
\<close>

section \<open>The answer of a load\<close>

fun res_collect :: "('b \<Rightarrow> exn + 'a option) \<Rightarrow> 'b list \<Rightarrow> exn + 'a list" where
  "res_collect f [] = Inr []"
| "res_collect f (x # xs) =
     bind_res (f x) (\<lambda>y. bind_res (res_collect f xs) (\<lambda>ys. Inr (case y of None \<Rightarrow> ys | Some z \<Rightarrow> z # ys)))"

lemma answer_collect [answer_simps]:
  "(\<And>x. readonly (f x)) \<Longrightarrow> answer (io_collect f xs) S = res_collect (\<lambda>x. answer (f x) S) xs"
  by (induction xs) (simp_all add: answer_simps readonly_rules)

lemma res_collect_cong: "(\<And>x. x \<in> set xs \<Longrightarrow> f x = g x) \<Longrightarrow> res_collect f xs = res_collect g xs"
  by (induction xs) auto

definition channel_value :: "saver \<Rightarrow> bstore \<Rightarrow> string \<Rightarrow> string \<Rightarrow> string \<times> pyval \<Rightarrow> exn + (string \<times> pyval) option" where
  "channel_value sv S t n cv =
     (case typed_blob S (path_of (value_name sv t n cv)) of
        None \<Rightarrow> Inr None
      | Some (ty, x, _) \<Rightarrow>
          (if ty = ''empty'' then Inr None else bind_res (cs_loads sv (ty, x)) (\<lambda>v. Inr (Some (fst cv, v)))))"

definition pending_writes :: "saver \<Rightarrow> bstore \<Rightarrow> string \<Rightarrow> string \<Rightarrow> string \<Rightarrow> exn + (string \<times> string \<times> pyval) list" where
  "pending_writes sv S t n i = answer (load_pending_writes sv ideal t n i) S"

definition versions_of :: "saver \<Rightarrow> string \<Rightarrow> string \<Rightarrow> exn + pyval \<times> pyval dict" where
  "versions_of sv ty x =
     bind_res (cs_loads sv (ty, x)) (\<lambda>data. bind_res (item_of data ''channel_versions'') (\<lambda>v.
       bind_res (items_of v) (\<lambda>vs. Inr (data, vs))))"

lemma answer_option [answer_simps]:
  "answer (case x of None \<Rightarrow> f | Some y \<Rightarrow> g y) S = (case x of None \<Rightarrow> answer f S | Some y \<Rightarrow> answer (g y) S)"
  by (cases x) auto

lemma answer_if [answer_simps]: "answer (if b then f else g) S = (if b then answer f S else answer g S)"
  by simp

lemma load_value_answer: "answer (load_channel_value sv ideal t n cv) S = channel_value sv S t n cv"
  by (cases cv) (auto simp: load_channel_value_def channel_value_def answer_simps readonly_rules value_name_def
      split: option.split)

lemma readonly_pending [readonly_rules]: "readonly (load_pending_writes sv ideal t n i)"
  unfolding load_pending_writes_def Let_def by (intro readonly_rules)

lemma tuple_at_eq:
  "tuple_at sv S t n i cfg =
     (case typed_blob S (path_of (Marker t n i)) of
        None \<Rightarrow> Inr None
      | Some (ty, x, meta) \<Rightarrow>
          bind_res (versions_of sv ty x) (\<lambda>(data, vs).
          bind_res (res_collect (channel_value sv S t n) vs) (\<lambda>vals.
            case typed_blob S (path_of (Metadata t n i)) of
              None \<Rightarrow> Inr None
            | Some (mty, mx, _) \<Rightarrow>
                bind_res (cs_loads sv (mty, mx)) (\<lambda>metadata.
                bind_res (pending_writes sv S t n i) (\<lambda>pending.
                bind_res (items_of data) (\<lambda>fields.
                  Inr (Some
                    \<lparr>tp_config = cfg, tp_checkpoint = AList.update ''channel_values'' (PDict vals) fields,
                     tp_metadata = metadata,
                     tp_parent = (case parent_of sv meta of None \<Rightarrow> None
                       | Some p \<Rightarrow> if p = [] then None else Some (checkpoint_config t n p)),
                     tp_writes = pending\<rparr>)))))))"
proof -
  have collect: "answer (load_channel_values sv ideal t n vs) S = res_collect (channel_value sv S t n) vs" for vs
    unfolding load_channel_values_def by (simp add: answer_simps readonly_rules load_value_answer)
  have ro: "readonly (load_channel_values sv ideal t n vs)" for vs
    unfolding load_channel_values_def by (intro readonly_rules)
  have assoc: "bind_res (bind_res r f) g = bind_res r (\<lambda>x. bind_res (f x) g)" for r :: "exn + 'x" and f g
    by (cases r) auto
  show ?thesis
    unfolding tuple_at_def build_tuple_def versions_of_def case_prod_unfold
    by (simp add: answer_simps readonly_rules collect ro assoc pending_writes_def case_prod_unfold
        cong: option.case_cong bind_res_cong)
qed

section \<open>Locality\<close>

text \<open>The channel versions that the marker of a stored checkpoint names, as the value blobs carry them.\<close>

definition referenced :: "saver \<Rightarrow> bstore \<Rightarrow> string \<Rightarrow> string \<Rightarrow> string \<Rightarrow> (string \<times> string) set" where
  "referenced sv S t n i =
     (case typed_blob S (path_of (Marker t n i)) of
        None \<Rightarrow> {}
      | Some (ty, x, _) \<Rightarrow>
          (case versions_of sv ty x of
             Inl _ \<Rightarrow> {} | Inr (_, vs) \<Rightarrow> (\<lambda>cv. (fst cv, py_str (cs_text sv) (snd cv))) ` set vs))"

lemma typed_blob_cong: "S p = S' p \<Longrightarrow> typed_blob S p = typed_blob S' p"
  by (simp add: typed_blob_def)

lemma channel_value_cong:
  "S (path_of (value_name sv t n cv)) = S' (path_of (value_name sv t n cv)) \<Longrightarrow>
     channel_value sv S t n cv = channel_value sv S' t n cv"
  by (simp add: channel_value_def typed_blob_def)

lemma listing_cong: "(\<And>p. prefix pre p \<Longrightarrow> S p = S' p) \<Longrightarrow> listing S pre = listing S' pre"
proof -
  assume "\<And>p. prefix pre p \<Longrightarrow> S p = S' p"
  then have "{p \<in> dom S. prefix pre p} = {p \<in> dom S'. prefix pre p}" by (auto simp: domIff)
  then show ?thesis by (simp add: listing_def)
qed

lemma pending_answer:
  "pending_writes sv S t n i =
     bind_res (res_collect (\<lambda>p. answer (load_pending_write sv ideal (writes_prefix t n i) p) S)
        (listing S (writes_prefix t n i)))
       (\<lambda>loaded. Inr (map (\<lambda>(path, task, idx, channel, v). (task, channel, v)) (sort_key write_key loaded)))"
  by (simp add: pending_writes_def load_pending_writes_def Let_def answer_simps readonly_rules)

lemma pending_write_cong:
  "S p = S' p \<Longrightarrow> answer (load_pending_write sv ideal pre p) S = answer (load_pending_write sv ideal pre p) S'"
proof -
  assume "S p = S' p"
  then have "typed_blob S p = typed_blob S' p" by (rule typed_blob_cong)
  then show ?thesis
    by (auto simp: load_pending_write_def answer_simps readonly_rules Let_def split: option.split)
qed

lemma pending_cong:
  assumes "\<And>p. prefix (writes_prefix t n i) p \<Longrightarrow> S p = S' p"
  shows "pending_writes sv S t n i = pending_writes sv S' t n i"
proof -
  let ?f = "\<lambda>S p. answer (load_pending_write sv ideal (writes_prefix t n i) p) S"
  have same: "listing S (writes_prefix t n i) = listing S' (writes_prefix t n i)"
    by (rule listing_cong [OF assms])
  have sub: "prefix (writes_prefix t n i) p" if "p \<in> set (listing S' (writes_prefix t n i))" for p
    using that by (cases "finite {q \<in> dom S'. prefix (writes_prefix t n i) q}") (auto simp: listing_def)
  have "res_collect (?f S) (listing S' (writes_prefix t n i)) = res_collect (?f S') (listing S' (writes_prefix t n i))"
    by (rule res_collect_cong) (rule pending_write_cong [OF assms [OF sub]])
  with same show ?thesis by (simp add: pending_answer)
qed

lemma tuple_local:
  assumes "S (path_of (Marker t n i)) = S' (path_of (Marker t n i))"
    and "S (path_of (Metadata t n i)) = S' (path_of (Metadata t n i))"
    and "\<And>p. prefix (writes_prefix t n i) p \<Longrightarrow> S p = S' p"
    and "\<And>c v. (c, v) \<in> referenced sv S' t n i \<Longrightarrow> S (path_of (Value t n c v)) = S' (path_of (Value t n c v))"
  shows "tuple_at sv S t n i cfg = tuple_at sv S' t n i cfg"
proof (cases "typed_blob S' (path_of (Marker t n i))")
  case None
  with typed_blob_cong [where S = S and S' = S', OF assms(1)] show ?thesis by (simp add: tuple_at_eq)
next
  case (Some b)
  obtain ty x meta where b: "b = (ty, x, meta)" by (metis prod_cases3)
  have marker: "typed_blob S (path_of (Marker t n i)) = Some (ty, x, meta)"
    using Some b typed_blob_cong [where S = S and S' = S', OF assms(1)] by simp
  have md: "typed_blob S (path_of (Metadata t n i)) = typed_blob S' (path_of (Metadata t n i))"
    by (rule typed_blob_cong) (rule assms(2))
  have pend: "pending_writes sv S t n i = pending_writes sv S' t n i" by (rule pending_cong [OF assms(3)])
  have vals: "res_collect (channel_value sv S t n) vs = res_collect (channel_value sv S' t n) vs"
    if "versions_of sv ty x = Inr (data, vs)" for data vs
  proof (rule res_collect_cong, rule channel_value_cong)
    fix cv assume "cv \<in> set vs"
    then have "(fst cv, py_str (cs_text sv) (snd cv)) \<in> referenced sv S' t n i"
      using Some b that by (auto simp: referenced_def)
    then show "S (path_of (value_name sv t n cv)) = S' (path_of (value_name sv t n cv))"
      unfolding value_name_def by (rule assms(4))
  qed
  show ?thesis
    unfolding tuple_at_eq Some b marker md pend option.case prod.case
  proof (rule bind_res_cong [OF refl], goal_cases)
    case (1 r)
    then show ?case using vals by (cases r) simp
  qed
qed

lemma writes_agree:
  assumes "well_named S" "well_named S'" "\<And>task idx. S (path_of (Write t n i task idx)) = S' (path_of (Write t n i task idx))"
    and "prefix (writes_prefix t n i) p"
  shows "S p = S' p"
proof (cases "\<exists>b. p = path_of b")
  case True
  with assms(3,4) show ?thesis by auto
next
  case False
  have "prefix ''threads/'' p" by (rule prefix_threads(3) [OF assms(4)])
  with False assms(1,2) have "p \<notin> dom S" "p \<notin> dom S'" unfolding well_named_def by blast+
  then show ?thesis by (metis domIff)
qed

section \<open>What \<open>put\<close> changes\<close>

definition fresh_versions :: "saver \<Rightarrow> put_args \<Rightarrow> bstore \<Rightarrow> bool" where
  "fresh_versions sv a S \<longleftrightarrow>
     pa_id a \<notin> ids S (pa_thread a) (pa_ns a) \<and>
     (\<forall>j. \<forall>cv\<in>set (pa_versions a).
        (fst cv, py_str (cs_text sv) (snd cv)) \<notin> referenced sv S (pa_thread a) (pa_ns a) j)"

lemma put_others:
  assumes "put_state sv a S0 S" "blobs_ok S0" "fresh_versions sv a S0"
    and "(t, n, j) \<noteq> (pa_thread a, pa_ns a, pa_id a)"
  shows "tuple_at sv S t n j cfg = tuple_at sv S0 t n j cfg"
proof (rule tuple_local)
  let ?B = "put_names sv (pa_thread a) (pa_ns a) (pa_id a) (pa_versions a)"
  have same: "S (path_of b) = S0 (path_of b)" if "b \<notin> ?B" for b
    using assms(1) that by (simp add: put_state_def same_outside_def)
  have w: "well_named S" "well_named S0" using assms(1,2) by (simp_all add: put_state_def blobs_ok_def)
  show "S (path_of (Marker t n j)) = S0 (path_of (Marker t n j))"
    "S (path_of (Metadata t n j)) = S0 (path_of (Metadata t n j))"
    using assms(4) by (auto intro!: same simp: put_names_def value_name_def)
  have "S (path_of (Write t n j task idx)) = S0 (path_of (Write t n j task idx))" for task idx
    by (rule same) (auto simp: put_names_def value_name_def)
  then show "S p = S0 p" if "prefix (writes_prefix t n j) p" for p
    using writes_agree [OF w _ that] by blast
  fix c v assume "(c, v) \<in> referenced sv S0 t n j"
  with assms(3) show "S (path_of (Value t n c v)) = S0 (path_of (Value t n c v))"
    by (intro same) (auto simp: put_names_def value_name_def fresh_versions_def)
qed

lemma put_atomic:
  assumes "put_state sv a S0 S" "fresh_versions sv a S0"
  shows "tuple_at sv S (pa_thread a) (pa_ns a) (pa_id a) cfg = Inr None \<or> put_complete sv a S"
proof (cases "put_complete sv a S")
  case False
  then have "S (path_of (Marker (pa_thread a) (pa_ns a) (pa_id a))) = S0 (path_of (Marker (pa_thread a) (pa_ns a) (pa_id a)))"
    using assms(1) by (simp add: put_state_def)
  then have "pa_id a \<notin> ids S (pa_thread a) (pa_ns a)"
    using assms(2) by (auto simp: fresh_versions_def ids_def)
  then show ?thesis by (simp add: tuple_absent)
qed simp

text \<open>A serializer that reads back what it wrote; \<open>empty\<close> is the saver's own type.\<close>

definition serde_ok :: "saver \<Rightarrow> bool" where
  "serde_ok sv \<longleftrightarrow>
     (\<forall>v ty x. cs_dumps sv v = Inr (ty, x) \<longrightarrow> ty \<noteq> [] \<and> ty \<noteq> ''empty'' \<and> cs_loads sv (ty, x) = Inr v)"

lemma serde_blob:
  "serde_ok sv \<Longrightarrow> cs_dumps sv v = Inr (ty, x) \<Longrightarrow> S p = Some (x, (''serde_type'', ty) # m) \<Longrightarrow>
     typed_blob S p = Some (ty, x, (''serde_type'', ty) # m) \<and> cs_loads sv (ty, x) = Inr v \<and> ty \<noteq> ''empty''"
  by (simp add: serde_ok_def typed_blob_def)

lemma stored_value:
  assumes "serde_ok sv" "value_stored sv t n vs S cv"
  shows "channel_value sv S t n cv = Inr (map_option (Pair (fst cv)) (map_of vs (fst cv)))"
proof -
  obtain ty x where v: "typed_value sv vs (fst cv) = Inr (ty, x)"
    "S (path_of (value_name sv t n cv)) = Some (x, [(''serde_type'', ty)])"
    using assms(2) by (auto simp: value_stored_def)
  show ?thesis
  proof (cases "map_of vs (fst cv)")
    case None
    with v show ?thesis by (simp add: channel_value_def typed_value_def typed_blob_def)
  next
    case (Some y)
    with v(1) have d: "cs_dumps sv y = Inr (ty, x)" by (simp add: typed_value_def)
    from serde_blob [where S = S, OF assms(1) d v(2)] Some show ?thesis by (simp add: channel_value_def)
  qed
qed

lemma collect_lookup:
  assumes "distinct (map fst vs)" "\<And>cv. cv \<in> set vs \<Longrightarrow> f cv = Inr (map_option (Pair (fst cv)) (g cv))"
  shows "\<exists>ys. res_collect f vs = Inr ys \<and> (\<forall>cv\<in>set vs. map_of ys (fst cv) = g cv) \<and> fst ` set ys \<subseteq> fst ` set vs"
  using assms
proof (induction vs)
  case (Cons cv vs)
  then obtain ys where ys: "res_collect f vs = Inr ys" "\<forall>cv\<in>set vs. map_of ys (fst cv) = g cv"
    "fst ` set ys \<subseteq> fst ` set vs"
    by auto
  have new: "fst cv \<notin> fst ` set ys" using Cons.prems(1) ys(3) by auto
  then have "map_of ys (fst cv) = None" by (simp add: map_of_eq_None_iff)
  with ys Cons.prems new show ?case
    by (cases "g cv") (auto simp: image_iff)
qed simp

lemma quote_nil [simp]: "quote p = [] \<longleftrightarrow> p = []"
  using quote_inject [of p "[]"] by (simp add: quote_def)

lemma parent_marker: "parent_of sv (marker_metadata ty parent) = (case parent of None \<Rightarrow> None | Some p \<Rightarrow> if p = [] then None else Some p)"
  by (cases parent) (simp_all add: parent_of_def marker_metadata_def)

definition parent_config :: "put_args \<Rightarrow> pyval dict option" where
  "parent_config a =
     (case pa_parent a of None \<Rightarrow> None
      | Some p \<Rightarrow> if p = [] then None else Some (checkpoint_config (pa_thread a) (pa_ns a) p))"

text \<open>\<open>old\<close> gives the values of the channels this write did not touch.\<close>

lemma complete_tuple:
  assumes "serde_ok sv" "put_complete sv a S"
    and "map_of (pa_checkpoint a) ''channel_versions'' = Some (PDict vs)" "distinct (map fst vs)"
    and "\<And>cv. cv \<in> set vs \<Longrightarrow> cv \<notin> set (pa_versions a) \<Longrightarrow>
      channel_value sv S (pa_thread a) (pa_ns a) cv = Inr (map_option (Pair (fst cv)) (old cv))"
    and "pending_writes sv S (pa_thread a) (pa_ns a) (pa_id a) = Inr ps"
  shows "\<exists>vals. tuple_at sv S (pa_thread a) (pa_ns a) (pa_id a) cfg =
      Inr (Some \<lparr>tp_config = cfg,
        tp_checkpoint = AList.update ''channel_values'' (PDict vals) (AList.delete ''channel_values'' (pa_checkpoint a)),
        tp_metadata = PDict (pa_metadata a), tp_parent = parent_config a, tp_writes = ps\<rparr>) \<and>
    (\<forall>cv\<in>set vs. map_of vals (fst cv) =
       (if cv \<in> set (pa_versions a) then map_of (pa_values a) (fst cv) else old cv))"
proof -
  let ?t = "pa_thread a" and ?n = "pa_ns a" and ?i = "pa_id a"
  let ?data = "AList.delete ''channel_values'' (pa_checkpoint a)"
  let ?g = "\<lambda>cv. if cv \<in> set (pa_versions a) then map_of (pa_values a) (fst cv) else old cv"
  obtain ty x where d: "cs_dumps sv (PDict ?data) = Inr (ty, x)"
    and m: "S (path_of (Marker ?t ?n ?i)) = Some (x, marker_metadata ty (pa_parent a))"
    using assms(2) by (auto simp: put_complete_def marker_stored_def)
  have marker: "typed_blob S (path_of (Marker ?t ?n ?i)) = Some (ty, x, marker_metadata ty (pa_parent a))"
    "cs_loads sv (ty, x) = Inr (PDict ?data)"
    using serde_blob [where S = S, OF assms(1) d m [unfolded marker_metadata_def]] by (simp_all add: marker_metadata_def)
  then have vs: "versions_of sv ty x = Inr (PDict ?data, vs)"
    using assms(3) by (simp add: versions_of_def item_of_def items_of_def)
  obtain mty mx where md: "cs_dumps sv (PDict (pa_metadata a)) = Inr (mty, mx)"
    "S (path_of (Metadata ?t ?n ?i)) = Some (mx, [(''serde_type'', mty)])"
    using assms(2) by (auto simp: put_complete_def metadata_stored_def)
  have meta: "typed_blob S (path_of (Metadata ?t ?n ?i)) = Some (mty, mx, [(''serde_type'', mty)])"
    "cs_loads sv (mty, mx) = Inr (PDict (pa_metadata a))"
    using serde_blob [where S = S, OF assms(1) md] by simp_all
  have val: "channel_value sv S ?t ?n cv = Inr (map_option (Pair (fst cv)) (?g cv))" if "cv \<in> set vs" for cv
    using that assms(2,5) stored_value [OF assms(1)] by (simp add: put_complete_def)
  obtain vals where vals: "res_collect (channel_value sv S ?t ?n) vs = Inr vals"
    "\<forall>cv\<in>set vs. map_of vals (fst cv) = ?g cv"
    using collect_lookup [where g = ?g, OF assms(4) val] by blast
  have "tuple_at sv S ?t ?n ?i cfg =
      Inr (Some \<lparr>tp_config = cfg, tp_checkpoint = AList.update ''channel_values'' (PDict vals) ?data,
        tp_metadata = PDict (pa_metadata a), tp_parent = parent_config a, tp_writes = ps\<rparr>)"
    unfolding tuple_at_eq marker(1) meta(1) option.case prod.case vs bind_res_simps vals(1) meta(2) assms(6)
    by (cases "pa_parent a") (simp_all add: items_of_def parent_marker parent_config_def)
  with vals(2) show ?thesis by blast
qed

lemma channel_value_shape:
  assumes "channel_value sv S t n cv = Inr y"
  obtains z where "y = map_option (Pair (fst cv)) z"
proof -
  have "y = None \<or> (\<exists>v. y = Some (fst cv, v))"
    using assms by (auto simp: channel_value_def bind_res_def split: option.splits if_splits sum.splits)
  then show thesis using that [of None] that [of "Some v" for v] by auto
qed

section \<open>Operations that return\<close>

definition returns :: "(bworld, 'a) io \<Rightarrow> bool" where
  "returns m \<longleftrightarrow> (\<forall>S h. \<exists>x w. m (S, h) = (Inr x, w))"

named_theorems returns_rules "operations that never raise on the ideal container"

lemma returns_lift [returns_rules]: "returns (io_return x)"
  by (simp add: returns_def io_lift_def)

lemma returns_bind [returns_rules]:
  assumes "returns m" "\<And>x. returns (f x)"
  shows "returns (io_bind m f)"
  unfolding returns_def
proof (intro allI)
  fix S h
  obtain x S' h' where "m (S, h) = (Inr x, S', h')" using assms(1) unfolding returns_def by (metis prod.exhaust)
  moreover obtain y w where "f x (S', h') = (Inr y, w)" using assms(2) unfolding returns_def by metis
  ultimately show "\<exists>x w. io_bind m f (S, h) = (Inr x, w)" by (simp add: io_bind_def)
qed

lemma returns_option [returns_rules]:
  "returns f \<Longrightarrow> (\<And>y. returns (g y)) \<Longrightarrow> returns (case x of None \<Rightarrow> f | Some y \<Rightarrow> g y)"
  by (cases x) auto

lemma returns_list [returns_rules]:
  "returns f \<Longrightarrow> (\<And>y ys. returns (g y ys)) \<Longrightarrow> returns (case x of [] \<Rightarrow> f | y # ys \<Rightarrow> g y ys)"
  by (cases x) auto

lemma returns_if [returns_rules]: "returns f \<Longrightarrow> returns g \<Longrightarrow> returns (if b then f else g)"
  by simp

lemma returns_calls [returns_rules]:
  "returns (upload_blob ideal p x m)" "returns (download_blob ideal p)" "returns (blob_exists ideal p)"
  "returns (list_names ideal p)"
proof -
  show "returns (upload_blob ideal p x m)" by (simp add: returns_def upload_blob_def ideal_def)
  show "returns (download_blob ideal p)" "returns (blob_exists ideal p)" "returns (list_names ideal p)"
    using reads_calls by (simp_all add: returns_def reads_def)
qed

lemma returns_each [returns_rules]: "(\<And>x. x \<in> set xs \<Longrightarrow> returns (f x)) \<Longrightarrow> returns (io_each f xs)"
  by (induction xs) (auto intro!: returns_rules)

lemma put_returns:
  assumes "put_reads sv config checkpoint metadata new_versions a" "write_guard sv scoped config = Inr guard"
    and "\<not> isl (cs_dumps sv (PDict (pa_metadata a)))"
    and "\<not> isl (cs_dumps sv (PDict (AList.delete ''channel_values'' checkpoint)))"
    and "\<forall>cv\<in>set new_versions. \<not> isl (typed_value sv (pa_values a) (fst cv))"
  shows "returns (put sv ideal no_check scoped config checkpoint metadata new_versions)"
proof -
  have v: "pa_versions a = new_versions" "pa_checkpoint a = checkpoint" using assms(1) by (simp_all add: put_reads_def)
  obtain p q where d: "cs_dumps sv (PDict (pa_metadata a)) = Inr p"
    "cs_dumps sv (PDict (AList.delete ''channel_values'' checkpoint)) = Inr q"
    using not_isl_Inr [OF assms(3)] not_isl_Inr [OF assms(4)] by blast
  have putv: "returns (put_value sv ideal no_check guard t n (pa_values a) cv)" if "cv \<in> set new_versions" for t n cv
  proof -
    have "\<not> isl (typed_value sv (pa_values a) (fst cv))" using assms(5) that by simp
    from not_isl_Inr [OF this] obtain y where y: "typed_value sv (pa_values a) (fst cv) = Inr y" ..
    show ?thesis
      unfolding put_value_def case_prod_unfold y io_bind_lift guarded_upload_ideal by (rule returns_calls)
  qed
  show ?thesis
    unfolding put_ideal [OF assms(1,2)] put_uploads_def Let_def v d io_bind_lift case_prod_unfold guarded_upload_ideal
      current_latest_def read_latest_checkpoint_id_def find_latest_checkpoint_id_def list_checkpoint_ids_def
    by (intro returns_rules putv)
qed

end
