(* ===== verification/Checkpoint_Gc.thy ===== *)
theory Checkpoint_Gc
  imports Checkpoint_Tuple
begin

text \<open>
  \<open>collect_orphaned_values\<close>: the garbage collection of channel values that no surviving checkpoint
  names. It refuses a namespace whose pointer is not clean or whose checkpoints cannot all be read,
  defers recent blobs, and reads the survivors again before every single deletion. The current
  time is an argument; a set of versions is a list.
\<close>

record collection =
  oc_dry_run :: bool
  oc_would_delete :: "string list"
  oc_deleted :: "string list"
  oc_skipped_namespaces :: "(string \<times> string) list"
  oc_skipped_recent :: "string list"

definition new_collection :: "bool \<Rightarrow> collection" where
  "new_collection dry = \<lparr>oc_dry_run = dry, oc_would_delete = [], oc_deleted = [], oc_skipped_namespaces = [],
     oc_skipped_recent = []\<rparr>"

text \<open>The versions every checkpoint of a namespace names, or nothing when one cannot be read.\<close>

fun retained_versions ::
    "saver \<Rightarrow> 'w container \<Rightarrow> string \<Rightarrow> string \<Rightarrow> string list \<Rightarrow> (string \<times> string) list \<Rightarrow>
     ('w, (string \<times> string) list option) io" where
  "retained_versions sv c t n [] retained = io_return (Some retained)"
| "retained_versions sv c t n (i # is) retained =
     io_bind (download_typed_blob c (checkpoint_blob_path t n i)) (\<lambda>blob.
       case blob of
         None \<Rightarrow> io_return None
       | Some (ty, payload, _) \<Rightarrow>
           (case bind_res (cs_loads sv (ty, payload)) (\<lambda>data. item_of data ''channel_versions'') of
              Inl _ \<Rightarrow> io_return None
            | Inr versions \<Rightarrow>
                io_bind (io_lift (items_of versions)) (\<lambda>vs.
                  retained_versions sv c t n is
                    (retained @ map (\<lambda>cv. (fst cv, py_str (cs_text sv) (snd cv))) vs))))"

definition collect_retained_versions ::
    "saver \<Rightarrow> 'w container \<Rightarrow> string \<Rightarrow> string \<Rightarrow> ('w, (string \<times> string) list option) io" where
  "collect_retained_versions sv c t n =
     io_bind (list_checkpoint_ids sv c t n) (\<lambda>ids. retained_versions sv c t n ids [])"

definition list_value_blobs ::
    "saver \<Rightarrow> 'w container \<Rightarrow> string \<Rightarrow> string \<Rightarrow> ('w, (string \<times> (string \<times> string) option \<times> int option) list) io" where
  "list_value_blobs sv c t n =
     io_bind (ct_list c (values_prefix t n)) (\<lambda>items.
       io_return (map (\<lambda>b. (bi_name b, parse_value_blob_path (cs_lossy sv) t n (bi_name b), bi_modified b)) items))"

text \<open>One pass over the listed values: what is an orphan, and what is too recent to tell.\<close>

fun split_orphans ::
    "int \<Rightarrow> (string \<times> string) list \<Rightarrow> (string \<times> (string \<times> string) option \<times> int option) list \<Rightarrow>
     string list \<times> string list" where
  "split_orphans cutoff retained [] = ([], [])"
| "split_orphans cutoff retained ((path, version, modified) # blobs) =
     (let (orphans, recent) = split_orphans cutoff retained blobs in
      case version of
        None \<Rightarrow> (orphans, recent)
      | Some cv \<Rightarrow>
          (if cv \<in> set retained then (orphans, recent)
           else if (case modified of None \<Rightarrow> True | Some m \<Rightarrow> m > cutoff) then (orphans, path # recent)
           else (path # orphans, recent)))"

fun delete_orphans ::
    "saver \<Rightarrow> 'w container \<Rightarrow> string \<Rightarrow> string \<Rightarrow> string list \<Rightarrow> collection \<Rightarrow> ('w, collection) io" where
  "delete_orphans sv c t n [] result = io_return result"
| "delete_orphans sv c t n (path # paths) result =
     (let skipped = io_return (result\<lparr>oc_skipped_namespaces := oc_skipped_namespaces result @ [(t, n)]\<rparr>);
          delete = io_then (io_catch (ct_delete c path) (io_return ()))
            (delete_orphans sv c t n paths (result\<lparr>oc_deleted := oc_deleted result @ [path]\<rparr>))
      in io_bind (read_latest_checkpoint_id c t n) (\<lambda>hint.
           case hint of
             None \<Rightarrow> skipped
           | Some _ \<Rightarrow>
               io_bind (collect_retained_versions sv c t n) (\<lambda>fresh.
                 case fresh of
                   None \<Rightarrow> skipped
                 | Some retained \<Rightarrow>
                     (case parse_value_blob_path (cs_lossy sv) t n path of
                        Some cv \<Rightarrow> (if cv \<in> set retained then delete_orphans sv c t n paths result else delete)
                      | None \<Rightarrow> delete))))"

definition collect_namespace ::
    "saver \<Rightarrow> 'w container \<Rightarrow> string \<Rightarrow> bool \<Rightarrow> int \<Rightarrow> string \<Rightarrow> collection \<Rightarrow> ('w, collection) io" where
  "collect_namespace sv c t dry_run cutoff n result =
     (let skipped = io_return (result\<lparr>oc_skipped_namespaces := oc_skipped_namespaces result @ [(t, n)]\<rparr>)
      in io_bind (read_latest_checkpoint_id c t n) (\<lambda>hint.
           case hint of
             None \<Rightarrow> skipped
           | Some _ \<Rightarrow>
               io_bind (collect_retained_versions sv c t n) (\<lambda>snapshot.
                 case snapshot of
                   None \<Rightarrow> skipped
                 | Some retained \<Rightarrow>
                     io_bind (list_value_blobs sv c t n) (\<lambda>blobs.
                       let (orphans, recent) = split_orphans cutoff retained blobs;
                           result' = result\<lparr>oc_skipped_recent := oc_skipped_recent result @ recent,
                             oc_would_delete := oc_would_delete result @ orphans\<rparr>
                       in if dry_run then io_return result'
                          else delete_orphans sv c t n orphans result'))))"

fun collect_namespaces ::
    "saver \<Rightarrow> 'w container \<Rightarrow> string \<Rightarrow> bool \<Rightarrow> int \<Rightarrow> string list \<Rightarrow> collection \<Rightarrow> ('w, collection) io" where
  "collect_namespaces sv c t dry_run cutoff [] result = io_return result"
| "collect_namespaces sv c t dry_run cutoff (n # ns) result =
     io_bind (collect_namespace sv c t dry_run cutoff n result) (collect_namespaces sv c t dry_run cutoff ns)"

definition collect_orphaned_values ::
    "saver \<Rightarrow> 'w container \<Rightarrow> int \<Rightarrow> string \<Rightarrow> string option \<Rightarrow> bool \<Rightarrow> int \<Rightarrow> ('w, collection) io" where
  "collect_orphaned_values sv c now t ns dry_run grace =
     io_bind (namespaces_or sv c t ns) (\<lambda>namespaces.
       collect_namespaces sv c t dry_run (now - grace) namespaces (new_collection dry_run))"

section \<open>The survivors\<close>

lemma readonly_retained [readonly_rules]:
  "readonly (retained_versions sv ideal t n is retained)" "readonly (collect_retained_versions sv ideal t n)"
proof -
  have r: "readonly (retained_versions sv ideal t n is retained)" for "is" retained
    by (induction "is" arbitrary: retained) (auto intro!: readonly_rules split: sum.split)
  show "readonly (retained_versions sv ideal t n is retained)" by (rule r)
  show "readonly (collect_retained_versions sv ideal t n)"
    unfolding collect_retained_versions_def by (intro readonly_rules r)
qed

lemma sim_sum [sim_rules]:
  "(\<And>e. x = Inl e \<Longrightarrow> sim view good fails (f e) (f' e)) \<Longrightarrow> (\<And>y. x = Inr y \<Longrightarrow> sim view good fails (g y) (g' y)) \<Longrightarrow>
     sim view good fails (case x of Inl e \<Rightarrow> f e | Inr y \<Rightarrow> g y) (case x of Inl e \<Rightarrow> f' e | Inr y \<Rightarrow> g' y)"
  by (cases x) auto

lemma sim_retained [sim_rules]:
  assumes "container_laws c view good fails"
  shows "sim view good fails (collect_retained_versions sv c t n) (collect_retained_versions sv ideal t n)"
proof -
  have "sim view good fails (retained_versions sv c t n is retained) (retained_versions sv ideal t n is retained)"
    for "is" retained
  proof (induction "is" arbitrary: retained)
    case (Cons i "is")
    then show ?case unfolding retained_versions.simps by (intro sim_rules assms)
  qed (simp add: sim_lift)
  then show ?thesis unfolding collect_retained_versions_def by (intro sim_rules assms)
qed

text \<open>What the survivors name is what the markers name.\<close>

lemma retained_names:
  assumes "answer (retained_versions sv ideal t n is retained) S = Inr (Some R)"
  shows "set retained \<subseteq> set R \<and> (\<forall>i\<in>set is. referenced sv S t n i \<subseteq> set R)"
  using assms
proof (induction "is" arbitrary: retained)
  case Nil
  then show ?case by (simp add: answer_simps)
next
  case (Cons i "is")
  show ?case
  proof (cases "typed_blob S (path_of (Marker t n i))")
    case None
    with Cons.prems show ?thesis by (simp add: answer_simps readonly_rules)
  next
    case (Some b)
    obtain ty x meta where b: "b = (ty, x, meta)" by (metis prod_cases3)
    show ?thesis
    proof (cases "bind_res (cs_loads sv (ty, x)) (\<lambda>data. item_of data ''channel_versions'')")
      case (Inl e)
      with Cons.prems Some b show ?thesis by (simp add: answer_simps readonly_rules)
    next
      case (Inr versions)
      then obtain data where data: "cs_loads sv (ty, x) = Inr data" "item_of data ''channel_versions'' = Inr versions"
        by (auto simp: bind_res_Inr)
      show ?thesis
      proof (cases "items_of versions")
        case (Inl e)
        with Cons.prems Some b Inr show ?thesis by (simp add: answer_simps readonly_rules)
      next
        case vs: (Inr vs)
        let ?new = "map (\<lambda>cv. (fst cv, py_str (cs_text sv) (snd cv))) vs"
        have "answer (retained_versions sv ideal t n is (retained @ ?new)) S = Inr (Some R)"
          using Cons.prems Some b Inr vs by (simp add: answer_simps readonly_rules)
        from Cons.IH [OF this] have "set retained \<union> set ?new \<subseteq> set R"
          "\<forall>i\<in>set is. referenced sv S t n i \<subseteq> set R" by auto
        moreover have "referenced sv S t n i = set ?new"
          using Some b data vs by (simp add: referenced_def versions_of_def)
        ultimately show ?thesis by auto
      qed
    qed
  qed
qed

lemma referenced_absent: "i \<notin> ids S t n \<Longrightarrow> referenced sv S t n i = {}"
proof -
  assume "i \<notin> ids S t n"
  then have "S (path_of (Marker t n i)) = None" unfolding ids_def by blast
  then show ?thesis by (simp add: referenced_def typed_blob_def)
qed

lemma retained_all:
  assumes "well_named S" "answer (collect_retained_versions sv ideal t n) S = Inr (Some R)"
  shows "referenced sv S t n i \<subseteq> set R"
proof (cases "i \<in> ids S t n")
  case True
  have "finite (ids S t n)" using assms(1) by (simp add: well_named_def finite_ids)
  moreover have "answer (retained_versions sv ideal t n (rev (sorted_list_of_set (ids S t n))) []) S = Inr (Some R)"
    using assms by (simp add: collect_retained_versions_def answer_simps readonly_rules)
  ultimately show ?thesis using retained_names True by fastforce
qed (simp add: referenced_absent)

section \<open>What a collection may change\<close>

text \<open>Only value blobs of the thread go, and none that a checkpoint of their namespace names.\<close>

definition orphan :: "saver \<Rightarrow> bstore \<Rightarrow> string \<Rightarrow> string \<Rightarrow> bool" where
  "orphan sv S t p \<longleftrightarrow> (\<exists>n c v. p = path_of (Value t n c v) \<and> (\<forall>i. (c, v) \<notin> referenced sv S t n i))"

definition collected :: "saver \<Rightarrow> string \<Rightarrow> bstore \<Rightarrow> bstore \<Rightarrow> bool" where
  "collected sv t S0 S \<longleftrightarrow> blobs_ok S \<and> (\<forall>p. S p = S0 p \<or> S p = None \<and> orphan sv S0 t p)"

lemma collected_refl: "blobs_ok S \<Longrightarrow> collected sv t S S"
  by (simp add: collected_def)

lemma collected_same:
  assumes "collected sv t S0 S" "\<And>n c v. b \<noteq> Value t n c v"
  shows "S (path_of b) = S0 (path_of b)"
proof -
  have "\<not> orphan sv S0 t (path_of b)" using assms(2) by (simp add: orphan_def)
  then show ?thesis using assms(1) unfolding collected_def by blast
qed

lemma collected_referenced:
  assumes "collected sv t S0 S"
  shows "referenced sv S t' n i = referenced sv S0 t' n i"
proof -
  have "S (path_of (Marker t' n i)) = S0 (path_of (Marker t' n i))"
    by (rule collected_same [OF assms]) simp
  then have "typed_blob S (path_of (Marker t' n i)) = typed_blob S0 (path_of (Marker t' n i))"
    by (simp add: typed_blob_def)
  then show ?thesis by (simp add: referenced_def)
qed

lemma collected_tuples:
  assumes "collected sv t S0 S" "blobs_ok S0"
  shows "tuple_at sv S t' n i cfg = tuple_at sv S0 t' n i cfg"
proof (rule tuple_local)
  show "S (path_of (Marker t' n i)) = S0 (path_of (Marker t' n i))"
    "S (path_of (Metadata t' n i)) = S0 (path_of (Metadata t' n i))"
    by (rule collected_same [OF assms(1)], simp)+
  have w: "well_named S" "well_named S0" using assms by (simp_all add: collected_def blobs_ok_def)
  have "S (path_of (Write t' n i task idx)) = S0 (path_of (Write t' n i task idx))" for task idx
    by (rule collected_same [OF assms(1)]) simp
  then show "S p = S0 p" if "prefix (writes_prefix t' n i) p" for p
    using writes_agree [OF w _ that] by blast
  fix c v assume "(c, v) \<in> referenced sv S0 t' n i"
  then have "\<not> orphan sv S0 t (path_of (Value t' n c v))" by (auto simp: orphan_def)
  then show "S (path_of (Value t' n c v)) = S0 (path_of (Value t' n c v))"
    using assms(1) unfolding collected_def by blast
qed

lemma collected_delete:
  assumes "collected sv t S0 S" "\<forall>i. (c, v) \<notin> referenced sv S t n i"
  shows "collected sv t S0 (S(path_of (Value t n c v) := None))"
  using assms blobs_ok_delete collected_referenced [OF assms(1)]
  by (auto simp: collected_def orphan_def)

section \<open>The collection keeps to it\<close>

definition value_path :: "string \<Rightarrow> string \<Rightarrow> string \<Rightarrow> bool" where
  "value_path t n p \<longleftrightarrow> (\<exists>c v. p = path_of (Value t n c v))"

lemma safe_retained:
  assumes "container_laws c view good fails" "\<And>S. I S \<Longrightarrow> blobs_ok S"
  shows "safe view good I P (collect_retained_versions sv c t n)
    (\<lambda>R S. P S \<and> I S \<and> (\<forall>keep. R = Some keep \<longrightarrow> (\<forall>i. referenced sv S t n i \<subseteq> set keep)))"
  by (rule safe_sim [OF sim_retained [OF assms(1)]], rule triple_readonly [OF readonly_retained(2)])
    (use assms(2) retained_all in \<open>fastforce simp: blobs_ok_def\<close>)

lemma safe_read_latest:
  assumes "container_laws c view good fails"
  shows "safe view good I P (read_latest_checkpoint_id c t n) (\<lambda>_. P)"
  by (rule safe_sim [OF sim_build(1) [OF assms]], rule triple_readonly [OF readonly_build(1)]) simp

lemma safe_delete:
  assumes "container_laws c view good fails" "\<And>S. I S \<Longrightarrow> P S \<Longrightarrow> I (S(p := None))"
  shows "safe view good I P (io_catch (ct_delete c p) (io_return ())) (\<lambda>_ _. True)"
proof (rule safe_sim)
  show "sim view good fails (io_catch (ct_delete c p) (io_return ())) (io_catch (ct_delete ideal p) (io_return ()))"
    by (intro sim_rules assms(1))
  show "triple I (\<lambda>S. I S \<and> P S) (io_catch (ct_delete ideal p) (io_return ())) (\<lambda>_ _. True)"
    by (rule triple_catch [OF triple_delete]) (auto intro: assms(2) failed_delete_same triple_lift)
qed

lemma delete_orphans_safe:
  assumes "container_laws c view good fails" "\<forall>p\<in>set paths. value_path t n p"
  shows "safe view good (collected sv t S0) (\<lambda>_. True) (delete_orphans sv c t n paths result) (\<lambda>_ _. True)"
  using assms(2)
proof (induction paths arbitrary: result)
  case (Cons p ps)
  let ?I = "collected sv t S0"
  obtain ch v where p: "p = path_of (Value t n ch v)" using Cons.prems by (auto simp: value_path_def)
  have ok: "blobs_ok S" if "?I S" for S using that by (simp add: collected_def)
  have IH: "safe view good ?I Q (delete_orphans sv c t n ps r) (\<lambda>_ _. True)" for Q r
    by (rule safe_pre [OF Cons.IH]) (use Cons.prems in simp_all)
  have del: "safe view good ?I (\<lambda>S. \<forall>i. (ch, v) \<notin> referenced sv S t n i)
      (io_then (io_catch (ct_delete c p) (io_return ())) (delete_orphans sv c t n ps r)) (\<lambda>_ _. True)" for r
    by (rule safe_bind [OF safe_delete [OF assms(1)] IH]) (simp add: p collected_delete)
  have parse: "parse_value_blob_path (cs_lossy sv) t n p = Some (ch, v)" by (simp add: p)
  show ?case
    unfolding delete_orphans.simps Let_def parse option.case
  proof (rule safe_bind [OF safe_read_latest [OF assms(1)]], rule safe_option, goal_cases)
    case (2 hint h)
    show ?case
    proof (rule safe_bind [OF safe_retained [OF assms(1) ok]], assumption, rule safe_option, goal_cases)
      case (2 fresh keep)
      then show ?case by (intro safe_if IH safe_pre [OF del]) auto
    qed (simp add: safe_lift)
  qed (simp add: safe_lift)
qed (simp add: safe_lift)

lemma list_values_safe:
  assumes "container_laws c view good fails" "\<And>S. I S \<Longrightarrow> well_named S"
  shows "safe view good I P (list_value_blobs sv c t n) (\<lambda>blobs S. P S \<and> (\<forall>b\<in>set blobs. value_path t n (fst b)))"
  unfolding safe_def
proof (intro allI impI)
  fix w r w1
  assume w: "good w" "I (view w)" "P (view w)" and run: "list_value_blobs sv c t n w = (r, w1)"
  obtain r1 w2 where m: "ct_list c (values_prefix t n) w = (r1, w2)" by fastforce
  then have names: "list_names c (values_prefix t n) w = (map_sum id (map bi_name) r1, w2)"
    by (cases r1) (simp_all add: list_names_def io_bind_def io_lift_def)
  have same: "good w2 \<and> view w2 = view w"
    using container_calls(4) [OF assms(1), of "values_prefix t n"] w(1) names
    unfolding call_ok_def by (cases r1) fastforce+
  have "value_path t n p" if "r1 = Inr items" "p \<in> bi_name ` set items" for items p
  proof -
    have "map bi_name items = listing (view w) (values_prefix t n)"
      using container_calls(4) [OF assms(1), of "values_prefix t n"] w(1) names that(1)
      unfolding call_ok_def by fastforce
    then have "p \<in> set (listing (view w) (values_prefix t n))" using that(2) by (metis list.set_map)
    then show ?thesis
      using assms(2) [OF w(2)] by (auto simp: listing_names prefix_threads value_path_def)
  qed
  with same w run m show "good w1 \<and> I (view w1) \<and>
      (\<forall>x. r = Inr x \<longrightarrow> P (view w1) \<and> (\<forall>b\<in>set x. value_path t n (fst b)))"
    by (cases r1) (auto simp: list_value_blobs_def io_bind_def io_lift_def)
qed

lemma split_orphans_sub: "set (fst (split_orphans cutoff retained blobs)) \<subseteq> fst ` set blobs"
  by (induction cutoff retained blobs rule: split_orphans.induct)
    (auto simp: Let_def split: prod.splits option.splits if_splits)

lemma collect_namespace_safe:
  assumes "container_laws c view good fails"
  shows "safe view good (collected sv t S0) (\<lambda>_. True) (collect_namespace sv c t dry_run cutoff n result) (\<lambda>_ _. True)"
proof -
  have ok: "blobs_ok S" if "collected sv t S0 S" for S using that by (simp add: collected_def)
  have w: "well_named S" if "collected sv t S0 S" for S using ok [OF that] by (simp add: blobs_ok_def)
  show ?thesis
    unfolding collect_namespace_def Let_def case_prod_unfold
  proof (rule safe_bind [OF safe_read_latest [OF assms]], rule safe_option, goal_cases)
    case (2 hint h)
    show ?case
    proof (rule safe_bind [OF safe_retained [OF assms ok]], assumption, rule safe_option, goal_cases)
      case (2 snapshot keep)
      show ?case
      proof (rule safe_bind [OF list_values_safe [OF assms w]], assumption, rule safe_if, goal_cases)
        case (2 blobs)
        show ?case
        proof (cases "\<forall>p\<in>set (fst (split_orphans cutoff keep blobs)). value_path t n p")
          case True
          then show ?thesis by (intro safe_pre [OF delete_orphans_safe [OF assms]]) auto
        next
          case False
          with split_orphans_sub [of cutoff keep blobs] show ?thesis
            by (fastforce simp: safe_def)
        qed
      qed (simp add: safe_lift)
    qed (simp add: safe_lift)
  qed (simp add: safe_lift)
qed

lemma collect_safe:
  assumes "container_laws c view good fails"
  shows "safe view good (collected sv t S0) (\<lambda>_. True) (collect_orphaned_values sv c now t ns dry_run grace) (\<lambda>_ _. True)"
proof -
  have loop: "safe view good (collected sv t S0) (\<lambda>_. True) (collect_namespaces sv c t dry_run cutoff namespaces result) (\<lambda>_ _. True)"
    for cutoff namespaces result
    by (induction namespaces arbitrary: result)
      (auto intro: safe_lift safe_bind [OF collect_namespace_safe [OF assms]])
  have "safe view good (collected sv t S0) (\<lambda>_. True) (namespaces_or sv c t ns) (\<lambda>_ _. True)"
    by (rule safe_sim [OF sim_delete_blobs(3) [OF assms]], rule triple_readonly [OF readonly_namespaces]) simp
  then show ?thesis unfolding collect_orphaned_values_def by (rule safe_bind) (rule loop)
qed

text \<open>A dry run only reads.\<close>

lemma dry_run_safe:
  assumes "container_laws c view good fails" "blobs_ok S0"
  shows "safe view good (\<lambda>S. S = S0) (\<lambda>_. True) (collect_orphaned_values sv c now t ns True grace) (\<lambda>_ _. True)"
proof -
  have ok: "blobs_ok S" if "S = S0" for S using that assms(2) by simp
  have w: "well_named S" if "S = S0" for S using ok [OF that] by (simp add: blobs_ok_def)
  have one: "safe view good (\<lambda>S. S = S0) (\<lambda>_. True) (collect_namespace sv c t True cutoff n result) (\<lambda>_ _. True)"
    for cutoff n result
    unfolding collect_namespace_def Let_def case_prod_unfold if_True
  proof (rule safe_bind [OF safe_read_latest [OF assms(1)]], rule safe_option, goal_cases)
    case (2 hint h)
    show ?case
    proof (rule safe_bind [OF safe_retained [OF assms(1) ok]], assumption, rule safe_option, goal_cases)
      case (2 snapshot keep)
      show ?case by (rule safe_bind [OF list_values_safe [OF assms(1) w]]) (simp_all add: safe_lift)
    qed (simp add: safe_lift)
  qed (simp add: safe_lift)
  have loop: "safe view good (\<lambda>S. S = S0) (\<lambda>_. True) (collect_namespaces sv c t True cutoff namespaces result) (\<lambda>_ _. True)"
    for cutoff namespaces result
    by (induction namespaces arbitrary: result) (auto intro: safe_lift safe_bind [OF one])
  have "safe view good (\<lambda>S. S = S0) (\<lambda>_. True) (namespaces_or sv c t ns) (\<lambda>_ _. True)"
    by (rule safe_sim [OF sim_delete_blobs(3) [OF assms(1)]], rule triple_readonly [OF readonly_namespaces]) simp
  then show ?thesis unfolding collect_orphaned_values_def by (rule safe_bind) (rule loop)
qed

end
