(* ===== verification/Blob_Memory.thy ===== *)
theory Blob_Memory
  imports Blob_Container
begin

text \<open>
  A blob container in memory, for concrete runs: it keeps its blobs in an association list and
  may break after a given number of calls. It satisfies \<open>container_laws\<close>, so the guarantees of the
  checkpoint saver apply to it.
\<close>

record blob_memory =
  mm_blobs :: "(string \<times> (string \<times> string dict)) list"
  mm_left :: "nat option"

definition broken :: exn where
  "broken = Exn ''ServiceRequestError'' ''connection lost''"

definition memory_call :: "(blob_memory \<Rightarrow> (exn + 'a) \<times> blob_memory) \<Rightarrow> (blob_memory, 'a) io" where
  "memory_call f m =
     (case mm_left m of
        None \<Rightarrow> f m
      | Some 0 \<Rightarrow> (Inl broken, m)
      | Some (Suc k) \<Rightarrow> f (m\<lparr>mm_left := Some k\<rparr>))"

definition memory_container :: "blob_memory container" where
  "memory_container =
     \<lparr>ct_upload = (\<lambda>p x md. memory_call (\<lambda>m. (Inr (), m\<lparr>mm_blobs := AList.update p (x, md) (mm_blobs m)\<rparr>))),
      ct_download = (\<lambda>p. memory_call (\<lambda>m.
        (case map_of (mm_blobs m) p of None \<Rightarrow> Inl missing_exn | Some b \<Rightarrow> Inr (fst b), m))),
      ct_properties = (\<lambda>p. memory_call (\<lambda>m.
        (case map_of (mm_blobs m) p of None \<Rightarrow> Inl missing_exn | Some b \<Rightarrow> Inr (Some (snd b)), m))),
      ct_delete = (\<lambda>p. memory_call (\<lambda>m.
        case map_of (mm_blobs m) p of
          None \<Rightarrow> (Inl missing_exn, m) | Some _ \<Rightarrow> (Inr (), m\<lparr>mm_blobs := AList.delete p (mm_blobs m)\<rparr>))),
      ct_list = (\<lambda>p. memory_call (\<lambda>m.
        (Inr (map (\<lambda>q. \<lparr>bi_name = q, bi_modified = Some 0\<rparr>) (sort (filter (prefix p) (map fst (mm_blobs m))))), m)))\<rparr>"

definition memory_view :: "blob_memory \<Rightarrow> bstore" where
  "memory_view m = map_of (mm_blobs m)"

text \<open>A calm memory has no limit on its calls.\<close>

definition memory_ok :: "bool \<Rightarrow> blob_memory \<Rightarrow> bool" where
  "memory_ok calm m \<longleftrightarrow> distinct (map fst (mm_blobs m)) \<and> (calm \<longrightarrow> mm_left m = None)"

definition memory_fails :: "bool \<Rightarrow> exn \<Rightarrow> bool" where
  "memory_fails calm e \<longleftrightarrow> \<not> calm \<and> e = broken"

lemma memory_fails_calm: "memory_fails True = (\<lambda>_. False)"
  by (rule ext) (simp add: memory_fails_def)

lemma broken_other [simp]: "\<not> blob_missing broken"
  by (simp add: blob_missing_def broken_def)

lemma memory_call_ok:
  assumes "\<And>m r m'. memory_ok calm m \<Longrightarrow> f m = (r, m') \<Longrightarrow>
      memory_ok calm m' \<and> (case r of
        Inr x \<Rightarrow> memory_view m' = effect (memory_view m) \<and> answer (memory_view m) = Some x
      | Inl e \<Rightarrow> blob_missing e \<and> memory_view m' = memory_view m \<and> answer (memory_view m) = None)"
  shows "call_ok memory_view (memory_ok calm) (memory_fails calm) (memory_call f) answer effect"
  unfolding call_ok_def
proof (intro allI impI)
  fix m assume m: "memory_ok calm m"
  have left: "memory_ok calm (m\<lparr>mm_left := Some k\<rparr>)" "memory_view (m\<lparr>mm_left := Some k\<rparr>) = memory_view m"
    if "mm_left m = Some (Suc k)" for k
    using m that by (auto simp: memory_ok_def memory_view_def)
  show "case memory_call f m of
      (Inr x, w1) \<Rightarrow> memory_ok calm w1 \<and> memory_view w1 = effect (memory_view m) \<and> answer (memory_view m) = Some x
    | (Inl e, w1) \<Rightarrow> memory_ok calm w1 \<and>
        (blob_missing e \<and> memory_view w1 = memory_view m \<and> answer (memory_view m) = None \<or>
         \<not> blob_missing e \<and> memory_fails calm e \<and> memory_view w1 \<in> {memory_view m, effect (memory_view m)})"
  proof (cases "mm_left m")
    case None
    obtain r m' where "f m = (r, m')" by fastforce
    with None assms [OF m this] show ?thesis by (cases r) (auto simp: memory_call_def)
  next
    case (Some left)
    show ?thesis
    proof (cases left)
      case 0
      with Some m show ?thesis by (auto simp: memory_call_def memory_fails_def memory_ok_def)
    next
      case (Suc k)
      obtain r m' where "f (m\<lparr>mm_left := Some k\<rparr>) = (r, m')" by fastforce
      with Some Suc assms [OF left(1) this] left(2) show ?thesis by (cases r) (auto simp: memory_call_def)
    qed
  qed
qed

lemma memory_listing:
  "memory_ok calm m \<Longrightarrow> sort (filter (prefix p) (map fst (mm_blobs m))) = listing (memory_view m) p"
proof -
  assume m: "memory_ok calm m"
  then have "distinct (filter (prefix p) (map fst (mm_blobs m)))" by (simp add: memory_ok_def)
  then have "sort (filter (prefix p) (map fst (mm_blobs m))) =
      sorted_list_of_set (set (filter (prefix p) (map fst (mm_blobs m))))"
    by (metis distinct_remdups_id sorted_list_of_set_sort_remdups)
  also have "set (filter (prefix p) (map fst (mm_blobs m))) = {q \<in> dom (memory_view m). prefix p q}"
    by (auto simp: memory_view_def dom_map_of_conv_image_fst)
  finally show ?thesis by (simp add: listing_def)
qed

lemma memory_call_bind:
  "io_bind (memory_call f) (\<lambda>x. io_return (g x)) = memory_call (\<lambda>m. (case f m of (r, m') \<Rightarrow> (map_sum id g r, m')))"
  by (rule ext) (auto simp: io_bind_def io_lift_def memory_call_def split: option.split nat.split prod.split sum.split)

theorem memory_laws: "container_laws memory_container memory_view (memory_ok calm) (memory_fails calm)"
  unfolding container_laws_def
proof (intro conjI allI impI)
  show "finite (dom (memory_view m))" for m by (simp add: memory_view_def finite_dom_map_of)
  show "call_ok memory_view (memory_ok calm) (memory_fails calm) (ct_upload memory_container p x md)
      (\<lambda>_. Some ()) (\<lambda>S. S(p \<mapsto> (x, md)))" for p x md
    unfolding memory_container_def container.simps
    by (rule memory_call_ok) (auto simp: memory_ok_def memory_view_def distinct_update fun_eq_iff)
  show "call_ok memory_view (memory_ok calm) (memory_fails calm) (ct_download memory_container p)
      (\<lambda>S. map_option fst (S p)) id" for p
    unfolding memory_container_def container.simps
    by (rule memory_call_ok) (auto simp: memory_ok_def memory_view_def split: option.splits)
  show "call_ok memory_view (memory_ok calm) (memory_fails calm)
      (io_bind (ct_properties memory_container p) (\<lambda>m. io_return (case m of None \<Rightarrow> [] | Some d \<Rightarrow> d)))
      (\<lambda>S. map_option snd (S p)) id" for p
    unfolding memory_container_def container.simps memory_call_bind
    by (rule memory_call_ok) (auto simp: memory_ok_def memory_view_def split: option.splits)
  show "call_ok memory_view (memory_ok calm) (memory_fails calm) (ct_delete memory_container p)
      (\<lambda>S. if S p = None then None else Some ()) (\<lambda>S. S(p := None))" for p
    unfolding memory_container_def container.simps
    by (rule memory_call_ok) (auto simp: memory_ok_def memory_view_def distinct_delete fun_eq_iff split: option.splits)
  show "call_ok memory_view (memory_ok calm) (memory_fails calm) (list_names memory_container p)
      (\<lambda>S. Some (listing S p)) id" for p
    unfolding memory_container_def list_names_def container.simps memory_call_bind
    by (rule memory_call_ok) (auto simp: memory_listing comp_def)
qed

end
