(* ===== verification/Checkpoint_Guarantees.thy ===== *)
theory Checkpoint_Guarantees
  imports Checkpoint_Gc Blob_Memory
begin

text \<open>
  The guarantees of the checkpoint saver on any client that keeps \<open>container_laws\<close>, whichever of its
  calls fail and wherever the ownership guard rejects, with concrete runs on the container in
  memory. A failure in the middle of an operation is what a crash of the process leaves behind.
\<close>

section \<open>A saver for examples\<close>

definition example_saver :: saver where
  "example_saver =
     \<lparr>cs_dumps = (\<lambda>v. if json_value v then Inr (''json'', dumps (\<lambda>_. []) v) else Inl (Exn ''TypeError'' [])),
      cs_loads = (\<lambda>(ty, x). case loads x of Some v \<Rightarrow> Inr v | None \<Rightarrow> Inl (Exn ''JSONDecodeError'' [])),
      cs_require_guard = False, cs_is_guard = (\<lambda>a. a = 7),
      cs_text = \<lparr>pt_str = (\<lambda>_. []), pt_repr = id\<rparr>, cs_lossy = id,
      cs_checkpoint_id = (\<lambda>config. case map_of config ''configurable'' of
          Some (PDict d) \<Rightarrow> (case map_of d ''checkpoint_id'' of Some (PStr i) \<Rightarrow> Inr (Some i) | _ \<Rightarrow> Inr None)
        | _ \<Rightarrow> Inl (key_error ''configurable'')),
      cs_metadata = (\<lambda>_ m. m), cs_write_index = (\<lambda>_. None)\<rparr>"

lemma example_serde: "serde_ok example_saver"
  by (auto simp: serde_ok_def example_saver_def loads_dumps split: if_splits)

definition empty_memory :: "nat option \<Rightarrow> blob_memory" where
  "empty_memory left = \<lparr>mm_blobs = [], mm_left = left\<rparr>"

lemma empty_memory_ok: "memory_ok calm (empty_memory left) \<longleftrightarrow> (calm \<longrightarrow> left = None)"
  by (simp add: memory_ok_def empty_memory_def)

lemma empty_memory_view [simp]: "memory_view (empty_memory left) = Map.empty"
  by (simp add: memory_view_def empty_memory_def)

abbreviation never_rejects :: "'w write_check" where
  "never_rejects \<equiv> \<lambda>_ _. None"

lemma never_rejects_ok: "rejections_fail never_rejects good fails"
  by (simp add: rejections_fail_def)

text \<open>A checkpoint with one channel.\<close>

definition example_config :: "pyval dict" where
  "example_config = [(''configurable'', PDict [(''thread_id'', PStr ''t'')])]"

definition example_checkpoint :: "pyval dict" where
  "example_checkpoint =
     [(''id'', PStr ''c1''), (''channel_versions'', PDict [(''x'', PStr ''1'')]),
      (''channel_values'', PDict [(''x'', PInt 5)])]"

definition example_versions :: "pyval dict" where
  "example_versions = [(''x'', PStr ''1'')]"

definition example_args :: put_args where
  "example_args =
     \<lparr>pa_thread = ''t'', pa_ns = [], pa_id = ''c1'', pa_parent = None, pa_checkpoint = example_checkpoint,
      pa_values = [(''x'', PInt 5)], pa_metadata = [], pa_versions = example_versions\<rparr>"

lemma example_reads: "put_reads example_saver example_config example_checkpoint [] example_versions example_args"
  by (simp add: put_reads_def example_saver_def example_config_def example_checkpoint_def example_args_def
      config_thread_id_def config_checkpoint_ns_def checkpoint_id_of_def channel_values_of_def field_or_none_def
      py_str_def)

lemma example_fresh: "fresh_versions example_saver example_args Map.empty"
  by (simp add: fresh_versions_def ids_def referenced_def typed_blob_def)

lemma example_dict: "dict_ok example_versions"
  by (simp add: dict_ok_def example_versions_def)

lemma example_names: "pa_thread example_args = ''t''" "pa_ns example_args = []" "pa_id example_args = ''c1''"
  by (simp_all add: example_args_def)

section \<open>A write that is cut short\<close>

text \<open>
  C2: \<open>put\<close> is atomic for readers. Wherever it stops, because a call of the client failed or the
  guard rejected, every other checkpoint reads as before, and the new one is either absent or
  stored whole: its marker appears only after all channel values and the metadata. When \<open>put\<close>
  returns it is whole.
\<close>

theorem put_crash_safe:
  assumes "container_laws c view good fails" "rejections_fail chk good fails" "good w" "blobs_ok (view w)"
    and "put_reads sv config checkpoint metadata new_versions a" "dict_ok new_versions"
    and "fresh_versions sv a (view w)"
  shows "let (r, w1) = put sv c chk scoped config checkpoint metadata new_versions w in
    (\<forall>t n j cfg. (t, n, j) \<noteq> (pa_thread a, pa_ns a, pa_id a) \<longrightarrow>
       tuple_at sv (view w1) t n j cfg = tuple_at sv (view w) t n j cfg) \<and>
    ((\<forall>cfg. tuple_at sv (view w1) (pa_thread a) (pa_ns a) (pa_id a) cfg = Inr None) \<or> put_complete sv a (view w1)) \<and>
    (\<not> isl r \<longrightarrow> put_complete sv a (view w1))"
proof -
  obtain r w1 where run: "put sv c chk scoped config checkpoint metadata new_versions w = (r, w1)" by fastforce
  have "put_state sv a (view w) (view w)" using assms(4) by (simp add: put_state_def)
  with sim_triple [OF sim_put(1) [OF assms(1,2)] put_triple [OF assms(5,6,4)] assms(3) run]
  have s: "put_state sv a (view w) (view w1)" "\<And>x. r = Inr x \<Longrightarrow> put_complete sv a (view w1)"
    by auto
  show ?thesis
    unfolding run Let_def prod.case
    using put_others [OF s(1) assms(4,7)] put_atomic [OF s(1) assms(7)] s(2) by (cases r) auto
qed

lemma put_crash_safe_witness:
  "let (r, w1) = put example_saver memory_container never_rejects None example_config example_checkpoint [] example_versions
      (empty_memory (Some 3)) in
    (\<forall>cfg. tuple_at example_saver (memory_view w1) ''t'' [] ''c1'' cfg = Inr None) \<or>
    put_complete example_saver example_args (memory_view w1)"
  using put_crash_safe [OF memory_laws [of False] never_rejects_ok _ _ example_reads example_dict,
      of "empty_memory (Some 3)" None] example_fresh
  by (auto simp: empty_memory_ok blobs_ok_empty example_names)

section \<open>Reading back what was written\<close>

text \<open>What the caller of \<open>put\<close> and the serializer owe: every part can be dumped, the new versions are among the
  versions of the checkpoint, and what this write did not touch can still be read.\<close>

definition put_sound :: "saver \<Rightarrow> put_args \<Rightarrow> pyval dict \<Rightarrow> (string \<times> string \<times> pyval) list \<Rightarrow> bstore \<Rightarrow> bool" where
  "put_sound sv a vs ps S \<longleftrightarrow>
     \<not> isl (cs_dumps sv (PDict (pa_metadata a))) \<and>
     \<not> isl (cs_dumps sv (PDict (AList.delete ''channel_values'' (pa_checkpoint a)))) \<and>
     list_all (\<lambda>cv. \<not> isl (typed_value sv (pa_values a) (fst cv))) (pa_versions a) \<and>
     map_of (pa_checkpoint a) ''channel_versions'' = Some (PDict vs) \<and> dict_ok vs \<and>
     set (pa_versions a) \<subseteq> set vs \<and>
     list_all (\<lambda>cv. cv \<in> set (pa_versions a) \<or> \<not> isl (channel_value sv S (pa_thread a) (pa_ns a) cv)) vs \<and>
     pending_writes sv S (pa_thread a) (pa_ns a) (pa_id a) = Inr ps \<and> pa_id a \<noteq> [] \<and>
     cs_checkpoint_id sv (checkpoint_config (pa_thread a) (pa_ns a) (pa_id a)) = Inr (Some (pa_id a))"

lemma tuple_after_put:
  assumes "serde_ok sv" "put_sound sv a vs ps S0" "put_state sv a S0 S" "put_complete sv a S" "blobs_ok S0"
  shows "\<exists>vals. tuple_at sv S (pa_thread a) (pa_ns a) (pa_id a) cfg =
      Inr (Some \<lparr>tp_config = cfg,
        tp_checkpoint = AList.update ''channel_values'' (PDict vals) (AList.delete ''channel_values'' (pa_checkpoint a)),
        tp_metadata = PDict (pa_metadata a), tp_parent = parent_config a, tp_writes = ps\<rparr>) \<and>
    (\<forall>cv\<in>set vs. if cv \<in> set (pa_versions a) then map_of vals (fst cv) = map_of (pa_values a) (fst cv)
       else channel_value sv S0 (pa_thread a) (pa_ns a) cv = Inr (map_option (Pair (fst cv)) (map_of vals (fst cv))))"
proof -
  let ?t = "pa_thread a" and ?n = "pa_ns a" and ?i = "pa_id a"
  let ?B = "put_names sv ?t ?n ?i (pa_versions a)"
  have same: "S (path_of b) = S0 (path_of b)" if "b \<notin> ?B" for b
    using assms(3) that by (simp add: put_state_def same_outside_def)
  have dist: "distinct (map fst vs)" using assms(2) by (simp add: put_sound_def dict_ok_def)
  have keys: "fst cv \<noteq> fst cv'" if "cv \<in> set vs" "cv \<notin> set (pa_versions a)" "cv' \<in> set (pa_versions a)" for cv cv'
  proof -
    have "cv' \<in> set vs" "cv \<noteq> cv'" using assms(2) that by (auto simp: put_sound_def)
    with dist that(1) show ?thesis by (metis eq_key_imp_eq_value prod.collapse)
  qed
  have old: "channel_value sv S ?t ?n cv = channel_value sv S0 ?t ?n cv"
    if "cv \<in> set vs" "cv \<notin> set (pa_versions a)" for cv
    by (rule channel_value_cong, rule same) (use keys [OF that] in \<open>auto simp: put_names_def value_name_def\<close>)
  define g where "g cv = (case channel_value sv S0 ?t ?n cv of Inr y \<Rightarrow> map_option snd y | Inl _ \<Rightarrow> None)" for cv
  have g: "channel_value sv S0 ?t ?n cv = Inr (map_option (Pair (fst cv)) (g cv))"
    if "cv \<in> set vs" "cv \<notin> set (pa_versions a)" for cv
  proof -
    have "\<not> isl (channel_value sv S0 ?t ?n cv)" using assms(2) that by (auto simp: put_sound_def list_all_iff)
    from not_isl_Inr [OF this] obtain y where y: "channel_value sv S0 ?t ?n cv = Inr y" ..
    obtain z where "y = map_option (Pair (fst cv)) z" by (rule channel_value_shape [OF y])
    with y show ?thesis by (cases z) (simp_all add: g_def)
  qed
  have w: "well_named S" "well_named S0" using assms(3,5) by (simp_all add: put_state_def blobs_ok_def)
  have wr: "S (path_of (Write ?t ?n ?i task idx)) = S0 (path_of (Write ?t ?n ?i task idx))" for task idx
    by (rule same) (auto simp: put_names_def value_name_def)
  have "pending_writes sv S ?t ?n ?i = pending_writes sv S0 ?t ?n ?i"
    by (rule pending_cong, rule writes_agree [OF w wr])
  with assms(2) have pend: "pending_writes sv S ?t ?n ?i = Inr ps" by (simp add: put_sound_def)
  have vers: "map_of (pa_checkpoint a) ''channel_versions'' = Some (PDict vs)"
    using assms(2) by (simp add: put_sound_def)
  have "channel_value sv S ?t ?n cv = Inr (map_option (Pair (fst cv)) (g cv))"
    if "cv \<in> set vs" "cv \<notin> set (pa_versions a)" for cv
    using old [OF that] g [OF that] by simp
  from complete_tuple [OF assms(1,4) vers dist this pend, of cfg] obtain vals where
    "tuple_at sv S ?t ?n ?i cfg = Inr (Some \<lparr>tp_config = cfg,
        tp_checkpoint = AList.update ''channel_values'' (PDict vals) (AList.delete ''channel_values'' (pa_checkpoint a)),
        tp_metadata = PDict (pa_metadata a), tp_parent = parent_config a, tp_writes = ps\<rparr>)"
    "\<forall>cv\<in>set vs. map_of vals (fst cv) = (if cv \<in> set (pa_versions a) then map_of (pa_values a) (fst cv) else g cv)"
    by blast
  note v = this
  show ?thesis
  proof (intro exI [of _ vals] conjI ballI)
    fix cv assume "cv \<in> set vs"
    then show "if cv \<in> set (pa_versions a) then map_of vals (fst cv) = map_of (pa_values a) (fst cv)
       else channel_value sv S0 ?t ?n cv = Inr (map_option (Pair (fst cv)) (map_of vals (fst cv)))"
      using v(2) g [of cv] by (cases "cv \<in> set (pa_versions a)") simp_all
  qed (rule v(1))
qed

text \<open>
  C10: On a client that does not fail, \<open>put\<close> returns the configuration of the new checkpoint and
  \<open>get_tuple\<close> with it returns the checkpoint as it was written: its fields, metadata, parent and
  pending writes, for the channels of this write the values it carried, and for the others what
  was stored before.
\<close>

theorem put_then_get:
  assumes "container_laws c view good (\<lambda>_. False)" "rejections_fail chk good (\<lambda>_. False)" "good w"
    and "blobs_ok (view w)" "serde_ok sv" "put_reads sv config checkpoint metadata new_versions a"
    and "dict_ok new_versions" "write_guard sv scoped config = Inr guard" "put_sound sv a vs ps (view w)"
  shows "\<exists>w1 w2 tp vals.
    put sv c chk scoped config checkpoint metadata new_versions w =
      (Inr (checkpoint_config (pa_thread a) (pa_ns a) (pa_id a)), w1) \<and>
    get_tuple sv c (checkpoint_config (pa_thread a) (pa_ns a) (pa_id a)) w1 = (Inr (Some tp), w2) \<and>
    tp_metadata tp = PDict (pa_metadata a) \<and> tp_parent tp = parent_config a \<and> tp_writes tp = ps \<and>
    tp_checkpoint tp = AList.update ''channel_values'' (PDict vals) (AList.delete ''channel_values'' checkpoint) \<and>
    (\<forall>cv\<in>set vs. if cv \<in> set new_versions then map_of vals (fst cv) = map_of (pa_values a) (fst cv)
       else channel_value sv (view w) (pa_thread a) (pa_ns a) cv =
         Inr (map_option (Pair (fst cv)) (map_of vals (fst cv))))"
proof -
  let ?t = "pa_thread a" and ?n = "pa_ns a" and ?i = "pa_id a"
  let ?cfg = "checkpoint_config ?t ?n ?i"
  let ?put = "put sv ideal no_check scoped config checkpoint metadata new_versions"
  have v: "pa_versions a = new_versions" "pa_checkpoint a = checkpoint" using assms(6) by (simp_all add: put_reads_def)
  obtain r w1 where run: "put sv c chk scoped config checkpoint metadata new_versions w = (r, w1)" by fastforce
  have "put_state sv a (view w) (view w)" using assms(4) by (simp add: put_state_def)
  with sim_triple [OF sim_put(1) [OF assms(1,2)] put_triple [OF assms(6,7,4)] assms(3) run]
  have s: "good w1" "\<And>x. r = Inr x \<Longrightarrow> put_state sv a (view w) (view w1) \<and> put_complete sv a (view w1) \<and> x = ?cfg"
    by auto
  have "returns ?put"
    using assms(9) v by (intro put_returns [OF assms(6,8)]) (auto simp: put_sound_def list_all_iff)
  moreover obtain r' d where "?put (view w, []) = (r', view w1, d)" "same_result r r'"
    by (rule sim_calm [OF sim_put(1) [OF assms(1,2)] assms(3) run])
  ultimately obtain x where r: "r = Inr x" unfolding returns_def by (metis prod.inject same_result_simps(2))
  obtain vals where tuple: "tuple_at sv (view w1) ?t ?n ?i ?cfg =
      Inr (Some \<lparr>tp_config = ?cfg,
        tp_checkpoint = AList.update ''channel_values'' (PDict vals) (AList.delete ''channel_values'' checkpoint),
        tp_metadata = PDict (pa_metadata a), tp_parent = parent_config a, tp_writes = ps\<rparr>)"
    and vals: "\<forall>cv\<in>set vs. if cv \<in> set new_versions then map_of vals (fst cv) = map_of (pa_values a) (fst cv)
       else channel_value sv (view w) ?t ?n cv = Inr (map_option (Pair (fst cv)) (map_of vals (fst cv)))"
    using tuple_after_put [OF assms(5,9) _ _ assms(4), of "view w1" ?cfg] s(2) [OF r] v by auto
  have get: "answer (get_tuple sv ideal ?cfg) S = tuple_at sv S ?t ?n ?i ?cfg" for S
  proof -
    obtain y ys where "?i = y # ys" using assms(9) by (cases ?i) (auto simp: put_sound_def)
    then show ?thesis
      using assms(9)
      by (simp add: put_sound_def get_tuple_def config_thread_id_def config_checkpoint_ns_def checkpoint_config_def
          field_or_none_def py_str_def io_bind_lift tuple_at_def Let_def)
  qed
  obtain r2 w2 where run2: "get_tuple sv c ?cfg w1 = (r2, w2)" by fastforce
  from sim_reads [OF sim_get(2) [OF assms(1)] readonly_reads [OF readonly_get(2)] s(1) run2] tuple
  have "same_result r2 (tuple_at sv (view w1) ?t ?n ?i ?cfg)" by (simp add: get)
  with tuple run2 have run2: "get_tuple sv c ?cfg w1 = (Inr (Some \<lparr>tp_config = ?cfg,
      tp_checkpoint = AList.update ''channel_values'' (PDict vals) (AList.delete ''channel_values'' checkpoint),
      tp_metadata = PDict (pa_metadata a), tp_parent = parent_config a, tp_writes = ps\<rparr>), w2)" by simp
  have pr: "put sv c chk scoped config checkpoint metadata new_versions w = (Inr ?cfg, w1)"
    using run r s(2) [OF r] by simp
  show ?thesis
    by (intro exI conjI, rule pr, rule run2) (use vals in simp_all)
qed

lemma listing_empty [simp]: "listing Map.empty p = []"
  by (simp add: listing_def)

lemma example_sound: "put_sound example_saver example_args example_versions [] Map.empty"
  by (simp add: put_sound_def example_args_def example_checkpoint_def example_versions_def example_saver_def
      typed_value_def dict_ok_def pending_answer checkpoint_config_def isl_def)

lemma put_then_get_witness:
  "\<exists>w1 w2 tp.
    put example_saver memory_container never_rejects None example_config example_checkpoint [] example_versions
      (empty_memory None) = (Inr (checkpoint_config ''t'' [] ''c1''), w1) \<and>
    get_tuple example_saver memory_container (checkpoint_config ''t'' [] ''c1'') w1 = (Inr (Some tp), w2) \<and>
    tp_metadata tp = PDict []"
proof -
  have guard: "write_guard example_saver None example_config = Inr None"
    by (simp add: write_guard_def resolve_ownership_guard_def configurable_map_def example_config_def
        example_saver_def guard_key_def)
  have md: "pa_metadata example_args = []" by (simp add: example_args_def)
  show ?thesis
    using put_then_get [OF memory_laws [of True, unfolded memory_fails_calm] never_rejects_ok _ _ example_serde
        example_reads example_dict guard, of "empty_memory None" example_versions "[]"] example_sound
    by (simp add: empty_memory_ok blobs_ok_empty example_names md) blast
qed

section \<open>Any sequence of operations\<close>

text \<open>
  The operations a process may run on the saver, each to its end or to the call that fails. What
  they return does not matter here, only the blobs they leave.
\<close>

datatype saver_op =
    OpPut "nat option" "pyval dict" "pyval dict" "pyval dict" "pyval dict"
  | OpPutWrites "nat option" "pyval dict" "(string \<times> pyval) list" string string
  | OpDeleteThread string
  | OpDeleteBefore string string "string option"
  | OpDeleteOld string int "string option"
  | OpCollect int string "string option" bool int

fun saver_step :: "saver \<Rightarrow> 'w container \<Rightarrow> 'w write_check \<Rightarrow> saver_op \<Rightarrow> 'w \<Rightarrow> 'w" where
  "saver_step sv c chk (OpPut scoped config checkpoint metadata versions) w =
     snd (put sv c chk scoped config checkpoint metadata versions w)"
| "saver_step sv c chk (OpPutWrites scoped config writes task path) w =
     snd (put_writes sv c chk scoped config writes task path w)"
| "saver_step sv c chk (OpDeleteThread t) w = snd (delete_thread c t w)"
| "saver_step sv c chk (OpDeleteBefore t before ns) w = snd (delete_checkpoints_before sv c t before ns w)"
| "saver_step sv c chk (OpDeleteOld t keep ns) w = snd (delete_old_checkpoints sv c t keep ns w)"
| "saver_step sv c chk (OpCollect now t ns dry grace) w = snd (collect_orphaned_values sv c now t ns dry grace w)"

definition saver_run :: "saver \<Rightarrow> 'w container \<Rightarrow> 'w write_check \<Rightarrow> saver_op list \<Rightarrow> 'w \<Rightarrow> 'w" where
  "saver_run sv c chk ops w = fold (saver_step sv c chk) ops w"

fun op_wf :: "saver_op \<Rightarrow> bool" where
  "op_wf (OpPut scoped config checkpoint metadata versions) = dict_ok versions"
| "op_wf _ = True"

lemma keeps_step:
  assumes "sim view good fails m m'" "keeps_blobs m'" "good w" "blobs_ok (view w)"
  shows "good (snd (m w)) \<and> blobs_ok (view (snd (m w)))"
  using sim_triple [OF assms(1,2,3), of "fst (m w)" "snd (m w)"] assms(4) by simp

lemma saver_step_ok:
  assumes "container_laws c view good fails" "rejections_fail chk good fails" "good w" "blobs_ok (view w)" "op_wf x"
  shows "good (saver_step sv c chk x w) \<and> blobs_ok (view (saver_step sv c chk x w))"
proof (cases x)
  case (OpPut scoped config checkpoint metadata versions)
  with assms(5) show ?thesis
    using keeps_step [OF sim_put(1) [OF assms(1,2)] put_keeps_blobs assms(3,4)] by simp
next
  case (OpPutWrites scoped config writes task path)
  then show ?thesis using keeps_step [OF sim_put(2) [OF assms(1,2)] keeps_put_writes assms(3,4)] by simp
next
  case (OpDeleteThread t)
  then show ?thesis using keeps_step [OF sim_delete_blobs(1) [OF assms(1)] keeps_delete_thread assms(3,4)] by simp
next
  case (OpDeleteBefore t before ns)
  then show ?thesis using keeps_step [OF sim_retention(1) [OF assms(1)] keeps_retention(1) assms(3,4)] by simp
next
  case (OpDeleteOld t keep ns)
  then show ?thesis using keeps_step [OF sim_retention(2) [OF assms(1)] keeps_retention(2) assms(3,4)] by simp
next
  case (OpCollect now t ns dry grace)
  let ?m = "collect_orphaned_values sv c now t ns dry grace"
  have "collected sv t (view w) (view w)" by (rule collected_refl [OF assms(4)])
  with safeD(1,2) [OF collect_safe [OF assms(1)] assms(3), of sv t "view w" now ns dry grace "fst (?m w)" "snd (?m w)"]
  show ?thesis by (simp add: OpCollect collected_def)
qed

lemma saver_run_ok:
  assumes "container_laws c view good fails" "rejections_fail chk good fails" "good w" "blobs_ok (view w)"
    "\<forall>x\<in>set ops. op_wf x"
  shows "good (saver_run sv c chk ops w) \<and> blobs_ok (view (saver_run sv c chk ops w))"
  using assms(3-5)
proof (induction ops arbitrary: w)
  case (Cons x xs)
  then have "good (saver_step sv c chk x w) \<and> blobs_ok (view (saver_step sv c chk x w))"
    using saver_step_ok [OF assms(1,2)] by simp
  with Cons show ?case by (simp add: saver_run_def)
qed (simp add: saver_run_def)

text \<open>
  After any sequence of operations, each of them cut short or not, \<open>get_tuple\<close> without a
  checkpoint id answers with the newest stored checkpoint of the namespace, and with nothing if
  there is none: the clean pointer never hides a newer checkpoint. (Or the read itself fails.)
\<close>

theorem get_after_any_run:
  assumes "container_laws c view good fails" "rejections_fail chk good fails" "good w" "blobs_ok (view w)"
    and "\<forall>x\<in>set ops. op_wf x"
    and "config_thread_id sv config = Inr t" "config_checkpoint_ns sv config = Inr n"
    and "cs_checkpoint_id sv config = Inr None"
  shows "let w1 = saver_run sv c chk ops w; r = fst (get_tuple sv c config w1) in
    same_result r (newest_tuple sv (view w1) t n) \<or> (\<exists>e. r = Inl e \<and> fails e)"
proof -
  let ?w1 = "saver_run sv c chk ops w"
  have ok: "good ?w1" "blobs_ok (view ?w1)" using saver_run_ok [OF assms(1-5)] by simp_all
  obtain r w2 where run: "get_tuple sv c config ?w1 = (r, w2)" by fastforce
  have "answer (get_tuple sv ideal config) (view ?w1) = newest_tuple sv (view ?w1) t n"
    by (rule get_newest [OF ok(2) assms(6-8)]) simp
  with sim_reads [OF sim_get(2) [OF assms(1)] readonly_reads [OF readonly_get(2)] ok(1) run] run
  show ?thesis by (simp add: Let_def)
qed

lemma get_after_any_run_witness:
  "let w1 = saver_run example_saver memory_container never_rejects
        [OpPut None example_config example_checkpoint [] example_versions, OpDeleteOld ''t'' 0 None] (empty_memory (Some 12));
      r = fst (get_tuple example_saver memory_container example_config w1) in
    same_result r (newest_tuple example_saver (memory_view w1) ''t'' []) \<or> (\<exists>e. r = Inl e \<and> memory_fails False e)"
  using get_after_any_run [OF memory_laws [of False] never_rejects_ok, of "empty_memory (Some 12)"
      "[OpPut None example_config example_checkpoint [] example_versions, OpDeleteOld ''t'' 0 None]"
      example_saver example_config "''t''" "[]"]
  by (simp add: empty_memory_ok blobs_ok_empty example_dict example_saver_def example_config_def config_thread_id_def
      config_checkpoint_ns_def field_or_none_def py_str_def)

section \<open>Garbage collection\<close>

text \<open>
  C9: \<open>collect_orphaned_values\<close>, wherever it stops, never costs a checkpoint anything: every
  checkpoint of every thread reads as before, only value blobs of the given thread that no stored
  checkpoint of their namespace names may be gone, and a dry run changes no blob at all.
\<close>

theorem collection_safe:
  assumes "container_laws c view good fails" "good w" "blobs_ok (view w)"
  shows "let w1 = snd (collect_orphaned_values sv c now t ns dry_run grace w) in
    (\<forall>t' n i cfg. tuple_at sv (view w1) t' n i cfg = tuple_at sv (view w) t' n i cfg) \<and>
    (\<forall>p. if view w1 p = view w p then True else view w1 p = None \<and> orphan sv (view w) t p) \<and>
    (if dry_run then view w1 = view w else True)"
proof -
  let ?m = "collect_orphaned_values sv c now t ns dry_run grace"
  have "collected sv t (view w) (view w)" by (rule collected_refl [OF assms(3)])
  with safeD(2) [OF collect_safe [OF assms(1)] assms(2), of sv t "view w" now ns dry_run grace "fst (?m w)" "snd (?m w)"]
  have c: "collected sv t (view w) (view (snd (?m w)))" by simp
  have "view (snd (?m w)) = view w" if dry_run
    using safeD(2) [OF dry_run_safe [OF assms(1,3)] assms(2), of sv now t ns grace "fst (?m w)" "snd (?m w)"] that by simp
  with c collected_tuples [OF c assms(3)] show ?thesis by (auto simp: Let_def collected_def)
qed

lemma collection_safe_witness:
  "let w1 = snd (collect_orphaned_values example_saver memory_container 1000 ''t'' None False 300
      (\<lparr>mm_blobs = [(path_of (Value ''t'' [] ''x'' ''1''), ([], []))], mm_left = None\<rparr>)) in
    \<forall>i cfg. tuple_at example_saver (memory_view w1) ''t'' [] i cfg =
      tuple_at example_saver (memory_view \<lparr>mm_blobs = [(path_of (Value ''t'' [] ''x'' ''1''), ([], []))], mm_left = None\<rparr>) ''t'' [] i cfg"
proof -
  let ?w = "\<lparr>mm_blobs = [(path_of (Value ''t'' [] ''x'' ''1''), ([], []))], mm_left = None\<rparr>"
  have "blobs_ok (memory_view ?w)"
    using blobs_ok_plain [OF blobs_ok_empty, of "Value ''t'' [] ''x'' ''1''"] by (simp add: memory_view_def)
  then show ?thesis
    using collection_safe [OF memory_laws [of True], of ?w example_saver 1000 "''t''" None False 300]
    by (simp add: memory_ok_def Let_def)
qed

end
