(* ===== verification/Checkpoint_Async.thy ===== *)
theory Checkpoint_Async
  imports Checkpoint_Guarantees
begin

text \<open>
  The asynchronous half of \<open>AzureBlobCheckpointSaver\<close> (\<^verbatim>\<open>checkpointers/azure_blob.py\<close>): the native
  coroutines over \<^verbatim>\<open>azure.storage.blob.aio\<close>, the public methods that fall back to the synchronous
  ones, with a warning the first time, when no asynchronous client was given, and
  \<open>get_next_version\<close>. An \<open>await\<close> is a call of the client; what other tasks do to the container between
  two calls is up to the client, which is a parameter. An asynchronous iteration gives the list of its items.
\<close>

section \<open>The asynchronous client\<close>

text \<open>\<open>download_blob\<close> gives a downloader, whose \<open>readall\<close> is a call of its own.\<close>

record 'w aio_container =
  aio_upload :: "string \<Rightarrow> string \<Rightarrow> string dict \<Rightarrow> ('w, unit) io"
  aio_download :: "string \<Rightarrow> ('w, ('w, string) io) io"
  aio_properties :: "string \<Rightarrow> ('w, string dict option) io"
  aio_delete :: "string \<Rightarrow> ('w, unit) io"
  aio_list :: "string \<Rightarrow> ('w, blob_item list) io"

definition adownload_blob :: "'w aio_container \<Rightarrow> string \<Rightarrow> ('w, string option) io" where
  "adownload_blob c path =
     io_catch (io_bind (aio_download c path) (\<lambda>readall. io_bind readall (\<lambda>x. io_return (Some x)))) (io_return None)"

definition alist_blob_items :: "'w aio_container \<Rightarrow> string \<Rightarrow> ('w, string list) io" where
  "alist_blob_items c pre = io_bind (aio_list c pre) (\<lambda>items. io_return (map bi_name items))"

definition ablob_metadata :: "'w aio_container \<Rightarrow> string \<Rightarrow> ('w, string dict) io" where
  "ablob_metadata c path =
     io_catch (io_bind (aio_properties c path) (\<lambda>m. io_return (case m of None \<Rightarrow> [] | Some d \<Rightarrow> d)))
       (io_return [])"

definition adownload_typed_blob ::
    "'w aio_container \<Rightarrow> string \<Rightarrow> ('w, (string \<times> string \<times> string dict) option) io" where
  "adownload_typed_blob c path =
     io_bind (adownload_blob c path) (\<lambda>payload.
       case payload of
         None \<Rightarrow> io_return None
       | Some data \<Rightarrow>
           io_bind (ablob_metadata c path) (\<lambda>metadata.
             io_return (case map_of metadata ''serde_type'' of
                 None \<Rightarrow> None
               | Some ty \<Rightarrow> (if ty = [] then None else Some (ty, data, metadata)))))"

definition ablob_exists :: "'w aio_container \<Rightarrow> string \<Rightarrow> ('w, bool) io" where
  "ablob_exists c path = io_catch (io_bind (aio_properties c path) (\<lambda>_. io_return True)) (io_return False)"

definition aupload_blob :: "'w aio_container \<Rightarrow> string \<Rightarrow> string \<Rightarrow> string dict \<Rightarrow> ('w, unit) io" where
  "aupload_blob c path payload metadata = aio_upload c path payload metadata"

definition aread_latest_checkpoint_id :: "'w aio_container \<Rightarrow> string \<Rightarrow> string \<Rightarrow> ('w, string option) io" where
  "aread_latest_checkpoint_id c t n =
     io_bind (adownload_blob c (latest_blob_path t n)) (\<lambda>payload.
       io_return (case payload of None \<Rightarrow> None | Some data \<Rightarrow> parse_latest_checkpoint_id data))"

definition alist_checkpoint_ids :: "saver \<Rightarrow> 'w aio_container \<Rightarrow> string \<Rightarrow> string \<Rightarrow> ('w, string list) io" where
  "alist_checkpoint_ids sv c t n =
     io_bind (alist_blob_items c (checkpoints_prefix t n)) (\<lambda>names. io_return (checkpoint_ids_of (cs_lossy sv) names))"

definition afind_latest_checkpoint_id :: "saver \<Rightarrow> 'w aio_container \<Rightarrow> string \<Rightarrow> string \<Rightarrow> ('w, string option) io" where
  "afind_latest_checkpoint_id sv c t n =
     io_bind (alist_checkpoint_ids sv c t n) (\<lambda>ids. io_return (case ids of [] \<Rightarrow> None | i # _ \<Rightarrow> Some i))"

definition alist_thread_ids :: "saver \<Rightarrow> 'w aio_container \<Rightarrow> ('w, string list) io" where
  "alist_thread_ids sv c =
     io_bind (alist_blob_items c ''threads/'') (\<lambda>names. io_return (sorted_names (listed_thread (cs_lossy sv)) names))"

definition alist_checkpoint_namespaces :: "saver \<Rightarrow> 'w aio_container \<Rightarrow> string \<Rightarrow> ('w, string list) io" where
  "alist_checkpoint_namespaces sv c t =
     io_bind (alist_blob_items c (thread_prefix t @ ''ns/''))
       (\<lambda>names. io_return (sorted_names (listed_namespace (cs_lossy sv)) names))"

section \<open>Loading a checkpoint\<close>

definition aload_channel_value ::
    "saver \<Rightarrow> 'w aio_container \<Rightarrow> string \<Rightarrow> string \<Rightarrow> string \<times> pyval \<Rightarrow> ('w, (string \<times> pyval) option) io" where
  "aload_channel_value sv c t n = (\<lambda>(channel, version).
     io_bind (adownload_typed_blob c (value_blob_path t n channel (py_str (cs_text sv) version))) (\<lambda>blob.
       case blob of
         None \<Rightarrow> io_return None
       | Some (ty, data, _) \<Rightarrow>
           (if ty = ''empty'' then io_return None
            else io_bind (io_lift (cs_loads sv (ty, data))) (\<lambda>v. io_return (Some (channel, v))))))"

definition aload_channel_values ::
    "saver \<Rightarrow> 'w aio_container \<Rightarrow> string \<Rightarrow> string \<Rightarrow> pyval dict \<Rightarrow> ('w, pyval dict) io" where
  "aload_channel_values sv c t n channel_versions = io_collect (aload_channel_value sv c t n) channel_versions"

definition aload_pending_write ::
    "saver \<Rightarrow> 'w aio_container \<Rightarrow> string \<Rightarrow> string \<Rightarrow> ('w, loaded_write option) io" where
  "aload_pending_write sv c pre name =
     (case parse_write_name (cs_lossy sv) pre name of
        None \<Rightarrow> io_return None
      | Some (task, idx) \<Rightarrow>
          io_bind (adownload_typed_blob c name) (\<lambda>blob.
            case blob of
              None \<Rightarrow> io_return None
            | Some (ty, data, meta) \<Rightarrow>
                (case map_of meta ''channel'' of
                   None \<Rightarrow> io_return None
                 | Some raw_channel \<Rightarrow>
                     (let un = unquote_text (cs_lossy sv);
                          task_id = (case map_of meta ''task_id'' of
                              None \<Rightarrow> task | Some raw \<Rightarrow> if raw = [] then task else un raw);
                          task_path = un (case map_of meta ''task_path'' of None \<Rightarrow> [] | Some raw \<Rightarrow> raw)
                      in io_bind (io_lift (cs_loads sv (ty, data))) (\<lambda>v.
                           io_return (Some (task_path, task_id, idx, un raw_channel, v)))))))"

definition aload_pending_writes ::
    "saver \<Rightarrow> 'w aio_container \<Rightarrow> string \<Rightarrow> string \<Rightarrow> string \<Rightarrow> ('w, (string \<times> string \<times> pyval) list) io" where
  "aload_pending_writes sv c t n i =
     (let pre = writes_prefix t n i in
      io_bind (alist_blob_items c pre) (\<lambda>names.
        io_bind (io_collect (aload_pending_write sv c pre) names) (\<lambda>loaded.
          io_return (map (\<lambda>(path, task, idx, channel, v). (task, channel, v)) (sort_key write_key loaded)))))"

definition abuild_tuple ::
    "saver \<Rightarrow> 'w aio_container \<Rightarrow> string \<Rightarrow> string \<Rightarrow> string \<Rightarrow> pyval dict \<Rightarrow> ('w, checkpoint_tuple option) io" where
  "abuild_tuple sv c t n i return_config =
     io_bind (adownload_typed_blob c (checkpoint_blob_path t n i)) (\<lambda>blob.
       case blob of
         None \<Rightarrow> io_return None
       | Some (ty, payload, meta) \<Rightarrow>
           io_bind (io_lift (cs_loads sv (ty, payload))) (\<lambda>data.
           io_bind (io_lift (item_of data ''channel_versions'')) (\<lambda>versions.
           io_bind (io_lift (items_of versions)) (\<lambda>channel_versions.
           io_bind (aload_channel_values sv c t n channel_versions) (\<lambda>values.
           io_bind (adownload_typed_blob c (metadata_blob_path t n i)) (\<lambda>meta_blob.
             case meta_blob of
               None \<Rightarrow> io_return None
             | Some (mty, mpayload, _) \<Rightarrow>
                 io_bind (io_lift (cs_loads sv (mty, mpayload))) (\<lambda>metadata.
                 io_bind (aload_pending_writes sv c t n i) (\<lambda>pending.
                 io_bind (io_lift (items_of data)) (\<lambda>fields.
                   io_return (Some
                     \<lparr>tp_config = return_config,
                      tp_checkpoint = AList.update ''channel_values'' (PDict values) fields,
                      tp_metadata = metadata,
                      tp_parent = (case parent_of sv meta of
                          None \<Rightarrow> None
                        | Some p \<Rightarrow> if p = [] then None else Some (checkpoint_config t n p)),
                      tp_writes = pending\<rparr>))))))))))"

definition native_get_tuple :: "saver \<Rightarrow> 'w aio_container \<Rightarrow> pyval dict \<Rightarrow> ('w, checkpoint_tuple option) io" where
  "native_get_tuple sv c config =
     io_bind (io_lift (config_thread_id sv config)) (\<lambda>t.
     io_bind (io_lift (config_checkpoint_ns sv config)) (\<lambda>n.
     io_bind (io_lift (cs_checkpoint_id sv config)) (\<lambda>requested.
       let scan =
         io_bind (afind_latest_checkpoint_id sv c t n) (\<lambda>actual.
           case actual of
             None \<Rightarrow> io_return None
           | Some i \<Rightarrow> abuild_tuple sv c t n i (checkpoint_config t n i))
       in case requested of
            Some (x # xs) \<Rightarrow> abuild_tuple sv c t n (x # xs) config
          | _ \<Rightarrow>
              io_bind (aread_latest_checkpoint_id c t n) (\<lambda>hint.
                case hint of
                  None \<Rightarrow> scan
                | Some i \<Rightarrow>
                    io_bind (abuild_tuple sv c t n i (checkpoint_config t n i)) (\<lambda>tuple.
                      case tuple of Some tp \<Rightarrow> io_return (Some tp) | None \<Rightarrow> scan)))))"

section \<open>The asynchronous generator\<close>

fun ayield_ids ::
    "saver \<Rightarrow> 'w aio_container \<Rightarrow> selection \<Rightarrow> string \<Rightarrow> string \<Rightarrow> string list \<Rightarrow> int option \<Rightarrow>
     ('w, checkpoint_tuple list \<times> int option option) io" where
  "ayield_ids sv c sel t n [] remaining = io_return ([], Some remaining)"
| "ayield_ids sv c sel t n (i # is) remaining =
     (if (case se_id sel of None \<Rightarrow> False | Some j \<Rightarrow> i \<noteq> j) then ayield_ids sv c sel t n is remaining
      else if (case se_before sel of None \<Rightarrow> False | Some j \<Rightarrow> j \<le> i) then ayield_ids sv c sel t n is remaining
      else
        io_bind (abuild_tuple sv c t n i (checkpoint_config t n i)) (\<lambda>tuple.
          case tuple of
            None \<Rightarrow> ayield_ids sv c sel t n is remaining
          | Some tp \<Rightarrow>
              io_bind (io_lift (metadata_selected (se_filter sel) (tp_metadata tp))) (\<lambda>ok.
                if \<not> ok then ayield_ids sv c sel t n is remaining
                else if (case remaining of None \<Rightarrow> False | Some k \<Rightarrow> k \<le> 0) then io_return ([], None)
                else io_bind (ayield_ids sv c sel t n is (map_option (\<lambda>k. k - 1) remaining))
                       (\<lambda>(tps, left). io_return (tp # tps, left)))))"

definition ayield_namespace ::
    "saver \<Rightarrow> 'w aio_container \<Rightarrow> selection \<Rightarrow> string \<Rightarrow> string \<Rightarrow> int option \<Rightarrow>
     ('w, checkpoint_tuple list \<times> int option option) io" where
  "ayield_namespace sv c sel t n remaining =
     io_bind (alist_checkpoint_ids sv c t n) (\<lambda>ids. ayield_ids sv c sel t n ids remaining)"

definition ayield_thread ::
    "saver \<Rightarrow> 'w aio_container \<Rightarrow> selection \<Rightarrow> string option \<Rightarrow> string \<Rightarrow> int option \<Rightarrow>
     ('w, checkpoint_tuple list \<times> int option option) io" where
  "ayield_thread sv c sel ns t remaining =
     io_bind (case ns of Some n \<Rightarrow> io_return [n] | None \<Rightarrow> alist_checkpoint_namespaces sv c t)
       (\<lambda>namespaces. yield_each (ayield_namespace sv c sel t) namespaces remaining)"

definition native_list_checkpoints ::
    "saver \<Rightarrow> 'w aio_container \<Rightarrow> pyval dict option \<Rightarrow> pyval dict option \<Rightarrow> pyval dict option \<Rightarrow> int option \<Rightarrow>
     ('w, checkpoint_tuple list) io" where
  "native_list_checkpoints sv c config wanted before limit =
     io_bind (io_lift (opt_res (config_checkpoint_ns sv) (given config))) (\<lambda>ns.
     io_bind (io_lift (opt_id sv config)) (\<lambda>i.
     io_bind (io_lift (opt_id sv before)) (\<lambda>j.
     io_bind (case given config of
         Some d \<Rightarrow> io_bind (io_lift (config_thread_id sv d)) (\<lambda>t. io_return [t])
       | None \<Rightarrow> alist_thread_ids sv c) (\<lambda>threads.
     io_bind (yield_each (ayield_thread sv c \<lparr>se_id = i, se_before = j, se_filter = wanted\<rparr> ns) threads limit)
       (\<lambda>(tps, left). io_return tps)))))"

section \<open>Writing\<close>

definition aguarded_upload ::
    "'w aio_container \<Rightarrow> 'w write_check \<Rightarrow> nat option \<Rightarrow> string \<Rightarrow> string \<Rightarrow> string dict \<Rightarrow> ('w, unit) io" where
  "aguarded_upload c chk guard path payload metadata =
     io_then (check_guard chk guard) (aupload_blob c path payload metadata)"

definition acurrent_latest :: "saver \<Rightarrow> 'w aio_container \<Rightarrow> string \<Rightarrow> string \<Rightarrow> ('w, string option) io" where
  "acurrent_latest sv c t n =
     io_bind (aread_latest_checkpoint_id c t n) (\<lambda>hint.
       case hint of
         None \<Rightarrow> afind_latest_checkpoint_id sv c t n
       | Some i \<Rightarrow>
           io_bind (ablob_exists c (checkpoint_blob_path t n i)) (\<lambda>present.
             if present then io_return (Some i) else afind_latest_checkpoint_id sv c t n))"

definition aput_value ::
    "saver \<Rightarrow> 'w aio_container \<Rightarrow> 'w write_check \<Rightarrow> nat option \<Rightarrow> string \<Rightarrow> string \<Rightarrow> pyval dict \<Rightarrow>
     string \<times> pyval \<Rightarrow> ('w, unit) io" where
  "aput_value sv c chk guard t n channel_values = (\<lambda>(channel, version).
     io_bind (io_lift (typed_value sv channel_values channel)) (\<lambda>(ty, payload).
       aguarded_upload c chk guard (value_blob_path t n channel (py_str (cs_text sv) version)) payload
         [(''serde_type'', ty)]))"

definition native_put ::
    "saver \<Rightarrow> 'w aio_container \<Rightarrow> 'w write_check \<Rightarrow> nat option \<Rightarrow> pyval dict \<Rightarrow> pyval dict \<Rightarrow> pyval dict \<Rightarrow>
     pyval dict \<Rightarrow> ('w, pyval dict) io" where
  "native_put sv c chk scoped config checkpoint metadata new_versions =
     io_bind (io_lift (write_guard sv scoped config)) (\<lambda>guard.
     io_bind (io_lift (config_thread_id sv config)) (\<lambda>t.
     io_bind (io_lift (config_checkpoint_ns sv config)) (\<lambda>n.
     io_bind (io_lift (checkpoint_id_of checkpoint)) (\<lambda>i.
     io_bind (io_lift (cs_checkpoint_id sv config)) (\<lambda>parent.
     io_bind (acurrent_latest sv c t n) (\<lambda>current.
     io_then (aguarded_upload c chk guard (latest_blob_path t n) dirty_payload [])
     (io_bind (io_lift (channel_values_of checkpoint)) (\<lambda>channel_values.
      io_then (io_each (aput_value sv c chk guard t n channel_values) new_versions)
     (io_bind (io_lift (cs_dumps sv (PDict (cs_metadata sv config metadata)))) (\<lambda>(mty, mpayload).
      io_then (aguarded_upload c chk guard (metadata_blob_path t n i) mpayload [(''serde_type'', mty)])
     (io_bind (io_lift (cs_dumps sv (PDict (AList.delete ''channel_values'' checkpoint)))) (\<lambda>(ty, payload).
      io_then (aguarded_upload c chk guard (checkpoint_blob_path t n i) payload (marker_metadata ty parent))
     (io_then (aguarded_upload c chk guard (latest_blob_path t n)
        (latest_payload (max (case current of None \<Rightarrow> [] | Some j \<Rightarrow> j) i)) [])
     (io_return (checkpoint_config t n i)))))))))))))))"

definition aput_write ::
    "saver \<Rightarrow> 'w aio_container \<Rightarrow> 'w write_check \<Rightarrow> nat option \<Rightarrow> string \<Rightarrow> string \<Rightarrow> string \<Rightarrow> string \<Rightarrow> string \<Rightarrow>
     nat \<times> string \<times> pyval \<Rightarrow> ('w, unit) io" where
  "aput_write sv c chk guard t n i task path = (\<lambda>(k, channel, v).
     let idx = (case cs_write_index sv channel of None \<Rightarrow> int k | Some j \<Rightarrow> j);
         blob = write_blob_path t n i task idx
     in io_bind (if idx \<ge> 0 then ablob_exists c blob else io_return False) (\<lambda>present.
          if present then io_return ()
          else io_bind (io_lift (cs_dumps sv v)) (\<lambda>(ty, payload).
            aguarded_upload c chk guard blob payload
              [(''serde_type'', ty), (''channel'', quote channel), (''task_id'', quote task),
               (''task_path'', quote path)])))"

definition native_put_writes ::
    "saver \<Rightarrow> 'w aio_container \<Rightarrow> 'w write_check \<Rightarrow> nat option \<Rightarrow> pyval dict \<Rightarrow> (string \<times> pyval) list \<Rightarrow> string \<Rightarrow>
     string \<Rightarrow> ('w, unit) io" where
  "native_put_writes sv c chk scoped config writes task path =
     io_bind (io_lift (write_guard sv scoped config)) (\<lambda>guard.
     io_bind (io_lift (config_thread_id sv config)) (\<lambda>t.
     io_bind (io_lift (config_checkpoint_ns sv config)) (\<lambda>n.
     io_bind (io_lift (cs_checkpoint_id sv config)) (\<lambda>requested.
       case requested of
         None \<Rightarrow> io_raise (value_error ''checkpoint_id is required in config to store writes'')
       | Some i \<Rightarrow> io_each (aput_write sv c chk guard t n i task path) (List.enumerate 0 writes)))))"

definition native_delete_thread :: "'w aio_container \<Rightarrow> string \<Rightarrow> ('w, unit) io" where
  "native_delete_thread c t = io_bind (alist_blob_items c (thread_prefix t)) (\<lambda>names. io_each (aio_delete c) names)"

section \<open>The public methods\<close>

text \<open>The saver's own state is the flag of the one-time warning; the log keeps the names of the calls it warned about.\<close>

record 'w async_saver =
  ay_world :: 'w
  ay_warned :: bool
  ay_log :: "string list"

definition on_world :: "('w, 'a) io \<Rightarrow> ('w async_saver, 'a) io" where
  "on_world m s = (case m (ay_world s) of (r, w) \<Rightarrow> (r, s\<lparr>ay_world := w\<rparr>))"

definition warn_sync_fallback :: "string \<Rightarrow> 'w async_saver \<Rightarrow> 'w async_saver" where
  "warn_sync_fallback called s =
     (if ay_warned s then s else s\<lparr>ay_warned := True, ay_log := ay_log s @ [called]\<rparr>)"

definition with_fallback ::
    "string \<Rightarrow> 'w aio_container option \<Rightarrow> ('w aio_container \<Rightarrow> ('w, 'a) io) \<Rightarrow> ('w, 'a) io \<Rightarrow> ('w async_saver, 'a) io" where
  "with_fallback called client native blocking s =
     (case client of
        None \<Rightarrow> on_world blocking (warn_sync_fallback called s)
      | Some a \<Rightarrow> on_world (native a) s)"

definition aget_tuple ::
    "saver \<Rightarrow> 'w container \<Rightarrow> 'w aio_container option \<Rightarrow> pyval dict \<Rightarrow> ('w async_saver, checkpoint_tuple option) io" where
  "aget_tuple sv c client config =
     with_fallback ''aget_tuple'' client (\<lambda>a. native_get_tuple sv a config) (get_tuple sv c config)"

definition alist ::
    "saver \<Rightarrow> 'w container \<Rightarrow> 'w aio_container option \<Rightarrow> pyval dict option \<Rightarrow> pyval dict option \<Rightarrow>
     pyval dict option \<Rightarrow> int option \<Rightarrow> ('w async_saver, checkpoint_tuple list) io" where
  "alist sv c client config wanted before limit =
     with_fallback ''alist'' client (\<lambda>a. native_list_checkpoints sv a config wanted before limit)
       (list_checkpoints sv c config wanted before limit)"

definition aput ::
    "saver \<Rightarrow> 'w container \<Rightarrow> 'w aio_container option \<Rightarrow> 'w write_check \<Rightarrow> nat option \<Rightarrow> pyval dict \<Rightarrow>
     pyval dict \<Rightarrow> pyval dict \<Rightarrow> pyval dict \<Rightarrow> ('w async_saver, pyval dict) io" where
  "aput sv c client chk scoped config checkpoint metadata new_versions =
     with_fallback ''aput'' client (\<lambda>a. native_put sv a chk scoped config checkpoint metadata new_versions)
       (put sv c chk scoped config checkpoint metadata new_versions)"

definition aput_writes ::
    "saver \<Rightarrow> 'w container \<Rightarrow> 'w aio_container option \<Rightarrow> 'w write_check \<Rightarrow> nat option \<Rightarrow> pyval dict \<Rightarrow>
     (string \<times> pyval) list \<Rightarrow> string \<Rightarrow> string \<Rightarrow> ('w async_saver, unit) io" where
  "aput_writes sv c client chk scoped config writes task path =
     with_fallback ''aput_writes'' client (\<lambda>a. native_put_writes sv a chk scoped config writes task path)
       (put_writes sv c chk scoped config writes task path)"

definition adelete_thread ::
    "'w container \<Rightarrow> 'w aio_container option \<Rightarrow> string \<Rightarrow> ('w async_saver, unit) io" where
  "adelete_thread c client t =
     with_fallback ''adelete_thread'' client (\<lambda>a. native_delete_thread a t) (delete_thread c t)"

section \<open>The coroutines are the synchronous operations\<close>

text \<open>An asynchronous client whose calls are awaited one after another is a synchronous client.\<close>

definition awaited :: "'w aio_container \<Rightarrow> 'w container" where
  "awaited a =
     \<lparr>ct_upload = aio_upload a, ct_download = (\<lambda>p. io_bind (aio_download a p) (\<lambda>readall. readall)),
      ct_properties = aio_properties a, ct_delete = aio_delete a, ct_list = aio_list a\<rparr>"

named_theorems awaits "a coroutine is the synchronous operation on the awaited client"

lemma io_bind_assoc: "io_bind (io_bind m f) g = io_bind m (\<lambda>x. io_bind (f x) g)"
  by (rule ext) (simp add: io_bind_def split: prod.split sum.split)

lemma awaits_calls [awaits]:
  "adownload_blob a p = download_blob (awaited a) p" "ablob_metadata a p = blob_metadata (awaited a) p"
  "ablob_exists a p = blob_exists (awaited a) p" "aupload_blob a p x m = upload_blob (awaited a) p x m"
  "alist_blob_items a pre = list_names (awaited a) pre" "aio_delete a = ct_delete (awaited a)"
  by (simp_all add: adownload_blob_def download_blob_def ablob_metadata_def blob_metadata_def ablob_exists_def
      blob_exists_def aupload_blob_def upload_blob_def alist_blob_items_def list_names_def awaited_def io_bind_assoc)

lemma awaits_typed [awaits]: "adownload_typed_blob a p = download_typed_blob (awaited a) p"
  unfolding adownload_typed_blob_def download_typed_blob_def awaits ..

lemma awaits_listings [awaits]:
  "aread_latest_checkpoint_id a t n = read_latest_checkpoint_id (awaited a) t n"
  "alist_checkpoint_ids sv a t n = list_checkpoint_ids sv (awaited a) t n"
  "alist_thread_ids sv a = list_thread_ids sv (awaited a)"
  "alist_checkpoint_namespaces sv a t = list_checkpoint_namespaces sv (awaited a) t"
  unfolding aread_latest_checkpoint_id_def read_latest_checkpoint_id_def alist_checkpoint_ids_def
    list_checkpoint_ids_def alist_thread_ids_def list_thread_ids_def alist_checkpoint_namespaces_def
    list_checkpoint_namespaces_def awaits by (rule refl)+

lemma awaits_latest [awaits]: "afind_latest_checkpoint_id sv a t n = find_latest_checkpoint_id sv (awaited a) t n"
  unfolding afind_latest_checkpoint_id_def find_latest_checkpoint_id_def awaits ..

lemma awaits_values [awaits]: "aload_channel_values sv a t n = load_channel_values sv (awaited a) t n"
proof -
  have "aload_channel_value sv a t n = load_channel_value sv (awaited a) t n"
    unfolding aload_channel_value_def load_channel_value_def awaits ..
  then show ?thesis by (intro ext) (simp only: aload_channel_values_def load_channel_values_def)
qed

lemma awaits_pending [awaits]: "aload_pending_writes sv a t n i = load_pending_writes sv (awaited a) t n i"
proof -
  have "aload_pending_write sv a pre = load_pending_write sv (awaited a) pre" for pre
    by (rule ext, unfold aload_pending_write_def load_pending_write_def awaits) (rule refl)
  then show ?thesis by (simp only: aload_pending_writes_def load_pending_writes_def awaits)
qed

lemma awaits_build [awaits]: "abuild_tuple sv a t n i cfg = build_tuple sv (awaited a) t n i cfg"
  unfolding abuild_tuple_def build_tuple_def awaits ..

lemma awaits_get [awaits]: "native_get_tuple sv a config = get_tuple sv (awaited a) config"
  unfolding native_get_tuple_def get_tuple_def awaits ..

lemma awaits_yield [awaits]: "ayield_thread sv a sel ns = yield_thread sv (awaited a) sel ns"
proof -
  have "ayield_ids sv a sel t n is k = yield_ids sv (awaited a) sel t n is k" for t n "is" k
    by (induction "is" arbitrary: k) (simp_all only: ayield_ids.simps yield_ids.simps awaits)
  then have "ayield_namespace sv a sel t = yield_namespace sv (awaited a) sel t" for t
    by (intro ext) (simp only: ayield_namespace_def yield_namespace_def awaits)
  then show ?thesis by (intro ext) (simp only: ayield_thread_def yield_thread_def awaits)
qed

lemma awaits_list [awaits]:
  "native_list_checkpoints sv a config wanted before limit = list_checkpoints sv (awaited a) config wanted before limit"
  unfolding native_list_checkpoints_def list_checkpoints_def awaits ..

lemma awaits_put [awaits]:
  "native_put sv a chk scoped config checkpoint metadata new_versions =
     put sv (awaited a) chk scoped config checkpoint metadata new_versions"
proof -
  have up: "aguarded_upload a chk guard p x m = guarded_upload (awaited a) chk guard p x m" for guard p x m
    unfolding aguarded_upload_def guarded_upload_def awaits ..
  have "acurrent_latest sv a t n = current_latest sv (awaited a) t n" for t n
    unfolding acurrent_latest_def current_latest_def awaits ..
  moreover have "aput_value sv a chk guard t n vs = put_value sv (awaited a) chk guard t n vs" for guard t n vs
    unfolding aput_value_def put_value_def up ..
  ultimately show ?thesis by (simp only: native_put_def put_def up)
qed

lemma awaits_put_writes [awaits]:
  "native_put_writes sv a chk scoped config writes task path = put_writes sv (awaited a) chk scoped config writes task path"
proof -
  have up: "aguarded_upload a chk guard p x m = guarded_upload (awaited a) chk guard p x m" for guard p x m
    unfolding aguarded_upload_def guarded_upload_def awaits ..
  have "aput_write sv a chk guard t n i task path = put_write sv (awaited a) chk guard t n i task path" for guard t n i
    unfolding aput_write_def put_write_def up awaits ..
  then show ?thesis by (simp only: native_put_writes_def put_writes_def)
qed

lemma awaits_delete [awaits]: "native_delete_thread a t = delete_thread (awaited a) t"
  unfolding native_delete_thread_def delete_thread_def awaits ..

text \<open>The client a public method ends up calling.\<close>

definition client_of :: "'w container \<Rightarrow> 'w aio_container option \<Rightarrow> 'w container" where
  "client_of c client = (case client of None \<Rightarrow> c | Some a \<Rightarrow> awaited a)"

definition warned :: "string \<Rightarrow> 'w aio_container option \<Rightarrow> 'w async_saver \<Rightarrow> 'w async_saver" where
  "warned called client s = (if client = None then warn_sync_fallback called s else s)"

lemma with_fallback_eq:
  "with_fallback called client (\<lambda>a. m (awaited a)) (m c) s = on_world (m (client_of c client)) (warned called client s)"
  by (cases client) (simp_all add: with_fallback_def client_of_def warned_def)

lemma public_eqs:
  "aget_tuple sv c client config s =
     on_world (get_tuple sv (client_of c client) config) (warned ''aget_tuple'' client s)"
  "alist sv c client cfg wanted before limit s =
     on_world (list_checkpoints sv (client_of c client) cfg wanted before limit) (warned ''alist'' client s)"
  "aput sv c client chk scoped config checkpoint metadata new_versions s =
     on_world (put sv (client_of c client) chk scoped config checkpoint metadata new_versions)
       (warned ''aput'' client s)"
  "aput_writes sv c client chk scoped config writes task path s =
     on_world (put_writes sv (client_of c client) chk scoped config writes task path)
       (warned ''aput_writes'' client s)"
  "adelete_thread c client t s =
     on_world (delete_thread (client_of c client) t) (warned ''adelete_thread'' client s)"
  unfolding aget_tuple_def alist_def aput_def aput_writes_def adelete_thread_def awaits
  by (rule with_fallback_eq)+

text \<open>
  Every asynchronous method is its synchronous twin: on the asynchronous client if one was given,
  call for call, and else on the synchronous client, with the warning on the first such call only.
\<close>

theorem async_methods_match:
  "aget_tuple sv c client config s =
     on_world (get_tuple sv (client_of c client) config) (warned ''aget_tuple'' client s) \<and>
   alist sv c client cfg wanted before limit s =
     on_world (list_checkpoints sv (client_of c client) cfg wanted before limit) (warned ''alist'' client s) \<and>
   aput sv c client chk scoped config checkpoint metadata new_versions s =
     on_world (put sv (client_of c client) chk scoped config checkpoint metadata new_versions)
       (warned ''aput'' client s) \<and>
   aput_writes sv c client chk scoped config writes task path s =
     on_world (put_writes sv (client_of c client) chk scoped config writes task path)
       (warned ''aput_writes'' client s) \<and>
   adelete_thread c client t s =
     on_world (delete_thread (client_of c client) t) (warned ''adelete_thread'' client s)"
  by (intro conjI public_eqs)

section \<open>Both halves together\<close>

text \<open>A program may use both halves of the saver, one call after another.\<close>

datatype mixed_op =
    Blocking saver_op
  | AwaitPut "nat option" "pyval dict" "pyval dict" "pyval dict" "pyval dict"
  | AwaitPutWrites "nat option" "pyval dict" "(string \<times> pyval) list" string string
  | AwaitDeleteThread string
  | AwaitGet "pyval dict"
  | AwaitList "pyval dict option" "pyval dict option" "pyval dict option" "int option"

fun mixed_step ::
    "saver \<Rightarrow> 'w container \<Rightarrow> 'w aio_container option \<Rightarrow> 'w write_check \<Rightarrow> mixed_op \<Rightarrow> 'w async_saver \<Rightarrow> 'w async_saver" where
  "mixed_step sv c client chk (Blocking x) s = s\<lparr>ay_world := saver_step sv c chk x (ay_world s)\<rparr>"
| "mixed_step sv c client chk (AwaitPut scoped config checkpoint metadata versions) s =
     snd (aput sv c client chk scoped config checkpoint metadata versions s)"
| "mixed_step sv c client chk (AwaitPutWrites scoped config writes task path) s =
     snd (aput_writes sv c client chk scoped config writes task path s)"
| "mixed_step sv c client chk (AwaitDeleteThread t) s = snd (adelete_thread c client t s)"
| "mixed_step sv c client chk (AwaitGet config) s = snd (aget_tuple sv c client config s)"
| "mixed_step sv c client chk (AwaitList config wanted before limit) s =
     snd (alist sv c client config wanted before limit s)"

definition mixed_run ::
    "saver \<Rightarrow> 'w container \<Rightarrow> 'w aio_container option \<Rightarrow> 'w write_check \<Rightarrow> mixed_op list \<Rightarrow> 'w async_saver \<Rightarrow> 'w async_saver" where
  "mixed_run sv c client chk ops s = fold (mixed_step sv c client chk) ops s"

fun mixed_wf :: "mixed_op \<Rightarrow> bool" where
  "mixed_wf (Blocking x) = op_wf x"
| "mixed_wf (AwaitPut scoped config checkpoint metadata versions) = dict_ok versions"
| "mixed_wf _ = True"

text \<open>Both clients look at the same container.\<close>

definition clients_ok ::
    "'w container \<Rightarrow> 'w aio_container option \<Rightarrow> ('w \<Rightarrow> bstore) \<Rightarrow> ('w \<Rightarrow> bool) \<Rightarrow> (exn \<Rightarrow> bool) \<Rightarrow> bool" where
  "clients_ok c client view good fails \<longleftrightarrow>
     container_laws c view good fails \<and> container_laws (client_of c client) view good fails"

lemma on_world_world: "ay_world (snd (on_world m s)) = snd (m (ay_world s))"
  by (simp add: on_world_def split: prod.split)

lemma on_world_flags: "ay_warned (snd (on_world m s)) = ay_warned s" "ay_log (snd (on_world m s)) = ay_log s"
  by (simp_all add: on_world_def split: prod.split)

lemma fst_on_world: "fst (on_world m s) = fst (m (ay_world s))"
  by (simp add: on_world_def split: prod.split)

lemma warned_world [simp]: "ay_world (warned called client s) = ay_world s"
  by (simp add: warned_def warn_sync_fallback_def)

text \<open>A step is an operation of the synchronous saver on one of the two clients, or changes nothing.\<close>

lemma mixed_step_cases:
  obtains (step) k x where "k = c \<or> k = client_of c client" "mixed_wf m \<Longrightarrow> op_wf x"
      "ay_world (mixed_step sv c client chk m s) = saver_step sv k chk x (ay_world s)"
    | (get) config where "ay_world (mixed_step sv c client chk m s) = snd (get_tuple sv (client_of c client) config (ay_world s))"
    | (listing) config wanted before limit where "ay_world (mixed_step sv c client chk m s) =
        snd (list_checkpoints sv (client_of c client) config wanted before limit (ay_world s))"
proof (cases m)
  case (Blocking x)
  then show thesis using step [of c x] by simp
next
  case (AwaitPut scoped config checkpoint metadata versions)
  then show thesis using step [of "client_of c client" "OpPut scoped config checkpoint metadata versions"]
    by (simp add: public_eqs on_world_world)
next
  case (AwaitPutWrites scoped config writes task path)
  then show thesis using step [of "client_of c client" "OpPutWrites scoped config writes task path"]
    by (simp add: public_eqs on_world_world)
next
  case (AwaitDeleteThread t)
  then show thesis using step [of "client_of c client" "OpDeleteThread t"]
    by (simp add: public_eqs on_world_world)
qed (use step get listing in \<open>simp_all add: public_eqs on_world_world\<close>)

lemma mixed_step_ok:
  assumes "clients_ok c client view good fails" "rejections_fail chk good fails" "mixed_wf m"
    and "good (ay_world s)" "blobs_ok (view (ay_world s))"
  shows "good (ay_world (mixed_step sv c client chk m s)) \<and> blobs_ok (view (ay_world (mixed_step sv c client chk m s)))"
proof -
  have laws: "container_laws k view good fails" if "k = c \<or> k = client_of c client" for k
    using that assms(1) by (auto simp: clients_ok_def)
  have read: "good (snd (f (ay_world s))) \<and> blobs_ok (view (snd (f (ay_world s))))"
    if "sim view good fails f f'" "readonly f'" for f :: "('a, 'b) io" and f'
    by (rule keeps_step [OF that(1) keeps_readonly [OF that(2)] assms(4,5)])
  show ?thesis
  proof (cases rule: mixed_step_cases [where c = c and client = client and m = m and sv = sv and chk = chk and s = s])
    case (step k x)
    with saver_step_ok [OF laws [OF step(1)] assms(2,4,5) step(2) [OF assms(3)]] show ?thesis by simp
  next
    case (get config)
    show ?thesis unfolding get by (rule read [OF sim_get(2) [OF laws] readonly_get(2)]) simp
  next
    case (listing config wanted before limit)
    show ?thesis unfolding listing by (rule read [OF sim_get(3) [OF laws] readonly_get(3)]) simp
  qed
qed

lemma mixed_run_ok:
  assumes "clients_ok c client view good fails" "rejections_fail chk good fails" "\<forall>m\<in>set ops. mixed_wf m"
    and "good (ay_world s)" "blobs_ok (view (ay_world s))"
  shows "good (ay_world (mixed_run sv c client chk ops s)) \<and> blobs_ok (view (ay_world (mixed_run sv c client chk ops s)))"
  using assms(3-5)
proof (induction ops arbitrary: s)
  case (Cons m ops)
  then show ?case using mixed_step_ok [OF assms(1,2)] by (simp add: mixed_run_def)
qed (simp add: mixed_run_def)

text \<open>The warning: at most one, and none with an asynchronous client.\<close>

definition warned_once :: "'w aio_container option \<Rightarrow> 'w async_saver \<Rightarrow> bool" where
  "warned_once client s \<longleftrightarrow>
     (if client = None then length (ay_log s) = of_bool (ay_warned s) else ay_log s = [] \<and> \<not> ay_warned s)"

lemma mixed_step_warned: "warned_once client s \<Longrightarrow> warned_once client (mixed_step sv c client chk m s)"
  by (cases m) (simp_all add: public_eqs warned_once_def on_world_flags warned_def warn_sync_fallback_def)

lemma mixed_run_warned: "warned_once client s \<Longrightarrow> warned_once client (mixed_run sv c client chk ops s)"
  unfolding mixed_run_def by (induction ops arbitrary: s) (simp_all add: mixed_step_warned)

text \<open>
  C25: After any sequence of synchronous and asynchronous calls on the same container, each of them cut
  short or not, \<open>aget_tuple\<close> answers with the newest stored checkpoint, or the read itself fails; and
  the saver has warned of the missing asynchronous client at most once, never if there is one.
\<close>

theorem async_get_after_any_run:
  assumes "clients_ok c client view good fails" "rejections_fail chk good fails" "\<forall>m\<in>set ops. mixed_wf m"
    and "good w" "blobs_ok (view w)"
    and "config_thread_id sv config = Inr t" "config_checkpoint_ns sv config = Inr n"
    and "cs_checkpoint_id sv config = Inr None"
  shows "let s = mixed_run sv c client chk ops \<lparr>ay_world = w, ay_warned = False, ay_log = []\<rparr>;
      (r, s') = aget_tuple sv c client config s in
    (same_result r (newest_tuple sv (view (ay_world s)) t n) \<or> (\<exists>e. r = Inl e \<and> fails e)) \<and>
    length (ay_log s') = (if client = None then 1 else 0)"
proof -
  let ?init = "\<lparr>ay_world = w, ay_warned = False, ay_log = []\<rparr>"
  let ?s = "mixed_run sv c client chk ops ?init"
  have ok: "good (ay_world ?s)" "blobs_ok (view (ay_world ?s))"
    using mixed_run_ok [OF assms(1-3), where s = ?init] assms(4,5) by simp_all
  have laws: "container_laws (client_of c client) view good fails" using assms(1) by (simp add: clients_ok_def)
  obtain r w2 where run: "get_tuple sv (client_of c client) config (ay_world ?s) = (r, w2)" by fastforce
  have "answer (get_tuple sv ideal config) (view (ay_world ?s)) = newest_tuple sv (view (ay_world ?s)) t n"
    by (rule get_newest [OF ok(2) assms(6-8)]) simp
  with sim_reads [OF sim_get(2) [OF laws] readonly_reads [OF readonly_get(2)] ok(1) run]
  have r: "same_result r (newest_tuple sv (view (ay_world ?s)) t n) \<or> (\<exists>e. r = Inl e \<and> fails e)" by simp
  have "warned_once client ?s" by (rule mixed_run_warned) (simp add: warned_once_def)
  then have "length (ay_log (warned ''aget_tuple'' client ?s)) = (if client = None then 1 else 0)"
    by (auto simp: warned_once_def warned_def warn_sync_fallback_def split: if_splits)
  with r show ?thesis by (simp add: public_eqs on_world_def run)
qed

text \<open>The container in memory as an asynchronous client: the download itself makes the call.\<close>

definition memory_aio :: "blob_memory aio_container" where
  "memory_aio =
     \<lparr>aio_upload = ct_upload memory_container, aio_download = (\<lambda>p. io_return (ct_download memory_container p)),
      aio_properties = ct_properties memory_container, aio_delete = ct_delete memory_container,
      aio_list = ct_list memory_container\<rparr>"

lemma memory_aio_awaited: "awaited memory_aio = memory_container"
  by (simp add: awaited_def memory_aio_def io_bind_lift)

lemma memory_clients: "clients_ok memory_container (Some memory_aio) memory_view (memory_ok calm) (memory_fails calm)"
  by (simp add: clients_ok_def client_of_def memory_aio_awaited memory_laws)

lemma async_get_after_any_run_witness:
  "let s = mixed_run example_saver memory_container (Some memory_aio) never_rejects
        [AwaitPut None example_config example_checkpoint [] example_versions, Blocking (OpDeleteOld ''t'' 1 None)]
        \<lparr>ay_world = empty_memory (Some 12), ay_warned = False, ay_log = []\<rparr>;
      (r, s') = aget_tuple example_saver memory_container (Some memory_aio) example_config s in
    (same_result r (newest_tuple example_saver (memory_view (ay_world s)) ''t'' []) \<or> (\<exists>e. r = Inl e \<and> memory_fails False e)) \<and>
    length (ay_log s') = (if Some memory_aio = None then 1 else 0)"
  by (rule async_get_after_any_run [OF memory_clients [of False] never_rejects_ok])
    (simp_all add: empty_memory_ok blobs_ok_empty example_dict example_saver_def example_config_def config_thread_id_def
      config_checkpoint_ns_def field_or_none_def py_str_def)

end
