(* ===== verification/Channel_Versions.thy ===== *)
theory Channel_Versions
  imports Blob_Paths
begin

text \<open>
  The channel versions the checkpoint saver hands out (\<open>get_next_version\<close> of
  \<^verbatim>\<open>checkpointers/azure_blob.py\<close>): a counter padded to 32 digits and a random suffix, so that the
  order of the strings is the order of the versions. The suffix is an argument: any text.
\<close>

section \<open>\<open>get_next_version\<close>\<close>

text \<open>The format \<open>032\<close>: zeros after the sign up to 32 characters.\<close>

definition version_width :: nat where
  "version_width = 32"

definition pad_zeros :: "nat \<Rightarrow> string \<Rightarrow> string" where
  "pad_zeros k s = replicate (k - length s) (CHR ''0'') @ s"

definition padded :: "int \<Rightarrow> string" where
  "padded i =
     (if i < 0 then CHR ''-'' # pad_zeros (version_width - 1) (nat_text (nat (- i)))
      else pad_zeros version_width (nat_text (nat i)))"

definition current_version :: "pyval \<Rightarrow> exn + int" where
  "current_version current =
     (case current of
        PNone \<Rightarrow> Inr 0
      | PBool b \<Rightarrow> Inr (of_bool b)
      | PInt i \<Rightarrow> Inr i
      | PStr s \<Rightarrow> (case py_int (hd (split_on CHR ''.'' s)) of None \<Rightarrow> Inl (Exn ''ValueError'' []) | Some i \<Rightarrow> Inr i)
      | _ \<Rightarrow> Inl (Exn ''AttributeError'' []))"

definition get_next_version :: "pyval \<Rightarrow> string \<Rightarrow> exn + string" where
  "get_next_version current next_h =
     bind_res (current_version current) (\<lambda>v. Inr (padded (v + 1) @ ''.'' @ next_h))"

text \<open>The versions of one channel: each is computed from the one before.\<close>

fun successive_versions :: "pyval \<Rightarrow> string list \<Rightarrow> exn + string list" where
  "successive_versions current [] = Inr []"
| "successive_versions current (x # xs) =
     bind_res (get_next_version current x) (\<lambda>v. bind_res (successive_versions (PStr v) xs) (\<lambda>vs. Inr (v # vs)))"

section \<open>Digit strings in order\<close>

lemma horner_shift:
  "foldl (\<lambda>a c. 10 * a + g c) a s = a * 10 ^ length s + foldl (\<lambda>a c. 10 * a + g c) (0 :: nat) s"
proof (induction s arbitrary: a)
  case (Cons c s)
  have "foldl (\<lambda>a c. 10 * a + g c) a (c # s) = (10 * a + g c) * 10 ^ length s + foldl (\<lambda>a c. 10 * a + g c) 0 s"
    by (simp add: Cons [of "10 * a + g c"])
  moreover have "foldl (\<lambda>a c. 10 * a + g c) 0 (c # s) = g c * 10 ^ length s + foldl (\<lambda>a c. 10 * a + g c) 0 s"
    by (simp add: Cons [of "g c"])
  ultimately show ?case by (simp add: algebra_simps)
qed simp

lemma digits_value_Cons: "digits_value (c # s) = (of_char c - 48) * 10 ^ length s + digits_value s"
  by (simp add: digits_value_def horner_shift [where a = "of_char c - 48"])

lemma digits_value_bound: "list_all is_digit s \<Longrightarrow> digits_value s < 10 ^ length s"
proof (induction s)
  case (Cons c s)
  then have "(of_char c :: nat) \<le> 57" by (simp add: is_digit_def)
  then have "(of_char c :: nat) - 48 \<le> 9" by linarith
  then have "(of_char c - 48) * 10 ^ length s \<le> 9 * (10 :: nat) ^ length s" by (rule mult_le_mono1)
  moreover have "digits_value s < 10 ^ length s" using Cons by simp
  ultimately have "(of_char c - 48) * 10 ^ length s + digits_value s < 10 * 10 ^ length s" by linarith
  then show ?case by (simp add: digits_value_Cons)
qed (simp add: digits_value_def)

lemma digits_less:
  assumes "list_all is_digit u" "list_all is_digit v" "length u = length v" "digits_value u < digits_value v"
  shows "u @ x < v @ y"
  using assms
proof (induction u arbitrary: v)
  case (Cons c u)
  then obtain d w where v: "v = d # w" by (cases v) auto
  let ?k = "10 ^ length u :: nat" and ?c = "of_char c - 48 :: nat" and ?d = "of_char d - 48 :: nat"
  have less: "?c * ?k + digits_value u < ?d * ?k + digits_value w"
    using Cons.prems(3,4) v by (simp add: digits_value_Cons)
  have w: "digits_value w < ?k" using digits_value_bound [of w] Cons.prems v by simp
  have "?c \<le> ?d"
  proof (rule ccontr)
    assume "\<not> ?c \<le> ?d"
    then have "(?d + 1) * ?k \<le> ?c * ?k" by (intro mult_le_mono1) simp
    with less w show False by simp
  qed
  moreover have "(of_char c :: nat) \<ge> 48" "(of_char d :: nat) \<ge> 48" using Cons.prems v by (auto simp: is_digit_def)
  ultimately have "(of_char c :: nat) \<le> of_char d" by linarith
  moreover have "(of_char c :: nat) = of_char d \<longrightarrow> c = d" by (simp only: of_char_eq_iff) simp
  ultimately have "(of_char c :: nat) < of_char d \<or> c = d" by (simp only: le_less) blast
  then show ?case
  proof
    assume "c = d"
    with less have "digits_value u < digits_value w" by simp
    with Cons v \<open>c = d\<close> show ?case by simp
  qed (simp add: v less_char_def)
qed (simp add: digits_value_def)

lemma zeros_digits: "list_all is_digit (pad_zeros k s) \<longleftrightarrow> list_all is_digit s"
  by (auto simp: pad_zeros_def is_digit_def list_all_iff)

lemma zeros_value: "digits_value (pad_zeros k s) = digits_value s"
proof -
  have "digits_value (replicate j (CHR ''0'') @ s) = digits_value s" for j
    by (induction j) (simp_all add: digits_value_Cons)
  then show ?thesis by (simp add: pad_zeros_def)
qed

lemma zeros_length: "length s \<le> k \<Longrightarrow> length (pad_zeros k s) = k"
  by (simp add: pad_zeros_def)

lemma nat_text_length: "n < 10 ^ Suc k \<Longrightarrow> length (nat_text n) \<le> Suc k"
proof (induction k arbitrary: n)
  case 0
  then show ?case by (subst nat_text.simps) simp
next
  case (Suc k)
  show ?case
  proof (cases "n < 10")
    case True
    then show ?thesis by (subst nat_text.simps) simp
  next
    case False
    have "n div 10 < 10 ^ Suc k" using Suc.prems by (simp add: div_less_iff_less_mult)
    then have "length (nat_text (n div 10)) \<le> Suc k" by (rule Suc.IH)
    with False show ?thesis by (subst nat_text.simps) simp
  qed
qed

section \<open>Versions in order\<close>

definition version_at :: "nat \<Rightarrow> string \<Rightarrow> string" where
  "version_at k next_h = padded (int k) @ ''.'' @ next_h"

lemma padded_digits:
  assumes "k < 10 ^ version_width"
  shows "list_all is_digit (padded (int k))" "length (padded (int k)) = version_width"
    "digits_value (padded (int k)) = k"
proof -
  have "list_all is_digit (nat_text k)" by (auto simp: list_all_iff nat_text_digits)
  then show "list_all is_digit (padded (int k))" by (simp add: padded_def zeros_digits)
  have "length (nat_text k) \<le> version_width"
    using nat_text_length [of k 31] assms by (simp add: version_width_def)
  then show "length (padded (int k)) = version_width" by (simp add: padded_def zeros_length)
  show "digits_value (padded (int k)) = k" by (simp add: padded_def zeros_value digits_value_text)
qed

lemma version_less:
  assumes "j < k" "k < 10 ^ version_width"
  shows "version_at j x < version_at k y"
  unfolding version_at_def
  by (rule digits_less) (use assms padded_digits [of j] padded_digits [of k] in simp_all)

lemma py_int_digits:
  assumes "list_all is_digit s" "s \<noteq> []"
  shows "py_int s = Some (int (digits_value s))"
proof -
  obtain c r where s: "s = c # r" using assms(2) by (cases s) auto
  have "strip_text s = s"
    by (rule strip_no_white) (use assms(1) digit_not_white in \<open>auto simp: list_all_iff\<close>)
  moreover have "c \<noteq> CHR ''-''" "c \<noteq> CHR ''+''" using assms(1) s by (auto simp: is_digit_def)
  moreover have "py_digits s = Some (digits_value s)"
    using assms by (simp add: py_digits_def split_on_none digits_no_underscore)
  ultimately show ?thesis by (simp add: py_int_def s)
qed

lemma digits_no_dot: "list_all is_digit s \<Longrightarrow> CHR ''.'' \<notin> set s"
  by (auto simp: list_all_iff is_digit_def)

lemma next_of_version:
  assumes "k < 10 ^ version_width"
  shows "get_next_version (PStr (version_at k x)) y = Inr (version_at (k + 1) y)"
proof -
  let ?p = "padded (int k)"
  note p = padded_digits [OF assms]
  have "hd (split_on CHR ''.'' (version_at k x)) = ?p"
    using split_on_append [of "CHR ''.''" ?p x] digits_no_dot [OF p(1)] by (simp add: version_at_def)
  moreover have "py_int ?p = Some (int k)"
    using py_int_digits [OF p(1)] p(2,3) by (cases "padded (int k)") (auto simp: version_width_def)
  ultimately show ?thesis by (simp add: get_next_version_def current_version_def version_at_def add.commute)
qed

lemma successive_versions_from:
  assumes "k + length xs \<le> 10 ^ version_width" "k > 0"
  shows "successive_versions (PStr (version_at (k - 1) x)) xs = Inr (map (\<lambda>i. version_at (k + i) (xs ! i)) [0..<length xs])"
  using assms
proof (induction xs arbitrary: k x)
  case (Cons y ys)
  from next_of_version [of "k - 1" x y] Cons.prems
  have v: "get_next_version (PStr (version_at (k - 1) x)) y = Inr (version_at k y)" by simp
  have "successive_versions (PStr (version_at k y)) ys = Inr (map (\<lambda>i. version_at (Suc k + i) (ys ! i)) [0..<length ys])"
    using Cons.IH [of "Suc k" y] Cons.prems by simp
  then show ?case
    unfolding successive_versions.simps v
    by (simp add: upt_conv_Cons map_Suc_upt [symmetric] comp_def del: upt_Suc)
qed simp

lemma first_version: "get_next_version PNone x = Inr (version_at 1 x)"
  by (simp add: get_next_version_def current_version_def version_at_def)

lemma versions_listed:
  assumes "length xs < 10 ^ version_width"
  shows "successive_versions PNone xs = Inr (map (\<lambda>i. version_at (1 + i) (xs ! i)) [0..<length xs])"
proof (cases xs)
  case (Cons y ys)
  have "successive_versions (PStr (version_at 1 y)) ys = Inr (map (\<lambda>i. version_at (2 + i) (ys ! i)) [0..<length ys])"
    using successive_versions_from [of 2 ys y] assms Cons by simp
  then show ?thesis
    using Cons by (simp add: first_version upt_conv_Cons map_Suc_upt [symmetric] comp_def del: upt_Suc)
qed simp

text \<open>
  C26: The versions a channel receives, one computed from the other whatever the random suffixes are,
  never fail to parse and are strictly increasing strings, up to \<open>10 ^ 32 - 1\<close> of them.
\<close>

theorem versions_increase:
  assumes "length draws < 10 ^ version_width"
  shows "\<exists>vs. successive_versions PNone draws = Inr vs \<and> length vs = length draws \<and> sorted_wrt (<) vs"
proof (intro exI conjI)
  let ?vs = "map (\<lambda>i. version_at (1 + i) (draws ! i)) [0..<length draws]"
  show "successive_versions PNone draws = Inr ?vs" by (rule versions_listed [OF assms])
  show "sorted_wrt (<) ?vs"
    unfolding sorted_wrt_map
    by (rule sorted_wrt_mono_rel [OF _ sorted_wrt_upt]) (use assms version_less in auto)
qed simp

lemma versions_increase_witness:
  "\<exists>vs. successive_versions PNone [''0.5000000000000000'', ''0.1000000000000000''] = Inr vs \<and> length vs = 2 \<and>
     sorted_wrt (<) vs"
  using versions_increase [of "[''0.5000000000000000'', ''0.1000000000000000'']"]
  by (simp add: version_width_def numeral_2_eq_2 del: successive_versions.simps)

end
