(* ===== verification/App_Metadata.thy ===== *)
theory App_Metadata
  imports Prelude
begin

text \<open>
  What a registered route says about itself: the envelope models of \<^verbatim>\<open>contracts.py\<close>, the payload of the
  \<open>endpoint\<close> namespace (\<^verbatim>\<open>_endpoint.py\<close>) and the merging of namespaces on a handler (\<^verbatim>\<open>_metadata.py\<close>).
  A model class is known by its address; whether it is a pydantic model and its JSON schema are
  parameters, since pydantic is not part of the program.
\<close>

section \<open>Envelope models\<close>

datatype body_model =
    InvokeRequestModel
  | StreamRequestModel
  | InvokeResponseModel
  | WrappedInvokeRequest nat
  | WrappedStreamRequest nat
  | WrappedInvokeResponse nat

type_synonym model_test = "nat \<Rightarrow> bool"

definition build_invoke_request_model :: "model_test \<Rightarrow> nat option \<Rightarrow> body_model" where
  "build_invoke_request_model is_model m =
     (case m of Some c \<Rightarrow> if is_model c then WrappedInvokeRequest c else InvokeRequestModel | None \<Rightarrow> InvokeRequestModel)"

definition build_invoke_response_model :: "model_test \<Rightarrow> nat option \<Rightarrow> body_model" where
  "build_invoke_response_model is_model m =
     (case m of Some c \<Rightarrow> if is_model c then WrappedInvokeResponse c else InvokeResponseModel | None \<Rightarrow> InvokeResponseModel)"

definition build_stream_request_model :: "model_test \<Rightarrow> nat option \<Rightarrow> body_model" where
  "build_stream_request_model is_model m =
     (case m of Some c \<Rightarrow> if is_model c then WrappedStreamRequest c else StreamRequestModel | None \<Rightarrow> StreamRequestModel)"

text \<open>The fields of a model with whether they are required, and the class of the \<open>input\<close> or \<open>output\<close> field.\<close>

fun envelope_fields :: "body_model \<Rightarrow> (string \<times> bool) list" where
  "envelope_fields InvokeRequestModel = [(''input'', True), (''config'', False), (''version'', False)]"
| "envelope_fields (WrappedInvokeRequest c) = [(''input'', True), (''config'', False), (''version'', False)]"
| "envelope_fields StreamRequestModel = [(''input'', True), (''config'', False), (''stream_mode'', False), (''version'', False)]"
| "envelope_fields (WrappedStreamRequest c) =
     [(''input'', True), (''config'', False), (''stream_mode'', False), (''version'', False)]"
| "envelope_fields InvokeResponseModel = [(''output'', True)]"
| "envelope_fields (WrappedInvokeResponse c) = [(''output'', True)]"

fun inner_model :: "body_model \<Rightarrow> nat option" where
  "inner_model (WrappedInvokeRequest c) = Some c"
| "inner_model (WrappedStreamRequest c) = Some c"
| "inner_model (WrappedInvokeResponse c) = Some c"
| "inner_model _ = None"

section \<open>The endpoint namespace\<close>

datatype schema_mode = ValidationMode | SerializationMode

type_synonym model_schema = "body_model \<Rightarrow> schema_mode \<Rightarrow> pyval"

text \<open>\<open>or_null\<close> writes an optional value as JSON does. The status code is the text of the number.\<close>

definition or_null :: "pyval option \<Rightarrow> pyval" where
  "or_null v = (case v of None \<Rightarrow> PNone | Some x \<Rightarrow> x)"

definition build_endpoint_metadata ::
    "model_schema \<Rightarrow> body_model option \<Rightarrow> body_model option \<Rightarrow> pyval list \<Rightarrow> pyval dict" where
  "build_endpoint_metadata schema request_model response_model parameters =
     [(''version'', PInt 1),
      (''request_body'', or_null (map_option (\<lambda>m. schema m ValidationMode) request_model)),
      (''request_body_required'',
         PBool (case request_model of None \<Rightarrow> False | Some m \<Rightarrow> list_ex snd (envelope_fields m))),
      (''parameters'', PList parameters),
      (''responses'',
         or_null (map_option (\<lambda>m. PDict [(''200'', PDict [(''schema'', schema m SerializationMode)])]) response_model))]"

section \<open>Namespaces on a handler\<close>

text \<open>The attribute \<open>_azure_functions_metadata\<close> of a function, if it has one.\<close>

type_synonym handler_metadata = "pyval option"

definition merge_namespace :: "string \<Rightarrow> pyval dict \<Rightarrow> handler_metadata \<Rightarrow> handler_metadata" where
  "merge_namespace namespace payload existing =
     (let base = (case existing of Some (PDict d) \<Rightarrow> d | _ \<Rightarrow> [])
      in Some (PDict (AList.update namespace (PDict payload) base)))"

definition set_langgraph_metadata :: "pyval dict \<Rightarrow> handler_metadata \<Rightarrow> handler_metadata" where
  "set_langgraph_metadata = merge_namespace ''langgraph''"

definition set_endpoint_metadata :: "pyval dict \<Rightarrow> handler_metadata \<Rightarrow> handler_metadata" where
  "set_endpoint_metadata = merge_namespace ''endpoint''"

definition read_langgraph_metadata :: "handler_metadata \<Rightarrow> pyval dict option" where
  "read_langgraph_metadata md =
     (case md of
        Some (PDict d) \<Rightarrow> (case map_of d ''langgraph'' of Some (PDict e) \<Rightarrow> Some e | _ \<Rightarrow> None)
      | _ \<Rightarrow> None)"

text \<open>What a reader finds under a namespace.\<close>

definition namespace_in :: "handler_metadata \<Rightarrow> string \<Rightarrow> pyval option" where
  "namespace_in md namespace = (case md of Some (PDict d) \<Rightarrow> map_of d namespace | _ \<Rightarrow> None)"

lemma merge_namespace_in [simp]:
  "namespace_in (merge_namespace n payload md) m = (if m = n then Some (PDict payload) else namespace_in md m)"
  by (cases md) (auto simp: merge_namespace_def namespace_in_def update_conv' split: pyval.split)

lemma read_langgraph_in:
  "read_langgraph_metadata md = (case namespace_in md ''langgraph'' of Some (PDict e) \<Rightarrow> Some e | _ \<Rightarrow> None)"
  by (simp add: read_langgraph_metadata_def namespace_in_def split: option.split pyval.split)

end
