(* ===== verification/Application.thy ===== *)
theory Application
  imports App_Metadata Native_Handlers Service_Bus "HOL-Library.Sublist"
begin

text \<open>
  The application object, \<open>LangGraphApp\<close> of \<^verbatim>\<open>app.py\<close>: its construction, the registration of graphs and
  Service Bus triggers, the cached function app with its scale-out guards, and the metadata API.
  A function of the app is an entry with its trigger and its handler; what the Azure SDK makes of
  the entries is its own. The message of a raised error is a constructor of \<open>app_error\<close> that carries the
  interpolated values. Class tests on objects that users pass (graph protocols, model classes, the kind of lock and
  store) are data of those objects.
\<close>

section \<open>What users pass\<close>

datatype auth_level = FunctionLevel | AnonymousLevel | AdminLevel

text \<open>What \<open>isinstance\<close> says of a graph for each protocol, its checkpointer, and the name of its class.\<close>

record graph_object =
  go_address :: nat
  go_class :: string
  go_invoke :: bool
  go_ainvoke :: bool
  go_stream :: bool
  go_astream :: bool
  go_state :: bool
  go_checkpointer :: bool
  go_saver :: bool

datatype lock_kind = InProcessLock | OtherLock nat

datatype store_kind = InMemoryStore | OtherStore nat

text \<open>A Python float: \<open>math.isfinite\<close> fails on infinities and on NaN.\<close>

datatype py_float = Finite rat | NotFinite

definition positive_float :: "py_float \<Rightarrow> bool" where
  "positive_float x = (case x of Finite r \<Rightarrow> r > 0 | NotFinite \<Rightarrow> False)"

definition non_negative_float :: "py_float \<Rightarrow> bool" where
  "non_negative_float x = (case x of Finite r \<Rightarrow> r \<ge> 0 | NotFinite \<Rightarrow> False)"

datatype app_error =
    BadReadinessTimeout
  | LocalLockRefused string
  | NoAinvoke string
  | NoInvoke string
  | AsyncOnlyOnPlatform string
  | NotModel string
  | BadName verror
  | GraphTaken string
  | TriggerTaken string
  | ExclusiveBlocksRoutes
  | ExclusiveBlocksEntities
  | BothBindings
  | NoBinding
  | HalfTopic
  | BadLockTimeout
  | ExclusiveTopology
  | ExclusiveCardinality
  | SessionConflict
  | LocalStoreRefused
  | DurableExtraMissing
  | LockMissing

fun error_class :: "app_error \<Rightarrow> string" where
  "error_class (NoAinvoke c) = ''TypeError''"
| "error_class (NoInvoke c) = ''TypeError''"
| "error_class (AsyncOnlyOnPlatform n) = ''TypeError''"
| "error_class (NotModel label) = ''TypeError''"
| "error_class (LocalLockRefused b) = ''RuntimeError''"
| "error_class LocalStoreRefused = ''RuntimeError''"
| "error_class LockMissing = ''RuntimeError''"
| "error_class DurableExtraMissing = ''ImportError''"
| "error_class _ = ''ValueError''"

datatype app_warning = AnonymousApp | AnonymousGraph string | LocalStoreOnAzure

section \<open>The application\<close>

record app_registration = native_registration +
  rg_description :: "string option"
  rg_auth :: "auth_level option"
  rg_request :: "nat option"
  rg_response :: "nat option"

record 's bus_entry = "'s bus_registration" +
  be_connection :: string
  be_queue :: "string option"
  be_topic :: "string option"
  be_subscription :: "string option"
  be_timeout :: py_float
  be_binding :: "pyval dict"

datatype graph_endpoint = InvokeRoute | StreamRoute | StateRoute

text \<open>
  The handlers of an app. A graph route is served by a handler of \<open>Native_Handlers\<close>; a platform or a
  durable function is named by its own function name.
\<close>

datatype 's app_handler =
    HealthHandler
  | DetailsHandler
  | ReadyHandler
  | GraphHandler graph_endpoint bool app_registration
  | BusHandler "'s bus_entry"
  | PlatformHandler string
  | DurableHandler string

datatype app_trigger =
    HttpTrigger string string "auth_level option"
  | QueueTrigger string "string option" "pyval dict"
  | TopicTrigger string "string option" "string option" "pyval dict"
  | OrchestrationTrigger
  | ActivityTrigger

record 's function_entry =
  fe_name :: string
  fe_trigger :: app_trigger
  fe_handler :: "'s app_handler"
  fe_metadata :: handler_metadata

record app_limits =
  al_stream :: nat
  al_body :: nat
  al_depth :: nat
  al_nodes :: nat
  al_results :: nat

record 's app_state =
  ap_auth :: auth_level
  ap_health_auth :: auth_level
  ap_details_auth :: "auth_level option"
  ap_ready_auth :: "auth_level option"
  ap_checks :: "string list"
  ap_timeout :: py_float
  ap_limits :: app_limits
  ap_platform :: bool
  ap_durable :: bool
  ap_lock :: "lock_kind option"
  ap_prefix :: string
  ap_registrations :: "(string \<times> app_registration) list"
  ap_triggers :: "(string \<times> 's bus_entry) list"
  ap_built :: "'s function_entry list option"
  ap_store :: "store_kind option"
  ap_runner :: "string list option"

text \<open>The world outside: the environment variables, and whether the durable extra can be imported.\<close>

record app_env =
  ev_vars :: "string dict"
  ev_durable :: bool

definition env_setting :: "app_env \<Rightarrow> string \<Rightarrow> string" where
  "env_setting ev key = map lower_char (strip_text (case map_of (ev_vars ev) key of None \<Rightarrow> [] | Some v \<Rightarrow> v))"

definition lock_backend_setting :: "app_env \<Rightarrow> string" where
  "lock_backend_setting ev = env_setting ev ''AZFUNC_LANGGRAPH_LOCK_BACKEND''"

definition azure_host_markers :: "string list" where
  "azure_host_markers = [''WEBSITE_INSTANCE_ID'', ''WEBSITE_SITE_NAME'']"

definition is_azure_hosted :: "app_env \<Rightarrow> bool" where
  "is_azure_hosted ev \<longleftrightarrow>
     list_ex (\<lambda>m. case map_of (ev_vars ev) m of None \<Rightarrow> False | Some v \<Rightarrow> v \<noteq> []) azure_host_markers"

section \<open>Construction\<close>

definition normalized_prefix :: "string \<Rightarrow> string" where
  "normalized_prefix p =
     (let q = (if prefix ''/'' p then p else ''/'' @ p);
          r = rev (dropWhile (\<lambda>c. c = CHR ''/'') (rev q))
      in if r = [] then ''/'' else r)"

text \<open>\<open>__post_init__\<close> on the fields as they were passed.\<close>

definition post_init :: "app_env \<Rightarrow> 's app_state \<Rightarrow> app_error + 's app_state \<times> app_warning list" where
  "post_init ev ap =
     (if \<not> positive_float (ap_timeout ap) then Inl BadReadinessTimeout
      else
        let warns = (if ap_auth ap = AnonymousLevel then [AnonymousApp] else []);
            lock = (case ap_lock ap of None \<Rightarrow> InProcessLock | Some l \<Rightarrow> l);
            ap' = ap\<lparr>ap_prefix := normalized_prefix (ap_prefix ap),
                     ap_store := (if ap_platform ap \<and> ap_store ap = None then Some InMemoryStore else ap_store ap),
                     ap_lock := Some lock,
                     ap_runner := (if ap_checks ap \<noteq> [] then Some (ap_checks ap) else ap_runner ap)\<rparr>;
            backend = lock_backend_setting ev
        in if backend \<notin> {[], ''inprocess''} \<and> lock = InProcessLock then Inl (LocalLockRefused backend)
           else Inr (ap', warns))"

section \<open>Registration of graphs\<close>

definition validate_optional_model :: "model_test \<Rightarrow> nat option \<Rightarrow> string \<Rightarrow> app_error option" where
  "validate_optional_model is_model m label =
     (case m of None \<Rightarrow> None | Some c \<Rightarrow> if is_model c then None else Some (NotModel label))"

definition any_exclusive :: "'s app_state \<Rightarrow> bool" where
  "any_exclusive ap \<longleftrightarrow> list_ex (\<lambda>(name, be). sb_exclusive be) (ap_triggers ap)"

definition protocol_error :: "bool \<Rightarrow> graph_object \<Rightarrow> app_error option" where
  "protocol_error async_mode g =
     (if async_mode \<and> \<not> go_ainvoke g then Some (NoAinvoke (go_class g))
      else if \<not> go_invoke g \<and> \<not> go_ainvoke g then Some (NoInvoke (go_class g)) else None)"

definition new_registration ::
    "graph_object \<Rightarrow> string \<Rightarrow> string option \<Rightarrow> bool \<Rightarrow> auth_level option \<Rightarrow> nat option \<Rightarrow> nat option \<Rightarrow> bool \<Rightarrow>
     string list \<Rightarrow> app_registration" where
  "new_registration g name description stream auth request_model response_model async_mode allowed =
     \<lparr>reg_graph = go_address g, reg_name = name, reg_async = async_mode, reg_invocable = go_invoke g,
      reg_checkpointer = go_checkpointer g, ng_saver = go_saver g, ng_stream_enabled = stream, ng_streams = go_stream g,
      ng_astreams = go_astream g, ng_stateful = go_state g, ng_allowed = allowed, rg_description = description,
      rg_auth = auth, rg_request = request_model, rg_response = response_model\<rparr>"

text \<open>The checks of \<open>register\<close>, in their order.\<close>

definition registration_error ::
    "model_test \<Rightarrow> 's app_state \<Rightarrow> graph_object \<Rightarrow> string \<Rightarrow> bool \<Rightarrow> nat option \<Rightarrow> nat option \<Rightarrow> app_error option" where
  "registration_error is_model ap g name async_mode request_model response_model =
     (case protocol_error async_mode g of
        Some e \<Rightarrow> Some e
      | None \<Rightarrow>
          if ap_platform ap \<and> go_ainvoke g \<and> \<not> go_invoke g then Some (AsyncOnlyOnPlatform name)
          else
            case validate_optional_model is_model request_model ''request_model'' of
              Some e \<Rightarrow> Some e
            | None \<Rightarrow>
                case validate_optional_model is_model response_model ''response_model'' of
                  Some e \<Rightarrow> Some e
                | None \<Rightarrow>
                    case validate_graph_name name of
                      Some e \<Rightarrow> Some (BadName e)
                    | None \<Rightarrow>
                        if name \<in> fst ` set (ap_registrations ap) then Some (GraphTaken name)
                        else if any_exclusive ap then Some ExclusiveBlocksRoutes
                        else None)"

definition register ::
    "model_test \<Rightarrow> graph_object \<Rightarrow> string \<Rightarrow> string option \<Rightarrow> bool \<Rightarrow> auth_level option \<Rightarrow> nat option \<Rightarrow> nat option \<Rightarrow>
     bool \<Rightarrow> string list \<Rightarrow> 's app_state \<Rightarrow> app_error + 's app_state \<times> app_warning list" where
  "register is_model g name description stream auth request_model response_model async_mode allowed ap =
     (case registration_error is_model ap g name async_mode request_model response_model of
        Some e \<Rightarrow> Inl e
      | None \<Rightarrow>
          let reg = new_registration g name description stream auth request_model response_model async_mode allowed
          in Inr (ap\<lparr>ap_registrations := AList.update name reg (ap_registrations ap), ap_built := None\<rparr>,
               if auth = Some AnonymousLevel then [AnonymousGraph name] else []))"

section \<open>Registration of Service Bus triggers\<close>

text \<open>\<open>require_session_exclusive_topology\<close> of \<^verbatim>\<open>triggers/_session_topology.py\<close>.\<close>

definition require_session_exclusive_topology :: "bool \<Rightarrow> bool \<Rightarrow> pyval dict \<Rightarrow> app_error option" where
  "require_session_exclusive_topology session isolated binding =
     (if \<not> session \<or> \<not> isolated then Some ExclusiveTopology
      else if \<not> py_eq (case map_of binding ''cardinality'' of None \<Rightarrow> PStr ''one'' | Some v \<Rightarrow> v) (PStr ''one'')
      then Some ExclusiveCardinality else None)"

record 's bus_options =
  bo_connection :: string
  bo_queue :: "string option"
  bo_topic :: "string option"
  bo_subscription :: "string option"
  bo_mapper :: "(bus_message \<Rightarrow> exn + pyval) option"
  bo_factory :: "(bus_message \<Rightarrow> exn + string option) option"
  bo_handler :: "(pyval \<Rightarrow> bus_message \<Rightarrow> 's \<Rightarrow> (exn + unit) \<times> 's) option"
  bo_async :: bool
  bo_timeout :: py_float
  bo_binding :: "pyval dict"
  bo_session :: bool
  bo_exclusive :: bool

definition binding_error :: "'s bus_options \<Rightarrow> app_error option" where
  "binding_error bo =
     (let is_queue = bo_queue bo \<noteq> None; is_topic = bo_topic bo \<noteq> None \<or> bo_subscription bo \<noteq> None
      in if is_queue \<and> is_topic then Some BothBindings
         else if \<not> is_queue \<and> \<not> is_topic then Some NoBinding
         else if is_topic \<and> (bo_topic bo = None \<or> bo_subscription bo = None) then Some HalfTopic
         else if \<not> non_negative_float (bo_timeout bo) then Some BadLockTimeout
         else None)"

definition exclusive_error :: "'s app_state \<Rightarrow> 's bus_options \<Rightarrow> app_error option" where
  "exclusive_error ap bo =
     (if any_exclusive ap then Some ExclusiveBlocksEntities
      else if bo_exclusive bo
      then require_session_exclusive_topology (bo_session bo)
             (\<not> (ap_registrations ap \<noteq> [] \<or> ap_triggers ap \<noteq> [] \<or> ap_platform ap \<or> ap_durable ap)) (bo_binding bo)
      else None)"

definition bus_registration_error :: "'s app_state \<Rightarrow> graph_object \<Rightarrow> string \<Rightarrow> 's bus_options \<Rightarrow> app_error option" where
  "bus_registration_error ap g name bo =
     (case protocol_error (bo_async bo) g of
        Some e \<Rightarrow> Some e
      | None \<Rightarrow>
          case validate_graph_name name of
            Some e \<Rightarrow> Some (BadName e)
          | None \<Rightarrow>
              if name \<in> fst ` set (ap_triggers ap) then Some (TriggerTaken name)
              else
                case binding_error bo of
                  Some e \<Rightarrow> Some e
                | None \<Rightarrow>
                    case exclusive_error ap bo of
                      Some e \<Rightarrow> Some e
                    | None \<Rightarrow>
                        if bo_session bo \<and> map_of (bo_binding bo) ''is_sessions_enabled'' = Some (PBool False)
                        then Some SessionConflict else None)"

definition new_bus_entry :: "graph_object \<Rightarrow> string \<Rightarrow> 's bus_options \<Rightarrow> 's bus_entry" where
  "new_bus_entry g name bo =
     \<lparr>sb_reg = \<lparr>reg_graph = go_address g, reg_name = name, reg_async = bo_async bo \<or> \<not> go_invoke g,
         reg_invocable = go_invoke g, reg_checkpointer = go_checkpointer g\<rparr>,
      sb_mapper = (case bo_mapper bo of None \<Rightarrow> (\<lambda>m. Inr (default_message_mapper m)) | Some f \<Rightarrow> f),
      sb_factory = bo_factory bo, sb_handler = bo_handler bo, sb_session = bo_session bo, sb_exclusive = bo_exclusive bo,
      be_connection = bo_connection bo, be_queue = bo_queue bo, be_topic = bo_topic bo,
      be_subscription = bo_subscription bo, be_timeout = bo_timeout bo,
      be_binding = (if bo_session bo then AList.update ''is_sessions_enabled'' (PBool True) (bo_binding bo)
                    else bo_binding bo)\<rparr>"

definition register_service_bus ::
    "graph_object \<Rightarrow> string \<Rightarrow> 's bus_options \<Rightarrow> 's app_state \<Rightarrow> app_error + 's app_state" where
  "register_service_bus g name bo ap =
     (case bus_registration_error ap g name bo of
        Some e \<Rightarrow> Inl e
      | None \<Rightarrow>
          Inr (ap\<lparr>ap_triggers := AList.update name (new_bus_entry g name bo) (ap_triggers ap), ap_built := None\<rparr>))"

definition set_thread_store :: "store_kind option \<Rightarrow> 's app_state \<Rightarrow> 's app_state" where
  "set_thread_store store ap = ap\<lparr>ap_store := store, ap_built := None\<rparr>"

section \<open>The function app\<close>

record endpoint_spec =
  es_request :: "body_model option"
  es_response :: "body_model option"
  es_parameters :: "pyval list"

definition thread_parameter :: pyval where
  "thread_parameter =
     PDict [(''name'', PStr ''thread_id''), (''in'', PStr ''path''), (''required'', PBool True),
            (''schema'', PDict [(''type'', PStr ''string'')])]"

fun resolve_endpoint_spec :: "model_test \<Rightarrow> app_registration \<Rightarrow> graph_endpoint \<Rightarrow> endpoint_spec" where
  "resolve_endpoint_spec is_model reg InvokeRoute =
     \<lparr>es_request = Some (build_invoke_request_model is_model (rg_request reg)),
      es_response = Some (build_invoke_response_model is_model (rg_response reg)), es_parameters = []\<rparr>"
| "resolve_endpoint_spec is_model reg StreamRoute =
     \<lparr>es_request = Some (build_stream_request_model is_model (rg_request reg)), es_response = None, es_parameters = []\<rparr>"
| "resolve_endpoint_spec is_model reg StateRoute =
     \<lparr>es_request = None, es_response = None, es_parameters = [thread_parameter]\<rparr>"

fun endpoint_text :: "graph_endpoint \<Rightarrow> string" where
  "endpoint_text InvokeRoute = ''invoke''"
| "endpoint_text StreamRoute = ''stream''"
| "endpoint_text StateRoute = ''state''"

fun endpoint_route :: "graph_endpoint \<Rightarrow> string \<Rightarrow> string" where
  "endpoint_route InvokeRoute name = ''graphs/'' @ name @ ''/invoke''"
| "endpoint_route StreamRoute name = ''graphs/'' @ name @ ''/stream''"
| "endpoint_route StateRoute name = ''graphs/'' @ name @ ''/threads/{thread_id}/state''"

fun endpoint_verb :: "graph_endpoint \<Rightarrow> string" where
  "endpoint_verb StateRoute = ''GET''"
| "endpoint_verb _ = ''POST''"

definition resolved_details_auth :: "'s app_state \<Rightarrow> auth_level" where
  "resolved_details_auth ap = (case ap_details_auth ap of None \<Rightarrow> ap_auth ap | Some a \<Rightarrow> a)"

definition resolved_readiness_auth :: "'s app_state \<Rightarrow> auth_level" where
  "resolved_readiness_auth ap = (case ap_ready_auth ap of None \<Rightarrow> ap_auth ap | Some a \<Rightarrow> a)"

definition effective_auth_level :: "'s app_state \<Rightarrow> app_registration \<Rightarrow> auth_level" where
  "effective_auth_level ap reg = (case rg_auth reg of Some a \<Rightarrow> a | None \<Rightarrow> ap_auth ap)"

definition is_async :: "app_registration \<Rightarrow> bool" where
  "is_async reg \<longleftrightarrow> reg_async reg \<or> \<not> reg_invocable reg"

text \<open>\<open>_register_route\<close>. The state handler is never asynchronous.\<close>

definition register_route ::
    "model_test \<Rightarrow> model_schema \<Rightarrow> 's app_state \<Rightarrow> app_registration \<Rightarrow> graph_endpoint \<Rightarrow> bool \<Rightarrow> 's function_entry" where
  "register_route is_model schema ap reg endpoint awaited =
     (let spec = resolve_endpoint_spec is_model reg endpoint;
          described = set_langgraph_metadata
            [(''version'', PInt 1), (''graph_name'', PStr (reg_name reg)), (''endpoint'', PStr (endpoint_text endpoint))] None
      in \<lparr>fe_name = ''aflg_'' @ reg_name reg @ ''_'' @ endpoint_text endpoint,
          fe_trigger = HttpTrigger (endpoint_route endpoint (reg_name reg)) (endpoint_verb endpoint)
            (Some (effective_auth_level ap reg)),
          fe_handler = GraphHandler endpoint awaited reg,
          fe_metadata = set_endpoint_metadata
            (build_endpoint_metadata schema (es_request spec) (es_response spec) (es_parameters spec)) described\<rparr>)"

definition graph_functions :: "model_test \<Rightarrow> model_schema \<Rightarrow> 's app_state \<Rightarrow> app_registration \<Rightarrow> 's function_entry list" where
  "graph_functions is_model schema ap reg =
     [register_route is_model schema ap reg InvokeRoute (is_async reg)] @
     (if ng_stream_enabled reg then [register_route is_model schema ap reg StreamRoute (is_async reg)] else []) @
     (if ng_stateful reg then [register_route is_model schema ap reg StateRoute False] else [])"

definition plain_function :: "string \<Rightarrow> app_trigger \<Rightarrow> 's app_handler \<Rightarrow> 's function_entry" where
  "plain_function name trigger handler = \<lparr>fe_name = name, fe_trigger = trigger, fe_handler = handler, fe_metadata = None\<rparr>"

definition health_functions :: "'s app_state \<Rightarrow> 's function_entry list" where
  "health_functions ap =
     [plain_function ''aflg_health'' (HttpTrigger ''health'' ''GET'' (Some (ap_health_auth ap))) HealthHandler,
      plain_function ''aflg_health_details''
        (HttpTrigger ''health/details'' ''GET'' (Some (resolved_details_auth ap))) DetailsHandler] @
     (if ap_checks ap \<noteq> []
      then [plain_function ''aflg_health_ready''
              (HttpTrigger ''health/ready'' ''GET'' (Some (resolved_readiness_auth ap))) ReadyHandler] else [])"

definition bus_function :: "string \<Rightarrow> 's bus_entry \<Rightarrow> 's function_entry" where
  "bus_function name be =
     plain_function (''aflg_sb_'' @ name)
       (if be_topic be \<noteq> None then TopicTrigger (be_connection be) (be_topic be) (be_subscription be) (be_binding be)
        else QueueTrigger (be_connection be) (be_queue be) (be_binding be))
       (BusHandler be)"

text \<open>\<open>register_platform_routes\<close> and \<open>register_durable_runtime\<close>: the functions by their names; the durable routes
  have the default authorization of the app.\<close>

definition platform_routes :: "(string \<times> string \<times> string) list" where
  "platform_routes =
     [(''assistants_search'', ''assistants/search'', ''POST''),
      (''assistants_count'', ''assistants/count'', ''POST''),
      (''assistants_get'', ''assistants/{assistant_id}'', ''GET''),
      (''threads_create'', ''threads'', ''POST''),
      (''threads_get'', ''threads/{thread_id}'', ''GET''),
      (''threads_update'', ''threads/{thread_id}'', ''PATCH''),
      (''threads_delete'', ''threads/{thread_id}'', ''DELETE''),
      (''threads_search'', ''threads/search'', ''POST''),
      (''threads_count'', ''threads/count'', ''POST''),
      (''threads_state_get'', ''threads/{thread_id}/state'', ''GET''),
      (''threads_state_update'', ''threads/{thread_id}/state'', ''POST''),
      (''threads_history'', ''threads/{thread_id}/history'', ''POST''),
      (''runs_wait'', ''threads/{thread_id}/runs/wait'', ''POST''),
      (''runs_stream'', ''threads/{thread_id}/runs/stream'', ''POST''),
      (''runs_wait_threadless'', ''runs/wait'', ''POST''),
      (''runs_stream_threadless'', ''runs/stream'', ''POST'')]"

definition platform_functions :: "'s app_state \<Rightarrow> 's function_entry list" where
  "platform_functions ap =
     map (\<lambda>(name, route, verb). plain_function (''aflg_platform_'' @ name) (HttpTrigger route verb (Some (ap_auth ap)))
       (PlatformHandler name)) platform_routes"

definition durable_functions :: "'s function_entry list" where
  "durable_functions =
     [plain_function ''langgraph_durable_run_orchestrator'' OrchestrationTrigger (DurableHandler ''run_orchestration''),
      plain_function ''execute_langgraph_run'' ActivityTrigger (DurableHandler ''execute_langgraph_run''),
      plain_function ''aflg_durable_create_run'' (HttpTrigger ''graphs/{name}/runs'' ''POST'' None) (DurableHandler ''create_run''),
      plain_function ''aflg_durable_get_run'' (HttpTrigger ''runs/{run_id}'' ''GET'' None) (DurableHandler ''get_run''),
      plain_function ''aflg_durable_cancel_run'' (HttpTrigger ''runs/{run_id}/cancel'' ''POST'' None)
        (DurableHandler ''cancel_run'')]"

text \<open>The scale-out guard on the store that is configured when the routes are built.\<close>

definition store_guard :: "app_env \<Rightarrow> 's app_state \<Rightarrow> app_error + app_warning list" where
  "store_guard ev ap =
     (if ap_platform ap \<and> ap_store ap = Some InMemoryStore
      then
        let env_store = env_setting ev ''AZFUNC_LANGGRAPH_THREAD_STORE'';
            env_lock = lock_backend_setting ev;
            distributed_required = (env_lock \<noteq> [] \<and> env_lock \<noteq> ''inprocess'')
        in if (env_store \<noteq> [] \<and> env_store \<noteq> ''inmemory'') \<or> distributed_required then Inl LocalStoreRefused
           else Inr (if is_azure_hosted ev then [LocalStoreOnAzure] else [])
      else Inr [])"

definition app_functions :: "model_test \<Rightarrow> model_schema \<Rightarrow> 's app_state \<Rightarrow> 's function_entry list" where
  "app_functions is_model schema ap =
     health_functions ap @
     concat (map (\<lambda>(name, reg). graph_functions is_model schema ap reg) (ap_registrations ap)) @
     map (\<lambda>(name, be). bus_function (reg_name (sb_reg be)) be) (ap_triggers ap) @
     (if ap_platform ap then platform_functions ap else []) @
     (if ap_durable ap then durable_functions else [])"

definition build_function_app ::
    "model_test \<Rightarrow> model_schema \<Rightarrow> app_env \<Rightarrow> 's app_state \<Rightarrow> app_error + 's function_entry list \<times> app_warning list" where
  "build_function_app is_model schema ev ap =
     (case store_guard ev ap of
        Inl e \<Rightarrow> Inl e
      | Inr warns \<Rightarrow>
          if ap_durable ap \<and> \<not> ev_durable ev then Inl DurableExtraMissing
          else if (ap_triggers ap \<noteq> [] \<or> ap_platform ap \<or> ap_durable ap) \<and> ap_lock ap = None then Inl LockMissing
          else Inr (app_functions is_model schema ap, warns))"

text \<open>The property \<open>function_app\<close>, with its cache.\<close>

definition function_app ::
    "model_test \<Rightarrow> model_schema \<Rightarrow> app_env \<Rightarrow> 's app_state \<Rightarrow> (app_error + 's function_entry list) \<times> 's app_state" where
  "function_app is_model schema ev ap =
     (case ap_built ap of
        Some fs \<Rightarrow> (Inr fs, ap)
      | None \<Rightarrow>
          (case build_function_app is_model schema ev ap of
             Inl e \<Rightarrow> (Inl e, ap)
           | Inr (fs, warns) \<Rightarrow> (Inr fs, ap\<lparr>ap_built := Some fs\<rparr>)))"

section \<open>The health routes\<close>

definition health_body :: pyval where
  "health_body = PDict [(''status'', PStr ''ok'')]"

definition graph_info :: "app_registration \<Rightarrow> pyval" where
  "graph_info reg =
     PDict [(''name'', PStr (reg_name reg)),
            (''description'', case rg_description reg of None \<Rightarrow> PNone | Some d \<Rightarrow> PStr d),
            (''has_checkpointer'', PBool (reg_checkpointer reg))]"

definition health_details_body :: "'s app_state \<Rightarrow> pyval" where
  "health_details_body ap =
     PDict [(''status'', PStr ''ok''), (''graphs'', PList (map (\<lambda>(name, reg). graph_info reg) (ap_registrations ap)))]"

section \<open>The metadata API\<close>

record route_metadata =
  rm_path :: string
  rm_verb :: string
  rm_summary :: string
  rm_parameters :: "pyval list"
  rm_request :: "body_model option"
  rm_response :: "body_model option"

definition metadata_path :: "'s app_state \<Rightarrow> string \<Rightarrow> string" where
  "metadata_path ap route = (if ap_prefix ap = ''/'' then ''/'' @ route else ap_prefix ap @ ''/'' @ route)"

fun route_summary :: "graph_endpoint \<Rightarrow> string \<Rightarrow> string" where
  "route_summary InvokeRoute name = ''Invoke graph '' @ [CHR 0x27] @ name @ [CHR 0x27]"
| "route_summary StreamRoute name = ''Stream graph '' @ [CHR 0x27] @ name @ [CHR 0x27]"
| "route_summary StateRoute name = ''Get thread state for '' @ [CHR 0x27] @ name @ [CHR 0x27]"

definition graph_route ::
    "model_test \<Rightarrow> 's app_state \<Rightarrow> app_registration \<Rightarrow> graph_endpoint \<Rightarrow> route_metadata" where
  "graph_route is_model ap reg endpoint =
     (let spec = resolve_endpoint_spec is_model reg endpoint
      in \<lparr>rm_path = metadata_path ap (endpoint_route endpoint (reg_name reg)), rm_verb = endpoint_verb endpoint,
          rm_summary = route_summary endpoint (reg_name reg), rm_parameters = es_parameters spec,
          rm_request = es_request spec, rm_response = es_response spec\<rparr>)"

definition graph_routes :: "model_test \<Rightarrow> 's app_state \<Rightarrow> app_registration \<Rightarrow> route_metadata list" where
  "graph_routes is_model ap reg =
     [graph_route is_model ap reg InvokeRoute] @
     (if ng_stream_enabled reg then [graph_route is_model ap reg StreamRoute] else []) @
     (if ng_stateful reg then [graph_route is_model ap reg StateRoute] else [])"

definition plain_route :: "'s app_state \<Rightarrow> string \<Rightarrow> string \<Rightarrow> route_metadata" where
  "plain_route ap route summary =
     \<lparr>rm_path = metadata_path ap route, rm_verb = ''GET'', rm_summary = summary, rm_parameters = [],
      rm_request = None, rm_response = None\<rparr>"

record app_metadata =
  am_graphs :: "(string \<times> string option \<times> route_metadata list) list"
  am_routes :: "route_metadata list"

definition get_app_metadata :: "model_test \<Rightarrow> 's app_state \<Rightarrow> app_metadata" where
  "get_app_metadata is_model ap =
     \<lparr>am_graphs = map (\<lambda>(name, reg). (reg_name reg, rg_description reg, graph_routes is_model ap reg)) (ap_registrations ap),
      am_routes =
        [plain_route ap ''health'' ''Health check'',
         plain_route ap ''health/details'' ''Health check with registered-graph inventory''] @
        (if ap_checks ap \<noteq> [] then [plain_route ap ''health/ready'' ''Dependency readiness checks''] else [])\<rparr>"

text \<open>
  \<open>register_with_openapi\<close> of \<^verbatim>\<open>openapi.py\<close>: what it hands to the OpenAPI package, route by route. The models
  are envelopes and so pass its check.
\<close>

record openapi_call =
  op_path :: string
  op_verb :: string
  op_summary :: string
  op_description :: string
  op_tags :: "string list"
  op_body :: "body_model option"
  op_response :: "body_model option"
  op_parameters :: "pyval list option"

definition build_parameters :: "pyval list \<Rightarrow> pyval list option" where
  "build_parameters ps = (if ps = [] then None else Some ps)"

definition openapi_route :: "string \<Rightarrow> string list \<Rightarrow> route_metadata \<Rightarrow> openapi_call" where
  "openapi_route description tags rm =
     \<lparr>op_path = rm_path rm, op_verb = rm_verb rm, op_summary = rm_summary rm, op_description = description, op_tags = tags,
      op_body = rm_request rm, op_response = rm_response rm, op_parameters = build_parameters (rm_parameters rm)\<rparr>"

definition register_with_openapi :: "model_test \<Rightarrow> 's app_state \<Rightarrow> openapi_call list \<times> nat" where
  "register_with_openapi is_model ap =
     (let md = get_app_metadata is_model ap;
          calls = concat (map (\<lambda>(name, description, routes).
              map (openapi_route (case description of None \<Rightarrow> [] | Some d \<Rightarrow> d) [name]) routes) (am_graphs md)) @
            map (openapi_route [] [''system'']) (am_routes md)
      in (calls, length calls))"

end
