(* ===== verification/App_Guarantees.thy ===== *)
theory App_Guarantees
  imports Application
begin

text \<open>
  What holds of every application that was constructed and then used: its registry is well typed, a
  session-exclusive trigger is alone, the cached function app is current, the scale-out guards
  cannot be bypassed, no route is anonymous by accident, and the metadata describe the functions.
\<close>

section \<open>Using an application\<close>

datatype 's app_op =
    Register graph_object string "string option" bool "auth_level option" "nat option" "nat option" bool "string list"
  | RegisterBus graph_object string "'s bus_options"
  | SetStore "store_kind option"
  | GetFunctionApp

fun app_step :: "model_test \<Rightarrow> model_schema \<Rightarrow> app_env \<Rightarrow> 's app_op \<Rightarrow> 's app_state \<Rightarrow> 's app_state" where
  "app_step is_model schema ev (Register g name d stream auth rq rs async_mode allowed) ap =
     (case register is_model g name d stream auth rq rs async_mode allowed ap of Inl e \<Rightarrow> ap | Inr (ap', warns) \<Rightarrow> ap')"
| "app_step is_model schema ev (RegisterBus g name bo) ap =
     (case register_service_bus g name bo ap of Inl e \<Rightarrow> ap | Inr ap' \<Rightarrow> ap')"
| "app_step is_model schema ev (SetStore store) ap = set_thread_store store ap"
| "app_step is_model schema ev GetFunctionApp ap = snd (function_app is_model schema ev ap)"

definition app_run :: "model_test \<Rightarrow> model_schema \<Rightarrow> app_env \<Rightarrow> 's app_op list \<Rightarrow> 's app_state \<Rightarrow> 's app_state" where
  "app_run is_model schema ev ops ap = fold (app_step is_model schema ev) ops ap"

text \<open>The fields as a caller of the constructor may pass them.\<close>

definition fresh_app :: "'s app_state \<Rightarrow> bool" where
  "fresh_app ap \<longleftrightarrow> ap_registrations ap = [] \<and> ap_triggers ap = [] \<and> ap_built ap = None"

definition constructed :: "app_env \<Rightarrow> 's app_state \<Rightarrow> bool" where
  "constructed ev ap \<longleftrightarrow> (\<exists>ap0 warns. fresh_app ap0 \<and> post_init ev ap0 = Inr (ap, warns))"

section \<open>The invariant\<close>

definition registration_ok :: "model_test \<Rightarrow> 's app_state \<Rightarrow> string \<Rightarrow> app_registration \<Rightarrow> bool" where
  "registration_ok is_model ap name reg \<longleftrightarrow>
     reg_name reg = name \<and> validate_graph_name name = None \<and> (ap_platform ap \<longrightarrow> reg_invocable reg) \<and>
     pred_option is_model (rg_request reg) \<and> pred_option is_model (rg_response reg)"

definition bus_entry_ok :: "string \<Rightarrow> 's bus_entry \<Rightarrow> bool" where
  "bus_entry_ok name be \<longleftrightarrow>
     reg_name (sb_reg be) = name \<and> validate_graph_name name = None \<and> non_negative_float (be_timeout be) \<and>
     (be_queue be \<noteq> None \<longleftrightarrow> be_topic be = None) \<and> (be_topic be = None \<longleftrightarrow> be_subscription be = None) \<and>
     (sb_session be \<longrightarrow> map_of (be_binding be) ''is_sessions_enabled'' = Some (PBool True)) \<and>
     (reg_async (sb_reg be) \<or> reg_invocable (sb_reg be))"

definition isolated_bus :: "'s app_state \<Rightarrow> bool" where
  "isolated_bus ap \<longleftrightarrow>
     (any_exclusive ap \<longrightarrow>
        ap_registrations ap = [] \<and> \<not> ap_platform ap \<and> \<not> ap_durable ap \<and>
        (\<exists>name be. ap_triggers ap = [(name, be)] \<and> sb_session be \<and>
           py_eq (case map_of (be_binding be) ''cardinality'' of None \<Rightarrow> PStr ''one'' | Some v \<Rightarrow> v) (PStr ''one'')))"

definition lock_ok :: "app_env \<Rightarrow> 's app_state \<Rightarrow> bool" where
  "lock_ok ev ap \<longleftrightarrow>
     ap_lock ap \<noteq> None \<and> (lock_backend_setting ev \<notin> {[], ''inprocess''} \<longrightarrow> ap_lock ap \<noteq> Some InProcessLock)"

definition cache_ok :: "model_test \<Rightarrow> model_schema \<Rightarrow> app_env \<Rightarrow> 's app_state \<Rightarrow> bool" where
  "cache_ok is_model schema ev ap \<longleftrightarrow>
     (case ap_built ap of
        None \<Rightarrow> True | Some fs \<Rightarrow> map_sum id fst (build_function_app is_model schema ev ap) = Inr fs)"

definition app_ok :: "model_test \<Rightarrow> model_schema \<Rightarrow> app_env \<Rightarrow> 's app_state \<Rightarrow> bool" where
  "app_ok is_model schema ev ap \<longleftrightarrow>
     dict_ok (ap_registrations ap) \<and> dict_ok (ap_triggers ap) \<and>
     (\<forall>(name, reg) \<in> set (ap_registrations ap). registration_ok is_model ap name reg) \<and>
     (\<forall>(name, be) \<in> set (ap_triggers ap). bus_entry_ok name be) \<and>
     isolated_bus ap \<and> lock_ok ev ap \<and> cache_ok is_model schema ev ap"

lemma app_functions_cache: "app_functions is_model schema (ap\<lparr>ap_built := b\<rparr>) = app_functions is_model schema ap"
proof -
  have "register_route is_model schema (ap\<lparr>ap_built := b\<rparr>) reg e awaited = register_route is_model schema ap reg e awaited"
    for reg e awaited by (simp add: register_route_def effective_auth_level_def Let_def cong: option.case_cong)
  then have "graph_functions is_model schema (ap\<lparr>ap_built := b\<rparr>) reg = graph_functions is_model schema ap reg" for reg
    by (simp add: graph_functions_def)
  moreover have "health_functions (ap\<lparr>ap_built := b\<rparr>) = health_functions ap"
    by (simp add: health_functions_def resolved_details_auth_def resolved_readiness_auth_def cong: option.case_cong)
  moreover have "platform_functions (ap\<lparr>ap_built := b\<rparr>) = platform_functions ap"
    by (simp add: platform_functions_def)
  ultimately show ?thesis by (simp add: app_functions_def)
qed

lemma build_ignores_cache: "build_function_app is_model schema ev (ap\<lparr>ap_built := b\<rparr>) = build_function_app is_model schema ev ap"
proof -
  have "store_guard ev (ap\<lparr>ap_built := b\<rparr>) = store_guard ev ap" by (simp add: store_guard_def)
  then show ?thesis by (simp add: build_function_app_def app_functions_cache cong: sum.case_cong if_cong)
qed

lemma constructed_ok: "constructed ev ap \<Longrightarrow> app_ok is_model schema ev ap"
  by (auto simp: constructed_def fresh_app_def post_init_def app_ok_def isolated_bus_def any_exclusive_def lock_ok_def
      cache_ok_def Let_def split: if_splits)

lemma register_cases:
  assumes "register is_model g name d stream auth rq rs async_mode allowed ap = Inr (ap', warns)"
  shows "registration_error is_model ap g name async_mode rq rs = None"
    "ap' = ap\<lparr>ap_registrations := ap_registrations ap @ [(name, new_registration g name d stream auth rq rs async_mode allowed)],
       ap_built := None\<rparr>"
    "name \<notin> fst ` set (ap_registrations ap)" "\<not> any_exclusive ap"
    "registration_ok is_model ap name (new_registration g name d stream auth rq rs async_mode allowed)"
proof -
  show e: "registration_error is_model ap g name async_mode rq rs = None"
    using assms by (auto simp: register_def Let_def split: option.splits)
  then show new: "name \<notin> fst ` set (ap_registrations ap)" and "\<not> any_exclusive ap"
    and "registration_ok is_model ap name (new_registration g name d stream auth rq rs async_mode allowed)"
    by (auto simp: registration_error_def protocol_error_def validate_optional_model_def registration_ok_def
        new_registration_def split: option.splits if_splits)
  show "ap' = ap\<lparr>ap_registrations := ap_registrations ap @ [(name, new_registration g name d stream auth rq rs async_mode allowed)],
       ap_built := None\<rparr>"
    using assms e by (simp add: register_def Let_def update_new [OF new])
qed

lemma register_ok:
  assumes "app_ok is_model schema ev ap" "register is_model g name d stream auth rq rs async_mode allowed ap = Inr (ap', warns)"
  shows "app_ok is_model schema ev ap'"
  using assms(1) register_cases [OF assms(2)]
  by (auto simp: app_ok_def dict_ok_def registration_ok_def isolated_bus_def any_exclusive_def lock_ok_def cache_ok_def)

lemma bus_cases:
  assumes "register_service_bus g name bo ap = Inr ap'"
  shows "bus_registration_error ap g name bo = None" "name \<notin> fst ` set (ap_triggers ap)"
    "ap' = ap\<lparr>ap_triggers := ap_triggers ap @ [(name, new_bus_entry g name bo)], ap_built := None\<rparr>"
    "bus_entry_ok name (new_bus_entry g name bo)"
proof -
  show e: "bus_registration_error ap g name bo = None"
    using assms by (auto simp: register_service_bus_def split: option.splits)
  then show new: "name \<notin> fst ` set (ap_triggers ap)" and "bus_entry_ok name (new_bus_entry g name bo)"
    by (auto simp: bus_registration_error_def protocol_error_def binding_error_def bus_entry_ok_def new_bus_entry_def
        Let_def update_conv' split: option.splits if_splits)
  show "ap' = ap\<lparr>ap_triggers := ap_triggers ap @ [(name, new_bus_entry g name bo)], ap_built := None\<rparr>"
    using assms e by (simp add: register_service_bus_def update_new [OF new])
qed

lemma bus_isolated:
  assumes "bus_registration_error ap g name bo = None"
  shows "\<not> any_exclusive ap"
    "bo_exclusive bo \<Longrightarrow> bo_session bo \<and> ap_registrations ap = [] \<and> ap_triggers ap = [] \<and> \<not> ap_platform ap \<and>
       \<not> ap_durable ap \<and> py_eq (case map_of (bo_binding bo) ''cardinality'' of None \<Rightarrow> PStr ''one'' | Some v \<Rightarrow> v) (PStr ''one'')"
  using assms
  by (auto simp: bus_registration_error_def exclusive_error_def require_session_exclusive_topology_def
      split: option.splits if_splits)

lemma bus_ok:
  assumes "app_ok is_model schema ev ap" "register_service_bus g name bo ap = Inr ap'"
  shows "app_ok is_model schema ev ap'"
proof -
  note b = bus_cases [OF assms(2)] and i = bus_isolated [OF bus_cases(1) [OF assms(2)]]
  have "isolated_bus ap'"
  proof (cases "bo_exclusive bo")
    case True
    from i(2) [OF this] show ?thesis unfolding b(3) isolated_bus_def by (auto simp: new_bus_entry_def update_conv')
  next
    case False
    with i(1) have "\<not> any_exclusive ap'" unfolding b(3) by (simp add: any_exclusive_def new_bus_entry_def)
    then show ?thesis by (simp add: isolated_bus_def)
  qed
  with assms(1) b show ?thesis by (auto simp: app_ok_def dict_ok_def registration_ok_def lock_ok_def cache_ok_def)
qed

lemma store_ok: "app_ok is_model schema ev ap \<Longrightarrow> app_ok is_model schema ev (set_thread_store store ap)"
  by (auto simp: app_ok_def registration_ok_def isolated_bus_def any_exclusive_def lock_ok_def cache_ok_def
      set_thread_store_def)

lemma function_app_ok:
  assumes "app_ok is_model schema ev ap"
  shows "app_ok is_model schema ev (snd (function_app is_model schema ev ap))"
    and "fst (function_app is_model schema ev ap) = map_sum id fst (build_function_app is_model schema ev ap)"
proof -
  show "fst (function_app is_model schema ev ap) = map_sum id fst (build_function_app is_model schema ev ap)"
    using assms by (auto simp: app_ok_def cache_ok_def function_app_def split: option.splits sum.splits)
  show "app_ok is_model schema ev (snd (function_app is_model schema ev ap))"
  proof (cases "ap_built ap")
    case None
    show ?thesis
    proof (cases "build_function_app is_model schema ev ap")
      case (Inr r)
      with None assms show ?thesis
        by (cases r) (auto simp: function_app_def app_ok_def registration_ok_def isolated_bus_def any_exclusive_def
            lock_ok_def cache_ok_def build_ignores_cache)
    qed (use None assms in \<open>simp add: function_app_def\<close>)
  qed (use assms in \<open>simp add: function_app_def\<close>)
qed

lemma app_step_ok: "app_ok is_model schema ev ap \<Longrightarrow> app_ok is_model schema ev (app_step is_model schema ev x ap)"
  by (cases x) (auto simp: store_ok function_app_ok dest: register_ok bus_ok split: sum.split)

lemma app_run_ok:
  assumes "constructed ev ap"
  shows "app_ok is_model schema ev (app_run is_model schema ev ops ap)"
proof -
  have "app_ok is_model schema ev a \<Longrightarrow> app_ok is_model schema ev (fold (app_step is_model schema ev) ops a)" for a
    by (induction ops arbitrary: a) (simp_all add: app_step_ok)
  then show ?thesis using constructed_ok [OF assms] by (simp add: app_run_def)
qed

section \<open>The registry\<close>

text \<open>
  C29: Whatever is registered on an application, and however often that fails, its registries stay
  well typed: graph names are valid, unique and the keys of their registrations, models are models, every graph of
  a platform application can be invoked synchronously, every trigger has exactly one binding and a
  finite timeout, a session trigger has sessions enabled, and there is a thread lock.
\<close>

theorem registry_typed:
  assumes "constructed ev ap"
  shows "let ap' = app_run is_model schema ev ops ap in
    list_all (\<lambda>(name, reg). registration_ok is_model ap' name reg) (ap_registrations ap') \<and>
    list_all (\<lambda>(name, be). bus_entry_ok name be) (ap_triggers ap') \<and>
    dict_ok (ap_registrations ap') \<and> dict_ok (ap_triggers ap') \<and> ap_lock ap' \<noteq> None"
  using app_run_ok [OF assms, of is_model schema ops] by (simp add: app_ok_def lock_ok_def list_all_iff Let_def)

text \<open>
  C30: A session-exclusive trigger, which runs its graph without the thread lock, is alone: whenever one
  is registered there is no other trigger, no graph on an HTTP route, no platform and no durable surface, and
  its messages come one by one in sessions.
\<close>

theorem session_exclusive_alone:
  assumes "constructed ev ap"
  shows "isolated_bus (app_run is_model schema ev ops ap)"
  using app_run_ok [OF assms, of is_model schema ops] by (simp add: app_ok_def)

section \<open>The built function app\<close>

text \<open>
  C31: \<open>function_app\<close> is never stale: after any use of the application it answers with what building the app
  from the current registrations and the current store would give, errors included, and the lock
  is never missing.
\<close>

theorem function_app_current:
  assumes "constructed ev ap"
  shows "let ap' = app_run is_model schema ev ops ap; r = fst (function_app is_model schema ev ap') in
    r = map_sum id fst (build_function_app is_model schema ev ap') \<and> r \<noteq> Inl LockMissing"
proof -
  let ?ap' = "app_run is_model schema ev ops ap"
  note ok = app_run_ok [OF assms, of is_model schema ops]
  have "build_function_app is_model schema ev ?ap' \<noteq> Inl LockMissing"
    using ok by (auto simp: build_function_app_def app_ok_def lock_ok_def store_guard_def Let_def split: sum.split if_splits)
  then have "map_sum id fst (build_function_app is_model schema ev ?ap') \<noteq> Inl LockMissing"
    by (cases "build_function_app is_model schema ev ?ap'") auto
  with function_app_ok(2) [OF ok] show ?thesis by (simp add: Let_def)
qed

text \<open>
  C32: When the operator demands a distributed lock backend, no use of the application ends with routes
  that rely on memory of one instance: neither the thread lock nor, on the Platform surface, the thread store.
\<close>

theorem scale_out_guarded:
  assumes "constructed ev ap" "lock_backend_setting ev \<notin> {[], ''inprocess''}"
  shows "let ap' = app_run is_model schema ev ops ap in
    ap_lock ap' \<noteq> Some InProcessLock \<and>
    (case fst (function_app is_model schema ev ap') of
       Inl e \<Rightarrow> True | Inr fs \<Rightarrow> \<not> (ap_platform ap' \<and> ap_store ap' = Some InMemoryStore))"
proof -
  let ?ap' = "app_run is_model schema ev ops ap"
  note ok = app_run_ok [OF assms(1), of is_model schema ops]
  have "\<not> (ap_platform ?ap' \<and> ap_store ?ap' = Some InMemoryStore)"
    if "map_sum id fst (build_function_app is_model schema ev ?ap') = Inr fs" for fs
    using that assms(2)
    by (auto simp: build_function_app_def store_guard_def Let_def split: sum.splits if_splits)
  with ok assms(2) function_app_ok(2) [OF ok] show ?thesis
    by (auto simp: Let_def app_ok_def lock_ok_def split: sum.split)
qed

text \<open>What the operator has to have asked for when a function can be called without a key.\<close>

fun chosen_anonymous :: "'s app_state \<Rightarrow> 's app_handler \<Rightarrow> bool" where
  "chosen_anonymous ap HealthHandler = (ap_health_auth ap = AnonymousLevel)"
| "chosen_anonymous ap DetailsHandler = (ap_details_auth ap = Some AnonymousLevel)"
| "chosen_anonymous ap ReadyHandler = (ap_ready_auth ap = Some AnonymousLevel)"
| "chosen_anonymous ap (GraphHandler e awaited reg) =
     (rg_auth reg = Some AnonymousLevel \<and> (\<exists>name. (name, reg) \<in> set (ap_registrations ap)))"
| "chosen_anonymous ap _ = False"

definition key_required :: "'s app_state \<Rightarrow> 's function_entry \<Rightarrow> bool" where
  "key_required ap fe \<longleftrightarrow>
     (case fe_trigger fe of
        HttpTrigger route verb auth \<Rightarrow>
          (case auth of None \<Rightarrow> ap_auth ap | Some a \<Rightarrow> a) \<noteq> AnonymousLevel
      | _ \<Rightarrow> True)"

text \<open>
  No route is anonymous by accident. Of an application that is not anonymous itself a function can
  be called without a key only if it is the liveness probe, or if the operator made exactly this
  route, or this graph, anonymous.
\<close>

theorem anonymous_only_by_choice:
  fixes ap :: "'s app_state"
  shows "list_all (\<lambda>fe. key_required ap fe \<or> ap_auth ap = AnonymousLevel \<or> chosen_anonymous ap (fe_handler fe))
     (app_functions is_model schema ap)"
proof -
  let ?P = "\<lambda>fe :: 's function_entry. key_required ap fe \<or> ap_auth ap = AnonymousLevel \<or> chosen_anonymous ap (fe_handler fe)"
  have "list_all ?P (graph_functions is_model schema ap reg)" if "(name, reg) \<in> set (ap_registrations ap)" for name reg
    using that by (auto simp: graph_functions_def register_route_def Let_def key_required_def effective_auth_level_def
        split: option.splits)
  then have "list_all ?P (concat (map (\<lambda>(name, reg). graph_functions is_model schema ap reg) (ap_registrations ap)))"
    unfolding list_all_iff by fastforce
  moreover have "list_all ?P (health_functions ap)"
    by (auto simp: health_functions_def plain_function_def key_required_def resolved_details_auth_def
        resolved_readiness_auth_def split: option.splits)
  moreover have "list_all ?P (map (\<lambda>(name, be). bus_function (reg_name (sb_reg be)) be) (ap_triggers ap))"
    by (simp add: list_all_iff bus_function_def plain_function_def key_required_def case_prod_unfold)
  moreover have "list_all ?P (platform_functions ap)"
    by (simp add: platform_functions_def platform_routes_def plain_function_def key_required_def)
  moreover have "list_all ?P durable_functions"
    by (simp add: durable_functions_def plain_function_def key_required_def)
  ultimately show ?thesis by (simp add: app_functions_def)
qed

section \<open>The metadata describe the functions\<close>

fun documented :: "'s app_handler \<Rightarrow> bool" where
  "documented (BusHandler be) = False"
| "documented (PlatformHandler name) = False"
| "documented (DurableHandler name) = False"
| "documented _ = True"

definition describes :: "model_schema \<Rightarrow> 's app_state \<Rightarrow> route_metadata \<Rightarrow> 's function_entry \<Rightarrow> bool" where
  "describes schema ap rm fe \<longleftrightarrow>
     (case fe_trigger fe of
        HttpTrigger route verb auth \<Rightarrow> rm_path rm = metadata_path ap route \<and> rm_verb rm = verb
      | _ \<Rightarrow> False) \<and>
     (case fe_handler fe of
        GraphHandler e awaited reg \<Rightarrow>
          namespace_in (fe_metadata fe) ''endpoint'' =
            Some (PDict (build_endpoint_metadata schema (rm_request rm) (rm_response rm) (rm_parameters rm))) \<and>
          read_langgraph_metadata (fe_metadata fe) =
            Some [(''version'', PInt 1), (''graph_name'', PStr (reg_name reg)), (''endpoint'', PStr (endpoint_text e))]
      | _ \<Rightarrow> fe_metadata fe = None)"

lemma describes_graph:
  "list_all2 (describes schema ap) (graph_routes is_model ap reg) (graph_functions is_model schema ap reg)"
  by (auto simp: graph_routes_def graph_functions_def graph_route_def register_route_def describes_def Let_def
      read_langgraph_in set_endpoint_metadata_def set_langgraph_metadata_def)

lemma documented_functions:
  fixes ap :: "'s app_state"
  shows "filter (\<lambda>fe. documented (fe_handler fe)) (app_functions is_model schema ap) =
     health_functions ap @ concat (map (\<lambda>(name, reg). graph_functions is_model schema ap reg) (ap_registrations ap))"
proof -
  have "documented (fe_handler fe)" if "fe \<in> set (graph_functions is_model schema ap reg)" for fe :: "'s function_entry" and reg
    using that by (auto simp: graph_functions_def register_route_def Let_def split: if_splits)
  then have "filter (\<lambda>fe. documented (fe_handler fe)) (graph_functions is_model schema ap reg) =
      graph_functions is_model schema ap reg" for reg by (simp add: filter_id_conv)
  then have "filter (\<lambda>fe. documented (fe_handler fe))
      (concat (map (\<lambda>(name, reg). graph_functions is_model schema ap reg) rs)) =
      concat (map (\<lambda>(name, reg). graph_functions is_model schema ap reg) rs)" for rs
    by (induction rs) auto
  moreover have "filter (\<lambda>fe. documented (fe_handler fe)) (map (\<lambda>(name, be). bus_function (reg_name (sb_reg be)) be) bs) = []"
    for bs :: "(string \<times> 's bus_entry) list"
    by (induction bs) (auto simp: bus_function_def plain_function_def)
  moreover have "filter (\<lambda>fe. documented (fe_handler fe)) (health_functions ap) = health_functions ap"
    "filter (\<lambda>fe. documented (fe_handler fe)) (platform_functions ap) = []"
    "filter (\<lambda>fe. documented (fe_handler fe)) (durable_functions :: 's function_entry list) = []"
    by (simp_all add: health_functions_def platform_functions_def platform_routes_def durable_functions_def plain_function_def)
  ultimately show ?thesis by (simp add: app_functions_def)
qed

lemma list_all2_concat: "(\<And>x. list_all2 P (f x) (g x)) \<Longrightarrow> list_all2 P (concat (map f xs)) (concat (map g xs))"
  by (induction xs) (simp_all add: list_all2_appendI)

text \<open>
  C33: The metadata API and the built app never drift: the routes it lists are, one by one and in order,
  the HTTP functions of the app that serve graphs and health, with the same path, verb, models and
  parameters; and the OpenAPI bridge hands over exactly these.
\<close>

theorem metadata_describe_functions:
  "let md = get_app_metadata is_model ap;
       functions = filter (\<lambda>fe. documented (fe_handler fe)) (app_functions is_model schema ap) in
   list_all2 (describes schema ap) (am_routes md @ concat (map (\<lambda>(name, description, routes). routes) (am_graphs md)))
     functions \<and>
   snd (register_with_openapi is_model ap) = length functions"
proof -
  let ?md = "get_app_metadata is_model ap"
  have graphs: "concat (map (\<lambda>(name, description, routes). routes) (am_graphs ?md)) =
      concat (map (\<lambda>(name, reg). graph_routes is_model ap reg) (ap_registrations ap))"
    by (simp add: get_app_metadata_def comp_def case_prod_unfold)
  have health: "list_all2 (describes schema ap) (am_routes ?md) (health_functions ap)"
    by (simp add: get_app_metadata_def health_functions_def describes_def plain_route_def plain_function_def)
  have l: "list_all2 (describes schema ap)
      (am_routes ?md @ concat (map (\<lambda>(name, description, routes). routes) (am_graphs ?md)))
      (filter (\<lambda>fe. documented (fe_handler fe)) (app_functions is_model schema ap))"
    unfolding graphs documented_functions
    by (rule list_all2_appendI [OF health list_all2_concat]) (simp add: describes_graph case_prod_unfold)
  have "snd (register_with_openapi is_model ap) =
      length (am_routes ?md @ concat (map (\<lambda>(name, description, routes). routes) (am_graphs ?md)))"
    by (simp add: register_with_openapi_def Let_def length_concat comp_def case_prod_unfold)
  with l list_all2_lengthD [OF l] show ?thesis by (simp add: Let_def)
qed

section \<open>The names of the functions\<close>

text \<open>The Functions host wants unique names. Those of one graph end with the endpoint.\<close>

definition graph_function_name :: "string \<times> graph_endpoint \<Rightarrow> string" where
  "graph_function_name = (\<lambda>(name, e). ''aflg_'' @ name @ ''_'' @ endpoint_text e)"

definition served_endpoints :: "app_registration \<Rightarrow> graph_endpoint list" where
  "served_endpoints reg =
     [InvokeRoute] @ (if ng_stream_enabled reg then [StreamRoute] else []) @ (if ng_stateful reg then [StateRoute] else [])"

definition served :: "'s app_state \<Rightarrow> (string \<times> graph_endpoint) list" where
  "served ap = concat (map (\<lambda>(name, reg). map (Pair (reg_name reg)) (served_endpoints reg)) (ap_registrations ap))"

definition last_part :: "string \<Rightarrow> string" where
  "last_part s = last (split_on CHR ''_'' s)"

lemma last_part_append: "CHR ''_'' \<notin> set b \<Longrightarrow> last_part (a @ CHR ''_'' # b) = b"
  by (simp add: last_part_def split_on_last)

lemma endpoint_part: "CHR ''_'' \<notin> set (endpoint_text e)" "endpoint_text e \<in> {''invoke'', ''stream'', ''state''}"
  by (cases e; simp)+

lemma graph_name_part [simp]: "last_part (graph_function_name (n, e)) = endpoint_text e"
  using last_part_append [OF endpoint_part(1), of "''aflg_'' @ n"] by (simp add: graph_function_name_def)

lemma endpoint_text_inject: "endpoint_text e = endpoint_text e' \<Longrightarrow> e = e'"
  by (cases e; cases e') simp_all

lemma graph_function_name_inject: "inj graph_function_name"
proof (rule injI, clarify)
  fix n e n' e'
  assume eq: "graph_function_name (n, e) = graph_function_name (n', e')"
  then have "endpoint_text e = endpoint_text e'" by (metis graph_name_part)
  then have "e = e'" by (rule endpoint_text_inject)
  with eq show "n = n' \<and> e = e'" by (simp add: graph_function_name_def)
qed

lemma graph_names: "map fe_name (graph_functions is_model schema ap reg) = map graph_function_name (map (Pair (reg_name reg)) (served_endpoints reg))"
  by (simp add: graph_functions_def served_endpoints_def register_route_def Let_def graph_function_name_def)

lemma all_graph_names:
  "map fe_name (concat (map (\<lambda>(name, reg). graph_functions is_model schema ap reg) (ap_registrations ap))) =
     map graph_function_name (served ap)"
  unfolding served_def map_concat map_map comp_def case_prod_unfold
  using graph_names [of is_model schema ap] by (simp add: comp_def)

definition served_by :: "(string \<times> app_registration) list \<Rightarrow> (string \<times> graph_endpoint) list" where
  "served_by rs = concat (map (\<lambda>(name, reg). map (Pair (reg_name reg)) (served_endpoints reg)) rs)"

lemma served_distinct:
  assumes "dict_ok rs" "\<forall>(name, reg) \<in> set rs. reg_name reg = name"
  shows "distinct (served_by rs) \<and> fst ` set (served_by rs) \<subseteq> fst ` set rs"
  using assms
proof (induction rs)
  case (Cons r rs)
  obtain name reg where r: "r = (name, reg)" by fastforce
  have name: "reg_name reg = name" and new: "name \<notin> fst ` set rs" using Cons.prems r by (auto simp: dict_ok_def)
  have IH: "distinct (served_by rs)" "fst ` set (served_by rs) \<subseteq> fst ` set rs"
    using Cons by (simp_all add: dict_ok_def)
  have all: "served_by (r # rs) = map (Pair name) (served_endpoints reg) @ served_by rs"
    by (simp add: served_by_def r name)
  have "distinct (map (Pair name) (served_endpoints reg))" by (simp add: distinct_map inj_on_def served_endpoints_def)
  moreover have "set (map (Pair name) (served_endpoints reg)) \<inter> set (served_by rs) = {}" using IH(2) new by force
  ultimately show ?case using IH unfolding r [symmetric] all by (auto simp: r)
qed (simp add: served_by_def)

definition fixed_names :: "'s app_state \<Rightarrow> string list" where
  "fixed_names ap =
     [''aflg_health'', ''aflg_health_details''] @ (if ap_checks ap \<noteq> [] then [''aflg_health_ready''] else []) @
     (if ap_durable ap
      then [''langgraph_durable_run_orchestrator'', ''execute_langgraph_run'', ''aflg_durable_create_run'',
            ''aflg_durable_get_run'', ''aflg_durable_cancel_run''] else [])"

definition platform_names :: "'s app_state \<Rightarrow> string list" where
  "platform_names ap = (if ap_platform ap then map (\<lambda>(name, r). ''aflg_platform_'' @ name) platform_routes else [])"

definition bus_names :: "'s app_state \<Rightarrow> string list" where
  "bus_names ap = map (\<lambda>(name, be). ''aflg_sb_'' @ reg_name (sb_reg be)) (ap_triggers ap)"

lemma names_by_kind:
  fixes ap :: "'s app_state"
  shows "mset (map fe_name (app_functions is_model schema ap)) =
     mset (fixed_names ap) + mset (map graph_function_name (served ap)) + mset (bus_names ap) + mset (platform_names ap)"
proof -
  have bus: "map fe_name (map (\<lambda>(name, be). bus_function (reg_name (sb_reg be)) be) (ap_triggers ap)) = bus_names ap"
    by (simp add: bus_names_def bus_function_def plain_function_def comp_def case_prod_unfold)
  have plat: "map fe_name (if ap_platform ap then platform_functions ap else []) = platform_names ap"
    by (simp add: platform_names_def platform_functions_def plain_function_def comp_def case_prod_unfold)
  have fixed: "mset (map fe_name (health_functions ap)) +
      mset (map fe_name (if ap_durable ap then (durable_functions :: 's function_entry list) else [])) =
      mset (fixed_names ap)"
    by (simp add: health_functions_def durable_functions_def fixed_names_def plain_function_def)
  show ?thesis
    unfolding app_functions_def map_append mset_append all_graph_names bus plat
    by (simp only: fixed [symmetric] ac_simps)
qed

lemma served_eq: "served ap = served_by (ap_registrations ap)"
  by (simp add: served_def served_by_def)

lemma fixed_distinct: "distinct (fixed_names ap)"
  by (simp add: fixed_names_def)

lemma platform_distinct: "distinct (platform_names ap)"
  by (simp add: platform_names_def platform_routes_def)

lemma bus_distinct:
  assumes "dict_ok (ap_triggers ap)" "\<forall>(name, be) \<in> set (ap_triggers ap). reg_name (sb_reg be) = name"
  shows "distinct (bus_names ap)" "set (bus_names ap) = (\<lambda>t. ''aflg_sb_'' @ t) ` fst ` set (ap_triggers ap)"
proof -
  have "bus_names ap = map (\<lambda>t. ''aflg_sb_'' @ t) (map fst (ap_triggers ap))"
    unfolding bus_names_def map_map by (rule map_cong) (use assms(2) in auto)
  then show "distinct (bus_names ap)" "set (bus_names ap) = (\<lambda>t. ''aflg_sb_'' @ t) ` fst ` set (ap_triggers ap)"
    using assms(1) by (simp_all only: dict_ok_def distinct_map set_map) (simp add: inj_on_def)
qed

text \<open>What cannot clash: the last parts differ, or the first ones.\<close>

lemma graph_not_fixed: "graph_function_name x \<notin> set (fixed_names ap)"
proof
  assume "graph_function_name x \<in> set (fixed_names ap)"
  then have "last_part (graph_function_name x) \<in> last_part ` set (fixed_names ap)" by (rule imageI)
  moreover have "last_part ` set (fixed_names ap) \<subseteq> {''health'', ''details'', ''ready'', ''orchestrator'', ''run''}"
    by (auto simp: fixed_names_def last_part_def)
  ultimately show False using endpoint_part(2) [of "snd x"] by (cases x) auto
qed

lemma bus_not_others: "set (bus_names ap) \<inter> set (fixed_names ap) = {}" "set (bus_names ap) \<inter> set (platform_names ap) = {}"
  by (auto simp: bus_names_def fixed_names_def platform_names_def platform_routes_def split: if_splits)

lemma platform_not_fixed: "set (platform_names ap) \<inter> set (fixed_names ap) = {}"
  by (auto simp: fixed_names_def platform_names_def platform_routes_def split: if_splits)

lemma platform_parts:
  "list_all (\<lambda>s. (last_part s = ''stream'' \<longrightarrow> s = ''aflg_platform_runs_stream'') \<and> last_part s \<noteq> ''invoke'' \<and>
     last_part s \<noteq> ''state'') (map (\<lambda>(name, r). ''aflg_platform_'' @ name) platform_routes)"
  by (simp add: platform_routes_def last_part_def)

lemma graph_on_platform:
  "graph_function_name x \<in> set (platform_names ap) \<longleftrightarrow> ap_platform ap \<and> x = (''platform_runs'', StreamRoute)"
proof
  assume p: "graph_function_name x \<in> set (platform_names ap)"
  obtain n e where x: "x = (n, e)" by fastforce
  have plat: "ap_platform ap" using p by (simp add: platform_names_def split: if_splits)
  with p have "graph_function_name x \<in> set (map (\<lambda>(name, r). ''aflg_platform_'' @ name) platform_routes)"
    by (simp only: platform_names_def if_True)
  from bspec [OF platform_parts [unfolded list_all_iff] this]
  have parts: "last_part (graph_function_name x) = ''stream'' \<longrightarrow> graph_function_name x = ''aflg_platform_runs_stream''"
    "last_part (graph_function_name x) \<noteq> ''invoke''" "last_part (graph_function_name x) \<noteq> ''state''" by blast+
  then have e: "e = StreamRoute" by (cases e) (simp_all add: x)
  with parts(1) have "graph_function_name x = ''aflg_platform_runs_stream''" by (simp add: x)
  then have "graph_function_name x = graph_function_name (''platform_runs'', StreamRoute)"
    by (simp add: graph_function_name_def)
  then have "x = (''platform_runs'', StreamRoute)" by (rule injD [OF graph_function_name_inject])
  with plat show "ap_platform ap \<and> x = (''platform_runs'', StreamRoute)" by simp
qed (simp add: graph_function_name_def platform_names_def platform_routes_def)

text \<open>
  Two functions of an application have the same name exactly in two cases: on the Platform surface
  a streaming graph is called \<open>platform_runs\<close>, or a graph whose name starts with \<open>sb_\<close> meets a Service Bus trigger whose
  name is the rest, an underscore and an endpoint of the graph.
\<close>

theorem function_names_clash:
  assumes "constructed ev ap"
  shows "let ap' = app_run is_model schema ev ops ap in
    distinct (map fe_name (app_functions is_model schema ap')) \<longleftrightarrow>
    \<not> (ap_platform ap' \<and> (''platform_runs'', StreamRoute) \<in> set (served ap')) \<and>
    (\<forall>(name, e) \<in> set (served ap'). \<forall>t \<in> fst ` set (ap_triggers ap'). name @ ''_'' @ endpoint_text e \<noteq> ''sb_'' @ t)"
proof -
  let ?ap' = "app_run is_model schema ev ops ap"
  have ok: "app_ok is_model schema ev ?ap'" by (rule app_run_ok [OF assms])
  then have keys: "\<forall>(name, reg) \<in> set (ap_registrations ?ap'). reg_name reg = name"
    "\<forall>(name, be) \<in> set (ap_triggers ?ap'). reg_name (sb_reg be) = name"
    by (fastforce simp: app_ok_def registration_ok_def bus_entry_ok_def)+
  have d: "dict_ok (ap_registrations ?ap')" "dict_ok (ap_triggers ?ap')" using ok by (simp_all add: app_ok_def)
  have G: "distinct (map graph_function_name (served ?ap'))"
    using served_distinct [OF d(1) keys(1)] inj_on_subset [OF graph_function_name_inject]
    by (simp add: served_eq distinct_map)
  note B = bus_distinct [OF d(2) keys(2)]
  have gb: "graph_function_name x \<notin> set (bus_names ?ap') \<longleftrightarrow>
      (\<forall>t \<in> fst ` set (ap_triggers ?ap'). fst x @ ''_'' @ endpoint_text (snd x) \<noteq> ''sb_'' @ t)" for x
    by (cases x) (auto simp: B(2) graph_function_name_def)
  have "distinct (map fe_name (app_functions is_model schema ?ap')) \<longleftrightarrow>
      distinct (fixed_names ?ap' @ map graph_function_name (served ?ap') @ bus_names ?ap' @ platform_names ?ap')"
    by (rule mset_eq_imp_distinct_iff) (simp only: mset_append names_by_kind ac_simps)
  also have "\<dots> \<longleftrightarrow> (\<forall>x \<in> set (served ?ap'). graph_function_name x \<notin> set (bus_names ?ap') \<and>
      graph_function_name x \<notin> set (platform_names ?ap'))"
  proof -
    let ?F = "fixed_names ?ap'" and ?G = "map graph_function_name (served ?ap')" and ?B = "bus_names ?ap'" and
      ?P = "platform_names ?ap'"
    have "set ?F \<inter> set ?G = {}" using graph_not_fixed [where ap = ?ap'] by auto
    then have "set ?F \<inter> (set ?G \<union> set ?B \<union> set ?P) = {}"
      using bus_not_others(1) [of ?ap'] platform_not_fixed [of ?ap'] by blast
    then have "distinct (?F @ ?G @ ?B @ ?P) \<longleftrightarrow> set ?G \<inter> (set ?B \<union> set ?P) = {}"
      using G B(1) fixed_distinct [of ?ap'] platform_distinct [of ?ap'] bus_not_others(2) [of ?ap']
      by (simp only: distinct_append set_append) blast
    then show ?thesis by (simp only: set_map) blast
  qed
  also have "\<dots> \<longleftrightarrow> \<not> (ap_platform ?ap' \<and> (''platform_runs'', StreamRoute) \<in> set (served ?ap')) \<and>
    (\<forall>(name, e) \<in> set (served ?ap'). \<forall>t \<in> fst ` set (ap_triggers ?ap'). name @ ''_'' @ endpoint_text e \<noteq> ''sb_'' @ t)"
    unfolding gb graph_on_platform by (auto simp: case_prod_unfold)
  finally show ?thesis unfolding Let_def .
qed

section \<open>An example application\<close>

definition example_graph :: graph_object where
  "example_graph =
     \<lparr>go_address = 1, go_class = ''CompiledStateGraph'', go_invoke = True, go_ainvoke = True, go_stream = True,
      go_astream = True, go_state = True, go_checkpointer = True, go_saver = True\<rparr>"

definition example_env :: app_env where
  "example_env = \<lparr>ev_vars = [(''AZFUNC_LANGGRAPH_LOCK_BACKEND'', ''distributed'')], ev_durable = False\<rparr>"

definition example_schema :: model_schema where
  "example_schema m mode = PDict []"

definition example_fields :: "bool \<Rightarrow> 's app_state" where
  "example_fields platform =
     \<lparr>ap_auth = FunctionLevel, ap_health_auth = AnonymousLevel, ap_details_auth = None, ap_ready_auth = None,
      ap_checks = [], ap_timeout = Finite 5,
      ap_limits = \<lparr>al_stream = 1048576, al_body = 1048576, al_depth = 32, al_nodes = 10000, al_results = 100\<rparr>,
      ap_platform = platform, ap_durable = False, ap_lock = Some (OtherLock 3), ap_prefix = ''/api'', ap_registrations = [],
      ap_triggers = [], ap_built = None, ap_store = None, ap_runner = None\<rparr>"

definition example_app :: "bool \<Rightarrow> 's app_state" where
  "example_app platform = (example_fields platform)\<lparr>ap_store := (if platform then Some InMemoryStore else None)\<rparr>"

lemma example_constructed: "constructed example_env (example_app platform)"
proof -
  have "normalized_prefix ''/api'' = ''/api''" by (simp add: normalized_prefix_def)
  then have "post_init example_env (example_fields platform) = Inr (example_app platform, [])"
    by (simp add: post_init_def example_fields_def example_app_def positive_float_def Let_def)
  then show ?thesis unfolding constructed_def by (intro exI conjI) (auto simp: fresh_app_def example_fields_def)
qed

lemma example_backend: "lock_backend_setting example_env \<notin> {[], ''inprocess''}"
  by (simp add: lock_backend_setting_def env_setting_def example_env_def strip_text_def is_white_def lower_char_def)

definition example_register :: "string \<Rightarrow> 's app_op" where
  "example_register name = Register example_graph name None True None None None False []"

definition example_queue :: "bool \<Rightarrow> unit bus_options" where
  "example_queue exclusive =
     \<lparr>bo_connection = ''Bus'', bo_queue = Some ''q'', bo_topic = None, bo_subscription = None, bo_mapper = None,
      bo_factory = None, bo_handler = None, bo_async = False, bo_timeout = Finite 5, bo_binding = [],
      bo_session = exclusive, bo_exclusive = exclusive\<rparr>"

lemma registry_typed_witness:
  "let ap' = app_run (\<lambda>_. True) example_schema example_env [example_register ''agent'', example_register ''agent''] (example_app False :: unit app_state) in
    list_all (\<lambda>(name, reg). registration_ok (\<lambda>_. True) ap' name reg) (ap_registrations ap') \<and> ap_lock ap' \<noteq> None"
  using registry_typed [OF example_constructed, of "\<lambda>_. True" example_schema
      "[example_register ''agent'', example_register ''agent'']" False]
  unfolding Let_def by blast

lemma session_exclusive_alone_witness:
  "isolated_bus (app_run (\<lambda>_. True) example_schema example_env
     [RegisterBus example_graph ''orders'' (example_queue True), example_register ''agent''] (example_app False :: unit app_state))"
  by (rule session_exclusive_alone [OF example_constructed])

lemma function_app_current_witness:
  "let ap' = app_run (\<lambda>_. True) example_schema example_env [GetFunctionApp, example_register ''agent''] (example_app False :: unit app_state) in
    fst (function_app (\<lambda>_. True) example_schema example_env ap') \<noteq> Inl LockMissing"
  using function_app_current [OF example_constructed, of "\<lambda>_. True" example_schema "[GetFunctionApp, example_register ''agent'']" False]
  unfolding Let_def by blast

lemma scale_out_guarded_witness:
  "ap_lock (app_run (\<lambda>_. True) example_schema example_env [example_register ''agent''] (example_app True :: unit app_state)) \<noteq> Some InProcessLock"
  using scale_out_guarded [OF example_constructed example_backend, of "\<lambda>_. True" example_schema "[example_register ''agent'']" True]
  unfolding Let_def by blast

lemma function_names_clash_witness:
  "distinct (map fe_name (app_functions (\<lambda>_. True) example_schema (app_run (\<lambda>_. True) example_schema example_env [] (example_app False :: unit app_state))))"
  using function_names_clash [OF example_constructed, of "\<lambda>_. True" example_schema "[]" False]
  by (simp add: Let_def app_run_def example_app_def example_fields_def served_def)

text \<open>Two registrations that are both accepted, and the functions they give.\<close>

lemma valid_example_names: "validate_graph_name ''sb_orders'' = None" "validate_graph_name ''orders_invoke'' = None"
  by (simp_all add: validate_graph_name_def dollar_bodies_def graph_name_body_def is_name_char_def is_letter_def less_eq_char_def)

lemma function_name_taken_twice:
  "\<not> distinct (map fe_name (app_functions (\<lambda>_. True) schema
     (app_run (\<lambda>_. True) schema example_env
        [example_register ''sb_orders'', RegisterBus example_graph ''orders_invoke'' (example_queue False)] (example_app False :: unit app_state))))"
  by (simp add: app_run_def example_register_def example_app_def example_fields_def register_def registration_error_def
      protocol_error_def validate_optional_model_def valid_example_names any_exclusive_def example_graph_def
      new_registration_def register_service_bus_def bus_registration_error_def binding_error_def exclusive_error_def
      example_queue_def non_negative_float_def new_bus_entry_def app_functions_def health_functions_def plain_function_def
      graph_functions_def register_route_def bus_function_def Let_def)

end
