(* ===== verification/Readiness.thy ===== *)
theory Readiness
  imports Application
begin

text \<open>
  Readiness probes (\<^verbatim>\<open>_readiness.py\<close>): the registry of futures, the bounded worker pool, and the
  atomic sections of probes and workers in any interleaving. The pool is
  \<^verbatim>\<open>concurrent.futures.ThreadPoolExecutor\<close> of the standard library: queued jobs start in order, at most
  \<^verbatim>\<open>max_workers\<close> at a time. A future is known by the number of its submission. When the deadline of a
  probe passes is not fixed: \<open>Answer\<close> is possible whenever \<^verbatim>\<open>wait\<close> may return.
\<close>

section \<open>Checks\<close>

text \<open>
  How a callback ends: with a value, with an \<^verbatim>\<open>Exception\<close>, or with another \<^verbatim>\<open>BaseException\<close> (\<^verbatim>\<open>SystemExit\<close>, a
  cancellation). A callback may hand out an awaitable, which is then run to its end.
\<close>

datatype check_end = Gives pyval | Fails exn | Exits exn

datatype check_call = Direct check_end | Awaitable check_end

fun run_check :: "check_call \<Rightarrow> check_end" where
  "run_check (Direct e) = e"
| "run_check (Awaitable e) = e"

section \<open>The runner\<close>

datatype job_status = Queued | Running | Settled check_end

record job =
  jb_component :: string
  jb_status :: job_status

record ready_runner =
  rr_checks :: "string list"
  rr_workers :: nat
  rr_futures :: "nat dict"
  rr_jobs :: "job list"

definition new_runner :: "string list \<Rightarrow> ready_runner" where
  "new_runner checks =
     \<lparr>rr_checks = checks, rr_workers = min 4 (length checks), rr_futures = [], rr_jobs = []\<rparr>"

fun job_settled :: "job_status \<Rightarrow> bool" where
  "job_settled (Settled e) = True"
| "job_settled _ = False"

definition future_done :: "ready_runner \<Rightarrow> nat \<Rightarrow> bool" where
  "future_done r j = job_settled (jb_status (rr_jobs r ! j))"

definition set_status :: "nat \<Rightarrow> job_status \<Rightarrow> ready_runner \<Rightarrow> ready_runner" where
  "set_status j st r = r\<lparr>rr_jobs := (rr_jobs r)[j := (rr_jobs r ! j)\<lparr>jb_status := st\<rparr>]\<rparr>"

text \<open>One round of the loop in \<open>_current_futures\<close>: the test, and the submission with its registration.\<close>

definition reusable :: "string \<Rightarrow> ready_runner \<Rightarrow> bool" where
  "reusable name r = (case map_of (rr_futures r) name of None \<Rightarrow> False | Some j \<Rightarrow> \<not> future_done r j)"

definition submit :: "string \<Rightarrow> ready_runner \<Rightarrow> ready_runner" where
  "submit name r =
     r\<lparr>rr_futures := AList.update name (length (rr_jobs r)) (rr_futures r),
       rr_jobs := rr_jobs r @ [\<lparr>jb_component = name, jb_status = Queued\<rparr>]\<rparr>"

definition current_futures :: "ready_runner \<Rightarrow> nat dict \<times> ready_runner" where
  "current_futures r =
     (let r' = fold (\<lambda>name r. if reusable name r then r else submit name r) (rr_checks r) r in (rr_futures r', r'))"

text \<open>The workers.\<close>

definition running :: "ready_runner \<Rightarrow> nat" where
  "running r = length (filter (\<lambda>jb. jb_status jb = Running) (rr_jobs r))"

definition next_queued :: "ready_runner \<Rightarrow> nat option" where
  "next_queued r = find (\<lambda>j. jb_status (rr_jobs r ! j) = Queued) [0..<length (rr_jobs r)]"

section \<open>The answer of a probe\<close>

datatype component_status = StatusOk | StatusFailed

text \<open>
  The loop of \<open>run\<close> over the futures, at the moment when \<open>wait\<close> returned. \<open>Inl\<close> is an exception that
  \<^verbatim>\<open>except Exception\<close> does not catch.
\<close>

fun probe_answer :: "nat dict \<Rightarrow> ready_runner \<Rightarrow> exn + (string \<times> component_status) list" where
  "probe_answer [] r = Inr []"
| "probe_answer ((name, j) # fs) r =
     (case jb_status (rr_jobs r ! j) of
        Settled (Gives v) \<Rightarrow>
          map_sum id ((#) (name, if v = PBool True then StatusOk else StatusFailed)) (probe_answer fs r)
      | Settled (Exits e) \<Rightarrow> Inl e
      | _ \<Rightarrow> map_sum id ((#) (name, StatusFailed)) (probe_answer fs r))"

text \<open>\<open>run\<close> when nothing interferes: \<open>during\<close> is what happens to the runner until \<open>wait\<close> returns.\<close>

definition run_readiness ::
    "(ready_runner \<Rightarrow> ready_runner) \<Rightarrow> ready_runner \<Rightarrow> (exn + (string \<times> component_status) list) \<times> ready_runner" where
  "run_readiness during r = (let (fs, r1) = current_futures r; r2 = during r1 in (probe_answer fs r2, r2))"

fun component_text :: "component_status \<Rightarrow> string" where
  "component_text StatusOk = ''ok''"
| "component_text StatusFailed = ''failed''"

text \<open>The route \<open>health_ready\<close>: its status code and body.\<close>

definition health_ready :: "(string \<times> component_status) list \<Rightarrow> nat \<times> pyval" where
  "health_ready components =
     (let ready = list_all (\<lambda>(name, st). st = StatusOk) components
      in (if ready then 200 else 503,
          PDict [(''status'', PStr (if ready then ''ready'' else ''unready'')),
                 (''components'', PDict (map (\<lambda>(name, st). (name, PStr (component_text st))) components))]))"

section \<open>Interleavings\<close>

text \<open>
  A probe holds the lock of the runner from its entry until its copy of the registry; it then waits and
  answers. Every probe has a number of its own.
\<close>

datatype probe_pc =
    Arriving
  | Looping "string list"
  | Submitting string "string list"
  | Awaiting_futures "nat dict"
  | Answered "exn + (string \<times> component_status) list"

record ready_world =
  rw_runner :: ready_runner
  rw_holder :: "nat option"
  rw_probes :: "nat \<Rightarrow> probe_pc"

datatype ready_op = Enter nat | Look nat | Submit nat | Leave nat | Answer nat | Pick | Settle nat check_call

definition goes :: "nat \<Rightarrow> probe_pc \<Rightarrow> ready_world \<Rightarrow> ready_world" where
  "goes p pc w = w\<lparr>rw_probes := (rw_probes w)(p := pc)\<rparr>"

fun ready_step :: "ready_op \<Rightarrow> ready_world \<Rightarrow> ready_world option" where
  "ready_step (Enter p) w =
     (if rw_probes w p = Arriving \<and> rw_holder w = None
      then Some (goes p (Looping (rr_checks (rw_runner w))) (w\<lparr>rw_holder := Some p\<rparr>)) else None)"
| "ready_step (Look p) w =
     (case rw_probes w p of
        Looping (name # rest) \<Rightarrow>
          Some (goes p (if reusable name (rw_runner w) then Looping rest else Submitting name rest) w)
      | _ \<Rightarrow> None)"
| "ready_step (Submit p) w =
     (case rw_probes w p of
        Submitting name rest \<Rightarrow> Some (goes p (Looping rest) (w\<lparr>rw_runner := submit name (rw_runner w)\<rparr>))
      | _ \<Rightarrow> None)"
| "ready_step (Leave p) w =
     (case rw_probes w p of
        Looping [] \<Rightarrow> Some (goes p (Awaiting_futures (rr_futures (rw_runner w))) (w\<lparr>rw_holder := None\<rparr>))
      | _ \<Rightarrow> None)"
| "ready_step (Answer p) w =
     (case rw_probes w p of
        Awaiting_futures fs \<Rightarrow> Some (goes p (Answered (probe_answer fs (rw_runner w))) w)
      | _ \<Rightarrow> None)"
| "ready_step Pick w =
     (if running (rw_runner w) < rr_workers (rw_runner w)
      then map_option (\<lambda>j. w\<lparr>rw_runner := set_status j Running (rw_runner w)\<rparr>) (next_queued (rw_runner w))
      else None)"
| "ready_step (Settle j c) w =
     (if j < length (rr_jobs (rw_runner w)) \<and> jb_status (rr_jobs (rw_runner w) ! j) = Running
      then Some (w\<lparr>rw_runner := set_status j (Settled (run_check c)) (rw_runner w)\<rparr>) else None)"

fun ready_run :: "ready_op list \<Rightarrow> ready_world \<Rightarrow> ready_world option" where
  "ready_run [] w = Some w"
| "ready_run (x # xs) w = (case ready_step x w of None \<Rightarrow> None | Some w' \<Rightarrow> ready_run xs w')"

definition ready_start :: "string list \<Rightarrow> ready_world" where
  "ready_start checks = \<lparr>rw_runner = new_runner checks, rw_holder = None, rw_probes = (\<lambda>p. Arriving)\<rparr>"


section \<open>The invariant\<close>

lemma set_status_fields [simp]:
  "length (rr_jobs (set_status j st r)) = length (rr_jobs r)" "rr_futures (set_status j st r) = rr_futures r"
  "rr_checks (set_status j st r) = rr_checks r" "rr_workers (set_status j st r) = rr_workers r"
  by (simp_all add: set_status_def)

lemma component_set_status [simp]: "jb_component (rr_jobs (set_status j st r) ! i) = jb_component (rr_jobs r ! i)"
  by (cases "j < length (rr_jobs r)"; cases "i = j") (simp_all add: set_status_def list_update_beyond)

lemma status_set_status [simp]:
  "j < length (rr_jobs r) \<Longrightarrow>
     jb_status (rr_jobs (set_status j st r) ! i) = (if i = j then st else jb_status (rr_jobs r ! i))"
  by (simp add: set_status_def)

lemma submit_simps [simp]:
  "rr_checks (submit n r) = rr_checks r" "rr_workers (submit n r) = rr_workers r"
  "length (rr_jobs (submit n r)) = Suc (length (rr_jobs r))"
  "rr_futures (submit n r) = AList.update n (length (rr_jobs r)) (rr_futures r)"
  "j < length (rr_jobs r) \<Longrightarrow> rr_jobs (submit n r) ! j = rr_jobs r ! j"
  "rr_jobs (submit n r) ! length (rr_jobs r) = \<lparr>jb_component = n, jb_status = Queued\<rparr>"
  by (simp_all add: submit_def nth_append)

definition names_future :: "ready_runner \<Rightarrow> string \<Rightarrow> nat \<Rightarrow> bool" where
  "names_future r name j \<longleftrightarrow> j < length (rr_jobs r) \<and> jb_component (rr_jobs r ! j) = name"

text \<open>Every unfinished job is the registered one of its component.\<close>

definition registry_ok :: "ready_runner \<Rightarrow> bool" where
  "registry_ok r \<longleftrightarrow>
     distinct (map fst (rr_futures r)) \<and> fst ` set (rr_futures r) \<subseteq> set (rr_checks r) \<and>
     (\<forall>name j. map_of (rr_futures r) name = Some j \<longrightarrow> names_future r name j) \<and>
     (\<forall>j < length (rr_jobs r). \<not> job_settled (jb_status (rr_jobs r ! j)) \<longrightarrow>
        map_of (rr_futures r) (jb_component (rr_jobs r ! j)) = Some j) \<and>
     running r \<le> rr_workers r"

fun pc_ok :: "ready_runner \<Rightarrow> bool \<Rightarrow> probe_pc \<Rightarrow> bool" where
  "pc_ok r holds (Looping ns) \<longleftrightarrow>
     holds \<and> set ns \<subseteq> set (rr_checks r) \<and> set (rr_checks r) - set ns \<subseteq> fst ` set (rr_futures r)"
| "pc_ok r holds (Submitting n ns) \<longleftrightarrow>
     holds \<and> set (n # ns) \<subseteq> set (rr_checks r) \<and> set (rr_checks r) - set (n # ns) \<subseteq> fst ` set (rr_futures r) \<and>
     \<not> reusable n r"
| "pc_ok r holds (Awaiting_futures fs) \<longleftrightarrow>
     \<not> holds \<and> fst ` set fs = set (rr_checks r) \<and> list_all (\<lambda>f. names_future r (fst f) (snd f)) fs"
| "pc_ok r holds _ \<longleftrightarrow> \<not> holds"

definition ready_ok :: "ready_world \<Rightarrow> bool" where
  "ready_ok w \<longleftrightarrow>
     registry_ok (rw_runner w) \<and> (\<forall>p. pc_ok (rw_runner w) (rw_holder w = Some p) (rw_probes w p))"

lemma names_future_set_status [simp]: "names_future (set_status j st r) n i = names_future r n i"
  by (simp add: names_future_def)

lemma names_future_submit: "names_future r n j \<Longrightarrow> names_future (submit m r) n j"
  by (simp add: names_future_def)

lemma reusable_set_status:
  assumes "\<not> reusable n r" "\<not> job_settled (jb_status (rr_jobs r ! j))" "j < length (rr_jobs r)"
  shows "\<not> reusable n (set_status j st r)"
  using assms by (auto simp: reusable_def future_done_def split: option.splits)

lemma pc_ok_set_status:
  assumes "pc_ok r h pc" "\<not> job_settled (jb_status (rr_jobs r ! j))" "j < length (rr_jobs r)"
  shows "pc_ok (set_status j st r) h pc"
  using assms reusable_set_status [OF _ assms(2,3), of _ st] by (cases pc) simp_all

lemma pc_ok_submit:
  assumes "pc_ok r False pc"
  shows "pc_ok (submit n r) False pc"
  using assms by (cases pc) (auto simp: list_all_iff names_future_submit)

lemma running_set_status:
  assumes "j < length (rr_jobs r)"
  shows "running (set_status j st r) =
    (if st = Running then Suc (running r - (if jb_status (rr_jobs r ! j) = Running then 1 else 0))
     else running r - (if jb_status (rr_jobs r ! j) = Running then 1 else 0))"
proof -
  have r: "running r = card {i. i < length (rr_jobs r) \<and> jb_status (rr_jobs r ! i) = Running}" for r :: ready_runner
    by (simp add: running_def length_filter_conv_card)
  let ?A = "{i. i < length (rr_jobs r) \<and> jb_status (rr_jobs r ! i) = Running}"
  have "{i. i < length (rr_jobs r) \<and> jb_status (rr_jobs (set_status j st r) ! i) = Running} =
      (if st = Running then insert j (?A - {j}) else ?A - {j})"
    using assms by auto
  moreover have "0 < card ?A" if "jb_status (rr_jobs r ! j) = Running"
    using that assms by (auto simp: card_gt_0_iff)
  ultimately show ?thesis
    unfolding r set_status_fields using assms by (auto simp: card_insert_if card_Diff_singleton_if)
qed

lemma registry_ok_set_status:
  assumes "registry_ok r" "\<not> job_settled (jb_status (rr_jobs r ! j))" "j < length (rr_jobs r)"
    and "st = Running \<Longrightarrow> running r < rr_workers r"
  shows "registry_ok (set_status j st r)"
proof -
  have "running (set_status j st r) \<le> rr_workers r"
    using assms(1,3,4) by (cases "st = Running") (auto simp: running_set_status registry_ok_def)
  then show ?thesis using assms(1-3) by (auto simp: registry_ok_def split: if_splits)
qed

lemma registry_ok_submit:
  assumes "registry_ok r" "\<not> reusable n r" "n \<in> set (rr_checks r)"
  shows "registry_ok (submit n r)"
proof -
  have finished: "job_settled (jb_status (rr_jobs r ! j))" if "map_of (rr_futures r) n = Some j" for j
    using assms(2) that by (simp add: reusable_def future_done_def)
  have "names_future (submit n r) m j" if "map_of (rr_futures (submit n r)) m = Some j" for m j
  proof (cases "m = n")
    case True
    with that show ?thesis by (auto simp: names_future_def)
  next
    case False
    with that assms(1) show ?thesis by (simp add: registry_ok_def names_future_submit)
  qed
  moreover have "map_of (rr_futures (submit n r)) (jb_component (rr_jobs (submit n r) ! j)) = Some j"
    if "j < length (rr_jobs (submit n r))" "\<not> job_settled (jb_status (rr_jobs (submit n r) ! j))" for j
  proof (cases "j = length (rr_jobs r)")
    case False
    with that have "map_of (rr_futures r) (jb_component (rr_jobs r ! j)) = Some j" "j < length (rr_jobs r)"
      using assms(1) by (simp_all add: registry_ok_def)
    moreover from this that False have "jb_component (rr_jobs r ! j) \<noteq> n" using finished by auto
    ultimately show ?thesis by simp
  qed simp
  moreover have "running (submit n r) = running r" by (simp add: running_def submit_def)
  ultimately show ?thesis using assms(1,3) by (auto simp: registry_ok_def distinct_update)
qed


lemma ready_start_ok: "ready_ok (ready_start checks)"
  by (simp add: ready_ok_def ready_start_def new_runner_def registry_ok_def running_def)

lemma next_queued_Some:
  assumes "next_queued r = Some j"
  shows "j < length (rr_jobs r)" "jb_status (rr_jobs r ! j) = Queued"
  using assms by (auto simp: next_queued_def find_Some_iff)

lemma goes_simps [simp]:
  "rw_runner (goes p pc w) = rw_runner w" "rw_holder (goes p pc w) = rw_holder w"
  "rw_probes (goes p pc w) q = (if q = p then pc else rw_probes w q)"
  by (simp_all add: goes_def)

lemma ready_step_workers: "ready_step x w = Some w' \<Longrightarrow> rr_workers (rw_runner w') = rr_workers (rw_runner w)"
  by (cases x) (auto split: if_splits probe_pc.splits list.splits)

text \<open>A probe inside its section excludes the others from theirs.\<close>

lemma ready_okD:
  assumes "ready_ok w"
  shows "registry_ok (rw_runner w)" "pc_ok (rw_runner w) (rw_holder w = Some p) (rw_probes w p)"
  using assms by (simp_all add: ready_ok_def)

lemma ready_ok_pc:
  assumes "ready_ok w" "\<And>q. q \<noteq> p \<Longrightarrow> (h = Some q) = (rw_holder w = Some q)" "pc_ok (rw_runner w) (h = Some p) pc"
  shows "ready_ok (goes p pc (w\<lparr>rw_holder := h\<rparr>))"
  using assms by (auto simp: ready_ok_def)

lemma ready_step_ok:
  assumes "ready_ok w" "ready_step x w = Some w'"
  shows "ready_ok w'"
proof (cases x)
  case (Enter p)
  with assms(2) have w': "w' = goes p (Looping (rr_checks (rw_runner w))) (w\<lparr>rw_holder := Some p\<rparr>)"
    and "rw_holder w = None" by (auto split: if_splits)
  then show ?thesis unfolding w' by (intro ready_ok_pc [OF assms(1)]) simp_all
next
  case (Look p)
  then obtain n ns where pc: "rw_probes w p = Looping (n # ns)"
    and w': "w' = goes p (if reusable n (rw_runner w) then Looping ns else Submitting n ns) (w\<lparr>rw_holder := rw_holder w\<rparr>)"
    using assms(2) by (auto split: probe_pc.splits list.splits)
  have "n \<in> fst ` set (rr_futures (rw_runner w))" if "reusable n (rw_runner w)"
    using that by (auto simp: reusable_def map_of_in_keys split: option.splits)
  with ready_okD(2) [OF assms(1), of p] pc show ?thesis unfolding w'
    by (intro ready_ok_pc [OF assms(1)]) auto
next
  case (Submit p)
  then obtain n ns where pc: "rw_probes w p = Submitting n ns"
    and w': "w' = goes p (Looping ns) (w\<lparr>rw_runner := submit n (rw_runner w)\<rparr>)"
    using assms(2) by (auto split: probe_pc.splits)
  have me: "rw_holder w = Some p" "n \<in> set (rr_checks (rw_runner w))" "\<not> reusable n (rw_runner w)"
    using ready_okD(2) [OF assms(1), of p] pc by auto
  have "pc_ok (rw_runner w') (rw_holder w' = Some q) (rw_probes w' q)" for q
  proof (cases "q = p")
    case True
    with ready_okD(2) [OF assms(1), of p] pc w' show ?thesis by auto
  next
    case False
    with ready_okD(2) [OF assms(1), of q] me(1) have "pc_ok (rw_runner w) False (rw_probes w q)" by simp
    with False me(1) show ?thesis unfolding w' by (simp add: pc_ok_submit)
  qed
  moreover have "registry_ok (rw_runner w')"
    unfolding w' using registry_ok_submit [OF ready_okD(1) [OF assms(1)] me(3,2)] by simp
  ultimately show ?thesis by (simp add: ready_ok_def)
next
  case (Leave p)
  then have pc: "rw_probes w p = Looping []"
    and w': "w' = goes p (Awaiting_futures (rr_futures (rw_runner w))) (w\<lparr>rw_holder := None\<rparr>)"
    using assms(2) by (auto split: probe_pc.splits list.splits)
  have "rw_holder w = Some p" "fst ` set (rr_futures (rw_runner w)) = set (rr_checks (rw_runner w))"
    using ready_okD(1) [OF assms(1)] ready_okD(2) [OF assms(1), of p] pc by (auto simp: registry_ok_def)
  moreover have "list_all (\<lambda>f. names_future (rw_runner w) (fst f) (snd f)) (rr_futures (rw_runner w))"
    using ready_okD(1) [OF assms(1)] by (auto simp: registry_ok_def list_all_iff)
  ultimately show ?thesis unfolding w' by (intro ready_ok_pc [OF assms(1)]) auto
next
  case (Answer p)
  then obtain fs where pc: "rw_probes w p = Awaiting_futures fs"
    and w': "w' = goes p (Answered (probe_answer fs (rw_runner w))) (w\<lparr>rw_holder := rw_holder w\<rparr>)"
    using assms(2) by (auto split: probe_pc.splits)
  with ready_okD(2) [OF assms(1), of p] pc show ?thesis unfolding w' by (intro ready_ok_pc [OF assms(1)]) auto
next
  case Pick
  then obtain j where "next_queued (rw_runner w) = Some j" "running (rw_runner w) < rr_workers (rw_runner w)"
    and w': "w' = w\<lparr>rw_runner := set_status j Running (rw_runner w)\<rparr>"
    using assms(2) by (auto split: if_splits)
  moreover from this have "j < length (rr_jobs (rw_runner w))" "\<not> job_settled (jb_status (rr_jobs (rw_runner w) ! j))"
    using next_queued_Some by fastforce+
  moreover from calculation have "registry_ok (set_status j Running (rw_runner w))"
    using ready_okD(1) [OF assms(1)] by (intro registry_ok_set_status) simp_all
  ultimately show ?thesis using assms(1) by (auto simp: ready_ok_def pc_ok_set_status)
next
  case (Settle j c)
  then have "j < length (rr_jobs (rw_runner w))" "jb_status (rr_jobs (rw_runner w) ! j) = Running"
    and w': "w' = w\<lparr>rw_runner := set_status j (Settled (run_check c)) (rw_runner w)\<rparr>"
    using assms(2) by (auto split: if_splits)
  moreover from this have "registry_ok (set_status j (Settled (run_check c)) (rw_runner w))"
    using ready_okD(1) [OF assms(1)] by (intro registry_ok_set_status) simp_all
  ultimately show ?thesis using assms(1) by (auto simp: ready_ok_def pc_ok_set_status)
qed

lemma ready_run_induct:
  assumes "ready_run ops w = Some w'" "P w" "\<And>x v v'. ready_step x v = Some v' \<Longrightarrow> P v \<Longrightarrow> P v'"
  shows "P w'"
  using assms(1,2)
proof (induction ops arbitrary: w)
  case (Cons x xs)
  then show ?case using assms(3) by (auto split: option.splits)
qed simp

lemma ready_run_ok: "ready_run ops w = Some w' \<Longrightarrow> ready_ok w \<Longrightarrow> ready_ok w'"
  by (erule ready_run_induct) (auto intro: ready_step_ok)


section \<open>Answers are fresh\<close>

text \<open>A job that has not ended in an earlier state of the runner.\<close>

definition unfinished_in :: "ready_runner \<Rightarrow> nat \<Rightarrow> bool" where
  "unfinished_in r j \<longleftrightarrow> \<not> (j < length (rr_jobs r) \<and> job_settled (jb_status (rr_jobs r ! j)))"

definition runner_grows :: "ready_runner \<Rightarrow> ready_runner \<Rightarrow> bool" where
  "runner_grows r r' \<longleftrightarrow> rr_checks r' = rr_checks r \<and> length (rr_jobs r) \<le> length (rr_jobs r') \<and>
     (\<forall>j < length (rr_jobs r). jb_component (rr_jobs r' ! j) = jb_component (rr_jobs r ! j) \<and>
        (job_settled (jb_status (rr_jobs r ! j)) \<longrightarrow> jb_status (rr_jobs r' ! j) = jb_status (rr_jobs r ! j)))"

lemma runner_grows_refl [simp]: "runner_grows r r"
  by (simp add: runner_grows_def)

lemma runner_grows_trans: "runner_grows r r' \<Longrightarrow> runner_grows r' r'' \<Longrightarrow> runner_grows r r''"
  unfolding runner_grows_def by fastforce

lemma runner_grows_set_status:
  "\<not> job_settled (jb_status (rr_jobs r ! j)) \<Longrightarrow> j < length (rr_jobs r) \<Longrightarrow> runner_grows r (set_status j st r)"
  by (auto simp: runner_grows_def)

lemma runner_grows_submit: "runner_grows r (submit n r)"
  by (simp add: runner_grows_def)

lemma ready_step_runner_grows:
  assumes "ready_step x w = Some w'"
  shows "runner_grows (rw_runner w) (rw_runner w')"
proof (cases x)
  case Pick
  then obtain j where "next_queued (rw_runner w) = Some j" "w' = w\<lparr>rw_runner := set_status j Running (rw_runner w)\<rparr>"
    using assms by (auto split: if_splits)
  then show ?thesis using next_queued_Some [of "rw_runner w" j] by (auto intro!: runner_grows_set_status)
next
  case (Settle j c)
  then show ?thesis using assms by (auto split: if_splits intro!: runner_grows_set_status)
qed (use assms in \<open>auto simp: runner_grows_submit split: if_splits probe_pc.splits list.splits\<close>)

lemma probe_answer_entries:
  "probe_answer fs r = Inr ans \<Longrightarrow>
     ans = map (\<lambda>(n, j). (n, if jb_status (rr_jobs r ! j) = Settled (Gives (PBool True)) then StatusOk else StatusFailed)) fs"
proof (induction fs arbitrary: ans)
  case (Cons f fs)
  obtain n j where f: "f = (n, j)" by (cases f)
  with Cons.prems obtain rest where "probe_answer fs r = Inr rest"
    by (cases "probe_answer fs r") (auto split: job_status.splits check_end.splits)
  with Cons.IH [OF this] Cons.prems f show ?case by (auto split: job_status.splits check_end.splits)
qed simp

text \<open>The callback of a component returned \<^verbatim>\<open>True\<close>, in a job that had not ended in the earlier state.\<close>

definition confirmed :: "ready_runner \<Rightarrow> ready_runner \<Rightarrow> string \<Rightarrow> bool" where
  "confirmed r r' n \<longleftrightarrow>
     (\<exists>j. names_future r' n j \<and> unfinished_in r j \<and> jb_status (rr_jobs r' ! j) = Settled (Gives (PBool True)))"

fun fresh_pc :: "ready_runner \<Rightarrow> ready_runner \<Rightarrow> probe_pc \<Rightarrow> bool" where
  "fresh_pc r r' (Looping ns) \<longleftrightarrow>
     (\<forall>n \<in> set (rr_checks r) - set ns. \<forall>j. map_of (rr_futures r') n = Some j \<longrightarrow> unfinished_in r j)"
| "fresh_pc r r' (Submitting n ns) \<longleftrightarrow>
     (\<forall>n \<in> set (rr_checks r) - set (n # ns). \<forall>j. map_of (rr_futures r') n = Some j \<longrightarrow> unfinished_in r j)"
| "fresh_pc r r' (Awaiting_futures fs) \<longleftrightarrow> list_all (\<lambda>f. unfinished_in r (snd f)) fs"
| "fresh_pc r r' (Answered (Inr ans)) \<longleftrightarrow>
     fst ` set ans = set (rr_checks r) \<and> list_all (\<lambda>c. snd c = StatusOk \<longrightarrow> confirmed r r' (fst c)) ans"
| "fresh_pc r r' _ \<longleftrightarrow> True"

lemma unfinished_in_later: "runner_grows r r' \<Longrightarrow> unfinished_in r' j \<Longrightarrow> unfinished_in r j"
  unfolding unfinished_in_def runner_grows_def by fastforce

lemma confirmed_runner_grows: "runner_grows r' r'' \<Longrightarrow> confirmed r r' n \<Longrightarrow> confirmed r r'' n"
  unfolding confirmed_def names_future_def runner_grows_def by (metis less_le_trans job_settled.simps(1))

lemma fresh_pc_same_futures:
  assumes "fresh_pc r r' pc" "runner_grows r' r''" "rr_futures r'' = rr_futures r'"
  shows "fresh_pc r r'' pc"
  using assms confirmed_runner_grows [OF assms(2), of r]
  by (induction r r' pc rule: fresh_pc.induct) (auto simp: list_all_iff)

lemma fresh_pc_submit:
  assumes "fresh_pc r r' pc" "runner_grows r r'"
  shows "fresh_pc r (submit n r') pc"
proof -
  have "unfinished_in r (length (rr_jobs r'))" using assms(2) by (simp add: unfinished_in_def runner_grows_def)
  then show ?thesis using assms(1) confirmed_runner_grows [OF runner_grows_submit]
    by (induction r r' pc rule: fresh_pc.induct) (auto simp: list_all_iff)
qed


definition fresh_since :: "ready_world \<Rightarrow> ready_world \<Rightarrow> nat \<Rightarrow> bool" where
  "fresh_since w0 w p \<longleftrightarrow>
     ready_ok w \<and> runner_grows (rw_runner w0) (rw_runner w) \<and> fresh_pc (rw_runner w0) (rw_runner w) (rw_probes w p)"

lemma answer_fresh:
  assumes "fresh_pc r r' (Awaiting_futures fs)" "pc_ok r' h (Awaiting_futures fs)" "rr_checks r' = rr_checks r"
  shows "fresh_pc r r' (Answered (probe_answer fs r'))"
proof (cases "probe_answer fs r'")
  case (Inr ans)
  have ans: "ans = map (\<lambda>(n, j). (n, if jb_status (rr_jobs r' ! j) = Settled (Gives (PBool True)) then StatusOk else StatusFailed)) fs"
    using probe_answer_entries [OF Inr] .
  have "fst ` set ans = fst ` set fs" unfolding ans by force
  moreover have "confirmed r r' n" if "(n, StatusOk) \<in> set ans" for n
    using that assms unfolding ans confirmed_def by (fastforce simp: list_all_iff split: if_splits)
  ultimately show ?thesis using assms Inr by (auto simp: list_all_iff)
qed simp

lemma fresh_since_step:
  assumes "ready_step x w = Some w'" "fresh_since w0 w p"
  shows "fresh_since w0 w' p"
proof -
  have ok: "ready_ok w" and g: "runner_grows (rw_runner w0) (rw_runner w)"
    and f: "fresh_pc (rw_runner w0) (rw_runner w) (rw_probes w p)"
    using assms(2) by (simp_all add: fresh_since_def)
  note step = ready_step_runner_grows [OF assms(1)]
  have same: "fresh_pc (rw_runner w0) (rw_runner w') (rw_probes w p)"
  proof (cases "\<exists>q. x = Submit q")
    case True
    then obtain n where "rw_runner w' = submit n (rw_runner w)" using assms(1) by (auto split: probe_pc.splits)
    then show ?thesis using fresh_pc_submit [OF f g] by simp
  next
    case False
    then have "rr_futures (rw_runner w') = rr_futures (rw_runner w)"
      using assms(1) by (cases x) (auto split: if_splits probe_pc.splits list.splits)
    with fresh_pc_same_futures [OF f step] show ?thesis by simp
  qed
  have "fresh_pc (rw_runner w0) (rw_runner w') (rw_probes w' p)"
  proof (cases x)
    case (Enter q)
    with assms(1) g same show ?thesis by (auto simp: runner_grows_def split: if_splits)
  next
    case (Look q)
    then obtain n ns where pc: "rw_probes w q = Looping (n # ns)"
      and w': "w' = goes q (if reusable n (rw_runner w) then Looping ns else Submitting n ns) w"
      using assms(1) by (auto split: probe_pc.splits list.splits)
    have "unfinished_in (rw_runner w0) j" if "reusable n (rw_runner w)" "map_of (rr_futures (rw_runner w)) n = Some j" for j
      using that unfinished_in_later [OF g, of j] by (simp add: reusable_def future_done_def unfinished_in_def)
    then have "unfinished_in (rw_runner w0) j"
      if "reusable n (rw_runner w)" "q = p" "m \<in> set (rr_checks (rw_runner w0)) - set ns"
        "map_of (rr_futures (rw_runner w)) m = Some j" for m j
      using that f pc by (cases "m = n") auto
    with f pc same w' show ?thesis by auto
  next
    case (Submit q)
    then obtain n ns where pc: "rw_probes w q = Submitting n ns"
      and w': "w' = goes q (Looping ns) (w\<lparr>rw_runner := submit n (rw_runner w)\<rparr>)"
      using assms(1) by (auto split: probe_pc.splits)
    have "unfinished_in (rw_runner w0) (length (rr_jobs (rw_runner w)))"
      using g by (simp add: unfinished_in_def runner_grows_def)
    with f pc same w' show ?thesis by auto
  next
    case (Leave q)
    then have pc: "rw_probes w q = Looping []"
      and w': "w' = goes q (Awaiting_futures (rr_futures (rw_runner w))) (w\<lparr>rw_holder := None\<rparr>)"
      using assms(1) by (auto split: probe_pc.splits list.splits)
    have "unfinished_in (rw_runner w0) j" if "q = p" "(n, j) \<in> set (rr_futures (rw_runner w))" for n j
    proof -
      have "map_of (rr_futures (rw_runner w)) n = Some j" "n \<in> set (rr_checks (rw_runner w))"
        using that ready_okD(1) [OF ok] by (auto simp: registry_ok_def)
      then show ?thesis using f that pc g by (auto simp: runner_grows_def)
    qed
    with same w' show ?thesis by (auto simp: list_all_iff)
  next
    case (Answer q)
    then obtain fs where pc: "rw_probes w q = Awaiting_futures fs"
      and w': "w' = goes q (Answered (probe_answer fs (rw_runner w))) w"
      using assms(1) by (auto split: probe_pc.splits)
    have "fresh_pc (rw_runner w0) (rw_runner w) (Answered (probe_answer fs (rw_runner w)))" if "q = p"
      using answer_fresh [of "rw_runner w0" "rw_runner w" fs False] f pc that ready_okD(2) [OF ok, of p] g
      by (simp add: runner_grows_def)
    with same w' show ?thesis by auto
  next
    case Pick
    with assms(1) same show ?thesis by (auto split: if_splits)
  next
    case (Settle j c)
    with assms(1) same show ?thesis by (auto split: if_splits)
  qed
  then show ?thesis using ready_step_ok [OF ok assms(1)] runner_grows_trans [OF g step] by (simp add: fresh_since_def)
qed

section \<open>A probe that is not interrupted\<close>

lemma ready_run_append:
  "ready_run (xs @ ys) w = (case ready_run xs w of None \<Rightarrow> None | Some w' \<Rightarrow> ready_run ys w')"
  by (induction xs arbitrary: w) (auto split: option.splits)

definition refresh :: "string \<Rightarrow> ready_runner \<Rightarrow> ready_runner" where
  "refresh name r = (if reusable name r then r else submit name r)"

lemma loop_sections:
  assumes "rw_probes w p = Looping ns"
  shows "\<exists>ops. ready_run ops w = Some (goes p (Looping []) (w\<lparr>rw_runner := fold refresh ns (rw_runner w)\<rparr>))"
  using assms
proof (induction ns arbitrary: w)
  case Nil
  then have "goes p (Looping []) (w\<lparr>rw_runner := rw_runner w\<rparr>) = w" by (cases w) (simp add: goes_def fun_upd_idem)
  then have "ready_run [] w = Some (goes p (Looping []) (w\<lparr>rw_runner := fold refresh [] (rw_runner w)\<rparr>))" by simp
  then show ?case by blast
next
  case (Cons n ns)
  let ?w = "goes p (Looping ns) (w\<lparr>rw_runner := refresh n (rw_runner w)\<rparr>)"
  have "ready_run (if reusable n (rw_runner w) then [Look p] else [Look p, Submit p]) w = Some ?w"
    using Cons.prems by (auto simp: refresh_def goes_def)
  moreover obtain ops where
    "ready_run ops ?w = Some (goes p (Looping []) (?w\<lparr>rw_runner := fold refresh ns (rw_runner ?w)\<rparr>))"
    using Cons.IH [of ?w] by auto
  ultimately have
    "ready_run ((if reusable n (rw_runner w) then [Look p] else [Look p, Submit p]) @ ops) w =
      Some (goes p (Looping []) (w\<lparr>rw_runner := fold refresh (n # ns) (rw_runner w)\<rparr>))"
    by (simp add: ready_run_append goes_def)
  then show ?case by blast
qed

text \<open>The sections of one probe compose to \<open>current_futures\<close>.\<close>

lemma sections_compose:
  assumes "rw_probes w p = Arriving" "rw_holder w = None" "current_futures (rw_runner w) = (fs, r)"
  shows "\<exists>ops. ready_run ops w = Some (goes p (Awaiting_futures fs) (w\<lparr>rw_runner := r\<rparr>))"
proof -
  have r: "r = fold refresh (rr_checks (rw_runner w)) (rw_runner w)" "fs = rr_futures r"
    using assms(3) by (auto simp: current_futures_def refresh_def [abs_def] Let_def)
  let ?w = "goes p (Looping (rr_checks (rw_runner w))) (w\<lparr>rw_holder := Some p\<rparr>)"
  obtain ops where "ready_run ops ?w = Some (goes p (Looping []) (?w\<lparr>rw_runner := fold refresh (rr_checks (rw_runner w)) (rw_runner ?w)\<rparr>))"
    using loop_sections [of ?w p] by auto
  then have "ready_run (Enter p # ops @ [Leave p]) w = Some (goes p (Awaiting_futures fs) (w\<lparr>rw_runner := r\<rparr>))"
    using assms r by (simp add: ready_run_append goes_def)
  then show ?thesis by blast
qed

section \<open>Properties\<close>

text \<open>
  C35: However probes and workers interleave, a component has at most one unfinished invocation, and no
  more callbacks run than the pool has workers, which are at most four.
\<close>

theorem readiness_bounded:
  assumes "ready_run ops (ready_start checks) = Some w"
  shows "length (filter (\<lambda>jb. jb_component jb = n \<and> \<not> job_settled (jb_status jb)) (rr_jobs (rw_runner w))) \<le> 1 \<and>
    running (rw_runner w) \<le> min 4 (length checks)"
proof -
  let ?r = "rw_runner w"
  have ok: "registry_ok ?r" using ready_okD(1) [OF ready_run_ok [OF assms ready_start_ok]] .
  let ?A = "{i. i < length (rr_jobs ?r) \<and> jb_component (rr_jobs ?r ! i) = n \<and> \<not> job_settled (jb_status (rr_jobs ?r ! i))}"
  have "?A \<subseteq> {the (map_of (rr_futures ?r) n)}" using ok by (auto simp: registry_ok_def)
  then have "card ?A \<le> 1" using card_mono [of "{the (map_of (rr_futures ?r) n)}" ?A] by simp
  moreover have "rr_workers ?r = min 4 (length checks)"
    using assms by (rule ready_run_induct)
      (auto simp: ready_start_def new_runner_def dest: ready_step_workers)
  ultimately show ?thesis using ok by (simp add: length_filter_conv_card registry_ok_def)
qed

text \<open>
  C36: A probe answers for every component, and says \<open>ok\<close> only for a callback that returned \<^verbatim>\<open>True\<close> in an
  invocation that had not ended when the probe began: no answer is stale. The route
  answers 200 exactly when all of them are \<open>ok\<close>.
\<close>

theorem readiness_fresh:
  assumes "ready_run ops (ready_start checks) = Some w0" "rw_probes w0 p = Arriving"
    and "ready_run ops' w0 = Some w" "rw_probes w p = Answered (Inr ans)"
  shows "fst ` set ans = set checks \<and>
    (\<forall>n. (n, StatusOk) \<in> set ans \<longrightarrow> confirmed (rw_runner w0) (rw_runner w) n) \<and>
    (fst (health_ready ans) = 200 \<longleftrightarrow> snd ` set ans \<subseteq> {StatusOk})"
proof -
  have "fresh_since w0 w0 p"
    using ready_run_ok [OF assms(1) ready_start_ok] assms(2) by (simp add: fresh_since_def)
  with assms(3) have "fresh_since w0 w p" by (rule ready_run_induct) (auto intro: fresh_since_step)
  moreover have "rr_checks (rw_runner w0) = checks"
    using assms(1) by (rule ready_run_induct) (auto simp: ready_start_def new_runner_def runner_grows_def dest!: ready_step_runner_grows)
  ultimately show ?thesis using assms(4)
    by (auto simp: fresh_since_def list_all_iff health_ready_def Let_def)
qed


text \<open>Two probes that share an invocation: the second finds the first's job unfinished.\<close>

definition shared_run :: "ready_op list" where
  "shared_run = [Enter 0, Look 0, Submit 0, Leave 0, Pick]"

definition second_run :: "ready_op list" where
  "second_run = [Enter 1, Look 1, Leave 1, Settle 0 (Awaitable (Gives (PBool True))), Answer 1]"

definition shared_runner :: ready_runner where
  "shared_runner = \<lparr>rr_checks = [''db''], rr_workers = 1, rr_futures = [(''db'', 0)],
     rr_jobs = [\<lparr>jb_component = ''db'', jb_status = Running\<rparr>]\<rparr>"

definition shared_world :: ready_world where
  "shared_world = \<lparr>rw_runner = shared_runner, rw_holder = None,
     rw_probes = (\<lambda>p. Arriving)(0 := Awaiting_futures [(''db'', 0)])\<rparr>"

definition second_world :: ready_world where
  "second_world = \<lparr>rw_runner = set_status 0 (Settled (Gives (PBool True))) shared_runner, rw_holder = None,
     rw_probes = (\<lambda>p. Arriving)(0 := Awaiting_futures [(''db'', 0)], 1 := Answered (Inr [(''db'', StatusOk)]))\<rparr>"

lemmas ready_eval = ready_start_def new_runner_def goes_def reusable_def submit_def future_done_def next_queued_def
  running_def set_status_def

lemma shared_run_eval: "ready_run shared_run (ready_start [''db'']) = Some shared_world"
  by (simp add: shared_run_def ready_eval shared_world_def shared_runner_def fun_upd_idem)

lemma second_run_eval: "ready_run second_run shared_world = Some second_world"
  by (simp add: second_run_def ready_eval shared_world_def shared_runner_def second_world_def)

lemma readiness_bounded_witness: "running shared_runner \<le> 1"
  using readiness_bounded [OF shared_run_eval] by (simp add: shared_world_def)

lemma readiness_fresh_witness: "confirmed shared_runner (rw_runner second_world) ''db''"
  using readiness_fresh [OF shared_run_eval _ second_run_eval, of 1 "[(''db'', StatusOk)]"]
  by (simp add: shared_world_def second_world_def)

text \<open>
  A callback that ends with an exception that is no \<^verbatim>\<open>Exception\<close>, a cancellation of the awaited
  operation for instance, is not a failed component: the probe itself raises.
\<close>

lemma cancelled_check_escapes:
  "\<exists>w. ready_run [Enter 0, Look 0, Submit 0, Leave 0, Pick, Settle 0 (Awaitable (Exits (Exn ''CancelledError'' []))), Answer 0]
         (ready_start [''db'']) = Some w \<and> rw_probes w 0 = Answered (Inl (Exn ''CancelledError'' []))"
  by (simp add: ready_eval)

end
