(* ===== verification/Readiness_Progress.thy ===== *)
theory Readiness_Progress
  imports Readiness
begin

text \<open>
  Readiness probes are never stuck: from every state that can be reached there is a way on to the
  answer of a probe, whatever the other probes and the workers have got to.
\<close>

section \<open>Finishing a section\<close>

text \<open>The probe that holds the lock can give it back; the others stay where they are.\<close>

lemma holder_leaves:
  assumes "ready_ok w"
  shows "\<exists>ops w'. ready_run ops w = Some w' \<and> rw_holder w' = None \<and>
    (\<forall>p. rw_holder w \<noteq> Some p \<longrightarrow> rw_probes w' p = rw_probes w p)"
proof (cases "rw_holder w")
  case None
  then show ?thesis by (intro exI [of _ "[]"] exI [of _ w]) simp
next
  case (Some q)
  have finish: "\<exists>ops w'. ready_run ops v = Some w' \<and> rw_holder w' = None \<and> (\<forall>p. p \<noteq> q \<longrightarrow> rw_probes w' p = rw_probes v p)"
    if loop: "rw_probes v q = Looping ns" for v ns
  proof -
    let ?v = "goes q (Looping []) (v\<lparr>rw_runner := fold refresh ns (rw_runner v)\<rparr>)"
    obtain ops where "ready_run ops v = Some ?v" using loop_sections [OF loop] by blast
    then have "ready_run (ops @ [Leave q]) v = Some (goes q (Awaiting_futures (rr_futures (rw_runner ?v))) (?v\<lparr>rw_holder := None\<rparr>))"
      by (simp add: ready_run_append)
    moreover have "rw_holder (goes q (Awaiting_futures (rr_futures (rw_runner ?v))) (?v\<lparr>rw_holder := None\<rparr>)) = None" by simp
    moreover have "rw_probes (goes q (Awaiting_futures (rr_futures (rw_runner ?v))) (?v\<lparr>rw_holder := None\<rparr>)) p = rw_probes v p"
      if "p \<noteq> q" for p using that by (simp add: goes_def)
    ultimately show ?thesis by blast
  qed
  show ?thesis
  proof (cases "rw_probes w q")
    case (Looping ns)
    from finish [OF this] Some show ?thesis by (metis option.inject)
  next
    case (Submitting n ns)
    let ?v = "goes q (Looping ns) (w\<lparr>rw_runner := submit n (rw_runner w)\<rparr>)"
    have "rw_probes ?v q = Looping ns" by simp
    from finish [OF this] obtain ops w' where "ready_run ops ?v = Some w'" "rw_holder w' = None"
      "\<forall>p. p \<noteq> q \<longrightarrow> rw_probes w' p = rw_probes ?v p" by blast
    moreover have "ready_run (Submit q # ops) w = ready_run ops ?v" using Submitting by simp
    ultimately show ?thesis using Some by (intro exI [of _ "Submit q # ops"] exI [of _ w']) (auto simp: goes_def)
  qed (use ready_okD(2) [OF assms, of q] Some in simp_all)
qed

section \<open>Draining the pool\<close>

definition backlog :: "ready_runner \<Rightarrow> nat set" where
  "backlog r = {j. j < length (rr_jobs r) \<and> \<not> job_settled (jb_status (rr_jobs r ! j))}"

lemma finite_backlog [simp]: "finite (backlog r)"
  by (simp add: backlog_def)

lemma no_runner_idle:
  assumes "\<And>j. j < length (rr_jobs r) \<Longrightarrow> jb_status (rr_jobs r ! j) \<noteq> Running"
  shows "running r = 0"
  using assms by (auto simp: running_def filter_empty_conv in_set_conv_nth)

lemma next_queued_exists:
  assumes "j < length (rr_jobs r)" "jb_status (rr_jobs r ! j) = Queued"
  shows "\<exists>i. next_queued r = Some i"
proof (rule ccontr)
  assume "\<not> (\<exists>i. next_queued r = Some i)"
  then have "next_queued r = None" by simp
  then show False using assms by (auto simp: next_queued_def find_None_iff)
qed

lemma ready_run_grows: "ready_run ops w = Some w' \<Longrightarrow> runner_grows (rw_runner w) (rw_runner w')"
  by (erule ready_run_induct) (auto intro: runner_grows_trans ready_step_runner_grows)

text \<open>One job is brought to its end: it runs, or it is the next in the queue.\<close>

lemma job_ends:
  assumes "backlog (rw_runner w) \<noteq> {}" "0 < rr_workers (rw_runner w)"
  shows "\<exists>ops j. j \<in> backlog (rw_runner w) \<and>
    ready_run ops w = Some (w\<lparr>rw_runner := set_status j (Settled (Gives (PBool True))) (rw_runner w)\<rparr>)"
proof (cases "\<exists>j < length (rr_jobs (rw_runner w)). jb_status (rr_jobs (rw_runner w) ! j) = Running")
  case True
  then obtain j where j: "j < length (rr_jobs (rw_runner w))" "jb_status (rr_jobs (rw_runner w) ! j) = Running" by blast
  then have "ready_run [Settle j (Direct (Gives (PBool True)))] w =
      Some (w\<lparr>rw_runner := set_status j (Settled (Gives (PBool True))) (rw_runner w)\<rparr>)" by simp
  moreover have "j \<in> backlog (rw_runner w)" using j by (simp add: backlog_def)
  ultimately show ?thesis by blast
next
  case False
  then have idle: "running (rw_runner w) = 0" by (intro no_runner_idle) blast
  obtain i where "i < length (rr_jobs (rw_runner w))" "\<not> job_settled (jb_status (rr_jobs (rw_runner w) ! i))"
    using assms(1) by (auto simp: backlog_def)
  with False have "jb_status (rr_jobs (rw_runner w) ! i) = Queued" by (cases "jb_status (rr_jobs (rw_runner w) ! i)") auto
  then obtain j where n: "next_queued (rw_runner w) = Some j" using next_queued_exists \<open>i < _\<close> by blast
  note j = next_queued_Some [OF n]
  have "ready_run [Pick, Settle j (Direct (Gives (PBool True)))] w =
      Some (w\<lparr>rw_runner := set_status j (Settled (Gives (PBool True))) (rw_runner w)\<rparr>)"
    using idle assms(2) n j by (simp add: set_status_def)
  moreover have "j \<in> backlog (rw_runner w)" using j by (simp add: backlog_def)
  ultimately show ?thesis by blast
qed

lemma pool_drains:
  assumes "0 < rr_workers (rw_runner w)"
  shows "\<exists>ops r. ready_run ops w = Some (w\<lparr>rw_runner := r\<rparr>) \<and> backlog r = {} \<and>
    (\<forall>j \<in> backlog (rw_runner w). jb_status (rr_jobs r ! j) = Settled (Gives (PBool True)))"
  using assms
proof (induction "card (backlog (rw_runner w))" arbitrary: w)
  case 0
  then have "backlog (rw_runner w) = {}" by simp
  then show ?case by (intro exI [of _ "[]"] exI [of _ "rw_runner w"]) simp
next
  case (Suc n)
  then have "backlog (rw_runner w) \<noteq> {}" by auto
  from job_ends [OF this Suc.prems] obtain ops j where j: "j \<in> backlog (rw_runner w)"
    and run: "ready_run ops w = Some (w\<lparr>rw_runner := set_status j (Settled (Gives (PBool True))) (rw_runner w)\<rparr>)" by blast
  let ?r = "set_status j (Settled (Gives (PBool True))) (rw_runner w)"
  have b: "backlog ?r = backlog (rw_runner w) - {j}" using j by (auto simp: backlog_def)
  then have "n = card (backlog (rw_runner (w\<lparr>rw_runner := ?r\<rparr>)))" using j Suc.hyps(2) by simp
  from Suc.hyps(1) [OF this] Suc.prems obtain ops' r where
    r: "ready_run ops' (w\<lparr>rw_runner := ?r\<rparr>) = Some (w\<lparr>rw_runner := r\<rparr>)" "backlog r = {}"
       "\<forall>i \<in> backlog ?r. jb_status (rr_jobs r ! i) = Settled (Gives (PBool True))" by auto
  have "runner_grows ?r r"
    using ready_run_grows [OF r(1)] by simp
  then have "jb_status (rr_jobs r ! j) = Settled (Gives (PBool True))"
    using j by (auto simp: runner_grows_def backlog_def)
  with r(3) have "\<forall>i \<in> backlog (rw_runner w). jb_status (rr_jobs r ! i) = Settled (Gives (PBool True))" unfolding b by blast
  moreover have "ready_run (ops @ ops') w = Some (w\<lparr>rw_runner := r\<rparr>)" using run r(1) by (simp add: ready_run_append)
  ultimately show ?case using r(2) by blast
qed


section \<open>The answer\<close>

text \<open>After its loop a probe holds an unfinished invocation of every component.\<close>

lemma refresh_registry:
  "registry_ok r \<Longrightarrow> n \<in> set (rr_checks r) \<Longrightarrow> registry_ok (refresh n r)"
  by (simp add: refresh_def registry_ok_submit)

lemma refresh_reusable:
  assumes "registry_ok r" "m = n \<or> reusable m r"
  shows "reusable m (refresh n r)"
proof (cases "reusable n r")
  case False
  have "j < length (rr_jobs r)" if "map_of (rr_futures r) m = Some j" for j
    using that assms(1) by (auto simp: registry_ok_def names_future_def)
  then show ?thesis using assms(2) False
    by (auto simp: refresh_def reusable_def future_done_def split: option.splits)
qed (use assms(2) in \<open>auto simp: refresh_def\<close>)

lemma refresh_all:
  assumes "registry_ok r" "set ns \<subseteq> set (rr_checks r)"
  shows "registry_ok (fold refresh ns r) \<and> (\<forall>m. m \<in> set ns \<or> reusable m r \<longrightarrow> reusable m (fold refresh ns r))"
  using assms
proof (induction ns arbitrary: r)
  case (Cons n ns)
  have checks: "rr_checks (refresh n r) = rr_checks r" by (simp add: refresh_def)
  have ok: "registry_ok (refresh n r)" using Cons.prems by (simp add: refresh_registry)
  note IH = Cons.IH [OF ok, unfolded checks]
  with Cons.prems have all: "registry_ok (fold refresh ns (refresh n r))"
    "\<And>m. m \<in> set ns \<or> reusable m (refresh n r) \<Longrightarrow> reusable m (fold refresh ns (refresh n r))" by auto
  then show ?case using refresh_reusable [OF Cons.prems(1)] by auto
qed simp

lemma all_ok_answer:
  "\<forall>(n, j) \<in> set fs. jb_status (rr_jobs r ! j) = Settled (Gives (PBool True)) \<Longrightarrow>
     probe_answer fs r = Inr (map (\<lambda>(n, j). (n, StatusOk)) fs)"
  by (induction fs) auto

text \<open>
  C34: A probe is never stuck: in whatever state the other probes and the pool are when it arrives,
  jobs still running or queued included, there is a way on by which it answers, and if the callbacks that
  have not ended return \<^verbatim>\<open>True\<close> it answers \<open>ok\<close> for every component, with 200.
\<close>

theorem readiness_answers:
  assumes "checks \<noteq> []" "ready_run ops (ready_start checks) = Some w" "rw_probes w p = Arriving"
  shows "\<exists>ops' w' ans. ready_run ops' w = Some w' \<and> rw_probes w' p = Answered (Inr ans) \<and>
    fst ` set ans = set checks \<and> fst (health_ready ans) = 200"
proof -
  have ok: "ready_ok w" by (rule ready_run_ok [OF assms(2) ready_start_ok])
  have "rw_holder w \<noteq> Some p" using ready_okD(2) [OF ok, of p] assms(3) by simp
  with holder_leaves [OF ok] assms(3) obtain ops1 w1 where
    w1: "ready_run ops1 w = Some w1" "rw_holder w1 = None" "rw_probes w1 p = Arriving" by auto
  have ok1: "registry_ok (rw_runner w1)" using ready_okD(1) [OF ready_run_ok [OF w1(1) ok]] .
  have static: "rr_checks (rw_runner w1) = checks" "rr_workers (rw_runner w1) = min 4 (length checks)"
  proof -
    have "runner_grows (rw_runner (ready_start checks)) (rw_runner w1)"
      using runner_grows_trans [OF ready_run_grows [OF assms(2)] ready_run_grows [OF w1(1)]] .
    then show "rr_checks (rw_runner w1) = checks" by (simp add: runner_grows_def ready_start_def new_runner_def)
    have "ready_run (ops @ ops1) (ready_start checks) = Some w1" using assms(2) w1(1) by (simp add: ready_run_append)
    then show "rr_workers (rw_runner w1) = min 4 (length checks)"
      by (rule ready_run_induct) (auto simp: ready_start_def new_runner_def dest: ready_step_workers)
  qed
  let ?r = "fold refresh checks (rw_runner w1)"
  have cf: "current_futures (rw_runner w1) = (rr_futures ?r, ?r)"
    by (simp add: current_futures_def refresh_def [abs_def] static Let_def)
  let ?w = "goes p (Awaiting_futures (rr_futures ?r)) (w1\<lparr>rw_runner := ?r\<rparr>)"
  obtain ops2 where w2: "ready_run ops2 w1 = Some ?w" using sections_compose [OF w1(3,2) cf] by blast
  have ok2: "ready_ok ?w" by (rule ready_run_ok [OF w2 ready_run_ok [OF w1(1) ok]])
  have grows: "runner_grows (rw_runner w1) ?r" using ready_run_grows [OF w2] by simp
  have "rr_workers ?r = rr_workers (rw_runner w1)"
    using w2 by (rule ready_run_induct [where P = "\<lambda>v. rr_workers (rw_runner v) = rr_workers (rw_runner w1)", of _ _ ?w, simplified])
      (auto dest: ready_step_workers)
  then have "0 < rr_workers (rw_runner ?w)" using static(2) assms(1) by simp
  from pool_drains [OF this] obtain ops3 r where w3: "ready_run ops3 ?w = Some (?w\<lparr>rw_runner := r\<rparr>)"
    and done_all: "\<forall>j \<in> backlog ?r. jb_status (rr_jobs r ! j) = Settled (Gives (PBool True))" by auto
  have regs: "\<forall>(n, j) \<in> set (rr_futures ?r). j \<in> backlog ?r"
  proof (clarify)
    fix n j assume nj: "(n, j) \<in> set (rr_futures ?r)"
    have reg: "registry_ok ?r" using ready_okD(1) [OF ok2] by simp
    with nj have m: "map_of (rr_futures ?r) n = Some j" "n \<in> set (rr_checks ?r)" by (auto simp: registry_ok_def)
    moreover have "rr_checks ?r = checks" using grows static(1) by (simp add: runner_grows_def)
    ultimately have "reusable n ?r" using refresh_all [OF ok1, of checks] static(1) by auto
    with m(1) have "\<not> job_settled (jb_status (rr_jobs ?r ! j))" by (simp add: reusable_def future_done_def)
    moreover have "j < length (rr_jobs ?r)" using reg m(1) by (auto simp: registry_ok_def names_future_def)
    ultimately show "j \<in> backlog ?r" by (simp add: backlog_def)
  qed
  let ?ans = "map (\<lambda>(n, j). (n, StatusOk)) (rr_futures ?r)"
  have ans: "probe_answer (rr_futures ?r) r = Inr ?ans" by (rule all_ok_answer) (use regs done_all in auto)
  let ?w' = "goes p (Answered (Inr ?ans)) (?w\<lparr>rw_runner := r\<rparr>)"
  have "ready_run (ops1 @ ops2 @ ops3 @ [Answer p]) w = Some ?w'"
    using w1(1) w2 w3 ans by (simp add: ready_run_append)
  moreover have "rw_probes ?w' p = Answered (Inr ?ans)" by simp
  moreover have "fst ` set ?ans = set checks"
  proof -
    have "fst ` set (rr_futures ?r) = set (rr_checks ?r)" using ready_okD(2) [OF ok2, of p] by simp
    then show ?thesis using grows static(1) by (force simp: runner_grows_def)
  qed
  moreover have "fst (health_ready ?ans) = 200" by (auto simp: health_ready_def Let_def list_all_iff)
  ultimately show ?thesis by blast
qed

lemma readiness_answers_witness:
  "\<exists>ops' w' ans. ready_run ops' shared_world = Some w' \<and> rw_probes w' 1 = Answered (Inr ans) \<and>
    fst ` set ans = {''db''} \<and> fst (health_ready ans) = 200"
  using readiness_answers [OF _ shared_run_eval, of 1] by (simp add: shared_world_def)

end
