(* ===== verification/Observers.thy ===== *)
theory Observers
  imports Platform_Runs
begin

text \<open>
  The observers the package ships: the full \<open>RunContext\<close> with its times and its execution id,
  \<open>LoggingRunObserver\<close> (\<^verbatim>\<open>observability.py\<close>) and \<open>OTelRunObserver\<close> (\<^verbatim>\<open>observability_otel.py\<close>). What they hand
  to the \<^verbatim>\<open>logging\<close> module and to the OpenTelemetry API is recorded as a list of calls; that API does not raise.
  A span is known by the number of its start. Milliseconds are rationals. A callback is one step: its
  calls go to one span, and the shared map of spans is read or written once, under a lock.
\<close>

section \<open>The run context\<close>

datatype mode_arg = ModeText string | ModeList "string list" | ModeTuple "string list"

record observed_context =
  oc_graph :: string
  oc_endpoint :: string
  oc_run_id :: string
  oc_thread :: "string option"
  oc_started :: int
  oc_ended :: "int option"
  oc_execution :: string
  oc_assistant :: "string option"
  oc_invocation :: "string option"
  oc_mode :: "mode_arg option"
  oc_transport :: string
  oc_checkpointer :: "bool option"
  oc_lock :: "string option"
  oc_trigger :: "string option"

fun normalize_mode_arg :: "mode_arg option \<Rightarrow> mode_arg option" where
  "normalize_mode_arg (Some (ModeList ms)) = Some (ModeTuple ms)"
| "normalize_mode_arg m = m"

text \<open>The generated run id and execution id, and the clock, are arguments.\<close>

definition observed_run_context ::
    "string \<Rightarrow> string \<Rightarrow> int \<Rightarrow> string \<Rightarrow> string \<Rightarrow> string option \<Rightarrow> string option \<Rightarrow> string option \<Rightarrow> string option \<Rightarrow>
     mode_arg option \<Rightarrow> string \<Rightarrow> bool option \<Rightarrow> string option \<Rightarrow> string option \<Rightarrow> observed_context" where
  "observed_run_context fresh execution now graph endpoint run_id thread assistant invocation mode transport ckpt lock trigger =
     \<lparr>oc_graph = graph, oc_endpoint = endpoint,
      oc_run_id = (case run_id of None \<Rightarrow> fresh | Some r \<Rightarrow> if r = [] then fresh else r),
      oc_thread = thread, oc_started = now, oc_ended = None, oc_execution = execution, oc_assistant = assistant,
      oc_invocation = invocation, oc_mode = normalize_mode_arg mode, oc_transport = transport,
      oc_checkpointer = ckpt, oc_lock = lock, oc_trigger = trigger\<rparr>"

definition finish_context :: "int \<Rightarrow> observed_context \<Rightarrow> observed_context" where
  "finish_context now c = c\<lparr>oc_ended := Some now\<rparr>"

definition duration_ms :: "observed_context \<Rightarrow> rat option" where
  "duration_ms c = map_option (\<lambda>e. of_int (e - oc_started c) / 1000000) (oc_ended c)"

datatype observer_call =
    OnStarted observed_context
  | OnCompleted observed_context
  | OnFailed observed_context exn
  | OnRejected observed_context string

text \<open>A log field or span attribute.\<close>

datatype attr = AText string | AFlag bool | ATuple "string list" | ASeq "string list" | AMillis rat | AMissing

definition opt_attr :: "string option \<Rightarrow> attr" where
  "opt_attr t = (case t of None \<Rightarrow> AMissing | Some s \<Rightarrow> AText s)"

definition opt_flag :: "bool option \<Rightarrow> attr" where
  "opt_flag f = (case f of None \<Rightarrow> AMissing | Some b \<Rightarrow> AFlag b)"

section \<open>The logging observer\<close>

fun log_mode :: "mode_arg option \<Rightarrow> attr" where
  "log_mode None = AMissing"
| "log_mode (Some (ModeText m)) = AText m"
| "log_mode (Some (ModeList ms)) = ASeq ms"
| "log_mode (Some (ModeTuple ms)) = ATuple ms"

definition safe_fields :: "observed_context \<Rightarrow> attr dict \<Rightarrow> attr dict" where
  "safe_fields c extra =
     dict_merge
       [(''graph_name'', AText (oc_graph c)), (''endpoint'', AText (oc_endpoint c)), (''run_id'', AText (oc_run_id c)),
        (''thread_id'', opt_attr (oc_thread c)), (''assistant_id'', opt_attr (oc_assistant c)),
        (''invocation_id'', opt_attr (oc_invocation c)), (''stream_mode'', log_mode (oc_mode c)),
        (''transport'', AText (oc_transport c)), (''has_checkpointer'', opt_flag (oc_checkpointer c)),
        (''lock_backend'', opt_attr (oc_lock c)), (''trigger_type'', opt_attr (oc_trigger c)),
        (''duration_ms'', case duration_ms c of None \<Rightarrow> AMissing | Some d \<Rightarrow> AMillis d)]
       extra"

definition safe_message_args :: "observed_context \<Rightarrow> attr dict \<Rightarrow> attr dict" where
  "safe_message_args c extra =
     dict_merge [(''graph_name'', AText (oc_graph c)), (''endpoint'', AText (oc_endpoint c)), (''run_id'', AText (oc_run_id c))]
       extra"

record log_call =
  lc_level :: int
  lc_message :: string
  lc_args :: "attr dict"
  lc_extra :: "attr dict dict"

definition emit_log :: "int \<Rightarrow> string \<Rightarrow> observed_context \<Rightarrow> attr dict \<Rightarrow> log_call" where
  "emit_log level message c extra =
     \<lparr>lc_level = level, lc_message = message, lc_args = safe_message_args c extra,
      lc_extra = [(''langgraph_run'', safe_fields c extra)]\<rparr>"

text \<open>\<^verbatim>\<open>logging.ERROR\<close> is 40.\<close>

fun logging_observer :: "int \<Rightarrow> observer_call \<Rightarrow> log_call" where
  "logging_observer level (OnStarted c) = emit_log level ''langgraph.run.started %s'' c [(''status'', AText ''started'')]"
| "logging_observer level (OnCompleted c) = emit_log level ''langgraph.run.completed %s'' c [(''status'', AText ''completed'')]"
| "logging_observer level (OnFailed c e) =
     emit_log 40 ''langgraph.run.failed %s'' c [(''status'', AText ''failed''), (''error_type'', AText (exn_type e))]"
| "logging_observer level (OnRejected c reason) =
     emit_log level ''langgraph.run.rejected %s'' c [(''status'', AText ''rejected''), (''reason'', AText reason)]"

section \<open>The OpenTelemetry observer\<close>

fun span_mode :: "mode_arg option \<Rightarrow> attr" where
  "span_mode (Some (ModeTuple ms)) = ASeq ms"
| "span_mode m = log_mode m"

definition safe_attributes :: "observed_context \<Rightarrow> attr dict" where
  "safe_attributes c =
     filter (\<lambda>(k, v). v \<noteq> AMissing)
       [(''langgraph.graph_name'', AText (oc_graph c)), (''langgraph.endpoint'', AText (oc_endpoint c)),
        (''langgraph.run_id'', AText (oc_run_id c)), (''langgraph.thread_id'', opt_attr (oc_thread c)),
        (''langgraph.assistant_id'', opt_attr (oc_assistant c)), (''langgraph.invocation_id'', opt_attr (oc_invocation c)),
        (''langgraph.stream_mode'', span_mode (oc_mode c)), (''langgraph.transport'', AText (oc_transport c)),
        (''langgraph.has_checkpointer'', opt_flag (oc_checkpointer c)), (''langgraph.lock_backend'', opt_attr (oc_lock c)),
        (''langgraph.trigger_type'', opt_attr (oc_trigger c))]"

datatype span_status = SpanOk | SpanError string

datatype span_call =
    StartSpan (span_of: nat) string "attr dict"
  | SetAttribute (span_of: nat) string attr
  | SetStatus (span_of: nat) span_status
  | EndSpan (span_of: nat)

record otel =
  ot_spans :: "nat dict"
  ot_count :: nat
  ot_calls :: "span_call list"

definition new_otel :: otel where
  "new_otel = \<lparr>ot_spans = [], ot_count = 0, ot_calls = []\<rparr>"

definition start_span :: "string \<Rightarrow> observed_context \<Rightarrow> otel \<Rightarrow> nat \<times> otel" where
  "start_span prefix c ot =
     (ot_count ot,
      ot\<lparr>ot_count := Suc (ot_count ot),
         ot_calls := ot_calls ot @ [StartSpan (ot_count ot) (prefix @ ''.'' @ oc_endpoint c) (safe_attributes c)]\<rparr>)"

definition finalize_calls :: "nat \<Rightarrow> observed_context \<Rightarrow> string \<Rightarrow> span_call list" where
  "finalize_calls n c status =
     (case duration_ms c of None \<Rightarrow> [] | Some d \<Rightarrow> [SetAttribute n ''langgraph.duration_ms'' (AMillis d)]) @
     [SetAttribute n ''langgraph.status'' (AText status)]"

definition on_run_started :: "string \<Rightarrow> observed_context \<Rightarrow> otel \<Rightarrow> otel" where
  "on_run_started prefix c ot =
     (let (n, ot1) = start_span prefix c ot in ot1\<lparr>ot_spans := AList.update (oc_execution c) n (ot_spans ot1)\<rparr>)"

definition pop_span :: "string \<Rightarrow> otel \<Rightarrow> nat option \<times> otel" where
  "pop_span execution ot = (map_of (ot_spans ot) execution, ot\<lparr>ot_spans := AList.delete execution (ot_spans ot)\<rparr>)"

definition on_run_completed :: "observed_context \<Rightarrow> otel \<Rightarrow> otel" where
  "on_run_completed c ot =
     (case pop_span (oc_execution c) ot of
        (None, ot1) \<Rightarrow> ot1
      | (Some n, ot1) \<Rightarrow>
          ot1\<lparr>ot_calls := ot_calls ot1 @ finalize_calls n c ''completed'' @ [SetStatus n SpanOk, EndSpan n]\<rparr>)"

definition on_run_failed :: "observed_context \<Rightarrow> exn \<Rightarrow> otel \<Rightarrow> otel" where
  "on_run_failed c e ot =
     (case pop_span (oc_execution c) ot of
        (None, ot1) \<Rightarrow> ot1
      | (Some n, ot1) \<Rightarrow>
          ot1\<lparr>ot_calls := ot_calls ot1 @ finalize_calls n c ''failed'' @
               [SetAttribute n ''langgraph.error_type'' (AText (exn_type e)), SetStatus n (SpanError (exn_type e)), EndSpan n]\<rparr>)"

definition on_run_rejected :: "string \<Rightarrow> observed_context \<Rightarrow> string \<Rightarrow> otel \<Rightarrow> otel" where
  "on_run_rejected prefix c reason ot =
     (let (n, ot1) = start_span prefix c ot
      in ot1\<lparr>ot_calls := ot_calls ot1 @ finalize_calls n c ''rejected'' @
              [SetAttribute n ''langgraph.reject_reason'' (AText reason), SetStatus n (SpanError (''rejected: '' @ reason)),
               EndSpan n]\<rparr>)"

fun otel_observer :: "string \<Rightarrow> observer_call \<Rightarrow> otel \<Rightarrow> otel" where
  "otel_observer prefix (OnStarted c) ot = on_run_started prefix c ot"
| "otel_observer prefix (OnCompleted c) ot = on_run_completed c ot"
| "otel_observer prefix (OnFailed c e) ot = on_run_failed c e ot"
| "otel_observer prefix (OnRejected c reason) ot = on_run_rejected prefix c reason ot"

definition otel_run :: "string \<Rightarrow> observer_call list \<Rightarrow> otel \<Rightarrow> otel" where
  "otel_run prefix cs ot = fold (otel_observer prefix) cs ot"

section \<open>Spans\<close>

text \<open>The executions that have started and not ended.\<close>

fun flight :: "observer_call \<Rightarrow> string set \<Rightarrow> string set" where
  "flight (OnStarted c) X = insert (oc_execution c) X"
| "flight (OnCompleted c) X = X - {oc_execution c}"
| "flight (OnFailed c e) X = X - {oc_execution c}"
| "flight (OnRejected c reason) X = X"

definition in_flight :: "observer_call list \<Rightarrow> string set" where
  "in_flight cs = fold flight cs {}"

fun starts :: "observer_call \<Rightarrow> string list" where
  "starts (OnStarted c) = [oc_execution c]"
| "starts _ = []"

definition started_ids :: "observer_call list \<Rightarrow> string list" where
  "started_ids cs = concat (map starts cs)"

fun opens_span :: "observer_call \<Rightarrow> bool" where
  "opens_span (OnStarted c) = True"
| "opens_span (OnRejected c reason) = True"
| "opens_span _ = False"

fun annotation :: "span_call \<Rightarrow> bool" where
  "annotation (SetAttribute n k v) = True"
| "annotation (SetStatus n st) = True"
| "annotation _ = False"

definition span_calls :: "nat \<Rightarrow> span_call list \<Rightarrow> span_call list" where
  "span_calls n calls = filter (\<lambda>sc. span_of sc = n) calls"

text \<open>A span starts once; unless it is open, it ends once, as the last that is done to it.\<close>

definition span_life :: "nat \<Rightarrow> bool \<Rightarrow> span_call list \<Rightarrow> bool" where
  "span_life n is_open calls \<longleftrightarrow>
     (\<exists>name attrs notes. list_all annotation notes \<and>
        calls = StartSpan n name attrs # notes @ (if is_open then [] else [EndSpan n]) \<and> (is_open \<longrightarrow> notes = []))"


definition otel_ok :: "otel \<Rightarrow> bool" where
  "otel_ok ot \<longleftrightarrow>
     dict_ok (ot_spans ot) \<and> distinct (map snd (ot_spans ot)) \<and> (\<forall>sc \<in> set (ot_calls ot). span_of sc < ot_count ot) \<and>
     (\<forall>n \<in> snd ` set (ot_spans ot). n < ot_count ot) \<and>
     (\<forall>n < ot_count ot. span_life n (n \<in> snd ` set (ot_spans ot)) (span_calls n (ot_calls ot)))"

lemma new_otel_ok: "otel_ok new_otel"
  by (simp add: otel_ok_def new_otel_def)

lemma span_calls_append [simp]: "span_calls n (xs @ ys) = span_calls n xs @ span_calls n ys"
  by (simp add: span_calls_def)

lemma span_calls_fresh: "\<forall>sc \<in> set calls. span_of sc < n \<Longrightarrow> span_calls n calls = []"
  by (auto simp: span_calls_def filter_empty_conv)

lemma span_calls_one:
  "list_all (\<lambda>sc. span_of sc = n) calls \<Longrightarrow> span_calls m calls = (if m = n then calls else [])"
  by (induction calls) (auto simp: span_calls_def)

lemma finalize_calls_own: "list_all (\<lambda>sc. span_of sc = n) (finalize_calls n c status)"
  by (simp add: finalize_calls_def split: option.splits)

lemma finalize_calls_notes: "list_all annotation (finalize_calls n c status)"
  by (simp add: finalize_calls_def split: option.splits)

text \<open>Opening a span, and closing one that is open.\<close>

definition open_span :: "string \<Rightarrow> string \<Rightarrow> attr dict \<Rightarrow> otel \<Rightarrow> otel" where
  "open_span execution name attrs ot =
     ot\<lparr>ot_spans := AList.update execution (ot_count ot) (ot_spans ot), ot_count := Suc (ot_count ot),
        ot_calls := ot_calls ot @ [StartSpan (ot_count ot) name attrs]\<rparr>"

definition close_span :: "string \<Rightarrow> span_call list \<Rightarrow> otel \<Rightarrow> otel" where
  "close_span execution notes ot =
     ot\<lparr>ot_spans := AList.delete execution (ot_spans ot),
        ot_calls := ot_calls ot @ notes @ [EndSpan (the (map_of (ot_spans ot) execution))]\<rparr>"

definition brief_span :: "string \<Rightarrow> attr dict \<Rightarrow> span_call list \<Rightarrow> otel \<Rightarrow> otel" where
  "brief_span name attrs notes ot =
     ot\<lparr>ot_count := Suc (ot_count ot),
        ot_calls := ot_calls ot @ StartSpan (ot_count ot) name attrs # notes @ [EndSpan (ot_count ot)]\<rparr>"

definition notes_of :: "nat \<Rightarrow> span_call list \<Rightarrow> bool" where
  "notes_of n notes \<longleftrightarrow> list_all (\<lambda>sc. span_of sc = n \<and> annotation sc) notes"

lemma notes_ofD: "notes_of n notes \<Longrightarrow> list_all (\<lambda>sc. span_of sc = n) notes \<and> list_all annotation notes"
  by (auto simp: notes_of_def list_all_iff)

lemma open_span_ok:
  assumes "otel_ok ot" "execution \<notin> dict_keys (ot_spans ot)"
  shows "otel_ok (open_span execution name attrs ot)"
proof -
  let ?n = "ot_count ot"
  have spans: "AList.update execution ?n (ot_spans ot) = ot_spans ot @ [(execution, ?n)]"
    using assms(2) by (rule update_new)
  have calls: "span_calls m (ot_calls (open_span execution name attrs ot)) =
      span_calls m (ot_calls ot) @ (if m = ?n then [StartSpan ?n name attrs] else [])" for m
    by (simp add: open_span_def span_calls_def)
  have life: "span_life m (m \<in> snd ` set (ot_spans ot) \<or> m = ?n) (span_calls m (ot_calls (open_span execution name attrs ot)))"
    if "m < Suc ?n" for m
  proof (cases "m = ?n")
    case True
    have "span_calls ?n (ot_calls ot) = []" using assms(1) by (intro span_calls_fresh) (auto simp: otel_ok_def)
    with True show ?thesis unfolding calls by (simp add: span_life_def)
  next
    case False
    with that assms(1) show ?thesis unfolding calls by (simp add: otel_ok_def)
  qed
  show ?thesis
    using assms(1) life unfolding otel_ok_def open_span_def spans
    by (auto simp: dict_ok_def less_Suc_eq assms(2) disj_commute)
qed


lemma delete_spans:
  assumes "dict_ok d" "distinct (map snd d)" "map_of d k = Some n"
  shows "snd ` set (AList.delete k d) = snd ` set d - {n}" "distinct (map snd (AList.delete k d))"
proof -
  have kn: "(k, n) \<in> set d" using assms(3) by (rule map_of_SomeD)
  have "i = k \<longleftrightarrow> m = n" if "(i, m) \<in> set d" for i m
  proof
    assume "i = k"
    with that assms(1,3) show "m = n" by (simp add: dict_ok_def)
  next
    assume "m = n"
    with that kn assms(2) show "i = k" by (metis distinct_map inj_on_eq_iff prod.inject snd_conv)
  qed
  then show "snd ` set (AList.delete k d) = snd ` set d - {n}" by (force simp: AList.delete_eq)
  show "distinct (map snd (AList.delete k d))" using assms(2) by (simp add: AList.delete_eq distinct_map_filter)
qed

lemma close_span_ok:
  assumes "otel_ok ot" "map_of (ot_spans ot) execution = Some n" "notes_of n notes"
  shows "otel_ok (close_span execution notes ot)"
proof -
  note ok = assms(1) [unfolded otel_ok_def]
  note del = delete_spans [OF _ _ assms(2)] 
  have n: "n \<in> snd ` set (ot_spans ot)" using assms(2) by (force dest: map_of_SomeD)
  then have less: "n < ot_count ot" using ok by blast
  have own: "list_all (\<lambda>sc. span_of sc = n) (notes @ [EndSpan n])" using notes_ofD [OF assms(3)] by simp
  have calls: "span_calls m (ot_calls (close_span execution notes ot)) =
      span_calls m (ot_calls ot) @ (if m = n then notes @ [EndSpan n] else [])" for m
    unfolding span_calls_one [OF own, of m, symmetric] by (simp add: close_span_def assms(2))
  have life: "span_life m (m \<in> snd ` set (ot_spans ot) - {n}) (span_calls m (ot_calls (close_span execution notes ot)))"
    if "m < ot_count ot" for m
  proof (cases "m = n")
    case True
    have "span_life n (n \<in> snd ` set (ot_spans ot)) (span_calls n (ot_calls ot))" using ok less by blast
    with n have "span_life n True (span_calls n (ot_calls ot))" by simp
    then obtain name attrs where "span_calls n (ot_calls ot) = [StartSpan n name attrs]" by (auto simp: span_life_def)
    with True notes_ofD [OF assms(3)] show ?thesis unfolding calls by (simp add: span_life_def)
  next
    case False
    with that ok show ?thesis unfolding calls by auto
  qed
  have "\<forall>sc \<in> set (notes @ [EndSpan n]). span_of sc < ot_count ot" using own less by (auto simp: list_all_iff)
  with ok life del show ?thesis
    by (auto simp: otel_ok_def close_span_def assms(2))
qed

lemma brief_span_ok:
  assumes "otel_ok ot" "notes_of (ot_count ot) notes"
  shows "otel_ok (brief_span name attrs notes ot)"
proof -
  let ?n = "ot_count ot" and ?new = "StartSpan (ot_count ot) name attrs # notes @ [EndSpan (ot_count ot)]"
  note ok = assms(1) [unfolded otel_ok_def]
  have own: "list_all (\<lambda>sc. span_of sc = ?n) ?new" using notes_ofD [OF assms(2)] by simp
  have calls: "span_calls m (ot_calls ot @ ?new) = span_calls m (ot_calls ot) @ (if m = ?n then ?new else [])" for m
    unfolding span_calls_append span_calls_one [OF own] ..
  have life: "span_life m (m \<in> snd ` set (ot_spans ot)) (span_calls m (ot_calls ot @ ?new))" if "m < Suc ?n" for m
  proof (cases "m = ?n")
    case True
    have "span_calls ?n (ot_calls ot) = []" using ok by (intro span_calls_fresh) auto
    moreover have "?n \<notin> snd ` set (ot_spans ot)" using ok by blast
    ultimately show ?thesis unfolding calls using True notes_ofD [OF assms(2)] by (auto simp: span_life_def)
  next
    case False
    with that ok show ?thesis unfolding calls by auto
  qed
  have "\<forall>sc \<in> set ?new. span_of sc < Suc ?n" using own by (auto simp: list_all_iff)
  with ok life show ?thesis by (auto simp: otel_ok_def brief_span_def less_Suc_eq)
qed


text \<open>The callbacks in these terms.\<close>

lemma finalize_notes: "notes_of n (finalize_calls n c status)"
  using finalize_calls_own [of n c status] finalize_calls_notes [of n c status] by (auto simp: notes_of_def list_all_iff)

lemma notes_of_append [simp]: "notes_of n (xs @ ys) = (notes_of n xs \<and> notes_of n ys)"
  by (simp add: notes_of_def)

lemma started_opens:
  "on_run_started pre c ot = open_span (oc_execution c) (pre @ ''.'' @ oc_endpoint c) (safe_attributes c) ot"
  by (simp add: on_run_started_def start_span_def open_span_def)

lemma ended_closes:
  assumes "map_of (ot_spans ot) (oc_execution c) = Some n"
  shows "\<exists>notes. notes_of n notes \<and> on_run_completed c ot = close_span (oc_execution c) notes ot"
    and "\<exists>notes. notes_of n notes \<and> on_run_failed c e ot = close_span (oc_execution c) notes ot"
proof -
  have "notes_of n (finalize_calls n c ''completed'' @ [SetStatus n SpanOk])"
    using finalize_notes by (simp add: notes_of_def)
  moreover have "on_run_completed c ot = close_span (oc_execution c) (finalize_calls n c ''completed'' @ [SetStatus n SpanOk]) ot"
    by (simp add: on_run_completed_def pop_span_def close_span_def assms)
  ultimately show "\<exists>notes. notes_of n notes \<and> on_run_completed c ot = close_span (oc_execution c) notes ot" by blast
  let ?failed = "finalize_calls n c ''failed'' @
    [SetAttribute n ''langgraph.error_type'' (AText (exn_type e)), SetStatus n (SpanError (exn_type e))]"
  have "notes_of n ?failed" using finalize_notes by (simp add: notes_of_def)
  moreover have "on_run_failed c e ot = close_span (oc_execution c) ?failed ot"
    by (simp add: on_run_failed_def pop_span_def close_span_def assms)
  ultimately show "\<exists>notes. notes_of n notes \<and> on_run_failed c e ot = close_span (oc_execution c) notes ot" by blast
qed

lemma ended_unknown:
  assumes "map_of (ot_spans ot) (oc_execution c) = None"
  shows "on_run_completed c ot = ot" "on_run_failed c e ot = ot"
  using assms by (simp_all add: on_run_completed_def on_run_failed_def pop_span_def delete_id [OF map_of_eq_None_iff [THEN iffD1]])

lemma rejected_brief:
  "\<exists>notes name. notes_of (ot_count ot) notes \<and> on_run_rejected pre c reason ot = brief_span name (safe_attributes c) notes ot"
proof -
  let ?n = "ot_count ot"
  let ?notes = "finalize_calls ?n c ''rejected'' @
    [SetAttribute ?n ''langgraph.reject_reason'' (AText reason), SetStatus ?n (SpanError (''rejected: '' @ reason))]"
  have "notes_of ?n ?notes" using finalize_notes by (simp add: notes_of_def)
  moreover have "on_run_rejected pre c reason ot = brief_span (pre @ ''.'' @ oc_endpoint c) (safe_attributes c) ?notes ot"
    by (simp add: on_run_rejected_def start_span_def brief_span_def)
  ultimately show ?thesis by blast
qed

lemma otel_observer_ok:
  assumes "otel_ok ot" "\<And>x. x \<in> set (starts oc) \<Longrightarrow> x \<notin> dict_keys (ot_spans ot)"
  shows "otel_ok (otel_observer pre oc ot)"
proof (cases oc)
  case (OnStarted c)
  with assms show ?thesis by (simp add: started_opens open_span_ok)
next
  case (OnCompleted c)
  show ?thesis
  proof (cases "map_of (ot_spans ot) (oc_execution c)")
    case (Some n)
    from ended_closes(1) [OF this] OnCompleted close_span_ok [OF assms(1) Some] show ?thesis by auto
  qed (use OnCompleted assms(1) ended_unknown(1) in simp)
next
  case (OnFailed c e)
  show ?thesis
  proof (cases "map_of (ot_spans ot) (oc_execution c)")
    case (Some n)
    from ended_closes(2) [OF this, of e] OnFailed close_span_ok [OF assms(1) Some] show ?thesis by auto
  qed (use OnFailed assms(1) ended_unknown(2) in simp)
next
  case (OnRejected c reason)
  with rejected_brief [of ot pre c reason] brief_span_ok [OF assms(1)] show ?thesis by auto
qed

lemma spans_after [simp]:
  "ot_spans (on_run_started pre c ot) = AList.update (oc_execution c) (ot_count ot) (ot_spans ot)"
  "ot_spans (on_run_completed c ot) = AList.delete (oc_execution c) (ot_spans ot)"
  "ot_spans (on_run_failed c e ot) = AList.delete (oc_execution c) (ot_spans ot)"
  "ot_spans (on_run_rejected pre c reason ot) = ot_spans ot"
  by (auto simp: on_run_started_def start_span_def on_run_completed_def on_run_failed_def on_run_rejected_def pop_span_def
      split: option.splits)

lemma count_after [simp]:
  "ot_count (on_run_started pre c ot) = Suc (ot_count ot)" "ot_count (on_run_completed c ot) = ot_count ot"
  "ot_count (on_run_failed c e ot) = ot_count ot" "ot_count (on_run_rejected pre c reason ot) = Suc (ot_count ot)"
  by (auto simp: on_run_started_def start_span_def on_run_completed_def on_run_failed_def on_run_rejected_def pop_span_def
      split: option.splits)

lemma otel_observer_keys: "dict_keys (ot_spans (otel_observer pre oc ot)) = flight oc (dict_keys (ot_spans ot))"
  by (cases oc) (simp_all add: keys_delete)

lemma otel_observer_count: "ot_count (otel_observer pre oc ot) = (if opens_span oc then Suc (ot_count ot) else ot_count ot)"
  by (cases oc) simp_all

lemma flight_starts: "flight oc X \<subseteq> X \<union> set (starts oc)"
  by (cases oc) auto


section \<open>Properties\<close>

lemma otel_run_invariant:
  assumes "distinct (started_ids cs)"
  shows "otel_ok (otel_run pre cs new_otel) \<and> dict_keys (ot_spans (otel_run pre cs new_otel)) = in_flight cs \<and>
    in_flight cs \<subseteq> set (started_ids cs) \<and> ot_count (otel_run pre cs new_otel) = length (filter opens_span cs)"
  using assms
proof (induction cs rule: rev_induct)
  case Nil
  show ?case using new_otel_ok by (simp add: otel_run_def new_otel_def in_flight_def)
next
  case (snoc oc cs)
  let ?ot = "otel_run pre cs new_otel"
  have last: "otel_run pre (cs @ [oc]) new_otel = otel_observer pre oc ?ot" "in_flight (cs @ [oc]) = flight oc (in_flight cs)"
    by (simp_all add: otel_run_def in_flight_def)
  have IH: "otel_ok ?ot" "dict_keys (ot_spans ?ot) = in_flight cs" "in_flight cs \<subseteq> set (started_ids cs)"
      "ot_count ?ot = length (filter opens_span cs)"
    using snoc by (simp_all add: started_ids_def)
  have "x \<notin> dict_keys (ot_spans ?ot)" if "x \<in> set (starts oc)" for x
    using IH(2,3) snoc.prems that by (auto simp: started_ids_def)
  then have "otel_ok (otel_observer pre oc ?ot)" by (rule otel_observer_ok [OF IH(1)])
  moreover have "flight oc (in_flight cs) \<subseteq> set (started_ids (cs @ [oc]))"
    using flight_starts [of oc "in_flight cs"] IH(3) by (auto simp: started_ids_def)
  ultimately show ?case unfolding last using IH by (simp add: otel_observer_keys otel_observer_count)
qed

text \<open>
  C37: When every execution has an id of its own, whatever else overlapping runs share: the spans kept are
  those of the runs in flight, a span was started for every start and every rejection, each is open exactly
  while it is kept, and otherwise has ended once, after everything else that was done to it.
\<close>

theorem otel_spans_settle:
  assumes "distinct (started_ids cs)"
  shows "let ot = otel_run pre cs new_otel in
    dict_keys (ot_spans ot) = in_flight cs \<and> ot_count ot = length (filter opens_span cs) \<and>
    (\<forall>n < ot_count ot. span_life n (n \<in> snd ` set (ot_spans ot)) (span_calls n (ot_calls ot)))"
  using otel_run_invariant [OF assms, of pre] by (simp add: Let_def otel_ok_def)

definition example_observed :: "string \<Rightarrow> observed_context" where
  "example_observed execution =
     observed_run_context ''r0'' execution 0 ''agent'' ''invoke'' (Some ''r1'') None None None None ''buffered'' None None None"

lemma example_execution [simp]:
  "oc_execution (example_observed e) = e" "oc_execution (finish_context now c) = oc_execution c"
  by (simp_all add: example_observed_def observed_run_context_def finish_context_def)

definition overlapping :: "observer_call list" where
  "overlapping =
     [OnStarted (example_observed ''e1''), OnStarted (example_observed ''e2''),
      OnCompleted (finish_context 2000000 (example_observed ''e1'')), OnRejected (example_observed ''e3'') ''lock_contention'']"

lemma otel_spans_settle_witness:
  "let ot = otel_run ''langgraph.run'' overlapping new_otel in
    dict_keys (ot_spans ot) = {''e2''} \<and> ot_count ot = 3 \<and> span_life 0 False (span_calls 0 (ot_calls ot))"
proof -
  have ids: "distinct (started_ids overlapping)"
    by (simp add: overlapping_def started_ids_def)
  have spans: "ot_spans (otel_run ''langgraph.run'' overlapping new_otel) = [(''e2'', 1)]"
    by (simp add: otel_run_def overlapping_def) (simp add: new_otel_def)
  let ?ot = "otel_run ''langgraph.run'' overlapping new_otel"
  note settle = otel_spans_settle [OF ids, of "''langgraph.run''", unfolded Let_def]
  have three: "ot_count ?ot = 3" using settle by (simp add: overlapping_def)
  then have "span_life 0 (0 \<in> snd ` set (ot_spans ?ot)) (span_calls 0 (ot_calls ?ot))" using settle by simp
  then show ?thesis using three spans by simp
qed

text \<open>An exception as far as its message is not known.\<close>

fun mask_message :: "observer_call \<Rightarrow> observer_call" where
  "mask_message (OnFailed c e) = OnFailed c (Exn (exn_type e) [])"
| "mask_message oc = oc"

text \<open>
  Neither observer lets out the message of an exception: what they log or send to the tracer is the
  same when all messages are blanked.
\<close>

theorem observers_hide_messages:
  "otel_run pre (map mask_message cs) ot = otel_run pre cs ot \<and>
   map (logging_observer level) (map mask_message cs) = map (logging_observer level) cs"
proof
  have "on_run_failed c (Exn (exn_type e) []) = on_run_failed c e" for c e
    unfolding on_run_failed_def exn.sel ..
  then have "otel_observer pre (mask_message oc) = otel_observer pre oc" for oc
    by (cases oc) (simp_all add: fun_eq_iff)
  then show "otel_run pre (map mask_message cs) ot = otel_run pre cs ot"
    by (simp add: otel_run_def fold_map comp_def)
  have "logging_observer level (mask_message oc) = logging_observer level oc" for oc
    by (cases oc) simp_all
  then show "map (logging_observer level) (map mask_message cs) = map (logging_observer level) cs" by simp
qed

section \<open>Observed runs\<close>

text \<open>The callbacks for the events of a run: terminal events come with the finished context.\<close>

fun callback :: "int \<Rightarrow> observed_context \<Rightarrow> run_event \<Rightarrow> observer_call" where
  "callback now c (RunStarted rc) = OnStarted c"
| "callback now c (RunCompleted rc) = OnCompleted (finish_context now c)"
| "callback now c (RunFailed rc e) = OnFailed (finish_context now c) e"
| "callback now c (RunRejected rc reason) = OnRejected (finish_context now c) reason"

text \<open>A Platform run that answers leaves no span open; one that a base exception leaves may.\<close>

lemma platform_run_closes_spans:
  assumes "run_trace ctx busy r evs" "oc_execution c \<notin> dict_keys (ot_spans ot)"
    and "\<And>e. r = Inl e \<Longrightarrow> \<not> base_exn e"
  shows "ot_spans (otel_run pre (map (callback now c) evs) ot) = ot_spans ot"
  using assms
  by (auto simp: run_trace_def otel_run_def delete_update_same split: sum.splits if_splits)

end
