(* ===== verification/Streaming_App.thy ===== *)
theory Streaming_App
  imports App_Guarantees
begin

text \<open>
  The application object of true streaming, \<open>StreamingLangGraphApp\<close> of \<^verbatim>\<open>streaming.py\<close>: construction,
  registration and the cached function app. It is to behave as a \<open>LangGraphApp\<close> without triggers, Platform API and
  durable runs: \<open>as_native\<close> is that application, and the operations refine those of \<open>Application\<close>.
  The handlers it registers are in \<open>Streaming\<close>. Whether the FastAPI extension can be imported is a parameter.
\<close>

section \<open>The application\<close>

record stream_limits =
  sl_body :: nat
  sl_depth :: nat
  sl_nodes :: nat
  sl_events :: nat

record stream_app =
  sa_auth :: auth_level
  sa_health_auth :: auth_level
  sa_details_auth :: "auth_level option"
  sa_limits :: stream_limits
  sa_lock :: "lock_kind option"
  sa_prefix :: string
  sa_registrations :: "(string \<times> app_registration) list"
  sa_built :: "unit function_entry list option"

datatype stream_app_error = ExtraMissing | AppError app_error

definition stream_post_init :: "app_env \<Rightarrow> stream_app \<Rightarrow> app_error + stream_app \<times> app_warning list" where
  "stream_post_init ev sa =
     (let warns = (if sa_auth sa = AnonymousLevel then [AnonymousApp] else []);
          lock = (case sa_lock sa of None \<Rightarrow> InProcessLock | Some l \<Rightarrow> l);
          sa' = sa\<lparr>sa_prefix := normalized_prefix (sa_prefix sa), sa_lock := Some lock\<rparr>;
          backend = lock_backend_setting ev
      in if backend \<notin> {[], ''inprocess''} \<and> lock = InProcessLock then Inl (LocalLockRefused backend) else Inr (sa', warns))"

section \<open>Registration\<close>

definition stream_registration_error ::
    "model_test \<Rightarrow> stream_app \<Rightarrow> graph_object \<Rightarrow> string \<Rightarrow> bool \<Rightarrow> nat option \<Rightarrow> nat option \<Rightarrow> app_error option" where
  "stream_registration_error is_model sa g name async_mode request_model response_model =
     (if async_mode \<and> \<not> go_ainvoke g then Some (NoAinvoke (go_class g))
      else if \<not> go_invoke g \<and> \<not> go_ainvoke g then Some (NoInvoke (go_class g))
      else
        case validate_optional_model is_model request_model ''request_model'' of
          Some e \<Rightarrow> Some e
        | None \<Rightarrow>
            case validate_optional_model is_model response_model ''response_model'' of
              Some e \<Rightarrow> Some e
            | None \<Rightarrow>
                case validate_graph_name name of
                  Some e \<Rightarrow> Some (BadName e)
                | None \<Rightarrow> if name \<in> fst ` set (sa_registrations sa) then Some (GraphTaken name) else None)"

definition stream_register ::
    "model_test \<Rightarrow> graph_object \<Rightarrow> string \<Rightarrow> string option \<Rightarrow> bool \<Rightarrow> auth_level option \<Rightarrow> nat option \<Rightarrow> nat option \<Rightarrow>
     bool \<Rightarrow> string list \<Rightarrow> stream_app \<Rightarrow> app_error + stream_app" where
  "stream_register is_model g name description stream auth request_model response_model async_mode allowed sa =
     (case stream_registration_error is_model sa g name async_mode request_model response_model of
        Some e \<Rightarrow> Inl e
      | None \<Rightarrow>
          let reg = new_registration g name description stream auth request_model response_model async_mode allowed
          in Inr (sa\<lparr>sa_registrations := AList.update name reg (sa_registrations sa), sa_built := None\<rparr>))"

section \<open>The function app\<close>

definition stream_details_auth :: "stream_app \<Rightarrow> auth_level" where
  "stream_details_auth sa = (case sa_details_auth sa of None \<Rightarrow> sa_auth sa | Some a \<Rightarrow> a)"

definition stream_effective_auth :: "stream_app \<Rightarrow> app_registration \<Rightarrow> auth_level" where
  "stream_effective_auth sa reg = (case rg_auth reg of Some a \<Rightarrow> a | None \<Rightarrow> sa_auth sa)"

definition stream_is_async :: "app_registration \<Rightarrow> bool" where
  "stream_is_async reg \<longleftrightarrow> reg_async reg \<or> \<not> reg_invocable reg"

definition register_invoke :: "stream_app \<Rightarrow> app_registration \<Rightarrow> unit function_entry" where
  "register_invoke sa reg =
     plain_function (''aflg_'' @ reg_name reg @ ''_invoke'')
       (HttpTrigger (''graphs/'' @ reg_name reg @ ''/invoke'') ''POST'' (Some (stream_effective_auth sa reg)))
       (GraphHandler InvokeRoute (stream_is_async reg) reg)"

definition register_stream :: "stream_app \<Rightarrow> app_registration \<Rightarrow> unit function_entry" where
  "register_stream sa reg =
     plain_function (''aflg_'' @ reg_name reg @ ''_stream'')
       (HttpTrigger (''graphs/'' @ reg_name reg @ ''/stream'') ''POST'' (Some (stream_effective_auth sa reg)))
       (GraphHandler StreamRoute (stream_is_async reg) reg)"

definition stream_functions :: "stream_app \<Rightarrow> unit function_entry list" where
  "stream_functions sa =
     [plain_function ''aflg_health'' (HttpTrigger ''health'' ''GET'' (Some (sa_health_auth sa))) HealthHandler,
      plain_function ''aflg_health_details'' (HttpTrigger ''health/details'' ''GET'' (Some (stream_details_auth sa)))
        DetailsHandler] @
     concat (map (\<lambda>(name, reg). [register_invoke sa reg] @ (if ng_stream_enabled reg then [register_stream sa reg] else []))
       (sa_registrations sa))"

definition build_stream_app :: "bool \<Rightarrow> stream_app \<Rightarrow> stream_app_error + unit function_entry list" where
  "build_stream_app has_extension sa =
     (if \<not> has_extension then Inl ExtraMissing
      else if sa_lock sa = None then Inl (AppError LockMissing)
      else Inr (stream_functions sa))"

definition stream_function_app ::
    "bool \<Rightarrow> stream_app \<Rightarrow> (stream_app_error + unit function_entry list) \<times> stream_app" where
  "stream_function_app has_extension sa =
     (case sa_built sa of
        Some fs \<Rightarrow> (Inr fs, sa)
      | None \<Rightarrow>
          (case build_stream_app has_extension sa of
             Inl e \<Rightarrow> (Inl e, sa)
           | Inr fs \<Rightarrow> (Inr fs, sa\<lparr>sa_built := Some fs\<rparr>)))"

definition stream_details_body :: "stream_app \<Rightarrow> pyval" where
  "stream_details_body sa =
     PDict [(''status'', PStr ''ok''), (''graphs'', PList (map (\<lambda>(name, reg). graph_info reg) (sa_registrations sa)))]"

section \<open>The native application it mirrors\<close>

definition as_native :: "stream_app \<Rightarrow> unit app_state" where
  "as_native sa =
     \<lparr>ap_auth = sa_auth sa, ap_health_auth = sa_health_auth sa, ap_details_auth = sa_details_auth sa, ap_ready_auth = None,
      ap_checks = [], ap_timeout = Finite 5,
      ap_limits = \<lparr>al_stream = 1048576, al_body = sl_body (sa_limits sa), al_depth = sl_depth (sa_limits sa),
        al_nodes = sl_nodes (sa_limits sa), al_results = 100\<rparr>,
      ap_platform = False, ap_durable = False, ap_lock = sa_lock sa, ap_prefix = sa_prefix sa,
      ap_registrations = sa_registrations sa, ap_triggers = [], ap_built = None, ap_store = None, ap_runner = None\<rparr>"

lemma as_native_fields [simp]:
  "ap_registrations (as_native sa) = sa_registrations sa" "ap_triggers (as_native sa) = []"
  "\<not> ap_platform (as_native sa)" "\<not> ap_durable (as_native sa)"
  by (simp_all add: as_native_def)

lemma as_native_built [simp]: "as_native (sa\<lparr>sa_built := b\<rparr>) = as_native sa"
  by (simp add: as_native_def)

lemma same_registration_error:
  "stream_registration_error is_model sa g name async_mode rq rs =
     registration_error is_model (as_native sa) g name async_mode rq rs"
  by (simp add: stream_registration_error_def registration_error_def protocol_error_def as_native_def any_exclusive_def
      split: option.split)

lemma stream_post_init_mirrors:
  "map_sum id (map_prod as_native id) (stream_post_init ev sa) = post_init ev (as_native sa)"
  by (simp add: stream_post_init_def post_init_def as_native_def positive_float_def Let_def)

lemma stream_register_mirrors:
  "map_sum id as_native (stream_register is_model g name d stream auth rq rs async_mode allowed sa) =
     map_sum id fst (register is_model g name d stream auth rq rs async_mode allowed (as_native sa))"
  by (simp add: stream_register_def register_def same_registration_error Let_def as_native_def split: option.split)

text \<open>A function without what the native application says of it in its metadata.\<close>

definition bare :: "'s function_entry \<Rightarrow> 's function_entry" where
  "bare fe = fe\<lparr>fe_metadata := None\<rparr>"

definition serves_state :: "'s function_entry \<Rightarrow> bool" where
  "serves_state fe \<longleftrightarrow> (case fe_handler fe of GraphHandler e awaited reg \<Rightarrow> e = StateRoute | _ \<Rightarrow> False)"

lemma graph_functions_mirror:
  "map bare (filter (\<lambda>fe. \<not> serves_state fe) (graph_functions is_model schema (as_native sa) reg)) =
     [register_invoke sa reg] @ (if ng_stream_enabled reg then [register_stream sa reg] else [])"
  by (simp add: graph_functions_def register_route_def Let_def bare_def serves_state_def register_invoke_def
      register_stream_def plain_function_def is_async_def stream_is_async_def stream_effective_auth_def
      effective_auth_level_def as_native_def split: option.split)

lemma stream_functions_mirror:
  "stream_functions sa =
     map bare (filter (\<lambda>fe. \<not> serves_state fe) (app_functions is_model schema (as_native sa)))"
proof -
  have health: "map bare (filter (\<lambda>fe. \<not> serves_state fe) (health_functions (as_native sa))) =
      [plain_function ''aflg_health'' (HttpTrigger ''health'' ''GET'' (Some (sa_health_auth sa))) HealthHandler,
       plain_function ''aflg_health_details'' (HttpTrigger ''health/details'' ''GET'' (Some (stream_details_auth sa)))
         DetailsHandler]"
    by (simp add: health_functions_def plain_function_def bare_def serves_state_def as_native_def
        resolved_details_auth_def stream_details_auth_def split: option.split)
  have graphs: "map bare (filter (\<lambda>fe. \<not> serves_state fe)
        (concat (map (\<lambda>(name, reg). graph_functions is_model schema (as_native sa) reg) rs))) =
      concat (map (\<lambda>(name, reg). [register_invoke sa reg] @ (if ng_stream_enabled reg then [register_stream sa reg] else [])) rs)" for rs
    by (induction rs) (simp_all add: case_prod_unfold graph_functions_mirror)
  show ?thesis
    using health graphs [of "sa_registrations sa"] by (simp add: app_functions_def stream_functions_def)
qed


section \<open>Using it\<close>

datatype stream_op =
    StreamRegister graph_object string "string option" bool "auth_level option" "nat option" "nat option" bool "string list"
  | GetStreamApp bool

fun stream_step :: "model_test \<Rightarrow> stream_op \<Rightarrow> stream_app \<Rightarrow> stream_app" where
  "stream_step is_model (StreamRegister g name d stream auth rq rs async_mode allowed) sa =
     (case stream_register is_model g name d stream auth rq rs async_mode allowed sa of Inl e \<Rightarrow> sa | Inr sa' \<Rightarrow> sa')"
| "stream_step is_model (GetStreamApp has_extension) sa = snd (stream_function_app has_extension sa)"

definition stream_app_run :: "model_test \<Rightarrow> stream_op list \<Rightarrow> stream_app \<Rightarrow> stream_app" where
  "stream_app_run is_model ops sa = fold (stream_step is_model) ops sa"

fun native_ops :: "stream_op \<Rightarrow> unit app_op list" where
  "native_ops (StreamRegister g name d stream auth rq rs async_mode allowed) =
     [Register g name d stream auth rq rs async_mode allowed]"
| "native_ops (GetStreamApp has_extension) = []"

definition constructed_stream :: "app_env \<Rightarrow> stream_app \<Rightarrow> bool" where
  "constructed_stream ev sa \<longleftrightarrow>
     (\<exists>sa0 warns. sa_registrations sa0 = [] \<and> sa_built sa0 = None \<and> stream_post_init ev sa0 = Inr (sa, warns))"

text \<open>The cache is current, and there is a lock.\<close>

definition stream_app_ok :: "stream_app \<Rightarrow> bool" where
  "stream_app_ok sa \<longleftrightarrow> sa_lock sa \<noteq> None \<and> pred_option (\<lambda>fs. fs = stream_functions sa) (sa_built sa)"

lemma constructed_native: "constructed_stream ev sa \<Longrightarrow> constructed ev (as_native sa)"
proof -
  assume "constructed_stream ev sa"
  then obtain sa0 warns where sa0: "sa_registrations sa0 = []" "stream_post_init ev sa0 = Inr (sa, warns)"
    unfolding constructed_stream_def by blast
  then have "post_init ev (as_native sa0) = Inr (as_native sa, warns)"
    using stream_post_init_mirrors [of ev sa0] by simp
  moreover have "fresh_app (as_native sa0)" using sa0(1) by (simp add: fresh_app_def as_native_def)
  ultimately show ?thesis unfolding constructed_def by blast
qed

lemma constructed_stream_ok: "constructed_stream ev sa \<Longrightarrow> stream_app_ok sa"
  by (auto simp: constructed_stream_def stream_post_init_def stream_app_ok_def Let_def split: if_splits)

lemma stream_functions_built [simp]: "stream_functions (sa\<lparr>sa_built := b\<rparr>) = stream_functions sa"
  unfolding stream_functions_mirror [where is_model = "\<lambda>_. True" and schema = "\<lambda>_ _. PNone"] by simp

lemma stream_step_ok: "stream_app_ok sa \<Longrightarrow> stream_app_ok (stream_step is_model x sa)"
  by (cases x)
    (auto simp: stream_register_def stream_function_app_def build_stream_app_def stream_app_ok_def Let_def
      split: option.splits sum.splits)

lemma stream_step_mirrors:
  "as_native (stream_step is_model x sa) = fold (app_step is_model schema ev) (native_ops x) (as_native sa)"
proof (cases x)
  case (StreamRegister g name d stream auth rq rs async_mode allowed)
  then show ?thesis
    using stream_register_mirrors [of is_model g name d stream auth rq rs async_mode allowed sa]
    by (auto split: sum.splits)
next
  case (GetStreamApp has_extension)
  then show ?thesis by (auto simp: stream_function_app_def split: option.splits sum.splits)
qed

lemma stream_app_run_mirrors:
  "as_native (stream_app_run is_model ops sa) = app_run is_model schema ev (concat (map native_ops ops)) (as_native sa)"
  unfolding stream_app_run_def app_run_def
  by (induction ops arbitrary: sa) (simp_all add: stream_step_mirrors [of _ _ _ schema ev])

lemma stream_app_run_ok: "stream_app_ok sa \<Longrightarrow> stream_app_ok (stream_app_run is_model ops sa)"
  unfolding stream_app_run_def by (induction ops arbitrary: sa) (simp_all add: stream_step_ok)

lemma native_names_distinct:
  assumes "app_ok is_model schema ev ap" "ap_triggers ap = []" "\<not> ap_platform ap"
  shows "distinct (map fe_name (app_functions is_model schema ap))"
proof -
  have "\<forall>(name, reg) \<in> set (ap_registrations ap). reg_name reg = name" "dict_ok (ap_registrations ap)"
    using assms(1) by (fastforce simp: app_ok_def registration_ok_def)+
  then have "distinct (map graph_function_name (served ap))"
    using served_distinct inj_on_subset [OF graph_function_name_inject] by (simp add: served_eq distinct_map)
  then have "distinct (fixed_names ap @ map graph_function_name (served ap))"
    using fixed_distinct [of ap] graph_not_fixed [where ap = ap] by auto
  moreover have "mset (map fe_name (app_functions is_model schema ap)) = mset (fixed_names ap @ map graph_function_name (served ap))"
    using names_by_kind [of is_model schema ap] assms(2,3) by (simp add: bus_names_def platform_names_def)
  ultimately show ?thesis by (metis mset_eq_imp_distinct_iff)
qed

text \<open>
  C38: A streaming application is at every moment the native application that got the same
  registrations: it accepts and refuses the same graphs, and its function app, never stale, has the
  native functions under the same names, URLs, verbs and access levels, but for the thread-state routes and the metadata. Its
  function names never clash.
\<close>

theorem streaming_app_mirrors:
  assumes "constructed_stream ev sa"
  shows "let sa' = stream_app_run is_model ops sa;
      ap' = app_run is_model schema ev (concat (map native_ops ops)) (as_native sa);
      fs = map bare (filter (\<lambda>fe. \<not> serves_state fe) (app_functions is_model schema ap')) in
    as_native sa' = ap' \<and> fst (stream_function_app True sa') = Inr fs \<and> distinct (map fe_name fs)"
proof -
  let ?sa' = "stream_app_run is_model ops sa"
  let ?ap' = "app_run is_model schema ev (concat (map native_ops ops)) (as_native sa)"
  let ?fs = "map bare (filter (\<lambda>fe. \<not> serves_state fe) (app_functions is_model schema ?ap'))"
  have same: "as_native ?sa' = ?ap'" by (rule stream_app_run_mirrors)
  have "stream_app_ok ?sa'" by (rule stream_app_run_ok [OF constructed_stream_ok [OF assms]])
  then have "fst (stream_function_app True ?sa') = Inr (stream_functions ?sa')"
    by (auto simp: stream_app_ok_def stream_function_app_def build_stream_app_def split: option.splits)
  then have "fst (stream_function_app True ?sa') = Inr ?fs"
    unfolding stream_functions_mirror [of ?sa' is_model schema] same .
  moreover have "distinct (map fe_name ?fs)"
  proof -
    have "app_ok is_model schema ev ?ap'" by (rule app_run_ok [OF constructed_native [OF assms]])
    moreover have "ap_triggers ?ap' = []" "\<not> ap_platform ?ap'" unfolding same [symmetric] by (simp_all add: as_native_def)
    ultimately have "distinct (map fe_name (app_functions is_model schema ?ap'))" by (rule native_names_distinct)
    then have "distinct (map fe_name (filter (\<lambda>fe. \<not> serves_state fe) (app_functions is_model schema ?ap')))"
      by (rule distinct_map_filter)
    then show ?thesis by (simp add: comp_def bare_def)
  qed
  ultimately show ?thesis using same unfolding Let_def by blast
qed

definition example_stream_app :: stream_app where
  "example_stream_app =
     \<lparr>sa_auth = FunctionLevel, sa_health_auth = AnonymousLevel, sa_details_auth = None,
      sa_limits = \<lparr>sl_body = 1048576, sl_depth = 32, sl_nodes = 10000, sl_events = 100000\<rparr>, sa_lock = Some (OtherLock 3),
      sa_prefix = ''/api'', sa_registrations = [], sa_built = None\<rparr>"

lemma example_stream_constructed: "constructed_stream example_env example_stream_app"
proof -
  have "normalized_prefix ''/api'' = ''/api''" by (simp add: normalized_prefix_def)
  then have "stream_post_init example_env example_stream_app = Inr (example_stream_app, [])"
    by (simp add: stream_post_init_def example_stream_app_def Let_def)
  then show ?thesis unfolding constructed_stream_def by (intro exI conjI) (auto simp: example_stream_app_def)
qed

lemma streaming_app_mirrors_witness:
  "let sa' = stream_app_run (\<lambda>_. True)
      [GetStreamApp True, StreamRegister example_graph ''agent'' None True None None None False []] example_stream_app in
    distinct (map fe_name (stream_functions sa'))"
proof -
  let ?ops = "[GetStreamApp True, StreamRegister example_graph ''agent'' None True None None None False []]"
  note mirrors = streaming_app_mirrors [OF example_stream_constructed, of "\<lambda>_. True" ?ops example_schema, unfolded Let_def]
  show ?thesis unfolding Let_def stream_functions_mirror [where is_model = "\<lambda>_. True" and schema = example_schema]
    using mirrors by simp
qed

end
