(* ===== verification/Saver_Factories.thy ===== *)
theory Saver_Factories
  imports Application
begin

text \<open>
  The factories of savers that other packages implement: \<^verbatim>\<open>checkpointers/cosmos.py\<close>, \<^verbatim>\<open>postgres.py\<close> and
  \<^verbatim>\<open>sqlite.py\<close>. Those packages, the Azure SDK and \<^verbatim>\<open>urllib3\<close> are records of functions on a world that holds
  the process environment, so that a constructor may read and write it; \<^verbatim>\<open>urllib.parse\<close> is modelled (Python 3.11 and
  later), but for its check of a bracketed address. Warnings and the saver's weak reference are left out: a managed
  saver is one that is alive.
\<close>

section \<open>The host of an endpoint\<close>

definition is_scheme_char :: "char \<Rightarrow> bool" where
  "is_scheme_char c \<longleftrightarrow> is_letter c \<or> (CHR ''0'' \<le> c \<and> c \<le> CHR ''9'') \<or> c \<in> {CHR ''+'', CHR ''-'', CHR ''.''}"

text \<open>\<open>urlsplit\<close> up to its network location; \<open>None\<close> is the \<^verbatim>\<open>ValueError\<close> of a broken bracket.\<close>

definition without_scheme :: "string \<Rightarrow> string" where
  "without_scheme url =
     (let scheme = takeWhile (\<lambda>c. c \<noteq> CHR '':'') url
      in if CHR '':'' \<in> set url \<and> scheme \<noteq> [] \<and> is_letter (hd scheme) \<and> list_all is_scheme_char scheme
         then drop (Suc (length scheme)) url else url)"

definition url_netloc :: "(string \<Rightarrow> bool) \<Rightarrow> string \<Rightarrow> string option" where
  "url_netloc bracket_ok endpoint =
     (let url = filter (\<lambda>c. c \<notin> {CHR 0x09, CHR 0x0A, CHR 0x0D}) (dropWhile (\<lambda>c. c \<le> CHR '' '') endpoint);
          rest = without_scheme url;
          netloc = (if take 2 rest = ''//'' then takeWhile (\<lambda>c. c \<notin> {CHR ''/'', CHR ''?'', CHR ''#''}) (drop 2 rest) else [])
      in if (CHR ''['' \<in> set netloc) \<noteq> (CHR '']'' \<in> set netloc) then None
         else if CHR ''['' \<in> set netloc \<and> \<not> bracket_ok netloc then None
         else Some netloc)"

text \<open>\<open>s.partition(c)\<close>: what stands before and after the first \<open>c\<close>; \<open>s.rpartition(c)[2]\<close>.\<close>

definition before_char :: "char \<Rightarrow> string \<Rightarrow> string" where
  "before_char c s = takeWhile (\<lambda>d. d \<noteq> c) s"

definition after_char :: "char \<Rightarrow> string \<Rightarrow> string" where
  "after_char c s = drop (Suc (length (before_char c s))) s"

definition after_last :: "char \<Rightarrow> string \<Rightarrow> string" where
  "after_last c s = rev (before_char c (rev s))"

definition url_hostname :: "string \<Rightarrow> string option" where
  "url_hostname netloc =
     (let hostinfo = after_last CHR ''@'' netloc;
          host = (if CHR ''['' \<in> set hostinfo then before_char CHR '']'' (after_char CHR ''['' hostinfo)
                  else before_char CHR '':'' hostinfo)
      in if host = [] then None
         else if CHR ''%'' \<in> set host
         then Some (map lower_char (before_char CHR ''%'' host) @ CHR ''%'' # after_char CHR ''%'' host)
         else Some (map lower_char host))"

definition strip_brackets :: "string \<Rightarrow> string" where
  "strip_brackets s =
     (let b = (\<lambda>c. c \<in> {CHR ''['', CHR '']''}) in rev (dropWhile b (rev (dropWhile b s))))"

definition loopback_hosts :: "string list" where
  "loopback_hosts = [''localhost'', ''127.0.0.1'', ''::1'']"

text \<open>\<open>parse_url\<close> is \<^verbatim>\<open>urllib3.util.parse_url(endpoint).host\<close>. A \<^verbatim>\<open>ValueError\<close> is \<open>Inl ()\<close>.\<close>

type_synonym url_parser = "string \<Rightarrow> exn + string option"

definition endpoint_host :: "(string \<Rightarrow> bool) \<Rightarrow> url_parser \<Rightarrow> string \<Rightarrow> unit + string option" where
  "endpoint_host bracket_ok parse_url endpoint =
     (if \<not> list_all (\<lambda>c. CHR '' '' \<le> c \<and> c \<le> CHR ''~'') endpoint then Inl ()
      else if list_ex (\<lambda>c. is_white c \<or> c = CHR 0x5C) endpoint then Inl ()
      else
        case url_netloc bracket_ok endpoint of
          None \<Rightarrow> Inl ()
        | Some netloc \<Rightarrow>
            if CHR ''@'' \<in> set netloc then Inl ()
            else
              let host = url_hostname netloc; split_host = url_hostname netloc
              in case parse_url endpoint of
                   Inl e \<Rightarrow> Inl ()
                 | Inr h \<Rightarrow>
                     let url_host = (case h of None \<Rightarrow> None | Some s \<Rightarrow> if s = [] then None else Some (map lower_char (strip_brackets s)))
                     in if host \<noteq> split_host \<or> host \<noteq> url_host then Inl () else Inr host)"

definition is_loopback_endpoint :: "(string \<Rightarrow> bool) \<Rightarrow> url_parser \<Rightarrow> string \<Rightarrow> bool" where
  "is_loopback_endpoint bracket_ok parse_url endpoint =
     (case endpoint_host bracket_ok parse_url endpoint of
        Inl u \<Rightarrow> False
      | Inr None \<Rightarrow> False
      | Inr (Some h) \<Rightarrow> h \<in> set loopback_hosts)"

section \<open>Environment\<close>

record 's py_world =
  pw_env :: "string dict"
  pw_rest :: 's

definition get_env :: "string \<Rightarrow> 's py_world \<Rightarrow> string option" where
  "get_env k w = map_of (pw_env w) k"

text \<open>\<open>os.environ[k] = v\<close> refuses a NUL character.\<close>

definition set_env :: "string \<Rightarrow> string \<Rightarrow> 's py_world \<Rightarrow> (exn + unit) \<times> 's py_world" where
  "set_env k v w =
     (if CHR 0x00 \<in> set v then (Inl (Exn ''ValueError'' ''embedded null byte''), w)
      else (Inr (), w\<lparr>pw_env := AList.update k v (pw_env w)\<rparr>))"

definition restore_env :: "string \<Rightarrow> string option \<Rightarrow> 's py_world \<Rightarrow> 's py_world" where
  "restore_env k old w =
     w\<lparr>pw_env := (case old of None \<Rightarrow> AList.delete k (pw_env w) | Some v \<Rightarrow> AList.update k v (pw_env w))\<rparr>"

definition endpoint_key :: string where "endpoint_key = ''COSMOSDB_ENDPOINT''"

definition account_key :: string where "account_key = ''COSMOSDB_KEY''"

section \<open>The Cosmos factory\<close>

text \<open>What importing the saver's package gives: nothing, no class, or the class.\<close>

datatype saver_module = PackageMissing | ClassMissing | ClassFound

record 's cosmos_sdk =
  co_bracket_ok :: "string \<Rightarrow> bool"
  co_parse_url :: url_parser
  co_module :: saver_module
  co_new :: "string \<Rightarrow> string \<Rightarrow> 's py_world \<Rightarrow> (exn + nat) \<times> 's py_world"
  co_azure :: bool
  co_client :: "nat \<Rightarrow> 's py_world \<Rightarrow> nat"
  co_unverified :: "string \<Rightarrow> string \<Rightarrow> 's py_world \<Rightarrow> (exn + nat) \<times> 's py_world"
  co_close :: "nat \<Rightarrow> 's py_world \<Rightarrow> (exn + unit) \<times> 's py_world"
  co_replace :: "nat \<Rightarrow> nat \<Rightarrow> 's py_world \<Rightarrow> 's py_world"
  co_database :: "nat \<Rightarrow> string \<Rightarrow> 's py_world \<Rightarrow> (exn + unit) \<times> 's py_world"
  co_container :: "nat \<Rightarrow> string \<Rightarrow> 's py_world \<Rightarrow> (exn + unit) \<times> 's py_world"
  co_weakref :: bool
  co_settable :: bool
  co_saver_close :: "(nat \<Rightarrow> 's py_world \<Rightarrow> (exn + unit) \<times> 's py_world) option"
  co_client_closes :: bool

datatype cosmos_error = BothKeys | BadCredential | NoKey | BadEndpoint | NoPackage | NoClass | SdkRaised exn

text \<open>The key: the parameter, then the deprecated credential, then the environment.\<close>

definition resolve_key :: "string option \<Rightarrow> pyval \<Rightarrow> 's py_world \<Rightarrow> cosmos_error + string" where
  "resolve_key key credential w =
     (if key \<noteq> None \<and> credential \<noteq> PNone then Inl BothKeys
      else
        case (if credential \<noteq> PNone
              then (case credential of PStr s \<Rightarrow> Inr (Some s) | _ \<Rightarrow> Inl BadCredential) else Inr key) of
          Inl e \<Rightarrow> Inl e
        | Inr (Some s) \<Rightarrow> Inr s
        | Inr None \<Rightarrow> (case get_env ''COSMOS_KEY'' w of None \<Rightarrow> Inl NoKey | Some s \<Rightarrow> Inr s))"

text \<open>Sequencing of calls that may raise.\<close>

definition and_then ::
    "(exn + 'a) \<times> 's py_world \<Rightarrow> ('a \<Rightarrow> 's py_world \<Rightarrow> (exn + 'b) \<times> 's py_world) \<Rightarrow> (exn + 'b) \<times> 's py_world" where
  "and_then r f = (case r of (Inl e, w) \<Rightarrow> (Inl e, w) | (Inr a, w) \<Rightarrow> f a w)"

text \<open>The client without certificate checks; a failing close of the first client closes the second too.\<close>

definition replace_client ::
    "'s cosmos_sdk \<Rightarrow> string \<Rightarrow> string \<Rightarrow> string \<Rightarrow> string \<Rightarrow> nat \<Rightarrow> 's py_world \<Rightarrow> (exn + unit) \<times> 's py_world" where
  "replace_client sdk endpoint key db container saver w =
     (if \<not> co_azure sdk then (Inl (Exn ''ImportError'' ''azure.cosmos''), w)
      else
        let original = co_client sdk saver w
        in and_then (co_unverified sdk endpoint key w) (\<lambda>replacement w1.
             case co_close sdk original w1 of
               (Inl e, w2) \<Rightarrow>
                 (case co_close sdk replacement w2 of (Inl e', w3) \<Rightarrow> (Inl e', w3) | (Inr _, w3) \<Rightarrow> (Inl e, w3))
             | (Inr _, w2) \<Rightarrow>
                 and_then (co_database sdk saver db (co_replace sdk saver replacement w2))
                   (\<lambda>_. co_container sdk saver container)))"

definition ssl_disabled :: "'s py_world \<Rightarrow> bool" where
  "ssl_disabled w \<longleftrightarrow>
     map lower_char (case get_env ''COSMOS_DISABLE_SSL'' w of None \<Rightarrow> [] | Some v \<Rightarrow> v) \<in> {''true'', ''1'', ''yes''}"

definition build_saver ::
    "'s cosmos_sdk \<Rightarrow> string \<Rightarrow> string \<Rightarrow> string \<Rightarrow> string \<Rightarrow> 's py_world \<Rightarrow> (exn + nat) \<times> 's py_world" where
  "build_saver sdk endpoint key db container w =
     and_then (set_env endpoint_key endpoint w) (\<lambda>_ w1.
     and_then (set_env account_key key w1) (\<lambda>_ w2.
     and_then (co_new sdk db container w2) (\<lambda>saver w3.
       if ssl_disabled w3 \<and> is_loopback_endpoint (co_bracket_ok sdk) (co_parse_url sdk) endpoint
       then and_then (replace_client sdk endpoint key db container saver w3) (\<lambda>_ w4. (Inr saver, w4))
       else (Inr saver, w3))))"

definition wired_saver ::
    "'s cosmos_sdk \<Rightarrow> string \<Rightarrow> string \<Rightarrow> string \<Rightarrow> string \<Rightarrow> 's py_world \<Rightarrow> (exn + nat) \<times> 's py_world" where
  "wired_saver sdk endpoint key db container w =
     (let old_endpoint = get_env endpoint_key w; old_key = get_env account_key w;
          (r, w1) = build_saver sdk endpoint key db container w
      in (r, restore_env account_key old_key (restore_env endpoint_key old_endpoint w1)))"

text \<open>The savers of the factory: the weak set, the marks on savers that cannot be in it, those that are closed.\<close>

record cosmos_helper =
  ch_managed :: "nat list"
  ch_fallback :: bool
  ch_marked :: "nat list"
  ch_closed :: "nat list"

definition track_saver :: "'s cosmos_sdk \<Rightarrow> nat \<Rightarrow> cosmos_helper \<Rightarrow> (exn + unit) \<times> cosmos_helper" where
  "track_saver sdk saver h =
     (if \<not> ch_fallback h \<and> co_weakref sdk then (Inr (), h\<lparr>ch_managed := List.insert saver (ch_managed h)\<rparr>)
      else
        let h' = h\<lparr>ch_fallback := True\<rparr>
        in if co_settable sdk then (Inr (), h'\<lparr>ch_marked := List.insert saver (ch_marked h')\<rparr>)
           else (Inl (Exn ''AttributeError'' ''_managed_by_cosmos_helper''), h'))"

definition create_cosmos_checkpointer ::
    "'s cosmos_sdk \<Rightarrow> string \<Rightarrow> string option \<Rightarrow> pyval \<Rightarrow> string \<Rightarrow> string \<Rightarrow> 's py_world \<Rightarrow> cosmos_helper \<Rightarrow>
     (cosmos_error + nat) \<times> 's py_world \<times> cosmos_helper" where
  "create_cosmos_checkpointer sdk endpoint key credential db container w h =
     (case resolve_key key credential w of
        Inl e \<Rightarrow> (Inl e, w, h)
      | Inr resolved \<Rightarrow>
          if endpoint_host (co_bracket_ok sdk) (co_parse_url sdk) endpoint = Inl () then (Inl BadEndpoint, w, h)
          else if co_module sdk = PackageMissing then (Inl NoPackage, w, h)
          else if co_module sdk = ClassMissing then (Inl NoClass, w, h)
          else
            case wired_saver sdk endpoint resolved db container w of
              (Inl e, w1) \<Rightarrow> (Inl (SdkRaised e), w1, h)
            | (Inr saver, w1) \<Rightarrow>
                (case track_saver sdk saver h of
                   (Inl e, h1) \<Rightarrow> (Inl (SdkRaised e), w1, h1)
                 | (Inr _, h1) \<Rightarrow> (Inr saver, w1, h1)))"

datatype close_error = NotManaged | CloseRaised exn

definition close_cosmos_checkpointer ::
    "'s cosmos_sdk \<Rightarrow> nat \<Rightarrow> 's py_world \<Rightarrow> cosmos_helper \<Rightarrow> (close_error + unit) \<times> 's py_world \<times> cosmos_helper" where
  "close_cosmos_checkpointer sdk saver w h =
     (if saver \<in> set (ch_closed h) then (Inr (), w, h)
      else if saver \<notin> set (ch_managed h) \<and> saver \<notin> set (ch_marked h) then (Inl NotManaged, w, h)
      else
        let (r, w1) = (case co_saver_close sdk of
              Some close \<Rightarrow> close saver w
            | None \<Rightarrow> if co_client_closes sdk then co_close sdk (co_client sdk saver w) w else (Inr (), w))
        in case r of
             Inl e \<Rightarrow> (Inl (CloseRaised e), w1, h)
           | Inr _ \<Rightarrow>
               if co_settable sdk
               then (Inr (), w1, h\<lparr>ch_closed := List.insert saver (ch_closed h), ch_managed := remove1 saver (ch_managed h)\<rparr>)
               else (Inl (CloseRaised (Exn ''AttributeError'' ''_cosmos_helper_closed'')), w1, h))"


section \<open>The Postgres and SQLite factories\<close>

text \<open>\<open>sv_has\<close>: the module can be imported and has the attribute that is asked for.\<close>

record 's saver_package =
  sv_present :: "string \<Rightarrow> bool"
  sv_has :: "string \<Rightarrow> string \<Rightarrow> bool"
  sv_connect :: "string \<Rightarrow> pyval dict \<Rightarrow> 's \<Rightarrow> (exn + nat) \<times> 's"
  sv_saver :: "nat \<Rightarrow> 's \<Rightarrow> (exn + nat) \<times> 's"
  sv_setup :: "nat \<Rightarrow> 's \<Rightarrow> (exn + unit) \<times> 's"

datatype factory_error = ExtraHint | LacksAttribute string string | FactoryRaised exn

definition open_saver ::
    "'s saver_package \<Rightarrow> string \<Rightarrow> pyval dict \<Rightarrow> bool \<Rightarrow> 's \<Rightarrow> (factory_error + nat) \<times> 's" where
  "open_saver pk conn_string options run_setup x =
     (case sv_connect pk conn_string options x of
        (Inl e, x1) \<Rightarrow> (Inl (FactoryRaised e), x1)
      | (Inr conn, x1) \<Rightarrow>
          case sv_saver pk conn x1 of
            (Inl e, x2) \<Rightarrow> (Inl (FactoryRaised e), x2)
          | (Inr saver, x2) \<Rightarrow>
              if run_setup
              then (case sv_setup pk saver x2 of (Inl e, x3) \<Rightarrow> (Inl (FactoryRaised e), x3) | (Inr _, x3) \<Rightarrow> (Inr saver, x3))
              else (Inr saver, x2))"

definition postgres_error :: "'s saver_package \<Rightarrow> factory_error option" where
  "postgres_error pk =
     (if \<not> sv_present pk ''langgraph.checkpoint.postgres'' \<or> \<not> sv_present pk ''psycopg'' then Some ExtraHint
      else if \<not> sv_has pk ''langgraph.checkpoint.postgres'' ''PostgresSaver''
      then Some (LacksAttribute ''langgraph.checkpoint.postgres'' ''PostgresSaver'')
      else if \<not> sv_has pk ''psycopg'' ''Connection'' then Some (LacksAttribute ''psycopg'' ''Connection'')
      else if \<not> sv_present pk ''psycopg.rows'' then Some ExtraHint
      else if \<not> sv_has pk ''psycopg.rows'' ''dict_row'' then Some (LacksAttribute ''psycopg.rows'' ''dict_row'')
      else None)"

text \<open>\<open>dict_row\<close> is the row factory of the driver.\<close>

definition create_postgres_checkpointer ::
    "'s saver_package \<Rightarrow> pyval \<Rightarrow> string \<Rightarrow> bool \<Rightarrow> bool \<Rightarrow> int option \<Rightarrow> 's \<Rightarrow> (factory_error + nat) \<times> 's" where
  "create_postgres_checkpointer pk dict_row conn_string run_setup autocommit threshold x =
     (case postgres_error pk of
        Some e \<Rightarrow> (Inl e, x)
      | None \<Rightarrow>
          open_saver pk conn_string
            [(''autocommit'', PBool autocommit), (''row_factory'', dict_row),
             (''prepare_threshold'', case threshold of None \<Rightarrow> PNone | Some n \<Rightarrow> PInt n)] run_setup x)"

definition create_sqlite_checkpointer ::
    "'s saver_package \<Rightarrow> string \<Rightarrow> bool \<Rightarrow> bool \<Rightarrow> 's \<Rightarrow> (factory_error + nat) \<times> 's" where
  "create_sqlite_checkpointer pk conn_string run_setup check_same_thread x =
     (if \<not> sv_present pk ''langgraph.checkpoint.sqlite'' then (Inl ExtraHint, x)
      else if \<not> sv_has pk ''langgraph.checkpoint.sqlite'' ''SqliteSaver''
      then (Inl (LacksAttribute ''langgraph.checkpoint.sqlite'' ''SqliteSaver''), x)
      else open_saver pk conn_string [(''check_same_thread'', PBool check_same_thread)] run_setup x)"

text \<open>A missing package is reported before anything is opened.\<close>

lemma open_saver_errors: "open_saver pk c options run_setup x = (Inl e, x') \<Longrightarrow> \<exists>y. e = FactoryRaised y"
  by (auto simp: open_saver_def split: prod.splits sum.splits if_splits)

lemma factories_import_first:
  assumes "\<And>x. e \<noteq> FactoryRaised x"
  shows "create_postgres_checkpointer pk row c run_setup ac pt x = (Inl e, x') \<Longrightarrow> x' = x"
    and "create_sqlite_checkpointer pk c run_setup same x = (Inl e, x') \<Longrightarrow> x' = x"
  using assms
  by (auto dest!: open_saver_errors simp: create_postgres_checkpointer_def create_sqlite_checkpointer_def split: option.splits if_splits)

section \<open>Properties\<close>

lemma get_env_restore [simp]: "get_env j (restore_env k old w) = (if j = k then old else get_env j w)"
  by (simp add: get_env_def restore_env_def split: option.split)

lemma key_names [simp]: "endpoint_key \<noteq> account_key" "account_key \<noteq> endpoint_key"
  by (simp_all add: endpoint_key_def account_key_def)

lemma wired_saver_env:
  assumes "wired_saver sdk endpoint key db container w = (r, w1)"
  shows "get_env ''COSMOSDB_ENDPOINT'' w1 = get_env ''COSMOSDB_ENDPOINT'' w" "get_env ''COSMOSDB_KEY'' w1 = get_env ''COSMOSDB_KEY'' w"
  using assms by (auto simp: wired_saver_def Let_def endpoint_key_def account_key_def split: prod.splits)

text \<open>
  C40: Whatever the saver's package and the SDK do, and however the factory ends, the two environment
  variables that carry the endpoint and the account key are afterwards as they were before.
\<close>

theorem cosmos_environment_restored:
  "let (r, w', h') = create_cosmos_checkpointer sdk endpoint key credential db container w h in
    get_env ''COSMOSDB_ENDPOINT'' w' = get_env ''COSMOSDB_ENDPOINT'' w \<and> get_env ''COSMOSDB_KEY'' w' = get_env ''COSMOSDB_KEY'' w"
  by (auto simp: create_cosmos_checkpointer_def dest: wired_saver_env split: sum.splits prod.splits)

lemma build_saver_verified:
  assumes "\<not> is_loopback_endpoint (co_bracket_ok sdk) (co_parse_url sdk) endpoint"
  shows "build_saver (sdk\<lparr>co_unverified := f\<rparr>) endpoint key db container w = build_saver sdk endpoint key db container w"
  using assms by (simp add: build_saver_def)

lemma endpoint_host_agreed:
  assumes "endpoint_host ok pu endpoint = Inr (Some host)"
  shows "\<exists>netloc parsed. url_netloc ok endpoint = Some netloc \<and> CHR ''@'' \<notin> set netloc \<and> url_hostname netloc = Some host \<and>
    pu endpoint = Inr (Some parsed) \<and> map lower_char (strip_brackets parsed) = host"
    and "list_all (\<lambda>c. CHR '' '' < c \<and> c \<le> CHR ''~'' \<and> c \<noteq> CHR 0x5C) endpoint"
proof -
  show "\<exists>netloc parsed. url_netloc ok endpoint = Some netloc \<and> CHR ''@'' \<notin> set netloc \<and> url_hostname netloc = Some host \<and>
    pu endpoint = Inr (Some parsed) \<and> map lower_char (strip_brackets parsed) = host"
    using assms by (auto simp: endpoint_host_def Let_def split: if_splits option.splits sum.splits)
  have "is_white CHR '' ''" by (simp add: is_white_def)
  then show "list_all (\<lambda>c. CHR '' '' < c \<and> c \<le> CHR ''~'' \<and> c \<noteq> CHR 0x5C) endpoint"
    using assms by (auto simp: endpoint_host_def list_all_iff list_ex_iff order_less_le split: if_splits)
qed

text \<open>
  C39: A client that does not verify certificates is only made for an endpoint that all three parsers of
  the URL take to the same loopback host, without user information or a character they could disagree on: for any
  other endpoint the constructor of such a client is not called.
\<close>

theorem unverified_only_loopback:
  "if is_loopback_endpoint (co_bracket_ok sdk) (co_parse_url sdk) endpoint
   then \<exists>netloc host parsed. url_netloc (co_bracket_ok sdk) endpoint = Some netloc \<and> CHR ''@'' \<notin> set netloc \<and>
     url_hostname netloc = Some host \<and> host \<in> set loopback_hosts \<and>
     co_parse_url sdk endpoint = Inr (Some parsed) \<and> map lower_char (strip_brackets parsed) = host \<and>
     list_all (\<lambda>c. CHR '' '' < c \<and> c \<le> CHR ''~'' \<and> c \<noteq> CHR 0x5C) endpoint
   else create_cosmos_checkpointer (sdk\<lparr>co_unverified := f\<rparr>) endpoint key credential db container w h =
     create_cosmos_checkpointer sdk endpoint key credential db container w h"
proof (cases "is_loopback_endpoint (co_bracket_ok sdk) (co_parse_url sdk) endpoint")
  case True
  then obtain host where e: "endpoint_host (co_bracket_ok sdk) (co_parse_url sdk) endpoint = Inr (Some host)"
    and l: "host \<in> set loopback_hosts"
    by (auto simp: is_loopback_endpoint_def split: sum.splits option.splits)
  show ?thesis using True endpoint_host_agreed [OF e] l by auto
next
  case False
  then show ?thesis
    by (simp add: create_cosmos_checkpointer_def wired_saver_def build_saver_verified track_saver_def
        cong: sum.case_cong prod.case_cong if_cong)
qed


text \<open>A saver the factory made is closed once: closing it again does nothing.\<close>

lemma closed_once:
  assumes "create_cosmos_checkpointer sdk endpoint key credential db container w h = (Inr saver, w1, h1)"
    and "close_cosmos_checkpointer sdk saver w1 h1 = (r, w2, h2)"
  shows "r \<noteq> Inl NotManaged" "r = Inr () \<Longrightarrow> close_cosmos_checkpointer sdk saver w3 h2 = (Inr (), w3, h2)"
proof -
  have "saver \<in> set (ch_managed h1) \<or> saver \<in> set (ch_marked h1)"
    using assms(1)
    by (auto simp: create_cosmos_checkpointer_def track_saver_def Let_def split: sum.splits prod.splits if_splits)
  then show "r \<noteq> Inl NotManaged"
    using assms(2) by (auto simp: close_cosmos_checkpointer_def Let_def split: if_splits prod.splits sum.splits)
  show "close_cosmos_checkpointer sdk saver w3 h2 = (Inr (), w3, h2)" if "r = Inr ()"
    using assms(2) that
    by (auto simp: close_cosmos_checkpointer_def Let_def split: if_splits prod.splits sum.splits)
qed

text \<open>Endpoints: the emulator's, one with user information, and one whose host only \<^verbatim>\<open>urllib3\<close> sees.\<close>

lemma endpoint_examples:
  "is_loopback_endpoint ok (\<lambda>_. Inr (Some ''localhost'')) ''https://localhost:8081/''"
  "is_loopback_endpoint (\<lambda>_. True) (\<lambda>_. Inr (Some ''[::1]'')) ''https://[::1]:8081/''"
  "\<not> is_loopback_endpoint ok pu ''https://localhost@evil.example/''"
  "\<not> is_loopback_endpoint ok (\<lambda>_. Inr (Some ''evil.example'')) ''https://localhost:8081/''"
  by (simp_all add: is_loopback_endpoint_def endpoint_host_def url_netloc_def without_scheme_def url_hostname_def
      is_letter_def is_scheme_char_def is_white_def after_last_def before_char_def after_char_def lower_char_def
      strip_brackets_def loopback_hosts_def less_eq_char_def Let_def)

end
