(* ===== verification/App_Runs.thy ===== *)
theory App_Runs
  imports App_Guarantees Native_Lifecycle
begin

text \<open>
  The functions of an application at work: the request handlers of \<open>LangGraphApp\<close>, which hand a request to
  \<open>Native_Handlers\<close> with the limits of the application, and what the table of functions and the handlers
  guarantee together.
\<close>

section \<open>The request handlers\<close>

definition with_limits :: "'s app_state \<Rightarrow> 's native \<Rightarrow> 's native" where
  "with_limits ap nv =
     nv\<lparr>nv_max_body := al_body (ap_limits ap), nv_max_depth := al_depth (ap_limits ap),
        nv_max_nodes := al_nodes (ap_limits ap), nv_max_stream := al_stream (ap_limits ap)\<rparr>"

type_synonym 's app_answer = "(app_error + (native_error, native_response) outcome) \<times> 's"

text \<open>The handlers of the run routes raise when the application has no lock.\<close>

definition when_locked ::
    "'s app_state \<Rightarrow> ('s \<Rightarrow> (native_error, native_response) outcome \<times> 's) \<Rightarrow> 's \<Rightarrow> 's app_answer" where
  "when_locked ap h x =
     (if ap_lock ap = None then (Inl LockMissing, x) else let (out, x1) = h x in (Inr out, x1))"

definition app_handle_invoke ::
    "'s app_state \<Rightarrow> 's native \<Rightarrow> 's lock_side \<Rightarrow> token \<Rightarrow> app_registration \<Rightarrow> http_request \<Rightarrow> 's \<Rightarrow> 's app_answer" where
  "app_handle_invoke ap nv lo tok reg req =
     when_locked ap (handle_invoke (with_limits ap nv) lo tok (native_registration.truncate reg) req)"

definition app_handle_invoke_async ::
    "'s app_state \<Rightarrow> 's native \<Rightarrow> 's lock_side \<Rightarrow> token \<Rightarrow> app_registration \<Rightarrow> http_request \<Rightarrow> 's \<Rightarrow> 's app_answer" where
  "app_handle_invoke_async ap nv lo tok reg req =
     when_locked ap (handle_invoke_async (with_limits ap nv) lo tok (native_registration.truncate reg) req)"

definition app_handle_stream ::
    "'s app_state \<Rightarrow> 's native \<Rightarrow> 's lock_side \<Rightarrow> token \<Rightarrow> app_registration \<Rightarrow> http_request \<Rightarrow> 's \<Rightarrow> 's app_answer" where
  "app_handle_stream ap nv lo tok reg req =
     when_locked ap (handle_stream (with_limits ap nv) lo tok (native_registration.truncate reg) req)"

definition app_handle_stream_async ::
    "'s app_state \<Rightarrow> 's native \<Rightarrow> 's lock_side \<Rightarrow> token \<Rightarrow> app_registration \<Rightarrow> http_request \<Rightarrow> 's \<Rightarrow> 's app_answer" where
  "app_handle_stream_async ap nv lo tok reg req =
     when_locked ap (handle_stream_async (with_limits ap nv) lo tok (native_registration.truncate reg) req)"

definition app_handle_state :: "'s native \<Rightarrow> app_registration \<Rightarrow> http_request \<Rightarrow> 's \<Rightarrow> 's app_answer" where
  "app_handle_state nv reg req x =
     (let (out, x1) = handle_state nv (native_registration.truncate reg) req x in (Inr out, x1))"

text \<open>What a function of a graph does with a request: the handler that was chosen when the route was built.\<close>

fun serve_graph ::
    "graph_endpoint \<Rightarrow> bool \<Rightarrow> 's app_state \<Rightarrow> 's native \<Rightarrow> 's lock_side \<Rightarrow> token \<Rightarrow> app_registration \<Rightarrow> http_request \<Rightarrow> 's \<Rightarrow>
     's app_answer" where
  "serve_graph InvokeRoute awaited = (if awaited then app_handle_invoke_async else app_handle_invoke)"
| "serve_graph StreamRoute awaited = (if awaited then app_handle_stream_async else app_handle_stream)"
| "serve_graph StateRoute awaited = (\<lambda>ap nv lo tok. app_handle_state nv)"

section \<open>Table and handlers together\<close>

lemma serve_graph_native:
  assumes "e \<noteq> StateRoute" "awaited = is_async reg" "ap_lock ap \<noteq> None"
  shows "serve_graph e awaited ap nv lo tok reg req x =
    (let (out, x1) = serve_native (endpoint_for (e = StreamRoute) (native_registration.truncate reg)) (with_limits ap nv) lo tok
       (native_registration.truncate reg) req x in (Inr out, x1))"
  using assms
  by (cases e) (auto simp: app_handle_invoke_def app_handle_invoke_async_def app_handle_stream_def
      app_handle_stream_async_def when_locked_def endpoint_for_def is_async_def native_registration.defs)

text \<open>Where a graph's function comes from.\<close>

lemma graph_handler_origin:
  assumes "fe \<in> set (app_functions is_model schema ap)" "fe_handler fe = GraphHandler e awaited reg"
  shows "\<exists>name. (name, reg) \<in> set (ap_registrations ap) \<and>
    fe = register_route is_model schema ap reg e awaited \<and> awaited = (is_async reg \<and> e \<noteq> StateRoute)"
proof -
  have "fe \<notin> set (health_functions ap)" "fe \<notin> set (platform_functions ap)" "fe \<notin> set durable_functions"
    "fe \<notin> set (map (\<lambda>(name, be). bus_function (reg_name (sb_reg be)) be) (ap_triggers ap))"
    using assms(2) by (auto simp: health_functions_def platform_functions_def durable_functions_def bus_function_def plain_function_def)
  then obtain name reg' where r: "(name, reg') \<in> set (ap_registrations ap)" "fe \<in> set (graph_functions is_model schema ap reg')"
    using assms(1) by (auto simp: app_functions_def split: if_splits)
  then have "reg' = reg \<and> fe = register_route is_model schema ap reg e awaited \<and> awaited = (is_async reg \<and> e \<noteq> StateRoute)"
    using assms(2) by (auto simp: graph_functions_def register_route_def Let_def split: if_splits)
  with r(1) show ?thesis by blast
qed

lemma native_keeps_limits: "native_keeps good view nv \<Longrightarrow> native_keeps good view (with_limits ap nv)"
  by (simp add: native_keeps_def with_limits_def)

lemma built_functions:
  assumes "constructed ev ap" "fst (function_app is_model schema ev (app_run is_model schema ev ops ap)) = Inr fs"
  shows "fs = app_functions is_model schema (app_run is_model schema ev ops ap)"
  using function_app_ok(2) [OF app_run_ok [OF assms(1)], of is_model schema ops] assms(2)
  by (auto simp: build_function_app_def split: sum.splits if_splits)

lemma sync_function_ends:
  "\<not> is_async reg \<Longrightarrow>
    ends_itself (fst (serve_native (endpoint_for b (native_registration.truncate reg)) nv lo tok (native_registration.truncate reg) req x))"
  by (simp add: endpoint_for_def is_async_def native_registration.defs sync_handlers_end)

text \<open>
  C15: Whatever was registered, each function that an application serves for a run of a graph belongs to a
  registered graph, finds the lock, and awaits the graph exactly when it has to be awaited; and of a request that it
  answers the observer hears once: a rejection alone, whose answer is an error, or a start and exactly one terminal
  event, a completion if the answer is a result or a stream without an error, a failure if it tells one. A function
  that does not await answers, unless its lock fails, of which nothing is heard, or a base exception passes; of a
  request without an answer no completion is ever heard, and of an exception at most a start.
\<close>

theorem app_runs_reported:
  assumes "constructed ev ap" "fst (function_app is_model schema ev (app_run is_model schema ev ops ap)) = Inr fs"
    and "fe \<in> set fs" "fe_handler fe = GraphHandler e awaited reg" "e \<noteq> StateRoute"
    and "lo_acquire lo = traced_acquire ip_acquire" "lo_release lo = traced_release ip_release"
    and "\<And>y. snd (lo_env lo y) = snd y" "nv_observe nv = record_event" "native_keeps (\<lambda>_. True) snd nv"
  shows "(reg_name reg, reg) \<in> set (ap_registrations (app_run is_model schema ev ops ap)) \<and> awaited = is_async reg \<and>
    (case serve_graph e awaited (app_run is_model schema ev ops ap) nv lo tok reg req (l, []) of
       (Inl err, x) \<Rightarrow> False
     | (Inr out, x) \<Rightarrow> heard out (snd x) \<and> (\<not> awaited \<longrightarrow> ends_itself out))"
proof -
  let ?ap' = "app_run is_model schema ev ops ap"
  have ok: "app_ok is_model schema ev ?ap'" by (rule app_run_ok [OF assms(1)])
  obtain name where n: "(name, reg) \<in> set (ap_registrations ?ap')" and a: "awaited = is_async reg"
    using graph_handler_origin [OF assms(3) [unfolded built_functions [OF assms(1,2)]] assms(4)] assms(5) by blast
  have "registration_ok is_model ?ap' name reg" using ok n by (auto simp: app_ok_def list_all_iff)
  then have "(reg_name reg, reg) \<in> set (ap_registrations ?ap')" using n by (simp add: registration_ok_def)
  moreover have lock: "ap_lock ?ap' \<noteq> None" using ok by (simp add: app_ok_def lock_ok_def)
  moreover have "nv_observe (with_limits ?ap' nv) = record_event" using assms(9) by (simp add: with_limits_def)
  ultimately show ?thesis
    using a native_lifecycle [OF assms(6-8) _ native_keeps_limits [OF assms(10)], of ?ap'
        "endpoint_for (e = StreamRoute) (native_registration.truncate reg)" tok "native_registration.truncate reg" req l]
      sync_function_ends [of reg "e = StreamRoute" "with_limits ?ap' nv" lo tok req "(l, [])"]
    unfolding serve_graph_native [OF assms(5) a lock] by (simp add: split_def Let_def)
qed

text \<open>An application with one graph, and a streamed run of it.\<close>

definition agent :: app_registration where
  "agent = new_registration App_Guarantees.example_graph ''agent'' None True None None None False []"

definition agent_app :: "inproc traced app_state" where
  "agent_app = (example_app False)\<lparr>ap_registrations := [(''agent'', agent)]\<rparr>"

lemma valid_agent: "validate_graph_name ''agent'' = None"
  by (simp add: validate_graph_name_def dollar_bodies_def graph_name_body_def is_name_char_def is_letter_def less_eq_char_def)

lemma agent_app_run:
  "app_run (\<lambda>_. True) example_schema example_env [example_register ''agent''] (example_app False) = agent_app"
  by (simp add: app_run_def example_register_def example_app_def example_fields_def register_def registration_error_def
      protocol_error_def validate_optional_model_def valid_agent any_exclusive_def App_Guarantees.example_graph_def agent_app_def agent_def Let_def)

lemma agent_app_fields: "ap_registrations agent_app = [(''agent'', agent)]" "ap_triggers agent_app = []" "\<not> ap_platform agent_app"
  "\<not> ap_durable agent_app" "ap_built agent_app = None"
  by (simp_all add: agent_app_def example_app_def example_fields_def)

lemma agent_app_functions:
  "fst (function_app (\<lambda>_. True) example_schema example_env agent_app) = Inr (app_functions (\<lambda>_. True) example_schema agent_app)"
  by (simp add: function_app_def build_function_app_def store_guard_def agent_app_fields)

lemma app_runs_reported_witness:
  "case serve_graph StreamRoute False agent_app (example_native record_event) example_lock_side ''tok'' agent braces (inproc_init, []) of
     (Inl err, x) \<Rightarrow> False
   | (Inr out, x) \<Rightarrow> heard out (snd x) \<and> ends_itself out"
proof -
  let ?fe = "register_route (\<lambda>_. True) example_schema agent_app agent StreamRoute False"
  have "\<not> is_async agent" "ng_stream_enabled agent"
    by (simp_all add: is_async_def agent_def new_registration_def App_Guarantees.example_graph_def)
  then have fe: "?fe \<in> set (app_functions (\<lambda>_. True) example_schema agent_app)"
    by (simp add: app_functions_def agent_app_fields graph_functions_def)
  have handler: "fe_handler ?fe = GraphHandler StreamRoute False agent" by (simp add: register_route_def Let_def)
  have "case serve_graph StreamRoute False agent_app (example_native record_event) example_lock_side ''tok'' agent braces (inproc_init, []) of
       (Inl err, x) \<Rightarrow> False
     | (Inr out, x) \<Rightarrow> heard out (snd x) \<and> (\<not> False \<longrightarrow> ends_itself out)"
    by (rule conjunct2 [OF conjunct2 [OF app_runs_reported [OF example_constructed, of "\<lambda>_. True" example_schema
            "[example_register ''agent'']" False, unfolded agent_app_run, OF agent_app_functions fe handler]]])
      (simp_all add: example_lock_side_def example_native_keeps, simp add: example_native_def native_with_def)
  then show ?thesis by (simp only: not_False_eq_True simp_thms)
qed

end
