(* ===== verification/Authorization.thy ===== *)
theory Authorization
  imports Streaming
begin

text \<open>
  What a policy may answer, and how the three adapters read it: \<^verbatim>\<open>authorization.py\<close> for called and awaited
  handlers, the fail-closed boundary of \<^verbatim>\<open>_run_authorization.py\<close> around both, and \<^verbatim>\<open>streaming_authorization.py\<close>. The
  handlers of the other theories take a policy that answers with a bool; here this is justified, and it is shown how far
  they agree when it answers with anything else.
\<close>

section \<open>Answers\<close>

text \<open>
  A bool, an awaitable with the outcome of awaiting it, or any other object. The awaitable is awaited on the
  loop of the request, or run to its end by \<^verbatim>\<open>asyncio.run\<close>, where a cancellation is an exception.
\<close>

datatype policy_answer = AnswerBool bool | AnswerAwaitable "(exn, pyval) outcome" | AnswerObject pyval

type_synonym ('c, 's) raw_policy = "'c \<Rightarrow> 's \<Rightarrow> (exn + policy_answer) \<times> 's"

definition not_awaitable :: exn where
  "not_awaitable = Exn ''TypeError'' ''object cannot be awaited''"

fun called_answer :: "policy_answer \<Rightarrow> (exn, pyval) outcome" where
  "called_answer (AnswerBool b) = Returned (PBool b)"
| "called_answer (AnswerAwaitable out) = (if out = Cancelled then Raised cancelled_exn else out)"
| "called_answer (AnswerObject v) = Raised not_awaitable"

fun awaited_answer :: "policy_answer \<Rightarrow> (exn, pyval) outcome" where
  "awaited_answer (AnswerBool b) = Returned (PBool b)"
| "awaited_answer (AnswerAwaitable out) = out"
| "awaited_answer (AnswerObject v) = Returned v"

section \<open>The status\<close>

text \<open>The \<open>try\<close> block: \<open>admits\<close> reads the value, and an unauthenticated caller gets 401.\<close>

fun answer_status :: "(pyval \<Rightarrow> bool) \<Rightarrow> (exn, pyval) outcome \<Rightarrow> (exn, nat option) outcome" where
  "answer_status admits (Returned v) = Returned (if admits v then None else Some 403)"
| "answer_status admits (Raised e) = (if exn_type e = ''UnauthenticatedError'' then Returned (Some 401) else Raised e)"
| "answer_status admits Cancelled = Cancelled"
| "answer_status admits Pending = Pending"

definition policy_status ::
    "(pyval \<Rightarrow> bool) \<Rightarrow> (policy_answer \<Rightarrow> (exn, pyval) outcome) \<Rightarrow> ('c, 's) raw_policy option \<Rightarrow> 'c \<Rightarrow> 's \<Rightarrow>
     (exn, nat option) outcome \<times> 's" where
  "policy_status admits read authorize c x =
     (case authorize of
        None \<Rightarrow> (Returned None, x)
      | Some p \<Rightarrow>
          (case p c x of
             (Inl e, x1) \<Rightarrow> (answer_status admits (Raised e), x1)
           | (Inr a, x1) \<Rightarrow> (answer_status admits (read a), x1)))"

text \<open>\<open>authorization_status\<close> and \<open>authorization_status_async\<close>.\<close>

definition sync_status :: "('c, 's) raw_policy option \<Rightarrow> 'c \<Rightarrow> 's \<Rightarrow> (exn, nat option) outcome \<times> 's" where
  "sync_status = policy_status truthy called_answer"

definition async_status :: "('c, 's) raw_policy option \<Rightarrow> 'c \<Rightarrow> 's \<Rightarrow> (exn, nat option) outcome \<times> 's" where
  "async_status = policy_status truthy awaited_answer"

text \<open>The boundary: \<^verbatim>\<open>except Exception\<close> gives 500.\<close>

fun close_boundary :: "(exn, nat option) outcome \<Rightarrow> (exn, nat option) outcome" where
  "close_boundary (Raised e) = (if base_exn e then Raised e else Returned (Some 500))"
| "close_boundary out = out"

definition native_sync_status :: "('c, 's) raw_policy option \<Rightarrow> 'c \<Rightarrow> 's \<Rightarrow> (exn, nat option) outcome \<times> 's" where
  "native_sync_status authorize c x = (let (out, x1) = sync_status authorize c x in (close_boundary out, x1))"

definition native_async_status :: "('c, 's) raw_policy option \<Rightarrow> 'c \<Rightarrow> 's \<Rightarrow> (exn, nat option) outcome \<times> 's" where
  "native_async_status authorize c x = (let (out, x1) = async_status authorize c x in (close_boundary out, x1))"

text \<open>\<open>_authorization_status\<close> of \<^verbatim>\<open>streaming_authorization.py\<close>: only \<^verbatim>\<open>True\<close> admits.\<close>

definition is_true :: "pyval \<Rightarrow> bool" where
  "is_true v \<longleftrightarrow> v = PBool True"

definition streaming_status :: "('c, 's) raw_policy option \<Rightarrow> 'c \<Rightarrow> 's \<Rightarrow> (exn, nat option) outcome \<times> 's" where
  "streaming_status authorize c x =
     (let (out, x1) = policy_status is_true awaited_answer authorize c x in (close_boundary out, x1))"

section \<open>Policies that answer with a bool\<close>

fun bool_answer :: "policy_answer \<Rightarrow> bool" where
  "bool_answer (AnswerBool b) \<longleftrightarrow> True"
| "bool_answer (AnswerAwaitable out) \<longleftrightarrow> (\<forall>v. out = Returned v \<longrightarrow> (\<exists>b. v = PBool b))"
| "bool_answer (AnswerObject v) \<longleftrightarrow> False"

definition answers_bool :: "('c, 's) raw_policy \<Rightarrow> bool" where
  "answers_bool p \<longleftrightarrow> (\<forall>c x. pred_sum (\<lambda>_. True) bool_answer (fst (p c x)))"

text \<open>The policies of the other theories: the outcome is a bool.\<close>

definition bool_outcome :: "(exn, pyval) outcome \<Rightarrow> (exn, bool) outcome" where
  "bool_outcome out =
     (case out of Returned v \<Rightarrow> Returned (is_true v) | Raised e \<Rightarrow> Raised e | Cancelled \<Rightarrow> Cancelled | Pending \<Rightarrow> Pending)"

definition as_policy :: "(policy_answer \<Rightarrow> (exn, pyval) outcome) \<Rightarrow> ('c, 's) raw_policy \<Rightarrow> 'c \<Rightarrow> 's \<Rightarrow> (exn, bool) outcome \<times> 's" where
  "as_policy read p c x = (case p c x of (Inl e, x1) \<Rightarrow> (Raised e, x1) | (Inr a, x1) \<Rightarrow> (bool_outcome (read a), x1))"


lemma bool_status:
  assumes "\<And>v. out = Returned v \<Longrightarrow> \<exists>b. v = PBool b"
  shows "close_boundary (answer_status truthy out) = native_status (bool_outcome out)"
    and "answer_status is_true out = answer_status truthy out"
  using assms by (cases out; auto simp: bool_outcome_def is_true_def)+

lemma bool_answerD:
  assumes "bool_answer a"
  shows "called_answer a = Returned v \<Longrightarrow> \<exists>b. v = PBool b" "awaited_answer a = Returned v \<Longrightarrow> \<exists>b. v = PBool b"
  using assms by (cases a; auto split: if_splits)+

lemma raised_status: "close_boundary (answer_status admits (Raised e)) = native_status (Raised e)"
  by simp

section \<open>Properties\<close>

text \<open>Who is let in, by what a policy answers with.\<close>

lemma sync_admits:
  "fst (native_sync_status (Some p) c x) = Returned None \<longleftrightarrow>
    (\<exists>a. fst (p c x) = Inr a \<and> (a = AnswerBool True \<or> (\<exists>v. a = AnswerAwaitable (Returned v) \<and> truthy v)))"
proof -
  obtain r x1 where r: "p c x = (r, x1)" by (rule prod.exhaust)
  note defs = native_sync_status_def sync_status_def policy_status_def
  show ?thesis
  proof (cases r)
    case (Inr a)
    show ?thesis
    proof (cases a)
      case (AnswerAwaitable out)
      with r Inr show ?thesis by (cases out) (auto simp: defs)
    qed (use r Inr in \<open>auto simp: defs not_awaitable_def\<close>)
  qed (use r in \<open>auto simp: defs\<close>)
qed

lemma awaited_admits:
  assumes "admits (PBool True)" "\<not> admits (PBool False)"
  shows "fst (let (out, x1) = policy_status admits awaited_answer (Some p) c x in (close_boundary out, x1)) = Returned None \<longleftrightarrow>
    (\<exists>a. fst (p c x) = Inr a \<and> (a = AnswerBool True \<or> (\<exists>v. a \<in> {AnswerAwaitable (Returned v), AnswerObject v} \<and> admits v)))"
proof -
  obtain r x1 where r: "p c x = (r, x1)" by (rule prod.exhaust)
  show ?thesis
  proof (cases r)
    case (Inr a)
    show ?thesis
    proof (cases a)
      case (AnswerBool b)
      with r Inr assms show ?thesis by (cases b) (auto simp: policy_status_def)
    next
      case (AnswerAwaitable out)
      with r Inr show ?thesis by (cases out) (auto simp: policy_status_def)
    qed (use r Inr in \<open>auto simp: policy_status_def\<close>)
  qed (use r in \<open>auto simp: policy_status_def\<close>)
qed

text \<open>On a bool, at once or awaited, the called adapter does what the awaiting one does; only a cancellation is told differently.\<close>

lemma sync_async_agree:
  assumes "answers_bool p" "fst (p c x) \<noteq> Inr (AnswerAwaitable Cancelled)"
  shows "native_sync_status (Some p) c x = native_async_status (Some p) c x"
proof -
  obtain r x1 where r: "p c x = (r, x1)" by (rule prod.exhaust)
  note defs = native_sync_status_def native_async_status_def sync_status_def async_status_def policy_status_def
  show ?thesis
  proof (cases r)
    case (Inr a)
    have "pred_sum (\<lambda>_. True) bool_answer (fst (p c x))" using assms(1) by (simp only: answers_bool_def)
    with r Inr have "bool_answer a" by simp
    with assms(2) r Inr show ?thesis by (cases a) (auto simp: defs)
  qed (use r in \<open>simp add: defs\<close>)
qed

text \<open>
  C20: For a policy that answers with a bool, at once or awaited, the boundaries of the called and of the awaiting
  handlers and true streaming all give the same status, the one that the handlers of \<open>Native_Handlers\<close> work
  with, unless the awaited check is cancelled. Whatever a policy answers: the called handlers let in exactly on \<^verbatim>\<open>True\<close> and on an
  awaitable whose result is true; the awaiting ones also on any other true object; true streaming exactly on
  \<^verbatim>\<open>True\<close>, at once or awaited.
\<close>

theorem policies_agree:
  fixes p :: "(string option \<times> http_request, 's) raw_policy"
  shows "(answers_bool p \<longrightarrow>
      native_authorization (Some (\<lambda>tid req. as_policy called_answer p (tid, req))) tid req x = native_sync_status (Some p) (tid, req) x \<and>
      native_authorization (Some (\<lambda>tid req. as_policy awaited_answer p (tid, req))) tid req x = native_async_status (Some p) (tid, req) x \<and>
      streaming_status (Some p) (tid, req) x = native_async_status (Some p) (tid, req) x \<and>
      (fst (p (tid, req) x) \<noteq> Inr (AnswerAwaitable Cancelled) \<longrightarrow>
        native_sync_status (Some p) (tid, req) x = native_async_status (Some p) (tid, req) x)) \<and>
    (fst (native_sync_status (Some p) (tid, req) x) = Returned None \<longleftrightarrow>
      (\<exists>a. fst (p (tid, req) x) = Inr a \<and> (a = AnswerBool True \<or> (\<exists>v. a = AnswerAwaitable (Returned v) \<and> truthy v)))) \<and>
    (fst (native_async_status (Some p) (tid, req) x) = Returned None \<longleftrightarrow>
      (\<exists>a. fst (p (tid, req) x) = Inr a \<and>
        (a = AnswerBool True \<or> (\<exists>v. a \<in> {AnswerAwaitable (Returned v), AnswerObject v} \<and> truthy v)))) \<and>
    (fst (streaming_status (Some p) (tid, req) x) = Returned None \<longleftrightarrow>
      (\<exists>a. fst (p (tid, req) x) = Inr a \<and>
        (a = AnswerBool True \<or> (\<exists>v. a \<in> {AnswerAwaitable (Returned v), AnswerObject v} \<and> v = PBool True))))"
proof -
  obtain r x1 where r: "p (tid, req) x = (r, x1)" by (rule prod.exhaust)
  note defs = native_authorization_def as_policy_def native_sync_status_def native_async_status_def streaming_status_def
    sync_status_def async_status_def policy_status_def
  have "native_authorization (Some (\<lambda>tid req. as_policy called_answer p (tid, req))) tid req x = native_sync_status (Some p) (tid, req) x \<and>
      native_authorization (Some (\<lambda>tid req. as_policy awaited_answer p (tid, req))) tid req x = native_async_status (Some p) (tid, req) x \<and>
      streaming_status (Some p) (tid, req) x = native_async_status (Some p) (tid, req) x" if "answers_bool p"
  proof (cases r)
    case (Inr a)
    have "pred_sum (\<lambda>_. True) bool_answer (fst (p (tid, req) x))" using that by (simp only: answers_bool_def)
    with Inr r have "bool_answer a" by simp
    note bool_answerD [OF this]
    with Inr r bool_status [of "called_answer a"] bool_status [of "awaited_answer a"] show ?thesis by (simp add: defs)
  qed (use r in \<open>simp add: defs del: native_status.simps close_boundary.simps answer_status.simps add: raised_status bool_outcome_def\<close>)
  moreover have "fst (native_async_status (Some p) (tid, req) x) = Returned None \<longleftrightarrow>
      (\<exists>a. fst (p (tid, req) x) = Inr a \<and>
        (a = AnswerBool True \<or> (\<exists>v. a \<in> {AnswerAwaitable (Returned v), AnswerObject v} \<and> truthy v)))"
    unfolding native_async_status_def async_status_def by (rule awaited_admits) simp_all
  moreover have "fst (streaming_status (Some p) (tid, req) x) = Returned None \<longleftrightarrow>
      (\<exists>a. fst (p (tid, req) x) = Inr a \<and>
        (a = AnswerBool True \<or> (\<exists>v. a \<in> {AnswerAwaitable (Returned v), AnswerObject v} \<and> is_true v)))"
    unfolding streaming_status_def by (rule awaited_admits) (simp_all add: is_true_def)
  ultimately show ?thesis
    using sync_async_agree [of p "(tid, req)" x] sync_admits [of p "(tid, req)" x] unfolding is_true_def by blast
qed

text \<open>A policy that answers through an awaitable, as the handlers ask for it.\<close>

definition signed_in :: "(string option \<times> http_request, unit) raw_policy" where
  "signed_in = (\<lambda>(tid, req) x.
     (Inr (AnswerAwaitable (Returned (PBool (map_of (rq_headers req) ''x-user'' \<noteq> None)))), x))"

lemma policies_agree_witness:
  "streaming_status (Some signed_in) (None, \<lparr>rq_body = [], rq_params = [], rq_headers = []\<rparr>) () = (Returned (Some 403), ())"
proof -
  let ?req = "\<lparr>rq_body = [], rq_params = [], rq_headers = []\<rparr> :: http_request"
  have "answers_bool signed_in" by (simp add: answers_bool_def signed_in_def)
  then have "streaming_status (Some signed_in) (None, ?req) () = native_async_status (Some signed_in) (None, ?req) ()"
    using policies_agree [of signed_in None ?req "()"] by blast
  also have "\<dots> = (Returned (Some 403), ())"
    by (simp add: native_async_status_def async_status_def policy_status_def signed_in_def)
  finally show ?thesis .
qed

text \<open>
  An awaitable that gives another awaitable, as when a policy forgets to await its check, is an object:
  the native handlers let everybody in, true streaming nobody.
\<close>

lemma forgotten_await_admitted:
  assumes "p c x = (Inr (AnswerAwaitable (Returned (PObj check))), x)"
  shows "native_sync_status (Some p) c x = (Returned None, x)" "native_async_status (Some p) c x = (Returned None, x)"
    "streaming_status (Some p) c x = (Returned (Some 403), x)"
  using assms
  by (simp_all add: native_sync_status_def native_async_status_def streaming_status_def sync_status_def async_status_def
      policy_status_def is_true_def)

end
