(* ===== verification/Spec2Isabelle.thy ===== *)
theory Spec2Isabelle
  imports Prelude Validation Guard Lock_Interface InProcess_Lock Thread_Store Quote Blob_Lease Blob_Concurrent Async_Lock Json Table_Json Table_Store Table_Memory Run_Scope Durable Durable_Activity Service_Bus Platform_Common Store_Renewal Platform_Runs Platform_Memory Platform_Threads Threads_Memory Token_Secrecy Platform_Assistants Stream_Guarantees Checkpoint_Guarantees Checkpoint_Async Channel_Versions App_Guarantees Readiness_Progress Observers Streaming_App Saver_Factories App_Runs Authorization
begin

text \<open>
  A verification library for \<^verbatim>\<open>azure-functions-langgraph\<close>, the package under
  \<^verbatim>\<open>src/src/azure_functions_langgraph/\<close> that serves LangGraph graphs on Azure Functions. Paths
  below are relative to that directory.

  \<^bold>\<open>The program.\<close> A graph is user code; the package wraps its runs. A request reaches a graph
  through one of five adapters: the native endpoints (\<^verbatim>\<open>_handlers.py\<close>), the true-streaming application
  (\<^verbatim>\<open>streaming.py\<close>), the LangGraph Platform API
  (\<^verbatim>\<open>platform/\<close>), a Service Bus trigger (\<^verbatim>\<open>triggers/\<close>) and a Durable orchestration (\<^verbatim>\<open>durable/\<close>). Every
  adapter validates what it got, asks the authorization policy, takes the lock of the thread if the
  graph is checkpointed (\<^verbatim>\<open>locks/\<close>), on the Platform API also the run lock in the thread's record
  (\<^verbatim>\<open>stores/\<close>, \<^verbatim>\<open>platform/stores.py\<close>), hands the graph a guard by which it can see that the lock was lost,
  runs it, tells an observer, and gives the locks back. Checkpoints are kept by a saver on blobs
  (\<^verbatim>\<open>checkpointers/azure_blob.py\<close>). The components share the lock's state, the thread record and the
  blobs; they call each other through small protocols, which are the locales here.

  \<^bold>\<open>Values and errors.\<close> \<open>Prelude\<close> has the Python values (\<open>pyval\<close>; a \<open>PObj\<close> is an object known by its
  address), dictionaries as association lists in insertion order, and results: a raise or an early
  return is the left side of a sum, a coroutine ends with an \<open>outcome\<close> (returned, raised, cancelled, or
  pending when its schedule says that it is never resumed). State is passed explicitly; code that
  calls into a store, a service, a graph or an observer is a function on one polymorphic state, so
  that what these may do to the rest of the world is stated, not assumed away. Interleavings are
  runs of steps: single guarded blocks and calls under the relations \<open>ip_step\<close> and \<open>blob_step\<close> and the function \<open>ready_step\<close>,
  whole operations under \<open>store_step\<close>, \<open>bl_step\<close>, \<open>saver_step\<close> and \<open>app_step\<close>.

  \<^bold>\<open>Theories.\<close> In the order of the code:

  \<^item> \<open>Validation\<close>: \<^verbatim>\<open>_validation.py\<close>. The validators, and that the structure check accepts exactly the
    values within its depth and node limits.
  \<^item> \<open>Guard\<close>: \<^verbatim>\<open>locks/guard.py\<close>. The ownership guard in a run configuration; no value that a client sends
    under the private key survives.
  \<^item> \<open>Lock_Interface\<close>: \<^verbatim>\<open>locks/base.py\<close>, the locale \<open>thread_lock\<close> that every adapter relies on:
    \<open>owner\<close> is the abstract state of a backend, acquiring and releasing change it as promised.
  \<^item> \<open>InProcess_Lock\<close>: \<^verbatim>\<open>locks/inprocess.py\<close> with the heap of its reference-counted states, section by
    section under a step relation: mutual exclusion, an exact registry. It interprets \<open>thread_lock\<close>.
  \<^item> \<open>Blob_Lease\<close>: \<^verbatim>\<open>locks/azure_blob.py\<close> over any lease service and clock: exclusion, when a lease counts
    as lost, that polling ends, that a guard never recovers. It interprets \<open>thread_lock\<close>.
  \<^item> \<open>Blob_Concurrent\<close>: the same lock with many callers at once: acquires drop the mutex around their service calls, while
    others register, release, renew and close. One owner per key; the operations of \<open>Blob_Lease\<close> are its undisturbed runs.
  \<^item> \<open>Async_Lock\<close>: \<^verbatim>\<open>locks/_async.py\<close>. A blocking call that is awaited to its end under every schedule of
    cancellations; a cancelled acquisition leaks no token, a scope gives its lock back.
  \<^item> \<open>Quote\<close>, \<open>Json\<close>: percent-encoding with UTF-8, and \<open>json.dumps\<close> with \<open>json.loads\<close>, with round trips.
  \<^item> \<open>Thread_Store\<close>: the \<open>Thread\<close> record of \<^verbatim>\<open>platform/contracts.py\<close> and the in-memory store of
    \<^verbatim>\<open>platform/stores.py\<close>; the run lock is exclusive.
  \<^item> \<open>Table_Json\<close>, \<open>Table_Store\<close>, \<open>Table_Memory\<close>: \<^verbatim>\<open>stores/_table_json.py\<close> and \<^verbatim>\<open>stores/azure_table.py\<close>, with
    the optimistic loops over ETags. They refine the in-memory store: under any interference each
    operation is one atomic step of \<open>Thread_Store\<close> or changes nothing. \<open>Table_Memory\<close> is a
    table that keeps the named laws of the service.
  \<^item> \<open>Run_Scope\<close>: \<^verbatim>\<open>observability.py\<close>: the context and the events of a run; the locale \<open>run_scope\<close>, a
    thread lock with an observer, interpreted on both backends.
  \<^item> \<open>Durable\<close>, \<open>Durable_Activity\<close>: \<^verbatim>\<open>durable/\<close>: state records, lifecycle handlers, orchestrator, activity.
  \<^item> \<open>Service_Bus\<close>: \<^verbatim>\<open>triggers/service_bus.py\<close>, both handlers.
  \<^item> \<open>Native_Handlers\<close>, \<open>Native_Lifecycle\<close>: \<^verbatim>\<open>_handlers.py\<close>, \<^verbatim>\<open>_run_authorization.py\<close>: invoke and stream, called
    and awaited, and the state endpoint.
  \<^item> \<open>Streaming\<close>, \<open>Stream_Guarantees\<close>: \<^verbatim>\<open>streaming.py\<close>, \<^verbatim>\<open>_stream_response.py\<close>,
    \<^verbatim>\<open>streaming_authorization.py\<close>: the generator of a true stream under any consumer, its cleanup, the
    handlers and the deferred response.
  \<^item> \<open>Authorization\<close>: \<^verbatim>\<open>authorization.py\<close> and its boundaries: what an adapter makes of any answer of a policy.
  \<^item> \<open>Platform_Common\<close>, \<open>Store_Renewal\<close>, \<open>Platform_Runs\<close>, \<open>Platform_Memory\<close>: \<^verbatim>\<open>platform/_common.py\<close>,
    \<^verbatim>\<open>platform/_sse.py\<close>, \<^verbatim>\<open>platform/_store_renewal.py\<close>, \<^verbatim>\<open>platform/_runs.py\<close>: parsing and configuration,
    the renewal of a run lock, the four run routes; the locales \<open>platform_run\<close> and
    \<open>recorded_platform\<close> say what the routes rely on, the in-memory backends satisfy them.
  \<^item> \<open>Platform_Threads\<close>, \<open>Threads_Memory\<close>, \<open>Platform_Assistants\<close>: \<^verbatim>\<open>platform/_threads.py\<close> and
    \<^verbatim>\<open>platform/_assistants.py\<close>; the locale \<open>platform_state\<close> extends \<open>platform_run\<close>.
  \<^item> \<open>Token_Secrecy\<close>: two executions of a thread or run route with differently named tokens, and that no answer and no event tells
    them apart; the locales \<open>renamed_platform\<close> and \<open>renamed_threads\<close> say how the backends go along with a renaming.
  \<^item> \<open>Blob_Paths\<close>, \<open>Blob_Container\<close>, \<open>Checkpoint_Read\<close>, \<open>Checkpoint_Write\<close>, \<open>Checkpoint_Store\<close>,
    \<open>Checkpoint_Tuple\<close>, \<open>Checkpoint_Gc\<close>, \<open>Blob_Memory\<close>, \<open>Checkpoint_Guarantees\<close>:
    \<^verbatim>\<open>checkpointers/azure_blob.py\<close>. Operations run on any container client that keeps
    \<open>container_laws\<close>: a call does what it says, or raises and has or has not taken effect. They
    are simulated by an ideal container that records every state it passes, so a statement about
    these states holds of every crash. \<open>Blob_Memory\<close> is a client that keeps the laws and can break.
  \<^item> \<open>Checkpoint_Async\<close>, \<open>Channel_Versions\<close>: the asynchronous twins of the saver over an asynchronous client, and its
    version numbers. The twins have the effects of the synchronous operations, and runs may mix both.
  \<^item> \<open>App_Metadata\<close>, \<open>Application\<close>, \<open>App_Guarantees\<close>: \<^verbatim>\<open>app.py\<close> with \<^verbatim>\<open>_metadata.py\<close>, \<^verbatim>\<open>_endpoint.py\<close>,
    \<^verbatim>\<open>contracts.py\<close>, \<^verbatim>\<open>openapi.py\<close>: construction, registration of graphs and triggers, the cached table of functions with its
    scale-out guards, the metadata. The guarantees hold of an application after any sequence of calls.
  \<^item> \<open>App_Runs\<close>: the request handlers of \<^verbatim>\<open>app.py\<close>; the table of functions and \<open>Native_Handlers\<close> together.
  \<^item> \<open>Streaming_App\<close>: the application object of \<^verbatim>\<open>streaming.py\<close>, a refinement of \<open>Application\<close>.
  \<^item> \<open>Readiness\<close>, \<open>Readiness_Progress\<close>: \<^verbatim>\<open>_readiness.py\<close>, probes and pool workers in any interleaving: bounded work, no stale
    answer, no deadlock.
  \<^item> \<open>Observers\<close>: the logging observer and \<^verbatim>\<open>observability_otel.py\<close>: what reaches a logger or tracer, the life of a span.
  \<^item> \<open>Saver_Factories\<close>: \<^verbatim>\<open>checkpointers/cosmos.py\<close>, \<^verbatim>\<open>postgres.py\<close>, \<^verbatim>\<open>sqlite.py\<close>: the process environment is restored on
    every path, certificate checks are only dropped for a loopback host.

  \<^bold>\<open>Lemmas.\<close> Each component has an invariant of its state that every operation preserves (\<open>ip_inv\<close>,
  \<open>store_ok\<close>, \<open>bl_ok\<close>, \<open>mem_good\<close>, \<open>world_ok\<close>, \<open>blobs_ok\<close>, \<open>app_ok\<close>, \<open>blob_inv\<close>, \<open>ready_ok\<close>, \<open>otel_ok\<close>); adapters have what they leave unchanged
  (\<open>keeps_lock\<close>, \<open>quiet\<close>, \<open>kept\<close>) and the events they cause (\<open>lifecycle\<close>, \<open>run_trace\<close>, \<open>told\<close>, \<open>settled\<close>), a stream
  being a failure if it has an error frame. A base exception passes most handlers without a terminal event; where one then leaves a
  lock held, a lemma shows it.
  Lock lemmas are proved once in the locales and used through the interpretations. A property has a
  text with its number; one with a hypothesis is followed by an instance at concrete values.

  \<^bold>\<open>Bounds.\<close> \<open>poll\<close> has a unit of fuel for each pause that fits in the timeout and two more; \<open>acquire_returns\<close>
  shows it is enough. The JSON decoder has one unit per character, more than its descent takes.
  The ETag loops try three times, as the code does. \<open>stream_loop\<close> and \<open>native_loop\<close> have
  \<open>max_bytes + 1\<close> steps: every frame has a byte, so the limit ends the loop first
  (\<open>stream_bounded\<close>, \<open>native_stream_bounded\<close>), also for a graph that yields for ever. A true stream has no fuel: its
  recursion is over what the consumer does (\<open>stream_terminates\<close>).

  \<^bold>\<open>Parameters.\<close> Code that is not in the repository is an argument: pydantic's validation of a request
  body, graphs, policies and observers, the Azure clients for leases, tables and blobs, the serializer and the
  checkpoint helpers of LangGraph, clocks, generated ids, \<open>str\<close> and \<open>repr\<close> of values and the text of times. Where a
  proof needs more than their types, the need is a named definition (\<open>container_laws\<close>, \<open>cas_laws\<close>, \<open>clock_laws\<close>,
  \<open>serde_ok\<close>, \<open>graph_quiet\<close>, \<open>native_keeps\<close>, \<open>threads_blind\<close>) and an instance is given.

  \<^bold>\<open>Limits of the data.\<close> A character is a code point below 256, so text outside Latin-1 is not
  covered; there are no floats in \<open>pyval\<close>; \<open>unquote\<close> of bytes that are no such text is the parameter
  \<open>lossy\<close>; \<open>casefold\<close> is that of these characters. Exceptions have a type name and a message; a subclass is
  named by the type that a handler catches. Logging and tracing of stacks are left out, but for the observers' own records; a run's times
  and execution id are in \<open>Observers\<close> only.

  \<^bold>\<open>Not modelled.\<close> What the Azure SDK makes of the table of functions, and the JSON schemas and validation of pydantic, which
  are parameters. Package facades, which only re-export. The scripts under \<^verbatim>\<open>tools/\<close> and \<^verbatim>\<open>scripts/\<close> (benchmarks,
  workflow linters, security reports) and the examples, which are not part of the package.
\<close>

end
